(* ===== verification/TJ_Prelude.thy ===== *)
theory TJ_Prelude
  imports Complex_Main "HOL-Library.Multiset"
begin

text \<open>
  The shared vocabulary of the development: Python values the components have in common
  (strings, environment variables, decimal integers, finite floats), error results, and the
  generic lemmas on lists, options and maps the component proofs rely on.

  Conventions. A Python \<open>float\<close> that holds a time or an amount is a \<open>rat\<close>: arithmetic is
  exact, rounding of IEEE doubles is not modelled. A Python \<open>str\<close> is a \<open>string\<close>; a character
  beyond ASCII is written as its UTF-8 bytes. Python's falsy values (the empty string, 0, None)
  are tested the way the source tests them. A raised exception is the \<open>Inl\<close> side of a sum.
  \<open>os.environ\<close> is a function from names to optional values and \<open>time.time()\<close> is an argument.
\<close>

named_theorems tj_defs \<open>definitions unfolded by the component proofs\<close>

type_synonym ('e, 'a) result = "'e + 'a"
type_synonym environ = "string \<Rightarrow> string option"
type_synonym seconds = rat

subsection \<open>Results\<close>

definition is_ok :: "('e, 'a) result \<Rightarrow> bool" where
  "is_ok r = (case r of Inl _ \<Rightarrow> False | Inr _ \<Rightarrow> True)"

lemma is_ok_simps [simp]: "is_ok (Inr x)" "\<not> is_ok (Inl e)"
  by (simp_all add: is_ok_def)

definition rbind :: "('e, 'a) result \<Rightarrow> ('a \<Rightarrow> ('e, 'b) result) \<Rightarrow> ('e, 'b) result" where
  "rbind r f = (case r of Inl e \<Rightarrow> Inl e | Inr x \<Rightarrow> f x)"

lemma rbind_simps [simp]: "rbind (Inl e) f = Inl e" "rbind (Inr x) f = f x"
  by (simp_all add: rbind_def)

lemma rbind_InrE:
  assumes "rbind r f = Inr y"
  obtains x where "r = Inr x" "f x = Inr y"
  using assms by (cases r) auto

subsection \<open>Characters and strings\<close>

text \<open>ASCII behaviour of \<open>str.strip\<close>, \<open>str.lower\<close>, \<open>str.upper\<close> and \<open>str.startswith\<close>.\<close>

definition py_isspace :: "char \<Rightarrow> bool" where
  "py_isspace c = (let n = of_char c :: nat in 9 \<le> n \<and> n \<le> 13 \<or> 28 \<le> n \<and> n \<le> 32)"

definition py_strip :: "string \<Rightarrow> string" where
  "py_strip s = rev (dropWhile py_isspace (rev (dropWhile py_isspace s)))"

definition lower_char :: "char \<Rightarrow> char" where
  "lower_char c = (let n = of_char c :: nat in if 65 \<le> n \<and> n \<le> 90 then char_of (n + 32) else c)"

definition upper_char :: "char \<Rightarrow> char" where
  "upper_char c = (let n = of_char c :: nat in if 97 \<le> n \<and> n \<le> 122 then char_of (n - 32) else c)"

definition py_lower :: "string \<Rightarrow> string" where
  "py_lower = map lower_char"

definition py_upper :: "string \<Rightarrow> string" where
  "py_upper = map upper_char"

text \<open>\<open>a or b\<close> on strings.\<close>

definition str_or :: "string \<Rightarrow> string \<Rightarrow> string" where
  "str_or a b = (if a = '''' then b else a)"

text \<open>\<open>os.environ.get(name, "")\<close>.\<close>

definition env_get :: "environ \<Rightarrow> string \<Rightarrow> string" where
  "env_get env name = (case env name of None \<Rightarrow> '''' | Some v \<Rightarrow> v)"

lemma py_strip_Nil [simp]: "py_strip [] = []"
  by (simp add: py_strip_def)

lemma set_py_strip: "set (py_strip s) \<subseteq> set s"
  by (auto simp: py_strip_def dest!: set_dropWhileD)

subsection \<open>Decimal integers: \<open>str(n)\<close> and \<open>int(s)\<close>\<close>

definition digit_char :: "nat \<Rightarrow> char" where
  "digit_char d = char_of (48 + d)"

definition is_digit :: "char \<Rightarrow> bool" where
  "is_digit c = (let n = of_char c :: nat in 48 \<le> n \<and> n \<le> 57)"

definition digit_val :: "char \<Rightarrow> nat" where
  "digit_val c = of_char c - 48"

fun show_nat :: "nat \<Rightarrow> string" where
  "show_nat n = (if n < 10 then [digit_char n] else show_nat (n div 10) @ [digit_char (n mod 10)])"

declare show_nat.simps [simp del]

definition show_int :: "int \<Rightarrow> string" where
  "show_int i = (if i < 0 then ''-'' @ show_nat (nat (- i)) else show_nat (nat i))"

definition read_digits :: "string \<Rightarrow> nat" where
  "read_digits s = foldl (\<lambda>acc c. 10 * acc + digit_val c) 0 s"

text \<open>
  Python's \<open>int(text)\<close>: surrounding white space, one optional sign, then digits, with single
  underscores allowed between two digits.
\<close>

fun digits_ok :: "bool \<Rightarrow> string \<Rightarrow> bool" where
  "digits_ok prev_digit [] = prev_digit"
| "digits_ok prev_digit (c # cs) =
     (if is_digit c then digits_ok True cs
      else if c = CHR ''_'' \<and> prev_digit then digits_ok False cs
      else False)"

definition py_int_body :: "string \<Rightarrow> nat option" where
  "py_int_body s = (if digits_ok False s then Some (read_digits (filter is_digit s)) else None)"

definition py_int :: "string \<Rightarrow> int option" where
  "py_int text =
     (case py_strip text of
        [] \<Rightarrow> None
      | c # cs \<Rightarrow>
          if c = CHR ''-'' then map_option (\<lambda>n. - int n) (py_int_body cs)
          else if c = CHR ''+'' then map_option int (py_int_body cs)
          else map_option int (py_int_body (c # cs)))"

lemma of_char_digit_char: "d < 10 \<Longrightarrow> of_char (digit_char d) = 48 + d"
  by (simp add: digit_char_def)

lemma is_digit_digit_char [simp]: "d < 10 \<Longrightarrow> is_digit (digit_char d)"
  by (simp add: is_digit_def of_char_digit_char)

lemma digit_val_digit_char [simp]: "d < 10 \<Longrightarrow> digit_val (digit_char d) = d"
  by (simp add: digit_val_def of_char_digit_char)

lemma show_nat_digits: "c \<in> set (show_nat n) \<Longrightarrow> is_digit c"
proof (induction n arbitrary: c rule: show_nat.induct)
  case (1 n)
  then show ?case by (subst (asm) (2) show_nat.simps) (auto split: if_splits)
qed

lemma show_nat_nonempty [simp]: "show_nat n \<noteq> []"
  by (subst show_nat.simps) simp

lemma read_digits_snoc: "read_digits (s @ [c]) = 10 * read_digits s + digit_val c"
  by (simp add: read_digits_def)

lemma read_show_nat [simp]: "read_digits (show_nat n) = n"
proof (induction n rule: show_nat.induct)
  case (1 n)
  show ?case
  proof (cases "n < 10")
    case True
    then show ?thesis by (simp add: show_nat.simps [of n] read_digits_def)
  next
    case False
    with 1 show ?thesis by (simp add: show_nat.simps [of n] read_digits_snoc)
  qed
qed

lemma show_nat_inject [simp]: "show_nat m = show_nat n \<longleftrightarrow> m = n"
  using read_show_nat by metis

lemma digits_ok_all: "(\<forall>c\<in>set s. is_digit c) \<Longrightarrow> b \<or> s \<noteq> [] \<Longrightarrow> digits_ok b s"
  by (induction s arbitrary: b) auto

lemma digit_not_space: "is_digit c \<Longrightarrow> \<not> py_isspace c"
  by (auto simp: is_digit_def py_isspace_def Let_def)

lemma minus_not_space: "\<not> py_isspace (CHR ''-'')"
  by (simp add: py_isspace_def)

lemma py_strip_id: "(\<forall>c\<in>set s. \<not> py_isspace c) \<Longrightarrow> py_strip s = s"
proof -
  have id: "(\<forall>c\<in>set xs. \<not> P c) \<Longrightarrow> dropWhile P xs = xs" for P and xs :: string
    by (cases xs) auto
  show "(\<forall>c\<in>set s. \<not> py_isspace c) \<Longrightarrow> py_strip s = s"
    by (simp add: py_strip_def id)
qed

lemma py_int_body_show_nat [simp]: "py_int_body (show_nat n) = Some n"
  using show_nat_digits by (simp add: py_int_body_def digits_ok_all)

lemma show_nat_hd: "\<exists>c cs. show_nat n = c # cs \<and> is_digit c"
  using show_nat_nonempty [of n] show_nat_digits [of "hd (show_nat n)" n]
  by (cases "show_nat n") auto

lemma py_int_show_int [simp]: "py_int (show_int i) = Some i"
proof (cases "i < 0")
  case True
  then have "py_strip (show_int i) = CHR ''-'' # show_nat (nat (- i))"
    by (simp add: show_int_def)
       (rule py_strip_id, auto simp: minus_not_space dest: show_nat_digits digit_not_space)
  with True show ?thesis by (simp add: py_int_def)
next
  case False
  obtain c cs where s: "show_nat (nat i) = c # cs" "is_digit c"
    using show_nat_hd by blast
  have "py_strip (show_int i) = c # cs"
    using False s(1) [symmetric]
    by (simp add: show_int_def) (rule py_strip_id, auto dest: show_nat_digits digit_not_space)
  moreover have "c \<noteq> CHR ''-''" "c \<noteq> CHR ''+''"
    using s(2) by (auto simp: is_digit_def)
  ultimately show ?thesis
    using False py_int_body_show_nat [of "nat i"] by (simp add: py_int_def s(1))
qed

subsection \<open>Rounding\<close>

text \<open>Python's \<open>round(x)\<close>: the nearest integer, ties to the even one.\<close>

definition round_half_even :: "rat \<Rightarrow> int" where
  "round_half_even x =
     (let f = \<lfloor>x\<rfloor>; r = x - of_int f in
      if r < 1 / 2 then f else if r > 1 / 2 then f + 1 else if even f then f else f + 1)"

lemma round_half_even_bounds:
  "of_int (round_half_even x) - 1 / 2 \<le> x" "x \<le> of_int (round_half_even x) + 1 / 2"
proof -
  define f where "f = \<lfloor>x\<rfloor>"
  have f: "of_int f \<le> x" "x < of_int f + 1" unfolding f_def by linarith+
  show "of_int (round_half_even x) - 1 / 2 \<le> x" "x \<le> of_int (round_half_even x) + 1 / 2"
    unfolding round_half_even_def Let_def f_def [symmetric] using f by simp_all
qed

lemma round_half_even_of_int [simp]: "round_half_even (of_int k) = k"
  by (simp add: round_half_even_def)

subsection \<open>Lists\<close>

text \<open>\<open>xs.insert(i, x)\<close> for \<open>0 <= i\<close>; \<open>xs.pop(i)\<close> for an index in range.\<close>

definition insert_at :: "nat \<Rightarrow> 'a \<Rightarrow> 'a list \<Rightarrow> 'a list" where
  "insert_at i x xs = take i xs @ x # drop i xs"

definition delete_at :: "nat \<Rightarrow> 'a list \<Rightarrow> 'a list" where
  "delete_at i xs = take i xs @ drop (Suc i) xs"

lemma sort_eq_Nil [simp]: "sort xs = [] \<longleftrightarrow> xs = []"
  by (metis length_0_conv length_sort)

lemma length_insert_at [simp]: "length (insert_at i x xs) = Suc (length xs)"
  by (simp add: insert_at_def)

lemma mset_insert_at [simp]: "mset (insert_at i x xs) = add_mset x (mset xs)"
  using mset_append [of "take i xs" "drop i xs"] by (simp add: insert_at_def)

lemma set_insert_at [simp]: "set (insert_at i x xs) = insert x (set xs)"
  by (metis mset_insert_at set_mset_add_mset_insert set_mset_mset)

lemma delete_insert_at [simp]: "i \<le> length xs \<Longrightarrow> delete_at i (insert_at i x xs) = xs"
  by (simp add: delete_at_def insert_at_def)

lemma insert_delete_at: "i < length xs \<Longrightarrow> insert_at i (xs ! i) (delete_at i xs) = xs"
  by (simp add: insert_at_def delete_at_def id_take_nth_drop [symmetric])

lemma mset_delete_at: "i < length xs \<Longrightarrow> add_mset (xs ! i) (mset (delete_at i xs)) = mset xs"
  by (metis insert_delete_at mset_insert_at)

end
