(* ===== verification/Calendar.thy ===== *)
theory Calendar
  imports TJ_Prelude "HOL-Library.List_Lexorder" "HOL-Library.Char_ord"
begin

text \<open>
  What the components use of Python's \<open>datetime\<close>: the proleptic Gregorian calendar, day
  ordinals and their inverse, \<open>date.fromisoformat\<close>, and the UTC date of a unix timestamp.
  A date is a triple (year, month, day).
\<close>

type_synonym ymd = "int \<times> int \<times> int"

subsection \<open>Years and months\<close>

definition is_leap :: "int \<Rightarrow> bool" where
  "is_leap y = (y mod 4 = 0 \<and> (y mod 100 \<noteq> 0 \<or> y mod 400 = 0))"

definition days_in_month :: "int \<Rightarrow> int \<Rightarrow> int" where
  "days_in_month y m =
     (if m = 2 then (if is_leap y then 29 else 28)
      else if m \<in> {4, 6, 9, 11} then 30 else 31)"

definition days_before_year :: "int \<Rightarrow> int" where
  "days_before_year y = (y - 1) * 365 + (y - 1) div 4 - (y - 1) div 100 + (y - 1) div 400"

text \<open>Days in the year before month \<open>m\<close> (\<open>_DAYS_BEFORE_MONTH\<close>, plus the leap day).\<close>

definition days_before_month :: "bool \<Rightarrow> int \<Rightarrow> int" where
  "days_before_month leap m =
     (if m \<le> 1 then 0 else if m = 2 then 31
      else (if leap then 1 else 0) +
        (if m = 3 then 59 else if m = 4 then 90 else if m = 5 then 120 else if m = 6 then 151
         else if m = 7 then 181 else if m = 8 then 212 else if m = 9 then 243
         else if m = 10 then 273 else if m = 11 then 304 else if m = 12 then 334 else 365))"

fun valid_ymd :: "ymd \<Rightarrow> bool" where
  "valid_ymd (y, m, d) = (1 \<le> m \<and> m \<le> 12 \<and> 1 \<le> d \<and> d \<le> days_in_month y m)"

fun ymd2ord :: "ymd \<Rightarrow> int" where
  "ymd2ord (y, m, d) = days_before_year y + days_before_month (is_leap y) m + d"

text \<open>The month holding day \<open>n\<close> (from 0) of a year.\<close>

definition month_of_day :: "bool \<Rightarrow> int \<Rightarrow> int" where
  "month_of_day leap n =
     (let b = days_before_month leap in
      if n < b 2 then 1 else if n < b 3 then 2 else if n < b 4 then 3 else if n < b 5 then 4
      else if n < b 6 then 5 else if n < b 7 then 6 else if n < b 8 then 7 else if n < b 9 then 8
      else if n < b 10 then 9 else if n < b 11 then 10 else if n < b 12 then 11 else 12)"

definition ord2ymd :: "int \<Rightarrow> ymd" where
  "ord2ymd ord =
     (let n = ord - 1;
          n400 = n div 146097; n = n mod 146097;
          n100 = n div 36524; n = n mod 36524;
          n4 = n div 1461; n = n mod 1461;
          n1 = n div 365; n = n mod 365;
          year = n400 * 400 + n100 * 100 + n4 * 4 + n1 + 1
      in if n1 = 4 \<or> n100 = 4 then (year - 1, 12, 31)
         else let leap = is_leap year; m = month_of_day leap n
              in (year, m, n - days_before_month leap m + 1))"

subsection \<open>Ordinals and dates are inverse\<close>

lemma div_unique_int: "x = k * q + r \<Longrightarrow> 0 \<le> r \<Longrightarrow> r < k \<Longrightarrow> x div k = q"
  for x k q r :: int
  by (metis int_div_pos_eq)

lemma mod_unique_int: "x = k * q + r \<Longrightarrow> 0 \<le> r \<Longrightarrow> r < k \<Longrightarrow> x mod k = r"
  for x k q r :: int
  by (metis int_mod_pos_eq)

lemma days_before_year_decomp:
  assumes "0 \<le> b" "b \<le> 3" "0 \<le> c" "c \<le> 24" "0 \<le> d" "d \<le> 3"
  shows "days_before_year (a * 400 + b * 100 + c * 4 + d + 1) = 146097 * a + 36524 * b + 1461 * c + 365 * d"
proof -
  let ?y = "a * 400 + b * 100 + c * 4 + d"
  have "?y div 4 = 100 * a + 25 * b + c"
    by (rule div_unique_int [of _ _ _ d]) (use assms in auto)
  moreover have "?y div 100 = 4 * a + b"
    by (rule div_unique_int [of _ _ _ "c * 4 + d"]) (use assms in auto)
  moreover have "?y div 400 = a"
    by (rule div_unique_int [of _ _ _ "b * 100 + c * 4 + d"]) (use assms in auto)
  ultimately show ?thesis by (simp add: days_before_year_def)
qed

lemma days_before_month_simps [simp]:
  "days_before_month l 1 = 0" "days_before_month l 2 = 31"
  "days_before_month l 3 = 59 + (if l then 1 else 0)" "days_before_month l 4 = 90 + (if l then 1 else 0)"
  "days_before_month l 5 = 120 + (if l then 1 else 0)" "days_before_month l 6 = 151 + (if l then 1 else 0)"
  "days_before_month l 7 = 181 + (if l then 1 else 0)" "days_before_month l 8 = 212 + (if l then 1 else 0)"
  "days_before_month l 9 = 243 + (if l then 1 else 0)" "days_before_month l 10 = 273 + (if l then 1 else 0)"
  "days_before_month l 11 = 304 + (if l then 1 else 0)" "days_before_month l 12 = 334 + (if l then 1 else 0)"
  by (simp_all add: days_before_month_def)

lemma month_cases:
  fixes m :: int
  assumes "1 \<le> m" "m \<le> 12"
  obtains "m = 1" | "m = 2" | "m = 3" | "m = 4" | "m = 5" | "m = 6" | "m = 7" | "m = 8" | "m = 9"
    | "m = 10" | "m = 11" | "m = 12"
proof -
  have "m = 1 \<or> m = 2 \<or> m = 3 \<or> m = 4 \<or> m = 5 \<or> m = 6 \<or> m = 7 \<or> m = 8 \<or> m = 9 \<or>
      m = 10 \<or> m = 11 \<or> m = 12"
    using assms by arith
  then show thesis using that by blast
qed

lemma month_of_day_leap:
  assumes "0 \<le> n" "n < 366" "is_leap y"
  shows "valid_ymd (y, month_of_day True n, n - days_before_month True (month_of_day True n) + 1)"
  using assms
  by (cases "n < 31", simp add: month_of_day_def Let_def days_in_month_def,
      cases "n < 60", simp add: month_of_day_def Let_def days_in_month_def,
      cases "n < 91", simp add: month_of_day_def Let_def days_in_month_def,
      cases "n < 121", simp add: month_of_day_def Let_def days_in_month_def,
      cases "n < 152", simp add: month_of_day_def Let_def days_in_month_def,
      cases "n < 182", simp add: month_of_day_def Let_def days_in_month_def,
      cases "n < 213", simp add: month_of_day_def Let_def days_in_month_def,
      cases "n < 244", simp add: month_of_day_def Let_def days_in_month_def,
      cases "n < 274", simp add: month_of_day_def Let_def days_in_month_def,
      cases "n < 305", simp add: month_of_day_def Let_def days_in_month_def,
      cases "n < 335", simp add: month_of_day_def Let_def days_in_month_def,
      simp add: month_of_day_def Let_def days_in_month_def)

lemma month_of_day_common:
  assumes "0 \<le> n" "n < 365" "\<not> is_leap y"
  shows "valid_ymd (y, month_of_day False n, n - days_before_month False (month_of_day False n) + 1)"
  using assms
  by (cases "n < 31", simp add: month_of_day_def Let_def days_in_month_def,
      cases "n < 59", simp add: month_of_day_def Let_def days_in_month_def,
      cases "n < 90", simp add: month_of_day_def Let_def days_in_month_def,
      cases "n < 120", simp add: month_of_day_def Let_def days_in_month_def,
      cases "n < 151", simp add: month_of_day_def Let_def days_in_month_def,
      cases "n < 181", simp add: month_of_day_def Let_def days_in_month_def,
      cases "n < 212", simp add: month_of_day_def Let_def days_in_month_def,
      cases "n < 243", simp add: month_of_day_def Let_def days_in_month_def,
      cases "n < 273", simp add: month_of_day_def Let_def days_in_month_def,
      cases "n < 304", simp add: month_of_day_def Let_def days_in_month_def,
      cases "n < 334", simp add: month_of_day_def Let_def days_in_month_def,
      simp add: month_of_day_def Let_def days_in_month_def)

lemma leap_tail:
  fixes a b c :: int
  assumes "0 \<le> b" "b \<le> 3" "0 \<le> c" "c \<le> 24"
  shows "is_leap (a * 400 + b * 100 + c * 4 + 4) \<longleftrightarrow> c \<noteq> 24 \<or> b = 3"
proof -
  let ?y = "a * 400 + b * 100 + c * 4 + 4"
  have 4: "?y mod 4 = 0"
    by (rule mod_unique_int [of _ _ "a * 100 + b * 25 + c + 1"]) auto
  have 100: "?y mod 100 = (if c = 24 then 0 else c * 4 + 4)"
    by (rule mod_unique_int [of _ _ "a * 4 + b + (if c = 24 then 1 else 0)"]) (use assms in auto)
  have 400: "?y mod 400 = (if b = 3 then 0 else b * 100 + 100)" if "c = 24"
    by (rule mod_unique_int [of _ _ "a + (if b = 3 then 1 else 0)"]) (use assms that in auto)
  show ?thesis
    using assms 4 100 400 by (cases "c = 24") (auto simp: is_leap_def)
qed

lemma leap_inner:
  fixes a b c d :: int
  assumes "0 \<le> d" "d \<le> 2"
  shows "\<not> is_leap (a * 400 + b * 100 + c * 4 + d + 1)"
proof -
  have "(a * 400 + b * 100 + c * 4 + d + 1) mod 4 = d + 1"
    by (rule mod_unique_int [of _ _ "a * 100 + b * 25 + c"]) (use assms in auto)
  then show ?thesis using assms by (simp add: is_leap_def)
qed

text \<open>The four divisions of \<open>ord2ymd\<close>, with the ranges of their quotients.\<close>

lemma ord_split:
  fixes n :: int
  obtains a b c d r where
    "n div 146097 = a" "n mod 146097 div 36524 = b" "n mod 146097 mod 36524 div 1461 = c"
    "n mod 146097 mod 36524 mod 1461 div 365 = d" "n mod 146097 mod 36524 mod 1461 mod 365 = r"
    "n = 146097 * a + 36524 * b + 1461 * c + 365 * d + r"
    "0 \<le> b" "b \<le> 4" "0 \<le> c" "c \<le> 24" "0 \<le> d" "d \<le> 4" "0 \<le> r" "r < 365"
    "b = 4 \<longrightarrow> c = 0 \<and> d = 0 \<and> r = 0"
    "d = 4 \<longrightarrow> r = 0 \<and> (c \<noteq> 24 \<or> b = 3)"
proof -
  define m where "m = n mod 146097"
  define k where "k = m mod 36524"
  define l where "l = k mod 1461"
  define a where "a = n div 146097"
  define b where "b = m div 36524"
  define c where "c = k div 1461"
  define d where "d = l div 365"
  define r where "r = l mod 365"
  have n: "n = 146097 * a + m" unfolding a_def m_def by (rule mult_div_mod_eq [symmetric])
  have m: "0 \<le> m" "m < 146097" "m = 36524 * b + k"
    unfolding b_def k_def by (simp_all add: m_def mult_div_mod_eq)
  have k: "0 \<le> k" "k < 36524" "k = 1461 * c + l"
    unfolding c_def l_def by (simp_all add: k_def mult_div_mod_eq)
  have l: "0 \<le> l" "l < 1461" "l = 365 * d + r"
    unfolding d_def r_def by (simp_all add: l_def mult_div_mod_eq)
  have r: "0 \<le> r" "r < 365" by (simp_all add: r_def)
  have b: "0 \<le> b" "b \<le> 4" using m k by linarith+
  have c: "0 \<le> c" "c \<le> 24" using k l by linarith+
  have d: "0 \<le> d" "d \<le> 4" using l r by linarith+
  have b4: "c = 0 \<and> d = 0 \<and> r = 0" if "b = 4"
  proof -
    have "k = 0" using that m k by linarith
    then have "c = 0" "l = 0" using k l c by linarith+
    then show ?thesis using l r d by linarith
  qed
  have d4: "r = 0 \<and> (c \<noteq> 24 \<or> b = 3)" if "d = 4"
  proof -
    have l': "l = 1460" "r = 0" using that l r by linarith+
    have "b = 3" if "c = 24"
      using that l' k m b4 b by linarith
    then show ?thesis using l' by blast
  qed
  have nn: "n = 146097 * a + 36524 * b + 1461 * c + 365 * d + r"
    using n m(3) k(3) l(3) by linarith
  show thesis
    by (rule that [OF a_def [symmetric] b_def [unfolded m_def, symmetric]
          c_def [unfolded k_def m_def, symmetric] d_def [unfolded l_def k_def m_def, symmetric]
          r_def [unfolded l_def k_def m_def, symmetric] nn b c d r impI [OF b4] impI [OF d4]])
qed

lemma ord2ymd_cases:
  obtains
    (special) y where "ord2ymd n = (y, 12, 31)" "is_leap y" "days_before_year y + 366 = n"
  | (general) y r where "ord2ymd n = (y, month_of_day (is_leap y) r,
       r - days_before_month (is_leap y) (month_of_day (is_leap y) r) + 1)"
      "0 \<le> r" "r < 365" "days_before_year y + r + 1 = n"
proof -
  obtain a b c d r where q:
    "(n - 1) div 146097 = a" "(n - 1) mod 146097 div 36524 = b"
    "(n - 1) mod 146097 mod 36524 div 1461 = c" "(n - 1) mod 146097 mod 36524 mod 1461 div 365 = d"
    "(n - 1) mod 146097 mod 36524 mod 1461 mod 365 = r"
    and e: "n - 1 = 146097 * a + 36524 * b + 1461 * c + 365 * d + r"
    and rng: "0 \<le> b" "b \<le> 4" "0 \<le> c" "c \<le> 24" "0 \<le> d" "d \<le> 4" "0 \<le> r" "r < 365"
    and b4: "b = 4 \<longrightarrow> c = 0 \<and> d = 0 \<and> r = 0"
    and d4: "d = 4 \<longrightarrow> r = 0 \<and> (c \<noteq> 24 \<or> b = 3)"
    by (rule ord_split [of "n - 1"]) (rule that; assumption)
  let ?year = "a * 400 + b * 100 + c * 4 + d + 1"
  consider "b = 4" | "b \<le> 3" "d = 4" | "b \<le> 3" "d \<le> 3" using rng by linarith
  then show thesis
  proof cases
    case 1
    have "ord2ymd n = (a * 400 + 400, 12, 31)"
      using 1 b4 by (simp add: ord2ymd_def Let_def q)
    moreover have "is_leap (a * 400 + 400)"
      using leap_tail [of 3 24 a] by (simp add: add.commute)
    moreover have "days_before_year (a * 400 + 400) + 366 = n"
      using days_before_year_decomp [of 3 24 3 a] e 1 b4 by (simp add: add.commute)
    ultimately show thesis by (rule special)
  next
    case 2
    have "ord2ymd n = (a * 400 + b * 100 + c * 4 + 4, 12, 31)"
      using 2 by (simp add: ord2ymd_def Let_def q)
    moreover have "is_leap (a * 400 + b * 100 + c * 4 + 4)"
      using leap_tail [of b c a] rng 2 d4 by simp
    moreover have "days_before_year (a * 400 + b * 100 + c * 4 + 4) + 366 = n"
      using days_before_year_decomp [of b c 3 a] e 2 rng d4 by (simp add: add.commute)
    ultimately show thesis by (rule special)
  next
    case 3
    have "ord2ymd n = (?year, month_of_day (is_leap ?year) r,
       r - days_before_month (is_leap ?year) (month_of_day (is_leap ?year) r) + 1)"
      using 3 by (simp add: ord2ymd_def Let_def q)
    moreover have "days_before_year ?year + r + 1 = n"
      using days_before_year_decomp [of b c d a] e 3 rng by simp
    ultimately show thesis using rng by (intro general)
  qed
qed

lemma valid_ord2ymd [simp]: "valid_ymd (ord2ymd n)"
proof (cases n rule: ord2ymd_cases)
  case (special y)
  then show ?thesis by (simp add: days_in_month_def)
next
  case (general y r)
  then show ?thesis
    using month_of_day_leap [of r y] month_of_day_common [of r y] by (cases "is_leap y") auto
qed

lemma ymd2ord_ord2ymd [simp]: "ymd2ord (ord2ymd n) = n"
proof (cases n rule: ord2ymd_cases)
  case (special y)
  then show ?thesis by simp
next
  case (general y r)
  then show ?thesis by simp
qed

lemma leap_sum:
  fixes y :: int
  assumes "A = A' + (if p4 then 1 else 0)" "B = B' + (if p100 then 1 else 0)"
    "C = C' + (if p400 then 1 else 0)" "p400 \<Longrightarrow> p100" "p100 \<Longrightarrow> p4"
  shows "y * 365 + A - B + C =
    (y - 1) * 365 + A' - B' + C' + (if p4 \<and> (\<not> p100 \<or> p400) then 366 else 365)"
  using assms by (cases p4; cases p100; cases p400) auto

lemma days_before_year_Suc: "days_before_year (y + 1) = days_before_year y + (if is_leap y then 366 else 365)"
proof -
  have d: "y div k = (y - 1) div k + (if y mod k = 0 then 1 else 0)" if k: "0 < k" for k :: int
  proof -
    define q r where "q = y div k" and "r = y mod k"
    have y: "y = k * q + r" and r: "0 \<le> r" "r < k"
      using k by (simp_all add: q_def r_def)
    have "(y - 1) div k = (if r = 0 then q - 1 else q)"
    proof (cases "r = 0")
      case True
      then have "y - 1 = k * (q - 1) + (k - 1)" using y by (simp add: right_diff_distrib)
      then show ?thesis using True k div_unique_int [of "y - 1" k "q - 1" "k - 1"] by auto
    next
      case False
      then have "y - 1 = k * q + (r - 1)" using y by simp
      then show ?thesis using False k r div_unique_int [of "y - 1" k q "r - 1"] by auto
    qed
    then show ?thesis by (simp add: q_def r_def)
  qed
  have 400: "y mod 400 = 0 \<Longrightarrow> y mod 100 = 0"
    using dvd_trans [of 100 400 y] by (simp add: mod_eq_0_iff_dvd)
  have 100: "y mod 100 = 0 \<Longrightarrow> y mod 4 = 0"
    using dvd_trans [of 4 100 y] by (simp add: mod_eq_0_iff_dvd)
  have e: "days_before_year (y + 1) = y * 365 + y div 4 - y div 100 + y div 400"
    by (simp add: days_before_year_def)
  show ?thesis
    unfolding e
    unfolding days_before_year_def is_leap_def
    by (rule leap_sum [OF d [of 4] d [of 100] d [of 400] 400 100]) simp_all
qed

lemma days_before_year_mono: "y < y' \<Longrightarrow> days_before_year y + (if is_leap y then 366 else 365) \<le> days_before_year y'"
proof (induction y' rule: int_gr_induct [where k = y])
  case base
  then show ?case by (simp add: days_before_year_Suc)
next
  case (step i)
  then show ?case using days_before_year_Suc [of i] by (simp split: if_splits)
qed

lemma day_of_year_bounds:
  assumes "valid_ymd (y, m, d)"
  shows "1 \<le> days_before_month (is_leap y) m + d"
    and "days_before_month (is_leap y) m + d \<le> (if is_leap y then 366 else 365)"
proof -
  have m: "1 \<le> m" "m \<le> 12" using assms by auto
  show "1 \<le> days_before_month (is_leap y) m + d"
    using m assms by (cases rule: month_cases) (auto simp: days_in_month_def)
  show "days_before_month (is_leap y) m + d \<le> (if is_leap y then 366 else 365)"
    using m assms by (cases rule: month_cases) (auto simp: days_in_month_def split: if_splits)
qed

text \<open>Within a year, a later month starts after every day of an earlier one.\<close>

lemma days_before_month_mono:
  assumes "1 \<le> m" "m < m'" "m' \<le> 12" "d \<le> days_in_month y m"
  shows "days_before_month (is_leap y) m + d \<le> days_before_month (is_leap y) m'"
proof -
  have step: "days_before_month (is_leap y) k + days_in_month y k \<le> days_before_month (is_leap y) (k + 1)"
    if "1 \<le> k" "k \<le> 11" for k
  proof -
    have "1 \<le> k" "k \<le> 12" using that by auto
    then show ?thesis using that by (cases rule: month_cases) (auto simp: days_in_month_def)
  qed
  have "days_before_month (is_leap y) (m + 1) \<le> days_before_month (is_leap y) k"
    if "m + 1 \<le> k" "k \<le> 12" for k
    using that
  proof (induction k rule: int_ge_induct)
    case base
    then show ?case by simp
  next
    case (step k)
    have "0 \<le> days_in_month y k" by (simp add: days_in_month_def)
    with step \<open>1 \<le> m\<close> show ?case
      using \<open>\<And>k. 1 \<le> k \<Longrightarrow> k \<le> 11 \<Longrightarrow> days_before_month (is_leap y) k + days_in_month y k \<le> days_before_month (is_leap y) (k + 1)\<close> [of k]
      by simp
  qed
  from this [of m'] step [of m] assms show ?thesis by simp
qed

lemma ymd2ord_lex:
  assumes "valid_ymd (y, m, d)" "valid_ymd (y', m', d')"
    and "y < y' \<or> y = y' \<and> (m < m' \<or> m = m' \<and> d < d')"
  shows "ymd2ord (y, m, d) < ymd2ord (y', m', d')"
proof -
  consider "y < y'" | "y = y'" "m < m'" | "y = y'" "m = m'" "d < d'" using assms(3) by blast
  then show ?thesis
  proof cases
    case 1
    then show ?thesis
      using days_before_year_mono [OF 1] day_of_year_bounds [OF assms(1)] day_of_year_bounds [OF assms(2)]
      by simp
  next
    case 2
    then show ?thesis using days_before_month_mono [of m m' d y] assms(1,2) by simp
  next
    case 3
    then show ?thesis by simp
  qed
qed

lemma ymd2ord_less_iff:
  assumes "valid_ymd (y, m, d)" "valid_ymd (y', m', d')"
  shows "ymd2ord (y, m, d) < ymd2ord (y', m', d') \<longleftrightarrow>
    y < y' \<or> y = y' \<and> (m < m' \<or> m = m' \<and> d < d')"
  using ymd2ord_lex [OF assms] ymd2ord_lex [OF assms(2,1)] by fastforce

lemma ord2ymd_ymd2ord [simp]: "valid_ymd t \<Longrightarrow> ord2ymd (ymd2ord t) = t"
proof (cases t)
  case (fields y m d)
  assume v: "valid_ymd t"
  obtain y' m' d' where t': "ord2ymd (ymd2ord t) = (y', m', d')" by (cases "ord2ymd (ymd2ord t)")
  have v': "valid_ymd (y', m', d')" using valid_ord2ymd [of "ymd2ord t"] t' by simp
  have "ymd2ord (y', m', d') = ymd2ord t" using ymd2ord_ord2ymd [of "ymd2ord t"] t' by simp
  then show ?thesis
    using ymd2ord_less_iff [OF v' v [unfolded fields]] ymd2ord_less_iff [OF v [unfolded fields] v'] t' fields
    by auto
qed

subsection \<open>The day-numbering contract\<close>

text \<open>
  What date arithmetic relies on: dates and day numbers are inverse to each other. The operations
  the billing code performs on dates (\<open>date + timedelta(days=k)\<close>, the difference of two dates)
  follow from these laws alone.
\<close>

locale day_numbering =
  fixes to_ord :: "'d \<Rightarrow> int" and of_ord :: "int \<Rightarrow> 'd" and ok :: "'d \<Rightarrow> bool"
  assumes ok_of_ord: "ok (of_ord n)"
    and to_of: "to_ord (of_ord n) = n"
    and of_to: "ok t \<Longrightarrow> of_ord (to_ord t) = t"
begin

lemma to_ord_inj: "ok s \<Longrightarrow> ok t \<Longrightarrow> to_ord s = to_ord t \<Longrightarrow> s = t"
  using of_to by metis

lemma of_ord_inj: "of_ord a = of_ord b \<longleftrightarrow> a = b"
  using to_of by metis

lemma shift_diff: "to_ord (of_ord (to_ord t + k)) - to_ord t = k"
  by (simp add: to_of)

lemma shift_shift: "of_ord (to_ord (of_ord (to_ord t + j)) + k) = of_ord (to_ord t + (j + k))"
  by (simp add: to_of add.assoc)

end

interpretation greg: day_numbering ymd2ord ord2ymd valid_ymd
  by unfold_locales simp_all

definition add_days :: "ymd \<Rightarrow> int \<Rightarrow> ymd" where
  "add_days t k = ord2ymd (ymd2ord t + k)"

subsection \<open>UTC dates of unix timestamps\<close>

text \<open>
  \<open>datetime.fromtimestamp(ts, tz=timezone.utc)\<close> rounds to whole microseconds, ties to even.
  719163 is the ordinal of 1970-01-01. Instants outside the years 1 to 9999, where
  \<open>datetime\<close> raises, are outside the model.
\<close>

definition micros :: "seconds \<Rightarrow> int" where
  "micros ts = round_half_even (ts * 1000000)"

definition US_PER_DAY :: int where "US_PER_DAY = 86400000000"
definition EPOCH_ORD :: int where "EPOCH_ORD = 719163"

definition utc_ord :: "seconds \<Rightarrow> int" where
  "utc_ord ts = EPOCH_ORD + micros ts div US_PER_DAY"

definition utc_date :: "seconds \<Rightarrow> ymd" where
  "utc_date ts = ord2ymd (utc_ord ts)"

text \<open>The timestamp of midnight UTC starting day \<open>n\<close> (an ordinal).\<close>

definition midnight :: "int \<Rightarrow> seconds" where
  "midnight n = of_int ((n - EPOCH_ORD) * 86400)"

lemma epoch_is_1970: "ymd2ord (1970, 1, 1) = EPOCH_ORD"
  by (simp add: EPOCH_ORD_def days_before_year_def)

lemma utc_ord_bounds: "midnight (utc_ord ts) \<le> ts + 1 / 2000000" "ts < midnight (utc_ord ts + 1)"
proof -
  let ?u = "micros ts"
  have b: "of_int ?u - 1 / 2 \<le> ts * 1000000" "ts * 1000000 \<le> of_int ?u + 1 / 2"
    unfolding micros_def by (rule round_half_even_bounds)+
  have d: "?u = US_PER_DAY * (?u div US_PER_DAY) + ?u mod US_PER_DAY" "0 \<le> ?u mod US_PER_DAY"
    "?u mod US_PER_DAY \<le> US_PER_DAY - 1"
    by (simp_all add: US_PER_DAY_def)
  have lo: "US_PER_DAY * (?u div US_PER_DAY) \<le> ?u" and hi: "?u \<le> US_PER_DAY * (?u div US_PER_DAY) + US_PER_DAY - 1"
    using d by linarith+
  have lo': "(of_int US_PER_DAY * of_int (?u div US_PER_DAY) :: rat) \<le> of_int ?u"
    using lo by (metis of_int_le_iff of_int_mult)
  have hi': "(of_int ?u :: rat) \<le> of_int US_PER_DAY * of_int (?u div US_PER_DAY) + of_int US_PER_DAY - 1"
    using hi by (metis of_int_1 of_int_add of_int_diff of_int_le_iff of_int_mult)
  show "midnight (utc_ord ts) \<le> ts + 1 / 2000000"
    using b(1) lo' by (simp add: midnight_def utc_ord_def US_PER_DAY_def)
  show "ts < midnight (utc_ord ts + 1)"
    using b(2) hi' by (simp add: midnight_def utc_ord_def US_PER_DAY_def)
qed

lemma midnight_mono: "midnight a \<le> midnight b \<longleftrightarrow> a \<le> b" "midnight a < midnight b \<longleftrightarrow> a < b"
  by (simp_all add: midnight_def del: of_int_mult of_int_diff)

subsection \<open>ISO dates\<close>

text \<open>
  \<open>date.fromisoformat\<close> of Python 3.11 and later: \<open>YYYY-MM-DD\<close> and \<open>YYYYMMDD\<close>, and the week
  dates \<open>YYYY-Www-D\<close>, \<open>YYYYWwwD\<close>, \<open>YYYY-Www\<close>, \<open>YYYYWww\<close>. A string of 7, 8 or 10 characters is
  read from the left and what follows the day is ignored, as CPython does; \<open>None\<close> stands for
  \<open>ValueError\<close>.
\<close>

definition parse_digits :: "nat \<Rightarrow> string \<Rightarrow> (int \<times> string) option" where
  "parse_digits k s =
     (if length (take k s) = k \<and> list_all is_digit (take k s)
      then Some (int (read_digits (take k s)), drop k s) else None)"

definition checked_date :: "ymd \<Rightarrow> ymd option" where
  "checked_date t = (if 1 \<le> fst t \<and> fst t \<le> 9999 \<and> valid_ymd t then Some t else None)"

text \<open>Drop the separator when the date uses one; \<open>None\<close> when it is missing.\<close>

definition skip_sep :: "bool \<Rightarrow> string \<Rightarrow> string option" where
  "skip_sep sep p =
     (if sep then (case p of c # cs \<Rightarrow> if c = CHR ''-'' then Some cs else None | [] \<Rightarrow> None)
      else Some p)"

definition parse_month_day :: "int \<Rightarrow> bool \<Rightarrow> string \<Rightarrow> ymd option" where
  "parse_month_day year sep p =
     Option.bind (parse_digits 2 p) (\<lambda>(month, p).
     Option.bind (skip_sep sep p) (\<lambda>p.
     Option.bind (parse_digits 2 p) (\<lambda>(day, _). checked_date (year, month, day))))"

definition weekday :: "int \<Rightarrow> int" where
  "weekday ord = (ord + 6) mod 7"

definition iso_week1_monday :: "int \<Rightarrow> int" where
  "iso_week1_monday year =
     (let first = ymd2ord (year, 1, 1); w = weekday first in
      if w > 3 then first - w + 7 else first - w)"

definition iso_to_ymd :: "int \<Rightarrow> int \<Rightarrow> int \<Rightarrow> ymd option" where
  "iso_to_ymd year week day =
     (let w = weekday (ymd2ord (year, 1, 1)) in
      if 1 \<le> year \<and> year \<le> 9999 \<and> 1 \<le> day \<and> day \<le> 7 \<and>
         (1 \<le> week \<and> week \<le> 52 \<or> week = 53 \<and> (w = 3 \<or> w = 2 \<and> is_leap year))
      then checked_date (ord2ymd (iso_week1_monday year + (week - 1) * 7 + day - 1)) else None)"

definition parse_week :: "int \<Rightarrow> bool \<Rightarrow> string \<Rightarrow> ymd option" where
  "parse_week year sep p =
     Option.bind (parse_digits 2 p) (\<lambda>(week, p).
       if p = [] then iso_to_ymd year week 1
       else Option.bind (skip_sep sep p) (\<lambda>p.
            Option.bind (parse_digits 1 p) (\<lambda>(day, _). iso_to_ymd year week day)))"

definition fromisoformat :: "string \<Rightarrow> ymd option" where
  "fromisoformat s =
     (if length s \<notin> {7, 8, 10} then None
      else Option.bind (parse_digits 4 s) (\<lambda>(year, p).
        let sep = (case p of [] \<Rightarrow> False | c # _ \<Rightarrow> c = CHR ''-''); p = (if sep then tl p else p)
        in case p of
             [] \<Rightarrow> None
           | c # cs \<Rightarrow> if c = CHR ''W'' then parse_week year sep cs else parse_month_day year sep p))"

text \<open>\<open>date.isoformat()\<close>.\<close>

fun pad_nat :: "nat \<Rightarrow> nat \<Rightarrow> string" where
  "pad_nat 0 n = []"
| "pad_nat (Suc k) n = pad_nat k (n div 10) @ [digit_char (n mod 10)]"

fun isoformat :: "ymd \<Rightarrow> string" where
  "isoformat (y, m, d) =
     pad_nat 4 (nat y) @ ''-'' @ pad_nat 2 (nat m) @ ''-'' @ pad_nat 2 (nat d)"

lemma fromisoformat_examples:
  "fromisoformat ''2024-02-29'' = Some (2024, 2, 29)"
  "fromisoformat ''2023-02-29'' = None"
  "fromisoformat ''20240229'' = Some (2024, 2, 29)"
  "fromisoformat ''2024-W01-1'' = Some (2024, 1, 1)"
  "fromisoformat ''2020-W53-7'' = Some (2021, 1, 3)"
  "fromisoformat ''2024-1-1'' = None"
  "fromisoformat ''20240101T1'' = Some (2024, 1, 1)"
  "fromisoformat ''2024W01-1'' = None"
  "fromisoformat ''9999-W52-7'' = None"
  by code_simp+

lemma length_pad_nat [simp]: "length (pad_nat k n) = k"
  by (induction k arbitrary: n) auto

lemma pad_nat_digits: "list_all is_digit (pad_nat k n)"
  by (induction k arbitrary: n) auto

lemma read_pad_nat: "n < 10 ^ k \<Longrightarrow> read_digits (pad_nat k n) = n"
proof (induction k arbitrary: n)
  case 0
  then show ?case by (simp add: read_digits_def)
next
  case (Suc k)
  then have "n div 10 < 10 ^ k" by auto
  with Suc.IH show ?case by (simp add: read_digits_snoc)
qed

lemma parse_pad_nat [simp]: "n < 10 ^ k \<Longrightarrow> parse_digits k (pad_nat k n @ s) = Some (int n, s)"
  using pad_nat_digits [of k n] by (simp add: parse_digits_def read_pad_nat)

lemma pad_nat_hd: "0 < k \<Longrightarrow> \<exists>c cs. pad_nat k n = c # cs \<and> is_digit c"
  using pad_nat_digits [of k n] length_pad_nat [of k n] by (cases "pad_nat k n") auto

lemma isoformat_shape:
  "isoformat (y, m, d) = pad_nat 4 (nat y) @ CHR ''-'' # pad_nat 2 (nat m) @ CHR ''-'' # pad_nat 2 (nat d)"
  by simp

lemma fromisoformat_isoformat:
  assumes "valid_ymd (y, m, d)" "1 \<le> y" "y \<le> 9999"
  shows "fromisoformat (isoformat (y, m, d)) = Some (y, m, d)"
proof -
  have "days_in_month y m \<le> 31" by (simp add: days_in_month_def)
  moreover have v: "1 \<le> m" "m \<le> 12" "1 \<le> d" "d \<le> days_in_month y m" using assms(1) by simp_all
  ultimately have d31: "d \<le> 31" by linarith
  have y4: "nat y < 10 ^ 4" using assms(2,3) by simp
  have m2: "nat m < 10 ^ 2" using v(1,2) by simp
  have d2: "nat d < 10 ^ 2" using v(3) d31 by simp
  have nn: "0 \<le> y" "0 \<le> m" "0 \<le> d" using assms(2) v by linarith+
  note b = y4 m2 d2 nn
  obtain c cs where c: "pad_nat 2 (nat m) = c # cs" "is_digit c" using pad_nat_hd [of 2 "nat m"] by auto
  then have W: "c \<noteq> CHR ''W''" by (auto simp: is_digit_def)
  have md: "parse_month_day y True (pad_nat 2 (nat m) @ CHR ''-'' # pad_nat 2 (nat d)) = Some (y, m, d)"
    using parse_pad_nat [OF b(2), of "CHR ''-'' # pad_nat 2 (nat d)"] parse_pad_nat [OF b(3), of "[]"] assms b
    by (simp add: parse_month_day_def skip_sep_def checked_date_def)
  let ?s = "pad_nat 4 (nat y) @ CHR ''-'' # c # cs @ CHR ''-'' # pad_nat 2 (nat d)"
  have len: "length cs = 1" using length_pad_nat [of 2 "nat m"] unfolding c(1) by simp
  have y: "parse_digits 4 ?s = Some (y, CHR ''-'' # c # cs @ CHR ''-'' # pad_nat 2 (nat d))"
    using parse_pad_nat [OF b(1)] b(4) by simp
  have "isoformat (y, m, d) = ?s" unfolding isoformat_shape c(1) by simp
  moreover have "fromisoformat ?s = Some (y, m, d)"
    unfolding fromisoformat_def y using md W len by (simp add: c(1) del: pad_nat.simps)
  ultimately show ?thesis by (simp only:)
qed

subsection \<open>Extended dates sort chronologically\<close>

lemma of_char_less: "c < d \<longleftrightarrow> (of_char c :: nat) < of_char d" for c d :: char
  by (simp add: less_char_def)

definition read_from :: "nat \<Rightarrow> string \<Rightarrow> nat" where
  "read_from = foldl (\<lambda>acc c. 10 * acc + digit_val c)"

lemma read_from_simps: "read_from a [] = a" "read_from a (c # s) = read_from (10 * a + digit_val c) s"
  by (simp_all add: read_from_def)

lemma read_digits_from: "read_digits s = read_from 0 s"
  by (simp add: read_digits_def read_from_def)

lemma read_from_acc: "read_from a s = a * 10 ^ length s + read_from 0 s"
proof (induction s arbitrary: a)
  case Nil
  show ?case by (simp add: read_from_simps)
next
  case (Cons c s)
  have "read_from a (c # s) = (10 * a + digit_val c) * 10 ^ length s + read_from 0 s"
    unfolding read_from_simps by (rule Cons.IH)
  moreover have "read_from 0 (c # s) = digit_val c * 10 ^ length s + read_from 0 s"
    using Cons.IH [of "digit_val c"] by (simp add: read_from_simps)
  ultimately show ?case by (simp add: algebra_simps)
qed

lemma read_digits_Cons: "read_digits (c # s) = digit_val c * 10 ^ length s + read_digits s"
  using read_from_acc [of "digit_val c" s] by (simp add: read_digits_from read_from_simps)

lemma digit_val_le: "is_digit c \<Longrightarrow> digit_val c \<le> 9"
  by (auto simp: is_digit_def digit_val_def Let_def)

lemma digit_less_iff: "is_digit c \<Longrightarrow> is_digit d \<Longrightarrow> c < d \<longleftrightarrow> digit_val c < digit_val d"
  by (auto simp: is_digit_def digit_val_def Let_def of_char_less)

lemma digit_eq_iff: "is_digit c \<Longrightarrow> is_digit d \<Longrightarrow> c = d \<longleftrightarrow> digit_val c = digit_val d"
  using digit_less_iff [of c d] digit_less_iff [of d c] by (metis less_irrefl linorder_neqE)

lemma read_digits_bound: "list_all is_digit s \<Longrightarrow> read_digits s < 10 ^ length s"
proof (induction s)
  case Nil
  show ?case by (simp add: read_digits_def)
next
  case (Cons c s)
  have "digit_val c * 10 ^ length s \<le> 9 * 10 ^ length s"
    by (rule mult_le_mono1) (use digit_val_le Cons.prems in simp)
  moreover have "read_digits s < 10 ^ length s" using Cons by simp
  ultimately show ?case unfolding read_digits_Cons length_Cons power_Suc by linarith
qed

lemma digits_less_iff:
  assumes "length s = length t" "list_all is_digit s" "list_all is_digit t"
  shows "s < t \<longleftrightarrow> read_digits s < read_digits t"
  using assms
proof (induction s t rule: list_induct2)
  case Nil
  show ?case by simp
next
  case (Cons c s d t)
  have b: "read_digits s < 10 ^ length t" "read_digits t < 10 ^ length t"
    using read_digits_bound [of s] read_digits_bound [of t] Cons by auto
  have step: "a < a' \<Longrightarrow> x < 10 ^ k \<Longrightarrow> a * 10 ^ k + x < a' * 10 ^ k + (y :: nat)" for a a' x y k :: nat
  proof -
    assume "a < a'" "x < 10 ^ k"
    then have "a * 10 ^ k + x < Suc a * 10 ^ k" by simp
    also have "\<dots> \<le> a' * 10 ^ k" using \<open>a < a'\<close> by (intro mult_le_mono1) simp
    finally show ?thesis by simp
  qed
  consider "digit_val c < digit_val d" | "digit_val c = digit_val d" | "digit_val d < digit_val c" by linarith
  then show ?case
  proof cases
    case 1
    then show ?thesis using Cons b step [of "digit_val c" "digit_val d"] digit_less_iff [of c d]
      by (simp add: read_digits_Cons)
  next
    case 2
    then have "c = d" using Cons.prems digit_eq_iff by simp
    then show ?thesis using Cons by (simp add: read_digits_Cons)
  next
    case 3
    then have "\<not> c < d" "c \<noteq> d" using Cons.prems digit_less_iff [of c d] by auto
    then show ?thesis using 3 Cons.hyps b step [of "digit_val d" "digit_val c" "read_digits t"]
      by (simp add: read_digits_Cons)
         (metis less_asym)
  qed
qed

lemma append_less_iff:
  fixes xs ys us vs :: string
  shows "length xs = length ys \<Longrightarrow> xs @ us < ys @ vs \<longleftrightarrow> xs < ys \<or> xs = ys \<and> us < vs"
  by (induction xs ys rule: list_induct2) auto

text \<open>The form \<open>YYYY-MM-DD\<close>, as opposed to the basic and the week forms.\<close>

definition iso_extended :: "string \<Rightarrow> bool" where
  "iso_extended s = (length s = 10 \<and> s ! 4 = CHR ''-'' \<and> s ! 5 \<noteq> CHR ''W'')"

lemma parse_digits_SomeE:
  assumes "parse_digits k s = Some (n, p)"
  obtains x where "s = x @ p" "length x = k" "list_all is_digit x" "n = int (read_digits x)"
proof -
  from assms have "s = take k s @ p" "length (take k s) = k" "list_all is_digit (take k s)"
    "n = int (read_digits (take k s))"
    by (auto simp: parse_digits_def split: if_splits)
  then show thesis by (rule that)
qed

lemma extended_parts:
  assumes "iso_extended s" "fromisoformat s = Some t"
  obtains Y M D where "s = Y @ CHR ''-'' # M @ CHR ''-'' # D" "length Y = 4" "length M = 2" "length D = 2"
    "list_all is_digit Y" "list_all is_digit M" "list_all is_digit D"
    "t = (int (read_digits Y), int (read_digits M), int (read_digits D))" "valid_ymd t"
proof -
  obtain y p where y: "parse_digits 4 s = Some (y, p)"
    using assms(2) by (auto simp: fromisoformat_def split: if_splits bind_splits)
  then obtain Y where Y: "s = Y @ p" "length Y = 4" "list_all is_digit Y" "y = int (read_digits Y)"
    by (rule parse_digits_SomeE)
  obtain c q where p: "p = CHR ''-'' # c # q" "c \<noteq> CHR ''W''"
  proof -
    have "length p = 6" "p ! 0 = CHR ''-''" "p ! 1 \<noteq> CHR ''W''"
      using assms(1) Y by (auto simp: iso_extended_def nth_append)
    then show thesis by (cases p; cases "tl p") (auto intro: that)
  qed
  have md: "parse_month_day y True (c # q) = Some t"
    using assms(2) y p by (auto simp: fromisoformat_def split: if_splits)
  then obtain m q1 where m: "parse_digits 2 (c # q) = Some (m, q1)"
    by (auto simp: parse_month_day_def split: bind_splits)
  then obtain M where M: "c # q = M @ q1" "length M = 2" "list_all is_digit M" "m = int (read_digits M)"
    by (rule parse_digits_SomeE)
  from md m obtain q2 where q2: "q1 = CHR ''-'' # q2"
    by (auto simp: parse_month_day_def skip_sep_def split: bind_splits list.splits if_splits)
  from md m q2 obtain d q3 where d: "parse_digits 2 q2 = Some (d, q3)" "checked_date (y, m, d) = Some t"
    by (auto simp: parse_month_day_def skip_sep_def split: bind_splits if_splits)
  from d(1) obtain D where D: "q2 = D @ q3" "length D = 2" "list_all is_digit D" "d = int (read_digits D)"
    by (rule parse_digits_SomeE)
  have "length s = 8 + length D + length q3" using Y p M q2 D by simp
  then have q3: "q3 = []" using assms(1) D by (simp add: iso_extended_def)
  show thesis
    by (rule that [of Y M D]) (use Y p M q2 D q3 d in \<open>auto simp: checked_date_def split: if_splits\<close>)
qed

lemma extended_less_iff:
  assumes "iso_extended s" "fromisoformat s = Some t" "iso_extended s'" "fromisoformat s' = Some t'"
  shows "s < s' \<longleftrightarrow> ymd2ord t < ymd2ord t'"
proof -
  obtain Y M D where p: "s = Y @ CHR ''-'' # M @ CHR ''-'' # D" "length Y = 4" "length M = 2" "length D = 2"
    "list_all is_digit Y" "list_all is_digit M" "list_all is_digit D"
    "t = (int (read_digits Y), int (read_digits M), int (read_digits D))" "valid_ymd t"
    using assms(1,2) by (rule extended_parts)
  obtain Y' M' D' where p': "s' = Y' @ CHR ''-'' # M' @ CHR ''-'' # D'" "length Y' = 4" "length M' = 2" "length D' = 2"
    "list_all is_digit Y'" "list_all is_digit M'" "list_all is_digit D'"
    "t' = (int (read_digits Y'), int (read_digits M'), int (read_digits D'))" "valid_ymd t'"
    using assms(3,4) by (rule extended_parts)
  have eq: "length x = length y \<Longrightarrow> list_all is_digit x \<Longrightarrow> list_all is_digit y \<Longrightarrow>
      x = y \<longleftrightarrow> read_digits x = read_digits y" for x y
    using digits_less_iff [of x y] digits_less_iff [of y x] by (metis less_irrefl linorder_neqE)
  have "s < s' \<longleftrightarrow> Y < Y' \<or> Y = Y' \<and> (M < M' \<or> M = M' \<and> D < D')"
    using p p' by (simp add: append_less_iff)
  also have "\<dots> \<longleftrightarrow> ymd2ord t < ymd2ord t'"
    using p p' ymd2ord_less_iff [of "int (read_digits Y)" "int (read_digits M)" "int (read_digits D)"
        "int (read_digits Y')" "int (read_digits M')" "int (read_digits D')"]
    by (simp add: digits_less_iff eq del: ymd2ord.simps valid_ymd.simps)
  finally show ?thesis .
qed

lemma extended_le_iff:
  assumes "iso_extended s" "fromisoformat s = Some t" "iso_extended s'" "fromisoformat s' = Some t'"
  shows "s \<le> s' \<longleftrightarrow> ymd2ord t \<le> ymd2ord t'"
  using extended_less_iff [OF assms(3,4,1,2)] by (metis linorder_not_less)

end
