(* ===== verification/Refunds.thy ===== *)
theory Refunds
  imports Calendar
begin

text \<open>
  \<open>src/billing/refunds.py\<close>: the withdrawal window and the pro-rata arithmetic. Amounts are integers
  of the smallest currency unit, instants are exact rationals.
\<close>

definition WITHDRAWAL_WINDOW_DAYS :: int where
  "WITHDRAWAL_WINDOW_DAYS = 14"

definition WITHDRAWAL_TERMS_VERSION :: string where
  "WITHDRAWAL_TERMS_VERSION = ''2026-09-26.2''"

definition withdrawal_window_closes_at :: "seconds \<Rightarrow> seconds" where
  "withdrawal_window_closes_at contract_start =
     (if contract_start = 0 \<or> contract_start \<le> 0 then 0
      else midnight (utc_ord contract_start + (WITHDRAWAL_WINDOW_DAYS + 1)))"

definition withdrawal_window_open :: "seconds \<Rightarrow> seconds \<Rightarrow> bool" where
  "withdrawal_window_open contract_start at_time =
     (let closes_at = withdrawal_window_closes_at contract_start in
      closes_at \<noteq> 0 \<and> at_time < closes_at)"

definition prorated_refund_amount :: "seconds \<Rightarrow> seconds \<Rightarrow> int \<Rightarrow> seconds \<Rightarrow> int" where
  "prorated_refund_amount period_start period_end amount_paid_cents now =
     (let amount = amount_paid_cents in
      if amount \<le> 0 \<or> period_end \<le> period_start then 0
      else (let unused = of_int amount * (period_end - now) / (period_end - period_start) in
            max 0 (min amount \<lfloor>unused\<rfloor>)))"

lemma prorated_nonneg [simp]: "0 \<le> prorated_refund_amount s e a now"
  by (simp add: prorated_refund_amount_def Let_def)

lemma prorated_le: "prorated_refund_amount s e a now \<le> max 0 a"
  by (simp add: prorated_refund_amount_def Let_def)

lemma prorated_antimono:
  assumes "now \<le> later"
  shows "prorated_refund_amount s e a later \<le> prorated_refund_amount s e a now"
proof (cases "a \<le> 0 \<or> e \<le> s")
  case False
  then have "of_int a * (e - later) / (e - s) \<le> of_int a * (e - now) / (e - s)"
    using assms by (intro divide_right_mono mult_left_mono) auto
  then have "\<lfloor>of_int a * (e - later) / (e - s)\<rfloor> \<le> \<lfloor>of_int a * (e - now) / (e - s)\<rfloor>"
    by (rule floor_mono)
  then show ?thesis using False by (simp add: prorated_refund_amount_def Let_def)
qed (simp add: prorated_refund_amount_def)

text \<open>C23. The refund is the unused share, rounded down: between nothing and the amount paid, everything
  before the period and nothing after it, never growing with time, and inside the period within one
  cent below the exact share.\<close>

theorem prorated_refund_exact:
  assumes "0 \<le> amount" "period_start < period_end"
  shows "let r = prorated_refund_amount period_start period_end amount in
    (\<forall>now. 0 \<le> r now \<and> r now \<le> amount) \<and>
    (\<forall>now. now \<le> period_start \<longrightarrow> r now = amount) \<and>
    (\<forall>now. period_end \<le> now \<longrightarrow> r now = 0) \<and>
    (\<forall>now later. now \<le> later \<longrightarrow> r later \<le> r now) \<and>
    (\<forall>now. period_start \<le> now \<and> now \<le> period_end \<longrightarrow>
       of_int (r now) \<le> of_int amount * (period_end - now) / (period_end - period_start) \<and>
       of_int amount * (period_end - now) / (period_end - period_start) < of_int (r now) + 1)"
proof -
  define q where "q = (\<lambda>now. of_int amount * (period_end - now) / (period_end - period_start))"
  have r: "prorated_refund_amount period_start period_end amount now = max 0 (min amount \<lfloor>q now\<rfloor>)" for now
    using assms by (auto simp: prorated_refund_amount_def Let_def q_def)
  have hi: "q now \<le> of_int amount" if "period_start \<le> now" for now
    using assms that mult_left_mono [of "period_end - now" "period_end - period_start" "of_int amount"]
    by (simp add: q_def divide_le_eq)
  have lo: "0 \<le> q now" if "now \<le> period_end" for now
    using assms that by (simp add: q_def)
  have before: "of_int amount \<le> q now" if "now \<le> period_start" for now
    using assms that mult_left_mono [of "period_end - period_start" "period_end - now" "of_int amount"]
    by (simp add: q_def le_divide_eq)
  have after: "q now \<le> 0" if "period_end \<le> now" for now
    using assms that by (simp add: q_def divide_le_0_iff mult_nonneg_nonpos)
  have full: "max 0 (min amount \<lfloor>q now\<rfloor>) = amount" if "now \<le> period_start" for now
    using before [OF that] assms(1) by (simp add: le_floor_iff)
  have none: "max 0 (min amount \<lfloor>q now\<rfloor>) = 0" if "period_end \<le> now" for now
  proof -
    have "\<lfloor>q now\<rfloor> \<le> 0" using after [OF that] by (metis floor_mono floor_zero)
    then show ?thesis using assms(1) by linarith
  qed
  have inside: "max 0 (min amount \<lfloor>q now\<rfloor>) = \<lfloor>q now\<rfloor>" if "period_start \<le> now" "now \<le> period_end" for now
  proof -
    have "\<lfloor>q now\<rfloor> \<le> amount" using hi [OF that(1)] by linarith
    moreover have "0 \<le> \<lfloor>q now\<rfloor>" using lo [OF that(2)] by simp
    ultimately show ?thesis by simp
  qed
  have down: "max 0 (min amount \<lfloor>q later\<rfloor>) \<le> max 0 (min amount \<lfloor>q now\<rfloor>)" if "now \<le> later" for now later
    using prorated_antimono [OF that, of period_start period_end amount] by (simp only: r)
  have fl: "of_int \<lfloor>q now\<rfloor> \<le> of_int amount * (period_end - now) / (period_end - period_start)"
    "of_int amount * (period_end - now) / (period_end - period_start) < of_int \<lfloor>q now\<rfloor> + 1" for now
    using floor_correct [of "q now"] by (simp_all add: q_def)
  show ?thesis
    unfolding Let_def r
    using full none down inside assms(1) fl by auto
qed

theorem prorated_refund_exact_witness:
  "prorated_refund_amount 0 30 300 10 \<le> (300 :: int) \<and>
   of_int (prorated_refund_amount 0 30 300 10) \<le> (of_int 300 * (30 - 10) / (30 - 0) :: rat)"
proof -
  have h: "0 \<le> (300::int)" "(0::rat) < 30" "(0::rat) \<le> 10" "(10::rat) \<le> 30" by simp_all
  show ?thesis using prorated_refund_exact [OF h(1,2), unfolded Let_def] h(3,4) by blast
qed

text \<open>The withdrawal window. A contract that started at a known instant can be withdrawn from up to,
  and not including, one fixed midnight UTC: the one that starts the fifteenth day after the day of
  the start. The window is open at the start, lasts more than fourteen days and at most fifteen (up
  to the half microsecond a timestamp is rounded by), never reopens, and with no start on record
  there is none.\<close>

theorem withdrawal_window_is_fifteen_days:
  assumes "0 < contract_start"
  shows "(\<exists>day. withdrawal_window_closes_at contract_start = midnight (day + 15) \<and>
      midnight day \<le> contract_start + 1 / 2000000 \<and> contract_start < midnight (day + 1)) \<and>
    (\<forall>t. withdrawal_window_open contract_start t \<longleftrightarrow> t < withdrawal_window_closes_at contract_start) \<and>
    withdrawal_window_open contract_start (contract_start + 14 * 86400) \<and>
    \<not> withdrawal_window_open contract_start (contract_start + 15 * 86400 + 1 / 2000000) \<and>
    (\<forall>t. \<not> withdrawal_window_open 0 t)"
proof -
  let ?d = "utc_ord contract_start"
  have close: "withdrawal_window_closes_at contract_start = midnight (?d + 15)"
    using assms by (simp add: withdrawal_window_closes_at_def WITHDRAWAL_WINDOW_DAYS_def)
  have step: "midnight (?d + 15) = midnight ?d + 15 * 86400" "midnight (?d + 1) = midnight ?d + 86400"
    by (simp_all add: midnight_def algebra_simps)
  note b = utc_ord_bounds [of contract_start]
  have "midnight (?d + 15) > 0" using b(2) step assms by linarith
  then have iff: "withdrawal_window_open contract_start t \<longleftrightarrow> t < midnight (?d + 15)" for t
    by (simp add: withdrawal_window_open_def close)
  have early: "contract_start + 14 * 86400 < midnight (?d + 15)" using b(2) step by linarith
  have late: "midnight (?d + 15) \<le> contract_start + 15 * 86400 + 1 / 2000000" using b(1) step by linarith
  have none: "\<not> withdrawal_window_open 0 t" for t
    by (simp add: withdrawal_window_open_def withdrawal_window_closes_at_def)
  show ?thesis
  proof (intro conjI allI impI)
    show "\<exists>day. withdrawal_window_closes_at contract_start = midnight (day + 15) \<and>
      midnight day \<le> contract_start + 1 / 2000000 \<and> contract_start < midnight (day + 1)"
      using close b by blast
  qed (use iff early late none close in auto)
qed

theorem withdrawal_window_is_fifteen_days_witness:
  "0 < (1000::rat) \<and> withdrawal_window_open 1000 (1000 + 14 * 86400)"
  using withdrawal_window_is_fifteen_days [of 1000] by (auto simp del: One_nat_def)

end
