(* ===== verification/Plans.thy ===== *)
theory Plans
  imports TJ_Prelude
begin

text \<open>
  The plan catalogue of \<open>src/billing/plans.py\<close>: plan ids, per-plan limits read from the
  environment, the lookup keys of the paid plans, quota comparison and the pricing bullets.
  Plan ids are the source's strings; an optional limit is \<open>None\<close> when unlimited.
\<close>

subsection \<open>Plan ids and lookup keys\<close>

definition FREE :: string where "FREE = ''free''"
definition TIER_1 :: string where "TIER_1 = ''tier_1''"
definition TIER_2 :: string where "TIER_2 = ''tier_2''"
definition TIER_3 :: string where "TIER_3 = ''tier_3''"

lemmas plan_ids = FREE_def TIER_1_def TIER_2_def TIER_3_def

definition PLAN_ORDER :: "string list" where
  "PLAN_ORDER = [FREE, TIER_1, TIER_2, TIER_3]"

definition PAID_PLANS :: "string list" where
  "PAID_PLANS = [TIER_1, TIER_2, TIER_3]"

definition TOP_PLAN :: string where
  "TOP_PLAN = last PLAN_ORDER"

definition LOOKUP_CURRENCY :: string where "LOOKUP_CURRENCY = ''eur''"
definition LOOKUP_PREFIX :: string where "LOOKUP_PREFIX = ''traxjourney''"

definition price_lookup_key :: "string \<Rightarrow> string" where
  "price_lookup_key plan = LOOKUP_PREFIX @ ''_'' @ plan @ ''_monthly_'' @ LOOKUP_CURRENCY"

definition plan_for_lookup_key :: "string \<Rightarrow> string option" where
  "plan_for_lookup_key key = find (\<lambda>plan. key = price_lookup_key plan) PAID_PLANS"

subsection \<open>Limits\<close>

definition MB :: int where "MB = 1024 * 1024"

text \<open>\<open>_ENV_PREFIX\<close>: the environment-variable prefix of a known plan id.\<close>

definition ENV_PREFIX :: "string \<Rightarrow> string option" where
  "ENV_PREFIX = map_of [(FREE, ''FREE''), (TIER_1, ''TIER_1''), (TIER_2, ''TIER_2''), (TIER_3, ''TIER_3'')]"

definition DEFAULT_NAMES :: "string \<Rightarrow> string option" where
  "DEFAULT_NAMES = map_of [(FREE, ''Free''), (TIER_1, ''Tier 1''), (TIER_2, ''Tier 2''), (TIER_3, ''Tier 3'')]"

definition euro_sign :: string where "euro_sign = [CHR 0xE2, CHR 0x82, CHR 0xAC]"

definition DEFAULT_PRICE_LABELS :: "string \<Rightarrow> string option" where
  "DEFAULT_PRICE_LABELS = map_of
     [(FREE, ''Free''), (TIER_1, euro_sign @ ''0.99 / month''),
      (TIER_2, euro_sign @ ''3.99 / month''), (TIER_3, euro_sign @ ''9.99 / month'')]"

definition FULL_HD_HEIGHT :: int where "FULL_HD_HEIGHT = 1080"

text \<open>\<open>_DEFAULT_LIMITS\<close>: projects, storage in MB, trip days, videos per month, video height.\<close>

type_synonym default_limits = "int option \<times> int option \<times> int option \<times> int option \<times> int option"

definition DEFAULT_LIMITS :: "string \<Rightarrow> default_limits option" where
  "DEFAULT_LIMITS = map_of
     [(FREE,   (Some 1, Some 500, Some 10, Some 1, Some 720)),
      (TIER_1, (Some 2, Some (5 * 1024), Some 100, Some 10, Some FULL_HD_HEIGHT)),
      (TIER_2, (Some 10, Some (20 * 1024), Some 365, Some 30, Some FULL_HD_HEIGHT)),
      (TIER_3, (None, Some (50 * 1024), None, None, Some FULL_HD_HEIGHT))]"

definition EXTRA_FEATURES :: "string \<Rightarrow> string list" where
  "EXTRA_FEATURES plan =
     (if plan = FREE
      then [''Strava & Polarsteps import'', ''Memories, encounters, journal'', ''Share links'']
      else [])"

definition env_int :: "environ \<Rightarrow> string \<Rightarrow> int option \<Rightarrow> int option" where
  "env_int env name dflt =
     (let raw = py_lower (py_strip (env_get env name)) in
      if raw = '''' then dflt
      else if raw \<in> {''unlimited'', ''none'', ''-1''} then None
      else case py_int raw of None \<Rightarrow> dflt | Some n \<Rightarrow> Some n)"

record Limits =
  max_projects :: "int option"
  max_storage_bytes :: "int option"
  max_trip_days :: "int option"
  max_videos_per_month :: "int option"
  max_video_height :: "int option"

definition limits_as_dict :: "Limits \<Rightarrow> (string \<times> int option) list" where
  "limits_as_dict l =
     [(''max_projects'', max_projects l), (''max_storage_bytes'', max_storage_bytes l),
      (''max_trip_days'', max_trip_days l)]"

definition UNLIMITED :: Limits where
  "UNLIMITED = \<lparr>max_projects = None, max_storage_bytes = None, max_trip_days = None,
     max_videos_per_month = None, max_video_height = Some FULL_HD_HEIGHT\<rparr>"

definition mb_to_bytes :: "int option \<Rightarrow> int option" where
  "mb_to_bytes mb = (case mb of None \<Rightarrow> None | Some n \<Rightarrow> Some (n * MB))"

definition known_plan :: "string \<Rightarrow> bool" where
  "known_plan plan = (ENV_PREFIX plan \<noteq> None)"

text \<open>The fallback every catalogue function starts with: an unknown plan reads as free.\<close>

definition or_free :: "string \<Rightarrow> string" where
  "or_free plan = (if known_plan plan then plan else FREE)"

definition limits_for :: "environ \<Rightarrow> string \<Rightarrow> Limits" where
  "limits_for env plan0 =
     (let plan = or_free plan0; prefix = the (ENV_PREFIX plan);
          (projects, storage_mb, trip_days, videos, video_height) = the (DEFAULT_LIMITS plan)
      in \<lparr>max_projects = env_int env (prefix @ ''_MAX_PROJECTS'') projects,
          max_storage_bytes = mb_to_bytes (env_int env (prefix @ ''_MAX_STORAGE_MB'') storage_mb),
          max_trip_days = env_int env (prefix @ ''_MAX_TRIP_DAYS'') trip_days,
          max_videos_per_month = env_int env (prefix @ ''_MAX_VIDEOS_PER_MONTH'') videos,
          max_video_height = env_int env (prefix @ ''_MAX_VIDEO_HEIGHT'') video_height\<rparr>)"

definition plan_name :: "environ \<Rightarrow> string \<Rightarrow> string" where
  "plan_name env plan0 =
     (let plan = or_free plan0 in
      str_or (py_strip (env_get env (the (ENV_PREFIX plan) @ ''_NAME''))) (the (DEFAULT_NAMES plan)))"

definition price_label :: "environ \<Rightarrow> string \<Rightarrow> string" where
  "price_label env plan0 =
     (let plan = or_free plan0 in
      str_or (py_strip (env_get env (the (ENV_PREFIX plan) @ ''_PRICE_LABEL'')))
        (the (DEFAULT_PRICE_LABELS plan)))"

text \<open>\<open>PLAN_ORDER.index(plan)\<close>; \<open>None\<close> is the \<open>ValueError\<close> that makes the comparison False.\<close>

fun index_of :: "'a list \<Rightarrow> 'a \<Rightarrow> nat option" where
  "index_of [] x = None"
| "index_of (y # ys) x = (if y = x then Some 0 else map_option Suc (index_of ys x))"

definition is_at_least :: "string \<Rightarrow> string \<Rightarrow> bool" where
  "is_at_least plan required =
     (case (index_of PLAN_ORDER plan, index_of PLAN_ORDER required) of
        (Some i, Some j) \<Rightarrow> i \<ge> j
      | _ \<Rightarrow> False)"

definition over_quota :: "int \<Rightarrow> int \<Rightarrow> int option \<Rightarrow> bool" where
  "over_quota used incoming limit =
     (case limit of None \<Rightarrow> False | Some l \<Rightarrow> used + incoming > l)"

text \<open>A need that is not given (\<open>None\<close>) is not checked.\<close>

definition need_over :: "int option \<Rightarrow> int option \<Rightarrow> bool" where
  "need_over need limit = (case need of None \<Rightarrow> False | Some n \<Rightarrow> over_quota n 0 limit)"

fun cheapest_loop ::
  "environ \<Rightarrow> int option \<Rightarrow> int option \<Rightarrow> int option \<Rightarrow> string list \<Rightarrow> string option" where
  "cheapest_loop env projects storage_bytes trip_days [] = None"
| "cheapest_loop env projects storage_bytes trip_days (plan # plans) =
     (let limits = limits_for env plan in
      if need_over projects (max_projects limits)
      then cheapest_loop env projects storage_bytes trip_days plans
      else if need_over storage_bytes (max_storage_bytes limits)
      then cheapest_loop env projects storage_bytes trip_days plans
      else if need_over trip_days (max_trip_days limits)
      then cheapest_loop env projects storage_bytes trip_days plans
      else Some plan)"

definition cheapest_plan_with ::
  "environ \<Rightarrow> int option \<Rightarrow> int option \<Rightarrow> int option \<Rightarrow> string option" where
  "cheapest_plan_with env projects storage_bytes trip_days =
     cheapest_loop env projects storage_bytes trip_days PLAN_ORDER"

subsection \<open>The pricing page\<close>

text \<open>
  \<open>f"{x:.0f}"\<close> and \<open>f"{x:.1f}"\<close> of a non-negative value: the nearest decimal, ties to even.
\<close>

definition fixed0 :: "rat \<Rightarrow> string" where
  "fixed0 x = show_int (round_half_even x)"

definition fixed1 :: "rat \<Rightarrow> string" where
  "fixed1 x = (let t = round_half_even (10 * x) in show_int (t div 10) @ ''.'' @ show_int (t mod 10))"

definition format_bytes :: "int \<Rightarrow> string" where
  "format_bytes v =
     (let gb = of_int v / of_int (1024 * MB) :: rat in
      if gb \<ge> 1
      then if gb = of_int \<lfloor>gb\<rfloor> then fixed0 gb @ '' GB'' else fixed1 gb @ '' GB''
      else show_int (v div MB) @ '' MB'')"

definition plural :: "int \<Rightarrow> string" where
  "plural n = (if n = 1 then '''' else ''s'')"

definition middle_dot :: string where "middle_dot = [CHR 0xC2, CHR 0xB7]"

definition features_for :: "environ \<Rightarrow> string \<Rightarrow> string list" where
  "features_for env plan =
     (let limits = limits_for env plan;
          trips = (case max_projects limits of None \<Rightarrow> ''Unlimited trips''
                   | Some n \<Rightarrow> show_int n @ '' trip'' @ plural n);
          photos = (case max_storage_bytes limits of None \<Rightarrow> ''Unlimited photo storage''
                    | Some n \<Rightarrow> format_bytes n @ '' of photos'');
          days = (case max_trip_days limits of None \<Rightarrow> ''Trips of any length''
                  | Some n \<Rightarrow> ''Up to '' @ show_int n @ '' days per trip'');
          videos = (case max_videos_per_month limits of None \<Rightarrow> ''Unlimited videos''
                    | Some n \<Rightarrow> show_int n @ '' video'' @ plural n @ '' per month'');
          videos = (case max_video_height limits of None \<Rightarrow> videos
                    | Some h \<Rightarrow> videos @ '' '' @ middle_dot @ '' '' @ show_int h @ ''p'')
      in [trips, photos, days, videos] @ EXTRA_FEATURES plan)"

record catalogue_entry =
  ce_id :: string
  ce_name :: string
  ce_price_label :: string
  ce_limits :: "(string \<times> int option) list"
  ce_features :: "string list"

definition catalogue :: "environ \<Rightarrow> catalogue_entry list" where
  "catalogue env = map (\<lambda>plan. \<lparr>ce_id = plan, ce_name = plan_name env plan,
     ce_price_label = price_label env plan, ce_limits = limits_as_dict (limits_for env plan),
     ce_features = features_for env plan\<rparr>) PLAN_ORDER"

subsection \<open>Lemmas\<close>

lemma PLAN_ORDER_distinct [simp]: "distinct PLAN_ORDER"
  by (simp add: PLAN_ORDER_def plan_ids)

lemma PAID_PLANS_iff: "p \<in> set PAID_PLANS \<longleftrightarrow> p \<in> set PLAN_ORDER \<and> p \<noteq> FREE"
  by (auto simp: PAID_PLANS_def PLAN_ORDER_def plan_ids)

lemma known_plan_iff: "known_plan p \<longleftrightarrow> p \<in> set PLAN_ORDER"
  by (auto simp: known_plan_def ENV_PREFIX_def PLAN_ORDER_def split: if_splits)

lemma known_FREE [simp]: "known_plan FREE"
  by (simp add: known_plan_iff PLAN_ORDER_def)

lemma TOP_PLAN_eq: "TOP_PLAN = TIER_3"
  by (simp add: TOP_PLAN_def PLAN_ORDER_def)

lemma price_lookup_key_inj: "price_lookup_key p = price_lookup_key q \<longleftrightarrow> p = q"
  by (simp add: price_lookup_key_def)

lemma index_of_eq_Some: "index_of xs x = Some i \<Longrightarrow> i < length xs \<and> xs ! i = x \<and> x \<notin> set (take i xs)"
  by (induction xs arbitrary: i) (auto split: if_splits)

lemma index_of_eq_None: "index_of xs x = None \<longleftrightarrow> x \<notin> set xs"
  by (induction xs) auto

text \<open>The need a plan covers, and the limits it has, as one predicate.\<close>

definition covers :: "environ \<Rightarrow> int option \<Rightarrow> int option \<Rightarrow> int option \<Rightarrow> string \<Rightarrow> bool" where
  "covers env projects storage_bytes trip_days plan =
     (\<not> need_over projects (max_projects (limits_for env plan)) \<and>
      \<not> need_over storage_bytes (max_storage_bytes (limits_for env plan)) \<and>
      \<not> need_over trip_days (max_trip_days (limits_for env plan)))"

lemma cheapest_loop_eq: "cheapest_loop env a b c ps = find (covers env a b c) ps"
  by (induction ps) (auto simp: covers_def Let_def)

lemma over_quota_mono: "over_quota u i l \<Longrightarrow> u \<le> u' \<Longrightarrow> i \<le> i' \<Longrightarrow> over_quota u' i' l"
  by (auto simp: over_quota_def split: option.splits)

lemma limits_for_unknown: "\<not> known_plan p \<Longrightarrow> limits_for env p = limits_for env FREE"
  by (simp add: limits_for_def or_free_def)

subsection \<open>Properties\<close>

text \<open>Lookup keys and paid plans are inverse to each other: the key of a paid plan reads back as
  that plan, and a key that reads back as a plan is that plan's key and the plan is a paid one; so
  no key of ours resolves to the free plan.\<close>

theorem lookup_key_roundtrip:
  "(\<forall>p \<in> set PAID_PLANS. plan_for_lookup_key (price_lookup_key p) = Some p) \<and>
   (\<forall>key p. plan_for_lookup_key key = Some p \<longrightarrow> p \<in> set PAID_PLANS \<and> key = price_lookup_key p) \<and>
   plan_for_lookup_key (price_lookup_key FREE) = None"
proof -
  have 1: "\<forall>p \<in> set PAID_PLANS. plan_for_lookup_key (price_lookup_key p) = Some p"
    by (simp add: plan_for_lookup_key_def price_lookup_key_inj PAID_PLANS_def plan_ids)
  have 2: "\<forall>key p. plan_for_lookup_key key = Some p \<longrightarrow> p \<in> set PAID_PLANS \<and> key = price_lookup_key p"
    by (auto simp: plan_for_lookup_key_def find_Some_iff)
  have 3: "plan_for_lookup_key (price_lookup_key FREE) = None"
    by (simp add: plan_for_lookup_key_def price_lookup_key_inj PAID_PLANS_def plan_ids)
  show ?thesis using 1 2 3 by blast
qed

theorem lookup_key_roundtrip_witness:
  "TIER_2 \<in> set PAID_PLANS \<and> plan_for_lookup_key ''traxjourney_tier_2_monthly_eur'' = Some TIER_2"
proof -
  have m: "TIER_2 \<in> set PAID_PLANS" by (simp add: PAID_PLANS_def)
  have k: "price_lookup_key TIER_2 = ''traxjourney_tier_2_monthly_eur''" by code_simp
  show ?thesis using m lookup_key_roundtrip k by metis
qed

text \<open>The paywall's recommendation is the weakest plan that covers the need, whatever limits the
  environment sets: the recommended plan covers it, no plan before it in the order does, and there
  is no recommendation exactly when no plan covers it.\<close>

theorem cheapest_plan_weakest:
  "(\<forall>p. cheapest_plan_with env projects storage days = Some p \<longrightarrow>
      covers env projects storage days p \<and>
      (\<exists>i < length PLAN_ORDER. PLAN_ORDER ! i = p \<and>
         (\<forall>j < i. \<not> covers env projects storage days (PLAN_ORDER ! j)))) \<and>
   (cheapest_plan_with env projects storage days = None \<longleftrightarrow>
      (\<forall>p \<in> set PLAN_ORDER. \<not> covers env projects storage days p))"
  unfolding cheapest_plan_with_def cheapest_loop_eq
  by (auto simp: find_Some_iff find_None_iff)

theorem cheapest_plan_weakest_witness:
  "cheapest_plan_with (\<lambda>_. None) (Some 3) None (Some 200) = Some TIER_2 \<and>
   covers (\<lambda>_. None) (Some 3) None (Some 200) TIER_2"
proof -
  have c: "cheapest_plan_with (\<lambda>_. None) (Some 3) None (Some 200) = Some TIER_2" by code_simp
  show ?thesis using c cheapest_plan_weakest by blast
qed

end
