(* ===== verification/Json.thy ===== *)
theory Json
  imports TJ_Prelude
begin

text \<open>
  Decoded JSON values as Python sees them after \<open>json.loads\<close>, and the value operations the
  components apply to them: truth value, \<open>dict.get\<close>, \<open>str\<close>, \<open>float(x or 0)\<close> and \<open>int(x)\<close>.

  A text column that holds JSON is represented by what \<open>json.loads\<close> makes of it
  (\<open>stored_json\<close>): no text at all (NULL or empty), a text that does not parse, or a value.
  A dict is an association list without repeated keys. \<open>str\<close> of a list, of a dict and of a
  float that is not whole is rendered in a fixed form that is not Python's: no field the
  components read as text holds one.
\<close>

datatype pyfloat = Fin rat | PInf | NInf | NaN

datatype json =
    JNull
  | JBool bool
  | JInt int
  | JFloat pyfloat
  | JStr string
  | JList "json list"
  | JDict "(string \<times> json) list"

datatype stored_json = NoText | BadText | Text json

fun truthy :: "json \<Rightarrow> bool" where
  "truthy JNull = False"
| "truthy (JBool b) = b"
| "truthy (JInt n) = (n \<noteq> 0)"
| "truthy (JFloat f) = (f \<noteq> Fin 0)"
| "truthy (JStr s) = (s \<noteq> [])"
| "truthy (JList xs) = (xs \<noteq> [])"
| "truthy (JDict kvs) = (kvs \<noteq> [])"

text \<open>\<open>a or b\<close>.\<close>

definition json_or :: "json \<Rightarrow> json \<Rightarrow> json" where
  "json_or a b = (if truthy a then a else b)"

text \<open>\<open>d.get(k)\<close> on a dict given as its association list.\<close>

definition dget :: "(string \<times> json) list \<Rightarrow> string \<Rightarrow> json" where
  "dget d k = (case map_of d k of None \<Rightarrow> JNull | Some v \<Rightarrow> v)"

text \<open>\<open>(x or {})\<close> read as a dict; \<open>None\<close> when \<open>x\<close> is truthy and not a dict (\<open>AttributeError\<close>).\<close>

definition as_dict :: "json \<Rightarrow> (string \<times> json) list option" where
  "as_dict v = (if \<not> truthy v then Some [] else case v of JDict d \<Rightarrow> Some d | _ \<Rightarrow> None)"

text \<open>\<open>(x or [])\<close> read as a list; \<open>None\<close> when \<open>x\<close> is truthy and cannot be iterated as one.\<close>

definition as_list :: "json \<Rightarrow> json list option" where
  "as_list v = (if \<not> truthy v then Some [] else case v of JList xs \<Rightarrow> Some xs | _ \<Rightarrow> None)"

fun py_str :: "json \<Rightarrow> string" where
  "py_str JNull = ''None''"
| "py_str (JBool b) = (if b then ''True'' else ''False'')"
| "py_str (JInt n) = show_int n"
| "py_str (JFloat PInf) = ''inf''"
| "py_str (JFloat NInf) = ''-inf''"
| "py_str (JFloat NaN) = ''nan''"
| "py_str (JFloat (Fin x)) =
     (if x = of_int \<lfloor>x\<rfloor> then show_int \<lfloor>x\<rfloor> @ ''.0''
      else (case quotient_of x of (a, b) \<Rightarrow> show_int a @ ''/'' @ show_int b))"
| "py_str (JStr s) = s"
| "py_str (JList _) = ''[...]''"
| "py_str (JDict _) = ''{...}''"

text \<open>\<open>str(x or "")\<close>.\<close>

definition str_or_empty :: "json \<Rightarrow> string" where
  "str_or_empty v = (if truthy v then py_str v else [])"

lemma dget_Nil [simp]: "dget [] k = JNull"
  by (simp add: dget_def)

lemma str_or_empty_simps [simp]:
  "str_or_empty JNull = []" "str_or_empty (JStr s) = s"
  by (simp_all add: str_or_empty_def)

definition opt_str :: "string option \<Rightarrow> json" where
  "opt_str v = (case v of None \<Rightarrow> JNull | Some s \<Rightarrow> JStr s)"

end
