(* ===== verification/PyNumbers.thy ===== *)
theory PyNumbers
  imports Json "HOL-Library.Monad_Syntax"
begin

text \<open>
  Python's number conversions on decoded values: \<open>float(text)\<close> with its grammar (sign, digits with
  single underscores, fraction, exponent, \<open>inf\<close> and \<open>nan\<close>), \<open>float(value or 0)\<close> and
  \<open>int(value)\<close>. The value of a decimal text is the exact rational.
\<close>

definition read_exponent :: "string \<Rightarrow> int option" where
  "read_exponent s =
     (case s of
        [] \<Rightarrow> None
      | c # cs \<Rightarrow>
          if c = CHR ''-'' then map_option (\<lambda>n. - int n) (py_int_body cs)
          else if c = CHR ''+'' then map_option int (py_int_body cs)
          else map_option int (py_int_body (c # cs)))"

definition pow10 :: "int \<Rightarrow> rat" where
  "pow10 e = (if 0 \<le> e then 10 ^ nat e else 1 / 10 ^ nat (- e))"

definition read_mantissa :: "string \<Rightarrow> rat option" where
  "read_mantissa s =
     (let whole = takeWhile (\<lambda>c. c \<noteq> CHR ''.'') s;
          frac = drop 1 (dropWhile (\<lambda>c. c \<noteq> CHR ''.'') s) in
      if (whole = [] \<or> digits_ok False whole) \<and> (frac = [] \<or> digits_ok False frac) \<and>
         (whole \<noteq> [] \<or> frac \<noteq> [])
      then Some (of_nat (read_digits (filter is_digit whole @ filter is_digit frac)) /
                 10 ^ length (filter is_digit frac))
      else None)"

definition is_exp_char :: "char \<Rightarrow> bool" where
  "is_exp_char c = (c = CHR ''e'' \<or> c = CHR ''E'')"

definition read_unsigned_float :: "string \<Rightarrow> pyfloat option" where
  "read_unsigned_float s =
     (if py_lower s = ''inf'' \<or> py_lower s = ''infinity'' then Some PInf
      else if py_lower s = ''nan'' then Some NaN
      else if list_ex is_exp_char s then
        do { m \<leftarrow> read_mantissa (takeWhile (\<lambda>c. \<not> is_exp_char c) s);
             e \<leftarrow> read_exponent (drop 1 (dropWhile (\<lambda>c. \<not> is_exp_char c) s));
             Some (Fin (m * pow10 e)) }
      else map_option Fin (read_mantissa s))"

fun neg_float :: "pyfloat \<Rightarrow> pyfloat" where
  "neg_float (Fin x) = Fin (- x)"
| "neg_float PInf = NInf"
| "neg_float NInf = PInf"
| "neg_float NaN = NaN"

definition py_float :: "string \<Rightarrow> pyfloat option" where
  "py_float text =
     (case py_strip text of
        [] \<Rightarrow> None
      | c # cs \<Rightarrow>
          if c = CHR ''-'' then map_option neg_float (read_unsigned_float cs)
          else if c = CHR ''+'' then read_unsigned_float cs
          else read_unsigned_float (c # cs))"

text \<open>\<open>int(x)\<close> of a finite float truncates towards zero.\<close>

definition trunc_rat :: "rat \<Rightarrow> int" where
  "trunc_rat x = (if 0 \<le> x then \<lfloor>x\<rfloor> else \<lceil>x\<rceil>)"

text \<open>Where IEEE rounding gives infinity; an integer beyond it has no float (\<open>OverflowError\<close>).\<close>

definition float_limit :: rat where
  "float_limit = 2 ^ 1024 - 2 ^ 970"

text \<open>\<open>float(x)\<close> of a decoded value.\<close>

datatype float_conversion = Float pyfloat | NotAFloat | TooLarge

definition to_float :: "json \<Rightarrow> float_conversion" where
  "to_float v =
     (case v of
        JNull \<Rightarrow> NotAFloat
      | JBool b \<Rightarrow> Float (Fin (if b then 1 else 0))
      | JInt n \<Rightarrow> if \<bar>of_int n\<bar> \<ge> float_limit then TooLarge else Float (Fin (of_int n))
      | JFloat f \<Rightarrow> Float f
      | JStr s \<Rightarrow> (case py_float s of None \<Rightarrow> NotAFloat | Some f \<Rightarrow> Float f)
      | JList _ \<Rightarrow> NotAFloat
      | JDict _ \<Rightarrow> NotAFloat)"

definition finite_value :: "pyfloat \<Rightarrow> rat option" where
  "finite_value f = (case f of Fin x \<Rightarrow> if \<bar>x\<bar> < float_limit then Some x else None | _ \<Rightarrow> None)"

lemma trunc_rat_bounds: "0 \<le> x \<Longrightarrow> of_int (trunc_rat x) \<le> x \<and> 0 \<le> trunc_rat x"
  by (simp add: trunc_rat_def)

end
