(* ===== verification/WebhookEvents.thy ===== *)
theory WebhookEvents
  imports Plans PyNumbers
begin

text \<open>
  \<open>src/billing/webhook_events.py\<close>: the translation of a provider event, a decoded JSON dict, into
  the subscription state it implies.

  Every function that reads the payload returns an option. No value means that the call raises
  (\<open>.get\<close> on something that is not a dict, a list where a hashable value is needed) or meets a
  number that is not finite, which no JSON of the provider holds. An ignored event is the value
  \<open>None\<close> inside it: \<open>Some None\<close>.
\<close>

type_synonym dict = "(string \<times> json) list"

definition HANDLED_TYPES :: "string list" where
  "HANDLED_TYPES =
     [''checkout.session.completed'', ''customer.subscription.created'',
      ''customer.subscription.updated'', ''customer.subscription.deleted'',
      ''invoice.payment_failed'']"

definition SCHEDULE_TYPES :: "string list" where
  "SCHEDULE_TYPES =
     [''subscription_schedule.created'', ''subscription_schedule.updated'',
      ''subscription_schedule.released'', ''subscription_schedule.canceled'',
      ''subscription_schedule.completed'']"

record SubscriptionUpdate =
  su_event_id :: string
  su_event_at :: seconds
  su_customer_id :: string
  su_subscription_id :: string
  su_plan :: string
  su_status :: string
  su_current_period_end :: seconds
  su_cancel_at_period_end :: bool
  su_user_info_id :: "int option"
  su_paid_since :: seconds
  su_terms_accepted_at :: seconds
  su_terms_version :: string

record ScheduleUpdate =
  sc_event_id :: string
  sc_event_at :: seconds
  sc_customer_id :: string
  sc_subscription_id :: string
  sc_plan :: string
  sc_effective_at :: seconds

definition price_id_for_plan :: "environ \<Rightarrow> string \<Rightarrow> string" where
  "price_id_for_plan env plan =
     (if plan \<notin> set PAID_PLANS then ''''
      else py_strip (env_get env (''STRIPE_PRICE_'' @ py_upper plan)))"

definition plan_for_price :: "environ \<Rightarrow> string \<Rightarrow> string" where
  "plan_for_price env price_id =
     (if price_id = '''' then FREE
      else case find (\<lambda>plan. price_id = price_id_for_plan env plan) PAID_PLANS of
             Some plan \<Rightarrow> plan
           | None \<Rightarrow> TIER_1)"

definition plan_for_price_object :: "environ \<Rightarrow> dict \<Rightarrow> string option" where
  "plan_for_price_object env price =
     (if price = [] then Some FREE
      else case plan_for_lookup_key (str_or_empty (dget price ''lookup_key'')) of
             Some plan \<Rightarrow> Some plan
           | None \<Rightarrow>
               do { meta \<leftarrow> as_dict (dget price ''metadata'');
                    let meta_plan = py_strip (str_or_empty (dget meta ''plan''));
                    if meta_plan \<in> set PAID_PLANS then Some meta_plan
                    else Some (plan_for_price env (str_or_empty (dget price ''id''))) })"

text \<open>\<open>_as_float\<close>: anything that is no number reads as 0.\<close>

fun as_float :: "json \<Rightarrow> seconds option" where
  "as_float JNull = Some 0"
| "as_float (JBool b) = Some (if b then 1 else 0)"
| "as_float (JInt n) = Some (of_int n)"
| "as_float (JFloat f) = (case f of Fin x \<Rightarrow> Some x | _ \<Rightarrow> None)"
| "as_float (JStr s) =
     (case py_float s of None \<Rightarrow> Some 0 | Some (Fin x) \<Rightarrow> Some x | Some _ \<Rightarrow> None)"
| "as_float (JList _) = Some 0"
| "as_float (JDict _) = Some 0"

text \<open>\<open>_as_int\<close>: \<open>Some None\<close> is Python's \<open>None\<close>; \<open>int(float("inf"))\<close> raises.\<close>

fun as_int :: "json \<Rightarrow> int option option" where
  "as_int JNull = Some None"
| "as_int (JBool b) = Some (Some (if b then 1 else 0))"
| "as_int (JInt n) = Some (Some n)"
| "as_int (JFloat f) =
     (case f of Fin x \<Rightarrow> Some (Some (trunc_rat x)) | NaN \<Rightarrow> Some None | _ \<Rightarrow> None)"
| "as_int (JStr s) = Some (py_int s)"
| "as_int (JList _) = Some None"
| "as_int (JDict _) = Some None"

text \<open>A value \<open>.get\<close> is called on.\<close>

definition the_dict :: "json \<Rightarrow> dict option" where
  "the_dict v = (case v of JDict d \<Rightarrow> Some d | _ \<Rightarrow> None)"

definition line_items :: "dict \<Rightarrow> json list option" where
  "line_items sub =
     do { items \<leftarrow> as_dict (dget sub ''items''); as_list (dget items ''data'') }"

fun item_period_ends :: "json list \<Rightarrow> seconds list option" where
  "item_period_ends [] = Some []"
| "item_period_ends (i # is) =
     do { d \<leftarrow> the_dict i; e \<leftarrow> as_float (dget d ''current_period_end'');
          es \<leftarrow> item_period_ends is; Some (e # es) }"

definition period_end_of :: "dict \<Rightarrow> seconds option" where
  "period_end_of sub =
     do { t \<leftarrow> as_float (dget sub ''current_period_end'');
          if t \<noteq> 0 then Some t
          else do { items \<leftarrow> line_items sub; es \<leftarrow> item_period_ends items;
                    Some (case es of [] \<Rightarrow> 0 | e # es' \<Rightarrow> foldl max e es') } }"

fun first_price :: "json list \<Rightarrow> dict option" where
  "first_price [] = Some []"
| "first_price (i # is) =
     do { item \<leftarrow> the_dict i;
          price \<leftarrow> as_dict (dget item ''price'');
          if truthy (dget price ''id'') then Some price
          else do { legacy_plan \<leftarrow> as_dict (dget item ''plan'');
                    if truthy (dget legacy_plan ''id'') then Some legacy_plan
                    else first_price is } }"

definition price_object :: "dict \<Rightarrow> dict option" where
  "price_object sub = do { items \<leftarrow> line_items sub; first_price items }"

text \<open>\<open>_price_id\<close> runs the same loop and returns the id alone.\<close>

definition price_id_of :: "dict \<Rightarrow> string option" where
  "price_id_of sub =
     do { items \<leftarrow> line_items sub; p \<leftarrow> first_price items;
          Some (if p = [] then '''' else py_str (dget p ''id'')) }"

text \<open>An id, or an expanded object that carries one.\<close>

definition id_or_object :: "json \<Rightarrow> string" where
  "id_or_object v = (case v of JDict d \<Rightarrow> str_or_empty (dget d ''id'') | _ \<Rightarrow> str_or_empty v)"

definition customer_id_of :: "dict \<Rightarrow> string" where
  "customer_id_of obj = id_or_object (dget obj ''customer'')"

definition subscription_id_of :: "dict \<Rightarrow> string" where
  "subscription_id_of obj = id_or_object (dget obj ''subscription'')"

definition paid_since_of :: "dict \<Rightarrow> seconds option" where
  "paid_since_of obj =
     (if str_or_empty (dget obj ''status'') \<noteq> ''active'' then Some 0
      else as_float (dget obj ''start_date''))"

definition terms_consent :: "dict \<Rightarrow> seconds \<Rightarrow> (seconds \<times> string) option" where
  "terms_consent obj event_at =
     do { consent \<leftarrow> as_dict (dget obj ''consent'');
          if str_or_empty (dget consent ''terms_of_service'') \<noteq> ''accepted'' then Some (0, '''')
          else do { meta \<leftarrow> as_dict (dget obj ''metadata'');
                    Some (event_at, str_or_empty (dget meta ''terms_version'')) } }"

definition plan_from_metadata :: "dict \<Rightarrow> string option" where
  "plan_from_metadata obj =
     do { meta \<leftarrow> as_dict (dget obj ''metadata'');
          let plan = py_strip (str_or_empty (dget meta ''plan''));
          Some (if plan \<in> set PAID_PLANS then plan else TIER_1) }"

definition user_info_id_of :: "dict \<Rightarrow> int option option" where
  "user_info_id_of obj =
     do { meta \<leftarrow> as_dict (dget obj ''metadata'');
          a \<leftarrow> as_int (dget meta ''user_info_id'');
          if a \<noteq> None \<and> a \<noteq> Some 0 then Some a else as_int (dget obj ''client_reference_id'') }"

fun upcoming_phases :: "seconds \<Rightarrow> json list \<Rightarrow> (seconds \<times> dict) list option" where
  "upcoming_phases now [] = Some []"
| "upcoming_phases now (p # ps) =
     do { d \<leftarrow> the_dict p; t \<leftarrow> as_float (dget d ''start_date'');
          rest \<leftarrow> upcoming_phases now ps;
          Some (if t > now then (t, d) # rest else rest) }"

text \<open>\<open>min(..., key=...)\<close>: the first of the smallest.\<close>

fun earliest :: "seconds \<times> dict \<Rightarrow> (seconds \<times> dict) list \<Rightarrow> seconds \<times> dict" where
  "earliest best [] = best"
| "earliest best (x # xs) = earliest (if fst x < fst best then x else best) xs"

definition future_phase :: "dict \<Rightarrow> seconds \<Rightarrow> dict option" where
  "future_phase schedule now =
     do { phases \<leftarrow> as_list (dget schedule ''phases'');
          upcoming \<leftarrow> upcoming_phases now phases;
          Some (case upcoming of [] \<Rightarrow> [] | x # xs \<Rightarrow> snd (earliest x xs)) }"

fun first_phase_price :: "json list \<Rightarrow> dict option" where
  "first_phase_price [] = Some []"
| "first_phase_price (i # is) =
     do { item \<leftarrow> the_dict i;
          let price = dget item ''price'';
          case price of
            JDict d \<Rightarrow>
              if truthy (dget d ''id'') then Some d
              else if truthy price then Some [(''id'', JStr (py_str price))]
              else first_phase_price is
          | _ \<Rightarrow> if truthy price then Some [(''id'', JStr (py_str price))] else first_phase_price is }"

definition phase_price :: "dict \<Rightarrow> dict option" where
  "phase_price phase = do { items \<leftarrow> as_list (dget phase ''items''); first_phase_price items }"

text \<open>\<open>event.get("type") or ""\<close> as a member of a set of strings: no value for an unhashable one.\<close>

definition event_type :: "dict \<Rightarrow> string option option" where
  "event_type event =
     (case json_or (dget event ''type'') (JStr '''') of
        JStr s \<Rightarrow> Some (Some s) | JList _ \<Rightarrow> None | JDict _ \<Rightarrow> None | _ \<Rightarrow> Some None)"

definition event_object :: "dict \<Rightarrow> json option" where
  "event_object event =
     do { data \<leftarrow> as_dict (dget event ''data''); Some (json_or (dget data ''object'') (JDict [])) }"

definition schedule_ended :: "string \<Rightarrow> bool" where
  "schedule_ended etype =
     (etype \<in> {''subscription_schedule.released'', ''subscription_schedule.canceled'',
               ''subscription_schedule.completed''})"

definition schedule_update_from_event :: "environ \<Rightarrow> dict \<Rightarrow> seconds \<Rightarrow> ScheduleUpdate option option" where
  "schedule_update_from_event env event now =
     do { etype \<leftarrow> event_type event;
          case etype of
            None \<Rightarrow> Some None
          | Some ty \<Rightarrow>
              if ty \<notin> set SCHEDULE_TYPES then Some None
              else do {
                v \<leftarrow> event_object event;
                obj \<leftarrow> the_dict v;
                phase \<leftarrow> (if schedule_ended ty then Some [] else future_phase obj now);
                price \<leftarrow> (if phase = [] then Some [] else phase_price phase);
                plan \<leftarrow> (if phase = [] \<or> price = [] then Some '''' else plan_for_price_object env price);
                event_at \<leftarrow> as_float (dget event ''created'');
                effective_at \<leftarrow> (if phase = [] then Some 0 else as_float (dget phase ''start_date''));
                Some (Some \<lparr>sc_event_id = str_or_empty (dget event ''id''), sc_event_at = event_at,
                       sc_customer_id = customer_id_of obj, sc_subscription_id = subscription_id_of obj,
                       sc_plan = plan, sc_effective_at = effective_at\<rparr>) } }"

definition checkout_update :: "dict \<Rightarrow> string \<Rightarrow> seconds \<Rightarrow> SubscriptionUpdate option option" where
  "checkout_update obj event_id event_at =
     (if json_or (dget obj ''mode'') (JStr ''subscription'') \<noteq> JStr ''subscription'' then Some None
      else do {
        terms \<leftarrow> terms_consent obj event_at;
        plan \<leftarrow> plan_from_metadata obj;
        uid \<leftarrow> user_info_id_of obj;
        Some (Some \<lparr>su_event_id = event_id, su_event_at = event_at,
               su_customer_id = customer_id_of obj, su_subscription_id = subscription_id_of obj,
               su_plan = plan, su_status = ''active'', su_current_period_end = 0,
               su_cancel_at_period_end = False, su_user_info_id = uid, su_paid_since = 0,
               su_terms_accepted_at = fst terms, su_terms_version = snd terms\<rparr>) })"

definition deleted_update :: "dict \<Rightarrow> string \<Rightarrow> seconds \<Rightarrow> SubscriptionUpdate option option" where
  "deleted_update obj event_id event_at =
     do { ends \<leftarrow> period_end_of obj;
          uid \<leftarrow> user_info_id_of obj;
          Some (Some \<lparr>su_event_id = event_id, su_event_at = event_at,
                 su_customer_id = customer_id_of obj,
                 su_subscription_id = str_or_empty (dget obj ''id''),
                 su_plan = FREE, su_status = ''canceled'', su_current_period_end = ends,
                 su_cancel_at_period_end = truthy (dget obj ''cancel_at_period_end''),
                 su_user_info_id = uid, su_paid_since = 0,
                 su_terms_accepted_at = 0, su_terms_version = ''''\<rparr>) }"

definition changed_update :: "environ \<Rightarrow> dict \<Rightarrow> string \<Rightarrow> seconds \<Rightarrow> SubscriptionUpdate option option" where
  "changed_update env obj event_id event_at =
     do { price \<leftarrow> price_object obj;
          plan \<leftarrow> plan_for_price_object env price;
          ends \<leftarrow> period_end_of obj;
          uid \<leftarrow> user_info_id_of obj;
          paid \<leftarrow> paid_since_of obj;
          Some (Some \<lparr>su_event_id = event_id, su_event_at = event_at,
                 su_customer_id = customer_id_of obj,
                 su_subscription_id = str_or_empty (dget obj ''id''),
                 su_plan = plan, su_status = str_or_empty (dget obj ''status''),
                 su_current_period_end = ends,
                 su_cancel_at_period_end = truthy (dget obj ''cancel_at_period_end''),
                 su_user_info_id = uid, su_paid_since = paid,
                 su_terms_accepted_at = 0, su_terms_version = ''''\<rparr>) }"

definition subscription_update_from_event :: "environ \<Rightarrow> dict \<Rightarrow> SubscriptionUpdate option option" where
  "subscription_update_from_event env event =
     do { etype \<leftarrow> event_type event;
          case etype of
            None \<Rightarrow> Some None
          | Some ty \<Rightarrow>
              if ty \<notin> set HANDLED_TYPES then Some None
              else do {
                v \<leftarrow> event_object event;
                let event_id = str_or_empty (dget event ''id'');
                event_at \<leftarrow> as_float (dget event ''created'');
                if ty = ''invoice.payment_failed'' then Some None
                else do {
                  obj \<leftarrow> the_dict v;
                  if ty = ''checkout.session.completed'' then checkout_update obj event_id event_at
                  else if ty = ''customer.subscription.deleted'' then deleted_update obj event_id event_at
                  else changed_update env obj event_id event_at } } }"

subsection \<open>Lemmas\<close>

lemma bind_SomeE:
  assumes "Option.bind x f = Some y"
  obtains z where "x = Some z" "f z = Some y"
  using assms by (cases x) auto

lemma paid_in_order: "p \<in> set PAID_PLANS \<Longrightarrow> p \<in> set PLAN_ORDER"
  by (simp add: PAID_PLANS_iff)

lemma plan_for_lookup_key_SomeD:
  "plan_for_lookup_key key = Some p \<Longrightarrow> p \<in> set PAID_PLANS \<and> key = price_lookup_key p"
  by (auto simp: plan_for_lookup_key_def find_Some_iff)

lemma plan_for_price_cases:
  "plan_for_price env price_id = p \<Longrightarrow>
     price_id = '''' \<and> p = FREE \<or>
     price_id \<noteq> '''' \<and> p \<in> set PAID_PLANS \<and> (price_id = price_id_for_plan env p \<or> p = TIER_1)"
  by (auto simp: plan_for_price_def find_Some_iff PAID_PLANS_def split: if_splits option.splits)

text \<open>The three handles of a price object, and what the answer says about them.\<close>

definition meta_plan_of :: "dict \<Rightarrow> string" where
  "meta_plan_of price =
     (case as_dict (dget price ''metadata'') of
        None \<Rightarrow> '''' | Some meta \<Rightarrow> py_strip (str_or_empty (dget meta ''plan'')))"

lemma plan_for_price_object_cases:
  assumes "plan_for_price_object env price = Some p"
  obtains (no_price) "price = []" "p = FREE"
  | (lookup) "price \<noteq> []" "p \<in> set PAID_PLANS" "str_or_empty (dget price ''lookup_key'') = price_lookup_key p"
  | (meta) "price \<noteq> []" "p \<in> set PAID_PLANS" "meta_plan_of price = p"
  | (by_id) "price \<noteq> []" "p = plan_for_price env (str_or_empty (dget price ''id''))"
      "plan_for_lookup_key (str_or_empty (dget price ''lookup_key'')) = None"
      "meta_plan_of price \<notin> set PAID_PLANS"
proof (cases "price = []")
  case True
  then show ?thesis using assms no_price by (simp add: plan_for_price_object_def)
next
  case False
  show ?thesis
  proof (cases "plan_for_lookup_key (str_or_empty (dget price ''lookup_key''))")
    case (Some q)
    then show ?thesis
      using assms False plan_for_lookup_key_SomeD [OF Some] lookup
      by (simp add: plan_for_price_object_def)
  next
    case None
    then obtain m where "as_dict (dget price ''metadata'') = Some m"
      using assms False by (auto simp: plan_for_price_object_def elim: bind_SomeE)
    then show ?thesis
      using assms False None meta by_id
      by (auto simp: plan_for_price_object_def meta_plan_of_def Let_def split: if_splits)
  qed
qed

lemma plan_for_price_object_known: "plan_for_price_object env price = Some p \<Longrightarrow> p \<in> set PLAN_ORDER"
  by (elim plan_for_price_object_cases)
     (use plan_for_price_cases paid_in_order in \<open>fastforce simp: PLAN_ORDER_def\<close>)+

lemma upcoming_phases_mem:
  "upcoming_phases now ps = Some us \<Longrightarrow>
     (t, d) \<in> set us \<longleftrightarrow> JDict d \<in> set ps \<and> as_float (dget d ''start_date'') = Some t \<and> now < t"
proof (induction ps arbitrary: us)
  case (Cons p ps)
  then obtain e s rest where "p = JDict e" "as_float (dget e ''start_date'') = Some s"
    "upcoming_phases now ps = Some rest" "us = (if s > now then (s, e) # rest else rest)"
    by (auto simp: the_dict_def elim!: bind_SomeE split: json.splits)
  then show ?case using Cons.IH [of rest] by auto
qed simp

lemma earliest_min: "earliest b xs \<in> set (b # xs) \<and> (\<forall>x\<in>set (b # xs). fst (earliest b xs) \<le> fst x)"
proof (induction xs arbitrary: b)
  case (Cons x xs)
  then show ?case using Cons.IH [of x] Cons.IH [of b] by force
qed simp

text \<open>What a translated subscription event comes from.\<close>

lemma subscription_update_cases:
  assumes "subscription_update_from_event env event = Some (Some u)"
  obtains (checkout) obj eid ts where "dget event ''type'' = JStr ''checkout.session.completed''"
      "checkout_update obj eid ts = Some (Some u)"
  | (deleted) obj eid ts where "dget event ''type'' = JStr ''customer.subscription.deleted''"
      "deleted_update obj eid ts = Some (Some u)"
  | (changed) obj eid ts where
      "dget event ''type'' \<in> {JStr ''customer.subscription.created'', JStr ''customer.subscription.updated''}"
      "changed_update env obj eid ts = Some (Some u)"
proof -
  obtain ty where ty: "event_type event = Some (Some ty)" "ty \<in> set HANDLED_TYPES"
    using assms by (auto simp: subscription_update_from_event_def elim!: bind_SomeE
        split: option.splits if_splits)
  then have t: "dget event ''type'' = JStr ty"
    by (auto simp: event_type_def json_or_def HANDLED_TYPES_def split: json.splits if_splits)
  obtain obj eid ts where pay: "ty \<noteq> ''invoice.payment_failed''"
    "(if ty = ''checkout.session.completed'' then checkout_update obj eid ts
      else if ty = ''customer.subscription.deleted'' then deleted_update obj eid ts
      else changed_update env obj eid ts) = Some (Some u)"
    using assms ty by (auto simp: subscription_update_from_event_def Let_def elim!: bind_SomeE
        split: if_splits)
  with ty t show thesis
    using checkout deleted changed by (auto simp: HANDLED_TYPES_def split: if_splits)
qed

subsection \<open>Properties\<close>

text \<open>What an event may grant. A translated event is of a handled subscription type and names a
  known plan; a deleted subscription is the free plan, canceled; a completed checkout is a paid
  plan, active, with no period; only an active subscription's own event says since when it is paid,
  and only a checkout records consent, at its own time.\<close>

theorem subscription_event_grants:
  assumes "subscription_update_from_event env event = Some (Some u)"
  shows "su_plan u \<in> set PLAN_ORDER \<and>
    (dget event ''type'' = JStr ''customer.subscription.deleted'' \<longrightarrow>
       su_plan u = FREE \<and> su_status u = ''canceled'') \<and>
    (dget event ''type'' = JStr ''checkout.session.completed'' \<longrightarrow>
       su_plan u \<in> set PAID_PLANS \<and> su_status u = ''active'' \<and> su_current_period_end u = 0) \<and>
    (su_paid_since u \<noteq> 0 \<longrightarrow> su_status u = ''active'' \<and>
       dget event ''type'' \<in> {JStr ''customer.subscription.created'', JStr ''customer.subscription.updated''}) \<and>
    (su_terms_accepted_at u \<noteq> 0 \<longrightarrow> su_terms_accepted_at u = su_event_at u \<and>
       dget event ''type'' = JStr ''checkout.session.completed'')"
  using assms
proof (cases rule: subscription_update_cases)
  case (checkout obj eid ts)
  then show ?thesis
    by (auto simp: checkout_update_def terms_consent_def plan_from_metadata_def Let_def PLAN_ORDER_def
        PAID_PLANS_def elim!: bind_SomeE split: if_splits)
next
  case (deleted obj eid ts)
  then show ?thesis by (auto simp: deleted_update_def PLAN_ORDER_def elim!: bind_SomeE)
next
  case (changed obj eid ts)
  then show ?thesis
    by (auto simp: changed_update_def paid_since_of_def dest: plan_for_price_object_known
        elim!: bind_SomeE split: if_splits)
qed

definition no_env :: environ where
  "no_env = (\<lambda>_. None)"

definition updated_event :: dict where
  "updated_event =
     [(''id'', JStr ''evt_1''), (''type'', JStr ''customer.subscription.updated''), (''created'', JInt 1000),
      (''data'', JDict [(''object'', JDict
        [(''id'', JStr ''sub_1''), (''customer'', JStr ''cus_1''), (''status'', JStr ''active''),
         (''start_date'', JInt 900), (''current_period_end'', JInt 5000),
         (''items'', JDict [(''data'', JList [JDict [(''price'', JDict
            [(''id'', JStr ''price_x''), (''lookup_key'', JStr ''traxjourney_tier_2_monthly_eur'')])]])])])])]"

theorem subscription_event_grants_witness:
  "\<exists>u. subscription_update_from_event no_env updated_event = Some (Some u) \<and>
     su_plan u = TIER_2 \<and> su_paid_since u = 900 \<and> su_status u = ''active''"
proof -
  have ev: "\<exists>u. subscription_update_from_event no_env updated_event = Some (Some u) \<and>
      su_plan u = TIER_2 \<and> su_paid_since u = 900"
    by (simp add: subscription_update_from_event_def updated_event_def event_type_def json_or_def dget_def
        HANDLED_TYPES_def event_object_def as_dict_def the_dict_def changed_update_def price_object_def
        line_items_def as_list_def plan_for_price_object_def plan_for_lookup_key_def PAID_PLANS_def
        price_lookup_key_def LOOKUP_PREFIX_def LOOKUP_CURRENCY_def plan_ids period_end_of_def
        user_info_id_of_def paid_since_of_def)
  then obtain u where u: "subscription_update_from_event no_env updated_event = Some (Some u)"
    "su_plan u = TIER_2" "su_paid_since u = 900" by blast
  with subscription_event_grants [OF u(1)] show ?thesis by auto
qed

text \<open>Which plan a price grants. The free plan is granted exactly when there is no price at all or
  the price carries no handle; an unrecognised price grants the entry tier, so a better plan than
  that is always named by the lookup key, by the metadata or by a configured price id.\<close>

theorem price_grants_what_it_names:
  assumes "plan_for_price_object env price = Some p"
  shows "(p = FREE \<longleftrightarrow> price = [] \<or>
      plan_for_lookup_key (str_or_empty (dget price ''lookup_key'')) = None \<and>
      meta_plan_of price \<notin> set PAID_PLANS \<and> str_or_empty (dget price ''id'') = '''') \<and>
    (p \<noteq> FREE \<and> p \<noteq> TIER_1 \<longrightarrow>
      str_or_empty (dget price ''lookup_key'') = price_lookup_key p \<or> meta_plan_of price = p \<or>
      str_or_empty (dget price ''id'') = price_id_for_plan env p \<and> price_id_for_plan env p \<noteq> '''')"
  using assms
proof (cases rule: plan_for_price_object_cases)
  case lookup
  then show ?thesis
    by (auto simp: PAID_PLANS_iff plan_for_lookup_key_def find_None_iff)
next
  case by_id
  then show ?thesis using plan_for_price_cases [OF by_id(2) [symmetric]] by (auto simp: PAID_PLANS_iff)
qed (auto simp: PAID_PLANS_iff)

theorem price_grants_what_it_names_witness:
  "plan_for_price_object no_env [(''id'', JStr ''price_unknown'')] = Some TIER_1 \<and> TIER_1 \<noteq> FREE"
proof -
  have e: "plan_for_price_object no_env [(''id'', JStr ''price_unknown'')] = Some TIER_1"
    by (simp add: plan_for_price_object_def dget_def as_dict_def plan_for_lookup_key_def PAID_PLANS_def
        price_lookup_key_def LOOKUP_PREFIX_def plan_for_price_def price_id_for_plan_def env_get_def no_env_def)
       (simp add: plan_ids)
  have i: "str_or_empty (dget [(''id'', JStr ''price_unknown'')] ''id'') \<noteq> ''''" by (simp add: dget_def)
  show ?thesis using price_grants_what_it_names [OF e] e i by blast
qed

text \<open>A scheduled change is the next one. A schedule that has ended implies nothing pending; a
  pending plan is a known plan that starts at a phase still in the future, and no phase of the
  schedule starts between now and it.\<close>

theorem schedule_names_next_phase:
  assumes "schedule_update_from_event env event now = Some (Some u)"
  shows "\<exists>ty obj phases. dget event ''type'' = JStr ty \<and> ty \<in> set SCHEDULE_TYPES \<and>
    (schedule_ended ty \<longrightarrow> sc_plan u = '''' \<and> sc_effective_at u = 0) \<and>
    event_object event = Some (JDict obj) \<and>
    (sc_plan u \<noteq> '''' \<longrightarrow>
       sc_plan u \<in> set PLAN_ORDER \<and> now < sc_effective_at u \<and>
       as_list (dget obj ''phases'') = Some phases \<and>
       (\<exists>d. JDict d \<in> set phases \<and> as_float (dget d ''start_date'') = Some (sc_effective_at u)) \<and>
       (\<forall>d t. JDict d \<in> set phases \<and> as_float (dget d ''start_date'') = Some t \<and> now < t \<longrightarrow>
          sc_effective_at u \<le> t))"
proof -
  obtain ty where ty: "event_type event = Some (Some ty)" "ty \<in> set SCHEDULE_TYPES"
    using assms by (auto simp: schedule_update_from_event_def elim!: bind_SomeE split: option.splits if_splits)
  then have t: "dget event ''type'' = JStr ty"
    by (auto simp: event_type_def json_or_def SCHEDULE_TYPES_def split: json.splits if_splits)
  obtain obj phase price where obj: "event_object event = Some (JDict obj)"
    and phase: "(if schedule_ended ty then Some [] else future_phase obj now) = Some phase"
    and price: "(if phase = [] then Some [] else phase_price phase) = Some price"
    and plan: "(if phase = [] \<or> price = [] then Some '''' else plan_for_price_object env price) = Some (sc_plan u)"
    and eff: "(if phase = [] then Some 0 else as_float (dget phase ''start_date'')) = Some (sc_effective_at u)"
    using assms ty by (auto simp: schedule_update_from_event_def the_dict_def elim!: bind_SomeE split: json.splits)
  have ended: "schedule_ended ty \<Longrightarrow> sc_plan u = '''' \<and> sc_effective_at u = 0"
    using phase plan eff by auto
  show ?thesis
  proof (cases "sc_plan u = ''''")
    case True
    then show ?thesis using t ty ended obj by blast
  next
    case False
    then have ne: "phase \<noteq> []" "\<not> schedule_ended ty" and known: "sc_plan u \<in> set PLAN_ORDER"
      using plan phase by (auto split: if_splits dest: plan_for_price_object_known)
    then obtain phases x xs where ps: "as_list (dget obj ''phases'') = Some phases"
      and up: "upcoming_phases now phases = Some (x # xs)" and ph: "phase = snd (earliest x xs)"
      using phase by (auto simp: future_phase_def elim!: bind_SomeE split: list.splits)
    note mem = upcoming_phases_mem [OF up] and mn = earliest_min [of x xs]
    have "(fst (earliest x xs), phase) \<in> set (x # xs)" using mn ph by simp
    then have d: "JDict phase \<in> set phases" "as_float (dget phase ''start_date'') = Some (fst (earliest x xs))"
      "now < fst (earliest x xs)" using mem by blast+
    have e: "sc_effective_at u = fst (earliest x xs)" using eff ne d(2) by simp
    have "\<forall>d' t'. JDict d' \<in> set phases \<and> as_float (dget d' ''start_date'') = Some t' \<and> now < t' \<longrightarrow>
        fst (earliest x xs) \<le> t'"
      using mem mn by (metis fst_conv)
    then show ?thesis using t ty ended obj known ps d e by auto
  qed
qed

definition schedule_event :: dict where
  "schedule_event =
     [(''id'', JStr ''evt_2''), (''type'', JStr ''subscription_schedule.updated''), (''created'', JInt 1000),
      (''data'', JDict [(''object'', JDict
        [(''customer'', JStr ''cus_1''), (''subscription'', JStr ''sub_1''),
         (''phases'', JList
           [JDict [(''start_date'', JInt 900)],
            JDict [(''start_date'', JInt 5000),
                   (''items'', JList [JDict [(''price'', JDict [(''id'', JStr ''p''),
                      (''metadata'', JDict [(''plan'', JStr ''tier_1'')])])]])]])])])]"

theorem schedule_names_next_phase_witness:
  "\<exists>u. schedule_update_from_event no_env schedule_event 1000 = Some (Some u) \<and>
     sc_plan u = ''tier_1'' \<and> (1000::rat) < sc_effective_at u \<and> sc_plan u \<in> set PLAN_ORDER"
proof -
  have "\<exists>u. schedule_update_from_event no_env schedule_event 1000 = Some (Some u) \<and> sc_plan u = ''tier_1''"
    by (simp add: schedule_update_from_event_def schedule_event_def event_type_def json_or_def dget_def
        SCHEDULE_TYPES_def event_object_def as_dict_def the_dict_def schedule_ended_def future_phase_def
        as_list_def phase_price_def plan_for_price_object_def plan_for_lookup_key_def PAID_PLANS_def
        price_lookup_key_def LOOKUP_PREFIX_def py_strip_def py_isspace_def plan_ids)
  then obtain u where u: "schedule_update_from_event no_env schedule_event 1000 = Some (Some u)"
    "sc_plan u = ''tier_1''" by blast
  with schedule_names_next_phase [OF u(1)] show ?thesis by auto
qed

end
