(* ===== verification/BillingModels.thy ===== *)
theory BillingModels
  imports TJ_Prelude
begin

text \<open>
  The billing tables of \<open>models/billing.py\<close>: the subscription row a user has at most one of, the
  refund ledger row keyed by its subscription, and the storage counter. Field names carry the
  table's prefix (\<open>sub_\<close>, \<open>rf_\<close>, \<open>us_\<close>); defaults are the columns' defaults.
\<close>

record Subscription =
  sub_user_info_id :: int
  sub_plan :: string
  sub_status :: string
  sub_provider :: string
  sub_provider_customer_id :: string
  sub_provider_subscription_id :: string
  sub_current_period_end :: seconds
  sub_cancel_at_period_end :: bool
  sub_pending_plan :: string
  sub_pending_plan_at :: seconds
  sub_admin_override_plan :: string
  sub_last_event_id :: string
  sub_last_event_at :: seconds
  sub_contract_started_at :: seconds
  sub_contract_subscription_id :: string
  sub_contract_checked_subscription_id :: string
  sub_terms_accepted_at :: seconds
  sub_terms_version :: string
  sub_updated_at :: seconds

definition new_subscription :: "int \<Rightarrow> seconds \<Rightarrow> Subscription" where
  "new_subscription uid now =
     \<lparr>sub_user_info_id = uid, sub_plan = ''free'', sub_status = ''none'', sub_provider = ''stripe'',
      sub_provider_customer_id = '''', sub_provider_subscription_id = '''',
      sub_current_period_end = 0, sub_cancel_at_period_end = False,
      sub_pending_plan = '''', sub_pending_plan_at = 0, sub_admin_override_plan = '''',
      sub_last_event_id = '''', sub_last_event_at = 0,
      sub_contract_started_at = 0, sub_contract_subscription_id = '''',
      sub_contract_checked_subscription_id = '''',
      sub_terms_accepted_at = 0, sub_terms_version = '''', sub_updated_at = now\<rparr>"

record SubscriptionRefund =
  rf_subscription_id :: string
  rf_customer_id :: string
  rf_state :: string
  rf_contract_started_at :: seconds
  rf_attempt :: int
  rf_amount :: int
  rf_to_refund :: int
  rf_owed :: int
  rf_refunded :: int
  rf_currency :: string
  rf_invoice_id :: string
  rf_credit_note_id :: string
  rf_refund_id :: string
  rf_failed_refund_id :: string
  rf_reason :: string
  rf_requested_at :: seconds
  rf_cancel_attempted_at :: seconds
  rf_version :: int
  rf_claim_token :: string
  rf_lease_until :: seconds
  rf_settled_at :: seconds
  rf_created_at :: seconds
  rf_updated_at :: seconds

definition new_refund :: "string \<Rightarrow> string \<Rightarrow> seconds \<Rightarrow> seconds \<Rightarrow> seconds \<Rightarrow> SubscriptionRefund" where
  "new_refund subscription_id customer_id contract_start requested_at now =
     \<lparr>rf_subscription_id = subscription_id, rf_customer_id = customer_id, rf_state = ''pending'',
      rf_contract_started_at = contract_start, rf_attempt = 0, rf_amount = -1, rf_to_refund = -1,
      rf_owed = 0, rf_refunded = 0, rf_currency = '''', rf_invoice_id = '''',
      rf_credit_note_id = '''', rf_refund_id = '''', rf_failed_refund_id = '''', rf_reason = '''',
      rf_requested_at = requested_at, rf_cancel_attempted_at = requested_at, rf_version = 0,
      rf_claim_token = '''', rf_lease_until = 0, rf_settled_at = 0, rf_created_at = now,
      rf_updated_at = now\<rparr>"

record UserUsage =
  us_user_info_id :: int
  us_storage_bytes :: int
  us_reconciled_at :: seconds
  us_updated_at :: seconds

definition new_usage :: "int \<Rightarrow> seconds \<Rightarrow> UserUsage" where
  "new_usage uid now =
     \<lparr>us_user_info_id = uid, us_storage_bytes = 0, us_reconciled_at = 0, us_updated_at = now\<rparr>"

subsection \<open>Rows of a table with a unique key\<close>

text \<open>
  \<open>select(...).where(key == k).first()\<close>, and the \<open>sess.add\<close> that writes a loaded row back or
  inserts a new one: the rows keep their order, a new row goes last.
\<close>

definition first_row :: "('r \<Rightarrow> 'k) \<Rightarrow> 'k \<Rightarrow> 'r list \<Rightarrow> 'r option" where
  "first_row key k rows = find (\<lambda>r. key r = k) rows"

definition save_row :: "('r \<Rightarrow> 'k) \<Rightarrow> 'r \<Rightarrow> 'r list \<Rightarrow> 'r list" where
  "save_row key r rows =
     (if \<exists>x\<in>set rows. key x = key r then map (\<lambda>x. if key x = key r then r else x) rows
      else rows @ [r])"

lemma first_row_key: "first_row key k rows = Some r \<Longrightarrow> key r = k"
  by (auto simp: first_row_def find_Some_iff)

lemma first_row_in: "first_row key k rows = Some r \<Longrightarrow> r \<in> set rows"
  by (auto simp: first_row_def find_Some_iff)

lemma first_row_None: "first_row key k rows = None \<longleftrightarrow> k \<notin> key ` set rows"
  by (auto simp: first_row_def find_None_iff image_iff)

lemma first_row_mem: "distinct (map key rows) \<Longrightarrow> r \<in> set rows \<Longrightarrow> first_row key (key r) rows = Some r"
  by (induction rows) (auto simp: first_row_def image_iff)

lemma find_map_upd:
  "find (\<lambda>x. key x = k) (map (\<lambda>x. if key x = key r then r else x) rows) =
     (if k = key r then (if key r \<in> key ` set rows then Some r else None)
      else find (\<lambda>x. key x = k) rows)"
  by (induction rows) auto

lemma find_snoc:
  "find P (xs @ [r]) = (case find P xs of None \<Rightarrow> if P r then Some r else None | Some x \<Rightarrow> Some x)"
  by (induction xs) auto

lemma first_row_save:
  "first_row key k (save_row key r rows) = (if k = key r then Some r else first_row key k rows)"
proof (cases "\<exists>x\<in>set rows. key x = key r")
  case True
  then have "key r \<in> key ` set rows" by (metis imageI)
  with True show ?thesis by (simp add: save_row_def first_row_def find_map_upd)
next
  case False
  then have "find (\<lambda>x. key x = key r) rows = None" by (auto simp: find_None_iff)
  with False show ?thesis by (auto simp: save_row_def first_row_def find_snoc split: option.splits)
qed

lemma keys_save: "key ` set (save_row key r rows) = insert (key r) (key ` set rows)"
  by (auto simp: save_row_def)

lemma distinct_save: "distinct (map key rows) \<Longrightarrow> distinct (map key (save_row key r rows))"
proof -
  have "map key (map (\<lambda>x. if key x = key r then r else x) rows) = map key rows"
    by (induction rows) auto
  then show "distinct (map key rows) \<Longrightarrow> ?thesis"
    by (cases "\<exists>x\<in>set rows. key x = key r") (auto simp: save_row_def simp del: map_map)
qed

subsection \<open>The contract of a keyed table\<close>

text \<open>
  What the billing operations rely on when they read a row, change it and write it back: the
  written row is the one read next, and no other key is touched.
\<close>

locale row_table =
  fixes get :: "'k \<Rightarrow> 't \<Rightarrow> 'r option" and put :: "'r \<Rightarrow> 't \<Rightarrow> 't" and key :: "'r \<Rightarrow> 'k"
  assumes get_put: "get k (put r t) = (if k = key r then Some r else get k t)"
    and get_key: "get k t = Some r \<Longrightarrow> key r = k"
begin

lemma get_put_same [simp]: "get (key r) (put r t) = Some r"
  by (simp add: get_put)

lemma get_put_other: "k \<noteq> key r \<Longrightarrow> get k (put r t) = get k t"
  by (simp add: get_put)

text \<open>A read-modify-write that keeps the key: the row read afterwards is the modified one.\<close>

lemma update_get: "get k t = Some r \<Longrightarrow> key (f r) = key r \<Longrightarrow> get k (put (f r) t) = Some (f r)"
  using get_key by (fastforce simp: get_put)

lemma put_put: "key r = key r' \<Longrightarrow> get k (put r' (put r t)) = get k (put r' t)"
  by (simp add: get_put)

text \<open>Writing back what was read changes no read.\<close>

lemma put_get: "get k t = Some r \<Longrightarrow> get j (put r t) = get j t"
  using get_key by (fastforce simp: get_put)

end

abbreviation "get_sub \<equiv> first_row sub_user_info_id"
abbreviation "put_sub \<equiv> save_row sub_user_info_id"
abbreviation "get_usage \<equiv> first_row us_user_info_id"
abbreviation "put_usage \<equiv> save_row us_user_info_id"
abbreviation "get_refund \<equiv> first_row rf_subscription_id"
abbreviation "put_refund \<equiv> save_row rf_subscription_id"

interpretation subs: row_table get_sub put_sub sub_user_info_id
  by unfold_locales (auto simp: first_row_save dest: first_row_key)

interpretation usages: row_table get_usage put_usage us_user_info_id
  by unfold_locales (auto simp: first_row_save dest: first_row_key)

interpretation refunds: row_table get_refund put_refund rf_subscription_id
  by unfold_locales (auto simp: first_row_save dest: first_row_key)

end
