(* ===== verification/TripDays.thy ===== *)
theory TripDays
  imports Calendar Json
begin

text \<open>
  How long a trip is, in days: \<open>src/billing/trip_days.py\<close>. The pure part (normalising a stored
  date, the bounds of a list of dates, the inclusive span) and the one function that gathers a
  trip's dates from the database. A table is the list of its rows, a row a record of the columns
  the query reads.
\<close>

subsection \<open>The arithmetic\<close>

definition normalise :: "json \<Rightarrow> string option" where
  "normalise value =
     (if \<not> truthy value then None
      else let text = take 10 (py_str value)
           in case fromisoformat text of None \<Rightarrow> None | Some _ \<Rightarrow> Some text)"

definition bounds :: "json list \<Rightarrow> string option \<times> string option" where
  "bounds values =
     (let dates = sort (List.map_filter normalise values)
      in if dates = [] then (None, None) else (Some (hd dates), Some (last dates)))"

definition span_days :: "string option \<Rightarrow> string option \<Rightarrow> int" where
  "span_days first_day last_day =
     (case (normalise (opt_str first_day), normalise (opt_str last_day)) of
        (Some s_text, Some e_text) \<Rightarrow>
          (case (fromisoformat s_text, fromisoformat e_text) of
             (Some s, Some e) \<Rightarrow> max (ymd2ord e - ymd2ord s + 1) 0
           | _ \<Rightarrow> 0)
      | _ \<Rightarrow> 0)"

definition span_of :: "json list \<Rightarrow> int" where
  "span_of values = (case bounds values of (first_day, last_day) \<Rightarrow> span_days first_day last_day)"

subsection \<open>The dates of a trip in the database\<close>

record project_dates =
  pd_id :: int
  pd_user_info_id :: int
  trip_start :: "string option"
  trip_end :: "string option"

record dated_row =
  dr_project_id :: int
  dr_date :: "string option"

record activity_dates =
  ad_id :: int
  start_date_local :: "string option"

record item_dates =
  id_project_id :: int
  id_item_type :: string
  id_activity_id :: "int option"
  segment_json :: stored_json

record trip_db =
  projects :: "project_dates list"
  memories :: "dated_row list"
  journals :: "dated_row list"
  activities :: "activity_dates list"
  items :: "item_dates list"

text \<open>SQL \<open>MIN\<close> and \<open>MAX\<close> over a text column: NULLs are skipped, no row gives NULL.\<close>

definition sql_min :: "string option list \<Rightarrow> string option" where
  "sql_min vs = (let xs = List.map_filter id vs in if xs = [] then None else Some (fold min (tl xs) (hd xs)))"

definition sql_max :: "string option list \<Rightarrow> string option" where
  "sql_max vs = (let xs = List.map_filter id vs in if xs = [] then None else Some (fold max (tl xs) (hd xs)))"

definition dates_of_model :: "dated_row list \<Rightarrow> int \<Rightarrow> json list" where
  "dates_of_model rows pid =
     (let ds = map dr_date (filter (\<lambda>r. dr_project_id r = pid) rows)
      in [opt_str (sql_min ds), opt_str (sql_max ds)])"

text \<open>The join of activities with the trip's items.\<close>

definition joined_activity_dates :: "trip_db \<Rightarrow> int \<Rightarrow> string option list" where
  "joined_activity_dates db pid =
     concat (map (\<lambda>i. map start_date_local (filter (\<lambda>a. id_activity_id i = Some (ad_id a)) (activities db)))
       (filter (\<lambda>i. id_project_id i = pid) (items db)))"

datatype trip_error = AttributeError

text \<open>
  \<open>(json.loads(raw or "{}") or {}).get("date")\<close>; a text that does not parse is skipped, a truthy
  value that is not a dict raises the \<open>AttributeError\<close> the handler does not catch.
\<close>

definition segment_date :: "stored_json \<Rightarrow> (trip_error, json list) result" where
  "segment_date raw =
     (case raw of
        NoText \<Rightarrow> Inr [JNull]
      | BadText \<Rightarrow> Inr []
      | Text v \<Rightarrow> (case as_dict v of None \<Rightarrow> Inl AttributeError | Some d \<Rightarrow> Inr [dget d ''date'']))"

fun segment_dates :: "stored_json list \<Rightarrow> (trip_error, json list) result" where
  "segment_dates [] = Inr []"
| "segment_dates (r # rs) =
     rbind (segment_date r) (\<lambda>d. rbind (segment_dates rs) (\<lambda>ds. Inr (d @ ds)))"

definition project_candidates :: "trip_db \<Rightarrow> int \<Rightarrow> (trip_error, json list) result" where
  "project_candidates db pid =
     (let declared = (case find (\<lambda>p. pd_id p = pid) (projects db) of
                        None \<Rightarrow> []
                      | Some p \<Rightarrow> [opt_str (trip_start p), opt_str (trip_end p)]);
          acts = joined_activity_dates db pid
      in rbind (segment_dates (map segment_json
           (filter (\<lambda>i. id_project_id i = pid \<and> id_item_type i = ''segment'') (items db))))
         (\<lambda>segs. Inr (declared @ dates_of_model (memories db) pid @ dates_of_model (journals db) pid
            @ [opt_str (sql_min acts), opt_str (sql_max acts)] @ segs)))"

definition project_day_bounds ::
  "trip_db \<Rightarrow> int \<Rightarrow> (trip_error, string option \<times> string option) result" where
  "project_day_bounds db pid = rbind (project_candidates db pid) (\<lambda>c. Inr (bounds c))"

subsection \<open>Lemmas\<close>

lemma normalise_SomeD:
  "normalise v = Some s \<Longrightarrow> s = take 10 (py_str v) \<and> (\<exists>t. fromisoformat s = Some t) \<and> s \<noteq> []"
  by (auto simp: normalise_def Let_def fromisoformat_def split: if_splits option.splits)

lemma normalise_str:
  "fromisoformat s = Some t \<Longrightarrow> length s \<le> 10 \<Longrightarrow> normalise (JStr s) = Some s"
  by (auto simp: normalise_def fromisoformat_def)

lemma fromisoformat_length: "fromisoformat s = Some t \<Longrightarrow> length s \<le> 10"
  by (auto simp: fromisoformat_def split: if_splits)

lemma normalise_idem: "normalise v = Some s \<Longrightarrow> normalise (JStr s) = Some s"
  using normalise_SomeD normalise_str fromisoformat_length by metis

text \<open>The day number of a value, when it is a date in the extended form \<open>YYYY-MM-DD\<close>.\<close>

definition day_of :: "json \<Rightarrow> int option" where
  "day_of v = (case normalise v of None \<Rightarrow> None | Some s \<Rightarrow> map_option ymd2ord (fromisoformat s))"

definition extended_only :: "json list \<Rightarrow> bool" where
  "extended_only vs = list_all (\<lambda>v. case normalise v of None \<Rightarrow> True | Some s \<Rightarrow> iso_extended s) vs"

lemma bounds_None: "bounds vs = (None, None) \<longleftrightarrow> List.map_filter normalise vs = []"
  by (auto simp: bounds_def Let_def)

lemma set_map_filter: "set (List.map_filter f xs) = {y. \<exists>x\<in>set xs. f x = Some y}"
  by (induction xs) (auto simp: List.map_filter_simps split: option.splits)

lemma span_days_parsed:
  assumes "fromisoformat s = Some t" "fromisoformat s' = Some t'"
  shows "span_days (Some s) (Some s') = max (ymd2ord t' - ymd2ord t + 1) 0"
  using assms normalise_str fromisoformat_length
  by (simp add: span_days_def opt_str_def)

lemma hd_sort_Min: "xs \<noteq> [] \<Longrightarrow> hd (sort xs) = Min (set xs)"
  for xs :: "'a::linorder list"
proof -
  assume ne: "xs \<noteq> []"
  then have m: "hd (sort xs) \<in> set xs" by (metis list.set_sel(1) set_sort sort_eq_Nil)
  have "\<forall>x\<in>set (sort xs). hd (sort xs) \<le> x"
    using sorted_sort [of xs] by (cases "sort xs") auto
  then show ?thesis using m by (intro Min_eqI [symmetric]) auto
qed

lemma last_sort_Max: "xs \<noteq> [] \<Longrightarrow> last (sort xs) = Max (set xs)"
  for xs :: "'a::linorder list"
proof -
  assume ne: "xs \<noteq> []"
  then have ne': "sort xs \<noteq> []" by simp
  have s: "sort xs = butlast (sort xs) @ [last (sort xs)]" using ne' by simp
  have "\<forall>x\<in>set (sort xs). x \<le> last (sort xs)"
    using sorted_sort [of xs] by (subst (asm) s) (subst s, auto simp: sorted_append)
  moreover have "last (sort xs) \<in> set xs" using ne' by (metis last_in_set set_sort)
  ultimately show ?thesis by (intro Max_eqI [symmetric]) auto
qed

text \<open>Chronological extremes are the lexicographic ones on extended dates.\<close>

lemma extremes_of_strings:
  assumes "finite A" "A \<noteq> {}" and "\<And>s. s \<in> A \<Longrightarrow> iso_extended s \<and> fromisoformat s = Some (g s)"
  shows "ymd2ord (g (Min A)) = Min ((\<lambda>s. ymd2ord (g s)) ` A)"
    and "ymd2ord (g (Max A)) = Max ((\<lambda>s. ymd2ord (g s)) ` A)"
proof -
  have mono: "s \<le> s' \<Longrightarrow> ymd2ord (g s) \<le> ymd2ord (g s')" if "s \<in> A" "s' \<in> A" for s s'
    using assms(3) [OF that(1)] assms(3) [OF that(2)] extended_le_iff by blast
  show "ymd2ord (g (Min A)) = Min ((\<lambda>s. ymd2ord (g s)) ` A)"
    using assms(1,2) mono [OF Min_in [OF assms(1,2)] _ Min_le [OF assms(1)]]
    by (intro Min_eqI [symmetric]) auto
  show "ymd2ord (g (Max A)) = Max ((\<lambda>s. ymd2ord (g s)) ` A)"
    using assms(1,2) mono [OF _ Max_in [OF assms(1,2)] Max_ge [OF assms(1)]]
    by (intro Max_eqI [symmetric]) auto
qed

definition trip_day_set :: "json list \<Rightarrow> int set" where
  "trip_day_set vs = {n. \<exists>v\<in>set vs. day_of v = Some n}"

lemma finite_trip_day_set [simp]: "finite (trip_day_set vs)"
proof -
  have "trip_day_set vs \<subseteq> (\<lambda>v. the (day_of v)) ` set vs" by (force simp: trip_day_set_def)
  then show ?thesis by (rule finite_subset) simp
qed

lemma trip_day_set_image:
  "trip_day_set vs = (\<lambda>s. ymd2ord (the (fromisoformat s))) ` set (List.map_filter normalise vs)"
proof -
  have "day_of v = Some n \<longleftrightarrow> (\<exists>s. normalise v = Some s \<and> n = ymd2ord (the (fromisoformat s)))" for v n
    using normalise_SomeD [of v] by (fastforce simp: day_of_def split: option.splits)
  then show ?thesis by (auto simp: trip_day_set_def set_map_filter)
qed

lemma span_of_trip_days:
  assumes "extended_only vs"
  shows "span_of vs = (let D = trip_day_set vs in if D = {} then 0 else Max D - Min D + 1)"
proof (cases "List.map_filter normalise vs = []")
  case True
  then show ?thesis
    by (simp add: span_of_def bounds_def trip_day_set_image span_days_def opt_str_def normalise_def)
next
  case False
  define A where "A = set (List.map_filter normalise vs)"
  define g where "g = (\<lambda>s. the (fromisoformat s))"
  have A: "finite A" "A \<noteq> {}" using False by (simp_all add: A_def)
  have ext: "iso_extended s \<and> fromisoformat s = Some (g s)" if sA: "s \<in> A" for s
  proof -
    obtain v where v: "v \<in> set vs" "normalise v = Some s" using sA unfolding A_def set_map_filter by blast
    then show ?thesis
      using assms normalise_SomeD [of v s] by (auto simp: extended_only_def list_all_iff g_def)
  qed
  have D: "trip_day_set vs = (\<lambda>s. ymd2ord (g s)) ` A" by (simp add: trip_day_set_image A_def g_def)
  have "bounds vs = (Some (Min A), Some (Max A))"
    using False by (simp add: bounds_def Let_def hd_sort_Min last_sort_Max A_def)
  moreover have "Min A \<in> A" "Max A \<in> A" using A by simp_all
  ultimately have "span_of vs = max (ymd2ord (g (Max A)) - ymd2ord (g (Min A)) + 1) 0"
    using ext span_days_parsed by (simp add: span_of_def)
  also have "\<dots> = max (Max (trip_day_set vs) - Min (trip_day_set vs) + 1) 0"
    using extremes_of_strings [OF A ext] by (simp add: D)
  also have "\<dots> = Max (trip_day_set vs) - Min (trip_day_set vs) + 1"
    using A D Min_le_iff [of "trip_day_set vs" "Max (trip_day_set vs)"] by simp
  finally show ?thesis using A D by (simp add: Let_def)
qed

subsection \<open>Properties\<close>

text \<open>The length of a trip is its inclusive calendar span: over values whose parseable dates are
  in the form \<open>YYYY-MM-DD\<close>, it is the latest day minus the earliest plus one, empty days included,
  and 0 when no value is a date.\<close>

theorem span_of_is_calendar_span:
  assumes "extended_only vs"
  shows "span_of vs = (if trip_day_set vs = {} then 0 else Max (trip_day_set vs) - Min (trip_day_set vs) + 1)"
  using span_of_trip_days [OF assms] by (simp add: Let_def)

theorem span_of_is_calendar_span_witness:
  "span_of [JStr ''2024-02-27T09:30:00'', JNull, JStr ''2024-03-01''] = 4 \<and>
   Max (trip_day_set [JStr ''2024-02-27T09:30:00'', JNull, JStr ''2024-03-01'']) -
   Min (trip_day_set [JStr ''2024-02-27T09:30:00'', JNull, JStr ''2024-03-01'']) = 3"
proof -
  let ?v = "[JStr ''2024-02-27T09:30:00'', JNull, JStr ''2024-03-01'']"
  have e: "extended_only ?v" by code_simp
  have s: "span_of ?v = 4" by code_simp
  have ne: "trip_day_set ?v \<noteq> {}" using span_of_is_calendar_span [OF e] s by auto
  have "span_of ?v = Max (trip_day_set ?v) - Min (trip_day_set ?v) + 1"
    using span_of_is_calendar_span [OF e] ne by (simp only: if_False)
  then show ?thesis using s by linarith
qed

text \<open>Dating one more thing never shortens a trip, and a date that falls inside the trip's span
  leaves its length unchanged.\<close>

theorem span_of_monotone:
  assumes "extended_only (vs @ [v])"
  shows "span_of vs \<le> span_of (vs @ [v]) \<and>
    (\<forall>n. day_of v = Some n \<longrightarrow> (\<exists>a\<in>trip_day_set vs. a \<le> n) \<longrightarrow> (\<exists>b\<in>trip_day_set vs. n \<le> b) \<longrightarrow>
       span_of (vs @ [v]) = span_of vs)"
proof -
  have e: "extended_only vs" using assms by (simp add: extended_only_def)
  have D: "trip_day_set (vs @ [v]) = (case day_of v of None \<Rightarrow> trip_day_set vs | Some n \<Rightarrow> insert n (trip_day_set vs))"
    by (auto simp: trip_day_set_def split: option.splits)
  show ?thesis
  proof (cases "day_of v")
    case None
    then show ?thesis using D span_of_trip_days [OF assms] span_of_trip_days [OF e] by simp
  next
    case (Some n)
    show ?thesis
    proof (cases "trip_day_set vs = {}")
      case True
      then show ?thesis using Some D span_of_trip_days [OF assms] span_of_trip_days [OF e] by (simp add: Let_def)
    next
      case False
      have s: "span_of vs = Max (trip_day_set vs) - Min (trip_day_set vs) + 1"
        using span_of_trip_days [OF e] False by (simp add: Let_def)
      have s': "span_of (vs @ [v]) = max n (Max (trip_day_set vs)) - min n (Min (trip_day_set vs)) + 1"
        using span_of_trip_days [OF assms] False D Some by (simp add: Let_def)
      have "Min (trip_day_set vs) \<le> n" if "a \<in> trip_day_set vs" "a \<le> n" for a
        using that Min_le [OF finite_trip_day_set] order_trans by blast
      moreover have "n \<le> Max (trip_day_set vs)" if "b \<in> trip_day_set vs" "n \<le> b" for b
        using that Max_ge [OF finite_trip_day_set] order_trans by blast
      ultimately show ?thesis using s s' Some by auto
    qed
  qed
qed

theorem span_of_monotone_witness:
  "span_of [JStr ''2024-01-01'', JStr ''2024-01-10''] = 10 \<and>
   span_of ([JStr ''2024-01-01'', JStr ''2024-01-10''] @ [JStr ''2024-01-05'']) = 10 \<and>
   span_of [JStr ''2024-01-01'', JStr ''2024-01-10''] \<le>
   span_of ([JStr ''2024-01-01'', JStr ''2024-01-10''] @ [JStr ''2024-01-05''])"
proof -
  have e: "extended_only ([JStr ''2024-01-01'', JStr ''2024-01-10''] @ [JStr ''2024-01-05''])" by code_simp
  have s: "span_of [JStr ''2024-01-01'', JStr ''2024-01-10''] = 10" by code_simp
  have s': "span_of ([JStr ''2024-01-01'', JStr ''2024-01-10''] @ [JStr ''2024-01-05'']) = 10" by code_simp
  show ?thesis using span_of_monotone [OF e] s s' by blast
qed

text \<open>A date in the basic form \<open>YYYYMMDD\<close> is accepted and kept as it is, although \<open>normalise\<close>
  promises \<open>YYYY-MM-DD\<close>; mixed with extended dates it sorts after every date of its year, so the
  two days 2 and 3 January come out as a trip of 0 days.\<close>

theorem basic_dates_break_the_span:
  "normalise (JStr ''20240102'') = Some ''20240102'' \<and>
   bounds [JStr ''20240102'', JStr ''2024-01-03''] = (Some ''2024-01-03'', Some ''20240102'') \<and>
   span_of [JStr ''20240102'', JStr ''2024-01-03''] = 0"
  by (intro conjI) code_simp+

end
