(* ===== verification/Entitlements.thy ===== *)
theory Entitlements
  imports Plans TripDays BillingModels
begin

text \<open>
  What a user may do: \<open>src/billing/entitlements.py\<close>. The deployment's switches, the plan in force,
  the counters the quota checks read, and the \<open>ensure_*\<close> guards. The database is the record of
  the tables the queries read; a guard returns \<open>Inr ()\<close> or the error it raises.
\<close>

record video_job =
  vj_user_info_id :: int
  vj_kind :: string
  vj_status :: string
  vj_created_at :: seconds
  vj_started_at :: "seconds option"
  vj_completed_at :: "seconds option"

record ent_db =
  ent_subs :: "Subscription list"
  ent_usage :: "UserUsage list"
  ent_videos :: "video_job list"
  ent_trip :: trip_db

record QuotaExceeded =
  qe_message :: string
  qe_plan :: string
  qe_limit :: "int option"
  qe_used :: int
  qe_needed :: int
  qe_resource :: string

datatype ent_error = Quota QuotaExceeded | TripRead trip_error | IndexError

subsection \<open>Switches\<close>

definition ON_FLAGS :: "string list" where "ON_FLAGS = [''1'', ''true'', ''yes'', ''on'']"
definition OFF_FLAGS :: "string list" where "OFF_FLAGS = [''0'', ''false'', ''no'', ''off'']"

definition billing_enabled :: "environ \<Rightarrow> bool" where
  "billing_enabled env =
     (let flag = py_lower (py_strip (env_get env ''BILLING_ENABLED'')) in
      if flag \<in> set ON_FLAGS then True
      else if flag \<in> set OFF_FLAGS then False
      else py_strip (env_get env ''STRIPE_SECRET_KEY'') \<noteq> '''')"

definition quotas_enforced :: "environ \<Rightarrow> bool" where
  "quotas_enforced env =
     (if \<not> billing_enabled env then False
      else py_lower (py_strip (env_get env ''BILLING_ENFORCE_QUOTAS'')) \<in> set ON_FLAGS)"

subsection \<open>The plan in force\<close>

definition LIVE_STATUSES :: "string set" where
  "LIVE_STATUSES = {''active'', ''trialing'', ''past_due''}"

definition plan_from_subscription :: "string \<Rightarrow> string \<Rightarrow> seconds \<Rightarrow> seconds \<Rightarrow> string" where
  "plan_from_subscription plan status current_period_end now =
     (if plan = '''' \<or> plan = FREE then FREE
      else if status \<in> LIVE_STATUSES then plan
      else if current_period_end \<noteq> 0 \<and> now < current_period_end then plan
      else FREE)"

definition subscription_is_live :: "string \<Rightarrow> bool" where
  "subscription_is_live status = (status \<in> LIVE_STATUSES)"

definition plan_for :: "environ \<Rightarrow> ent_db \<Rightarrow> int \<Rightarrow> seconds \<Rightarrow> string" where
  "plan_for env db uid now =
     (if \<not> billing_enabled env then TOP_PLAN
      else case get_sub uid (ent_subs db) of
             None \<Rightarrow> FREE
           | Some row \<Rightarrow>
               if sub_admin_override_plan row \<noteq> '''' then sub_admin_override_plan row
               else plan_from_subscription (sub_plan row) (sub_status row) (sub_current_period_end row) now)"

definition limits_for_user :: "environ \<Rightarrow> ent_db \<Rightarrow> int \<Rightarrow> seconds \<Rightarrow> Limits" where
  "limits_for_user env db uid now =
     (if \<not> billing_enabled env then UNLIMITED else limits_for env (plan_for env db uid now))"

subsection \<open>Counters\<close>

definition project_count :: "ent_db \<Rightarrow> int \<Rightarrow> int" where
  "project_count db uid = int (length (filter (\<lambda>p. pd_user_info_id p = uid) (projects (ent_trip db))))"

definition storage_used :: "ent_db \<Rightarrow> int \<Rightarrow> int" where
  "storage_used db uid =
     (case get_usage uid (ent_usage db) of None \<Rightarrow> 0 | Some row \<Rightarrow> us_storage_bytes row)"

text \<open>Epoch seconds of the first instant of the UTC month of \<open>now\<close> and of the next one.\<close>

definition utc_month_bounds :: "seconds \<Rightarrow> seconds \<times> seconds" where
  "utc_month_bounds now =
     (case utc_date now of (y, m, d) \<Rightarrow>
        (midnight (ymd2ord (y, m, 1)),
         if m = 12 then midnight (ymd2ord (y + 1, 1, 1)) else midnight (ymd2ord (y, m + 1, 1))))"

definition videos_this_month :: "ent_db \<Rightarrow> int \<Rightarrow> seconds \<Rightarrow> int" where
  "videos_this_month db uid now =
     (case utc_month_bounds now of (start, finish) \<Rightarrow>
        int (length (filter (\<lambda>j. vj_user_info_id j = uid \<and> vj_kind j = ''video'' \<and>
               vj_status j \<noteq> ''failed'' \<and> vj_created_at j \<ge> start \<and> vj_created_at j < finish)
             (ent_videos db))))"

definition PREVIEW_WINDOW_S :: seconds where "PREVIEW_WINDOW_S = 3600"
definition PREVIEW_IN_FLIGHT_S :: seconds where "PREVIEW_IN_FLIGHT_S = 900"

definition counting_preview :: "int \<Rightarrow> seconds \<Rightarrow> video_job \<Rightarrow> bool" where
  "counting_preview uid now j =
     (vj_user_info_id j = uid \<and> vj_kind j = ''preview'' \<and>
      vj_created_at j > now - PREVIEW_WINDOW_S \<and>
      (vj_status j = ''done'' \<or>
       vj_status j = ''failed'' \<and> vj_started_at j \<noteq> None \<and>
         (case vj_completed_at j of None \<Rightarrow> False
          | Some c \<Rightarrow> c \<le> vj_created_at j + PREVIEW_IN_FLIGHT_S) \<or>
       vj_status j \<in> {''pending'', ''running''} \<and> vj_created_at j > now - PREVIEW_IN_FLIGHT_S))"

definition previews_in_last_hour :: "ent_db \<Rightarrow> int \<Rightarrow> seconds \<Rightarrow> int" where
  "previews_in_last_hour db uid now = int (length (filter (counting_preview uid now) (ent_videos db)))"

text \<open>Python's \<open>leaves[excess]\<close> with a non-negative index.\<close>

definition preview_slot_frees_at ::
  "ent_db \<Rightarrow> int \<Rightarrow> seconds \<Rightarrow> int \<Rightarrow> (ent_error, seconds option) result" where
  "preview_slot_frees_at db uid now limit =
     (let created = map vj_created_at (filter (counting_preview uid now) (ent_videos db));
          excess = int (length created) - limit
      in if excess < 0 then Inr None
         else let leaves = sort (map (\<lambda>c. c + PREVIEW_WINDOW_S) created)
              in if excess < int (length leaves) then Inr (Some (leaves ! nat excess))
                 else Inl IndexError)"

subsection \<open>Guards\<close>

definition opt_text :: "int option \<Rightarrow> string" where
  "opt_text l = (case l of None \<Rightarrow> ''None'' | Some n \<Rightarrow> show_int n)"

definition limit_plural :: "int option \<Rightarrow> string" where
  "limit_plural l = (if l \<noteq> Some 1 then ''s'' else '''')"

definition ensure_project_quota ::
  "environ \<Rightarrow> ent_db \<Rightarrow> int \<Rightarrow> seconds \<Rightarrow> (ent_error, unit) result" where
  "ensure_project_quota env db uid now =
     (if \<not> quotas_enforced env then Inr ()
      else let plan = plan_for env db uid now;
               limit = max_projects (limits_for env plan);
               used = project_count db uid
           in if over_quota used 1 limit
              then Inl (Quota \<lparr>qe_message = ''Your plan includes '' @ opt_text limit @ '' trip''
                     @ limit_plural limit @ ''. Upgrade to create more.'',
                   qe_plan = plan, qe_limit = limit, qe_used = used, qe_needed = used + 1,
                   qe_resource = ''projects''\<rparr>)
              else Inr ())"

definition ensure_storage_quota ::
  "environ \<Rightarrow> ent_db \<Rightarrow> int \<Rightarrow> int \<Rightarrow> seconds \<Rightarrow> (ent_error, unit) result" where
  "ensure_storage_quota env db uid incoming_bytes now =
     (if \<not> quotas_enforced env then Inr ()
      else let plan = plan_for env db uid now;
               limit = max_storage_bytes (limits_for env plan);
               used = storage_used db uid
           in if over_quota used incoming_bytes limit
              then Inl (Quota \<lparr>qe_message = ''This upload would exceed your plan's storage. ''
                     @ ''Upgrade for more space, or delete some photos.'',
                   qe_plan = plan, qe_limit = limit, qe_used = used,
                   qe_needed = used + incoming_bytes, qe_resource = ''storage''\<rparr>)
              else Inr ())"

definition ensure_video_quota ::
  "environ \<Rightarrow> ent_db \<Rightarrow> int \<Rightarrow> seconds \<Rightarrow> (ent_error, unit) result" where
  "ensure_video_quota env db uid now =
     (if \<not> quotas_enforced env then Inr ()
      else let plan = plan_for env db uid now;
               limit = max_videos_per_month (limits_for env plan);
               used = videos_this_month db uid now
           in if over_quota used 1 limit
              then Inl (Quota \<lparr>qe_message = ''Your plan includes '' @ opt_text limit @ '' video''
                     @ limit_plural limit @ '' per month. Upgrade to make more.'',
                   qe_plan = plan, qe_limit = limit, qe_used = used, qe_needed = used + 1,
                   qe_resource = ''videos''\<rparr>)
              else Inr ())"

definition trip_days_used :: "ent_db \<Rightarrow> int \<Rightarrow> json list \<Rightarrow> (ent_error, int) result" where
  "trip_days_used db project_id extra_dates =
     (case project_day_bounds (ent_trip db) project_id of
        Inl e \<Rightarrow> Inl (TripRead e)
      | Inr (first_day, last_day) \<Rightarrow>
          (case bounds ([opt_str first_day, opt_str last_day] @ extra_dates) of
             (f, l) \<Rightarrow> Inr (span_days f l)))"

definition ensure_trip_span_quota ::
  "environ \<Rightarrow> ent_db \<Rightarrow> int \<Rightarrow> int \<Rightarrow> int \<Rightarrow> seconds \<Rightarrow> (ent_error, unit) result" where
  "ensure_trip_span_quota env db owner_id used prospective now =
     (if \<not> quotas_enforced env then Inr ()
      else let plan = plan_for env db owner_id now
           in case max_trip_days (limits_for env plan) of
                None \<Rightarrow> Inr ()
              | Some limit \<Rightarrow>
                  if prospective > limit \<and> prospective > used
                  then Inl (Quota \<lparr>qe_message = ''That would make this trip '' @ show_int prospective
                         @ '' days long, and your plan covers '' @ show_int limit
                         @ ''. Upgrade for longer trips.'',
                       qe_plan = plan, qe_limit = Some limit, qe_used = used,
                       qe_needed = prospective, qe_resource = ''trip_days''\<rparr>)
                  else Inr ())"

definition ensure_trip_days_quota ::
  "environ \<Rightarrow> ent_db \<Rightarrow> int \<Rightarrow> int \<Rightarrow> json list \<Rightarrow> seconds \<Rightarrow> (ent_error, unit) result" where
  "ensure_trip_days_quota env db project_id owner_id extra_dates now =
     (if \<not> quotas_enforced env then Inr ()
      else rbind (trip_days_used db project_id []) (\<lambda>used.
           rbind (trip_days_used db project_id extra_dates) (\<lambda>prospective.
             ensure_trip_span_quota env db owner_id used prospective now)))"

definition plan_display_name :: "environ \<Rightarrow> string \<Rightarrow> string" where
  "plan_display_name env plan = plan_name env (if known_plan plan then plan else FREE)"

subsection \<open>The contract of a counting guard\<close>

text \<open>
  Three guards (trips, storage, videos) share one contract: nothing is refused while quotas are
  not enforced; otherwise the action is refused exactly when it would pass the limit of the plan in
  force, and the error carries that plan, the limit, what is used and what would be needed.
\<close>

locale quota_guard =
  fixes guard :: "environ \<Rightarrow> ent_db \<Rightarrow> int \<Rightarrow> seconds \<Rightarrow> (ent_error, unit) result"
    and limit_of :: "Limits \<Rightarrow> int option"
    and used :: "ent_db \<Rightarrow> int \<Rightarrow> seconds \<Rightarrow> int"
    and incoming :: int
    and resource :: string
  assumes off: "\<not> quotas_enforced env \<Longrightarrow> guard env db uid now = Inr ()"
    and pass: "\<not> over_quota (used db uid now) incoming (limit_of (limits_for env (plan_for env db uid now))) \<Longrightarrow>
      guard env db uid now = Inr ()"
    and refuse: "quotas_enforced env \<Longrightarrow>
      over_quota (used db uid now) incoming (limit_of (limits_for env (plan_for env db uid now))) \<Longrightarrow>
      \<exists>msg. guard env db uid now = Inl (Quota \<lparr>qe_message = msg, qe_plan = plan_for env db uid now,
        qe_limit = limit_of (limits_for env (plan_for env db uid now)), qe_used = used db uid now,
        qe_needed = used db uid now + incoming, qe_resource = resource\<rparr>)"
begin

lemma guard_ok_iff: "guard env db uid now = Inr () \<longleftrightarrow>
    \<not> quotas_enforced env \<or>
    \<not> over_quota (used db uid now) incoming (limit_of (limits_for env (plan_for env db uid now)))"
  using off pass refuse [of env db uid now] by fastforce

lemma refusal_numbers:
  assumes "guard env db uid now = Inl (Quota q)"
  shows "qe_plan q = plan_for env db uid now" "qe_used q = used db uid now"
    "qe_needed q = used db uid now + incoming" "qe_resource q = resource"
    "qe_limit q = limit_of (limits_for env (plan_for env db uid now))"
    "\<exists>l. qe_limit q = Some l \<and> l < qe_needed q"
proof -
  have oq: "quotas_enforced env"
      "over_quota (used db uid now) incoming (limit_of (limits_for env (plan_for env db uid now)))"
    using assms guard_ok_iff [of env db uid now] by auto
  then obtain msg where q: "q = \<lparr>qe_message = msg, qe_plan = plan_for env db uid now,
      qe_limit = limit_of (limits_for env (plan_for env db uid now)), qe_used = used db uid now,
      qe_needed = used db uid now + incoming, qe_resource = resource\<rparr>"
    using refuse [OF oq] assms by auto
  show "qe_plan q = plan_for env db uid now" "qe_used q = used db uid now"
    "qe_needed q = used db uid now + incoming" "qe_resource q = resource"
    "qe_limit q = limit_of (limits_for env (plan_for env db uid now))"
    by (simp_all add: q)
  show "\<exists>l. qe_limit q = Some l \<and> l < qe_needed q"
    using oq(2) by (auto simp: q over_quota_def split: option.splits)
qed

end

interpretation trips: quota_guard ensure_project_quota max_projects "\<lambda>db uid _. project_count db uid" 1 "''projects''"
  by unfold_locales (auto simp: ensure_project_quota_def Let_def)

interpretation videos: quota_guard ensure_video_quota max_videos_per_month videos_this_month 1 "''videos''"
  by unfold_locales (auto simp: ensure_video_quota_def Let_def)

interpretation storage: quota_guard "\<lambda>env db uid. ensure_storage_quota env db uid b" max_storage_bytes
    "\<lambda>db uid _. storage_used db uid" b "''storage''" for b
  by unfold_locales (auto simp: ensure_storage_quota_def Let_def)

subsection \<open>Lemmas\<close>

lemma not_enforced_unbilled: "\<not> billing_enabled env \<Longrightarrow> \<not> quotas_enforced env"
  by (simp add: quotas_enforced_def)

lemma utc_ord_midnight [simp]: "utc_ord (midnight n) = n"
proof -
  have "midnight n * 1000000 = of_int ((n - EPOCH_ORD) * US_PER_DAY)"
    by (simp add: midnight_def US_PER_DAY_def)
  then have "micros (midnight n) = (n - EPOCH_ORD) * US_PER_DAY"
    unfolding micros_def by (simp only: round_half_even_of_int)
  then show ?thesis by (simp add: utc_ord_def US_PER_DAY_def)
qed

text \<open>The ordinal of the first day of the month after that of a date.\<close>

definition next_month_ord :: "int \<Rightarrow> int \<Rightarrow> int" where
  "next_month_ord y m = (if m = 12 then ymd2ord (y + 1, 1, 1) else ymd2ord (y, m + 1, 1))"

lemma days_in_month_pos: "1 \<le> days_in_month y m"
  by (simp add: days_in_month_def)

lemma month_around:
  assumes "valid_ymd (y, m, d)"
  shows "ymd2ord (y, m, 1) \<le> ymd2ord (y, m, d)" "ymd2ord (y, m, d) < next_month_ord y m"
    "valid_ymd (if m = 12 then (y + 1, 1, 1) else (y, m + 1, 1))"
proof -
  show "ymd2ord (y, m, 1) \<le> ymd2ord (y, m, d)" using assms by simp
  show v: "valid_ymd (if m = 12 then (y + 1, 1, 1) else (y, m + 1, 1))"
    using assms days_in_month_pos by simp
  show "ymd2ord (y, m, d) < next_month_ord y m"
    using assms v ymd2ord_lex [of y m d "y + 1" 1 1] ymd2ord_lex [of y m d y "m + 1" 1]
    unfolding next_month_ord_def by (cases "m = 12") simp_all
qed

lemma utc_month_bounds_eq:
  assumes "utc_date now = (y, m, d)"
  shows "utc_month_bounds now = (midnight (ymd2ord (y, m, 1)), midnight (next_month_ord y m))"
  by (simp add: utc_month_bounds_def assms next_month_ord_def)

lemma utc_date_valid: "utc_date now = t \<Longrightarrow> valid_ymd t \<and> ymd2ord t = utc_ord now"
  using valid_ord2ymd [of "utc_ord now"] ymd2ord_ord2ymd [of "utc_ord now"] by (auto simp: utc_date_def)

lemma sorted_above_nth:
  fixes L :: "'a::linorder list"
  assumes "sorted L" "e < length L"
  shows "length (filter (\<lambda>x. L ! e < x) L) \<le> length L - Suc e"
proof -
  have "x \<le> L ! e" if "x \<in> set (take (Suc e) L)" for x
    using that assms by (auto simp: in_set_conv_nth intro!: sorted_nth_mono)
  then have "filter (\<lambda>x. L ! e < x) (take (Suc e) L) = []"
    by (force simp: filter_empty_conv not_less)
  then have "filter (\<lambda>x. L ! e < x) L = filter (\<lambda>x. L ! e < x) (drop (Suc e) L)"
    by (metis append_Nil append_take_drop_id filter_append)
  then show ?thesis by (metis length_drop length_filter_le)
qed

lemma sorted_below_nth:
  fixes L :: "'a::linorder list"
  assumes "sorted L" "e < length L" "t < L ! e"
  shows "length L - e \<le> length (filter (\<lambda>x. t < x) L)"
proof -
  have "t < x" if x: "x \<in> set (drop e L)" for x
  proof -
    obtain i where "x = L ! (e + i)" "e + i < length L" using x assms(2) by (auto simp: in_set_conv_nth)
    then show ?thesis using assms sorted_nth_mono [of L e "e + i"] by force
  qed
  then have "filter (\<lambda>x. t < x) (drop e L) = drop e L" by (simp add: filter_id_conv)
  then have "length L - e = length (filter (\<lambda>x. t < x) (drop e L))" by simp
  also have "\<dots> \<le> length (filter (\<lambda>x. t < x) (take e L)) + length (filter (\<lambda>x. t < x) (drop e L))" by simp
  also have "\<dots> = length (filter (\<lambda>x. t < x) L)"
    by (metis append_take_drop_id filter_append length_append)
  finally show ?thesis .
qed

lemma length_filter_sort: "length (filter P (sort xs)) = length (filter P xs)"
  by (metis mset_filter mset_sort size_mset)

text \<open>
  How many of the previews that count now still count at a later instant \<open>t\<close>, when each of them
  completes: a completed preview counts until it is an hour old.
\<close>

definition still_counting :: "ent_db \<Rightarrow> int \<Rightarrow> seconds \<Rightarrow> seconds \<Rightarrow> int" where
  "still_counting db uid now t =
     int (length (filter (\<lambda>j. vj_created_at j > t - PREVIEW_WINDOW_S)
       (filter (counting_preview uid now) (ent_videos db))))"

lemma still_counting_sorted:
  "still_counting db uid now t =
     int (length (filter (\<lambda>x. t < x) (sort (map (\<lambda>c. c + PREVIEW_WINDOW_S)
       (map vj_created_at (filter (counting_preview uid now) (ent_videos db)))))))"
proof -
  have c: "(\<lambda>j. t - PREVIEW_WINDOW_S < vj_created_at j) = (\<lambda>j. t < vj_created_at j + PREVIEW_WINDOW_S)"
    by (auto simp: algebra_simps)
  show ?thesis
    unfolding length_filter_sort still_counting_def c by (simp add: filter_map comp_def)
qed

subsection \<open>Properties\<close>

text \<open>A deployment that does not sell plans is unlimited: every user is on the top plan with
  unlimited trips, storage, trip length and videos, and no guard ever refuses.\<close>

theorem self_hosted_unlimited:
  assumes "\<not> billing_enabled env"
  shows "plan_for env db uid now = TIER_3 \<and>
    limits_for_user env db uid now = UNLIMITED \<and>
    ensure_project_quota env db uid now = Inr () \<and>
    ensure_storage_quota env db uid n now = Inr () \<and>
    ensure_video_quota env db uid now = Inr () \<and>
    ensure_trip_days_quota env db pid uid extra now = Inr () \<and>
    ensure_trip_span_quota env db uid used prospective now = Inr ()"
  using assms not_enforced_unbilled [OF assms]
  by (simp add: plan_for_def TOP_PLAN_eq limits_for_user_def ensure_project_quota_def
      ensure_storage_quota_def ensure_video_quota_def ensure_trip_days_quota_def ensure_trip_span_quota_def)

definition empty_db :: ent_db where
  "empty_db = \<lparr>ent_subs = [], ent_usage = [], ent_videos = [],
      ent_trip = \<lparr>projects = [], memories = [], journals = [], activities = [], items = []\<rparr>\<rparr>"

theorem self_hosted_unlimited_witness:
  "\<not> billing_enabled (\<lambda>_. None) \<and> plan_for (\<lambda>_. None) empty_db 7 0 = TIER_3"
proof -
  have off: "\<not> billing_enabled (\<lambda>_. None)" by code_simp
  show ?thesis using off self_hosted_unlimited [OF off] by blast
qed

text \<open>The trip-count guard refuses exactly when quotas are enforced and one more trip passes the
  limit of the plan in force; its error names that plan, the limit, what is used and the one more
  that is needed, and the need really exceeds the limit.\<close>

theorem project_quota_exact:
  "(ensure_project_quota env db uid now = Inr () \<longleftrightarrow>
     (quotas_enforced env \<longrightarrow>
        (case max_projects (limits_for env (plan_for env db uid now)) of
           None \<Rightarrow> True | Some l \<Rightarrow> project_count db uid + 1 \<le> l))) \<and>
   (\<forall>q. ensure_project_quota env db uid now = Inl (Quota q) \<longrightarrow>
     qe_plan q = plan_for env db uid now \<and> qe_used q = project_count db uid \<and>
     qe_needed q = project_count db uid + 1 \<and> (\<exists>l. qe_limit q = Some l \<and> l < qe_needed q))"
  using trips.guard_ok_iff [of env db uid now] trips.refusal_numbers [of env db uid now]
  by (auto simp: over_quota_def split: option.splits)

definition example_env :: environ where
  "example_env = [''BILLING_ENABLED'' \<mapsto> '' On '', ''BILLING_ENFORCE_QUOTAS'' \<mapsto> ''1'']"

definition example_db :: ent_db where
  "example_db = \<lparr>ent_subs = [], ent_usage = [], ent_videos = [],
     ent_trip = \<lparr>projects = [\<lparr>pd_id = 1, pd_user_info_id = 7, trip_start = Some ''2024-01-01'', trip_end = None\<rparr>],
       memories = [], journals = [], activities = [], items = []\<rparr>\<rparr>"

definition example_quota :: QuotaExceeded where
  "example_quota = \<lparr>qe_message = ''Your plan includes 1 trip. Upgrade to create more.'',
     qe_plan = ''free'', qe_limit = Some 1, qe_used = 1, qe_needed = 2, qe_resource = ''projects''\<rparr>"

theorem project_quota_exact_witness:
  "ensure_project_quota example_env example_db 7 0 = Inl (Quota example_quota) \<and>
   qe_used example_quota = project_count example_db 7"
proof -
  have q: "ensure_project_quota example_env example_db 7 0 = Inl (Quota example_quota)"
    by code_simp
  show ?thesis using q project_quota_exact [of example_env example_db 7 0] by blast
qed

text \<open>The plan stored from the provider is in force exactly while its status is live or, after
  that, until the end of the paid period; and once it has lapsed under an unchanged row it never
  comes back as time passes.\<close>

theorem plan_from_subscription_lapses:
  assumes "plan \<noteq> ''''" "plan \<noteq> FREE"
  shows "(plan_from_subscription plan status period_end now = plan \<longleftrightarrow>
      subscription_is_live status \<or> period_end \<noteq> 0 \<and> now < period_end) \<and>
    plan_from_subscription plan status period_end now \<in> {plan, FREE} \<and>
    (now \<le> later \<longrightarrow> plan_from_subscription plan status period_end now = FREE \<longrightarrow>
      plan_from_subscription plan status period_end later = FREE)"
  using assms by (auto simp: plan_from_subscription_def subscription_is_live_def)

theorem plan_from_subscription_lapses_witness:
  "plan_from_subscription TIER_2 ''canceled'' 1000 999 = TIER_2 \<and>
   plan_from_subscription TIER_2 ''canceled'' 1000 2000 = FREE"
proof -
  have ne: "TIER_2 \<noteq> ''''" "TIER_2 \<noteq> FREE" by (simp_all add: plan_ids)
  have dead: "\<not> subscription_is_live ''canceled''" by (simp add: subscription_is_live_def LIVE_STATUSES_def)
  have "plan_from_subscription TIER_2 ''canceled'' 1000 1000 = FREE"
    by (simp add: plan_from_subscription_def LIVE_STATUSES_def)
  then show ?thesis
    using dead plan_from_subscription_lapses [OF ne, of "''canceled''" 1000 999]
      plan_from_subscription_lapses [OF ne, of "''canceled''" 1000 1000 2000] by simp
qed

text \<open>The video quota's month: \<open>now\<close> lies in it (up to the half microsecond that
  \<open>fromtimestamp\<close> rounds away), it starts at midnight UTC on the first of a month, and it ends
  exactly where the next month's window starts, so consecutive months neither overlap nor leave a
  gap.\<close>

theorem utc_month_bounds_tile:
  "fst (utc_month_bounds now) \<le> now + 1 / 2000000 \<and> now < snd (utc_month_bounds now) \<and>
   (\<exists>y m. fst (utc_month_bounds now) = midnight (ymd2ord (y, m, 1)) \<and> utc_date (fst (utc_month_bounds now)) = (y, m, 1)) \<and>
   fst (utc_month_bounds (snd (utc_month_bounds now))) = snd (utc_month_bounds now)"
proof -
  obtain y m d where t: "utc_date now = (y, m, d)" by (cases "utc_date now")
  have v: "valid_ymd (y, m, d)" and o: "ymd2ord (y, m, d) = utc_ord now"
    using utc_date_valid [OF t] by auto
  note ar = month_around [OF v, unfolded o]
  note e = utc_month_bounds_eq [OF t]
  have v1: "valid_ymd (y, m, 1)" using v days_in_month_pos by simp
  have lo: "fst (utc_month_bounds now) \<le> now + 1 / 2000000"
    using utc_ord_bounds(1) [of now] ar(1) midnight_mono(1) unfolding e fst_conv by (meson order_trans)
  have hi: "now < snd (utc_month_bounds now)"
  proof -
    have "midnight (utc_ord now + 1) \<le> midnight (next_month_ord y m)"
      using ar(2) midnight_mono(1) by simp
    then show ?thesis using utc_ord_bounds(2) [of now] unfolding e by simp
  qed
  have start: "utc_date (fst (utc_month_bounds now)) = (y, m, 1)"
    using v1 unfolding e utc_date_def by (simp del: ymd2ord.simps valid_ymd.simps)
  have nx: "utc_date (midnight (next_month_ord y m)) = (if m = 12 then (y + 1, 1, 1) else (y, m + 1, 1))"
    using ar(3) unfolding utc_date_def next_month_ord_def
    by (simp del: ymd2ord.simps valid_ymd.simps split: if_splits)
  then have "fst (utc_month_bounds (midnight (next_month_ord y m))) = midnight (next_month_ord y m)"
    by (simp add: utc_month_bounds_def next_month_ord_def del: ymd2ord.simps)
  then show ?thesis using lo hi start unfolding e by auto
qed

text \<open>The Retry-After of the preview limit is exact. It is asked for only at the limit: the
  answer is None precisely when fewer than \<open>limit\<close> previews count now. Otherwise, for a
  positive limit, at the answered instant the previews that count now have dropped below the limit
  and at every earlier instant they had not.\<close>

theorem preview_slot_exact:
  assumes "0 < limit"
  shows "(previews_in_last_hour db uid now < limit \<longrightarrow> preview_slot_frees_at db uid now limit = Inr None) \<and>
    (limit \<le> previews_in_last_hour db uid now \<longrightarrow>
      (\<exists>t. preview_slot_frees_at db uid now limit = Inr (Some t) \<and>
         still_counting db uid now t < limit \<and>
         (\<forall>t' < t. limit \<le> still_counting db uid now t')))"
proof -
  let ?c = "map vj_created_at (filter (counting_preview uid now) (ent_videos db))"
  define L where "L = sort (map (\<lambda>c. c + PREVIEW_WINDOW_S) ?c)"
  define e where "e = nat (int (length ?c) - limit)"
  have len: "length L = length ?c" by (simp add: L_def)
  have n: "previews_in_last_hour db uid now = int (length ?c)" by (simp add: previews_in_last_hour_def)
  have cnt: "still_counting db uid now t = int (length (filter (\<lambda>x. t < x) L))" for t
    unfolding L_def by (rule still_counting_sorted)
  have under: "preview_slot_frees_at db uid now limit = Inr None" if "int (length ?c) < limit"
    using that by (simp add: preview_slot_frees_at_def Let_def)
  have over: "\<exists>t. preview_slot_frees_at db uid now limit = Inr (Some t) \<and>
      still_counting db uid now t < limit \<and> (\<forall>t' < t. limit \<le> still_counting db uid now t')"
    if ge: "limit \<le> int (length ?c)"
  proof -
    have el: "e < length L" "int (length L) - int e = limit" using ge assms len by (auto simp: e_def)
    have s: "sorted L" by (simp add: L_def)
    have "preview_slot_frees_at db uid now limit = Inr (Some (L ! e))"
      using ge assms unfolding preview_slot_frees_at_def Let_def e_def L_def by simp
    moreover have "still_counting db uid now (L ! e) < limit"
      using sorted_above_nth [OF s el(1)] el unfolding cnt by linarith
    moreover have "\<forall>t' < L ! e. limit \<le> still_counting db uid now t'"
      using sorted_below_nth [OF s el(1)] el unfolding cnt by fastforce
    ultimately show ?thesis by blast
  qed
  show ?thesis unfolding n using under over by blast
qed

definition preview_db :: ent_db where
  "preview_db = empty_db\<lparr>ent_videos :=
     [\<lparr>vj_user_info_id = 7, vj_kind = ''preview'', vj_status = ''done'', vj_created_at = 10000,
       vj_started_at = Some 10001, vj_completed_at = Some 10050\<rparr>,
      \<lparr>vj_user_info_id = 7, vj_kind = ''preview'', vj_status = ''running'', vj_created_at = 10400,
       vj_started_at = Some 10401, vj_completed_at = None\<rparr>]\<rparr>"

theorem preview_slot_exact_witness:
  "preview_slot_frees_at preview_db 7 10500 2 = Inr (Some 13600) \<and> still_counting preview_db 7 10500 13600 < 2"
proof -
  have f: "filter (counting_preview 7 10500) (ent_videos preview_db) = ent_videos preview_db"
    by (simp add: preview_db_def counting_preview_def PREVIEW_WINDOW_S_def PREVIEW_IN_FLIGHT_S_def)
  have at: "preview_slot_frees_at preview_db 7 10500 2 = Inr (Some 13600)"
    unfolding preview_slot_frees_at_def f
    by (simp add: preview_db_def PREVIEW_WINDOW_S_def)
  have "2 \<le> previews_in_last_hour preview_db 7 10500"
    unfolding previews_in_last_hour_def f by (simp add: preview_db_def)
  then show ?thesis
    using preview_slot_exact [of 2 preview_db 7 10500] at by auto
qed

text \<open>The trip-length guard: an action that does not make the trip longer is never refused,
  however long the trip already is; a refusal means quotas are enforced, the trip gets longer and
  its new length exceeds the limit of the owner's plan.\<close>

theorem trip_span_quota_exact:
  "(prospective \<le> used \<longrightarrow> ensure_trip_span_quota env db owner used prospective now = Inr ()) \<and>
   (ensure_trip_span_quota env db owner used prospective now \<noteq> Inr () \<longleftrightarrow>
      quotas_enforced env \<and> used < prospective \<and>
      (\<exists>l. max_trip_days (limits_for env (plan_for env db owner now)) = Some l \<and> l < prospective))"
  by (auto simp: ensure_trip_span_quota_def Let_def split: option.splits)

theorem trip_span_quota_exact_witness:
  "ensure_trip_span_quota example_env example_db 7 400 400 0 = Inr () \<and>
   ensure_trip_span_quota example_env example_db 7 10 11 0 \<noteq> Inr ()"
proof -
  have "quotas_enforced example_env \<and>
    max_trip_days (limits_for example_env (plan_for example_env example_db 7 0)) = Some 10" by code_simp
  then show ?thesis
    using trip_span_quota_exact [of 400 400 example_env example_db 7 0]
      trip_span_quota_exact [of 11 10 example_env example_db 7 0] by simp
qed

end
