(* ===== verification/Subscriptions.thy ===== *)
theory Subscriptions
  imports WebhookEvents BillingModels Entitlements
begin

text \<open>
  \<open>src/billing/subscriptions.py\<close>: how a translated provider event changes the stored subscription.
  The state is the part of the database these operations see: the ids of the existing accounts, the
  subscription rows and the refund ledger (used by the withdrawal flow). \<open>time.time()\<close> is the
  argument \<open>now\<close>; \<open>lock_account\<close> writes an account row back unchanged and has no counterpart.
\<close>

record billing_db =
  bd_accounts :: "int list"
  bd_subs :: "Subscription list"
  bd_refunds :: "SubscriptionRefund list"

definition get_subscription :: "billing_db \<Rightarrow> int \<Rightarrow> Subscription option" where
  "get_subscription db uid = get_sub uid (bd_subs db)"

text \<open>\<open>sess.add(row); sess.commit()\<close>.\<close>

definition commit_sub :: "Subscription \<Rightarrow> billing_db \<Rightarrow> billing_db" where
  "commit_sub row db = db\<lparr>bd_subs := put_sub row (bd_subs db)\<rparr>"

definition get_or_create :: "seconds \<Rightarrow> billing_db \<Rightarrow> int \<Rightarrow> Subscription \<times> billing_db" where
  "get_or_create now db uid =
     (case get_subscription db uid of
        Some row \<Rightarrow> (row, db)
      | None \<Rightarrow> (let row = new_subscription uid now in (row, commit_sub row db)))"

definition by_customer :: "billing_db \<Rightarrow> string \<Rightarrow> Subscription option" where
  "by_customer db customer =
     (if customer = '''' then None
      else find (\<lambda>r. sub_provider_customer_id r = customer) (bd_subs db))"

definition account_exists :: "billing_db \<Rightarrow> int \<Rightarrow> bool" where
  "account_exists db uid = (uid \<in> set (bd_accounts db))"

text \<open>A user id the event carries: \<open>None\<close> and 0 are both falsy.\<close>

definition named_account :: "SubscriptionUpdate \<Rightarrow> int option" where
  "named_account u = (if su_user_info_id u = Some 0 then None else su_user_info_id u)"

definition resolve_row :: "seconds \<Rightarrow> billing_db \<Rightarrow> SubscriptionUpdate \<Rightarrow> Subscription option" where
  "resolve_row now db u =
     (case named_account u of
        Some uid \<Rightarrow>
          if account_exists db uid
          then (case get_subscription db uid of
                  None \<Rightarrow> Some (new_subscription uid now) | Some row \<Rightarrow> Some row)
          else by_customer db (su_customer_id u)
      | None \<Rightarrow> by_customer db (su_customer_id u))"

definition is_orphaned :: "billing_db \<Rightarrow> SubscriptionUpdate \<Rightarrow> bool" where
  "is_orphaned db u =
     (case named_account u of
        None \<Rightarrow> False
      | Some uid \<Rightarrow> if account_exists db uid then False else by_customer db (su_customer_id u) = None)"

definition about_another_subscription :: "Subscription \<Rightarrow> SubscriptionUpdate \<Rightarrow> bool" where
  "about_another_subscription row u =
     (su_subscription_id u \<noteq> '''' \<and> sub_provider_subscription_id row \<noteq> '''' \<and>
      su_subscription_id u \<noteq> sub_provider_subscription_id row)"

definition IN_FORCE_STATUSES :: "string set" where
  "IN_FORCE_STATUSES = {''active'', ''trialing'', ''past_due'', ''unpaid'', ''paused''}"

definition starts_a_contract :: "Subscription \<Rightarrow> SubscriptionUpdate \<Rightarrow> bool option \<Rightarrow> bool" where
  "starts_a_contract row u others_in_force =
     (if su_paid_since u = 0 \<or> su_subscription_id u = '''' then False
      else if su_subscription_id u = sub_contract_subscription_id row then False
      else if su_subscription_id u = sub_contract_checked_subscription_id row then False
      else case others_in_force of
             Some b \<Rightarrow> \<not> b
           | None \<Rightarrow>
               (let other = sub_provider_subscription_id row in
                \<not> (other \<noteq> '''' \<and> other \<noteq> su_subscription_id u \<and> sub_status row \<in> IN_FORCE_STATUSES)))"

definition record_consent :: "Subscription \<Rightarrow> SubscriptionUpdate \<Rightarrow> Subscription \<times> bool" where
  "record_consent row u =
     (if su_terms_accepted_at u \<noteq> 0 \<and> su_terms_accepted_at u > sub_terms_accepted_at row
      then (row\<lparr>sub_terms_accepted_at := su_terms_accepted_at u, sub_terms_version := su_terms_version u\<rparr>, True)
      else (row, False))"

text \<open>The three ordering guards of \<open>apply_update\<close>.\<close>

definition is_stale :: "Subscription \<Rightarrow> SubscriptionUpdate \<Rightarrow> bool" where
  "is_stale row u =
     (if su_event_id u \<noteq> '''' \<and> sub_last_event_id row = su_event_id u then True
      else if su_event_at u \<noteq> 0 \<and> sub_last_event_at row \<noteq> 0 \<and> su_event_at u < sub_last_event_at row then True
      else about_another_subscription row u \<and> \<not> subscription_is_live (su_status u))"

text \<open>The contract bookkeeping, then the state itself, of an event that is applied.\<close>

definition note_contract :: "bool option \<Rightarrow> SubscriptionUpdate \<Rightarrow> Subscription \<Rightarrow> Subscription" where
  "note_contract others_in_force u row =
     (let row1 = (if starts_a_contract row u others_in_force
                  then row\<lparr>sub_contract_started_at := su_paid_since u,
                           sub_contract_subscription_id := su_subscription_id u\<rparr>
                  else row) in
      if su_paid_since u \<noteq> 0 \<and> su_subscription_id u \<noteq> ''''
      then row1\<lparr>sub_contract_checked_subscription_id := su_subscription_id u\<rparr> else row1)"

definition take_state :: "seconds \<Rightarrow> SubscriptionUpdate \<Rightarrow> Subscription \<Rightarrow> Subscription" where
  "take_state now u row =
     (let row1 = (if su_plan u \<noteq> sub_plan row
                  then row\<lparr>sub_pending_plan := '''', sub_pending_plan_at := 0\<rparr> else row);
          row2 = row1\<lparr>sub_plan := su_plan u, sub_status := su_status u, sub_provider := ''stripe''\<rparr>;
          row3 = (if su_customer_id u \<noteq> '''' then row2\<lparr>sub_provider_customer_id := su_customer_id u\<rparr> else row2);
          row4 = (if su_subscription_id u \<noteq> ''''
                  then row3\<lparr>sub_provider_subscription_id := su_subscription_id u\<rparr> else row3);
          row5 = (if su_current_period_end u \<noteq> 0
                  then row4\<lparr>sub_current_period_end := su_current_period_end u\<rparr> else row4) in
      row5\<lparr>sub_cancel_at_period_end := su_cancel_at_period_end u, sub_last_event_id := su_event_id u,
           sub_last_event_at := su_event_at u, sub_updated_at := now\<rparr>)"

definition apply_update ::
  "seconds \<times> bool option \<Rightarrow> SubscriptionUpdate \<Rightarrow> billing_db \<Rightarrow> bool \<times> billing_db" where
  "apply_update ctx u db =
     (case ctx of (now, others_in_force) \<Rightarrow>
      case resolve_row now db u of
        None \<Rightarrow> (False, db)
      | Some row0 \<Rightarrow>
          (case record_consent row0 u of (row, facts) \<Rightarrow>
             if is_stale row u
             then (if facts then (True, commit_sub (row\<lparr>sub_updated_at := now\<rparr>) db) else (False, db))
             else (True, commit_sub (take_state now u (note_contract others_in_force u row)) db)))"

definition apply_schedule :: "seconds \<Rightarrow> ScheduleUpdate \<Rightarrow> billing_db \<Rightarrow> bool \<times> billing_db" where
  "apply_schedule now u db =
     (case by_customer db (sc_customer_id u) of
        None \<Rightarrow> (False, db)
      | Some row \<Rightarrow>
          if sc_subscription_id u \<noteq> '''' \<and> sub_provider_subscription_id row \<noteq> '''' \<and>
             sc_subscription_id u \<noteq> sub_provider_subscription_id row then (False, db)
          else if sub_pending_plan row = sc_plan u \<and> sub_pending_plan_at row = sc_effective_at u
          then (False, db)
          else (True, commit_sub
                  (row\<lparr>sub_pending_plan := sc_plan u,
                       sub_pending_plan_at := (if sc_plan u \<noteq> '''' then sc_effective_at u else 0),
                       sub_updated_at := now\<rparr>) db))"

definition clear_pending_plan :: "seconds \<Rightarrow> Subscription \<Rightarrow> billing_db \<Rightarrow> billing_db" where
  "clear_pending_plan now row db =
     (if sub_pending_plan row = '''' \<and> sub_pending_plan_at row = 0 then db
      else commit_sub (row\<lparr>sub_pending_plan := '''', sub_pending_plan_at := 0, sub_updated_at := now\<rparr>) db)"

definition set_admin_override :: "seconds \<Rightarrow> billing_db \<Rightarrow> int \<Rightarrow> string \<Rightarrow> Subscription \<times> billing_db" where
  "set_admin_override now db uid plan =
     (case get_or_create now db uid of (row, db1) \<Rightarrow>
        let row' = row\<lparr>sub_admin_override_plan := plan, sub_updated_at := now\<rparr> in
        (row', commit_sub row' db1))"

subsection \<open>Lemmas on rows\<close>

lemma new_subscription_user [simp]: "sub_user_info_id (new_subscription uid now) = uid"
  by (simp add: new_subscription_def)

lemma note_contract_keeps [simp]:
  "sub_user_info_id (note_contract oth u row) = sub_user_info_id row"
  "sub_plan (note_contract oth u row) = sub_plan row"
  "sub_status (note_contract oth u row) = sub_status row"
  "sub_admin_override_plan (note_contract oth u row) = sub_admin_override_plan row"
  "sub_terms_accepted_at (note_contract oth u row) = sub_terms_accepted_at row"
  "sub_provider_customer_id (note_contract oth u row) = sub_provider_customer_id row"
  "sub_provider_subscription_id (note_contract oth u row) = sub_provider_subscription_id row"
  "sub_current_period_end (note_contract oth u row) = sub_current_period_end row"
  by (simp_all add: note_contract_def Let_def)

lemma take_state_fields [simp]:
  "sub_user_info_id (take_state now u row) = sub_user_info_id row"
  "sub_plan (take_state now u row) = su_plan u"
  "sub_status (take_state now u row) = su_status u"
  "sub_admin_override_plan (take_state now u row) = sub_admin_override_plan row"
  "sub_terms_accepted_at (take_state now u row) = sub_terms_accepted_at row"
  "sub_cancel_at_period_end (take_state now u row) = su_cancel_at_period_end u"
  "sub_last_event_id (take_state now u row) = su_event_id u"
  "sub_last_event_at (take_state now u row) = su_event_at u"
  "sub_contract_started_at (take_state now u row) = sub_contract_started_at row"
  "sub_contract_subscription_id (take_state now u row) = sub_contract_subscription_id row"
  "sub_contract_checked_subscription_id (take_state now u row) = sub_contract_checked_subscription_id row"
  "sub_provider_customer_id (take_state now u row) =
     (if su_customer_id u = '''' then sub_provider_customer_id row else su_customer_id u)"
  "sub_provider_subscription_id (take_state now u row) =
     (if su_subscription_id u = '''' then sub_provider_subscription_id row else su_subscription_id u)"
  by (simp_all add: take_state_def Let_def)

lemma record_consent_fields [simp]:
  "sub_user_info_id (fst (record_consent row u)) = sub_user_info_id row"
  "sub_last_event_id (fst (record_consent row u)) = sub_last_event_id row"
  "sub_last_event_at (fst (record_consent row u)) = sub_last_event_at row"
  "sub_plan (fst (record_consent row u)) = sub_plan row"
  "sub_status (fst (record_consent row u)) = sub_status row"
  "sub_admin_override_plan (fst (record_consent row u)) = sub_admin_override_plan row"
  "sub_provider_subscription_id (fst (record_consent row u)) = sub_provider_subscription_id row"
  "sub_provider_customer_id (fst (record_consent row u)) = sub_provider_customer_id row"
  "sub_contract_subscription_id (fst (record_consent row u)) = sub_contract_subscription_id row"
  "sub_contract_started_at (fst (record_consent row u)) = sub_contract_started_at row"
  "sub_contract_checked_subscription_id (fst (record_consent row u)) = sub_contract_checked_subscription_id row"
  by (simp_all add: record_consent_def)

lemma is_stale_consent [simp]: "is_stale (fst (record_consent row u)) u = is_stale row u"
  unfolding is_stale_def about_another_subscription_def by (simp only: record_consent_fields)

lemma starts_a_contract_consent [simp]:
  "starts_a_contract (fst (record_consent row u)) u oth = starts_a_contract row u oth"
  by (simp add: starts_a_contract_def split: option.split)

lemma record_consent_new:
  "snd (record_consent row u) \<longleftrightarrow> su_terms_accepted_at u \<noteq> 0 \<and> su_terms_accepted_at u > sub_terms_accepted_at row"
  by (simp add: record_consent_def)

lemma record_consent_unchanged: "\<not> snd (record_consent row u) \<Longrightarrow> fst (record_consent row u) = row"
  unfolding record_consent_new unfolding record_consent_def by (simp only: if_False fst_conv)

lemma is_stale_cong:
  "sub_last_event_id row' = sub_last_event_id row \<Longrightarrow> sub_last_event_at row' = sub_last_event_at row \<Longrightarrow>
   sub_provider_subscription_id row' = sub_provider_subscription_id row \<Longrightarrow> is_stale row' u = is_stale row u"
  unfolding is_stale_def about_another_subscription_def by (simp only:)

lemma record_consent_at:
  "su_terms_accepted_at u \<le> sub_terms_accepted_at (fst (record_consent row u)) \<or> su_terms_accepted_at u = 0"
  "sub_terms_accepted_at row \<le> sub_terms_accepted_at (fst (record_consent row u))"
  by (auto simp: record_consent_def)

lemma commit_sub_get [simp]:
  "get_subscription (commit_sub row db) uid =
     (if uid = sub_user_info_id row then Some row else get_subscription db uid)"
  by (simp add: get_subscription_def commit_sub_def first_row_save)

lemma commit_sub_accounts [simp]:
  "bd_accounts (commit_sub row db) = bd_accounts db" "bd_refunds (commit_sub row db) = bd_refunds db"
  "account_exists (commit_sub row db) uid = account_exists db uid"
  by (simp_all add: commit_sub_def account_exists_def)

lemma by_customer_SomeD:
  "by_customer db c = Some row \<Longrightarrow>
     row \<in> set (bd_subs db) \<and> sub_provider_customer_id row = c \<and> c \<noteq> ''''"
  by (auto simp: by_customer_def find_Some_iff split: if_splits)

text \<open>The unique index on \<open>user_info_id\<close>.\<close>

definition unique_users :: "billing_db \<Rightarrow> bool" where
  "unique_users db = distinct (map sub_user_info_id (bd_subs db))"

lemma unique_users_commit [simp]: "unique_users db \<Longrightarrow> unique_users (commit_sub row db)"
  by (simp add: unique_users_def commit_sub_def distinct_save)

lemma get_subscription_mem:
  "unique_users db \<Longrightarrow> row \<in> set (bd_subs db) \<Longrightarrow> get_subscription db (sub_user_info_id row) = Some row"
  unfolding get_subscription_def unique_users_def by (rule first_row_mem)

subsection \<open>What an event does to the database\<close>

text \<open>
  The row an event works on, once written, is the row the same event works on again: by account id
  it is found by id, by customer it stays the first with that customer.
\<close>

definition next_row :: "seconds \<times> bool option \<Rightarrow> SubscriptionUpdate \<Rightarrow> Subscription \<Rightarrow> Subscription" where
  "next_row ctx u row =
     (if is_stale row u then (fst (record_consent row u))\<lparr>sub_updated_at := fst ctx\<rparr>
      else take_state (fst ctx) u (note_contract (snd ctx) u (fst (record_consent row u))))"

lemma next_row_user [simp]: "sub_user_info_id (next_row ctx u row) = sub_user_info_id row"
  by (simp add: next_row_def)

lemma apply_update_Some:
  assumes "resolve_row (fst ctx) db u = Some row"
  shows "apply_update ctx u db =
    (if is_stale row u \<and> \<not> snd (record_consent row u) then (False, db)
     else (True, commit_sub (next_row ctx u row) db))"
  by (cases "is_stale row u"; cases "snd (record_consent row u)")
     (simp_all add: apply_update_def case_prod_beta next_row_def assms)

lemma apply_update_cases:
  assumes "apply_update ctx u db = (changed, db')"
  obtains (unknown) "resolve_row (fst ctx) db u = None" "\<not> changed" "db' = db"
  | (ignored) row where "resolve_row (fst ctx) db u = Some row" "is_stale row u"
      "\<not> snd (record_consent row u)" "\<not> changed" "db' = db"
  | (applied) row where "resolve_row (fst ctx) db u = Some row" "\<not> is_stale row u \<or> snd (record_consent row u)"
      "changed" "db' = commit_sub (next_row ctx u row) db"
proof (cases "resolve_row (fst ctx) db u")
  case None
  then have "apply_update ctx u db = (False, db)" by (simp add: apply_update_def case_prod_beta)
  then have "\<not> changed" "db' = db" using assms by simp_all
  then show ?thesis using None unknown by blast
next
  case (Some row)
  show ?thesis
  proof (cases "is_stale row u \<and> \<not> snd (record_consent row u)")
    case True
    then have "changed = False" "db' = db" using assms apply_update_Some [OF Some] by simp_all
    then show ?thesis using True Some ignored by blast
  next
    case False
    then have "apply_update ctx u db = (True, commit_sub (next_row ctx u row) db)"
      using apply_update_Some [OF Some] by (simp only: if_False)
    then have "changed = True" "db' = commit_sub (next_row ctx u row) db" using assms by simp_all
    then show ?thesis using False Some applied by blast
  qed
qed

lemma resolve_row_user:
  assumes "resolve_row now db u = Some row" "unique_users db"
  shows "get_subscription db (sub_user_info_id row) = Some row \<or>
    get_subscription db (sub_user_info_id row) = None \<and> row = new_subscription (sub_user_info_id row) now \<and>
    account_exists db (sub_user_info_id row) \<and> named_account u = Some (sub_user_info_id row)"
proof (cases "\<exists>uid. named_account u = Some uid \<and> account_exists db uid")
  case True
  then obtain uid where uid: "named_account u = Some uid" "account_exists db uid" by blast
  show ?thesis
  proof (cases "get_subscription db uid")
    case None
    then have "row = new_subscription uid now" using assms(1) uid by (simp add: resolve_row_def)
    then show ?thesis using None uid by simp
  next
    case (Some r)
    then have "row = r" using assms(1) uid by (simp add: resolve_row_def)
    moreover have "sub_user_info_id r = uid"
      using Some unfolding get_subscription_def by (rule first_row_key)
    ultimately show ?thesis using Some by simp
  qed
next
  case False
  then have "by_customer db (su_customer_id u) = Some row"
    using assms(1) by (auto simp: resolve_row_def split: option.splits if_splits)
  then show ?thesis using by_customer_SomeD get_subscription_mem assms(2) by blast
qed

lemma find_put_first:
  assumes "find P rows = Some r" "distinct (map key rows)" "P r'" "key r' = key r"
  shows "find P (save_row key r' rows) = Some r'"
proof -
  have "find P (map (\<lambda>x. if key x = key r' then r' else x) rows) = Some r'"
    using assms
  proof (induction rows)
    case (Cons x xs)
    show ?case
    proof (cases "P x")
      case True
      then show ?thesis using Cons.prems by simp
    next
      case False
      then have "r \<in> set xs" using Cons.prems(1) by (auto simp: find_Some_iff)
      then have "key x \<noteq> key r'" using Cons.prems(2,4) by auto
      then show ?thesis using Cons False by simp
    qed
  qed simp
  moreover have "\<exists>x\<in>set rows. key x = key r'"
    using assms(1,4) by (auto simp: find_Some_iff)
  ultimately show ?thesis by (simp add: save_row_def)
qed

lemma by_customer_commit:
  assumes "by_customer db c = Some row" "unique_users db" "sub_provider_customer_id row' = c"
    and "sub_user_info_id row' = sub_user_info_id row"
  shows "by_customer (commit_sub row' db) c = Some row'"
  using assms find_put_first [of "\<lambda>r. sub_provider_customer_id r = c" "bd_subs db" row sub_user_info_id row']
  by (auto simp: by_customer_def commit_sub_def unique_users_def split: if_splits)

lemma next_row_customer:
  "sub_provider_customer_id row = su_customer_id u \<Longrightarrow>
     sub_provider_customer_id (next_row ctx u row) = su_customer_id u"
  by (simp add: next_row_def)

lemma resolve_row_again:
  assumes "resolve_row now db u = Some row" "unique_users db"
  shows "resolve_row now' (commit_sub (next_row ctx u row) db) u = Some (next_row ctx u row)"
proof (cases "\<exists>uid. named_account u = Some uid \<and> account_exists db uid")
  case True
  then obtain uid where uid: "named_account u = Some uid" "account_exists db uid" by blast
  then have "sub_user_info_id row = uid"
    using assms(1) by (auto simp: resolve_row_def get_subscription_def new_subscription_def
        split: option.splits dest: first_row_key)
  then show ?thesis using uid by (simp add: resolve_row_def)
next
  case False
  then have c: "by_customer db (su_customer_id u) = Some row"
    using assms(1) by (auto simp: resolve_row_def split: option.splits if_splits)
  then have "by_customer (commit_sub (next_row ctx u row) db) (su_customer_id u) = Some (next_row ctx u row)"
    using assms(2) by_customer_SomeD [OF c] by (intro by_customer_commit) (auto simp: next_row_customer)
  then show ?thesis using False by (auto simp: resolve_row_def split: option.splits)
qed

lemma next_row_stale:
  assumes "su_event_id u \<noteq> ''''"
  shows "is_stale (next_row ctx u row) u" "\<not> snd (record_consent (next_row ctx u row) u)"
proof -
  show "is_stale (next_row ctx u row) u"
  proof (cases "is_stale row u")
    case True
    then show ?thesis using is_stale_cong [of "next_row ctx u row" row u] by (simp add: next_row_def)
  next
    case False
    then show ?thesis using assms by (simp add: next_row_def is_stale_def)
  qed
  have "sub_terms_accepted_at (next_row ctx u row) = sub_terms_accepted_at (fst (record_consent row u))"
    by (simp add: next_row_def)
  then show "\<not> snd (record_consent (next_row ctx u row) u)"
    using record_consent_at(1) [of u row] by (auto simp: record_consent_new)
qed

subsection \<open>The contract of an at-least-once handler\<close>

text \<open>
  The provider delivers an event again until it is acknowledged. A handler tolerates this when a
  second delivery, whatever has changed around it (the clock, the provider's other answers), reports
  no change and leaves the state alone; then any number of deliveries in a row count as one.
\<close>

locale at_least_once =
  fixes deliver :: "'c \<Rightarrow> 'e \<Rightarrow> 's \<Rightarrow> bool \<times> 's" and admissible :: "'e \<Rightarrow> 's \<Rightarrow> bool"
  assumes redelivered: "admissible e s \<Longrightarrow> deliver c' e (snd (deliver c e s)) = (False, snd (deliver c e s))"
    and still_admissible: "admissible e s \<Longrightarrow> admissible e (snd (deliver c e s))"
begin

lemma deliveries_count_once:
  "admissible e s \<Longrightarrow> foldl (\<lambda>t c. snd (deliver c e t)) (snd (deliver c e s)) cs = snd (deliver c e s)"
  by (induction cs) (simp_all add: redelivered)

end

interpretation updates: at_least_once apply_update "\<lambda>u db. su_event_id u \<noteq> '''' \<and> unique_users db"
proof (unfold_locales, goal_cases)
  case (1 u db ctx' ctx)
  obtain changed db' where run: "apply_update ctx u db = (changed, db')" by fastforce
  then show ?case
  proof (cases rule: apply_update_cases)
    case unknown
    then have "resolve_row (fst ctx') db u = None"
      by (auto simp: resolve_row_def split: option.splits if_splits)
    then show ?thesis using run unknown by (simp add: apply_update_def case_prod_beta)
  next
    case (ignored row)
    have "su_event_id u \<noteq> ''''" using 1 by simp
    then have "sub_last_event_id (new_subscription uid now) \<noteq> su_event_id u" for uid now
      by (simp add: new_subscription_def)
    then have "\<not> is_stale (new_subscription uid now) u" for uid now
      by (simp add: is_stale_def about_another_subscription_def new_subscription_def)
    then have "resolve_row (fst ctx') db u = Some row"
      using ignored(1,2) by (auto simp: resolve_row_def split: option.splits if_splits)
    then show ?thesis using run ignored by (simp add: apply_update_Some)
  next
    case (applied row)
    note again = resolve_row_again [OF applied(1), of "fst ctx'" ctx]
    have "su_event_id u \<noteq> ''''" using 1 by simp
    from next_row_stale [OF this, of ctx row] again 1 show ?thesis
      using run applied(4) by (simp add: apply_update_Some)
  qed
next
  case (2 u db ctx)
  obtain changed db' where run: "apply_update ctx u db = (changed, db')" by fastforce
  then show ?case using 2 run by (cases rule: apply_update_cases) simp_all
qed

interpretation schedules: at_least_once apply_schedule
  "\<lambda>u db. (sc_plan u \<noteq> '''' \<or> sc_effective_at u = 0) \<and> unique_users db"
proof (unfold_locales, goal_cases)
  case (1 u db now' now)
  show ?case
  proof (cases "by_customer db (sc_customer_id u)")
    case None
    then show ?thesis by (simp add: apply_schedule_def)
  next
    case (Some row)
    let ?row' = "row\<lparr>sub_pending_plan := sc_plan u,
        sub_pending_plan_at := (if sc_plan u \<noteq> '''' then sc_effective_at u else 0), sub_updated_at := now\<rparr>"
    have "by_customer (commit_sub ?row' db) (sc_customer_id u) = Some ?row'"
      using 1 by_customer_SomeD [OF Some] by (intro by_customer_commit [OF Some]) auto
    then show ?thesis using 1 Some by (auto simp: apply_schedule_def)
  qed
next
  case (2 u db now)
  then show ?case by (auto simp: apply_schedule_def split: option.splits)
qed

subsection \<open>Sequences of events\<close>

definition run_updates ::
  "((seconds \<times> bool option) \<times> SubscriptionUpdate) list \<Rightarrow> billing_db \<Rightarrow> billing_db" where
  "run_updates es db = foldl (\<lambda>t e. snd (apply_update (fst e) (snd e) t)) db es"

lemma run_updates_snoc: "run_updates (es @ [e]) db = snd (apply_update (fst e) (snd e) (run_updates es db))"
  by (simp add: run_updates_def)

lemma named_resolve:
  assumes "su_user_info_id u = Some uid" "uid \<noteq> 0" "account_exists db uid"
  shows "resolve_row now db u =
    Some (case get_subscription db uid of None \<Rightarrow> new_subscription uid now | Some row \<Rightarrow> row)"
  using assms by (simp add: resolve_row_def named_account_def split: option.split)

lemma apply_update_accounts [simp]: "account_exists (snd (apply_update ctx u db)) uid = account_exists db uid"
proof -
  obtain changed db' where run: "apply_update ctx u db = (changed, db')" by fastforce
  then have "account_exists db' uid = account_exists db uid"
    by (cases rule: apply_update_cases) simp_all
  then show ?thesis using run by simp
qed

lemma run_updates_accounts [simp]: "account_exists (run_updates es db) uid = account_exists db uid"
  by (induction es rule: rev_induct) (simp_all add: run_updates_snoc, simp add: run_updates_def)

text \<open>An event of the tracked account: the row written, from the row read (a fresh one at first).\<close>

lemma apply_update_row:
  assumes "su_user_info_id u = Some uid" "uid \<noteq> 0" "account_exists db uid"
    and row: "row = (case get_subscription db uid of None \<Rightarrow> new_subscription uid (fst ctx) | Some r \<Rightarrow> r)"
    and "get_subscription db uid \<noteq> None \<or> \<not> is_stale row u"
  shows "\<exists>row'. get_subscription (snd (apply_update ctx u db)) uid = Some row' \<and>
    (if is_stale row u then row' \<in> {row, next_row ctx u row} else row' = next_row ctx u row)"
proof -
  have uid: "sub_user_info_id row = uid"
    using row unfolding get_subscription_def by (auto split: option.splits dest: first_row_key)
  have "resolve_row (fst ctx) db u = Some row" unfolding row by (rule named_resolve [OF assms(1-3)])
  note run = apply_update_Some [OF this]
  show ?thesis
  proof (cases "is_stale row u \<and> \<not> snd (record_consent row u)")
    case True
    then have "snd (apply_update ctx u db) = db" using run by simp
    moreover have "get_subscription db uid = Some row"
      using True assms(5) row by (auto split: option.splits)
    ultimately show ?thesis using True by simp
  next
    case False
    then have "snd (apply_update ctx u db) = commit_sub (next_row ctx u row) db"
      using run by (simp only: if_False snd_conv)
    then show ?thesis using uid by simp
  qed
qed

lemma next_row_stale_keeps:
  assumes "is_stale row u" "row' \<in> {row, next_row ctx u row}"
  shows "sub_plan row' = sub_plan row" "sub_status row' = sub_status row"
    "sub_cancel_at_period_end row' = sub_cancel_at_period_end row"
    "sub_last_event_id row' = sub_last_event_id row" "sub_last_event_at row' = sub_last_event_at row"
    "sub_provider_subscription_id row' = sub_provider_subscription_id row"
    "sub_pending_plan row' = sub_pending_plan row"
    "sub_current_period_end row' = sub_current_period_end row"
    "sub_contract_started_at row' = sub_contract_started_at row"
    "sub_contract_subscription_id row' = sub_contract_subscription_id row"
proof -
  have "sub_cancel_at_period_end (fst (record_consent row u)) = sub_cancel_at_period_end row"
    "sub_pending_plan (fst (record_consent row u)) = sub_pending_plan row"
    "sub_current_period_end (fst (record_consent row u)) = sub_current_period_end row"
    by (simp_all add: record_consent_def)
  then have "next_row ctx u row \<in> {r. sub_cancel_at_period_end r = sub_cancel_at_period_end row \<and>
      sub_pending_plan r = sub_pending_plan row \<and> sub_current_period_end r = sub_current_period_end row}"
    using assms(1) by (simp add: next_row_def)
  then show "sub_cancel_at_period_end row' = sub_cancel_at_period_end row"
    "sub_pending_plan row' = sub_pending_plan row"
    "sub_current_period_end row' = sub_current_period_end row"
    using assms(2) by auto
  have "sub_plan (next_row ctx u row) = sub_plan row" "sub_status (next_row ctx u row) = sub_status row"
    "sub_last_event_id (next_row ctx u row) = sub_last_event_id row"
    "sub_last_event_at (next_row ctx u row) = sub_last_event_at row"
    "sub_provider_subscription_id (next_row ctx u row) = sub_provider_subscription_id row"
    "sub_contract_started_at (next_row ctx u row) = sub_contract_started_at row"
    "sub_contract_subscription_id (next_row ctx u row) = sub_contract_subscription_id row"
    using assms(1) by (simp_all add: next_row_def)
  then show "sub_plan row' = sub_plan row" "sub_status row' = sub_status row"
    "sub_last_event_id row' = sub_last_event_id row" "sub_last_event_at row' = sub_last_event_at row"
    "sub_provider_subscription_id row' = sub_provider_subscription_id row"
    "sub_contract_started_at row' = sub_contract_started_at row"
    "sub_contract_subscription_id row' = sub_contract_subscription_id row"
    using assms(2) by auto
qed

text \<open>Deliveries about one subscription of one account, in any order, some of them more than once.\<close>

definition one_stream :: "int \<Rightarrow> string \<Rightarrow> SubscriptionUpdate set \<Rightarrow> bool" where
  "one_stream uid sid us =
     (\<forall>u\<in>us. su_user_info_id u = Some uid \<and> su_subscription_id u = sid \<and>
        su_event_id u \<noteq> '''' \<and> 0 < su_event_at u \<and>
        (\<forall>v\<in>us. (su_event_at u = su_event_at v \<or> su_event_id u = su_event_id v) \<longrightarrow> u = v))"

definition reflects :: "SubscriptionUpdate \<Rightarrow> Subscription \<Rightarrow> bool" where
  "reflects u row =
     (sub_plan row = su_plan u \<and> sub_status row = su_status u \<and>
      sub_cancel_at_period_end row = su_cancel_at_period_end u \<and>
      sub_last_event_id row = su_event_id u \<and> sub_last_event_at row = su_event_at u)"

lemma stream_stale_iff:
  assumes "one_stream uid sid us" "u \<in> us" "v \<in> us" "reflects u row"
    and "sub_provider_subscription_id row \<in> {'''', sid}"
  shows "is_stale row v \<longleftrightarrow> su_event_at v \<le> su_event_at u"
proof -
  have n: "\<not> about_another_subscription row v"
    using assms(1,3,5) by (auto simp: about_another_subscription_def one_stream_def)
  have r: "sub_last_event_id row = su_event_id u" "sub_last_event_at row = su_event_at u"
    using assms(4) by (simp_all add: reflects_def)
  have s: "su_event_id v \<noteq> ''''" "0 < su_event_at v" "0 < su_event_at u"
    "su_event_id u = su_event_id v \<longleftrightarrow> su_event_at u = su_event_at v"
    using assms(1-3) unfolding one_stream_def by blast+
  then show ?thesis using n unfolding is_stale_def r by auto
qed

lemma reflects_next: "\<not> is_stale row v \<Longrightarrow> reflects v (next_row ctx v row)"
  by (simp add: reflects_def next_row_def)

lemma provider_next:
  "\<not> is_stale row v \<Longrightarrow> su_subscription_id v = sid \<Longrightarrow> sub_provider_subscription_id row \<in> {'''', sid} \<Longrightarrow>
     sub_provider_subscription_id (next_row ctx v row) \<in> {'''', sid}"
  by (auto simp add: next_row_def)

lemma stream_step:
  assumes stream: "one_stream uid sid us" and u: "u \<in> us" and v: "v \<in> us"
    and acc: "uid \<noteq> 0" "account_exists db uid"
    and row: "get_subscription db uid = Some row" "reflects u row" "sub_provider_subscription_id row \<in> {'''', sid}"
  shows "\<exists>row'. get_subscription (snd (apply_update ctx v db)) uid = Some row' \<and>
    reflects (if su_event_at v \<le> su_event_at u then u else v) row' \<and>
    sub_provider_subscription_id row' \<in> {'''', sid}"
proof -
  have n: "su_user_info_id v = Some uid" "su_subscription_id v = sid"
    using stream v by (auto simp: one_stream_def)
  note stale = stream_stale_iff [OF stream u v row(2,3)]
  have sel: "row = (case get_subscription db uid of None \<Rightarrow> new_subscription uid (fst ctx) | Some r \<Rightarrow> r)"
    using row(1) by simp
  have "get_subscription db uid \<noteq> None \<or> \<not> is_stale row v" using row(1) by simp
  from apply_update_row [OF n(1) acc sel this]
  obtain row' where row': "get_subscription (snd (apply_update ctx v db)) uid = Some row'"
    "if is_stale row v then row' \<in> {row, next_row ctx v row} else row' = next_row ctx v row" by blast
  show ?thesis
  proof (cases "is_stale row v")
    case True
    then have "row' \<in> {row, next_row ctx v row}" using row'(2) by simp
    from next_row_stale_keeps [OF True this] True stale row row'(1) show ?thesis
      by (simp add: reflects_def)
  next
    case False
    then show ?thesis
      using row' stale reflects_next [OF False] provider_next [OF False n(2) row(3)] by simp
  qed
qed

lemma stream_first:
  assumes "one_stream uid sid us" "v \<in> us" "uid \<noteq> 0" "account_exists db uid" "get_subscription db uid = None"
  shows "\<exists>row'. get_subscription (snd (apply_update ctx v db)) uid = Some row' \<and> reflects v row' \<and>
    sub_provider_subscription_id row' \<in> {'''', sid}"
proof -
  let ?new = "new_subscription uid (fst ctx)"
  have n: "su_user_info_id v = Some uid" "su_subscription_id v = sid" "su_event_id v \<noteq> ''''"
    using assms(1,2) by (auto simp: one_stream_def)
  have new: "sub_provider_subscription_id ?new = ''''" "sub_last_event_id ?new = ''''"
    "sub_last_event_at ?new = 0" by (simp_all add: new_subscription_def)
  then have fresh: "\<not> is_stale ?new v"
    using n(3) by (simp add: is_stale_def about_another_subscription_def)
  have sel: "?new = (case get_subscription db uid of None \<Rightarrow> ?new | Some r \<Rightarrow> r)" using assms(5) by simp
  from apply_update_row [OF n(1) assms(3,4) sel] fresh
  show ?thesis using reflects_next [OF fresh] provider_next [OF fresh n(2)] new(1) by fastforce
qed

lemma stream_invariant:
  assumes "one_stream uid sid (snd ` set es)" "uid \<noteq> 0" "account_exists db uid"
    and "get_subscription db uid = None" "es \<noteq> []"
  shows "\<exists>row. \<exists>u \<in> snd ` set es. get_subscription (run_updates es db) uid = Some row \<and> reflects u row \<and>
    sub_provider_subscription_id row \<in> {'''', sid} \<and> (\<forall>v \<in> snd ` set es. su_event_at v \<le> su_event_at u)"
  using assms
proof (induction es rule: rev_induct)
  case (snoc e es)
  show ?case
  proof (cases "es = []")
    case True
    then have "run_updates (es @ [e]) db = snd (apply_update (fst e) (snd e) db)"
      by (simp add: run_updates_def)
    then show ?thesis
      using stream_first [OF snoc.prems(1) _ snoc.prems(2,3,4), of "snd e" "fst e"] True by simp
  next
    case False
    have sub: "one_stream uid sid (snd ` set es)" using snoc.prems(1) by (auto simp: one_stream_def)
    obtain row u where u: "u \<in> snd ` set es" "get_subscription (run_updates es db) uid = Some row"
      "reflects u row" "sub_provider_subscription_id row \<in> {'''', sid}"
      "\<forall>v \<in> snd ` set es. su_event_at v \<le> su_event_at u"
      using snoc.IH [OF sub snoc.prems(2,3,4) False] by blast
    have mem: "u \<in> snd ` set (es @ [e])" "snd e \<in> snd ` set (es @ [e])" using u(1) by auto
    have acc: "account_exists (run_updates es db) uid" using snoc.prems(3) by simp
    let ?w = "if su_event_at (snd e) \<le> su_event_at u then u else snd e"
    obtain row' where row': "get_subscription (run_updates (es @ [e]) db) uid = Some row'" "reflects ?w row'"
      "sub_provider_subscription_id row' \<in> {'''', sid}"
      using stream_step [OF snoc.prems(1) mem snoc.prems(2) acc u(2,3,4), of "fst e"]
      by (auto simp: run_updates_snoc)
    have "?w \<in> snd ` set (es @ [e])" using mem by simp
    moreover have "\<forall>v \<in> snd ` set (es @ [e]). su_event_at v \<le> su_event_at ?w" using u(5) by fastforce
    ultimately show ?thesis using row' by blast
  qed
qed simp

subsection \<open>What an event may change\<close>

lemma next_row_override [simp]: "sub_admin_override_plan (next_row ctx u row) = sub_admin_override_plan row"
  by (simp add: next_row_def)

lemma next_row_terms: "sub_terms_accepted_at row \<le> sub_terms_accepted_at (next_row ctx u row)"
  using record_consent_at(2) [of row u] by (simp add: next_row_def)

lemma next_row_contract:
  assumes "\<not> is_stale row u"
  shows "sub_contract_subscription_id (next_row ctx u row) =
      (if starts_a_contract row u (snd ctx) then su_subscription_id u else sub_contract_subscription_id row)"
    "sub_contract_started_at (next_row ctx u row) =
      (if starts_a_contract row u (snd ctx) then su_paid_since u else sub_contract_started_at row)"
  using assms by (simp_all add: next_row_def note_contract_def Let_def)

text \<open>One row is written at most: the one the event resolves to.\<close>

lemma apply_update_rows:
  assumes "unique_users db" "apply_update ctx u db = (changed, db')"
  shows "(\<forall>k row. get_subscription db k = Some row \<longrightarrow>
      (\<exists>row'. get_subscription db' k = Some row' \<and> row' \<in> {row, next_row ctx u row})) \<and>
    (\<forall>k. get_subscription db k = None \<and> get_subscription db' k \<noteq> None \<longrightarrow>
      account_exists db k \<and> named_account u = Some k)"
  using assms(2)
proof (cases rule: apply_update_cases)
  case (applied r)
  then show ?thesis using resolve_row_user [OF applied(1) assms(1)] by auto
qed auto

subsection \<open>Properties\<close>

text \<open>C8. Redelivery is harmless: an event delivered again right after itself, any number of times and
  whatever the clock and the provider's other answers are by then, reports no change and leaves the
  database exactly as the first delivery left it.\<close>

theorem redelivery_changes_nothing:
  assumes "su_event_id u \<noteq> ''''" "unique_users db"
  shows "foldl (\<lambda>t c. snd (apply_update c u t)) (snd (apply_update c u db)) cs = snd (apply_update c u db) \<and>
    fst (apply_update c' u (snd (apply_update c u db))) = False"
  using updates.deliveries_count_once [of u db] updates.redelivered [of u db] assms by simp

definition example_update :: "string \<Rightarrow> seconds \<Rightarrow> string \<Rightarrow> string \<Rightarrow> string \<Rightarrow> seconds \<Rightarrow> SubscriptionUpdate" where
  "example_update eid ts plan status sid paid =
     \<lparr>su_event_id = eid, su_event_at = ts, su_customer_id = ''cus_1'', su_subscription_id = sid,
      su_plan = plan, su_status = status, su_current_period_end = 0, su_cancel_at_period_end = False,
      su_user_info_id = Some 7, su_paid_since = paid, su_terms_accepted_at = 0, su_terms_version = ''''\<rparr>"

definition one_account :: billing_db where
  "one_account = \<lparr>bd_accounts = [7], bd_subs = [], bd_refunds = []\<rparr>"

theorem redelivery_changes_nothing_witness:
  "fst (apply_update (2, None) (example_update ''evt_1'' 100 TIER_2 ''active'' ''sub_1'' 90)
     (snd (apply_update (1, None) (example_update ''evt_1'' 100 TIER_2 ''active'' ''sub_1'' 90) one_account))) = False"
proof -
  have "su_event_id (example_update ''evt_1'' 100 TIER_2 ''active'' ''sub_1'' 90) \<noteq> ''''" "unique_users one_account"
    by (simp_all add: example_update_def one_account_def unique_users_def)
  from redelivery_changes_nothing [OF this] show ?thesis by blast
qed



text \<open>What an event can never do. It never removes a row, never touches the operator's override,
  never replaces a consent by an older one, and creates a row only for an account that exists and
  that it names; an event that is a repeat, is older than the one applied last or reports the end
  of another subscription than the tracked one changes no plan, status, period, pending change or
  contract.\<close>

theorem event_never_overreaches:
  assumes "unique_users db" "apply_update ctx u db = (changed, db')"
  shows "(\<forall>k row. get_subscription db k = Some row \<longrightarrow>
      (\<exists>row'. get_subscription db' k = Some row' \<and>
         sub_admin_override_plan row' = sub_admin_override_plan row \<and>
         sub_terms_accepted_at row \<le> sub_terms_accepted_at row' \<and>
         (is_stale row u \<longrightarrow>
            sub_plan row' = sub_plan row \<and> sub_status row' = sub_status row \<and>
            sub_current_period_end row' = sub_current_period_end row \<and>
            sub_pending_plan row' = sub_pending_plan row \<and>
            sub_contract_started_at row' = sub_contract_started_at row))) \<and>
    (\<forall>k. get_subscription db k = None \<and> get_subscription db' k \<noteq> None \<longrightarrow>
      account_exists db k \<and> named_account u = Some k)"
proof (intro conjI allI impI, goal_cases)
  case (1 k row)
  then obtain row' where r: "get_subscription db' k = Some row'" "row' \<in> {row, next_row ctx u row}"
    using apply_update_rows [OF assms] by blast
  have "sub_admin_override_plan row' = sub_admin_override_plan row"
    "sub_terms_accepted_at row \<le> sub_terms_accepted_at row'"
    using r(2) next_row_terms [of row ctx u] by auto
  then show ?case using r(1) next_row_stale_keeps [OF _ r(2)] by blast
qed (use apply_update_rows [OF assms] in blast)+

theorem event_never_overreaches_witness:
  "\<exists>row'. get_subscription (snd (apply_update (3, None) (example_update ''evt_2'' 200 FREE ''canceled'' ''sub_2'' 0)
      (snd (apply_update (1, None) (example_update ''evt_1'' 100 TIER_2 ''active'' ''sub_1'' 90) one_account)))) 7 = Some row' \<and>
    sub_plan row' = TIER_2"
proof -
  let ?u = "example_update ''evt_2'' 200 FREE ''canceled'' ''sub_2'' 0"
  let ?db = "snd (apply_update (1, None) (example_update ''evt_1'' 100 TIER_2 ''active'' ''sub_1'' 90) one_account)"
  have uniq: "unique_users ?db" by code_simp
  have "\<exists>row. get_subscription ?db 7 = Some row \<and> is_stale row ?u \<and> sub_plan row = TIER_2"
  proof -
    have "(case get_subscription ?db 7 of None \<Rightarrow> False | Some row \<Rightarrow> is_stale row ?u \<and> sub_plan row = TIER_2)"
      by code_simp
    then show ?thesis by (auto split: option.splits)
  qed
  then obtain row where row: "get_subscription ?db 7 = Some row" "is_stale row ?u" "sub_plan row = TIER_2"
    by blast
  obtain changed db' where run: "apply_update (3, None) ?u ?db = (changed, db')" by fastforce
  obtain row' where "get_subscription db' 7 = Some row'" "sub_plan row' = sub_plan row"
    using event_never_overreaches [OF uniq run] row by blast
  then show ?thesis using row(3) run by simp
qed



text \<open>A refused contract can start late. Only the subscription judged last is remembered, so after a
  second subscription was refused because the first was running, one more event of the first makes
  the second eligible again: once the first has ended, the second's next event starts a contract.\<close>

theorem refused_contract_starts_late:
  "let s1 = \<lambda>eid ts. example_update eid ts TIER_1 ''active'' ''sub_1'' 100;
       s2 = \<lambda>eid ts. example_update eid ts TIER_2 ''active'' ''sub_2'' 200;
       first = [((100, Some False), s1 ''evt_1'' 100), ((200, Some True), s2 ''evt_2'' 200)];
       rest = [((300, Some True), s1 ''evt_3'' 300),
               ((400, None), example_update ''evt_4'' 400 FREE ''canceled'' ''sub_1'' 0),
               ((500, Some False), s2 ''evt_5'' 500)] in
   map_option sub_contract_subscription_id (get_subscription (run_updates first one_account) 7) = Some ''sub_1'' \<and>
   map_option sub_contract_checked_subscription_id (get_subscription (run_updates first one_account) 7) = Some ''sub_2'' \<and>
   map_option sub_contract_subscription_id (get_subscription (run_updates (first @ rest) one_account) 7) = Some ''sub_2''"
  by code_simp

text \<open>An event can be applied twice. Two events of the same second are not ordered by their time and
  only the last one's id is kept, so redelivering the first after the second applies it again and
  puts its older plan back.\<close>

theorem same_second_event_applied_twice:
  "let a = example_update ''evt_a'' 100 TIER_1 ''active'' ''sub_1'' 90;
       b = example_update ''evt_b'' 100 TIER_2 ''active'' ''sub_1'' 90;
       db = run_updates [((1, None), a), ((2, None), b)] one_account in
   map_option sub_plan (get_subscription db 7) = Some TIER_2 \<and>
   fst (apply_update (3, None) a db) \<and>
   map_option sub_plan (get_subscription (snd (apply_update (3, None) a db)) 7) = Some TIER_1"
  by code_simp

text \<open>A schedule whose coming phase has no price is reported as a change at every delivery: the stored
  date stays 0 and never equals the phase's.\<close>

lemma empty_schedule_always_reports_change:
  assumes "by_customer db (sc_customer_id u) = Some row" "sc_plan u = ''''" "sc_effective_at u \<noteq> 0"
    and "sub_pending_plan row = ''''" "sub_pending_plan_at row = 0"
    and "sc_subscription_id u \<in> {'''', sub_provider_subscription_id row}"
  shows "fst (apply_schedule now u db)"
  using assms by (auto simp: apply_schedule_def)

end
