(* ===== verification/Withdrawal.thy ===== *)
theory Withdrawal
  imports Refunds Subscriptions
begin

text \<open>
  \<open>src/billing/withdrawal.py\<close> with the data of \<open>src/billing/gateway.py\<close>: the refund ledger that makes
  a refund happen once.

  The state \<open>world\<close> is the database, the clock, the supply of claim tokens (\<open>uuid4\<close>) and the list of
  refunds the provider was asked to issue. A gateway is a record of functions on the world: its reply
  is arbitrary, and during the call the world may move on, which is how other requests that run
  meanwhile are represented. A database transaction of the code is one atomic function; an exception
  is the \<open>Inl\<close> side, returned with the world it left behind.
\<close>

subsection \<open>gateway.py\<close>

datatype gateway_error =
    GatewayError string
  | PermanentGatewayError string
  | IdempotencyConflict string
  | CustomerGone string

text \<open>\<open>CustomerGone\<close> is a subclass of \<open>PermanentGatewayError\<close>.\<close>

fun is_permanent :: "gateway_error \<Rightarrow> bool" where
  "is_permanent (PermanentGatewayError _) = True"
| "is_permanent (CustomerGone _) = True"
| "is_permanent _ = False"

fun error_text :: "gateway_error \<Rightarrow> string" where
  "error_text (GatewayError s) = s"
| "error_text (PermanentGatewayError s) = s"
| "error_text (IdempotencyConflict s) = s"
| "error_text (CustomerGone s) = s"

record IssuedRefund =
  ir_credit_note_id :: string
  ir_refund_id :: string

record RefundPlan =
  rp_send_cents :: int
  rp_owed_cents :: int
  rp_reason :: string
  rp_existing_note_id :: string
  rp_existing_cents :: int
  rp_existing_refund_id :: string

definition refund_plan_of :: "int \<Rightarrow> RefundPlan" where
  "refund_plan_of send =
     \<lparr>rp_send_cents = send, rp_owed_cents = 0, rp_reason = '''', rp_existing_note_id = '''',
      rp_existing_cents = 0, rp_existing_refund_id = ''''\<rparr>"

record RefundBasis =
  rb_subscription_id :: string
  rb_ended_at :: seconds
  rb_invoice_id :: string
  rb_amount_paid :: int
  rb_currency :: string
  rb_period_start :: seconds
  rb_period_end :: seconds
  rb_total :: int

record refund_call =
  rc_subscription :: string
  rc_amount :: int
  rc_key :: string
  rc_invoice :: string
  rc_attempt :: int

record world =
  wd_db :: billing_db
  wd_clock :: seconds
  wd_tokens :: nat
  wd_sent :: "refund_call list"

type_synonym 'a gateway_op = "world \<Rightarrow> (gateway_error, 'a) result \<times> world"

record BillingGateway =
  gw_discard_pending_items :: "string \<Rightarrow> string \<Rightarrow> int gateway_op"
  gw_refund_basis :: "string \<Rightarrow> string \<Rightarrow> RefundBasis gateway_op"
  gw_refund_plan :: "string \<Rightarrow> int \<Rightarrow> string \<Rightarrow> string \<Rightarrow> RefundPlan gateway_op"
  gw_issue_refund :: "string \<Rightarrow> int \<Rightarrow> string \<Rightarrow> string \<Rightarrow> int \<Rightarrow> IssuedRefund gateway_op"
  gw_cancel_subscription :: "string \<Rightarrow> string \<Rightarrow> unit gateway_op"

subsection \<open>States, errors and the ledger\<close>

definition PENDING :: string where "PENDING = ''pending''"
definition DONE :: string where "DONE = ''done''"
definition OWED :: string where "OWED = ''owed''"
definition SETTLED :: string where "SETTLED = ''settled''"
definition FINAL :: "string set" where "FINAL = {DONE, OWED, SETTLED}"

lemmas refund_states = PENDING_def DONE_def OWED_def SETTLED_def

definition LEASE_SECONDS :: seconds where "LEASE_SECONDS = 15 * 60"
definition CANCEL_BOUND_SECONDS :: seconds where "CANCEL_BOUND_SECONDS = 10 * 60"

datatype withdrawal_error =
    RefundInProgress
  | LostClaim
  | AccountGone
  | NotEligible
  | Gateway gateway_error

type_synonym 'a action = "world \<Rightarrow> (withdrawal_error, 'a) result \<times> world"

record Refund =
  amount_cents :: int
  currency :: string
  owed_cents :: int

definition ledger :: "world \<Rightarrow> SubscriptionRefund list" where
  "ledger w = bd_refunds (wd_db w)"

definition set_ledger :: "SubscriptionRefund list \<Rightarrow> world \<Rightarrow> world" where
  "set_ledger rows w = w\<lparr>wd_db := (wd_db w)\<lparr>bd_refunds := rows\<rparr>\<rparr>"

definition refund_row :: "string \<Rightarrow> world \<Rightarrow> SubscriptionRefund option" where
  "refund_row sid w = get_refund sid (ledger w)"

text \<open>The next token of the supply: \<open>uuid.uuid4().hex\<close>, never the same twice.\<close>

definition next_token :: "world \<Rightarrow> string" where
  "next_token w = ''token-'' @ show_nat (wd_tokens w)"

definition refund_key :: "string \<Rightarrow> string" where
  "refund_key sid = ''traxjourney-unused-period-refund-'' @ sid"

definition ledger_state :: "world \<Rightarrow> string \<Rightarrow> string" where
  "ledger_state w sid =
     (if sid = '''' then ''''
      else case refund_row sid w of None \<Rightarrow> '''' | Some row \<Rightarrow> rf_state row)"

definition pending_refunds :: "world \<Rightarrow> string \<Rightarrow> SubscriptionRefund list" where
  "pending_refunds w customer =
     (if customer = '''' then []
      else filter (\<lambda>r. rf_customer_id r = customer \<and> rf_state r = PENDING) (ledger w))"

definition outcome :: "SubscriptionRefund \<Rightarrow> Refund" where
  "outcome row = \<lparr>amount_cents = rf_refunded row, currency = rf_currency row,
     owed_cents = (if rf_state row = OWED then rf_owed row else 0)\<rparr>"

subsection \<open>The ledger's transactions\<close>

definition take_claim :: "SubscriptionRefund \<Rightarrow> (SubscriptionRefund option \<times> string) action" where
  "take_claim row w =
     (let token = next_token w;
          row' = row\<lparr>rf_claim_token := token, rf_lease_until := wd_clock w + LEASE_SECONDS,
                     rf_updated_at := wd_clock w, rf_version := rf_version row + 1\<rparr> in
      (Inr (Some row', token),
       (set_ledger (put_refund row' (ledger w)) w)\<lparr>wd_tokens := wd_tokens w + 1\<rparr>))"

definition claim ::
  "int \<Rightarrow> string \<Rightarrow> string \<Rightarrow> seconds \<Rightarrow> seconds \<Rightarrow> bool \<Rightarrow> (SubscriptionRefund option \<times> string) action" where
  "claim uid customer sid contract_start requested_at create w =
     (case refund_row sid w of
        None \<Rightarrow>
          if \<not> create then (Inr (None, ''''), w)
          else if uid \<notin> set (bd_accounts (wd_db w)) then (Inl AccountGone, w)
          else take_claim (new_refund sid customer contract_start requested_at (wd_clock w)) w
      | Some row \<Rightarrow>
          if rf_state row \<in> FINAL then (Inr (Some row, ''''), w)
          else if rf_lease_until row > wd_clock w then (Inl RefundInProgress, w)
          else take_claim row w)"

text \<open>\<open>_save\<close>: the fields are given as the function that sets them.\<close>

definition save :: "string \<Rightarrow> string \<Rightarrow> (SubscriptionRefund \<Rightarrow> SubscriptionRefund) \<Rightarrow> SubscriptionRefund action" where
  "save sid token upd w =
     (case refund_row sid w of
        None \<Rightarrow> (Inl LostClaim, w)
      | Some row \<Rightarrow>
          if rf_claim_token row \<noteq> token then (Inl LostClaim, w)
          else (let row' = (upd row)\<lparr>rf_updated_at := wd_clock w, rf_version := rf_version row + 1\<rparr> in
                (Inr row', set_ledger (put_refund row' (ledger w)) w)))"

definition release_claim :: "SubscriptionRefund \<Rightarrow> SubscriptionRefund" where
  "release_claim r = r\<lparr>rf_lease_until := 0, rf_claim_token := ''''\<rparr>"

definition release :: "string \<Rightarrow> string \<Rightarrow> world \<Rightarrow> world" where
  "release sid token w = snd (save sid token release_claim w)"

definition forget :: "string \<Rightarrow> string \<Rightarrow> world \<Rightarrow> world" where
  "forget sid token w =
     (case refund_row sid w of
        None \<Rightarrow> w
      | Some row \<Rightarrow>
          if rf_claim_token row = token \<and> rf_amount row < 0
          then set_ledger (filter (\<lambda>r. rf_subscription_id r \<noteq> sid) (ledger w)) w else w)"

definition finish_fields ::
  "int \<Rightarrow> string \<Rightarrow> int \<Rightarrow> string \<Rightarrow> string \<Rightarrow> bool \<Rightarrow> SubscriptionRefund \<Rightarrow> SubscriptionRefund" where
  "finish_fields refunded note_id owed reason refund_id owed_anyway r =
     r\<lparr>rf_state := (if owed > 0 \<or> owed_anyway then OWED else DONE), rf_refunded := refunded,
       rf_credit_note_id := note_id, rf_refund_id := refund_id, rf_owed := owed, rf_reason := reason,
       rf_lease_until := 0, rf_claim_token := ''''\<rparr>"

definition finish ::
  "SubscriptionRefund \<Rightarrow> string \<Rightarrow> int \<Rightarrow> string \<Rightarrow> int \<Rightarrow> string \<Rightarrow> string \<Rightarrow> bool \<Rightarrow> Refund action" where
  "finish row token refunded note_id owed reason refund_id owed_anyway w =
     (case save (rf_subscription_id row) token
             (finish_fields refunded note_id owed reason refund_id owed_anyway) w of
        (Inl e, w') \<Rightarrow> (Inl e, w')
      | (Inr row', w') \<Rightarrow> (Inr (outcome row'), w'))"

subsection \<open>Asking the provider\<close>

definition send_refund ::
  "BillingGateway \<Rightarrow> SubscriptionRefund \<Rightarrow> IssuedRefund gateway_op" where
  "send_refund g row w =
     (let call = \<lparr>rc_subscription = rf_subscription_id row, rc_amount = rf_to_refund row,
                  rc_key = refund_key (rf_subscription_id row), rc_invoice = rf_invoice_id row,
                  rc_attempt = rf_attempt row\<rparr> in
      gw_issue_refund g (rc_subscription call) (rc_amount call) (rc_key call) (rc_invoice call)
        (rc_attempt call) (w\<lparr>wd_sent := call # wd_sent w\<rparr>))"

text \<open>\<open>_issue\<close>: on a key conflict, once more under a new key.\<close>

definition issue ::
  "BillingGateway \<Rightarrow> SubscriptionRefund \<Rightarrow> string \<Rightarrow> IssuedRefund action" where
  "issue g row token w =
     (case send_refund g row w of
        (Inr issued, w1) \<Rightarrow> (Inr issued, w1)
      | (Inl (IdempotencyConflict s), w1) \<Rightarrow>
          (case save (rf_subscription_id row) token (\<lambda>r. r\<lparr>rf_attempt := rf_attempt row + 1\<rparr>) w1 of
             (Inl e, w2) \<Rightarrow> (Inl e, w2)
           | (Inr row', w2) \<Rightarrow>
               (case send_refund g row' w2 of
                  (Inr issued, w3) \<Rightarrow> (Inr issued, w3)
                | (Inl e, w3) \<Rightarrow> (Inl (Gateway e), w3)))
      | (Inl e, w1) \<Rightarrow> (Inl (Gateway e), w1))"

subsection \<open>request_withdrawal\<close>

definition stamp_attempt :: "seconds \<Rightarrow> SubscriptionRefund \<Rightarrow> SubscriptionRefund" where
  "stamp_attempt now r = r\<lparr>rf_cancel_attempted_at := now, rf_lease_until := 0, rf_claim_token := ''''\<rparr>"

text \<open>The \<open>try\<close> block: the contract's invoice is frozen, then the attempt is stamped.\<close>

definition freeze_invoice :: "BillingGateway \<Rightarrow> string \<Rightarrow> string \<Rightarrow> SubscriptionRefund \<Rightarrow> unit action" where
  "freeze_invoice g sid token row w =
     (let stamp = (\<lambda>w'. case save sid token (stamp_attempt (wd_clock w')) w' of
                          (Inl e, w'') \<Rightarrow> (Inl e, w'') | (Inr _, w'') \<Rightarrow> (Inr (), w'')) in
      if rf_invoice_id row = '''' \<and> rf_amount row < 0 then
        (case gw_refund_basis g sid '''' w of
           (Inl e, w1) \<Rightarrow> (Inl (Gateway e), w1)
         | (Inr basis, w1) \<Rightarrow>
             if rb_invoice_id basis \<noteq> '''' then
               (case save sid token (\<lambda>r. r\<lparr>rf_invoice_id := rb_invoice_id basis,
                                           rf_currency := rb_currency basis\<rparr>) w1 of
                  (Inl e, w2) \<Rightarrow> (Inl e, w2)
                | (Inr _, w2) \<Rightarrow> stamp w2)
             else stamp w1)
      else stamp w)"

definition request_withdrawal ::
  "BillingGateway \<Rightarrow> int \<Rightarrow> string \<Rightarrow> string \<Rightarrow> seconds \<Rightarrow> seconds \<Rightarrow> string action" where
  "request_withdrawal g uid customer sid contract_start requested_at w =
     (case claim uid customer sid contract_start requested_at True w of
        (Inl e, w1) \<Rightarrow> (Inl e, w1)
      | (Inr (None, token), w1) \<Rightarrow> (Inr '''', w1)
      | (Inr (Some row, token), w1) \<Rightarrow>
          if token = '''' then (Inr (rf_state row), w1)
          else (case freeze_invoice g sid token row w1 of
                  (Inr _, w2) \<Rightarrow> (Inr PENDING, w2)
                | (Inl (Gateway e), w2) \<Rightarrow>
                    if is_permanent e
                    then (case save sid token (stamp_attempt (wd_clock w2)) w2 of
                            (Inl e', w3) \<Rightarrow> (Inl e', w3) | (Inr _, w3) \<Rightarrow> (Inr PENDING, w3))
                    else (Inl (Gateway e), release sid token w2)
                | (Inl e, w2) \<Rightarrow> (Inl e, w2)))"

subsection \<open>settle\<close>

text \<open>What stands against an automatic refund, and the instant it is measured at.\<close>

definition settle_problem :: "SubscriptionRefund \<Rightarrow> RefundBasis \<Rightarrow> string \<times> seconds" where
  "settle_problem row basis =
     (let attempted = (if rf_cancel_attempted_at row \<noteq> 0 then rf_cancel_attempted_at row else rf_requested_at row) in
      if rb_ended_at basis > attempted + CANCEL_BOUND_SECONDS then
        (''the cancellation landed '' @ show_int (trunc_rat (rb_ended_at basis - attempted)) @
         '' s after it was attempted; check it before refunding'', rb_ended_at basis)
      else if rb_period_start basis > rf_requested_at row then
        (''the subscription renewed ('' @ rb_invoice_id basis @ '') after the withdrawal was asked for: '' @
         ''refund the renewal, and the unused part of the invoice before it (measured at the '' @
         ''request, not computed here), by hand'', rf_requested_at row)
      else if rf_invoice_id row \<noteq> '''' \<and> rb_period_end basis \<noteq> 0 \<and> rb_ended_at basis > rb_period_end basis then
        (''the subscription renewed after the withdrawal was asked for: refund the renewal and the '' @
         ''unused part (measured at the request) by hand'', rf_requested_at row)
      else ('''', rb_ended_at basis))"

definition basis_total :: "RefundBasis \<Rightarrow> int" where
  "basis_total basis = (if rb_total basis \<noteq> 0 then rb_total basis else rb_amount_paid basis)"

definition freeze_amount :: "RefundBasis \<Rightarrow> seconds \<Rightarrow> SubscriptionRefund \<Rightarrow> SubscriptionRefund" where
  "freeze_amount basis measured_at r =
     r\<lparr>rf_amount := prorated_refund_amount (rb_period_start basis) (rb_period_end basis)
                      (basis_total basis) measured_at,
       rf_invoice_id := rb_invoice_id basis, rf_currency := rb_currency basis\<rparr>"

text \<open>
  The two blocks of the \<open>try\<close>. Each returns the value of the local variable \<open>row\<close> when it ends or
  raises, since the exception handlers read it; \<open>Some\<close> is a \<open>return\<close> from the function.
\<close>

definition settle_freeze ::
  "BillingGateway \<Rightarrow> string \<Rightarrow> string \<Rightarrow> seconds \<Rightarrow> SubscriptionRefund \<times> world \<Rightarrow>
     (withdrawal_error, Refund option) result \<times> SubscriptionRefund \<times> world" where
  "settle_freeze g sid token contract_start s =
     (case s of (row, w) \<Rightarrow>
      if rf_amount row \<ge> 0 then (Inr None, row, w)
      else
        let start = (if rf_contract_started_at row \<noteq> 0 then rf_contract_started_at row else contract_start) in
        if \<not> withdrawal_window_open start (rf_requested_at row) then (Inl NotEligible, row, w)
        else case gw_refund_basis g sid (rf_invoice_id row) w of
          (Inl e, w1) \<Rightarrow> (Inl (Gateway e), row, w1)
        | (Inr basis, w1) \<Rightarrow>
            if rb_ended_at basis = 0
            then (Inl (Gateway (GatewayError (sid @ '' has not ended at Stripe yet''))), row, w1)
            else
              (case settle_problem row basis of (problem, measured_at) \<Rightarrow>
               case save sid token (freeze_amount basis measured_at) w1 of
                 (Inl e, w2) \<Rightarrow> (Inl e, row, w2)
               | (Inr row', w2) \<Rightarrow>
                   if problem \<noteq> ''''
                   then (case finish row' token 0 '''' (rf_amount row') problem '''' True w2 of
                           (Inl e, w3) \<Rightarrow> (Inl e, row', w3)
                         | (Inr r, w3) \<Rightarrow> (Inr (Some r), row', w3))
                   else (Inr None, row', w2)))"

definition plan_fields :: "RefundPlan \<Rightarrow> SubscriptionRefund \<Rightarrow> SubscriptionRefund" where
  "plan_fields plan r =
     r\<lparr>rf_to_refund := rp_send_cents plan, rf_owed := rp_owed_cents plan, rf_reason := rp_reason plan\<rparr>"

definition settle_plan ::
  "BillingGateway \<Rightarrow> string \<Rightarrow> string \<Rightarrow> SubscriptionRefund \<times> world \<Rightarrow>
     (withdrawal_error, Refund option) result \<times> SubscriptionRefund \<times> world" where
  "settle_plan g sid token s =
     (case s of (row, w) \<Rightarrow>
      if rf_to_refund row \<ge> 0 then (Inr None, row, w)
      else case (if rf_amount row = 0 then (Inr (refund_plan_of 0), w)
                 else gw_refund_plan g sid (rf_amount row) (refund_key sid) (rf_invoice_id row) w) of
        (Inl e, w1) \<Rightarrow> (Inl (Gateway e), row, w1)
      | (Inr plan, w1) \<Rightarrow>
          if rp_existing_note_id plan \<noteq> ''''
          then (case finish row token (rp_existing_cents plan) (rp_existing_note_id plan)
                       (rp_owed_cents plan) (rp_reason plan) (rp_existing_refund_id plan) False w1 of
                  (Inl e, w2) \<Rightarrow> (Inl e, row, w2)
                | (Inr r, w2) \<Rightarrow> (Inr (Some r), row, w2))
          else (case save sid token (plan_fields plan) w1 of
                  (Inl e, w2) \<Rightarrow> (Inl e, row, w2)
                | (Inr row', w2) \<Rightarrow> (Inr None, row', w2)))"

definition settle_issue ::
  "BillingGateway \<Rightarrow> string \<Rightarrow> SubscriptionRefund \<Rightarrow> IssuedRefund action" where
  "settle_issue g token row w =
     (if rf_to_refund row > 0 then issue g row token w
      else (Inr \<lparr>ir_credit_note_id = '''', ir_refund_id = ''''\<rparr>, w))"

text \<open>The exception handlers, on the local variable \<open>row\<close>.\<close>

definition settle_except ::
  "string \<Rightarrow> string \<Rightarrow> withdrawal_error \<Rightarrow> SubscriptionRefund \<Rightarrow> Refund action" where
  "settle_except sid token e row w =
     (case e of
        Gateway ge \<Rightarrow>
          if is_permanent ge then
            (let owed = (if rf_to_refund row \<ge> 0 then max 0 (rf_to_refund row) + rf_owed row
                         else max 0 (rf_amount row));
                 reason = take 500 (error_text ge) @
                   (if rf_amount row < 0
                    then '' (amount unknown: see the subscription's last invoice)'' else '''') in
             finish row token 0 '''' owed reason '''' True w)
          else (Inl e, release sid token w)
      | NotEligible \<Rightarrow> (Inl e, forget sid token w)
      | _ \<Rightarrow> (Inl e, w))"

text \<open>The body after the claim, in the order of the code: send, plan and send, everything.\<close>

definition settle_send :: "BillingGateway \<Rightarrow> string \<Rightarrow> string \<Rightarrow> SubscriptionRefund \<Rightarrow> Refund action" where
  "settle_send g sid token row w =
     (case settle_issue g token row w of
        (Inl e, w1) \<Rightarrow> settle_except sid token e row w1
      | (Inr issued, w1) \<Rightarrow>
          finish row token (max 0 (rf_to_refund row)) (ir_credit_note_id issued)
            (rf_owed row) (rf_reason row) (ir_refund_id issued) False w1)"

definition settle_frozen :: "BillingGateway \<Rightarrow> string \<Rightarrow> string \<Rightarrow> SubscriptionRefund \<Rightarrow> Refund action" where
  "settle_frozen g sid token row w =
     (case settle_plan g sid token (row, w) of
        (Inl e, row1, w1) \<Rightarrow> settle_except sid token e row1 w1
      | (Inr (Some r), row1, w1) \<Rightarrow> (Inr r, w1)
      | (Inr None, row1, w1) \<Rightarrow> settle_send g sid token row1 w1)"

definition settle_claimed ::
  "BillingGateway \<Rightarrow> string \<Rightarrow> string \<Rightarrow> string \<Rightarrow> seconds \<Rightarrow> SubscriptionRefund \<Rightarrow> Refund action" where
  "settle_claimed g customer sid token contract_start row w =
     (case gw_discard_pending_items g customer sid w of
        (Inl e, w1) \<Rightarrow> settle_except sid token (Gateway e) row w1
      | (Inr _, w1) \<Rightarrow>
          (case settle_freeze g sid token contract_start (row, w1) of
             (Inl e, row1, w2) \<Rightarrow> settle_except sid token e row1 w2
           | (Inr (Some r), row1, w2) \<Rightarrow> (Inr r, w2)
           | (Inr None, row1, w2) \<Rightarrow> settle_frozen g sid token row1 w2))"

definition settle ::
  "BillingGateway \<Rightarrow> int \<Rightarrow> string \<Rightarrow> string \<Rightarrow> seconds \<Rightarrow> seconds \<Rightarrow> Refund action" where
  "settle g uid customer sid contract_start requested_at w =
     (case claim uid customer sid contract_start requested_at True w of
        (Inl e, w1) \<Rightarrow> (Inl e, w1)
      | (Inr (None, token), w1) \<Rightarrow> (Inl AccountGone, w1)
      | (Inr (Some row, token), w1) \<Rightarrow>
          if token = '''' then (Inr (outcome row), w1)
          else settle_claimed g customer sid token contract_start row w1)"

subsection \<open>finish_pending, resolve_pending and the refund that fails later\<close>

text \<open>The loop of \<open>finish_pending\<close>; a row that is no longer eligible is skipped.\<close>

fun finish_rows ::
  "BillingGateway \<Rightarrow> int \<Rightarrow> string \<Rightarrow> (string \<times> seconds \<times> seconds) list \<Rightarrow> Refund list action" where
  "finish_rows g uid customer [] w = (Inr [], w)"
| "finish_rows g uid customer ((sid, start, requested_at) # rest) w =
     (let skip = (\<lambda>w'. finish_rows g uid customer rest w') in
      case request_withdrawal g uid customer sid start requested_at w of
        (Inl NotEligible, w1) \<Rightarrow> skip w1
      | (Inl e, w1) \<Rightarrow> (Inl e, w1)
      | (Inr _, w1) \<Rightarrow>
          (case gw_cancel_subscription g sid customer w1 of
             (Inl e, w2) \<Rightarrow> (Inl (Gateway e), w2)
           | (Inr _, w2) \<Rightarrow>
               (case settle g uid customer sid start requested_at w2 of
                  (Inl NotEligible, w3) \<Rightarrow> skip w3
                | (Inl e, w3) \<Rightarrow> (Inl e, w3)
                | (Inr r, w3) \<Rightarrow>
                    (case skip w3 of
                       (Inl e, w4) \<Rightarrow> (Inl e, w4)
                     | (Inr rs, w4) \<Rightarrow> (Inr (r # rs), w4)))))"

definition finish_pending :: "BillingGateway \<Rightarrow> int \<Rightarrow> string \<Rightarrow> string \<Rightarrow> Refund list action" where
  "finish_pending g uid customer skip w =
     finish_rows g uid customer
       (map (\<lambda>r. (rf_subscription_id r, rf_contract_started_at r, rf_requested_at r))
          (filter (\<lambda>r. rf_subscription_id r \<noteq> skip) (pending_refunds w customer))) w"

definition owner_account :: "billing_db \<Rightarrow> string \<Rightarrow> int" where
  "owner_account db customer =
     (case by_customer db customer of None \<Rightarrow> 0 | Some row \<Rightarrow> sub_user_info_id row)"

definition resolve_pending :: "BillingGateway \<Rightarrow> string \<Rightarrow> string action" where
  "resolve_pending g sid w =
     (case refund_row sid w of
        None \<Rightarrow> (Inr '''', w)
      | Some row0 \<Rightarrow>
     (case claim (owner_account (wd_db w) (rf_customer_id row0)) (rf_customer_id row0) sid
             (rf_contract_started_at row0) (rf_requested_at row0) False w of
        (Inl e, w1) \<Rightarrow> (Inl e, w1)
      | (Inr (None, token), w1) \<Rightarrow> (Inr '''', w1)
      | (Inr (Some row, token), w1) \<Rightarrow>
          if token = '''' then (Inr (rf_state row), w1)
          else if rf_to_refund row > 0 then
            (case gw_refund_plan g sid (rf_amount row) (refund_key sid) (rf_invoice_id row) w1 of
               (Inl e, w2) \<Rightarrow> (Inl (Gateway e), release sid token w2)
             | (Inr plan, w2) \<Rightarrow>
                 if rp_existing_note_id plan \<noteq> ''''
                 then (case finish row token (rp_existing_cents plan) (rp_existing_note_id plan)
                              (rp_owed_cents plan) (rp_reason plan) (rp_existing_refund_id plan) False w2 of
                         (Inl e, w3) \<Rightarrow> (Inl e, w3)
                       | (Inr _, w3) \<Rightarrow> (Inr (ledger_state w3 sid), w3))
                 else (Inr PENDING, release sid token w2))
          else (Inr PENDING, release sid token w1)))"

definition APPLIED :: string where "APPLIED = ''applied''"
definition RECORDED :: string where "RECORDED = ''recorded''"
definition UNMATCHED :: string where "UNMATCHED = ''unmatched''"

definition fail_fields :: "string \<Rightarrow> int \<Rightarrow> string \<Rightarrow> seconds \<Rightarrow> SubscriptionRefund \<Rightarrow> SubscriptionRefund" where
  "fail_fields refund_id amount reason now row =
     (let failed = min (max 0 (if amount \<noteq> 0 then amount else rf_refunded row)) (rf_refunded row);
          why = ''the refund failed after it was made: '' @ (if reason = '''' then ''no reason given'' else reason) in
      row\<lparr>rf_owed := (if rf_state row = SETTLED then failed else rf_owed row + failed),
          rf_refunded := rf_refunded row - failed, rf_state := OWED, rf_refund_id := '''',
          rf_failed_refund_id := refund_id,
          rf_reason := (if rf_state row = SETTLED
                        then why @ '' (after '' @ show_int (rf_owed row) @ '' cents were settled by hand)'' else why),
          rf_updated_at := now, rf_version := rf_version row + 1\<rparr>)"

text \<open>\<open>record_refund_failure\<close>; nothing happens between its two transactions here.\<close>

definition record_refund_failure :: "string \<Rightarrow> int \<Rightarrow> string \<Rightarrow> world \<Rightarrow> string \<times> world" where
  "record_refund_failure refund_id amount reason w =
     (if refund_id = '''' then (UNMATCHED, w)
      else case find (\<lambda>r. rf_refund_id r = refund_id) (ledger w) of
             None \<Rightarrow>
               (if \<exists>r\<in>set (ledger w). rf_failed_refund_id r = refund_id then RECORDED else UNMATCHED, w)
           | Some row \<Rightarrow>
               (APPLIED, set_ledger (put_refund (fail_fields refund_id amount reason (wd_clock w) row) (ledger w)) w))"

record Quote =
  q_to_card_cents :: int
  q_owed_cents :: int
  q_currency :: string

definition refund_quote :: "BillingGateway \<Rightarrow> string \<Rightarrow> seconds \<Rightarrow> string \<Rightarrow> seconds \<Rightarrow> Quote action" where
  "refund_quote g sid now invoice requested_at w =
     (case gw_refund_basis g sid invoice w of
        (Inl e, w1) \<Rightarrow> (Inl (Gateway e), w1)
      | (Inr basis, w1) \<Rightarrow>
          let measured_at = (if rb_ended_at basis \<noteq> 0 then rb_ended_at basis else now);
              unused = prorated_refund_amount (rb_period_start basis) (rb_period_end basis) (basis_total basis) in
          if requested_at \<noteq> 0 \<and> (rb_period_start basis > requested_at \<or>
               invoice \<noteq> '''' \<and> rb_period_end basis \<noteq> 0 \<and> measured_at > rb_period_end basis)
          then (Inr \<lparr>q_to_card_cents = 0, q_owed_cents = unused requested_at, q_currency = rb_currency basis\<rparr>, w1)
          else if unused measured_at \<le> 0 \<or> rb_invoice_id basis = ''''
          then (Inr \<lparr>q_to_card_cents = 0, q_owed_cents = 0, q_currency = rb_currency basis\<rparr>, w1)
          else case gw_refund_plan g sid (unused measured_at) (refund_key sid) (rb_invoice_id basis) w1 of
                 (Inl e, w2) \<Rightarrow> (Inl (Gateway e), w2)
               | (Inr plan, w2) \<Rightarrow>
                   (Inr \<lparr>q_to_card_cents = (if rp_existing_note_id plan \<noteq> '''' then rp_existing_cents plan
                                             else rp_send_cents plan),
                          q_owed_cents = rp_owed_cents plan, q_currency = rb_currency basis\<rparr>, w2))"

end
