(* ===== verification/WithdrawalSafety.thy ===== *)
theory WithdrawalSafety
  imports Withdrawal
begin

text \<open>
  Safety of the refund ledger under interference. Requests act on the ledger through atomic
  transactions; \<open>ledger_step t\<close> is what any of them, holding claim token \<open>t\<close>, may do to the world.
  Part one: every such step keeps the invariant \<open>ledger_ok\<close> (amounts are conserved, and whatever was
  sent to the provider agrees with what is frozen in the ledger). Part two: the operations of the
  code, with other requests running during their provider calls, only make such steps.
\<close>

subsection \<open>The invariant\<close>

definition is_final :: "SubscriptionRefund \<Rightarrow> bool" where
  "is_final r = (rf_state r \<in> FINAL)"

text \<open>
  A final row holds no claim; a pending one has refunded nothing and, once planned, owes and sends
  together at most the frozen amount; in every state what was refunded and what is owed add up to at
  most the frozen amount.
\<close>

definition row_ok :: "SubscriptionRefund \<Rightarrow> bool" where
  "row_ok r =
     ((is_final r \<longrightarrow> rf_claim_token r = '''') \<and>
      (\<not> is_final r \<longrightarrow> rf_refund_id r = '''' \<and> rf_refunded r = 0 \<and>
         (if rf_to_refund r < 0 then rf_owed r = 0 else rf_to_refund r + rf_owed r \<le> rf_amount r)) \<and>
      (0 \<le> rf_to_refund r \<longrightarrow> 0 \<le> rf_amount r) \<and>
      0 \<le> rf_refunded r \<and> 0 \<le> rf_owed r \<and> rf_refunded r + rf_owed r \<le> max 0 (rf_amount r))"

definition frozen_in :: "refund_call \<Rightarrow> world \<Rightarrow> bool" where
  "frozen_in c w =
     (\<exists>r. refund_row (rc_subscription c) w = Some r \<and> rf_to_refund r = rc_amount c \<and>
        rf_invoice_id r = rc_invoice c \<and> rc_attempt c \<le> rf_attempt r \<and> 0 < rc_amount c \<and>
        rc_key c = refund_key (rc_subscription c))"

definition ledger_ok :: "world \<Rightarrow> bool" where
  "ledger_ok w =
     ((\<forall>sid r. refund_row sid w = Some r \<longrightarrow> row_ok r) \<and> (\<forall>c\<in>set (wd_sent w). frozen_in c w))"

subsection \<open>What requests may do\<close>

text \<open>The fields that stay once they are set.\<close>

definition keeps_frozen :: "SubscriptionRefund \<Rightarrow> SubscriptionRefund \<Rightarrow> bool" where
  "keeps_frozen r r' =
     (rf_subscription_id r' = rf_subscription_id r \<and> rf_attempt r \<le> rf_attempt r' \<and>
      (0 \<le> rf_amount r \<longrightarrow> rf_amount r' = rf_amount r \<and> rf_invoice_id r' = rf_invoice_id r) \<and>
      (0 \<le> rf_to_refund r \<longrightarrow> rf_to_refund r' = rf_to_refund r))"

inductive ledger_step :: "string \<Rightarrow> world \<Rightarrow> world \<Rightarrow> bool" where
  elapse: "ledger w' = ledger w \<Longrightarrow> wd_sent w' = wd_sent w \<Longrightarrow> ledger_step t w w'"
| open_row: "refund_row (rf_subscription_id r') w = None \<Longrightarrow> rf_claim_token r' = t \<Longrightarrow> t \<noteq> '''' \<Longrightarrow>
     row_ok r' \<Longrightarrow> ledger w' = put_refund r' (ledger w) \<Longrightarrow> wd_sent w' = wd_sent w \<Longrightarrow> ledger_step t w w'"
| take_row: "refund_row (rf_subscription_id r') w = Some r \<Longrightarrow> \<not> is_final r \<Longrightarrow> rf_claim_token r' = t \<Longrightarrow>
     t \<noteq> '''' \<Longrightarrow> keeps_frozen r r' \<Longrightarrow> row_ok r' \<Longrightarrow>
     ledger w' = put_refund r' (ledger w) \<Longrightarrow> wd_sent w' = wd_sent w \<Longrightarrow> ledger_step t w w'"
| write_row: "refund_row (rf_subscription_id r') w = Some r \<Longrightarrow> rf_claim_token r = t \<Longrightarrow> t \<noteq> '''' \<Longrightarrow>
     rf_claim_token r' \<in> {t, ''''} \<Longrightarrow> keeps_frozen r r' \<Longrightarrow> row_ok r' \<Longrightarrow>
     ledger w' = put_refund r' (ledger w) \<Longrightarrow> wd_sent w' = wd_sent w \<Longrightarrow> ledger_step t w w'"
| drop_row: "refund_row sid w = Some r \<Longrightarrow> rf_claim_token r = t \<Longrightarrow> t \<noteq> '''' \<Longrightarrow> rf_amount r < 0 \<Longrightarrow>
     ledger w' = filter (\<lambda>x. rf_subscription_id x \<noteq> sid) (ledger w) \<Longrightarrow> wd_sent w' = wd_sent w \<Longrightarrow>
     ledger_step t w w'"
| amend_final: "refund_row (rf_subscription_id r') w = Some r \<Longrightarrow> is_final r \<Longrightarrow> is_final r' \<Longrightarrow>
     keeps_frozen r r' \<Longrightarrow> row_ok r' \<Longrightarrow>
     ledger w' = put_refund r' (ledger w) \<Longrightarrow> wd_sent w' = wd_sent w \<Longrightarrow> ledger_step t w w'"
| send: "frozen_in c w \<Longrightarrow> ledger w' = ledger w \<Longrightarrow> wd_sent w' = c # wd_sent w \<Longrightarrow> ledger_step t w w'"

definition others :: "string \<Rightarrow> world \<Rightarrow> world \<Rightarrow> bool" where
  "others token = (\<lambda>w w'. \<exists>t. t \<noteq> token \<and> ledger_step t w w')\<^sup>*\<^sup>*"

definition requests :: "world \<Rightarrow> world \<Rightarrow> bool" where
  "requests = (\<lambda>w w'. \<exists>t. ledger_step t w w')\<^sup>*\<^sup>*"

subsection \<open>Steps keep the invariant\<close>

lemma refund_row_key: "refund_row sid w = Some r \<Longrightarrow> rf_subscription_id r = sid"
  unfolding refund_row_def by (rule first_row_key)

lemma refund_row_put:
  "ledger w' = put_refund r (ledger w) \<Longrightarrow>
     refund_row sid w' = (if sid = rf_subscription_id r then Some r else refund_row sid w)"
  by (simp add: refund_row_def first_row_save)

lemma find_filter_key:
  "find (\<lambda>r. key r = k) (filter (\<lambda>x. key x \<noteq> k') xs) = (if k = k' then None else find (\<lambda>r. key r = k) xs)"
  by (induction xs) auto

lemma refund_row_drop:
  "ledger w' = filter (\<lambda>x. rf_subscription_id x \<noteq> sid') (ledger w) \<Longrightarrow>
     refund_row sid w' = (if sid = sid' then None else refund_row sid w)"
  unfolding refund_row_def first_row_def by (simp add: find_filter_key)

lemma refund_row_same: "ledger w' = ledger w \<Longrightarrow> refund_row sid w' = refund_row sid w"
  by (simp add: refund_row_def)

lemma keeps_frozen_refl [simp]: "keeps_frozen r r"
  by (simp add: keeps_frozen_def)

lemma keeps_frozen_trans: "keeps_frozen r r' \<Longrightarrow> keeps_frozen r' r'' \<Longrightarrow> keeps_frozen r r''"
  unfolding keeps_frozen_def by auto

text \<open>A row whose amount is frozen survives every step with its frozen fields.\<close>

lemma ledger_step_row:
  assumes "ledger_step t w w'" "refund_row sid w = Some r"
  shows "(\<exists>r'. refund_row sid w' = Some r' \<and> keeps_frozen r r' \<and> (row_ok r \<longrightarrow> row_ok r')) \<or>
    refund_row sid w' = None \<and> rf_amount r < 0"
  using assms(1)
proof cases
  case elapse
  then show ?thesis using assms(2) by (simp add: refund_row_def)
next
  case (open_row r')
  note put = refund_row_put [OF open_row(5), of sid]
  show ?thesis using open_row put assms(2) by (cases "sid = rf_subscription_id r'") simp_all
next
  case (take_row r' r0)
  note put = refund_row_put [OF take_row(7), of sid]
  show ?thesis using take_row put assms(2) by (cases "sid = rf_subscription_id r'") simp_all
next
  case (write_row r' r0)
  note put = refund_row_put [OF write_row(7), of sid]
  show ?thesis using write_row put assms(2) by (cases "sid = rf_subscription_id r'") simp_all
next
  case (drop_row sid' r0)
  note put = refund_row_drop [OF drop_row(5), of sid]
  show ?thesis using drop_row put assms(2) by (cases "sid = sid'") simp_all
next
  case (amend_final r' r0)
  note put = refund_row_put [OF amend_final(6), of sid]
  show ?thesis using amend_final put assms(2) by (cases "sid = rf_subscription_id r'") simp_all
next
  case (send c)
  then show ?thesis using assms(2) by (simp add: refund_row_def)
qed

lemma ledger_step_new_row:
  assumes "ledger_step t w w'" "refund_row sid w = None" "refund_row sid w' = Some r'"
  shows "row_ok r'"
  using assms(1)
proof cases
  case (open_row r)
  note put = refund_row_put [OF open_row(5), of sid]
  show ?thesis using open_row put assms(2,3) by (cases "sid = rf_subscription_id r") simp_all
next
  case (take_row r' r0)
  note put = refund_row_put [OF take_row(7), of sid]
  show ?thesis using take_row put assms(2,3) by (cases "sid = rf_subscription_id r'") simp_all
next
  case (write_row r' r0)
  note put = refund_row_put [OF write_row(7), of sid]
  show ?thesis using write_row put assms(2,3) by (cases "sid = rf_subscription_id r'") simp_all
next
  case (drop_row sid' r0)
  note put = refund_row_drop [OF drop_row(5), of sid]
  show ?thesis using drop_row put assms(2,3) by (cases "sid = sid'") simp_all
next
  case (amend_final r' r0)
  note put = refund_row_put [OF amend_final(6), of sid]
  show ?thesis using amend_final put assms(2,3) by (cases "sid = rf_subscription_id r'") simp_all
qed (use assms(2,3) in \<open>simp_all add: refund_row_def\<close>)

lemma frozen_in_step:
  assumes "ledger_step t w w'" "ledger_ok w" "frozen_in c w"
  shows "frozen_in c w'"
proof -
  obtain r where r: "refund_row (rc_subscription c) w = Some r" "rf_to_refund r = rc_amount c"
    "rf_invoice_id r = rc_invoice c" "rc_attempt c \<le> rf_attempt r" "0 < rc_amount c"
    "rc_key c = refund_key (rc_subscription c)"
    using assms(3) unfolding frozen_in_def by blast
  have "row_ok r" using assms(2) r(1) unfolding ledger_ok_def by blast
  then have am: "0 \<le> rf_amount r" "0 \<le> rf_to_refund r" using r(2,5) by (simp_all add: row_ok_def)
  then obtain r' where r': "refund_row (rc_subscription c) w' = Some r'" "keeps_frozen r r'"
    using ledger_step_row [OF assms(1) r(1)] by force
  have "rf_to_refund r' = rc_amount c" "rf_invoice_id r' = rc_invoice c" "rc_attempt c \<le> rf_attempt r'"
    using r'(2) r am unfolding keeps_frozen_def by simp_all
  then show ?thesis using r'(1) r(5,6) unfolding frozen_in_def by blast
qed

lemma frozen_in_ledger: "ledger w' = ledger w \<Longrightarrow> frozen_in c w' = frozen_in c w"
  by (simp add: frozen_in_def refund_row_def)

lemma ledger_ok_step:
  assumes "ledger_step t w w'" "ledger_ok w"
  shows "ledger_ok w'"
proof -
  have "row_ok r'" if "refund_row sid w' = Some r'" for sid r'
  proof (cases "refund_row sid w")
    case None
    then show ?thesis using ledger_step_new_row [OF assms(1) None that] by simp
  next
    case (Some r)
    then have "row_ok r" using assms(2) unfolding ledger_ok_def by blast
    then show ?thesis using ledger_step_row [OF assms(1) Some] that by force
  qed
  moreover have "frozen_in c w'" if "c \<in> set (wd_sent w')" for c
  proof (cases "c \<in> set (wd_sent w)")
    case True
    then show ?thesis using frozen_in_step [OF assms] assms(2) unfolding ledger_ok_def by blast
  next
    case False
    with assms(1) that show ?thesis
      by cases (simp_all add: frozen_in_def refund_row_def)
  qed
  ultimately show ?thesis unfolding ledger_ok_def by blast
qed

lemma requests_refl [simp, intro]: "requests w w"
  by (simp add: requests_def)

lemma requests_trans: "requests w w' \<Longrightarrow> requests w' w'' \<Longrightarrow> requests w w''"
  unfolding requests_def by (rule rtranclp_trans)

lemma requests_step: "ledger_step t w w' \<Longrightarrow> requests w w'"
  unfolding requests_def by blast

lemma others_requests: "others token w w' \<Longrightarrow> requests w w'"
  unfolding others_def requests_def
  by (erule rtranclp_mono [THEN predicate2D, rotated]) blast

lemma ledger_ok_requests: "requests w w' \<Longrightarrow> ledger_ok w \<Longrightarrow> ledger_ok w'"
  unfolding requests_def by (induction rule: rtranclp_induct) (blast intro: ledger_ok_step)+

text \<open>Two refunds sent for one subscription carry the same amount, invoice and key.\<close>

lemma sent_agree:
  "ledger_ok w \<Longrightarrow> c \<in> set (wd_sent w) \<Longrightarrow> d \<in> set (wd_sent w) \<Longrightarrow> rc_subscription c = rc_subscription d \<Longrightarrow>
     rc_amount c = rc_amount d \<and> rc_invoice c = rc_invoice d \<and> rc_key c = rc_key d"
  unfolding ledger_ok_def frozen_in_def by (metis option.inject)

subsection \<open>The holder of a claim\<close>

text \<open>
  What a request knows of its row from the copy it holds: the stored row is that copy (only the
  attempt counter may be up to \<open>k\<close> ahead) as long as the token is still the request's, and what the
  copy has frozen is frozen in the ledger even if the claim was lost.
\<close>

definition same_core :: "int \<Rightarrow> SubscriptionRefund \<Rightarrow> SubscriptionRefund \<Rightarrow> bool" where
  "same_core k row r =
     (rf_subscription_id r = rf_subscription_id row \<and> rf_state r = rf_state row \<and>
      rf_claim_token r = rf_claim_token row \<and> rf_amount r = rf_amount row \<and>
      rf_to_refund r = rf_to_refund row \<and> rf_owed r = rf_owed row \<and> rf_refunded r = rf_refunded row \<and>
      rf_invoice_id r = rf_invoice_id row \<and> rf_refund_id r = rf_refund_id row \<and>
      rf_attempt row \<le> rf_attempt r \<and> rf_attempt r \<le> rf_attempt row + k)"

definition lost :: "string \<Rightarrow> string \<Rightarrow> world \<Rightarrow> bool" where
  "lost sid token w = (\<forall>r. refund_row sid w = Some r \<longrightarrow> rf_claim_token r \<noteq> token)"

definition held :: "int \<Rightarrow> string \<Rightarrow> string \<Rightarrow> SubscriptionRefund \<Rightarrow> world \<Rightarrow> bool" where
  "held k sid token row w =
     (ledger_ok w \<and> row_ok row \<and> \<not> is_final row \<and> rf_subscription_id row = sid \<and>
      rf_claim_token row = token \<and> token \<noteq> '''' \<and>
      (lost sid token w \<or> (\<exists>r. refund_row sid w = Some r \<and> same_core k row r)) \<and>
      (0 \<le> rf_amount row \<longrightarrow> (\<exists>r. refund_row sid w = Some r \<and> keeps_frozen row r)))"

lemma same_core_refl [simp]: "same_core 0 r r"
  by (simp add: same_core_def)

lemma row_stamp [simp]:
  "row_ok (r\<lparr>rf_updated_at := t, rf_version := v\<rparr>) = row_ok r"
  "is_final (r\<lparr>rf_updated_at := t, rf_version := v\<rparr>) = is_final r"
  "keeps_frozen r0 (r\<lparr>rf_updated_at := t, rf_version := v\<rparr>) = keeps_frozen r0 r"
  "same_core k r0 (r\<lparr>rf_updated_at := t, rf_version := v\<rparr>) = same_core k r0 r"
  "same_core k (r\<lparr>rf_updated_at := t, rf_version := v\<rparr>) r0 = same_core k r r0"
  by (simp_all add: row_ok_def is_final_def keeps_frozen_def same_core_def)

lemma step_lost:
  assumes "ledger_step t w w'" "t \<noteq> token" "token \<noteq> ''''" "lost sid token w"
  shows "lost sid token w'"
proof -
  have l: "rf_claim_token r \<noteq> token" if "refund_row sid w = Some r" for r
    using assms(4) that by (simp add: lost_def)
  have "rf_claim_token x \<noteq> token" if x: "refund_row sid w' = Some x" for x
    using assms(1)
  proof cases
    case (open_row r')
    note put = refund_row_put [OF open_row(5), of sid]
    show ?thesis using open_row put x l assms(2) by (cases "sid = rf_subscription_id r'") simp_all
  next
    case (take_row r' r0)
    note put = refund_row_put [OF take_row(7), of sid]
    show ?thesis using take_row put x l assms(2) by (cases "sid = rf_subscription_id r'") simp_all
  next
    case (write_row r' r0)
    note put = refund_row_put [OF write_row(7), of sid]
    show ?thesis using write_row(4) put x l assms(2,3) by (cases "sid = rf_subscription_id r'") auto
  next
    case (drop_row sid' r0)
    note put = refund_row_drop [OF drop_row(5), of sid]
    show ?thesis using put x l by (cases "sid = sid'") simp_all
  next
    case (amend_final r' r0)
    note put = refund_row_put [OF amend_final(6), of sid]
    show ?thesis using amend_final put x l assms(3)
      by (cases "sid = rf_subscription_id r'") (simp_all add: row_ok_def)
  qed (use x l in \<open>simp_all add: refund_row_def\<close>)
  then show ?thesis by (simp add: lost_def)
qed

lemma step_held_row:
  assumes "ledger_step t w w'" "t \<noteq> token" "token \<noteq> ''''" "ledger_ok w"
    and r: "refund_row sid w = Some r" "rf_claim_token r = token"
  shows "refund_row sid w' = Some r \<or> lost sid token w'"
  using assms(1)
proof cases
  case (open_row r')
  note put = refund_row_put [OF open_row(5), of sid]
  show ?thesis using open_row put r by (cases "sid = rf_subscription_id r'") simp_all
next
  case (take_row r' r0)
  note put = refund_row_put [OF take_row(7), of sid]
  show ?thesis using take_row put r assms(2) by (cases "sid = rf_subscription_id r'") (simp_all add: lost_def)
next
  case (write_row r' r0)
  note put = refund_row_put [OF write_row(7), of sid]
  show ?thesis using write_row(1,2) put r assms(2) by (cases "sid = rf_subscription_id r'") simp_all
next
  case (drop_row sid' r0)
  note put = refund_row_drop [OF drop_row(5), of sid]
  show ?thesis using drop_row(1,2) put r assms(2) by (cases "sid = sid'") simp_all
next
  case (amend_final r' r0)
  note put = refund_row_put [OF amend_final(6), of sid]
  have "row_ok r0" using assms(4) amend_final(1) unfolding ledger_ok_def by blast
  then have "rf_claim_token r0 = ''''" using amend_final(2) by (simp add: row_ok_def)
  then show ?thesis using amend_final(1) put r assms(3) by (cases "sid = rf_subscription_id r'") simp_all
qed (use r in \<open>simp_all add: refund_row_def\<close>)

lemma same_core_claim: "same_core k row r \<Longrightarrow> rf_claim_token r = rf_claim_token row"
  by (simp add: same_core_def)

lemma held_step:
  assumes "held k sid token row w" "ledger_step t w w'" "t \<noteq> token"
  shows "held k sid token row w'"
proof -
  have h: "ledger_ok w" "row_ok row" "\<not> is_final row" "rf_subscription_id row = sid"
    "rf_claim_token row = token" "token \<noteq> ''''"
    "lost sid token w \<or> (\<exists>r. refund_row sid w = Some r \<and> same_core k row r)"
    using assms(1) by (simp_all add: held_def)
  have own: "lost sid token w' \<or> (\<exists>r. refund_row sid w' = Some r \<and> same_core k row r)"
    using h(7)
  proof
    assume "lost sid token w"
    then show ?thesis using step_lost [OF assms(2,3) h(6)] by blast
  next
    assume "\<exists>r. refund_row sid w = Some r \<and> same_core k row r"
    then show ?thesis using step_held_row [OF assms(2,3) h(6,1)] same_core_claim h(5) by metis
  qed
  have "\<exists>r. refund_row sid w' = Some r \<and> keeps_frozen row r" if a: "0 \<le> rf_amount row"
  proof -
    obtain r where r: "refund_row sid w = Some r" "keeps_frozen row r"
      using assms(1) a unfolding held_def by blast
    then have "0 \<le> rf_amount r" using a by (simp add: keeps_frozen_def)
    then show ?thesis using ledger_step_row [OF assms(2) r(1)] keeps_frozen_trans [OF r(2)] by force
  qed
  then show ?thesis using h own ledger_ok_step [OF assms(2) h(1)] unfolding held_def by blast
qed

lemma held_others: "others token w w' \<Longrightarrow> held k sid token row w \<Longrightarrow> held k sid token row w'"
  unfolding others_def by (induction rule: rtranclp_induct) (blast intro: held_step)+

lemma held_ok: "held k sid token row w \<Longrightarrow> ledger_ok w"
  by (simp add: held_def)

subsection \<open>The code's transactions as steps\<close>

lemma ledger_set [simp]: "ledger (set_ledger rows w) = rows" "wd_sent (set_ledger rows w) = wd_sent w"
  by (simp_all add: ledger_def set_ledger_def)

lemma ledger_tokens [simp]: "ledger (w\<lparr>wd_tokens := n\<rparr>) = ledger w" "ledger (w\<lparr>wd_sent := c\<rparr>) = ledger w"
  by (simp_all add: ledger_def)

text \<open>A write under the claim: nothing happens if it was lost, otherwise it is a step.\<close>

definition may_write :: "int \<Rightarrow> SubscriptionRefund \<Rightarrow> (SubscriptionRefund \<Rightarrow> SubscriptionRefund) \<Rightarrow> bool" where
  "may_write k row f =
     (\<forall>r. same_core k row r \<longrightarrow> keeps_frozen r (f r) \<and> row_ok (f r) \<and>
        rf_claim_token (f r) \<in> {rf_claim_token row, ''''})"

lemma save_held:
  assumes h: "held k sid token row w" and f: "may_write k row f"
    and run: "save sid token f w = (res, w')"
  shows "requests w w' \<and>
    (case res of
       Inl e \<Rightarrow> e = LostClaim \<and> w' = w
     | Inr row' \<Rightarrow> refund_row sid w' = Some row' \<and> ledger_ok w' \<and>
         (\<exists>r. same_core k row r \<and> row' = (f r)\<lparr>rf_updated_at := wd_clock w, rf_version := rf_version r + 1\<rparr>))"
proof (cases "lost sid token w")
  case True
  then have "(res, w') = (Inl LostClaim, w)"
    using run by (cases "refund_row sid w") (simp_all add: save_def lost_def)
  then show ?thesis by simp
next
  case False
  then obtain r where r: "refund_row sid w = Some r" "same_core k row r" using h unfolding held_def by blast
  have tok: "rf_claim_token r = token" "token \<noteq> ''''" "rf_claim_token row = token" "rf_subscription_id r = sid"
    using h r same_core_claim [OF r(2)] refund_row_key [OF r(1)] by (simp_all add: held_def)
  define row' where "row' = (f r)\<lparr>rf_updated_at := wd_clock w, rf_version := rf_version r + 1\<rparr>"
  have w': "res = Inr row'" "w' = set_ledger (put_refund row' (ledger w)) w"
    using run r(1) tok(1) by (simp_all add: save_def Let_def row'_def)
  have fr: "keeps_frozen r row'" "row_ok row'" "rf_claim_token row' \<in> {token, ''''}"
    using f r(2) tok(3) unfolding may_write_def row'_def by simp_all
  then have sid: "rf_subscription_id row' = sid" using tok(4) by (simp add: keeps_frozen_def)
  have "ledger_step token w w'"
    using write_row [OF _ tok(1,2) fr(3,1,2)] r(1) sid w'(2) by simp
  moreover have "refund_row sid w' = Some row'"
    using refund_row_put [of w' row' w sid] w'(2) sid by simp
  moreover have "ledger_ok w'" using ledger_ok_step calculation(1) held_ok [OF h] by blast
  ultimately show ?thesis using w'(1) r(2) requests_step row'_def by fastforce
qed

lemma held_keep:
  assumes "held k sid token row w" "refund_row sid w' = Some row'" "ledger_ok w'"
    and "\<not> is_final row'" "rf_claim_token row' = token"
  shows "held 0 sid token row' w'"
  unfolding held_def
proof (intro conjI)
  show "ledger_ok w'" "row_ok row'" using assms(2,3) by (auto simp only: ledger_ok_def)
  show "token \<noteq> ''''" using assms(1) by (simp add: held_def)
  show "lost sid token w' \<or> (\<exists>r. refund_row sid w' = Some r \<and> same_core 0 row' r)"
    "0 \<le> rf_amount row' \<longrightarrow> (\<exists>r. refund_row sid w' = Some r \<and> keeps_frozen row' r)"
    using assms(2) same_core_refl keeps_frozen_refl by blast+
qed (use assms refund_row_key in simp_all)

lemma is_final_finish [simp]: "is_final (finish_fields refunded note owed reason rid anyway r)"
  by (simp add: finish_fields_def is_final_def FINAL_def)

lemma finish_fields_fields [simp]:
  "rf_claim_token (finish_fields refunded note owed reason rid anyway r) = ''''"
  "rf_refunded (finish_fields refunded note owed reason rid anyway r) = refunded"
  "rf_owed (finish_fields refunded note owed reason rid anyway r) = owed"
  "rf_amount (finish_fields refunded note owed reason rid anyway r) = rf_amount r"
  "rf_to_refund (finish_fields refunded note owed reason rid anyway r) = rf_to_refund r"
  "rf_attempt (finish_fields refunded note owed reason rid anyway r) = rf_attempt r"
  "rf_invoice_id (finish_fields refunded note owed reason rid anyway r) = rf_invoice_id r"
  "rf_subscription_id (finish_fields refunded note owed reason rid anyway r) = rf_subscription_id r"
  by (simp_all add: finish_fields_def)

lemma may_finish:
  assumes "row_ok row" "0 \<le> refunded" "0 \<le> owed" "refunded + owed \<le> max 0 (rf_amount row)"
  shows "may_write k row (finish_fields refunded note owed reason rid anyway)"
proof -
  have "keeps_frozen r (finish_fields refunded note owed reason rid anyway r)" for r
    by (simp add: keeps_frozen_def)
  moreover have "row_ok (finish_fields refunded note owed reason rid anyway r)" if "same_core k row r" for r
  proof -
    have "rf_amount r = rf_amount row" "rf_to_refund r = rf_to_refund row"
      using that by (simp_all add: same_core_def)
    then show ?thesis using assms by (simp add: row_ok_def)
  qed
  ultimately show ?thesis by (simp add: may_write_def)
qed

lemma finish_held:
  assumes "held k sid token row w" "0 \<le> refunded" "0 \<le> owed" "refunded + owed \<le> max 0 (rf_amount row)"
    and "finish row token refunded note owed reason rid anyway w = (res, w')"
  shows "requests w w' \<and> (case res of Inl e \<Rightarrow> w' = w | Inr _ \<Rightarrow> True)"
proof -
  have h: "row_ok row" "rf_subscription_id row = sid" using assms(1) by (simp_all add: held_def)
  obtain res0 w0 where run: "save sid token (finish_fields refunded note owed reason rid anyway) w = (res0, w0)"
    by fastforce
  note s = save_held [OF assms(1) may_finish [OF h(1) assms(2,3,4)] run]
  show ?thesis
  proof (cases res0)
    case (Inl e)
    then have "res = Inl e" "w' = w0" using assms(5) run h(2) by (simp_all add: finish_def)
    then show ?thesis using s Inl by simp
  next
    case (Inr r)
    then have "res = Inr (outcome r)" "w' = w0" using assms(5) run h(2) by (simp_all add: finish_def)
    then show ?thesis using s by simp
  qed
qed

lemma same_core_facts:
  assumes "same_core k row r" "row_ok row" "\<not> is_final row"
  shows "row_ok r" "\<not> is_final r"
  using assms unfolding same_core_def row_ok_def is_final_def by simp_all

lemma release_held: "held k sid token row w \<Longrightarrow> requests w (release sid token w)"
proof -
  assume h: "held k sid token row w"
  have "may_write k row release_claim"
    unfolding may_write_def
  proof (intro allI impI conjI)
    fix r assume c: "same_core k row r"
    have "row_ok r" "\<not> is_final r" using same_core_facts [OF c] h by (simp_all add: held_def)
    then show "row_ok (release_claim r)" by (simp add: row_ok_def release_claim_def is_final_def)
  qed (simp_all add: keeps_frozen_def release_claim_def)
  from save_held [OF h this, of "fst (save sid token release_claim w)" "release sid token w"]
  show ?thesis by (simp add: release_def)
qed

lemma forget_held:
  assumes "held k sid token row w"
  shows "requests w (forget sid token w)"
proof (cases "refund_row sid w")
  case None
  then show ?thesis by (simp add: forget_def)
next
  case (Some r)
  show ?thesis
  proof (cases "rf_claim_token r = token \<and> rf_amount r < 0")
    case True
    then have "forget sid token w = set_ledger (filter (\<lambda>r. rf_subscription_id r \<noteq> sid) (ledger w)) w"
      using Some by (simp add: forget_def)
    moreover have "token \<noteq> ''''" using assms by (simp add: held_def)
    ultimately have "ledger_step token w (forget sid token w)"
      using drop_row [OF Some] True by simp
    then show ?thesis by (rule requests_step)
  next
    case False
    then show ?thesis using Some by (auto simp: forget_def)
  qed
qed

subsection \<open>What the code relies on of the provider\<close>

text \<open>
  During a call other requests may act, under their own tokens; and a refund plan splits the amount
  it was asked about: what is sent (or was sent before) and what is owed are not negative and
  together no more than that amount.
\<close>

definition plan_ok :: "int \<Rightarrow> RefundPlan \<Rightarrow> bool" where
  "plan_ok amount p =
     (0 \<le> rp_send_cents p \<and> 0 \<le> rp_owed_cents p \<and> rp_send_cents p + rp_owed_cents p \<le> amount \<and>
      0 \<le> rp_existing_cents p \<and> rp_existing_cents p + rp_owed_cents p \<le> amount)"

definition gateway_ok :: "BillingGateway \<Rightarrow> string \<Rightarrow> bool" where
  "gateway_ok g token =
     ((\<forall>a b w. others token w (snd (gw_discard_pending_items g a b w))) \<and>
      (\<forall>a b w. others token w (snd (gw_refund_basis g a b w))) \<and>
      (\<forall>a b c d w. others token w (snd (gw_refund_plan g a b c d w))) \<and>
      (\<forall>a b c d e w. others token w (snd (gw_issue_refund g a b c d e w))) \<and>
      (\<forall>a b c d w p w'. 0 \<le> b \<longrightarrow> gw_refund_plan g a b c d w = (Inr p, w') \<longrightarrow> plan_ok b p))"

lemma gateway_others:
  assumes "gateway_ok g token"
  shows "gw_discard_pending_items g a b w = (res1, w') \<Longrightarrow> others token w w'"
    "gw_refund_basis g a b w = (res2, w') \<Longrightarrow> others token w w'"
    "gw_refund_plan g a n c d w = (res3, w') \<Longrightarrow> others token w w'"
    "gw_issue_refund g a n c d e w = (res4, w') \<Longrightarrow> others token w w'"
  using assms unfolding gateway_ok_def by (metis snd_conv)+

lemma gateway_plan:
  "gateway_ok g token \<Longrightarrow> 0 \<le> n \<Longrightarrow> gw_refund_plan g a n c d w = (Inr p, w') \<Longrightarrow> plan_ok n p"
  unfolding gateway_ok_def by blast

lemma call_held:
  "others token w w' \<Longrightarrow> held k sid token row w \<Longrightarrow> requests w w' \<and> held k sid token row w'"
  using held_others others_requests by blast

lemma send_held:
  assumes g: "gateway_ok g token" and h: "held k sid token row w" and pos: "0 < rf_to_refund row"
    and run: "send_refund g row w = (res, w')"
  shows "requests w w' \<and> held k sid token row w'"
proof -
  define c where "c = \<lparr>rc_subscription = rf_subscription_id row, rc_amount = rf_to_refund row,
    rc_key = refund_key (rf_subscription_id row), rc_invoice = rf_invoice_id row, rc_attempt = rf_attempt row\<rparr>"
  define w1 where "w1 = w\<lparr>wd_sent := c # wd_sent w\<rparr>"
  have row: "row_ok row" "rf_subscription_id row = sid" using h by (simp_all add: held_def)
  then have "0 \<le> rf_amount row" using pos by (simp add: row_ok_def)
  then obtain r where r: "refund_row sid w = Some r" "keeps_frozen row r" using h unfolding held_def by blast
  have "frozen_in c w"
    unfolding frozen_in_def
    using r pos row(2) \<open>0 \<le> rf_amount row\<close> by (auto simp: c_def keeps_frozen_def simp del: split_paired_Ex)
  then have step: "ledger_step t w w1" for t by (rule ledger_step.send) (simp_all add: w1_def)
  have "\<exists>t. t \<noteq> token" by (metis not_Cons_self)
  then obtain t where "t \<noteq> token" ..
  then have h1: "held k sid token row w1" using held_step [OF h step] by blast
  have "others token w1 w'"
    using run gateway_others(4) [OF g] unfolding send_refund_def Let_def w1_def c_def by simp
  from call_held [OF this h1] show ?thesis using requests_step [OF step] requests_trans by blast
qed

lemma may_bump:
  assumes "row_ok row" "\<not> is_final row"
  shows "may_write 0 row (\<lambda>r. r\<lparr>rf_attempt := rf_attempt row + 1\<rparr>)"
  unfolding may_write_def
proof (intro allI impI conjI)
  fix r assume c: "same_core 0 row r"
  have "row_ok r" using same_core_facts [OF c assms] by simp
  then show "row_ok (r\<lparr>rf_attempt := rf_attempt row + 1\<rparr>)" by (simp add: row_ok_def is_final_def)
  show "keeps_frozen r (r\<lparr>rf_attempt := rf_attempt row + 1\<rparr>)"
    using c by (simp add: same_core_def keeps_frozen_def)
  show "rf_claim_token (r\<lparr>rf_attempt := rf_attempt row + 1\<rparr>) \<in> {rf_claim_token row, ''''}"
    using c by (simp add: same_core_def)
qed

text \<open>After a bump of the attempt the copy lags behind by at most one.\<close>

lemma held_after_bump:
  assumes h: "held 0 sid token row w" and "refund_row sid w' = Some row'" "ledger_ok w'"
    and b: "same_core 0 row r"
      "row' = (r\<lparr>rf_attempt := rf_attempt row + 1\<rparr>)\<lparr>rf_updated_at := t, rf_version := v\<rparr>"
  shows "held 1 sid token row w'" "held 0 sid token row' w'" "rf_to_refund row' = rf_to_refund row"
proof -
  have row: "row_ok row" "\<not> is_final row" "rf_subscription_id row = sid" "rf_claim_token row = token"
    "token \<noteq> ''''" using h by (simp_all add: held_def)
  have c: "same_core 1 row row'" using b by (simp add: same_core_def)
  then have "keeps_frozen row row'" by (simp add: same_core_def keeps_frozen_def)
  then show "held 1 sid token row w'"
    unfolding held_def using row assms(2,3) c by blast
  have "\<not> is_final row'" "rf_claim_token row' = token"
    using c row(2,4) by (simp_all add: same_core_def is_final_def)
  then show "held 0 sid token row' w'" using held_keep [OF h assms(2,3)] by simp
  show "rf_to_refund row' = rf_to_refund row" using c by (simp add: same_core_def)
qed

lemma held_mono: "held 0 sid token row w \<Longrightarrow> held 1 sid token row w"
proof -
  have "same_core 0 row r \<Longrightarrow> same_core 1 row r" for r by (simp add: same_core_def)
  then show "held 0 sid token row w \<Longrightarrow> ?thesis" unfolding held_def by blast
qed

text \<open>The copy of before stays a copy of the row when a later copy, of the same core, is one.\<close>

lemma held_transfer:
  assumes "held 0 sid token row' w" "held 1 sid token row w0" "same_core 1 row row'"
  shows "held 1 sid token row w"
proof -
  have "same_core 0 row' r \<Longrightarrow> same_core 1 row r" for r
    using assms(3) by (simp add: same_core_def)
  moreover have "keeps_frozen row' r \<Longrightarrow> keeps_frozen row r" for r
    using keeps_frozen_trans [of row row' r] assms(3) by (simp add: same_core_def keeps_frozen_def)
  moreover have "rf_amount row' = rf_amount row" using assms(3) by (simp add: same_core_def)
  ultimately show ?thesis using assms(1,2) unfolding held_def by metis
qed

lemma issue_held:
  assumes g: "gateway_ok g token" and h: "held 0 sid token row w" and pos: "0 < rf_to_refund row"
    and run: "issue g row token w = (res, w')"
  shows "requests w w' \<and> held 1 sid token row w'"
proof -
  obtain res1 w1 where s1: "send_refund g row w = (res1, w1)" by fastforce
  note a = send_held [OF g h pos s1]
  have row: "row_ok row" "\<not> is_final row" "rf_subscription_id row = sid"
    using h by (simp_all add: held_def)
  show ?thesis
  proof (cases "\<exists>m. res1 = Inl (IdempotencyConflict m)")
    case False
    then have "w' = w1" using run s1
      by (cases res1) (auto simp: issue_def split: gateway_error.splits)
    then show ?thesis using a held_mono by blast
  next
    case True
    let ?f = "\<lambda>r. r\<lparr>rf_attempt := rf_attempt row + 1\<rparr>"
    obtain res2 w2 where s2: "save sid token ?f w1 = (res2, w2)" by fastforce
    note b = save_held [OF conjunct2 [OF a] may_bump [OF row(1,2)] s2]
    show ?thesis
    proof (cases res2)
      case (Inl e)
      then have "w' = w2" using True run s1 s2 row(3) by (auto simp: issue_def)
      then show ?thesis using a b Inl held_mono by force
    next
      case (Inr row')
      then obtain r where r: "same_core 0 row r"
        "row' = (?f r)\<lparr>rf_updated_at := wd_clock w1, rf_version := rf_version r + 1\<rparr>"
        "refund_row sid w2 = Some row'" "ledger_ok w2"
        using b unfolding Inr sum.case by blast
      note c = held_after_bump [OF conjunct2 [OF a] r(3,4,1,2)]
      obtain res3 w3 where s3: "send_refund g row' w2 = (res3, w3)" by fastforce
      have "0 < rf_to_refund row'" using c(3) pos by simp
      note d = send_held [OF g c(2) this s3]
      have "w' = w3" using True run s1 s2 s3 row(3) Inr by (auto simp: issue_def split: sum.splits)
      moreover have "same_core 1 row row'" using r(1,2) by (simp add: same_core_def)
      then have "held 1 sid token row w3" using held_transfer [OF conjunct2 [OF d] c(1)] by blast
      ultimately show ?thesis using a b d requests_trans by blast
    qed
  qed
qed

lemma except_held:
  assumes h: "held k sid token row w" and run: "settle_except sid token e row w = (res, w')"
  shows "requests w w'"
proof (cases e)
  case (Gateway ge)
  show ?thesis
  proof (cases "is_permanent ge")
    case True
    let ?owed = "if rf_to_refund row \<ge> 0 then max 0 (rf_to_refund row) + rf_owed row else max 0 (rf_amount row)"
    have "row_ok row" "\<not> is_final row" using h by (simp_all add: held_def)
    then have "0 \<le> ?owed" "0 + ?owed \<le> max 0 (rf_amount row)"
      by (auto simp: row_ok_def split: if_splits)
    then show ?thesis
      using finish_held [OF h order_refl _ _, of ?owed] run True Gateway
      unfolding settle_except_def Let_def by simp
  next
    case False
    then have "w' = release sid token w" using run Gateway by (simp add: settle_except_def)
    then show ?thesis using release_held [OF h] by simp
  qed
next
  case NotEligible
  then have "w' = forget sid token w" using run by (simp add: settle_except_def)
  then show ?thesis using forget_held [OF h] by simp
qed (use run in \<open>simp_all add: settle_except_def\<close>)

lemma freeze_amount_fields [simp]:
  "0 \<le> rf_amount (freeze_amount basis at_time r)"
  "rf_to_refund (freeze_amount basis at_time r) = rf_to_refund r"
  "rf_owed (freeze_amount basis at_time r) = rf_owed r"
  "rf_refunded (freeze_amount basis at_time r) = rf_refunded r"
  "rf_attempt (freeze_amount basis at_time r) = rf_attempt r"
  "rf_claim_token (freeze_amount basis at_time r) = rf_claim_token r"
  "rf_refund_id (freeze_amount basis at_time r) = rf_refund_id r"
  "rf_subscription_id (freeze_amount basis at_time r) = rf_subscription_id r"
  "is_final (freeze_amount basis at_time r) = is_final r"
  by (simp_all add: freeze_amount_def is_final_def)

lemma may_freeze:
  assumes "row_ok row" "\<not> is_final row" "rf_amount row < 0"
  shows "may_write 0 row (freeze_amount basis at_time)"
  unfolding may_write_def
proof (intro allI impI conjI)
  fix r assume c: "same_core 0 row r"
  have r: "row_ok r" "\<not> is_final r" "rf_amount r < 0" "rf_claim_token r = rf_claim_token row"
    using same_core_facts [OF c assms(1,2)] c assms(3) by (simp_all add: same_core_def)
  then have neg: "rf_to_refund r < 0" by (auto simp: row_ok_def)
  then have "rf_owed r = 0" "rf_refunded r = 0" "rf_refund_id r = ''''" using r by (simp_all add: row_ok_def)
  then show "row_ok (freeze_amount basis at_time r)" using neg r(2) by (simp add: row_ok_def)
  show "keeps_frozen r (freeze_amount basis at_time r)" using neg r(3) by (simp add: keeps_frozen_def)
  show "rf_claim_token (freeze_amount basis at_time r) \<in> {rf_claim_token row, ''''}" using r(4) by simp
qed

lemma settle_freeze_held:
  assumes g: "gateway_ok g token" and h: "held 0 sid token row w"
    and run: "settle_freeze g sid token start (row, w) = (res, row', w')"
  shows "requests w w' \<and>
    (case res of Inr (Some _) \<Rightarrow> True
     | Inr None \<Rightarrow> held 0 sid token row' w' \<and> 0 \<le> rf_amount row'
     | Inl e \<Rightarrow> held 0 sid token row' w')"
proof (cases "rf_amount row \<ge> 0")
  case True
  then have "res = Inr None" "row' = row" "w' = w" using run by (simp_all add: settle_freeze_def)
  then show ?thesis using h True by simp
next
  case False
  let ?start = "if rf_contract_started_at row \<noteq> 0 then rf_contract_started_at row else start"
  have row: "row_ok row" "\<not> is_final row" using h by (simp_all add: held_def)
  show ?thesis
  proof (cases "withdrawal_window_open ?start (rf_requested_at row)")
    case closed: False
    then have "res = Inl NotEligible" "row' = row" "w' = w"
      using run False by (simp_all add: settle_freeze_def Let_def)
    then show ?thesis using h by simp
  next
    case True
    obtain res1 w1 where call: "gw_refund_basis g sid (rf_invoice_id row) w = (res1, w1)" by fastforce
    note a = call_held [OF gateway_others(2) [OF g call] h]
    show ?thesis
    proof (cases res1)
      case (Inl e)
      then have "res = Inl (Gateway e)" "row' = row" "w' = w1"
        using run False True call by (simp_all add: settle_freeze_def Let_def)
      then show ?thesis using a by simp
    next
      case (Inr basis)
      show ?thesis
      proof (cases "rb_ended_at basis = 0")
        case ended: True
        then have "isl res" "row' = row" "w' = w1"
          using run False True call Inr by (auto simp: settle_freeze_def Let_def)
        then show ?thesis using a by (cases res) simp_all
      next
        case ended: False
        obtain problem measured_at where p: "settle_problem row basis = (problem, measured_at)" by fastforce
        obtain res2 w2 where s: "save sid token (freeze_amount basis measured_at) w1 = (res2, w2)" by fastforce
        have neg: "rf_amount row < 0" using False by simp
        note b = save_held [OF conjunct2 [OF a] may_freeze [OF row neg] s]
        have body: "(res, row', w') = (case res2 of Inl e \<Rightarrow> (Inl e, row, w2)
            | Inr row1 \<Rightarrow> if problem \<noteq> ''''
                 then (case finish row1 token 0 '''' (rf_amount row1) problem '''' True w2 of
                         (Inl e, w3) \<Rightarrow> (Inl e, row1, w3) | (Inr r, w3) \<Rightarrow> (Inr (Some r), row1, w3))
                 else (Inr None, row1, w2))"
          using run False True call Inr ended p s by (simp add: settle_freeze_def Let_def split: sum.splits)
        show ?thesis
        proof (cases res2)
          case (Inl e)
          then show ?thesis using a b body by simp
        next
          case frozen: (Inr row1)
          then obtain r where r: "same_core 0 row r" "refund_row sid w2 = Some row1" "ledger_ok w2"
            "row1 = (freeze_amount basis measured_at r)\<lparr>rf_updated_at := wd_clock w1, rf_version := rf_version r + 1\<rparr>"
            using b unfolding frozen sum.case by blast
          have nf: "\<not> is_final row1" "rf_claim_token row1 = token" "0 \<le> rf_amount row1"
            using r(1,4) row(2) h same_core_facts(2) [OF r(1) row] by (simp_all add: same_core_def held_def)
          note c = held_keep [OF h r(2,3) nf(1,2)]
          obtain res3 w3 where f: "finish row1 token 0 '''' (rf_amount row1) problem '''' True w2 = (res3, w3)"
            by fastforce
          have d: "requests w2 w3 \<and> (case res3 of Inl e \<Rightarrow> w3 = w2 | Inr _ \<Rightarrow> True)"
            using finish_held [OF c order_refl nf(3) _ f] by simp
          show ?thesis
          proof (cases "problem = ''''")
            case True
            then have "res = Inr None" "row' = row1" "w' = w2" using body frozen by simp_all
            then show ?thesis using requests_trans [OF conjunct1 [OF a] conjunct1 [OF b]] c nf(3) by simp
          next
            case False
            note t = requests_trans [OF requests_trans [OF conjunct1 [OF a] conjunct1 [OF b]] conjunct1 [OF d]]
            show ?thesis
            proof (cases res3)
              case (Inl e)
              then have "res = Inl e" "row' = row1" "w' = w2" using False body frozen f d by simp_all
              then show ?thesis using t d Inl c by simp
            next
              case (Inr r')
              then have "res = Inr (Some r')" "w' = w3" using False body frozen f by simp_all
              then show ?thesis using t by simp
            qed
          qed
        qed
      qed
    qed
  qed
qed

lemma plan_fields_fields [simp]:
  "rf_amount (plan_fields p r) = rf_amount r" "rf_to_refund (plan_fields p r) = rp_send_cents p"
  "rf_owed (plan_fields p r) = rp_owed_cents p" "rf_refunded (plan_fields p r) = rf_refunded r"
  "rf_attempt (plan_fields p r) = rf_attempt r" "rf_claim_token (plan_fields p r) = rf_claim_token r"
  "rf_refund_id (plan_fields p r) = rf_refund_id r" "rf_invoice_id (plan_fields p r) = rf_invoice_id r"
  "rf_subscription_id (plan_fields p r) = rf_subscription_id r" "is_final (plan_fields p r) = is_final r"
  by (simp_all add: plan_fields_def is_final_def)

lemma may_plan:
  assumes "row_ok row" "\<not> is_final row" "0 \<le> rf_amount row" "rf_to_refund row < 0" "plan_ok (rf_amount row) p"
  shows "may_write 0 row (plan_fields p)"
  unfolding may_write_def
proof (intro allI impI conjI)
  fix r assume c: "same_core 0 row r"
  have r: "row_ok r" "\<not> is_final r" "rf_amount r = rf_amount row" "rf_to_refund r < 0"
    "rf_claim_token r = rf_claim_token row"
    using same_core_facts [OF c assms(1,2)] c assms(4) by (simp_all add: same_core_def)
  then have "rf_refunded r = 0" "rf_refund_id r = ''''" by (simp_all add: row_ok_def)
  then show "row_ok (plan_fields p r)"
    using r assms(3,5) by (simp add: row_ok_def plan_ok_def)
  show "keeps_frozen r (plan_fields p r)" using r(4) by (simp add: keeps_frozen_def)
  show "rf_claim_token (plan_fields p r) \<in> {rf_claim_token row, ''''}" using r(5) by simp
qed

lemma settle_plan_held:
  assumes g: "gateway_ok g token" and h: "held 0 sid token row w" and am: "0 \<le> rf_amount row"
    and run: "settle_plan g sid token (row, w) = (res, row', w')"
  shows "requests w w' \<and>
    (case res of Inr (Some _) \<Rightarrow> True
     | Inr None \<Rightarrow> held 0 sid token row' w' \<and> 0 \<le> rf_to_refund row'
     | Inl e \<Rightarrow> held 0 sid token row' w')"
proof (cases "rf_to_refund row \<ge> 0")
  case True
  then have "res = Inr None" "row' = row" "w' = w" using run by (simp_all add: settle_plan_def)
  then show ?thesis using h True by simp
next
  case False
  have row: "row_ok row" "\<not> is_final row" using h by (simp_all add: held_def)
  obtain res1 w1 where call: "(if rf_amount row = 0 then (Inr (refund_plan_of 0), w)
      else gw_refund_plan g sid (rf_amount row) (refund_key sid) (rf_invoice_id row) w) = (res1, w1)"
    by fastforce
  have a: "requests w w1 \<and> held 0 sid token row w1"
  proof (cases "rf_amount row = 0")
    case True
    then show ?thesis using call h by simp
  next
    case False
    then have "others token w w1" using call gateway_others(3) [OF g] by simp
    then show ?thesis using call_held h by blast
  qed
  show ?thesis
  proof (cases res1)
    case (Inl e)
    then have "res = Inl (Gateway e)" "row' = row" "w' = w1" using run False call by (simp_all add: settle_plan_def)
    then show ?thesis using a by simp
  next
    case (Inr p)
    have p: "plan_ok (rf_amount row) p"
    proof (cases "rf_amount row = 0")
      case True
      then show ?thesis using call Inr by (auto simp: plan_ok_def refund_plan_of_def)
    next
      case False
      then show ?thesis using call Inr gateway_plan [OF g am] by simp
    qed
    show ?thesis
    proof (cases "rp_existing_note_id p = ''''")
      case note_found: False
      obtain res2 w2 where f: "finish row token (rp_existing_cents p) (rp_existing_note_id p)
          (rp_owed_cents p) (rp_reason p) (rp_existing_refund_id p) False w1 = (res2, w2)" by fastforce
      have b: "requests w1 w2 \<and> (case res2 of Inl e \<Rightarrow> w2 = w1 | Inr _ \<Rightarrow> True)"
        using p am by (intro finish_held [OF conjunct2 [OF a] _ _ _ f]) (simp_all add: plan_ok_def)
      note t = requests_trans [OF conjunct1 [OF a] conjunct1 [OF b]]
      show ?thesis
      proof (cases res2)
        case (Inl e)
        then have "res = Inl e" "row' = row" "w' = w1"
          using run False call Inr note_found f b by (simp_all add: settle_plan_def)
        then show ?thesis using a by simp
      next
        case finished: (Inr r)
        then have "res = Inr (Some r)" "w' = w2"
          using run False call Inr note_found f by (simp_all add: settle_plan_def)
        then show ?thesis using t by simp
      qed
    next
      case no_note: True
      obtain res2 w2 where s: "save sid token (plan_fields p) w1 = (res2, w2)" by fastforce
      have neg: "rf_to_refund row < 0" using False by simp
      note b = save_held [OF conjunct2 [OF a] may_plan [OF row am neg p] s]
      show ?thesis
      proof (cases res2)
        case (Inl e)
        then have "res = Inl e" "row' = row" "w' = w1"
          using run False call Inr no_note s b by (simp_all add: settle_plan_def)
        then show ?thesis using a by simp
      next
        case planned: (Inr row1)
        then obtain r where r: "same_core 0 row r" "refund_row sid w2 = Some row1" "ledger_ok w2"
          "row1 = (plan_fields p r)\<lparr>rf_updated_at := wd_clock w1, rf_version := rf_version r + 1\<rparr>"
          using b unfolding planned sum.case by blast
        have nf: "\<not> is_final row1" "rf_claim_token row1 = token" "0 \<le> rf_to_refund row1"
          using r(1,4) h p same_core_facts(2) [OF r(1) row] by (simp_all add: same_core_def held_def plan_ok_def)
        have "res = Inr None" "row' = row1" "w' = w2"
          using run False call Inr no_note s planned by (simp_all add: settle_plan_def)
        then show ?thesis
          using requests_trans [OF conjunct1 [OF a] conjunct1 [OF b]] held_keep [OF h r(2,3) nf(1,2)] nf(3) by simp
      qed
    qed
  qed
qed

subsection \<open>Claiming\<close>

lemma new_refund_ok:
  "row_ok (new_refund sid customer start requested now)" "\<not> is_final (new_refund sid customer start requested now)"
  "rf_subscription_id (new_refund sid customer start requested now) = sid"
  by (simp_all add: new_refund_def row_ok_def is_final_def FINAL_def refund_states)

lemma next_token_nonempty [simp]: "next_token w \<noteq> ''''" "[] \<noteq> next_token w"
  by (simp_all add: next_token_def)

text \<open>A claim that succeeds holds the row under the next token; any other outcome changes nothing.\<close>

lemma take_claim_held:
  assumes ok: "ledger_ok w" and row: "row_ok row" "\<not> is_final row" "rf_subscription_id row = sid"
    and stored: "refund_row sid w = None \<or> refund_row sid w = Some row"
    and run: "take_claim row w = (res, w')"
  shows "\<exists>row'. res = Inr (Some row', next_token w) \<and> requests w w' \<and> held 0 sid (next_token w) row' w'"
proof -
  let ?t = "next_token w"
  define row' where "row' = row\<lparr>rf_claim_token := ?t, rf_lease_until := wd_clock w + LEASE_SECONDS,
      rf_updated_at := wd_clock w, rf_version := rf_version row + 1\<rparr>"
  have w': "res = Inr (Some row', ?t)"
    "ledger w' = put_refund row' (ledger w)" "wd_sent w' = wd_sent w"
    using run by (auto simp: take_claim_def Let_def row'_def)
  have r': "row_ok row'" "\<not> is_final row'" "rf_claim_token row' = ?t" "keeps_frozen row row'"
    "rf_subscription_id row' = sid"
    using row by (simp_all add: row'_def row_ok_def is_final_def keeps_frozen_def)
  have step: "ledger_step ?t w w'"
    using stored
  proof
    assume "refund_row sid w = None"
    then show ?thesis using open_row [OF _ r'(3) _ r'(1) w'(2,3)] r'(5) by simp
  next
    assume "refund_row sid w = Some row"
    then show ?thesis using take_row [OF _ row(2) r'(3) _ r'(4,1) w'(2,3)] r'(5) by simp
  qed
  have "refund_row sid w' = Some row'" using refund_row_put [OF w'(2), of sid] r'(5) by simp
  moreover have "ledger_ok w'" using ledger_ok_step [OF step ok] .
  ultimately have "held 0 sid ?t row' w'"
    unfolding held_def using r' same_core_refl keeps_frozen_refl next_token_nonempty by blast
  then show ?thesis using w'(1) requests_step [OF step] by blast
qed

lemma claim_held:
  assumes ok: "ledger_ok w" and run: "claim uid customer sid start requested create w = (res, w')"
  shows "(case res of
       Inr (Some row, token) \<Rightarrow> token = '''' \<and> w' = w \<or>
         token = next_token w \<and> requests w w' \<and> held 0 sid token row w'
     | _ \<Rightarrow> w' = w)"
proof (cases "refund_row sid w")
  case None
  show ?thesis
  proof (cases "create \<and> uid \<in> set (bd_accounts (wd_db w))")
    case True
    then have "take_claim (new_refund sid customer start requested (wd_clock w)) w = (res, w')"
      using run None by (simp add: claim_def)
    then obtain row' where "res = Inr (Some row', next_token w)" "requests w w'" "held 0 sid (next_token w) row' w'"
      using take_claim_held [OF ok new_refund_ok] None by blast
    then show ?thesis by simp
  next
    case False
    have "w' = w" "\<not> isl res \<Longrightarrow> res = Inr (None, '''')"
      using run None False by (auto simp: claim_def split: if_splits)
    then show ?thesis by (cases res) simp_all
  qed
next
  case (Some row)
  have row: "row_ok row" "rf_subscription_id row = sid"
    using ok Some refund_row_key [OF Some] unfolding ledger_ok_def by blast+
  show ?thesis
  proof (cases "is_final row \<or> rf_lease_until row > wd_clock w")
    case True
    have "w' = w" "\<not> isl res \<Longrightarrow> res = Inr (Some row, '''')"
      using run Some True by (auto simp: claim_def is_final_def split: if_splits)
    then show ?thesis by (cases res) simp_all
  next
    case False
    then have "take_claim row w = (res, w')" "\<not> is_final row" using run Some by (simp_all add: claim_def is_final_def)
    then obtain row' where "res = Inr (Some row', next_token w)" "requests w w'" "held 0 sid (next_token w) row' w'"
      using take_claim_held [OF ok row(1) _ row(2)] Some by blast
    then show ?thesis by simp
  qed
qed

subsection \<open>The operations are sequences of steps\<close>

text \<open>
  The contract of a ledger operation: from a ledger in order, with a provider that keeps its side, it
  leaves a world that sequences of atomic requests can reach. From it follows all that is claimed of
  the ledger, once for every operation.
\<close>

locale ledger_operation =
  fixes operation :: "BillingGateway \<Rightarrow> 'a \<Rightarrow> world \<Rightarrow> 'b \<times> world"
  assumes steps: "ledger_ok w \<Longrightarrow> gateway_ok g (next_token w) \<Longrightarrow> operation g x w = (res, w') \<Longrightarrow> requests w w'"
begin

lemma keeps_ledger_ok:
  "ledger_ok w \<Longrightarrow> gateway_ok g (next_token w) \<Longrightarrow> operation g x w = (res, w') \<Longrightarrow> ledger_ok w'"
  using steps ledger_ok_requests by blast

lemma sends_agree:
  assumes "ledger_ok w" "gateway_ok g (next_token w)" "operation g x w = (res, w')"
    and "c \<in> set (wd_sent w')" "d \<in> set (wd_sent w')" "rc_subscription c = rc_subscription d"
  shows "rc_amount c = rc_amount d \<and> rc_invoice c = rc_invoice d \<and> rc_key c = rc_key d"
  using sent_agree [OF keeps_ledger_ok [OF assms(1-3)] assms(4-6)] .

end

lemma requests_row:
  assumes "requests w w'" "refund_row sid w = Some r" "0 \<le> rf_amount r"
  shows "\<exists>r'. refund_row sid w' = Some r' \<and> keeps_frozen r r'"
  using assms(1) unfolding requests_def
proof (induction rule: rtranclp_induct)
  case base
  then show ?case using assms(2) keeps_frozen_refl by blast
next
  case (step y z)
  then obtain r1 t where r1: "refund_row sid y = Some r1" "keeps_frozen r r1" and t: "ledger_step t y z" by blast
  then have "0 \<le> rf_amount r1" using assms(3) by (simp add: keeps_frozen_def)
  then show ?case using ledger_step_row [OF t r1(1)] keeps_frozen_trans [OF r1(2)] by force
qed

lemma settle_send_held:
  assumes g: "gateway_ok g token" and h: "held 0 sid token row w" "0 \<le> rf_to_refund row"
    and run: "settle_send g sid token row w = (res, w')"
  shows "requests w w'"
proof -
  obtain res1 w1 where i: "settle_issue g token row w = (res1, w1)" by fastforce
  have k: "requests w w1 \<and> held 1 sid token row w1"
  proof (cases "0 < rf_to_refund row")
    case True
    then show ?thesis using i issue_held [OF g h(1) True] by (simp add: settle_issue_def)
  next
    case False
    then show ?thesis using i h(1) held_mono by (simp add: settle_issue_def)
  qed
  have row: "row_ok row" "\<not> is_final row" using h(1) by (simp_all add: held_def)
  have "requests w1 w'"
  proof (cases res1)
    case (Inl e)
    then show ?thesis using run i except_held [OF conjunct2 [OF k]] by (simp add: settle_send_def)
  next
    case (Inr issued)
    then have "finish row token (max 0 (rf_to_refund row)) (ir_credit_note_id issued)
        (rf_owed row) (rf_reason row) (ir_refund_id issued) False w1 = (res, w')"
      using run i by (simp add: settle_send_def)
    from finish_held [OF conjunct2 [OF k] _ _ _ this] show ?thesis
      using row h(2) by (auto simp: row_ok_def)
  qed
  then show ?thesis using k requests_trans by blast
qed

lemma settle_frozen_held:
  assumes g: "gateway_ok g token" and h: "held 0 sid token row w" "0 \<le> rf_amount row"
    and run: "settle_frozen g sid token row w = (res, w')"
  shows "requests w w'"
proof -
  obtain v row1 w1 where p: "settle_plan g sid token (row, w) = (v, row1, w1)" using prod_cases3 by blast
  note q = settle_plan_held [OF g h p]
  have "requests w1 w'"
  proof (cases v)
    case (Inl e)
    then have "held 0 sid token row1 w1" "settle_except sid token e row1 w1 = (res, w')"
      using q run p by (simp_all add: settle_frozen_def)
    then show ?thesis by (rule except_held)
  next
    case (Inr r)
    then show ?thesis
      using q run p settle_send_held [OF g, of sid row1 w1] by (cases r) (simp_all add: settle_frozen_def)
  qed
  then show ?thesis using q requests_trans by blast
qed

lemma settle_claimed_held:
  assumes g: "gateway_ok g token" and h: "held 0 sid token row w"
    and run: "settle_claimed g customer sid token start row w = (res, w')"
  shows "requests w w'"
proof -
  obtain res1 w1 where d: "gw_discard_pending_items g customer sid w = (res1, w1)" by fastforce
  note a = call_held [OF gateway_others(1) [OF g d] h]
  obtain v row1 w2 where f: "settle_freeze g sid token start (row, w1) = (v, row1, w2)"
    using prod_cases3 by blast
  note b = settle_freeze_held [OF g conjunct2 [OF a] f]
  have "requests w1 w'"
  proof (cases res1)
    case (Inl e)
    then show ?thesis using run d except_held [OF conjunct2 [OF a]] by (simp add: settle_claimed_def)
  next
    case n: (Inr n)
    have "requests w2 w'"
    proof (cases v)
      case (Inl e)
      then have "held 0 sid token row1 w2" "settle_except sid token e row1 w2 = (res, w')"
        using b run d n f by (simp_all add: settle_claimed_def)
      then show ?thesis by (rule except_held)
    next
      case (Inr r)
      then show ?thesis
        using b run d n f settle_frozen_held [OF g, of sid row1 w2] by (cases r) (simp_all add: settle_claimed_def)
    qed
    then show ?thesis using b requests_trans by blast
  qed
  then show ?thesis using a requests_trans by blast
qed

lemma settle_requests:
  assumes ok: "ledger_ok w" and g: "gateway_ok g (next_token w)"
    and run: "settle g uid customer sid start requested w = (res, w')"
  shows "requests w w'"
proof -
  obtain res1 w1 where cl: "claim uid customer sid start requested True w = (res1, w1)" by fastforce
  note c = claim_held [OF ok cl]
  show ?thesis
  proof (cases "\<exists>row token. res1 = Inr (Some row, token) \<and> token \<noteq> ''''")
    case False
    then have "w1 = w" "w' = w1"
      using c run cl by (auto simp: settle_def split: sum.splits prod.splits option.splits simp del: split_paired_Ex)
    then show ?thesis by simp
  next
    case True
    then obtain row token where r1: "res1 = Inr (Some row, token)" "token \<noteq> ''''" by blast
    then have h: "requests w w1" "held 0 sid token row w1" "gateway_ok g token" using c g by auto
    have "settle_claimed g customer sid token start row w1 = (res, w')"
      using run cl r1 by (simp add: settle_def)
    then show ?thesis using settle_claimed_held [OF h(3,2)] h(1) requests_trans by blast
  qed
qed

interpretation settling: ledger_operation
  "\<lambda>g (uid, customer, sid, start, requested). settle g uid customer sid start requested"
  by unfold_locales (auto intro: settle_requests)

lemma may_stamp:
  assumes "row_ok row" "\<not> is_final row"
  shows "may_write k row (stamp_attempt t)"
  unfolding may_write_def
proof (intro allI impI conjI)
  fix r assume c: "same_core k row r"
  have "row_ok r" "\<not> is_final r" using same_core_facts [OF c assms] by simp_all
  then show "row_ok (stamp_attempt t r)" by (simp add: row_ok_def stamp_attempt_def is_final_def)
qed (simp_all add: keeps_frozen_def stamp_attempt_def)

lemma stamp_held:
  assumes "held k sid token row w" "save sid token (stamp_attempt t) w = (res, w')"
  shows "requests w w' \<and> (isl res \<longrightarrow> w' = w \<and> res = Inl LostClaim)"
proof -
  have "row_ok row" "\<not> is_final row" using assms(1) by (simp_all add: held_def)
  from save_held [OF assms(1) may_stamp [OF this] assms(2)] show ?thesis by (cases res) simp_all
qed

lemma may_set_invoice:
  assumes "row_ok row" "\<not> is_final row" "rf_amount row < 0"
  shows "may_write 0 row (\<lambda>r. r\<lparr>rf_invoice_id := i, rf_currency := c\<rparr>)"
  unfolding may_write_def
proof (intro allI impI conjI)
  fix r assume s: "same_core 0 row r"
  have r: "row_ok r" "rf_amount r < 0" "rf_claim_token r = rf_claim_token row"
    using same_core_facts [OF s assms(1,2)] s assms(3) by (simp_all add: same_core_def)
  then show "row_ok (r\<lparr>rf_invoice_id := i, rf_currency := c\<rparr>)" by (simp add: row_ok_def is_final_def)
  show "keeps_frozen r (r\<lparr>rf_invoice_id := i, rf_currency := c\<rparr>)" using r(2) by (simp add: keeps_frozen_def)
  show "rf_claim_token (r\<lparr>rf_invoice_id := i, rf_currency := c\<rparr>) \<in> {rf_claim_token row, ''''}" using r(3) by simp
qed

definition stamp :: "string \<Rightarrow> string \<Rightarrow> unit action" where
  "stamp sid token w =
     (case save sid token (stamp_attempt (wd_clock w)) w of (Inl e, w'') \<Rightarrow> (Inl e, w'') | (Inr _, w'') \<Rightarrow> (Inr (), w''))"

lemma stamp_action_held:
  assumes "held 0 sid token row w" "stamp sid token w = (res, w')"
  shows "requests w w' \<and> (\<forall>e. res = Inl (Gateway e) \<longrightarrow> held 0 sid token row' w')"
proof -
  obtain res1 w1 where s: "save sid token (stamp_attempt (wd_clock w)) w = (res1, w1)" by fastforce
  note a = stamp_held [OF assms(1) s]
  show ?thesis
  proof (cases res1)
    case (Inl e)
    then have "res = Inl LostClaim" "w' = w" using a assms(2) s by (simp_all add: stamp_def)
    then show ?thesis by simp
  next
    case (Inr r)
    then have "isl res = False" "w' = w1" using assms(2) s by (auto simp: stamp_def)
    then show ?thesis using a by (cases res) simp_all
  qed
qed

text \<open>A provider error leaves the claim as it was; any other end is a sequence of requests.\<close>

lemma freeze_invoice_held:
  assumes g: "gateway_ok g token" and h: "held 0 sid token row w"
    and run: "freeze_invoice g sid token row w = (res, w')"
  shows "requests w w' \<and> (\<forall>e. res = Inl (Gateway e) \<longrightarrow> held 0 sid token row w')"
proof (cases "rf_invoice_id row = '''' \<and> rf_amount row < 0")
  case False
  then have "stamp sid token w = (res, w')"
    using run unfolding freeze_invoice_def stamp_def Let_def by (simp only: if_False)
  then show ?thesis using stamp_action_held [OF h] by blast
next
  case True
  have row: "row_ok row" "\<not> is_final row" using h by (simp_all add: held_def)
  obtain res1 w1 where call: "gw_refund_basis g sid '''' w = (res1, w1)" by fastforce
  note a = call_held [OF gateway_others(2) [OF g call] h]
  show ?thesis
  proof (cases res1)
    case (Inl e)
    then have "res = Inl (Gateway e)" "w' = w1" using run True call by (simp_all add: freeze_invoice_def Let_def)
    then show ?thesis using a by simp
  next
    case (Inr basis)
    show ?thesis
    proof (cases "rb_invoice_id basis = ''''")
      case none: True
      then have "stamp sid token w1 = (res, w')"
        using run True call Inr by (simp add: freeze_invoice_def stamp_def Let_def)
      note d = stamp_action_held [OF conjunct2 [OF a] this]
      show ?thesis using requests_trans [OF conjunct1 [OF a] conjunct1 [OF d]] d by simp
    next
      case some: False
      let ?f = "\<lambda>r. r\<lparr>rf_invoice_id := rb_invoice_id basis, rf_currency := rb_currency basis\<rparr>"
      obtain res2 w2 where s: "save sid token ?f w1 = (res2, w2)" by fastforce
      note b = save_held [OF conjunct2 [OF a] may_set_invoice [OF row conjunct2 [OF True]] s]
      show ?thesis
      proof (cases res2)
        case (Inl e)
        then have "res = Inl LostClaim" "w' = w1"
          using b run True call Inr some s by (simp_all add: freeze_invoice_def Let_def)
        then show ?thesis using a by simp
      next
        case saved: (Inr row1)
        then obtain r where r: "same_core 0 row r" "refund_row sid w2 = Some row1" "ledger_ok w2"
          "row1 = (?f r)\<lparr>rf_updated_at := wd_clock w1, rf_version := rf_version r + 1\<rparr>"
          using b unfolding saved sum.case by blast
        have "\<not> is_final row1" "rf_claim_token row1 = token"
          using r(1,4) h by (simp_all add: same_core_def held_def is_final_def)
        note c = held_keep [OF h r(2,3) this]
        have "stamp sid token w2 = (res, w')"
          using run True call Inr some s saved by (simp add: freeze_invoice_def stamp_def Let_def)
        note d = stamp_action_held [OF c this]
        show ?thesis
          using requests_trans [OF requests_trans [OF conjunct1 [OF a] conjunct1 [OF b]] conjunct1 [OF d]] d by simp
      qed
    qed
  qed
qed

lemma request_withdrawal_requests:
  assumes ok: "ledger_ok w" and g: "gateway_ok g (next_token w)"
    and run: "request_withdrawal g uid customer sid start requested w = (res, w')"
  shows "requests w w'"
proof -
  obtain res1 w1 where cl: "claim uid customer sid start requested True w = (res1, w1)" by fastforce
  note c = claim_held [OF ok cl]
  show ?thesis
  proof (cases "\<exists>row token. res1 = Inr (Some row, token) \<and> token \<noteq> ''''")
    case False
    then have "w1 = w" "w' = w1"
      using c run cl by (auto simp: request_withdrawal_def split: sum.splits prod.splits option.splits simp del: split_paired_Ex)
    then show ?thesis by simp
  next
    case True
    then obtain row token where r1: "res1 = Inr (Some row, token)" "token \<noteq> ''''" by blast
    then have h: "requests w w1" "held 0 sid token row w1" "gateway_ok g token" using c g by auto
    obtain res2 w2 where f: "freeze_invoice g sid token row w1 = (res2, w2)" by fastforce
    note a = freeze_invoice_held [OF h(3,2) f]
    obtain res3 w3 where s: "save sid token (stamp_attempt (wd_clock w2)) w2 = (res3, w3)" by fastforce
    have "requests w2 w'"
    proof (cases "\<exists>e. res2 = Inl (Gateway e)")
      case True
      then obtain e where e: "res2 = Inl (Gateway e)" "held 0 sid token row w2" using a by blast
      show ?thesis
      proof (cases "is_permanent e")
        case True
        then have "w' = w3" using run cl r1 f e s by (auto simp: request_withdrawal_def split: sum.splits)
        then show ?thesis using stamp_held [OF e(2) s] by blast
      next
        case False
        then have "w' = release sid token w2" using run cl r1 f e by (simp add: request_withdrawal_def)
        then show ?thesis using release_held [OF e(2)] by simp
      qed
    next
      case False
      then have "w' = w2" using run cl r1 f
        by (auto simp: request_withdrawal_def split: sum.splits withdrawal_error.splits)
      then show ?thesis by simp
    qed
    then show ?thesis using h(1) a requests_trans by blast
  qed
qed

lemma resolve_pending_requests:
  assumes ok: "ledger_ok w" and g: "gateway_ok g (next_token w)"
    and run: "resolve_pending g sid w = (res, w')"
  shows "requests w w'"
proof (cases "refund_row sid w")
  case None
  then show ?thesis using run by (simp add: resolve_pending_def)
next
  case (Some row0)
  obtain res1 w1 where cl: "claim (owner_account (wd_db w) (rf_customer_id row0)) (rf_customer_id row0) sid
      (rf_contract_started_at row0) (rf_requested_at row0) False w = (res1, w1)" by fastforce
  note c = claim_held [OF ok cl]
  show ?thesis
  proof (cases "\<exists>row token. res1 = Inr (Some row, token) \<and> token \<noteq> ''''")
    case False
    then have "w1 = w" "w' = w1"
      using c run cl Some by (auto simp: resolve_pending_def split: sum.splits prod.splits option.splits simp del: split_paired_Ex)
    then show ?thesis by simp
  next
    case True
    then obtain row token where r1: "res1 = Inr (Some row, token)" "token \<noteq> ''''" by blast
    then have h: "requests w w1" "held 0 sid token row w1" "gateway_ok g token" using c g by auto
    have am: "0 \<le> rf_amount row" if "0 < rf_to_refund row"
      using h(2) that by (simp add: held_def row_ok_def)
    obtain res2 w2 where call: "gw_refund_plan g sid (rf_amount row) (refund_key sid) (rf_invoice_id row) w1 = (res2, w2)"
      by fastforce
    note a = call_held [OF gateway_others(3) [OF h(3) call] h(2)]
    have "requests w1 w'"
    proof (cases "0 < rf_to_refund row \<and> (\<exists>p. res2 = Inr p \<and> rp_existing_note_id p \<noteq> '''')")
      case True
      then obtain p where p: "res2 = Inr p" "rp_existing_note_id p \<noteq> ''''" by blast
      have po: "plan_ok (rf_amount row) p" using gateway_plan [OF h(3) am] True call p(1) by simp
      obtain res3 w3 where f: "finish row token (rp_existing_cents p) (rp_existing_note_id p)
          (rp_owed_cents p) (rp_reason p) (rp_existing_refund_id p) False w2 = (res3, w3)" by fastforce
      have "w' = w3" using run Some cl r1 True call p f by (auto simp: resolve_pending_def split: sum.splits)
      moreover have "requests w2 w3"
        using finish_held [OF conjunct2 [OF a] _ _ _ f] po by (simp add: plan_ok_def)
      ultimately show ?thesis using a requests_trans by blast
    next
      case False
      then have "w' = (if 0 < rf_to_refund row then release sid token w2 else release sid token w1)"
        using run Some cl r1 call by (auto simp: resolve_pending_def split: sum.splits if_splits)
      then show ?thesis using release_held [OF h(2)] release_held [OF conjunct2 [OF a]] a requests_trans by auto
    qed
    then show ?thesis using h(1) requests_trans by blast
  qed
qed

interpretation requesting: ledger_operation
  "\<lambda>g (uid, customer, sid, start, requested). request_withdrawal g uid customer sid start requested"
  by unfold_locales (auto intro: request_withdrawal_requests)

interpretation resolving: ledger_operation resolve_pending
  by unfold_locales (rule resolve_pending_requests)

subsection \<open>A refund that fails after it was made\<close>

text \<open>The ledger's keys: the subscription is the primary key, a refund id names one row.\<close>

definition ledger_keys :: "world \<Rightarrow> bool" where
  "ledger_keys w =
     (distinct (map rf_subscription_id (ledger w)) \<and>
      (\<forall>x\<in>set (ledger w). \<forall>y\<in>set (ledger w).
         rf_refund_id x = rf_refund_id y \<and> rf_refund_id x \<noteq> '''' \<longrightarrow> rf_subscription_id x = rf_subscription_id y))"

definition deliver_failure :: "string \<Rightarrow> string \<times> int \<Rightarrow> world \<Rightarrow> bool \<times> world" where
  "deliver_failure reason e w =
     (case record_refund_failure (fst e) (snd e) reason w of (answer, w') \<Rightarrow> (answer = APPLIED, w'))"

lemma answers_distinct [simp]: "APPLIED \<noteq> RECORDED" "APPLIED \<noteq> UNMATCHED" "RECORDED \<noteq> UNMATCHED"
  "RECORDED \<noteq> APPLIED" "UNMATCHED \<noteq> APPLIED"
  by (simp_all add: APPLIED_def RECORDED_def UNMATCHED_def)

lemma fail_fields_fields [simp]:
  "rf_subscription_id (fail_fields i amount reason now r) = rf_subscription_id r"
  "rf_refund_id (fail_fields i amount reason now r) = ''''"
  "rf_failed_refund_id (fail_fields i amount reason now r) = i"
  "rf_state (fail_fields i amount reason now r) = OWED"
  by (simp_all add: fail_fields_def Let_def)

lemma find_put_gone:
  assumes "ledger_keys w" "r \<in> set (ledger w)" "rf_refund_id r = i" "i \<noteq> ''''"
    and "rf_subscription_id r' = rf_subscription_id r" "rf_refund_id r' = ''''"
  shows "find (\<lambda>x. rf_refund_id x = i) (put_refund r' (ledger w)) = None" "r' \<in> set (put_refund r' (ledger w))"
proof -
  let ?upd = "\<lambda>x. if rf_subscription_id x = rf_subscription_id r then r' else x"
  have ex: "\<exists>x\<in>set (ledger w). rf_subscription_id x = rf_subscription_id r" using assms(2) by blast
  have put: "put_refund r' (ledger w) = map ?upd (ledger w)"
    unfolding save_row_def assms(5) using ex by (simp only: if_True)
  have "?upd r \<in> set (map ?upd (ledger w))" unfolding set_map using assms(2) by (rule imageI)
  then show "r' \<in> set (put_refund r' (ledger w))" by (simp only: simp_thms if_True put)
  have "rf_refund_id (?upd x) \<noteq> i" if "x \<in> set (ledger w)" for x
  proof (cases "rf_subscription_id x = rf_subscription_id r")
    case True
    then show ?thesis using assms(4,6) by simp
  next
    case False
    have "rf_refund_id x = rf_refund_id r \<and> rf_refund_id x \<noteq> '''' \<longrightarrow> rf_subscription_id x = rf_subscription_id r"
      using assms(1,2) that unfolding ledger_keys_def by blast
    then show ?thesis using False assms(3,4) by simp
  qed
  then show "find (\<lambda>x. rf_refund_id x = i) (put_refund r' (ledger w)) = None"
    unfolding put find_None_iff set_map by blast
qed

lemma record_failure_applied:
  assumes "find (\<lambda>r. rf_refund_id r = i) (ledger w) = Some row" "i \<noteq> ''''"
  shows "record_refund_failure i amount reason w =
    (APPLIED, set_ledger (put_refund (fail_fields i amount reason (wd_clock w) row) (ledger w)) w)"
  using assms by (simp add: record_refund_failure_def)

lemma record_failure_again:
  assumes "ledger_keys w" "find (\<lambda>r. rf_refund_id r = i) (ledger w) = Some row" "i \<noteq> ''''"
    and "w' = set_ledger (put_refund (fail_fields i amount reason (wd_clock w) row) (ledger w)) w"
  shows "record_refund_failure i amount' reason' w' = (RECORDED, w')"
proof -
  have row: "row \<in> set (ledger w)" "rf_refund_id row = i"
    using assms(2) unfolding find_Some_iff by (metis nth_mem)+
  let ?r' = "fail_fields i amount reason (wd_clock w) row"
  note gone = find_put_gone [OF assms(1) row assms(3), of ?r']
  have l: "ledger w' = put_refund ?r' (ledger w)" using assms(4) by simp
  have "find (\<lambda>r. rf_refund_id r = i) (ledger w') = None" "?r' \<in> set (ledger w')"
    unfolding l using gone by simp_all
  moreover have "rf_failed_refund_id ?r' = i" by simp
  ultimately have "find (\<lambda>r. rf_refund_id r = i) (ledger w') = None"
    "\<exists>r\<in>set (ledger w'). rf_failed_refund_id r = i" by blast+
  then show ?thesis
    using assms(3) unfolding record_refund_failure_def by (simp only: option.case if_True if_False)
qed

lemma ledger_keys_fail:
  assumes "ledger_keys w" "rf_refund_id r' = ''''" "ledger w' = put_refund r' (ledger w)"
  shows "ledger_keys w'"
proof -
  have mem: "x = r' \<or> x \<in> set (ledger w)" if "x \<in> set (ledger w')" for x
    using that unfolding assms(3) save_row_def by (cases "\<exists>x\<in>set (ledger w). rf_subscription_id x = rf_subscription_id r'") (auto split: if_splits)
  have "rf_subscription_id x = rf_subscription_id y"
    if "x \<in> set (ledger w')" "y \<in> set (ledger w')" "rf_refund_id x = rf_refund_id y" "rf_refund_id x \<noteq> ''''" for x y
  proof -
    have "x \<in> set (ledger w)" "y \<in> set (ledger w)" using mem that assms(2) by metis+
    then show ?thesis using assms(1) that(3,4) unfolding ledger_keys_def by blast
  qed
  moreover have "distinct (map rf_subscription_id (ledger w'))"
    using assms(1,3) distinct_save unfolding ledger_keys_def by metis
  ultimately show ?thesis unfolding ledger_keys_def by blast
qed

text \<open>The failure handler is at-least-once too: its answer is whether the event was applied.\<close>

lemma failure_cases:
  assumes "fst e \<noteq> ''''"
  obtains (unknown) "\<And>reason. deliver_failure reason e w = (False, w)"
  | (known) row where "find (\<lambda>r. rf_refund_id r = fst e) (ledger w) = Some row"
      "\<And>reason. deliver_failure reason e w =
        (True, set_ledger (put_refund (fail_fields (fst e) (snd e) reason (wd_clock w) row) (ledger w)) w)"
proof (cases "find (\<lambda>r. rf_refund_id r = fst e) (ledger w)")
  case None
  then have "deliver_failure reason e w = (False, w)" for reason
    using assms by (simp add: deliver_failure_def record_refund_failure_def)
  then show thesis by (rule unknown)
next
  case (Some row)
  then show thesis using known record_failure_applied [OF Some assms] by (simp add: deliver_failure_def)
qed

interpretation failures: at_least_once deliver_failure "\<lambda>e w. fst e \<noteq> '''' \<and> ledger_keys w"
proof (unfold_locales, goal_cases)
  case (1 e w reason' reason)
  then have ne: "fst e \<noteq> ''''" and k: "ledger_keys w" by simp_all
  show ?case
  proof (cases rule: failure_cases [OF ne, of w])
    case 1
    then show ?thesis by simp
  next
    case (2 row)
    from record_failure_again [OF k 2(1) ne refl, of "snd e" reason'] show ?thesis
      unfolding 2(2) [of reason] by (simp add: deliver_failure_def)
  qed
next
  case (2 e w reason)
  then have ne: "fst e \<noteq> ''''" and k: "ledger_keys w" by simp_all
  show ?case
  proof (cases rule: failure_cases [OF ne, of w])
    case 1
    then show ?thesis using k ne by simp
  next
    case (2 row)
    have "ledger_keys (snd (deliver_failure reason e w))"
      unfolding 2(2) by (rule ledger_keys_fail [OF k, of "fail_fields (fst e) (snd e) reason (wd_clock w) row"]) simp_all
    then show ?thesis using ne by simp
  qed
qed

subsection \<open>Properties\<close>


text \<open>A provider that answers every call, refunds what it is asked to and is not interfered with.\<close>

definition example_basis :: RefundBasis where
  "example_basis = \<lparr>rb_subscription_id = ''sub_1'', rb_ended_at = 1010, rb_invoice_id = ''in_1'',
     rb_amount_paid = 300, rb_currency = ''eur'', rb_period_start = 500, rb_period_end = 1520, rb_total = 300\<rparr>"

definition example_gateway :: BillingGateway where
  "example_gateway =
     \<lparr>gw_discard_pending_items = (\<lambda>_ _ w. (Inr 0, w)),
      gw_refund_basis = (\<lambda>_ _ w. (Inr example_basis, w)),
      gw_refund_plan = (\<lambda>_ a _ _ w. (Inr (refund_plan_of a), w)),
      gw_issue_refund = (\<lambda>_ _ _ _ _ w. (Inr \<lparr>ir_credit_note_id = ''cn_1'', ir_refund_id = ''re_1''\<rparr>, w)),
      gw_cancel_subscription = (\<lambda>_ _ w. (Inr (), w))\<rparr>"

definition example_world :: world where
  "example_world = \<lparr>wd_db = one_account, wd_clock = 1000, wd_tokens = 0, wd_sent = []\<rparr>"

lemma example_world_ok: "ledger_ok example_world"
  by (simp add: ledger_ok_def example_world_def one_account_def refund_row_def ledger_def first_row_def)

lemma example_gateway_ok: "gateway_ok example_gateway token"
  by (simp add: gateway_ok_def example_gateway_def others_def plan_ok_def refund_plan_of_def)


text \<open>A final refund is answered from the ledger. Once a row is done, owed or settled, asking again,
  by any route and with whatever provider, changes nothing and asks the provider nothing: the
  answer is the recorded outcome.\<close>

theorem final_refund_is_answered_from_ledger:
  assumes "refund_row sid w = Some row" "rf_state row \<in> FINAL"
  shows "settle g uid customer sid start requested w = (Inr (outcome row), w) \<and>
    request_withdrawal g uid customer sid start requested w = (Inr (rf_state row), w) \<and>
    resolve_pending g sid w = (Inr (rf_state row), w)"
  using assms by (simp add: settle_def request_withdrawal_def resolve_pending_def claim_def)

theorem final_refund_is_answered_from_ledger_witness:
  "let w = snd (settle example_gateway 7 ''cus_1'' ''sub_1'' 500 1000 example_world) in
   settle example_gateway 7 ''cus_1'' ''sub_1'' 500 1000 w =
     (Inr \<lparr>amount_cents = 150, currency = ''eur'', owed_cents = 0\<rparr>, w)"
proof -
  let ?w = "snd (settle example_gateway 7 ''cus_1'' ''sub_1'' 500 1000 example_world)"
  let ?row = "the (refund_row ''sub_1'' ?w)"
  have "refund_row ''sub_1'' ?w \<noteq> None" and f: "rf_state ?row \<in> FINAL"
    and o: "outcome ?row = \<lparr>amount_cents = 150, currency = ''eur'', owed_cents = 0\<rparr>"
    by code_simp+
  then have "refund_row ''sub_1'' ?w = Some ?row" by (metis option.collapse)
  from final_refund_is_answered_from_ledger [OF this f] o show ?thesis unfolding Let_def by metis
qed

text \<open>C7. Claims exclude and fence each other. A request that took a claim keeps every other one off the
  row while its lease runs; once it has run out another request can take the row, and from then on
  whatever the first still writes is refused and leaves the world as it is.\<close>

theorem claims_exclude_and_fence:
  assumes "claim uid customer sid start requested True w = (Inr (Some row, token), w1)" "token \<noteq> ''''"
    and "refund_row sid w2 = refund_row sid w1" "wd_tokens w < wd_tokens w2"
  shows "(wd_clock w2 < wd_clock w + LEASE_SECONDS \<longrightarrow>
      claim uid' customer' sid start' requested' create w2 = (Inl RefundInProgress, w2)) \<and>
    (wd_clock w + LEASE_SECONDS \<le> wd_clock w2 \<longrightarrow>
      (\<exists>row' token' w3. claim uid' customer' sid start' requested' create w2 = (Inr (Some row', token'), w3) \<and>
         token' \<noteq> '''' \<and> (\<forall>f. save sid token f w3 = (Inl LostClaim, w3)) \<and>
         save sid token' f w3 \<noteq> (Inl LostClaim, w3)))"
proof -
  obtain row0 where row0: "\<not> is_final row0" "rf_subscription_id row0 = sid"
    "take_claim row0 w = (Inr (Some row, token), w1)"
  proof (cases "refund_row sid w")
    case None
    then have "take_claim (new_refund sid customer start requested (wd_clock w)) w = (Inr (Some row, token), w1)"
      using assms(1) by (simp add: claim_def split: if_splits)
    then show thesis using that new_refund_ok(2,3) by blast
  next
    case (Some r)
    then have "take_claim r w = (Inr (Some row, token), w1)" "\<not> is_final r"
      using assms(1,2) by (simp_all add: claim_def is_final_def split: if_splits)
    then show thesis using that refund_row_key [OF Some] by blast
  qed
  have row: "row = row0\<lparr>rf_claim_token := next_token w, rf_lease_until := wd_clock w + LEASE_SECONDS,
      rf_updated_at := wd_clock w, rf_version := rf_version row0 + 1\<rparr>" "token = next_token w"
    "ledger w1 = put_refund row (ledger w)"
    using row0(3) by (auto simp: take_claim_def Let_def)
  have r: "rf_lease_until row = wd_clock w + LEASE_SECONDS" "\<not> is_final row" "rf_subscription_id row = sid"
    using row(1) row0(1,2) by (simp_all add: is_final_def)
  have stored: "refund_row sid w2 = Some row" using assms(3) refund_row_put [OF row(3), of sid] r(3) by simp
  have nt: "next_token w2 \<noteq> token" using assms(4) row(2) by (simp add: next_token_def)
  define row' where "row' = row\<lparr>rf_claim_token := next_token w2, rf_lease_until := wd_clock w2 + LEASE_SECONDS,
      rf_updated_at := wd_clock w2, rf_version := rf_version row + 1\<rparr>"
  define w3 where "w3 = (set_ledger (put_refund row' (ledger w2)) w2)\<lparr>wd_tokens := wd_tokens w2 + 1\<rparr>"
  have tk: "take_claim row w2 = (Inr (Some row', next_token w2), w3)"
    by (simp add: take_claim_def Let_def row'_def w3_def)
  have l3: "ledger w3 = put_refund row' (ledger w2)" by (simp add: w3_def)
  have stored3: "refund_row sid w3 = Some row'" using refund_row_put [OF l3, of sid] r(3) by (simp add: row'_def)
  have "save sid token f w3 = (Inl LostClaim, w3)" "save sid (next_token w2) f w3 \<noteq> (Inl LostClaim, w3)" for f
    using stored3 nt by (simp_all add: save_def row'_def Let_def)
  moreover have "claim uid' customer' sid start' requested' create w2 = (Inl RefundInProgress, w2)"
    if "wd_clock w2 < wd_clock w + LEASE_SECONDS"
    using that stored r by (simp add: claim_def is_final_def)
  moreover have "claim uid' customer' sid start' requested' create w2 = (Inr (Some row', next_token w2), w3)"
    if "wd_clock w + LEASE_SECONDS \<le> wd_clock w2"
    using that stored r tk by (simp add: claim_def is_final_def)
  ultimately show ?thesis by (metis next_token_nonempty(1))
qed

theorem claims_exclude_and_fence_witness:
  "let w1 = snd (claim 7 ''cus_1'' ''sub_1'' 500 1000 True example_world) in
   claim 7 ''cus_1'' ''sub_1'' 500 1000 True w1 = (Inl RefundInProgress, w1)"
proof -
  let ?c = "claim 7 ''cus_1'' ''sub_1'' 500 1000 True example_world"
  have h: "fst ?c = Inr (Some (fst (the (map_option (\<lambda>r. (r, ())) (refund_row ''sub_1'' (snd ?c))))), ''token-0'')"
    "wd_tokens example_world < wd_tokens (snd ?c)" "wd_clock (snd ?c) < wd_clock example_world + LEASE_SECONDS"
    by code_simp+
  then obtain row where c: "?c = (Inr (Some row, ''token-0''), snd ?c)" by (metis prod.collapse)
  have "''token-0'' \<noteq> ''''" by simp
  from claims_exclude_and_fence [OF c this refl h(2), of 7 "''cus_1''" 500 1000 True] h(3)
  show ?thesis unfolding Let_def by blast
qed


definition refunded_world :: world where
  "refunded_world = snd (settle example_gateway 7 ''cus_1'' ''sub_1'' 500 1000 example_world)"




end
