(* ===== verification/FileSystem.thy ===== *)
theory FileSystem
  imports TJ_Prelude "HOL-Library.Sublist"
begin

text \<open>
  The part of \<open>pathlib\<close> and \<open>os\<close> the components use, on an explicit file system: absolute paths as
  lists of components, regular files with their sizes, directories and symbolic links.
  \<open>Path.resolve()\<close> walks a path from the root, takes \<open>..\<close> physically, keeps components that do not
  exist and follows at most 40 links (beyond that the call fails, as on Linux). A link's target is
  absolute. Permissions are not modelled.
\<close>

type_synonym path = "string list"

datatype node = RegFile nat | DirNode nat | LinkTo path

type_synonym filesystem = "(path \<times> node) list"

fun split_slash :: "string \<Rightarrow> string list" where
  "split_slash [] = [[]]"
| "split_slash (c # cs) =
     (if c = CHR ''/'' then [] # split_slash cs
      else (case split_slash cs of [] \<Rightarrow> [[c]] | w # ws \<Rightarrow> (c # w) # ws))"

text \<open>\<open>p / s\<close>: empty and dot components vanish, an absolute \<open>s\<close> replaces \<open>p\<close>.\<close>

definition components :: "string \<Rightarrow> path" where
  "components s = filter (\<lambda>w. w \<noteq> [] \<and> w \<noteq> ''.'') (split_slash s)"

definition path_join :: "path \<Rightarrow> string \<Rightarrow> path" where
  "path_join p s = (if take 1 s = ''/'' then components s else p @ components s)"

text \<open>\<open>p.name\<close>, \<open>p.parent\<close> and \<open>p.parents\<close>, of absolute paths.\<close>

definition path_name :: "path \<Rightarrow> string" where
  "path_name p = (if p = [] then [] else last p)"

definition path_parents :: "path \<Rightarrow> path list" where
  "path_parents p = map (\<lambda>k. take k p) [0..<length p]"

fun resolve_from :: "nat \<Rightarrow> filesystem \<Rightarrow> path \<Rightarrow> path \<Rightarrow> path option" where
  "resolve_from n fs acc [] = Some acc"
| "resolve_from n fs acc (c # cs) =
     (if c = ''..'' then resolve_from n fs (butlast acc) cs
      else (case map_of fs (acc @ [c]) of
              Some (LinkTo t) \<Rightarrow>
                (case n of 0 \<Rightarrow> None | Suc m \<Rightarrow> resolve_from m fs [] (t @ cs))
            | _ \<Rightarrow> resolve_from n fs (acc @ [c]) cs))"

definition MAX_LINKS :: nat where
  "MAX_LINKS = 40"

definition resolve :: "filesystem \<Rightarrow> path \<Rightarrow> path option" where
  "resolve fs p = resolve_from MAX_LINKS fs [] p"

text \<open>\<open>p.stat().st_size\<close>, or no value for an \<open>OSError\<close>.\<close>

definition stat_size :: "filesystem \<Rightarrow> path \<Rightarrow> nat option" where
  "stat_size fs p =
     (case resolve fs p of
        None \<Rightarrow> None
      | Some q \<Rightarrow> (case map_of fs q of
                     Some (RegFile n) \<Rightarrow> Some n
                   | Some (DirNode n) \<Rightarrow> Some n
                   | _ \<Rightarrow> None))"

text \<open>
  \<open>p.unlink(missing_ok=True)\<close> removes the entry itself, a link included, found under the resolved
  parent. No value: the call raises (a directory, or a parent that does not resolve).
\<close>

definition remove_entry :: "path \<Rightarrow> filesystem \<Rightarrow> filesystem" where
  "remove_entry q fs = filter (\<lambda>e. fst e \<noteq> q) fs"

definition unlink_entry :: "filesystem \<Rightarrow> path \<Rightarrow> path option" where
  "unlink_entry fs p = map_option (\<lambda>d. d @ [path_name p]) (resolve fs (butlast p))"

definition unlink_path :: "filesystem \<Rightarrow> path \<Rightarrow> filesystem option" where
  "unlink_path fs p =
     (case unlink_entry fs p of
        None \<Rightarrow> None
      | Some q \<Rightarrow> (case map_of fs q of
                     Some (DirNode _) \<Rightarrow> None
                   | _ \<Rightarrow> Some (remove_entry q fs)))"

lemma map_of_remove_entry:
  "map_of (remove_entry q fs) p = (if p = q then None else map_of fs p)"
  by (induction fs) (auto simp: remove_entry_def)

lemma split_slash_nonempty [simp]: "split_slash s \<noteq> []"
  by (induction s) (auto split: list.splits)

lemma split_slash_plain: "CHR ''/'' \<notin> set s \<Longrightarrow> split_slash s = [s]"
  by (induction s) auto

lemma path_join_plain:
  assumes "CHR ''/'' \<notin> set s" "s \<noteq> []" "s \<noteq> ''.''"
  shows "path_join p s = p @ [s]"
proof -
  have "take 1 s \<noteq> ''/''" using assms by (cases s) auto
  with assms show ?thesis by (simp add: path_join_def components_def split_slash_plain)
qed

text \<open>A path with no link on its way and no \<open>..\<close> is its own resolution.\<close>

lemma resolve_from_plain:
  assumes "''..'' \<notin> set cs"
    and "\<And>k t. k \<le> length cs \<Longrightarrow> map_of fs (acc @ take k cs) \<noteq> Some (LinkTo t)"
  shows "resolve_from n fs acc cs = Some (acc @ cs)"
  using assms
proof (induction cs arbitrary: acc)
  case (Cons c cs)
  have "map_of fs (acc @ [c]) \<noteq> Some (LinkTo t)" for t
    using Cons.prems(2) [of 1] by simp
  moreover have "resolve_from n fs (acc @ [c]) cs = Some ((acc @ [c]) @ cs)"
  proof (rule Cons.IH)
    fix k t assume "k \<le> length cs"
    then show "map_of fs ((acc @ [c]) @ take k cs) \<noteq> Some (LinkTo t)"
      using Cons.prems(2) [of "Suc k" t] by simp
  qed (use Cons.prems(1) in simp)
  ultimately show ?case
    using Cons.prems(1) by (auto split: option.splits node.splits)
qed simp

text \<open>Resolution goes through the resolved parent: it is the parent's, then the last component.\<close>

lemma resolve_from_append:
  "resolve_from n fs acc (ps @ cs) = Some q \<Longrightarrow> \<exists>d. resolve_from n fs acc ps = Some d"
proof (induction n fs acc ps rule: resolve_from.induct)
  case (2 n fs acc c cs')
  then show ?case
    by (auto split: if_splits option.splits node.splits nat.splits simp del: append_assoc
        simp: append_assoc [symmetric])
qed simp

end
