(* ===== verification/Usage.thy ===== *)
theory Usage
  imports FileSystem Json BillingModels Entitlements
begin

text \<open>
  Photo files and storage accounting: \<open>src/utils/photo_paths.py\<close> (where a stored photo name may
  point), \<open>src/admin/storage.py\<close> (the tree walk with its cache) and \<open>src/billing/usage.py\<close> (the
  per-user counter an upload adds to, a delete subtracts from and the nightly job corrects).

  The counter is a row of the usage table. \<open>record_delta\<close> is given twice: as one call that runs
  alone, and as the step relation \<open>usage_step\<close> in which any number of calls interleave at the
  points where the code talks to the database.
\<close>

subsection \<open>photo_paths.py\<close>

definition is_lower_hex :: "char \<Rightarrow> bool" where
  "is_lower_hex c = (is_digit c \<or> (let n = of_char c :: nat in 97 \<le> n \<and> n \<le> 102))"

fun hex_groups :: "nat list \<Rightarrow> string \<Rightarrow> bool" where
  "hex_groups [] s = (s = [])"
| "hex_groups [n] s = (length s = n \<and> list_all is_lower_hex s)"
| "hex_groups (n # ns) s =
     (length (take n s) = n \<and> list_all is_lower_hex (take n s) \<and>
      take 1 (drop n s) = ''-'' \<and> hex_groups ns (drop (Suc n) s))"

definition PHOTO_NAME :: "string \<Rightarrow> bool" where
  "PHOTO_NAME s = hex_groups [8, 4, 4, 4, 12] s"

definition PHOTO_SUFFIXES :: "string list" where
  "PHOTO_SUFFIXES = ['''', ''_thumb'']"

definition is_photo_name :: "json \<Rightarrow> bool" where
  "is_photo_name v = (case v of JStr s \<Rightarrow> PHOTO_NAME s | _ \<Rightarrow> False)"

definition photo_folder :: "path \<Rightarrow> string \<Rightarrow> string \<Rightarrow> string \<Rightarrow> path" where
  "photo_folder data_dir user_id kind content_id =
     path_join (path_join (path_join (path_join data_dir ''users'') user_id) kind) content_id"

definition photo_file :: "filesystem \<Rightarrow> path \<Rightarrow> json \<Rightarrow> string \<Rightarrow> path option" where
  "photo_file fs folder name suf =
     (if \<not> is_photo_name name \<or> suf \<notin> set PHOTO_SUFFIXES then None
      else
        (let p = path_join folder (py_str name @ suf @ ''.jpg'') in
         case (resolve fs p, resolve fs folder) of
           (Some r, Some f) \<Rightarrow> if butlast r \<noteq> f then None else Some p
         | _ \<Rightarrow> None))"

definition photo_files :: "filesystem \<Rightarrow> path \<Rightarrow> json list \<Rightarrow> path list" where
  "photo_files fs folder names =
     concat (map (\<lambda>name. List.map_filter (photo_file fs folder name) PHOTO_SUFFIXES) names)"

subsection \<open>admin/storage.py\<close>

definition SHARE_COPY_SUFFIX :: string where
  "SHARE_COPY_SUFFIX = ''_share.jpg''"

definition is_share_copy :: "string \<Rightarrow> bool" where
  "is_share_copy filename = suffix SHARE_COPY_SUFFIX filename"

definition counted_size :: "path \<Rightarrow> path \<times> node \<Rightarrow> nat" where
  "counted_size base e =
     (case e of (p, RegFile n) \<Rightarrow>
        if strict_prefix base p \<and> \<not> is_share_copy (path_name p) then n else 0
      | _ \<Rightarrow> 0)"

definition dir_size :: "filesystem \<Rightarrow> path \<Rightarrow> nat" where
  "dir_size fs base =
     (case resolve fs base of
        None \<Rightarrow> 0
      | Some r \<Rightarrow> sum_list (map (counted_size r) fs))"

definition user_dir :: "path \<Rightarrow> string \<Rightarrow> path" where
  "user_dir data_dir user_id = path_join (path_join data_dir ''users'') user_id"

definition CACHE_TTL_SECONDS :: seconds where
  "CACHE_TTL_SECONDS = 300"

type_synonym storage_cache = "(string \<times> nat \<times> seconds) list"

definition cached_user_storage ::
  "filesystem \<Rightarrow> path \<Rightarrow> storage_cache \<Rightarrow> string \<Rightarrow> seconds \<Rightarrow> nat \<times> storage_cache" where
  "cached_user_storage fs data_dir cache key ts =
     (case map_of cache key of
        Some (sz, since) \<Rightarrow>
          if ts - since < CACHE_TTL_SECONDS then (sz, cache)
          else (let size' = dir_size fs (user_dir data_dir key) in (size', (key, size', ts) # cache))
      | None \<Rightarrow>
          (let size' = dir_size fs (user_dir data_dir key) in (size', (key, size', ts) # cache)))"

definition refresh_storage_cache :: "string option \<Rightarrow> storage_cache \<Rightarrow> storage_cache" where
  "refresh_storage_cache user_id cache =
     (case user_id of None \<Rightarrow> [] | Some k \<Rightarrow> filter (\<lambda>e. fst e \<noteq> k) cache)"

subsection \<open>usage.py\<close>

definition bytes_of :: "filesystem \<Rightarrow> path list \<Rightarrow> int" where
  "bytes_of fs ps =
     foldl (\<lambda>total p. case stat_size fs p of Some n \<Rightarrow> total + int n | None \<Rightarrow> total) 0 ps"

text \<open>One UPDATE: every row of the user, its counter clamped at zero; with the number of rows hit.\<close>

definition add_in_db :: "int \<Rightarrow> int \<Rightarrow> seconds \<Rightarrow> UserUsage list \<Rightarrow> UserUsage list \<times> nat" where
  "add_in_db uid delta now rows =
     (map (\<lambda>r. if us_user_info_id r = uid
               then r\<lparr>us_storage_bytes := (let total = us_storage_bytes r + delta in
                                           if total < 0 then 0 else total),
                      us_updated_at := now\<rparr>
               else r) rows,
      length (filter (\<lambda>r. us_user_info_id r = uid) rows))"

text \<open>
  The commit of a new counter: refused when the user has one (unique \<open>user_info_id\<close>) or does not
  exist (foreign key).
\<close>

definition insert_usage ::
  "int list \<Rightarrow> int \<Rightarrow> int \<Rightarrow> seconds \<Rightarrow> UserUsage list \<Rightarrow> UserUsage list option" where
  "insert_usage users uid delta now rows =
     (if uid \<in> us_user_info_id ` set rows \<or> uid \<notin> set users then None
      else Some (rows @ [(new_usage uid now)\<lparr>us_storage_bytes := max 0 delta\<rparr>]))"

text \<open>\<open>int(user_id)\<close> with its \<open>TypeError\<close> and \<open>ValueError\<close>, for the ids the callers pass.\<close>

definition user_id_int :: "json \<Rightarrow> int option" where
  "user_id_int v = (case v of JInt n \<Rightarrow> Some n | JStr s \<Rightarrow> py_int s | _ \<Rightarrow> None)"

definition record_delta ::
  "int list \<Rightarrow> json \<Rightarrow> int \<Rightarrow> seconds \<Rightarrow> UserUsage list \<Rightarrow> UserUsage list" where
  "record_delta users user_id delta now rows =
     (if delta = 0 then rows
      else case user_id_int user_id of
        None \<Rightarrow> rows
      | Some uid \<Rightarrow>
          (case add_in_db uid delta now rows of (rows', hit) \<Rightarrow>
             if hit \<noteq> 0 then rows'
             else case insert_usage users uid delta now rows of
               Some inserted \<Rightarrow> inserted
             | None \<Rightarrow>
                 (case add_in_db uid delta now rows of (rows'', hit') \<Rightarrow>
                    if hit' = 0 then rows else rows'')))"

definition record_written ::
  "int list \<Rightarrow> filesystem \<Rightarrow> json \<Rightarrow> path list \<Rightarrow> seconds \<Rightarrow> UserUsage list \<Rightarrow> UserUsage list" where
  "record_written users fs user_id ps now rows =
     record_delta users user_id (bytes_of fs ps) now rows"

definition in_user_folder :: "string \<Rightarrow> path \<Rightarrow> bool" where
  "in_user_folder uid p =
     list_ex (\<lambda>d. path_name d = uid \<and> path_name (butlast d) = ''users'') (path_parents p)"

definition inside_user_dir :: "filesystem \<Rightarrow> json \<Rightarrow> path list \<Rightarrow> path list" where
  "inside_user_dir fs user_id ps =
     (case user_id_int user_id of
        None \<Rightarrow> []
      | Some uid \<Rightarrow>
          filter (\<lambda>p. case resolve fs p of None \<Rightarrow> False
                      | Some r \<Rightarrow> in_user_folder (show_int uid) r) ps)"

text \<open>The deletes in order; an \<open>OSError\<close> stops the loop and leaves what was removed so far.\<close>

fun unlink_all :: "path list \<Rightarrow> filesystem \<Rightarrow> bool \<times> filesystem" where
  "unlink_all [] fs = (True, fs)"
| "unlink_all (p # ps) fs =
     (case unlink_path fs p of None \<Rightarrow> (False, fs) | Some fs' \<Rightarrow> unlink_all ps fs')"

definition unlink_and_record ::
  "int list \<Rightarrow> json \<Rightarrow> path list \<Rightarrow> seconds \<Rightarrow> filesystem \<times> UserUsage list \<Rightarrow>
     bool \<times> filesystem \<times> UserUsage list" where
  "unlink_and_record users user_id ps now s =
     (case s of (fs, rows) \<Rightarrow>
        let kept = inside_user_dir fs user_id ps; freed = bytes_of fs kept in
        case unlink_all kept fs of
          (False, fs') \<Rightarrow> (False, fs', rows)
        | (True, fs') \<Rightarrow> (True, fs', record_delta users user_id (- freed) now rows))"

definition reconcile_usage ::
  "filesystem \<Rightarrow> path \<Rightarrow> int \<Rightarrow> seconds \<Rightarrow> UserUsage list \<Rightarrow> int \<times> UserUsage list" where
  "reconcile_usage fs data_dir uid now rows =
     (let dir = user_dir data_dir (show_int uid);
          total = max 0 (int (dir_size fs dir) - int (dir_size fs (path_join dir ''videos'')));
          row = (case get_usage uid rows of None \<Rightarrow> new_usage uid now | Some r \<Rightarrow> r) in
      (total, put_usage (row\<lparr>us_storage_bytes := total, us_reconciled_at := now,
                              us_updated_at := now\<rparr>) rows))"

definition reconcile_all_usage ::
  "environ \<Rightarrow> filesystem \<Rightarrow> path \<Rightarrow> int list \<Rightarrow> seconds \<Rightarrow> UserUsage list \<Rightarrow> UserUsage list" where
  "reconcile_all_usage env fs data_dir users now rows =
     (if \<not> billing_enabled env then rows
      else foldl (\<lambda>t uid. snd (reconcile_usage fs data_dir uid now t)) rows
             (filter (\<lambda>u. u \<noteq> 0) users))"

subsection \<open>Calls of record_delta that interleave\<close>

text \<open>
  Where a call stands between two statements: about to run its UPDATE, about to insert the counter
  it found missing, about to retry the UPDATE after the insert was refused, done, or given up.
\<close>

datatype call = Trying int | Inserting int | Retrying int | Recorded int | GaveUp int

inductive usage_step ::
  "int list \<Rightarrow> int \<Rightarrow> UserUsage list \<times> call list \<Rightarrow> UserUsage list \<times> call list \<Rightarrow> bool"
  for users uid where
  step_update: "i < length cs \<Longrightarrow> cs ! i = Trying d \<Longrightarrow> add_in_db uid d now rows = (rows', hit) \<Longrightarrow>
     hit \<noteq> 0 \<Longrightarrow> usage_step users uid (rows, cs) (rows', cs[i := Recorded d])"
| step_missing: "i < length cs \<Longrightarrow> cs ! i = Trying d \<Longrightarrow> add_in_db uid d now rows = (rows', 0) \<Longrightarrow>
     usage_step users uid (rows, cs) (rows, cs[i := Inserting d])"
| step_insert: "i < length cs \<Longrightarrow> cs ! i = Inserting d \<Longrightarrow>
     insert_usage users uid d now rows = Some rows' \<Longrightarrow>
     usage_step users uid (rows, cs) (rows', cs[i := Recorded d])"
| step_refused: "i < length cs \<Longrightarrow> cs ! i = Inserting d \<Longrightarrow>
     insert_usage users uid d now rows = None \<Longrightarrow>
     usage_step users uid (rows, cs) (rows, cs[i := Retrying d])"
| step_retry: "i < length cs \<Longrightarrow> cs ! i = Retrying d \<Longrightarrow> add_in_db uid d now rows = (rows', hit) \<Longrightarrow>
     hit \<noteq> 0 \<Longrightarrow> usage_step users uid (rows, cs) (rows', cs[i := Recorded d])"
| step_give_up: "i < length cs \<Longrightarrow> cs ! i = Retrying d \<Longrightarrow> add_in_db uid d now rows = (rows', 0) \<Longrightarrow>
     usage_step users uid (rows, cs) (rows, cs[i := GaveUp d])"

definition counter_of :: "int \<Rightarrow> UserUsage list \<Rightarrow> int" where
  "counter_of uid rows = (case get_usage uid rows of None \<Rightarrow> 0 | Some r \<Rightarrow> us_storage_bytes r)"

definition recorded :: "call list \<Rightarrow> int" where
  "recorded cs = sum_list (map (\<lambda>c. case c of Recorded d \<Rightarrow> d | _ \<Rightarrow> 0) cs)"

fun delta_of :: "call \<Rightarrow> int" where
  "delta_of (Trying d) = d"
| "delta_of (Inserting d) = d"
| "delta_of (Retrying d) = d"
| "delta_of (Recorded d) = d"
| "delta_of (GaveUp d) = d"

subsection \<open>Lemmas on the counter\<close>

lemma add_in_db_get:
  "get_usage k (fst (add_in_db uid d now rows)) =
     (if k = uid
      then map_option (\<lambda>r. r\<lparr>us_storage_bytes := max 0 (us_storage_bytes r + d), us_updated_at := now\<rparr>)
             (get_usage k rows)
      else get_usage k rows)"
  by (induction rows) (auto simp: add_in_db_def first_row_def Let_def)

lemma add_in_db_hit: "snd (add_in_db uid d now rows) = 0 \<longleftrightarrow> get_usage uid rows = None"
  by (auto simp: add_in_db_def first_row_def find_None_iff filter_empty_conv)

lemma add_in_db_cases:
  assumes "add_in_db uid d now rows = (rows', hit)"
  shows "hit = 0 \<longleftrightarrow> get_usage uid rows = None"
    and "counter_of uid rows' = (if get_usage uid rows = None then 0 else max 0 (counter_of uid rows + d))"
    and "get_usage uid rows' = None \<longleftrightarrow> get_usage uid rows = None"
    and "k \<noteq> uid \<Longrightarrow> get_usage k rows' = get_usage k rows"
  using add_in_db_get [of k uid d now rows] add_in_db_get [of uid uid d now rows]
    add_in_db_hit [of uid d now rows] assms
  by (auto simp: counter_of_def split: option.splits)

lemma insert_usage_cases:
  assumes "insert_usage users uid d now rows = Some rows'"
  shows "get_usage uid rows = None" "counter_of uid rows' = max 0 d"
    "get_usage uid rows' \<noteq> None" "k \<noteq> uid \<Longrightarrow> get_usage k rows' = get_usage k rows"
proof -
  have fresh: "uid \<notin> us_user_info_id ` set rows"
    and rows': "rows' = rows @ [(new_usage uid now)\<lparr>us_storage_bytes := max 0 d\<rparr>]"
    using assms by (auto simp: insert_usage_def split: if_splits)
  show none: "get_usage uid rows = None" using fresh by (simp add: first_row_None)
  have get: "get_usage k rows' =
      (if k = uid then Some ((new_usage uid now)\<lparr>us_storage_bytes := max 0 d\<rparr>) else get_usage k rows)" for k
    using none by (auto simp: rows' first_row_def find_snoc new_usage_def split: option.splits)
  show "counter_of uid rows' = max 0 d" "get_usage uid rows' \<noteq> None"
    by (simp_all add: counter_of_def get)
  show "k \<noteq> uid \<Longrightarrow> get_usage k rows' = get_usage k rows" by (simp add: get)
qed

lemma recorded_update:
  "i < length cs \<Longrightarrow> recorded (cs[i := c]) =
     recorded cs + (case c of Recorded d \<Rightarrow> d | _ \<Rightarrow> 0) - (case cs ! i of Recorded d \<Rightarrow> d | _ \<Rightarrow> 0)"
  by (induction cs arbitrary: i) (auto simp: recorded_def split: nat.splits)

lemma delta_of_update: "i < length cs \<Longrightarrow> delta_of c = delta_of (cs ! i) \<Longrightarrow>
    map delta_of (cs[i := c]) = map delta_of cs"
  by (simp add: map_update list_update_same_conv)

subsection \<open>The invariant of interleaved calls\<close>

text \<open>
  With deltas that only add, the counter is the initial one plus what the finished calls recorded,
  whatever stands between; a call that was refused its insert finds a row, so none gives up.
\<close>

definition usage_inv :: "int list \<Rightarrow> int \<Rightarrow> int \<Rightarrow> int list \<Rightarrow> UserUsage list \<times> call list \<Rightarrow> bool" where
  "usage_inv users uid c0 ds s =
     (case s of (rows, cs) \<Rightarrow>
        counter_of uid rows = c0 + recorded cs \<and> map delta_of cs = ds \<and>
        (\<forall>c\<in>set cs. (\<forall>d. c \<noteq> GaveUp d) \<and> ((\<exists>d. c = Retrying d) \<longrightarrow> get_usage uid rows \<noteq> None)))"

lemma recorded_nonneg: "(\<forall>d\<in>set (map delta_of cs). 0 \<le> d) \<Longrightarrow> 0 \<le> recorded cs"
  unfolding recorded_def by (rule sum_list_nonneg) (fastforce split: call.splits)

lemma usage_inv_step:
  assumes step: "usage_step users uid s t" and inv: "usage_inv users uid c0 ds s"
    and "uid \<in> set users" "0 \<le> c0" "\<forall>d\<in>set ds. 0 \<le> d"
  shows "usage_inv users uid c0 ds t"
  using step
proof cases
  case (step_update i cs d now rows rows' hit)
  have "0 \<le> d" using assms(5) inv step_update
    by (auto simp: usage_inv_def) (metis delta_of.simps(1) imageI nth_mem)
  moreover have "0 \<le> counter_of uid rows"
    using inv assms(4,5) recorded_nonneg [of cs] step_update by (auto simp: usage_inv_def)
  ultimately show ?thesis
    using inv step_update add_in_db_cases(1,2,3) [OF step_update(5)]
    by (auto simp: usage_inv_def recorded_update delta_of_update dest!: set_update_subset_insert [THEN subsetD])
next
  case (step_missing i cs d now rows rows')
  then show ?thesis
    using inv by (auto simp: usage_inv_def recorded_update delta_of_update
        dest!: set_update_subset_insert [THEN subsetD])
next
  case (step_insert i cs d now rows rows')
  have "0 \<le> d" using assms(5) inv step_insert
    by (auto simp: usage_inv_def) (metis delta_of.simps(2) imageI nth_mem)
  then show ?thesis
    using inv step_insert insert_usage_cases(1,2,3) [OF step_insert(5)]
    by (auto simp: usage_inv_def recorded_update delta_of_update counter_of_def
        dest!: set_update_subset_insert [THEN subsetD])
next
  case (step_refused i cs d now rows)
  then have "get_usage uid rows \<noteq> None"
    using assms(3) by (auto simp: insert_usage_def first_row_None split: if_splits)
  then show ?thesis
    using inv step_refused by (auto simp: usage_inv_def recorded_update delta_of_update
        dest!: set_update_subset_insert [THEN subsetD])
next
  case (step_retry i cs d now rows rows' hit)
  have "0 \<le> d" using assms(5) inv step_retry
    by (auto simp: usage_inv_def) (metis delta_of.simps(3) imageI nth_mem)
  moreover have "0 \<le> counter_of uid rows"
    using inv assms(4,5) recorded_nonneg [of cs] step_retry by (auto simp: usage_inv_def)
  ultimately show ?thesis
    using inv step_retry add_in_db_cases(1,2,3) [OF step_retry(5)]
    by (auto simp: usage_inv_def recorded_update delta_of_update dest!: set_update_subset_insert [THEN subsetD])
next
  case (step_give_up i cs d now rows rows')
  then show ?thesis
    using inv add_in_db_cases(1) [OF step_give_up(5)] nth_mem by (fastforce simp: usage_inv_def)
qed

lemma usage_inv_init:
  "usage_inv users uid (counter_of uid rows) ds (rows, map Trying ds)"
  by (induction ds) (auto simp: usage_inv_def recorded_def)

lemma usage_inv_reachable:
  assumes "(usage_step users uid)\<^sup>*\<^sup>* s t" "usage_inv users uid c0 ds s"
    and "uid \<in> set users" "0 \<le> c0" "\<forall>d\<in>set ds. 0 \<le> d"
  shows "usage_inv users uid c0 ds t"
  using assms by (induction rule: rtranclp_induct) (auto intro: usage_inv_step)

subsection \<open>Lemmas on photo names and folders\<close>

lemma hex_groups_chars: "hex_groups ns s \<Longrightarrow> c \<in> set s \<Longrightarrow> is_lower_hex c \<or> c = CHR ''-''"
proof (induction ns s rule: hex_groups.induct)
  case (2 n s)
  then show ?case by (auto simp: list_all_iff)
next
  case (3 n m ns s)
  then have hex: "\<forall>x\<in>set (take n s). is_lower_hex x" and dash: "take 1 (drop n s) = ''-''"
    and rest: "hex_groups (m # ns) (drop (Suc n) s)"
    by (simp_all add: list_all_iff)
  have "s = take n s @ take 1 (drop n s) @ drop 1 (drop n s)"
    by (metis append_take_drop_id)
  then have "set s = set (take n s) \<union> set ''-'' \<union> set (drop (Suc n) s)"
    using dash by (metis drop_drop plus_1_eq_Suc set_append sup_assoc)
  with 3 hex rest show ?case by auto
qed simp

lemma photo_name_no_slash: "PHOTO_NAME s \<Longrightarrow> CHR ''/'' \<notin> set s"
  unfolding PHOTO_NAME_def
  using hex_groups_chars [of _ s "CHR ''/''"]
  by (auto simp: is_lower_hex_def is_digit_def simp del: hex_groups.simps)

lemma photo_join:
  assumes "PHOTO_NAME s" "suf \<in> set PHOTO_SUFFIXES"
  shows "path_join folder (s @ suf @ ''.jpg'') = folder @ [s @ suf @ ''.jpg'']"
  using photo_name_no_slash [OF assms(1)] assms(2)
  by (intro path_join_plain) (auto simp: PHOTO_SUFFIXES_def append_eq_Cons_conv)

lemma photo_file_SomeE:
  assumes "photo_file fs folder name suf = Some p"
  obtains s r where "name = JStr s" "PHOTO_NAME s" "suf \<in> set PHOTO_SUFFIXES"
    "p = folder @ [s @ suf @ ''.jpg'']" "resolve fs p = Some r" "resolve fs folder = Some (butlast r)"
proof -
  have n: "is_photo_name name" "suf \<in> set PHOTO_SUFFIXES"
    using assms by (auto simp: photo_file_def split: if_splits)
  then obtain s where s: "name = JStr s" "PHOTO_NAME s"
    by (cases name) (auto simp: is_photo_name_def)
  note found = assms [unfolded photo_file_def]
  from found n s have "p = path_join folder (s @ suf @ ''.jpg'')"
    and "\<exists>r. resolve fs p = Some r \<and> resolve fs folder = Some (butlast r)"
    by (auto simp: Let_def split: option.splits if_splits)
  with s n photo_join [OF s(2) n(2)] show thesis using that by auto
qed

text \<open>Which folder a resolved path is in depends on the directories above it alone.\<close>

lemma in_user_folder_prefix:
  "in_user_folder uid r \<longleftrightarrow>
     (\<exists>k<length r. path_name (take k r) = uid \<and> path_name (butlast (take k r)) = ''users'')"
  by (auto simp: in_user_folder_def path_parents_def list_ex_iff)

lemma in_user_folder_butlast:
  assumes "r \<noteq> []"
  shows "in_user_folder uid r \<longleftrightarrow> in_user_folder uid (butlast r @ [x])"
proof -
  have "take k r = take k (butlast r @ [x])" if "k < length r" for k
    using that by (simp add: take_butlast)
  then show ?thesis using assms unfolding in_user_folder_prefix by (auto simp: length_butlast)
qed

lemma in_user_folder_Nil [simp]: "\<not> in_user_folder uid []"
  by (simp add: in_user_folder_def path_parents_def)

lemma photo_files_inside:
  assumes "resolve fs folder = Some f" "in_user_folder (show_int uid) (f @ [x])"
    and "p \<in> set (photo_files fs folder names)"
  shows "p \<in> set (inside_user_dir fs (JInt uid) (photo_files fs folder names))"
proof -
  obtain name suf where "photo_file fs folder name suf = Some p"
    using assms(3) by (auto simp: photo_files_def List.map_filter_def)
  then obtain r where r: "resolve fs p = Some r" "resolve fs folder = Some (butlast r)"
    by (rule photo_file_SomeE)
  have "r \<noteq> []"
  proof
    assume "r = []"
    then have "in_user_folder (show_int uid) [x]" using assms(1,2) r by simp
    then show False by (auto simp: in_user_folder_prefix path_name_def show_int_def split: if_splits)
  qed
  then show ?thesis
    using assms r in_user_folder_butlast [of r "show_int uid" x]
    by (simp add: inside_user_dir_def user_id_int_def)
qed

subsection \<open>Lemmas on deleting\<close>

text \<open>A tree without symbolic links, whose entries are named without \<open>..\<close>.\<close>

definition plain_fs :: "filesystem \<Rightarrow> bool" where
  "plain_fs fs = (\<forall>e\<in>set fs. ''..'' \<notin> set (fst e) \<and> (\<forall>t. snd e \<noteq> LinkTo t))"

lemma plain_fs_no_link: "plain_fs fs \<Longrightarrow> map_of fs q \<noteq> Some (LinkTo t)"
  by (auto simp: plain_fs_def dest!: map_of_SomeD)

lemma plain_fs_remove: "plain_fs fs \<Longrightarrow> plain_fs (remove_entry q fs)"
  by (auto simp: plain_fs_def remove_entry_def)

lemma resolve_from_plain_fs: "plain_fs fs \<Longrightarrow> resolve_from n fs acc cs = resolve_from n [] acc cs"
  by (induction cs arbitrary: acc) (auto split: option.splits node.splits simp: plain_fs_no_link)

lemma resolve_plain_fs: "plain_fs fs \<Longrightarrow> resolve fs p = resolve [] p"
  by (simp add: resolve_def resolve_from_plain_fs)

lemma resolve_snoc_plain:
  "c \<noteq> ''..'' \<Longrightarrow> resolve_from n [] acc (cs @ [c]) = map_option (\<lambda>d. d @ [c]) (resolve_from n [] acc cs)"
  by (induction cs arbitrary: acc) auto

lemma unlink_entry_plain:
  assumes "plain_fs fs" "unlink_entry fs p = Some q" "map_of fs q \<noteq> None" "p \<noteq> []"
  shows "resolve fs p = Some q"
proof -
  obtain d where d: "resolve fs (butlast p) = Some d" "q = d @ [last p]"
    using assms(2,4) by (auto simp: unlink_entry_def path_name_def)
  then have "last p \<noteq> ''..''"
    using assms(1,3) by (auto simp: plain_fs_def dest!: map_of_SomeD)
  then have "resolve fs (butlast p @ [last p]) = Some (d @ [last p])"
    using d(1) resolve_plain_fs [OF assms(1)]
    by (simp add: resolve_def resolve_snoc_plain)
  then show ?thesis using assms(4) d(2) by simp
qed

lemma unlink_all_plain:
  assumes "plain_fs fs" "[] \<notin> set ps" "unlink_all ps fs = (ok, fs')" "map_of fs' q \<noteq> map_of fs q"
  shows "map_of fs' q = None \<and> (\<exists>p\<in>set ps. resolve fs p = Some q)"
  using assms
proof (induction ps arbitrary: fs)
  case (Cons p ps)
  show ?case
  proof (cases "unlink_path fs p")
    case None
    then show ?thesis using Cons.prems by simp
  next
    case (Some fs1)
    obtain u where u: "unlink_entry fs p = Some u" and fs1: "fs1 = remove_entry u fs"
      using Some by (auto simp: unlink_path_def split: option.splits node.splits)
    have step: "unlink_all ps fs1 = (ok, fs')" using Cons.prems(3) Some by simp
    have plain1: "plain_fs fs1" using Cons.prems(1) fs1 plain_fs_remove by simp
    show ?thesis
    proof (cases "map_of fs' q = map_of fs1 q")
      case True
      then have "q = u" "map_of fs q \<noteq> None"
        using Cons.prems(4) by (auto simp: fs1 map_of_remove_entry eq_commute split: if_splits)
      then show ?thesis
        using True unlink_entry_plain [OF Cons.prems(1) u] Cons.prems(2)
        by (auto simp: fs1 map_of_remove_entry)
    next
      case False
      then show ?thesis
        using Cons.IH [OF plain1 _ step] Cons.prems(1,2) plain1 by (auto simp: resolve_plain_fs)
    qed
  qed
qed simp

lemma record_delta_get:
  assumes "user_id_int user_id = Some uid" "uid \<in> set users" "0 \<le> counter_of uid rows"
  shows "counter_of uid (record_delta users user_id d now rows) = max 0 (counter_of uid rows + d)"
    "k \<noteq> uid \<Longrightarrow> get_usage k (record_delta users user_id d now rows) = get_usage k rows"
proof -
  obtain rows' hit where add: "add_in_db uid d now rows = (rows', hit)" by fastforce
  have ins: "insert_usage users uid d now rows = None \<longleftrightarrow> get_usage uid rows \<noteq> None"
    using assms(2) by (auto simp: insert_usage_def first_row_None)
  show "counter_of uid (record_delta users user_id d now rows) = max 0 (counter_of uid rows + d)"
    using add_in_db_cases [OF add] insert_usage_cases(2) [of users uid d now rows] add ins assms
    by (cases "get_usage uid rows") (auto simp: record_delta_def counter_of_def split: option.splits)
  show "k \<noteq> uid \<Longrightarrow> get_usage k (record_delta users user_id d now rows) = get_usage k rows"
    using add_in_db_cases [OF add] insert_usage_cases(4) [of users uid d now rows] add ins assms(1)
    by (auto simp: record_delta_def split: option.splits)
qed

lemma counted_size_split:
  "(if strict_prefix (d @ [v]) (fst e) then 0 else counted_size d e) + counted_size (d @ [v]) e =
     counted_size d e"
proof -
  have "strict_prefix (d @ [v]) p \<Longrightarrow> strict_prefix d p" for p
    by (meson append_prefixD prefix_order.dual_order.strict_trans2 strict_prefixI'
        prefix_order.less_imp_le prefix_order.le_less_trans prefixI prefix_snocD)
  then show ?thesis by (cases e) (auto simp: counted_size_def split: node.splits)
qed

lemma sum_counted_split:
  "sum_list (map (\<lambda>e. if strict_prefix (d @ [v]) (fst e) then 0 else counted_size d e) fs) +
     sum_list (map (counted_size (d @ [v])) fs) = sum_list (map (counted_size d) fs)"
  unfolding sum_list_addf [symmetric] by (simp only: counted_size_split)

lemma slash_not_in_show_int: "CHR ''/'' \<notin> set (show_int i)"
  by (auto simp: show_int_def is_digit_def dest: show_nat_digits)

subsection \<open>Properties\<close>

text \<open>C3. Simultaneous uploads lose nothing. Any number of calls that each add to one existing
  account's counter interleave at the database in any way, the counter's creation included: at
  every moment the counter is its initial value plus the deltas of the calls that finished, no call
  fails, and while a call is unfinished some call can move; when all have finished the counter has
  grown by the sum of all deltas.\<close>

theorem concurrent_uploads_add_up:
  assumes "uid \<in> set users" "0 \<le> counter_of uid rows" "\<forall>d\<in>set ds. 0 \<le> d"
    and "(usage_step users uid)\<^sup>*\<^sup>* (rows, map Trying ds) (rows', cs)"
  shows "counter_of uid rows' = counter_of uid rows + recorded cs \<and>
    (\<forall>d. GaveUp d \<notin> set cs) \<and>
    ((\<forall>c\<in>set cs. \<exists>d. c = Recorded d) \<longrightarrow> counter_of uid rows' = counter_of uid rows + sum_list ds) \<and>
    ((\<exists>c\<in>set cs. \<forall>d. c \<noteq> Recorded d) \<longrightarrow> (\<exists>t. usage_step users uid (rows', cs) t))"
proof -
  have inv: "usage_inv users uid (counter_of uid rows) ds (rows', cs)"
    using usage_inv_reachable [OF assms(4) usage_inv_init assms(1,2,3)] .
  have "recorded cs = sum_list ds" if "\<forall>c\<in>set cs. \<exists>d. c = Recorded d"
  proof -
    have "map (\<lambda>c. case c of Recorded d \<Rightarrow> d | _ \<Rightarrow> 0) cs = map delta_of cs" using that by fastforce
    then show ?thesis unfolding recorded_def using inv by (simp only: usage_inv_def prod.case)
  qed
  moreover have "\<exists>t. usage_step users uid (rows', cs) t" if "\<exists>c\<in>set cs. \<forall>d. c \<noteq> Recorded d"
  proof -
    obtain i where i: "i < length cs" "\<forall>d. cs ! i \<noteq> Recorded d"
      using \<open>\<exists>c\<in>set cs. \<forall>d. c \<noteq> Recorded d\<close> by (metis in_set_conv_nth)
    obtain r h where add: "add_in_db uid (delta_of (cs ! i)) 0 rows' = (r, h)" by fastforce
    show ?thesis
      using i inv add usage_step.intros [where users = users and uid = uid and cs = cs and i = i and now = 0]
      by (cases "cs ! i"; cases "h = 0"; cases "insert_usage users uid (delta_of (cs ! i)) 0 rows'")
         (fastforce simp: usage_inv_def)+
  qed
  ultimately show ?thesis using inv by (auto simp: usage_inv_def)
qed

lemma two_first_uploads:
  "(usage_step [7] 7)\<^sup>*\<^sup>* ([], [Trying 5, Trying 3])
     ([(new_usage 7 0)\<lparr>us_storage_bytes := 8\<rparr>], [Recorded 5, Recorded 3])"
proof -
  let ?r = "(new_usage 7 0)\<lparr>us_storage_bytes := 5\<rparr>"
  note s = usage_step.intros [where users = "[7]" and uid = 7 and now = 0]
  have "usage_step [7] 7 ([], [Trying 5, Trying 3]) ([], [Inserting 5, Trying 3])"
    using s(2) [of 0 "[Trying 5, Trying 3]" 5 "[]" "[]"] by (simp add: add_in_db_def)
  moreover have "usage_step [7] 7 ([], [Inserting 5, Trying 3]) ([], [Inserting 5, Inserting 3])"
    using s(2) [of 1 "[Inserting 5, Trying 3]" 3 "[]" "[]"] by (simp add: add_in_db_def)
  moreover have "usage_step [7] 7 ([], [Inserting 5, Inserting 3]) ([?r], [Recorded 5, Inserting 3])"
    using s(3) [of 0 "[Inserting 5, Inserting 3]" 5 "[]"] by (simp add: insert_usage_def)
  moreover have "usage_step [7] 7 ([?r], [Recorded 5, Inserting 3]) ([?r], [Recorded 5, Retrying 3])"
    using s(4) [of 1 "[Recorded 5, Inserting 3]" 3 "[?r]"]
    by (simp add: insert_usage_def new_usage_def)
  moreover have "usage_step [7] 7 ([?r], [Recorded 5, Retrying 3])
      ([(new_usage 7 0)\<lparr>us_storage_bytes := 8\<rparr>], [Recorded 5, Recorded 3])"
    using s(5) [of 1 "[Recorded 5, Retrying 3]" 3 "[?r]"]
    by (simp add: add_in_db_def new_usage_def)
  ultimately show ?thesis by (meson converse_rtranclp_into_rtranclp rtranclp.rtrancl_refl)
qed

theorem concurrent_uploads_add_up_witness:
  "counter_of 7 [(new_usage 7 0)\<lparr>us_storage_bytes := 8\<rparr>] = 0 + (5 + 3)"
  using concurrent_uploads_add_up [of 7 "[7]" "[]" "[5, 3]", simplified, OF _ two_first_uploads]
  by (simp add: counter_of_def first_row_def recorded_def)

text \<open>C24. A stored photo name can reach one file only. Whatever the database holds as a name, a path
  is answered only for a lower-case UUID, it is that name with a known suffix directly in the
  entry's folder, also after links are resolved, and deleting on behalf of the folder's owner
  keeps every photo file of a folder that resolves into \<open>users/<uid>\<close>.\<close>

theorem photo_file_confined:
  shows "(\<forall>name suf p. photo_file fs folder name suf = Some p \<longrightarrow>
      (\<exists>s r. name = JStr s \<and> PHOTO_NAME s \<and> suf \<in> {'''', ''_thumb''} \<and>
         p = folder @ [s @ suf @ ''.jpg''] \<and>
         resolve fs p = Some r \<and> resolve fs folder = Some (butlast r))) \<and>
    (\<forall>f x. resolve fs folder = Some f \<and> in_user_folder (show_int uid) (f @ [x]) \<longrightarrow>
      inside_user_dir fs (JInt uid) (photo_files fs folder names) = photo_files fs folder names)"
proof (intro conjI allI impI, goal_cases)
  case (1 name suf p)
  then show ?case by (elim photo_file_SomeE) (auto simp: PHOTO_SUFFIXES_def)
next
  case (2 f x)
  then show ?case
    using photo_files_inside [of fs folder f uid x _ names]
    unfolding inside_user_dir_def user_id_int_def
    by (simp add: filter_id_conv)
qed

definition example_fs :: filesystem where
  "example_fs =
     [([''data''], DirNode 0), ([''data'', ''users''], DirNode 0), ([''data'', ''users'', ''7''], DirNode 0),
      ([''data'', ''users'', ''7'', ''a.jpg''], RegFile 40),
      ([''data'', ''users'', ''7'', ''a_share.jpg''], RegFile 30),
      ([''data'', ''users'', ''7'', ''videos''], DirNode 0),
      ([''data'', ''users'', ''7'', ''videos'', ''v.mp4''], RegFile 900),
      ([''data'', ''users'', ''8''], DirNode 0), ([''data'', ''users'', ''8'', ''b.jpg''], RegFile 50)]"

theorem photo_file_confined_witness:
  "photo_file example_fs [''data'', ''users'', ''7''] (JStr ''01234567-89ab-cdef-0123-456789abcdef'') ''_thumb'' =
     Some [''data'', ''users'', ''7'', ''01234567-89ab-cdef-0123-456789abcdef_thumb.jpg''] \<and>
   PHOTO_NAME ''01234567-89ab-cdef-0123-456789abcdef''"
proof -
  have found: "photo_file example_fs [''data'', ''users'', ''7'']
      (JStr ''01234567-89ab-cdef-0123-456789abcdef'') ''_thumb'' =
     Some [''data'', ''users'', ''7'', ''01234567-89ab-cdef-0123-456789abcdef_thumb.jpg'']"
    by code_simp
  then show ?thesis
    using photo_file_confined [of example_fs "[''data'', ''users'', ''7'']" 7 "[]"] by blast
qed

text \<open>Deleting files on a user's behalf stays in the user's folder: on a tree without symbolic
  links, an entry that is gone afterwards is one of the given paths and lies under
  \<open>users/<uid>\<close>; nothing else changes, no other user's counter moves, and when the deletes succeed
  the counter drops by the size of the files, never below zero.\<close>

theorem unlink_and_record_confined:
  assumes "plain_fs fs" "uid \<in> set users" "0 \<le> counter_of uid rows"
    and run: "unlink_and_record users (JInt uid) ps now (fs, rows) = (ok, fs', rows')"
  shows "(\<forall>q. map_of fs' q \<noteq> map_of fs q \<longrightarrow>
      map_of fs' q = None \<and> in_user_folder (show_int uid) q \<and> (\<exists>p\<in>set ps. resolve fs p = Some q)) \<and>
    (\<forall>k. k \<noteq> uid \<longrightarrow> get_usage k rows' = get_usage k rows) \<and>
    counter_of uid rows' =
      (if ok then max 0 (counter_of uid rows - bytes_of fs (inside_user_dir fs (JInt uid) ps))
       else counter_of uid rows)"
proof -
  let ?kept = "inside_user_dir fs (JInt uid) ps"
  have kept: "p \<in> set ps \<and> (\<exists>r. resolve fs p = Some r \<and> in_user_folder (show_int uid) r)"
    if "p \<in> set ?kept" for p
    using \<open>p \<in> set ?kept\<close> by (auto simp: inside_user_dir_def user_id_int_def split: option.splits)
  have fs': "unlink_all ?kept fs = (ok, fs')"
    and rows': "rows' = (if ok then record_delta users (JInt uid) (- bytes_of fs ?kept) now rows else rows)"
    using run by (auto simp: unlink_and_record_def Let_def split: prod.splits bool.splits)
  have "[] \<notin> set ?kept" using kept by (fastforce simp: resolve_def)
  note gone = unlink_all_plain [OF assms(1) this fs']
  have entries: "map_of fs' q = None \<and> in_user_folder (show_int uid) q \<and> (\<exists>p\<in>set ps. resolve fs p = Some q)"
    if "map_of fs' q \<noteq> map_of fs q" for q
    using gone [OF that] kept by (metis option.inject)
  have "user_id_int (JInt uid) = Some uid" by (simp add: user_id_int_def)
  note delta = record_delta_get [OF this assms(2,3), where now = now and d = "- bytes_of fs ?kept"]
  show ?thesis
    by (intro conjI allI impI entries) (simp_all add: rows' delta)
qed

theorem unlink_and_record_confined_witness:
  "counter_of 7 (snd (snd (unlink_and_record [7, 8] (JInt 7)
      [[''data'', ''users'', ''7'', ''a.jpg''], [''data'', ''users'', ''8'', ''b.jpg'']] 5
      (example_fs, [(new_usage 7 0)\<lparr>us_storage_bytes := 100\<rparr>])))) = max 0 (100 - 40)"
proof -
  let ?ps = "[[''data'', ''users'', ''7'', ''a.jpg''], [''data'', ''users'', ''8'', ''b.jpg'']]"
  let ?rows = "[(new_usage 7 0)\<lparr>us_storage_bytes := 100\<rparr>]"
  obtain ok fs' rows' where run: "unlink_and_record [7, 8] (JInt 7) ?ps 5 (example_fs, ?rows) = (ok, fs', rows')"
    using prod_cases3 by blast
  have ok: "fst (unlink_and_record [7, 8] (JInt 7) ?ps 5 (example_fs, ?rows))" by code_simp
  have bytes: "bytes_of example_fs (inside_user_dir example_fs (JInt 7) ?ps) = 40" by code_simp
  have c: "counter_of 7 ?rows = 100" by code_simp
  have "plain_fs example_fs" by (simp add: plain_fs_def example_fs_def)
  from unlink_and_record_confined [OF this _ _ run] show ?thesis
    using run ok bytes c by simp
qed

text \<open>After a reconcile the counter is exact: it is the total size of the regular files under the
  user's folder, without share copies and without anything under \<open>videos\<close>, whatever it was
  before, and no other user's counter moves.\<close>

theorem reconcile_usage_exact:
  fixes data_dir :: path and uid :: int
  defines "dir \<equiv> data_dir @ [''users'', show_int uid]"
  assumes "resolve fs dir = Some dir" "resolve fs (dir @ [''videos'']) = Some (dir @ [''videos''])"
    and run: "reconcile_usage fs data_dir uid now rows = (bytes, rows')"
  shows "bytes = int (sum_list (map (\<lambda>e. case e of (p, RegFile n) \<Rightarrow>
          if strict_prefix dir p \<and> \<not> is_share_copy (path_name p) \<and> \<not> strict_prefix (dir @ [''videos'']) p
          then n else 0 | _ \<Rightarrow> 0) fs)) \<and>
    counter_of uid rows' = bytes \<and> (\<forall>k. k \<noteq> uid \<longrightarrow> get_usage k rows' = get_usage k rows)"
proof -
  have "show_int uid \<noteq> ''.''" "show_int uid \<noteq> []"
    using show_nat_digits [of "CHR ''.''" "nat uid"] by (auto simp: show_int_def is_digit_def)
  then have dir: "user_dir data_dir (show_int uid) = dir" "path_join dir ''videos'' = dir @ [''videos'']"
    by (simp_all add: user_dir_def dir_def path_join_plain slash_not_in_show_int)
  have "(case e of (p, RegFile n) \<Rightarrow>
          if strict_prefix dir p \<and> \<not> is_share_copy (path_name p) \<and> \<not> strict_prefix (dir @ [''videos'']) p
          then n else 0 | _ \<Rightarrow> 0) = (if strict_prefix (dir @ [''videos'']) (fst e) then 0 else counted_size dir e)" for e
    by (auto simp: counted_size_def split: prod.splits node.splits)
  moreover have "bytes = max 0 (int (dir_size fs dir) - int (dir_size fs (dir @ [''videos''])))"
    using run by (auto simp: reconcile_usage_def Let_def dir)
  ultimately have "bytes = int (sum_list (map (\<lambda>e. case e of (p, RegFile n) \<Rightarrow>
          if strict_prefix dir p \<and> \<not> is_share_copy (path_name p) \<and> \<not> strict_prefix (dir @ [''videos'']) p
          then n else 0 | _ \<Rightarrow> 0) fs))"
    using sum_counted_split [of dir "''videos''" fs] assms(2,3) by (simp add: dir_size_def)
  moreover have "us_user_info_id (case get_usage uid rows of None \<Rightarrow> new_usage uid now | Some r \<Rightarrow> r) = uid"
    by (auto simp: new_usage_def split: option.splits dest: first_row_key)
  then have "get_usage k rows' = (if k = uid then
      Some ((case get_usage uid rows of None \<Rightarrow> new_usage uid now | Some r \<Rightarrow> r)
        \<lparr>us_storage_bytes := bytes, us_reconciled_at := now, us_updated_at := now\<rparr>)
      else get_usage k rows)" for k
    using run by (auto simp: reconcile_usage_def Let_def usages.get_put)
  ultimately show ?thesis by (simp add: counter_of_def)
qed

theorem reconcile_usage_exact_witness:
  "fst (reconcile_usage example_fs [''data''] 7 5 []) = 40"
proof -
  have r: "resolve example_fs ([''data''] @ [''users'', show_int 7]) = Some ([''data''] @ [''users'', show_int 7])"
    "resolve example_fs (([''data''] @ [''users'', show_int 7]) @ [''videos'']) =
       Some (([''data''] @ [''users'', show_int 7]) @ [''videos''])"
    by code_simp+
  have s: "show_int 7 = ''7''" by code_simp
  have sh: "\<not> is_share_copy ''a.jpg''" "is_share_copy ''a_share.jpg''" by code_simp+
  show ?thesis
    using reconcile_usage_exact [OF r surjective_pairing]
    by (simp add: example_fs_def s path_name_def sh)
qed

end
