(* ===== verification/PhotoOrder.thy ===== *)
theory PhotoOrder
  imports Json "HOL-Library.AList" "HOL-Library.List_Lexorder" "HOL-Library.Char_ord"
begin

text \<open>
  \<open>api/photo_order.py\<close>: the display order of a memory's photos. The list of photo names and, beside
  it, the state with the import epoch, the rank a download was given and the hash of its content. A
  Python dict is an association list without repeated keys; \<open>dict(d)\<close>, \<open>d[k] = v\<close> and
  \<open>d.pop(k, None)\<close> are the list itself, \<open>AList.update\<close> and \<open>AList.delete\<close>.
\<close>

record photo_state =
  epoch :: int
  ranks :: "(string \<times> int) list"
  hashes :: "(string \<times> string) list"

definition empty_state :: photo_state where
  "empty_state = \<lparr>epoch = 0, ranks = [], hashes = []\<rparr>"

definition is_int :: "json \<Rightarrow> bool" where
  "is_int v = (case v of JInt _ \<Rightarrow> True | _ \<Rightarrow> False)"

definition is_hex_char :: "char \<Rightarrow> bool" where
  "is_hex_char c = (is_digit c \<or> (let n = of_char c :: nat in 97 \<le> n \<and> n \<le> 102))"

definition is_hash_text :: "string \<Rightarrow> bool" where
  "is_hash_text s = (length s = 64 \<and> list_all is_hex_char s)"

definition is_hash :: "json \<Rightarrow> bool" where
  "is_hash v = (case v of JStr s \<Rightarrow> is_hash_text s | _ \<Rightarrow> False)"

definition int_entries :: "(string \<times> json) list \<Rightarrow> (string \<times> int) list" where
  "int_entries d = List.map_filter (\<lambda>(k, v). case v of JInt n \<Rightarrow> Some (k, n) | _ \<Rightarrow> None) d"

definition hash_entries :: "(string \<times> json) list \<Rightarrow> (string \<times> string) list" where
  "hash_entries d =
     List.map_filter (\<lambda>(k, v). case v of JStr s \<Rightarrow> if is_hash_text s then Some (k, s) else None | _ \<Rightarrow> None) d"

definition load_state :: "stored_json \<Rightarrow> photo_state" where
  "load_state raw =
     (case raw of
        Text (JDict data) \<Rightarrow>
          \<lparr>epoch = (case dget data ''epoch'' of JInt n \<Rightarrow> n | _ \<Rightarrow> 0),
           ranks = (case dget data ''ranks'' of JDict d \<Rightarrow> int_entries d | _ \<Rightarrow> []),
           hashes = (case dget data ''hashes'' of JDict d \<Rightarrow> hash_entries d | _ \<Rightarrow> [])\<rparr>
      | _ \<Rightarrow> empty_state)"

text \<open>\<open>json.dumps(..., sort_keys=True)\<close>, as the value the text decodes to.\<close>

definition dump_state :: "photo_state \<Rightarrow> json" where
  "dump_state state =
     JDict [(''epoch'', JInt (epoch state)),
            (''hashes'', JDict (map (\<lambda>(k, h). (k, JStr h)) (sort_key fst (hashes state)))),
            (''ranks'', JDict (map (\<lambda>(k, n). (k, JInt n)) (sort_key fst (ranks state))))]"

text \<open>The index a ranked photo is inserted at: the first unranked photo or greater rank.\<close>

fun rank_position :: "(string \<times> int) list \<Rightarrow> int \<Rightarrow> string list \<Rightarrow> nat" where
  "rank_position rs rank [] = 0"
| "rank_position rs rank (existing # rest) =
     (case map_of rs existing of
        None \<Rightarrow> 0
      | Some r \<Rightarrow> if r > rank then 0 else Suc (rank_position rs rank rest))"

definition place ::
  "string list \<Rightarrow> photo_state \<Rightarrow> string \<Rightarrow> int option \<Rightarrow> string option \<Rightarrow>
     (string, string list \<times> photo_state) result" where
  "place photos state uuid rank content_hash =
     (if uuid \<in> set photos then Inl (''photo '' @ uuid @ '' is already placed'')
      else
        let hashes' = (case content_hash of
                         None \<Rightarrow> AList.delete uuid (hashes state)
                       | Some h \<Rightarrow> AList.update uuid h (hashes state)) in
        (case rank of
           None \<Rightarrow>
             Inr (photos @ [uuid],
                  \<lparr>epoch = epoch state, ranks = AList.delete uuid (ranks state), hashes = hashes'\<rparr>)
         | Some r \<Rightarrow>
             Inr (insert_at (rank_position (ranks state) r photos) uuid photos,
                  \<lparr>epoch = epoch state, ranks = AList.update uuid r (ranks state), hashes = hashes'\<rparr>)))"

definition remove :: "string list \<Rightarrow> photo_state \<Rightarrow> string \<Rightarrow> string list \<times> photo_state" where
  "remove photos state uuid =
     (filter (\<lambda>p. p \<noteq> uuid) photos,
      \<lparr>epoch = epoch state, ranks = AList.delete uuid (ranks state), hashes = AList.delete uuid (hashes state)\<rparr>)"

text \<open>\<open>new_photos[new_photos.index(old)] = new\<close>.\<close>

fun replace_first :: "string \<Rightarrow> string \<Rightarrow> string list \<Rightarrow> string list" where
  "replace_first old new [] = []"
| "replace_first old new (p # ps) = (if p = old then new # ps else p # replace_first old new ps)"

definition hand_over :: "string \<Rightarrow> string \<Rightarrow> (string \<times> 'v) list \<Rightarrow> (string \<times> 'v) list" where
  "hand_over old new d =
     (let d' = AList.delete old d in
      case map_of d old of None \<Rightarrow> AList.delete new d' | Some v \<Rightarrow> AList.update new v d')"

definition replace :: "string list \<Rightarrow> photo_state \<Rightarrow> string \<Rightarrow> string \<Rightarrow> (string list \<times> photo_state) option" where
  "replace photos state old new =
     (if old \<notin> set photos then None
      else Some (replace_first old new photos,
                 \<lparr>epoch = epoch state, ranks = hand_over old new (ranks state),
                  hashes = hand_over old new (hashes state)\<rparr>))"

definition clear :: "photo_state \<Rightarrow> photo_state" where
  "clear state = \<lparr>epoch = epoch state + 1, ranks = [], hashes = []\<rparr>"

definition has_hash :: "photo_state \<Rightarrow> string list \<Rightarrow> json \<Rightarrow> bool" where
  "has_hash state photos content_hash =
     (case content_hash of
        JStr h \<Rightarrow> is_hash_text h \<and> list_ex (\<lambda>uuid. map_of (hashes state) uuid = Some h) photos
      | _ \<Rightarrow> False)"

subsection \<open>Placement order\<close>

text \<open>Ranked photos in rank order, then the unranked ones.\<close>

definition in_order :: "string list \<Rightarrow> (string \<times> int) list \<Rightarrow> bool" where
  "in_order photos rs =
     (\<exists>ps us. photos = ps @ us \<and> (\<forall>p\<in>set ps. map_of rs p \<noteq> None) \<and>
        (\<forall>u\<in>set us. map_of rs u = None) \<and> sorted (map (\<lambda>p. the (map_of rs p)) ps))"

lemma rank_position_le: "rank_position rs r photos \<le> length photos"
  by (induction photos) (auto split: option.splits)

lemma rank_position_split:
  "(\<forall>p\<in>set ps. map_of rs p \<noteq> None) \<Longrightarrow> (\<forall>u\<in>set us. map_of rs u = None) \<Longrightarrow>
     rank_position rs r (ps @ us) = length (takeWhile (\<lambda>p. the (map_of rs p) \<le> r) ps)"
proof (induction ps)
  case Nil
  then show ?case by (cases us) auto
next
  case (Cons p ps)
  then show ?case by (auto split: option.splits)
qed

lemma insert_at_takeWhile:
  "insert_at (length (takeWhile P ps)) x (ps @ us) = takeWhile P ps @ x # dropWhile P ps @ us"
  by (induction ps) (auto simp: insert_at_def)

lemma sorted_map_mid:
  "sorted (map f ts) \<Longrightarrow> sorted (map f ds) \<Longrightarrow> \<forall>u\<in>set ts. f u \<le> f x \<Longrightarrow> \<forall>v\<in>set ds. f x \<le> f v \<Longrightarrow>
     sorted (map f (ts @ x # ds))"
  by (fastforce simp: sorted_append intro: order_trans)

text \<open>Insertion after the photos of at most the same rank is what a stable sort does with a last element.\<close>

lemma sort_key_snoc:
  "sort_key f (xs @ [x]) = takeWhile (\<lambda>y. f y \<le> f x) (sort_key f xs) @ x # dropWhile (\<lambda>y. f y \<le> f x) (sort_key f xs)"
  (is "_ = ?ys")
proof (rule properties_for_sort_key)
  let ?s = "sort_key f xs"
  let ?t = "takeWhile (\<lambda>y. f y \<le> f x) ?s" and ?d = "dropWhile (\<lambda>y. f y \<le> f x) ?s"
  have split: "?s = ?t @ ?d" by simp
  show "mset ?ys = mset (xs @ [x])"
    using mset_append [of ?t ?d] unfolding takeWhile_dropWhile_id by simp
  have big: "f x < f y" if "y \<in> set ?d" for y
  proof -
    have "sorted (map f ?s)" by simp
    then have "sorted (map f ?d)" by (metis split map_append sorted_append)
    moreover have "\<not> f (hd ?d) \<le> f x" if "?d \<noteq> []" using hd_dropWhile [OF that] .
    ultimately show ?thesis using that by (cases ?d) (auto simp: less_le_not_le dest: order_less_le_trans)
  qed
  have small: "f y \<le> f x" if "y \<in> set ?t" for y using that by (rule set_takeWhileD [THEN conjunct2])
  show "filter (\<lambda>y. f k = f y) ?ys = filter (\<lambda>y. f k = f y) (xs @ [x])" for k
  proof -
    have "filter (\<lambda>y. f k = f y) ?d = []" if "f k = f x"
      unfolding filter_empty_conv using big that by (metis order_less_irrefl)
    moreover have "filter (\<lambda>y. f k = f y) ?s = filter (\<lambda>y. f k = f y) xs"
      using sort_key_stable [of f "f k" xs] by (simp add: eq_commute)
    moreover have "filter (\<lambda>y. f k = f y) ?s = filter (\<lambda>y. f k = f y) ?t @ filter (\<lambda>y. f k = f y) ?d"
      unfolding filter_append [symmetric] takeWhile_dropWhile_id ..
    ultimately show ?thesis by (cases "f k = f x") simp_all
  qed
  show "sorted (map f ?ys)"
  proof -
    have "sorted (map f ?t)" "sorted (map f ?d)"
      by (metis split map_append sorted_append sorted_sort_key)+
    then show ?thesis using small big [THEN less_imp_le] by (intro sorted_map_mid) blast+
  qed
qed

type_synonym arrival = "string \<times> int option \<times> string option"

definition place_step ::
  "(string, string list \<times> photo_state) result \<Rightarrow> arrival \<Rightarrow> (string, string list \<times> photo_state) result" where
  "place_step acc a = rbind acc (\<lambda>(photos, state). place photos state (fst a) (fst (snd a)) (snd (snd a)))"

definition place_all ::
  "arrival list \<Rightarrow> string list \<times> photo_state \<Rightarrow> (string, string list \<times> photo_state) result" where
  "place_all arrivals start = foldl place_step (Inr start) arrivals"

definition ranked :: "arrival list \<Rightarrow> arrival list" where
  "ranked arrivals = filter (\<lambda>a. fst (snd a) \<noteq> None) arrivals"

definition unranked :: "arrival list \<Rightarrow> arrival list" where
  "unranked arrivals = filter (\<lambda>a. fst (snd a) = None) arrivals"

definition arrival_rank :: "arrival \<Rightarrow> int" where
  "arrival_rank a = the (fst (snd a))"

definition display_order :: "arrival list \<Rightarrow> string list" where
  "display_order arrivals = map fst (sort_key arrival_rank (ranked arrivals)) @ map fst (unranked arrivals)"

lemma set_display_order: "set (display_order arrivals) = fst ` set arrivals"
  unfolding display_order_def ranked_def unranked_def set_append set_map set_sort set_filter image_Un [symmetric]
  by (rule arg_cong [of _ _ "image fst"]) auto

lemma place_all_snoc: "place_all (as @ [a]) start = place_step (place_all as start) a"
  by (simp add: place_all_def)

lemma map_of_unique: "distinct (map fst as) \<Longrightarrow> (u, v) \<in> set as \<Longrightarrow> map_of as u = Some v"
  by simp

text \<open>After the arrivals: their photos in display order, and exactly their ranks.\<close>

lemma place_all_invariant:
  assumes "distinct (map fst arrivals)"
  shows "\<exists>state. place_all arrivals ([], empty_state) = Inr (display_order arrivals, state) \<and>
    (\<forall>u. map_of (ranks state) u = Option.bind (map_of arrivals u) fst)"
  using assms
proof (induction arrivals rule: rev_induct)
  case Nil
  then show ?case by (simp add: place_all_def display_order_def ranked_def unranked_def empty_state_def)
next
  case (snoc a as)
  obtain uuid rank h where a: "a = (uuid, rank, h)" using prod_cases3 by blast
  obtain state where st: "place_all as ([], empty_state) = Inr (display_order as, state)"
    "\<And>u. map_of (ranks state) u = Option.bind (map_of as u) fst"
    using snoc by auto
  have new: "uuid \<notin> fst ` set as" using snoc.prems a by simp
  then have none: "map_of as uuid = None" by (simp add: map_of_eq_None_iff)
  have placed: "place_all (as @ [a]) ([], empty_state) = place (display_order as) state uuid rank h"
    by (simp add: place_all_snoc st place_step_def a)
  have mo: "map_of (as @ [a]) u = (if u = uuid then Some (rank, h) else map_of as u)" for u
    using none a by (auto simp: map_add_def split: option.splits)
  have fresh: "uuid \<notin> set (display_order as)" using new by (simp add: set_display_order)
  show ?case
  proof (cases rank)
    case None
    then show ?thesis
      using placed fresh a st(2) mo
      by (auto simp: place_def Let_def delete_conv' display_order_def ranked_def unranked_def)
  next
    case (Some r)
    let ?ps = "map fst (sort_key arrival_rank (ranked as))" and ?us = "map fst (unranked as)"
    have as: "distinct (map fst as)" using snoc.prems by simp
    have rk: "map_of (ranks state) (fst x) = fst (snd x)" if "x \<in> set as" for x
      using st(2) map_of_unique [OF as, of "fst x" "snd x"] that by simp
    have pr: "\<forall>p\<in>set ?ps. map_of (ranks state) p \<noteq> None" and un: "\<forall>u\<in>set ?us. map_of (ranks state) u = None"
      using rk by (auto simp: ranked_def unranked_def)
    have tw: "takeWhile (\<lambda>p. the (map_of (ranks state) p) \<le> r) ?ps =
        map fst (takeWhile (\<lambda>x. arrival_rank x \<le> arrival_rank a) (sort_key arrival_rank (ranked as)))"
      and dw: "dropWhile (\<lambda>p. the (map_of (ranks state) p) \<le> r) ?ps =
        map fst (dropWhile (\<lambda>x. arrival_rank x \<le> arrival_rank a) (sort_key arrival_rank (ranked as)))"
    proof -
      have same: "the (map_of (ranks state) (fst x)) \<le> r \<longleftrightarrow> arrival_rank x \<le> arrival_rank a"
        if "x \<in> set (sort_key arrival_rank (ranked as))" for x
        using rk that Some a by (simp add: ranked_def arrival_rank_def)
      show "takeWhile (\<lambda>p. the (map_of (ranks state) p) \<le> r) ?ps =
        map fst (takeWhile (\<lambda>x. arrival_rank x \<le> arrival_rank a) (sort_key arrival_rank (ranked as)))"
        "dropWhile (\<lambda>p. the (map_of (ranks state) p) \<le> r) ?ps =
        map fst (dropWhile (\<lambda>x. arrival_rank x \<le> arrival_rank a) (sort_key arrival_rank (ranked as)))"
        unfolding takeWhile_map dropWhile_map o_def
        by (rule arg_cong [of _ _ "map fst"], rule takeWhile_cong [OF refl same], assumption)
           (rule arg_cong [of _ _ "map fst"], rule dropWhile_cong [OF refl same], assumption)
    qed
    have "insert_at (rank_position (ranks state) r (display_order as)) uuid (display_order as) = display_order (as @ [a])"
    proof -
      let ?P = "\<lambda>p. the (map_of (ranks state) p) \<le> r"
      have "insert_at (length (takeWhile ?P ?ps)) uuid (?ps @ ?us) = map fst (sort_key arrival_rank (ranked as @ [a])) @ ?us"
        unfolding insert_at_takeWhile unfolding tw dw sort_key_snoc using a by simp
      then show ?thesis
        using rank_position_split [OF pr un, of r] Some a
        by (simp add: display_order_def) (simp add: ranked_def unranked_def)
    qed
    then show ?thesis
      using placed fresh a st(2) mo Some
      by (auto simp: place_def Let_def update_conv')
  qed
qed

subsection \<open>Edits keep the order\<close>

lemma in_orderI:
  "photos = ps @ us \<Longrightarrow> (\<And>p. p \<in> set ps \<Longrightarrow> map_of rs p \<noteq> None) \<Longrightarrow> (\<And>u. u \<in> set us \<Longrightarrow> map_of rs u = None) \<Longrightarrow>
     sorted (map (\<lambda>p. the (map_of rs p)) ps) \<Longrightarrow> in_order photos rs"
  unfolding in_order_def by blast

lemma in_order_map:
  assumes same: "\<And>p. p \<in> set photos \<Longrightarrow> map_of rs' (h p) = map_of rs p" and ord: "in_order photos rs"
  shows "in_order (map h photos) rs'"
proof -
  obtain ps us where o: "photos = ps @ us" "\<forall>p\<in>set ps. map_of rs p \<noteq> None" "\<forall>u\<in>set us. map_of rs u = None"
    "sorted (map (\<lambda>p. the (map_of rs p)) ps)" using ord unfolding in_order_def by blast
  have ps: "map_of rs' (h p) = map_of rs p" if "p \<in> set ps" for p using same [of p] that o(1) by simp
  have us: "map_of rs' (h p) = map_of rs p" if "p \<in> set us" for p using same [of p] that o(1) by simp
  have eq: "map (\<lambda>p. the (map_of rs' p)) (map h ps) = map (\<lambda>p. the (map_of rs p)) ps"
    unfolding map_map comp_def by (rule map_cong [OF refl]) (simp add: ps)
  show ?thesis
  proof (rule in_orderI [of _ "map h ps" "map h us"])
    show "map_of rs' p \<noteq> None" if "p \<in> set (map h ps)" for p using that o(2) ps by fastforce
    show "map_of rs' u = None" if "u \<in> set (map h us)" for u using that o(3) us by fastforce
    show "sorted (map (\<lambda>p. the (map_of rs' p)) (map h ps))" unfolding eq by (rule o(4))
  qed (simp add: o(1))
qed

lemma in_order_cong:
  "(\<And>p. p \<in> set photos \<Longrightarrow> map_of rs p = map_of rs' p) \<Longrightarrow> in_order photos rs = in_order photos rs'"
  using in_order_map [of photos rs' "\<lambda>p. p" rs] in_order_map [of photos rs "\<lambda>p. p" rs'] by (simp only: list.map_ident) metis

lemma in_order_insert:
  assumes "in_order photos rs" "uuid \<notin> set photos"
  shows "in_order (insert_at (rank_position rs r photos) uuid photos) (AList.update uuid r rs)"
proof -
  obtain ps us where o: "photos = ps @ us" "\<forall>p\<in>set ps. map_of rs p \<noteq> None" "\<forall>u\<in>set us. map_of rs u = None"
    "sorted (map (\<lambda>p. the (map_of rs p)) ps)" using assms(1) unfolding in_order_def by blast
  let ?f = "\<lambda>p. the (map_of rs p)"
  let ?t = "takeWhile (\<lambda>p. ?f p \<le> r) ps" and ?d = "dropWhile (\<lambda>p. ?f p \<le> r) ps"
  have photos': "insert_at (rank_position rs r photos) uuid photos = (?t @ uuid # ?d) @ us"
    unfolding o(1) rank_position_split [OF o(2,3)] insert_at_takeWhile by simp
  have mem: "set ?t \<union> set ?d = set ps" by (metis set_append takeWhile_dropWhile_id)
  have other: "map_of (AList.update uuid r rs) p = map_of rs p" if "p \<in> set photos" for p
    using that assms(2) by (auto simp: update_conv')
  have other_t: "map_of (AList.update uuid r rs) p = map_of rs p" if "p \<in> set ?t" for p
    using other [of p] that mem o(1) by auto
  have other_d: "map_of (AList.update uuid r rs) p = map_of rs p" if "p \<in> set ?d" for p
    using other [of p] that mem o(1) by auto
  have td: "sorted (map ?f ?t)" "sorted (map ?f ?d)"
    using o(4) by (metis map_append sorted_append takeWhile_dropWhile_id)+
  have big: "r \<le> ?f v" if "v \<in> set ?d" for v
  proof -
    have "\<not> ?f (hd ?d) \<le> r" using hd_dropWhile [of "\<lambda>p. ?f p \<le> r" ps] that by fastforce
    moreover have "?f (hd ?d) \<le> ?f v" using td(2) that by (cases ?d) auto
    ultimately show ?thesis by linarith
  qed
  let ?g = "\<lambda>p. the (map_of (AList.update uuid r rs) p)"
  have eq: "map ?g ?t = map ?f ?t" "map ?g ?d = map ?f ?d"
    by (rule map_cong [OF refl], simp add: other_t, rule map_cong [OF refl], simp add: other_d)
  have gx: "?g uuid = r" by (simp add: update_conv')
  have "sorted (map ?g (?t @ uuid # ?d))"
  proof (rule sorted_map_mid)
    show "sorted (map ?g ?t)" "sorted (map ?g ?d)" unfolding eq using td by simp_all
    show "\<forall>u\<in>set ?t. ?g u \<le> ?g uuid"
      unfolding gx using other_t by (auto dest: set_takeWhileD)
    show "\<forall>v\<in>set ?d. ?g uuid \<le> ?g v"
      unfolding gx using other_d big by auto
  qed
  then show ?thesis
    unfolding photos'
  proof (rule in_orderI [OF refl, rotated 2])
    show "map_of (AList.update uuid r rs) p \<noteq> None" if "p \<in> set (?t @ uuid # ?d)" for p
      using that other mem o(1,2) by (auto simp: update_conv')
    show "map_of (AList.update uuid r rs) u = None" if "u \<in> set us" for u
      using that other o(1,3) by simp
  qed
qed

lemma in_order_append:
  assumes "in_order photos rs" "uuid \<notin> set photos"
  shows "in_order (photos @ [uuid]) (AList.delete uuid rs)"
proof -
  have other: "map_of (AList.delete uuid rs) p = map_of rs p" if "p \<in> set photos" for p
    using that assms(2) by (auto simp: delete_conv')
  then have "in_order photos (AList.delete uuid rs)" using in_order_cong assms(1) by metis
  then obtain ps us where o: "photos = ps @ us" "\<forall>p\<in>set ps. map_of (AList.delete uuid rs) p \<noteq> None"
    "\<forall>u\<in>set us. map_of (AList.delete uuid rs) u = None"
    "sorted (map (\<lambda>p. the (map_of (AList.delete uuid rs) p)) ps)" unfolding in_order_def by blast
  show ?thesis
    by (rule in_orderI [of _ ps "us @ [uuid]"]) (use o in \<open>auto simp: delete_conv'\<close>)
qed

lemma in_order_filter:
  assumes "in_order photos rs"
  shows "in_order (filter P photos) rs"
proof -
  obtain ps us where o: "photos = ps @ us" "\<forall>p\<in>set ps. map_of rs p \<noteq> None" "\<forall>u\<in>set us. map_of rs u = None"
    "sorted (map (\<lambda>p. the (map_of rs p)) ps)" using assms unfolding in_order_def by blast
  show ?thesis
    by (rule in_orderI [of _ "filter P ps" "filter P us"]) (use o in \<open>auto simp: sorted_filter\<close>)
qed

lemma map_of_hand_over:
  assumes "old \<noteq> new"
  shows "map_of (hand_over old new d) p = (if p = new then map_of d old else if p = old then None else map_of d p)"
  using assms by (auto simp: hand_over_def Let_def delete_conv' update_conv' split: option.splits)

lemma replace_first_map:
  "distinct photos \<Longrightarrow> replace_first old new photos = map (\<lambda>p. if p = old then new else p) photos"
proof (induction photos)
  case (Cons p ps)
  have "old \<notin> set ps \<Longrightarrow> map (\<lambda>p. if p = old then new else p) ps = ps" by (induction ps) auto
  then show ?case using Cons by auto
qed simp

lemma in_order_replace:
  assumes "in_order photos rs" "new \<notin> set photos" "old \<in> set photos"
  shows "in_order (map (\<lambda>p. if p = old then new else p) photos) (hand_over old new rs)"
proof -
  have ne: "old \<noteq> new" using assms(2,3) by blast
  show ?thesis
  proof (rule in_order_map [OF _ assms(1)])
    show "map_of (hand_over old new rs) (if p = old then new else p) = map_of rs p" if "p \<in> set photos" for p
      using that assms(2) ne by (auto simp: map_of_hand_over)
  qed
qed

subsection \<open>Well-formed states\<close>

text \<open>What a stored state holds: one rank and one hash per photo, and every hash 64 lower-case hex digits.\<close>

definition state_ok :: "photo_state \<Rightarrow> bool" where
  "state_ok state =
     (distinct (map fst (ranks state)) \<and> distinct (map fst (hashes state)) \<and>
      (\<forall>(k, h)\<in>set (hashes state). is_hash_text h))"

text \<open>A dict comprehension \<open>{k: g(v) for k, v in d.items() if ...}\<close> keeps the keys distinct.\<close>

lemma distinct_keys_map_filter:
  assumes "distinct (map fst d)" "\<And>k v r. f (k, v) = Some r \<Longrightarrow> fst r = k"
  shows "distinct (map fst (List.map_filter f d))"
  using assms
proof (induction d)
  case (Cons kv d)
  obtain k v where kv: "kv = (k, v)" by (cases kv)
  have keys: "fst ` set (List.map_filter f d) \<subseteq> fst ` set d"
  proof
    fix x assume "x \<in> fst ` set (List.map_filter f d)"
    then obtain k v r where "(k, v) \<in> set d" "f (k, v) = Some r" "x = fst r"
      by (auto simp: List.map_filter_def)
    then show "x \<in> fst ` set d" using Cons.prems(2) [of k v r] by force
  qed
  show ?case
  proof (cases "f kv")
    case None
    then show ?thesis using Cons by (simp add: List.map_filter_simps)
  next
    case (Some r)
    then have "fst r = k" using Cons.prems(2) kv by blast
    then show ?thesis using Cons keys Some kv by (auto simp: List.map_filter_simps)
  qed
qed (simp add: List.map_filter_simps)

lemma distinct_int_entries: "distinct (map fst d) \<Longrightarrow> distinct (map fst (int_entries d))"
  unfolding int_entries_def by (erule distinct_keys_map_filter) (auto split: json.splits)

lemma distinct_hash_entries: "distinct (map fst d) \<Longrightarrow> distinct (map fst (hash_entries d))"
  unfolding hash_entries_def by (erule distinct_keys_map_filter) (auto split: json.splits if_splits)

lemma hash_entries_hashes: "(k, h) \<in> set (hash_entries d) \<Longrightarrow> is_hash_text h"
  by (auto simp: hash_entries_def List.map_filter_def split: json.splits if_splits)

lemma set_delete_subset: "set (AList.delete k d) \<subseteq> set d"
  by (induction d) auto

lemma set_update_subset: "set (AList.update k v d) \<subseteq> insert (k, v) (set d)"
  by (induction d) auto

lemma distinct_delete: "distinct (map fst d) \<Longrightarrow> distinct (map fst (AList.delete k d))"
  by (rule AList.distinct_delete)

lemma state_ok_update:
  assumes "distinct (map fst hs)" "\<forall>(k, h)\<in>set hs. is_hash_text h" "is_hash_text h"
  shows "distinct (map fst (AList.update u h hs)) \<and> (\<forall>(k, h)\<in>set (AList.update u h hs). is_hash_text h)"
  using assms set_update_subset [of u h hs] distinct_update [OF assms(1)] by fastforce

lemma state_ok_delete:
  assumes "distinct (map fst hs)" "\<forall>(k, h)\<in>set hs. is_hash_text h"
  shows "distinct (map fst (AList.delete u hs)) \<and> (\<forall>(k, h)\<in>set (AList.delete u hs). is_hash_text h)"
  using assms set_delete_subset [of u hs] AList.distinct_delete [OF assms(1)] by fastforce

lemma hand_over_distinct: "distinct (map fst d) \<Longrightarrow> distinct (map fst (hand_over old new d))"
  by (simp add: hand_over_def Let_def distinct_update AList.distinct_delete split: option.splits)

lemma hand_over_hashes:
  assumes "distinct (map fst hs)" "\<forall>(k, h)\<in>set hs. is_hash_text h"
  shows "\<forall>(k, h)\<in>set (hand_over old new hs). is_hash_text h"
proof (cases "map_of hs old")
  case None
  then show ?thesis
    using assms set_delete_subset [of old hs] set_delete_subset [of new "AList.delete old hs"]
    by (fastforce simp: hand_over_def)
next
  case (Some v)
  then have "is_hash_text v" using assms(2) map_of_SomeD by fastforce
  then show ?thesis
    using Some state_ok_update [of "AList.delete old hs" v new] state_ok_delete [OF assms, of old]
    by (simp add: hand_over_def)
qed

lemma state_ok_empty [simp]: "state_ok empty_state" "state_ok (clear state)"
  by (simp_all add: state_ok_def empty_state_def clear_def)

lemma state_ok_load:
  assumes "\<And>d r. raw = Text (JDict d) \<Longrightarrow> dget d ''ranks'' = JDict r \<Longrightarrow> distinct (map fst r)"
    "\<And>d h. raw = Text (JDict d) \<Longrightarrow> dget d ''hashes'' = JDict h \<Longrightarrow> distinct (map fst h)"
  shows "state_ok (load_state raw)"
proof (cases "\<exists>d. raw = Text (JDict d)")
  case True
  then obtain d where d: "raw = Text (JDict d)" by blast
  have "distinct (map fst (ranks (load_state raw)))"
    using assms(1) [OF d] d by (auto simp: load_state_def distinct_int_entries split: json.splits)
  moreover have "distinct (map fst (hashes (load_state raw)))"
    using assms(2) [OF d] d by (auto simp: load_state_def distinct_hash_entries split: json.splits)
  moreover have "\<forall>(k, h)\<in>set (hashes (load_state raw)). is_hash_text h"
    using d by (auto simp: load_state_def dest: hash_entries_hashes split: json.splits)
  ultimately show ?thesis by (simp add: state_ok_def)
next
  case False
  then have "load_state raw = empty_state"
    by (auto simp: load_state_def split: stored_json.splits json.splits)
  then show ?thesis by simp
qed

lemma state_ok_place:
  assumes "state_ok state" "pred_option is_hash_text h" "place photos state uuid rank h = Inr (photos', state')"
  shows "state_ok state'"
proof -
  have r: "ranks state' = (case rank of None \<Rightarrow> AList.delete uuid (ranks state) | Some r \<Rightarrow> AList.update uuid r (ranks state))"
    and hs: "hashes state' = (case h of None \<Rightarrow> AList.delete uuid (hashes state) | Some x \<Rightarrow> AList.update uuid x (hashes state))"
    using assms(3) by (auto simp: place_def Let_def split: if_splits option.splits)
  have ok: "distinct (map fst (ranks state))" "distinct (map fst (hashes state))"
    "\<forall>(k, h)\<in>set (hashes state). is_hash_text h" using assms(1) by (auto simp: state_ok_def)
  have "distinct (map fst (ranks state'))"
    unfolding r using ok(1) by (cases rank) (simp_all add: distinct_update AList.distinct_delete)
  moreover have "distinct (map fst (hashes state')) \<and> (\<forall>(k, h)\<in>set (hashes state'). is_hash_text h)"
    unfolding hs using state_ok_update [OF ok(2,3)] state_ok_delete [OF ok(2,3)] assms(2) by (cases h) simp_all
  ultimately show ?thesis by (simp add: state_ok_def)
qed

lemma int_entries_dumped: "int_entries (map (\<lambda>(k, n). (k, JInt n)) d) = d"
  by (induction d) (auto simp: int_entries_def List.map_filter_simps)

lemma hash_entries_dumped:
  "\<forall>(k, h)\<in>set d. is_hash_text h \<Longrightarrow> hash_entries (map (\<lambda>(k, h). (k, JStr h)) d) = d"
  by (induction d) (auto simp: hash_entries_def List.map_filter_simps)

lemma map_of_sort_key: "distinct (map fst d) \<Longrightarrow> map_of (sort_key fst d) = map_of d"
  by (rule map_of_eqI [OF _ _ ]) (auto simp: distinct_map distinct_sort intro!: map_of_unique)

subsection \<open>Properties\<close>

text \<open>C25. The order downloads finish in does not matter. Photos placed one after the other come out with
  the ranked ones by rank (equal ranks in order of arrival) and the unranked ones after them; so
  when the ranks differ, any other order of the same arrivals that keeps the unranked ones in
  sequence gives the same list.\<close>

theorem arrival_order_does_not_matter:
  assumes "distinct (map fst arrivals)"
  shows "\<exists>state. place_all arrivals ([], empty_state) =
      Inr (map fst (sort_key arrival_rank (ranked arrivals)) @ map fst (unranked arrivals), state) \<and>
    (\<forall>arrivals'. mset arrivals' = mset arrivals \<and> unranked arrivals' = unranked arrivals \<and>
        distinct (map arrival_rank (ranked arrivals)) \<longrightarrow>
      (\<exists>state'. place_all arrivals' ([], empty_state) =
         Inr (map fst (sort_key arrival_rank (ranked arrivals)) @ map fst (unranked arrivals), state')))"
proof -
  have "\<exists>state'. place_all arrivals' ([], empty_state) =
         Inr (map fst (sort_key arrival_rank (ranked arrivals)) @ map fst (unranked arrivals), state')"
    if p: "mset arrivals' = mset arrivals" and u: "unranked arrivals' = unranked arrivals"
      and d: "distinct (map arrival_rank (ranked arrivals))" for arrivals'
  proof -
    have "mset (map fst arrivals') = mset (map fst arrivals)" using p by simp
    then have "distinct (map fst arrivals')" using assms by (metis mset_eq_imp_distinct_iff)
    moreover have "mset (ranked arrivals') = mset (ranked arrivals)" using p by (simp add: ranked_def mset_filter)
    then have "sort_key arrival_rank (ranked arrivals') = sort_key arrival_rank (ranked arrivals)"
      using d by (intro sort_key_inj_key_eq) (auto simp: distinct_map set_mset_mset [symmetric] simp del: set_mset_mset)
    ultimately show ?thesis using place_all_invariant [of arrivals'] u by (auto simp: display_order_def)
  qed
  then show ?thesis using place_all_invariant [OF assms] by (fastforce simp: display_order_def)
qed

theorem arrival_order_does_not_matter_witness:
  "\<exists>state. place_all [(''c'', Some 2, None), (''m'', None, None), (''a'', Some 0, None), (''b'', Some 1, None)]
      ([], empty_state) = Inr ([''a'', ''b'', ''c'', ''m''], state)"
proof -
  let ?as = "[(''c'', Some 2, None), (''m'', None, None), (''a'', Some 0, None), (''b'', Some 1, None)] :: arrival list"
  have "map fst (sort_key arrival_rank (ranked ?as)) @ map fst (unranked ?as) = [''a'', ''b'', ''c'', ''m'']"
    by code_simp
  moreover have "distinct (map fst ?as)" by simp
  ultimately show ?thesis using arrival_order_does_not_matter by metis
qed

text \<open>Every edit keeps the photos distinct and in display order: placing a new photo adds exactly it
  (and is refused for one already there), removing drops exactly it, replacing puts the new photo
  in the place and at the rank of the old one.\<close>

theorem photo_edits_keep_order:
  assumes "distinct photos" "in_order photos (ranks state)"
  shows "(\<forall>uuid rank h. uuid \<in> set photos \<longrightarrow> isl (place photos state uuid rank h)) \<and>
    (\<forall>uuid rank h photos' state'. place photos state uuid rank h = Inr (photos', state') \<longrightarrow>
      distinct photos' \<and> mset photos' = add_mset uuid (mset photos) \<and> in_order photos' (ranks state') \<and>
      map_of (ranks state') uuid = rank) \<and>
    (\<forall>uuid. distinct (fst (remove photos state uuid)) \<and> set (fst (remove photos state uuid)) = set photos - {uuid} \<and>
      in_order (fst (remove photos state uuid)) (ranks (snd (remove photos state uuid)))) \<and>
    (\<forall>old new. new \<notin> set photos \<and> old \<in> set photos \<longrightarrow>
      (\<exists>photos' state'. replace photos state old new = Some (photos', state') \<and> distinct photos' \<and>
         photos' = map (\<lambda>p. if p = old then new else p) photos \<and> in_order photos' (ranks state') \<and>
         map_of (ranks state') new = map_of (ranks state) old))"
proof (intro conjI allI impI, goal_cases)
  case (1 uuid rank h)
  then show ?case by (simp add: place_def)
next
  case (2 uuid rank h photos' state')
  then have new: "uuid \<notin> set photos" by (auto simp: place_def split: if_splits)
  show ?case
  proof (cases rank)
    case None
    then have "photos' = photos @ [uuid]" "ranks state' = AList.delete uuid (ranks state)"
      using 2 new by (auto simp: place_def Let_def)
    then show ?thesis using assms(1) new by auto
  next
    case (Some r)
    then have "photos' = insert_at (rank_position (ranks state) r photos) uuid photos"
      using 2 new by (auto simp: place_def Let_def)
    moreover have "mset (insert_at i uuid photos) = mset (uuid # photos)" for i by simp
    ultimately show ?thesis using assms(1) new by (metis distinct.simps(2) mset_eq_imp_distinct_iff)
  qed
next
  case (3 uuid rank h photos' state')
  then show ?case by (auto simp: place_def Let_def split: if_splits option.splits)
next
  case (4 uuid rank h photos' state')
  then have new: "uuid \<notin> set photos" by (auto simp: place_def split: if_splits)
  then show ?case
    using 4 in_order_insert [OF assms(2) new] in_order_append [OF assms(2) new]
    by (auto simp: place_def Let_def split: option.splits)
next
  case (5 uuid rank h photos' state')
  then show ?case by (auto simp: place_def Let_def update_conv' delete_conv' split: if_splits option.splits)
next
  case (8 uuid)
  have "in_order (filter (\<lambda>p. p \<noteq> uuid) photos) (ranks state) =
      in_order (filter (\<lambda>p. p \<noteq> uuid) photos) (AList.delete uuid (ranks state))"
    by (rule in_order_cong) (auto simp: delete_conv')
  then show ?case using in_order_filter [OF assms(2)] by (simp add: remove_def)
next
  case (9 old new)
  then have ne: "old \<noteq> new" by blast
  have "distinct (map (\<lambda>p. if p = old then new else p) photos)"
    using assms(1) 9 by (auto simp: distinct_map inj_on_def)
  then show ?case
    using 9 in_order_replace [OF assms(2)] ne
    by (auto simp: replace_def replace_first_map [OF assms(1)] map_of_hand_over)
qed (use assms in \<open>auto simp: remove_def\<close>)

theorem photo_edits_keep_order_witness:
  "in_order (fst (remove [''a'', ''b'', ''m''] \<lparr>epoch = 0, ranks = [(''a'', 1), (''b'', 5)], hashes = []\<rparr> ''a''))
     (ranks (snd (remove [''a'', ''b'', ''m''] \<lparr>epoch = 0, ranks = [(''a'', 1), (''b'', 5)], hashes = []\<rparr> ''a'')))"
proof -
  let ?s = "\<lparr>epoch = 0, ranks = [(''a'', 1), (''b'', 5)], hashes = []\<rparr>"
  have "in_order [''a'', ''b'', ''m''] (ranks ?s)"
    by (rule in_orderI [of _ "[''a'', ''b'']" "[''m'']"]) auto
  moreover have "distinct [''a'', ''b'', ''m'']" by simp
  ultimately show ?thesis using photo_edits_keep_order by blast
qed



text \<open>A well-formed state survives the column: what \<open>dump_state\<close> writes \<open>load_state\<close> reads back as the
  same epoch, the same ranks and the same hashes, so the photos a re-import recognises by content
  hash are the same before and after.\<close>

theorem photo_state_roundtrip:
  assumes "state_ok state"
  shows "epoch (load_state (Text (dump_state state))) = epoch state \<and>
    map_of (ranks (load_state (Text (dump_state state)))) = map_of (ranks state) \<and>
    map_of (hashes (load_state (Text (dump_state state)))) = map_of (hashes state) \<and>
    has_hash (load_state (Text (dump_state state))) = has_hash state"
proof -
  have hs: "\<forall>(k, h)\<in>set (sort_key fst (hashes state)). is_hash_text h"
    using assms by (simp add: state_ok_def)
  have l: "load_state (Text (dump_state state)) =
      \<lparr>epoch = epoch state, ranks = sort_key fst (ranks state), hashes = sort_key fst (hashes state)\<rparr>"
    by (simp add: load_state_def dump_state_def dget_def int_entries_dumped hash_entries_dumped [OF hs])
  have m: "map_of (sort_key fst (ranks state)) = map_of (ranks state)"
    "map_of (sort_key fst (hashes state)) = map_of (hashes state)"
    using assms by (simp_all add: state_ok_def map_of_sort_key)
  have "has_hash (load_state (Text (dump_state state))) = has_hash state"
    by (intro ext) (simp add: has_hash_def l m split: json.splits)
  then show ?thesis by (simp add: l m)
qed

theorem photo_state_roundtrip_witness:
  "map_of (ranks (load_state (Text (dump_state \<lparr>epoch = 1, ranks = [(''b'', 3), (''a'', 7)], hashes = []\<rparr>)))) ''a'' = Some 7"
  using photo_state_roundtrip [of "\<lparr>epoch = 1, ranks = [(''b'', 3), (''a'', 7)], hashes = []\<rparr>"]
  by (simp add: state_ok_def)

end
