(* ===== verification/Elevation.thy ===== *)
theory Elevation
  imports PyNumbers "HOL-Library.AList"
begin

text \<open>
  \<open>src/project/elevation_codec.py\<close> and \<open>src/project/elevation_downsample.py\<close>: the compact text an
  elevation profile travels as, and the low-resolution profile served first.

  A Python text is its list of code points here, since the codec reads and writes characters by
  \<open>ord\<close> and \<open>chr\<close>. Finite floats are exact rationals; a float that would reach the largest double is
  infinite (\<open>float_limit\<close> is where IEEE rounding gives infinity). \<open>float(n)\<close> of an integer beyond
  that limit raises \<open>OverflowError\<close>.
\<close>

unbundle bit_operations_syntax

type_synonym code_points = "int list"

datatype codec_error = OverflowError

definition DIST_SCALE :: rat where "DIST_SCALE = 1000"
definition ELEV_SCALE :: rat where "ELEV_SCALE = 10"

subsection \<open>Encoding\<close>

text \<open>\<open>while v >= 0x20\<close> of \<open>_encode_signed\<close>; \<open>v\<close> is never negative there.\<close>

function encode_unsigned :: "int \<Rightarrow> code_points" where
  "encode_unsigned v =
     (if v \<ge> 0x20 then ((0x20 OR (v AND 0x1F)) + 63) # encode_unsigned (drop_bit 5 v) else [v + 63])"
  by auto
termination
  by (relation "measure nat") (auto simp: drop_bit_eq_div)

declare encode_unsigned.simps [simp del]

definition encode_signed :: "int \<Rightarrow> code_points \<Rightarrow> code_points" where
  "encode_signed value out =
     (let v = (if value < 0 then NOT (push_bit 1 value) else push_bit 1 value) in out @ encode_unsigned v)"

text \<open>\<open>round(x * scale)\<close>; \<open>None\<close> when the product is infinite (\<open>OverflowError\<close>, skipped by the caller).\<close>

definition quantise :: "rat \<Rightarrow> rat \<Rightarrow> int option" where
  "quantise scale x = (if \<bar>x * scale\<bar> < float_limit then Some (round_half_even (x * scale)) else None)"

text \<open>
  One sample: \<open>Inl\<close> an exception of the first \<open>try\<close> that its handler does not name, \<open>Inr None\<close> a
  sample that is skipped, else the quantised distance and elevation.
\<close>

definition sample_of :: "json \<Rightarrow> (codec_error, (int \<times> int) option) result" where
  "sample_of point =
     (case point of
        JList (x # y # _) \<Rightarrow>
          (case to_float x of
             NotAFloat \<Rightarrow> Inr None
           | TooLarge \<Rightarrow> Inl OverflowError
           | Float df \<Rightarrow>
               (case to_float y of
                  NotAFloat \<Rightarrow> Inr None
                | TooLarge \<Rightarrow> Inl OverflowError
                | Float ef \<Rightarrow>
                    Inr (do { fd \<leftarrow> finite_value df;
                              fe \<leftarrow> finite_value ef;
                              d \<leftarrow> quantise DIST_SCALE fd;
                              e \<leftarrow> quantise ELEV_SCALE fe;
                              Some (d, e) })))
      | _ \<Rightarrow> Inr None)"

fun encode_loop :: "json list \<Rightarrow> int \<Rightarrow> int \<Rightarrow> code_points \<Rightarrow> (codec_error, code_points) result" where
  "encode_loop [] prev_d prev_e out = Inr out"
| "encode_loop (point # rest) prev_d prev_e out =
     (case sample_of point of
        Inl err \<Rightarrow> Inl err
      | Inr None \<Rightarrow> encode_loop rest prev_d prev_e out
      | Inr (Some (d, e)) \<Rightarrow>
          encode_loop rest d e (encode_signed (e - prev_e) (encode_signed (d - prev_d) out)))"

definition encode_profile_pairs :: "json list \<Rightarrow> (codec_error, code_points) result" where
  "encode_profile_pairs pairs = encode_loop pairs 0 0 []"

text \<open>The profile of an activity: nothing, or a tuple whose parts may be missing.\<close>

definition encode_profile_arrays :: "json list option list option \<Rightarrow> (codec_error, code_points) result" where
  "encode_profile_arrays profile =
     (case profile of
        Some [distances, elevations] \<Rightarrow>
          encode_profile_pairs
            (map2 (\<lambda>d e. JList [d, e]) (case distances of None \<Rightarrow> [] | Some ds \<Rightarrow> ds)
                                       (case elevations of None \<Rightarrow> [] | Some es \<Rightarrow> es))
      | _ \<Rightarrow> Inr [])"

subsection \<open>Decoding\<close>

text \<open>The inner \<open>while True\<close>: \<open>None\<close> when the input ends inside a number.\<close>

fun decode_varint :: "code_points \<Rightarrow> int \<Rightarrow> nat \<Rightarrow> (int \<times> code_points) option" where
  "decode_varint [] result shift = None"
| "decode_varint (c # cs) result shift =
     (let byte = c - 63;
          result' = result OR push_bit shift (byte AND 0x1F) in
      if byte < 0x20 then Some (result', cs) else decode_varint cs result' (shift + 5))"

definition unzigzag :: "int \<Rightarrow> int" where
  "unzigzag result = (if result AND 1 \<noteq> 0 then NOT (drop_bit 1 result) else drop_bit 1 result)"

lemma decode_varint_shorter: "decode_varint cs r s = Some (v, rest) \<Longrightarrow> length rest < length cs"
  by (induction cs r s rule: decode_varint.induct) (fastforce simp: Let_def split: if_splits)+

function decode_loop :: "code_points \<Rightarrow> int \<Rightarrow> int \<Rightarrow> (rat \<times> rat) list" where
  "decode_loop cs d e =
     (case decode_varint cs 0 0 of
        None \<Rightarrow> []
      | Some (v1, cs1) \<Rightarrow>
          (case decode_varint cs1 0 0 of
             None \<Rightarrow> []
           | Some (v2, cs2) \<Rightarrow>
               (let d' = d + unzigzag v1; e' = e + unzigzag v2 in
                (of_int d' / DIST_SCALE, of_int e' / ELEV_SCALE) # decode_loop cs2 d' e')))"
  by auto
termination
  by (relation "measure (\<lambda>(cs, d, e). length cs)") (auto dest!: decode_varint_shorter)

declare decode_loop.simps [simp del]

definition decode_profile :: "code_points \<Rightarrow> (rat \<times> rat) list" where
  "decode_profile encoded = decode_loop encoded 0 0"

subsection \<open>The payload of the elevation endpoint\<close>

record elevation_activity =
  ea_id :: json
  ea_profile_enc :: "string option"
  ea_profile :: "json list option list option"

record elevation_payload =
  ep_profiles :: "(string \<times> code_points) list"
  ep_encrypted :: "(string \<times> string) list"

fun payload_loop :: "elevation_activity list \<Rightarrow> elevation_payload \<Rightarrow> (codec_error, elevation_payload) result" where
  "payload_loop [] p = Inr p"
| "payload_loop (act # rest) p =
     (let key = py_str (ea_id act); enc = (case ea_profile_enc act of None \<Rightarrow> '''' | Some t \<Rightarrow> t) in
      if enc \<noteq> '''' then payload_loop rest (p\<lparr>ep_encrypted := AList.update key enc (ep_encrypted p)\<rparr>)
      else rbind (encode_profile_arrays (ea_profile act)) (\<lambda>encoded.
        if encoded \<noteq> [] then payload_loop rest (p\<lparr>ep_profiles := AList.update key encoded (ep_profiles p)\<rparr>)
        else payload_loop rest p))"

definition build_elevation_payload :: "elevation_activity list \<Rightarrow> (codec_error, elevation_payload) result" where
  "build_elevation_payload activities = payload_loop activities \<lparr>ep_profiles = [], ep_encrypted = []\<rparr>"

subsection \<open>The codec is lossless at its precision\<close>

lemma and_31: "v AND 0x1F = take_bit 5 (v::int)"
  by (simp add: take_bit_eq_mask mask_eq_exp_minus_1)

lemma or_32: "0x20 OR take_bit 5 v = 32 + take_bit 5 (v::int)"
proof -
  have "(2 ^ 5 :: int) OR take_bit 5 v = 2 ^ 5 + take_bit 5 v"
    by (rule disjunctive_add [symmetric]) (auto simp: bit_take_bit_iff bit_exp_iff simp del: power_numeral)
  then show ?thesis by simp
qed

lemma take_drop_or: "take_bit n v OR push_bit n (drop_bit n v) = (v::int)"
proof (rule bit_eqI)
  fix k
  show "bit (take_bit n v OR push_bit n (drop_bit n v)) k = bit v k"
    by (cases "k < n") (auto simp: bit_or_iff bit_take_bit_iff bit_push_bit_iff bit_drop_bit_eq)
qed

lemma encode_unsigned_alphabet: "0 \<le> v \<Longrightarrow> c \<in> set (encode_unsigned v) \<Longrightarrow> 63 \<le> c \<and> c \<le> 126"
proof (induction v rule: encode_unsigned.induct)
  case (1 v)
  have "take_bit 5 v < 32" using take_bit_int_less_exp [of 5 v] by simp
  then show ?case
    using 1 by (subst (asm) encode_unsigned.simps) (auto simp: or_32 and_31 split: if_splits)
qed

lemma encode_unsigned_nonempty [simp]: "encode_unsigned v \<noteq> []"
  by (subst encode_unsigned.simps) simp

lemma decode_encode_unsigned:
  "0 \<le> v \<Longrightarrow> decode_varint (encode_unsigned v @ rest) r s = Some (r OR push_bit s v, rest)"
proof (induction v arbitrary: r s rule: encode_unsigned.induct)
  case (1 v)
  show ?case
  proof (cases "v \<ge> 32")
    case True
    have b: "take_bit 5 (32 + take_bit 5 v) = take_bit 5 v" "\<not> 32 + take_bit 5 v < 32"
      by (simp_all add: take_bit_eq_mod)
    have v: "push_bit s (take_bit 5 v) OR push_bit (s + 5) (drop_bit 5 v) = push_bit s v"
      using arg_cong [OF take_drop_or [of 5 v], of "push_bit s"]
      by (simp add: push_bit_or push_bit_push_bit add.commute)
    show ?thesis
      using True 1 b v by (subst encode_unsigned.simps) (simp add: Let_def or_32 and_31 or.assoc)
  next
    case False
    then have "take_bit 5 v = v" using 1 by (simp add: take_bit_int_eq_self)
    then show ?thesis using False 1 by (subst encode_unsigned.simps) (simp add: Let_def and_31)
  qed
qed

definition zigzag :: "int \<Rightarrow> int" where
  "zigzag value = (if value < 0 then NOT (push_bit 1 value) else push_bit 1 value)"

lemma zigzag_nonneg: "0 \<le> zigzag value"
  by (simp add: zigzag_def push_bit_eq_mult not_int_def)

lemma unzigzag_zigzag [simp]: "unzigzag (zigzag value) = value"
  by (auto simp: unzigzag_def zigzag_def push_bit_eq_mult drop_bit_eq_div not_int_def and_one_eq)

lemma encode_signed_zigzag: "encode_signed value out = out @ encode_unsigned (zigzag value)"
  by (simp add: encode_signed_def zigzag_def Let_def)

lemma decode_encode_signed:
  "decode_varint (encode_unsigned (zigzag value) @ rest) 0 0 = Some (zigzag value, rest)"
  using decode_encode_unsigned [OF zigzag_nonneg] by simp

text \<open>The sequence of quantised samples, and the text it is encoded as.\<close>

fun samples_of :: "json list \<Rightarrow> (codec_error, (int \<times> int) list) result" where
  "samples_of [] = Inr []"
| "samples_of (point # rest) =
     rbind (sample_of point) (\<lambda>s. rbind (samples_of rest) (\<lambda>ss. Inr (case s of None \<Rightarrow> ss | Some q \<Rightarrow> q # ss)))"

fun deltas_text :: "int \<Rightarrow> int \<Rightarrow> (int \<times> int) list \<Rightarrow> code_points" where
  "deltas_text prev_d prev_e [] = []"
| "deltas_text prev_d prev_e ((d, e) # rest) =
     encode_unsigned (zigzag (d - prev_d)) @ encode_unsigned (zigzag (e - prev_e)) @ deltas_text d e rest"

definition scaled :: "int \<times> int \<Rightarrow> rat \<times> rat" where
  "scaled q = (of_int (fst q) / DIST_SCALE, of_int (snd q) / ELEV_SCALE)"

lemma encode_loop_samples:
  "encode_loop pairs pd pe out = rbind (samples_of pairs) (\<lambda>qs. Inr (out @ deltas_text pd pe qs))"
proof (induction pairs arbitrary: pd pe out)
  case (Cons point rest)
  show ?case
    by (cases "sample_of point"; cases "samples_of rest")
       (auto simp: Cons encode_signed_zigzag split: option.splits)
qed simp

lemma decode_deltas: "decode_loop (deltas_text d e qs) d e = map scaled qs"
proof (induction qs arbitrary: d e)
  case Nil
  then show ?case by (simp add: decode_loop.simps)
next
  case (Cons q qs)
  obtain d' e' where q: "q = (d', e')" by (cases q)
  show ?case
    unfolding q by (subst decode_loop.simps) (simp add: decode_encode_signed Cons scaled_def)
qed

text \<open>A cut inside a number leaves it undecoded: every code point of a number but its last asks for more.\<close>

lemma decode_varint_cut:
  "0 \<le> v \<Longrightarrow> n < length (encode_unsigned v) \<Longrightarrow> decode_varint (take n (encode_unsigned v)) r s = None"
proof (induction v arbitrary: n r s rule: encode_unsigned.induct)
  case (1 v)
  show ?case
  proof (cases "v \<ge> 32 \<and> n \<noteq> 0")
    case True
    then obtain m where n: "n = Suc m" by (cases n) auto
    have "m < length (encode_unsigned (drop_bit 5 v))"
      using 1(3) True n by (subst (asm) encode_unsigned.simps) simp
    then have "decode_varint (take m (encode_unsigned (drop_bit 5 v))) r' s' = None" for r' s'
      using 1(1) True 1(2) by simp
    moreover have "\<not> 32 + take_bit 5 v < 32" using take_bit_nonnegative [of 5 v] by simp
    ultimately show ?thesis
      using True n by (subst encode_unsigned.simps) (simp add: Let_def or_32 and_31)
  next
    case False
    then have "n = 0" using 1(3) by (subst (asm) encode_unsigned.simps) (auto split: if_splits)
    then show ?thesis by simp
  qed
qed

lemma decode_cut: "\<exists>k. decode_loop (take n (deltas_text d e qs)) d e = take k (map scaled qs)"
proof (induction qs arbitrary: d e n)
  case Nil
  then show ?case by (simp add: decode_loop.simps)
next
  case (Cons q qs)
  obtain d' e' where q: "q = (d', e')" by (cases q)
  let ?a = "encode_unsigned (zigzag (d' - d))" and ?b = "encode_unsigned (zigzag (e' - e))"
  consider (first) "n < length ?a" | (second) "length ?a \<le> n" "n < length ?a + length ?b" | (later) "length ?a + length ?b \<le> n"
    by linarith
  then show ?case
  proof cases
    case first
    then have "decode_varint (take n ?a) 0 0 = None" by (rule decode_varint_cut [OF zigzag_nonneg])
    then have "decode_loop (take n (deltas_text d e (q # qs))) d e = []"
      using first by (subst decode_loop.simps) (simp add: q)
    then show ?thesis by (metis take0)
  next
    case second
    then have "decode_varint (take (n - length ?a) ?b) 0 0 = None"
      by (intro decode_varint_cut [OF zigzag_nonneg]) simp
    then have "decode_loop (take n (deltas_text d e (q # qs))) d e = []"
      using second by (subst decode_loop.simps) (simp add: q decode_encode_signed)
    then show ?thesis by (metis take0)
  next
    case later
    obtain k where k: "decode_loop (take (n - length ?a - length ?b) (deltas_text d' e' qs)) d' e' = take k (map scaled qs)"
      using Cons by blast
    have "decode_loop (take n (deltas_text d e (q # qs))) d e = take (Suc k) (map scaled (q # qs))"
      using later k by (subst decode_loop.simps) (simp add: q decode_encode_signed scaled_def)
    then show ?thesis by blast
  qed
qed

lemma deltas_text_alphabet: "c \<in> set (deltas_text d e qs) \<Longrightarrow> 63 \<le> c \<and> c \<le> 126"
  by (induction d e qs rule: deltas_text.induct) (auto dest: encode_unsigned_alphabet [OF zigzag_nonneg])

lemma quantise_close:
  assumes "quantise scale x = Some q" "0 < scale"
  shows "\<bar>of_int q / scale - x\<bar> \<le> 1 / (2 * scale)"
proof -
  have q: "q = round_half_even (x * scale)" using assms(1) by (simp add: quantise_def split: if_splits)
  have "\<bar>of_int q - x * scale\<bar> \<le> 1 / 2"
    using round_half_even_bounds [of "x * scale"] unfolding q abs_le_iff by linarith
  then have "\<bar>(of_int q - x * scale) / scale\<bar> \<le> (1 / 2) / scale"
    unfolding abs_divide abs_of_pos [OF assms(2)] using assms(2) by (intro divide_right_mono) simp_all
  moreover have "(of_int q - x * scale) / scale = of_int q / scale - x" using assms(2) by (simp add: field_simps)
  ultimately show ?thesis by simp
qed

subsection \<open>Downsampling: Largest-Triangle-Three-Buckets\<close>

definition DEFAULT_MAX_POINTS :: int where "DEFAULT_MAX_POINTS = 300"

text \<open>\<open>xs[a:b]\<close> and \<open>int(x)\<close> of a float that is not negative.\<close>

definition slice :: "nat \<Rightarrow> nat \<Rightarrow> 'a list \<Rightarrow> 'a list" where
  "slice a b xs = take (b - a) (drop a xs)"

definition int_of_float :: "rat \<Rightarrow> nat" where
  "int_of_float x = nat (trunc_rat x)"

text \<open>\<open>for j in range(cs, ce): if area > max_area: ...\<close>.\<close>

fun pick_largest :: "(nat \<Rightarrow> rat) \<Rightarrow> nat list \<Rightarrow> rat \<Rightarrow> nat \<Rightarrow> nat" where
  "pick_largest area [] max_area best = best"
| "pick_largest area (j # js) max_area best =
     (if area j > max_area then pick_largest area js (area j) j else pick_largest area js max_area best)"

definition lttb_pick :: "rat list \<Rightarrow> rat list \<Rightarrow> nat \<Rightarrow> rat \<Rightarrow> nat \<Rightarrow> nat \<Rightarrow> nat" where
  "lttb_pick xs ys n every i a =
     (let ns = int_of_float (of_nat (i + 1) * every) + 1;
          ne = min (int_of_float (of_nat (i + 2) * every) + 1) n;
          cnt = max (ne - ns) 1;
          avg_x = sum_list (slice ns ne xs) / of_nat cnt;
          avg_y = sum_list (slice ns ne ys) / of_nat cnt;
          cs = int_of_float (of_nat i * every) + 1;
          ce = min (int_of_float (of_nat (i + 1) * every) + 1) n;
          ax = xs ! a; ay = ys ! a in
      pick_largest (\<lambda>j. \<bar>(ax - avg_x) * (ys ! j - ay) - (ax - xs ! j) * (avg_y - ay)\<bar>) [cs..<ce] (- 1) cs)"

fun lttb_loop :: "rat list \<Rightarrow> rat list \<Rightarrow> nat \<Rightarrow> rat \<Rightarrow> nat list \<Rightarrow> nat \<Rightarrow> nat list" where
  "lttb_loop xs ys n every [] a = []"
| "lttb_loop xs ys n every (i # is) a =
     (let best = lttb_pick xs ys n every i a in best # lttb_loop xs ys n every is best)"

definition lttb_indices :: "rat list \<Rightarrow> rat list \<Rightarrow> nat \<Rightarrow> nat \<Rightarrow> nat list" where
  "lttb_indices xs ys n threshold =
     (let every = of_int (int n - 2) / of_int (int threshold - 2) in
      0 # lttb_loop xs ys n every [0..<threshold - 2] 0 @ [n - 1])"

text \<open>\<open>min(range(n), key=...)\<close> and \<open>max(range(n), key=...)\<close> return the first extreme index.\<close>

definition downsample_elevation :: "rat list \<Rightarrow> rat list \<Rightarrow> int \<Rightarrow> rat list \<times> rat list" where
  "downsample_elevation distances_km elevations_m max_points =
     (let n = min (length distances_km) (length elevations_m) in
      if int n \<le> max_points \<or> n \<le> 2 \<or> max_points < 3 then (take n distances_km, take n elevations_m)
      else
        let idx = lttb_indices distances_km elevations_m n (nat max_points) @
                  [arg_min_list (\<lambda>i. elevations_m ! i) [0..<n], arg_min_list (\<lambda>i. - (elevations_m ! i)) [0..<n]];
            final = sort (remdups idx) in
        (map (\<lambda>i. distances_km ! i) final, map (\<lambda>i. elevations_m ! i) final))"

lemma pick_largest_mem: "best \<in> S \<Longrightarrow> set js \<subseteq> S \<Longrightarrow> pick_largest area js m best \<in> S"
  by (induction js arbitrary: m best) auto

text \<open>The buckets: \<open>bucket i\<close> is where the \<open>i\<close>-th starts.\<close>

definition bucket :: "nat \<Rightarrow> nat \<Rightarrow> nat \<Rightarrow> nat" where
  "bucket n m i = int_of_float (of_nat i * (of_nat n / of_nat m)) + 1"

lemma int_of_float_nat: "0 \<le> x \<Longrightarrow> int_of_float x = nat \<lfloor>x\<rfloor>"
  by (simp add: int_of_float_def trunc_rat_def)

lemma bucket_0 [simp]: "bucket n m 0 = 1"
  by (simp add: bucket_def int_of_float_def trunc_rat_def)

lemma bucket_last: "0 < m \<Longrightarrow> bucket n m m = n + 1"
  by (simp add: bucket_def int_of_float_nat)

lemma bucket_less: "0 < m \<Longrightarrow> m < n \<Longrightarrow> bucket n m i < bucket n m (Suc i)"
proof -
  assume m: "0 < m" "m < n"
  let ?e = "of_nat n / of_nat m :: rat"
  have e: "1 \<le> ?e" using m by simp
  have "\<lfloor>of_nat i * ?e\<rfloor> + 1 \<le> \<lfloor>of_nat i * ?e + ?e\<rfloor>" using e by linarith
  moreover have "of_nat (Suc i) * ?e = of_nat i * ?e + ?e" by (simp only: of_nat_Suc distrib_right mult_1_left add.commute)
  moreover have "0 \<le> of_nat i * ?e" by simp
  moreover have "0 \<le> of_nat (Suc i) * ?e" using m by simp
  ultimately have "nat \<lfloor>of_nat i * ?e\<rfloor> < nat \<lfloor>of_nat (Suc i) * ?e\<rfloor>" by linarith
  then show ?thesis
    unfolding bucket_def using \<open>0 \<le> of_nat i * ?e\<close> \<open>0 \<le> of_nat (Suc i) * ?e\<close> by (simp only: int_of_float_nat)
qed

lemma bucket_mono: "0 < m \<Longrightarrow> m < n \<Longrightarrow> i \<le> j \<Longrightarrow> bucket n m i \<le> bucket n m j"
  by (rule lift_Suc_mono_le [of "bucket n m"]) (simp_all add: bucket_less less_imp_le)

lemma lttb_pick_bucket:
  assumes "0 < m" "m < n" "i < m"
  shows "bucket n m i \<le> lttb_pick xs ys (n + 2) (of_nat n / of_nat m) i a \<and>
    lttb_pick xs ys (n + 2) (of_nat n / of_nat m) i a < bucket n m (Suc i)"
proof -
  have "bucket n m (Suc i) \<le> n + 1" using bucket_mono [of m n "Suc i" m] bucket_last [of m n] assms by simp
  then have ce: "min (bucket n m (Suc i)) (n + 2) = bucket n m (Suc i)" by simp
  have "lttb_pick xs ys (n + 2) (of_nat n / of_nat m) i a \<in> {bucket n m i..<bucket n m (Suc i)}"
    using bucket_less [OF assms(1,2), of i] ce
    unfolding lttb_pick_def Let_def
    by (intro pick_largest_mem) (auto simp: bucket_def)
  then show ?thesis by simp
qed

lemma lttb_loop_sorted:
  assumes "0 < m" "m < n" "i \<le> m"
  shows "sorted_wrt (<) (lttb_loop xs ys (n + 2) (of_nat n / of_nat m) [i..<m] a) \<and>
    set (lttb_loop xs ys (n + 2) (of_nat n / of_nat m) [i..<m] a) \<subseteq> {bucket n m i..<bucket n m m} \<and>
    length (lttb_loop xs ys (n + 2) (of_nat n / of_nat m) [i..<m] a) = m - i"
  using assms(3)
proof (induction "m - i" arbitrary: i a)
  case 0
  then show ?case by simp
next
  case (Suc k)
  then have i: "i < m" by simp
  let ?e = "of_nat n / of_nat m :: rat"
  let ?p = "lttb_pick xs ys (n + 2) ?e i a"
  have p: "bucket n m i \<le> ?p" "?p < bucket n m (Suc i)" using lttb_pick_bucket [OF assms(1,2) i] by blast+
  have IH: "sorted_wrt (<) (lttb_loop xs ys (n + 2) ?e [Suc i..<m] ?p)"
    "set (lttb_loop xs ys (n + 2) ?e [Suc i..<m] ?p) \<subseteq> {bucket n m (Suc i)..<bucket n m m}"
    "length (lttb_loop xs ys (n + 2) ?e [Suc i..<m] ?p) = m - Suc i"
    using Suc(1) [of "Suc i" ?p] Suc(2) i by auto
  have le: "bucket n m (Suc i) \<le> bucket n m m" "bucket n m i \<le> bucket n m (Suc i)"
    using bucket_mono [OF assms(1,2)] i by simp_all
  have upt: "[i..<m] = i # [Suc i..<m]" using i by (rule upt_conv_Cons)
  show ?case unfolding upt lttb_loop.simps Let_def using IH p le i by (auto dest: subsetD)
qed

lemma lttb_indices_spec:
  assumes "3 \<le> threshold" "threshold < n"
  shows "sorted_wrt (<) (lttb_indices xs ys n threshold) \<and> set (lttb_indices xs ys n threshold) \<subseteq> {..<n} \<and>
    length (lttb_indices xs ys n threshold) = threshold \<and>
    0 \<in> set (lttb_indices xs ys n threshold) \<and> n - 1 \<in> set (lttb_indices xs ys n threshold)"
proof -
  let ?n = "n - 2" and ?m = "threshold - 2"
  have m: "0 < ?m" "?m < ?n" using assms by simp_all
  have e: "of_int (int n - 2) / of_int (int threshold - 2) = (of_nat ?n / of_nat ?m :: rat)"
    using assms by (simp add: of_nat_diff)
  have n: "?n + 2 = n" and top: "?n + 1 = n - 1" using assms by simp_all
  let ?l = "lttb_loop xs ys n (of_nat ?n / of_nat ?m) [0..<?m] 0"
  have l: "sorted_wrt (<) ?l" "set ?l \<subseteq> {1..<n - 1}" "length ?l = ?m"
    using lttb_loop_sorted [OF m, of 0 xs ys 0] unfolding n bucket_last [OF m(1), of ?n] bucket_0 top
    by simp_all
  have eq: "lttb_indices xs ys n threshold = 0 # ?l @ [n - 1]"
    unfolding lttb_indices_def Let_def e ..
  have "sorted_wrt (<) (0 # ?l @ [n - 1])"
    using l(1,2) assms by (auto simp: sorted_wrt_append dest: subsetD)
  moreover have "{1..<n - 1} \<subseteq> {..<n}" by auto
  then have "set (0 # ?l @ [n - 1]) \<subseteq> {..<n}" using l(2) assms by auto
  ultimately show ?thesis unfolding eq using l(3) assms by simp
qed

lemma arg_min_list_mem: "xs \<noteq> [] \<Longrightarrow> arg_min_list f xs \<in> set xs"
  by (rule arg_min_list_in)

lemma arg_min_list_le: "x \<in> set xs \<Longrightarrow> (f (arg_min_list f xs) :: rat) \<le> f x"
  using f_arg_min_list_f [of xs f] by (cases xs) auto

subsection \<open>Properties\<close>

text \<open>C31. An encoded profile decodes to the samples it was made from, each at the precision of the format
  (a metre of distance, a decimetre of elevation, so within half a step), malformed and non-finite
  samples left out; the text uses only the code points 63 to 126; and cutting the text anywhere
  loses samples at the end only.\<close>

theorem elevation_roundtrip:
  assumes "encode_profile_pairs pairs = Inr t"
  shows "decode_profile t =
      map scaled (List.map_filter (\<lambda>p. case sample_of p of Inl _ \<Rightarrow> None | Inr s \<Rightarrow> s) pairs) \<and>
    (\<forall>p\<in>set pairs. \<forall>d e. p = JList [JFloat (Fin d), JFloat (Fin e)] \<and>
        \<bar>d\<bar> * 1000 < float_limit \<and> \<bar>e\<bar> * 10 < float_limit \<longrightarrow>
      (\<exists>q. sample_of p = Inr (Some q) \<and> \<bar>fst (scaled q) - d\<bar> \<le> 1 / 2000 \<and> \<bar>snd (scaled q) - e\<bar> \<le> 1 / 20)) \<and>
    (\<forall>c\<in>set t. 63 \<le> c \<and> c \<le> 126) \<and>
    (\<forall>n. \<exists>k. decode_profile (take n t) = take k (decode_profile t))"
proof -
  obtain qs where qs: "samples_of pairs = Inr qs" and t: "t = deltas_text 0 0 qs"
    using assms by (auto simp: encode_profile_pairs_def encode_loop_samples elim!: rbind_InrE)
  have "qs = List.map_filter (\<lambda>p. case sample_of p of Inl _ \<Rightarrow> None | Inr s \<Rightarrow> s) pairs"
    using qs
  proof (induction pairs arbitrary: qs)
    case (Cons p ps)
    then show ?case
      by (auto simp: List.map_filter_simps elim!: rbind_InrE split: option.splits)
  qed (simp add: List.map_filter_simps)
  moreover have dec: "decode_profile t = map scaled qs"
    by (simp add: t decode_profile_def decode_deltas)
  moreover have "\<exists>q. sample_of (JList [JFloat (Fin d), JFloat (Fin e)]) = Inr (Some q) \<and>
      \<bar>fst (scaled q) - d\<bar> \<le> 1 / 2000 \<and> \<bar>snd (scaled q) - e\<bar> \<le> 1 / 20"
    if "\<bar>d\<bar> * 1000 < float_limit" "\<bar>e\<bar> * 10 < float_limit" for d e
  proof -
    have "\<bar>d\<bar> < float_limit" "\<bar>e\<bar> < float_limit" using that by linarith+
    moreover have qd: "quantise DIST_SCALE d = Some (round_half_even (d * DIST_SCALE))"
      and qe: "quantise ELEV_SCALE e = Some (round_half_even (e * ELEV_SCALE))"
      using that by (simp_all add: quantise_def DIST_SCALE_def ELEV_SCALE_def abs_mult)
    ultimately show ?thesis
      using quantise_close [OF qd] quantise_close [OF qe]
      by (simp add: sample_of_def to_float_def finite_value_def scaled_def) (simp add: DIST_SCALE_def ELEV_SCALE_def)
  qed
  moreover have "\<exists>k. decode_profile (take n t) = take k (decode_profile t)" for n
    unfolding dec using decode_cut by (simp add: t decode_profile_def)
  ultimately show ?thesis using deltas_text_alphabet unfolding t by blast
qed

theorem elevation_roundtrip_witness:
  "\<exists>t. encode_profile_pairs [JList [JFloat (Fin 0), JFloat (Fin 500)], JNull, JList [JFloat (Fin (12 / 1000)), JFloat (Fin (-15 / 10))]] = Inr t \<and>
     decode_profile t = [(0, 500), (12 / 1000, -15 / 10)]"
proof -
  let ?p = "[JList [JFloat (Fin 0), JFloat (Fin 500)], JNull, JList [JFloat (Fin (12 / 1000)), JFloat (Fin (-15 / 10))]]"
  have s: "sample_of (?p ! 0) = Inr (Some (0, 5000))" "sample_of (?p ! 1) = Inr None" "sample_of (?p ! 2) = Inr (Some (12, -15))"
    by (simp_all add: sample_of_def to_float_def finite_value_def quantise_def float_limit_def DIST_SCALE_def
        ELEV_SCALE_def round_half_even_def)
  then obtain t where t: "encode_profile_pairs ?p = Inr t"
    by (simp add: encode_profile_pairs_def)
  have "map scaled (List.map_filter (\<lambda>p. case sample_of p of Inl _ \<Rightarrow> None | Inr s \<Rightarrow> s) ?p) = [(0, 500), (12 / 1000, -15 / 10)]"
    using s by (simp add: List.map_filter_simps scaled_def DIST_SCALE_def ELEV_SCALE_def)
  then show ?thesis using elevation_roundtrip [OF t] t by metis
qed

text \<open>One integer too large for a float makes the encoder raise for the whole profile: the first
  handler names \<open>TypeError\<close> and \<open>ValueError\<close>, and \<open>float\<close> of such an integer is an
  \<open>OverflowError\<close>; the same number written as text or as a float is skipped.\<close>

theorem huge_integer_sample_raises:
  "encode_profile_pairs [JList [JFloat (Fin 1), JInt 30], JList [JInt (10 ^ 400), JInt 30]] = Inl OverflowError \<and>
   encode_profile_pairs [JList [JFloat (Fin 1), JInt 30], JList [JStr ''1e400'', JInt 30]] =
     encode_profile_pairs [JList [JFloat (Fin 1), JInt 30]]"
proof -
  have "py_float ''1e400'' = Some (Fin (pow10 400))" by code_simp
  then show ?thesis
    by (simp add: encode_profile_pairs_def sample_of_def to_float_def finite_value_def quantise_def float_limit_def
        DIST_SCALE_def ELEV_SCALE_def pow10_def)
qed

text \<open>The low-resolution profile is the full one at an increasing selection of its points, between
  \<open>max_points\<close> and two more of them, with the first and the last; its lowest and highest elevation
  are those of the full profile. A profile that is short enough is served as it is.\<close>

theorem downsample_keeps_silhouette:
  assumes "n = min (length xs) (length ys)"
  shows "(int n \<le> max_points \<longrightarrow> downsample_elevation xs ys max_points = (take n xs, take n ys)) \<and>
    (3 \<le> max_points \<and> max_points < int n \<longrightarrow>
      (\<exists>is. downsample_elevation xs ys max_points = (map (\<lambda>i. xs ! i) is, map (\<lambda>i. ys ! i) is) \<and>
         sorted_wrt (<) is \<and> set is \<subseteq> {..<n} \<and> 0 \<in> set is \<and> n - 1 \<in> set is \<and>
         max_points \<le> int (length is) \<and> int (length is) \<le> max_points + 2 \<and>
         (\<exists>lo\<in>set is. \<forall>i<n. ys ! lo \<le> ys ! i) \<and> (\<exists>hi\<in>set is. \<forall>i<n. ys ! i \<le> ys ! hi)))"
proof (intro conjI impI)
  assume "int n \<le> max_points"
  then show "downsample_elevation xs ys max_points = (take n xs, take n ys)"
    by (simp add: downsample_elevation_def assms Let_def)
next
  assume mp: "3 \<le> max_points \<and> max_points < int n"
  let ?k = "nat max_points"
  let ?l = "lttb_indices xs ys n ?k"
  let ?lo = "arg_min_list (\<lambda>i. ys ! i) [0..<n]" and ?hi = "arg_min_list (\<lambda>i. - (ys ! i)) [0..<n]"
  have k: "3 \<le> ?k" "?k < n" using mp by linarith+
  define sel where "sel = sort (remdups (?l @ [?lo, ?hi]))"
  have l: "sorted_wrt (<) ?l" "set ?l \<subseteq> {..<n}" "length ?l = ?k" "0 \<in> set ?l" "n - 1 \<in> set ?l"
    using lttb_indices_spec [OF k, of xs ys] by blast+
  have ext: "?lo \<in> {..<n}" "?hi \<in> {..<n}"
    using arg_min_list_mem [of "[0..<n]" "\<lambda>i. ys ! i"] arg_min_list_mem [of "[0..<n]" "\<lambda>i. - (ys ! i)"] mp by auto
  have set_sel: "set sel = set ?l \<union> {?lo, ?hi}" by (auto simp: sel_def)
  have len: "length sel = card (set ?l \<union> {?lo, ?hi})"
    unfolding sel_def length_sort length_remdups_card_conv by simp
  have dl: "card (set ?l) = ?k" using l(1,3) distinct_card strict_sorted_iff by metis
  have "card (set ?l) \<le> card (set ?l \<union> {?lo, ?hi})" by (intro card_mono) auto
  moreover have "card (set ?l \<union> {?lo, ?hi}) \<le> card (set ?l) + card {?lo, ?hi}" by (rule card_Un_le)
  moreover have "card {?lo, ?hi} \<le> 2" by (simp add: card_insert_if)
  ultimately have lens: "?k \<le> length sel" "length sel \<le> ?k + 2" using len dl by linarith+
  have "downsample_elevation xs ys max_points = (map (\<lambda>i. xs ! i) sel, map (\<lambda>i. ys ! i) sel)"
    using mp by (simp add: downsample_elevation_def assms [symmetric] Let_def sel_def)
  moreover have "sorted_wrt (<) sel" by (simp add: sel_def strict_sorted_iff)
  moreover have "set sel \<subseteq> {..<n}" unfolding set_sel using l(2) ext by blast
  moreover have "\<forall>i<n. ys ! ?lo \<le> ys ! i"
    using arg_min_list_le [of _ "[0..<n]" "\<lambda>i. ys ! i"] by simp
  moreover have "\<forall>i<n. ys ! i \<le> ys ! ?hi"
    using arg_min_list_le [of _ "[0..<n]" "\<lambda>i. - (ys ! i)"] by simp
  moreover have "?lo \<in> set sel" "?hi \<in> set sel" "0 \<in> set sel" "n - 1 \<in> set sel" using set_sel l(4,5) by auto
  moreover have "max_points \<le> int (length sel)" "int (length sel) \<le> max_points + 2" using lens mp by linarith+
  ultimately show "\<exists>is. downsample_elevation xs ys max_points = (map (\<lambda>i. xs ! i) is, map (\<lambda>i. ys ! i) is) \<and>
         sorted_wrt (<) is \<and> set is \<subseteq> {..<n} \<and> 0 \<in> set is \<and> n - 1 \<in> set is \<and>
         max_points \<le> int (length is) \<and> int (length is) \<le> max_points + 2 \<and>
         (\<exists>lo\<in>set is. \<forall>i<n. ys ! lo \<le> ys ! i) \<and> (\<exists>hi\<in>set is. \<forall>i<n. ys ! i \<le> ys ! hi)"
    by blast
qed

theorem downsample_keeps_silhouette_witness:
  "\<exists>is. downsample_elevation [0, 1, 2, 3, 4, 5] [5, 9, 1, 4, 7, 6] 4 =
      (map (\<lambda>i. [0, 1, 2, 3, 4, 5] ! i) is, map (\<lambda>i. [5, 9, 1, 4, 7, 6] ! i) is) \<and>
    sorted_wrt (<) is \<and> int (length is) \<le> 6"
  using downsample_keeps_silhouette [of 6 "[0, 1, 2, 3, 4, 5]" "[5, 9, 1, 4, 7, 6]" 4, THEN conjunct2] by simp blast

end
