(* ===== verification/RateLimit.thy ===== *)
theory RateLimit
  imports TJ_Prelude
begin

text \<open>
  \<open>src/utils/rate_limit.py\<close>: the sliding-window limiter of the actions that send mail, and the
  contract it refines: an event is accepted exactly when fewer than \<open>max_events\<close> accepted events of
  the same key lie in the window that ends now. A call is the time its clock read and the key, in
  the order the lock is taken.

  \<open>lockstep\<close> is the interface of a component that answers calls the way a specification does:
  its law is one call, and its lemma every sequence of calls.
\<close>

subsection \<open>Lockstep simulation\<close>

text \<open>The answers of a sequence of calls, and that each call is one the contract covers.\<close>

primrec answers :: "('s \<Rightarrow> 'i \<Rightarrow> 'o \<times> 's) \<Rightarrow> 's \<Rightarrow> 'i list \<Rightarrow> 'o list" where
  "answers step s [] = []"
| "answers step s (i # is) = fst (step s i) # answers step (snd (step s i)) is"

primrec all_enabled :: "('a \<Rightarrow> 'i \<Rightarrow> bool) \<Rightarrow> ('a \<Rightarrow> 'i \<Rightarrow> 'o \<times> 'a) \<Rightarrow> 'a \<Rightarrow> 'i list \<Rightarrow> bool" where
  "all_enabled enabled step a [] = True"
| "all_enabled enabled step a (i # is) = (enabled a i \<and> all_enabled enabled step (snd (step a i)) is)"

primrec final_state :: "('s \<Rightarrow> 'i \<Rightarrow> 'o \<times> 's) \<Rightarrow> 's \<Rightarrow> 'i list \<Rightarrow> 's" where
  "final_state step s [] = s"
| "final_state step s (i # is) = final_state step (snd (step s i)) is"

locale lockstep =
  fixes cstep :: "'s \<Rightarrow> 'i \<Rightarrow> 'o \<times> 's"
    and astep :: "'a \<Rightarrow> 'i \<Rightarrow> 'o \<times> 'a"
    and rel :: "'s \<Rightarrow> 'a \<Rightarrow> bool"
    and enabled :: "'a \<Rightarrow> 'i \<Rightarrow> bool"
  assumes same_answer: "rel s a \<Longrightarrow> enabled a i \<Longrightarrow> fst (cstep s i) = fst (astep a i)"
    and related: "rel s a \<Longrightarrow> enabled a i \<Longrightarrow> rel (snd (cstep s i)) (snd (astep a i))"
begin

lemma same_answers: "rel s a \<Longrightarrow> all_enabled enabled astep a is \<Longrightarrow> answers cstep s is = answers astep a is"
  by (induction "is" arbitrary: s a) (simp_all add: same_answer related)

lemma final_related:
  "rel s a \<Longrightarrow> all_enabled enabled astep a is \<Longrightarrow> rel (final_state cstep s is) (final_state astep a is)"
  by (induction "is" arbitrary: s a) (simp_all add: related)

end

subsection \<open>The limiter\<close>

record limiter =
  max_events :: int
  window :: seconds
  events :: "string \<Rightarrow> seconds list"

definition new_limiter :: "int \<Rightarrow> seconds \<Rightarrow> limiter" where
  "new_limiter max_ev win = \<lparr>max_events = max_ev, window = win, events = (\<lambda>_. [])\<rparr>"

text \<open>\<open>while events and events[0] < cutoff: events.popleft()\<close>.\<close>

fun drop_expired :: "seconds \<Rightarrow> seconds list \<Rightarrow> seconds list" where
  "drop_expired cutoff [] = []"
| "drop_expired cutoff (t # ts) = (if t < cutoff then drop_expired cutoff ts else t # ts)"

definition set_events :: "string \<Rightarrow> seconds list \<Rightarrow> limiter \<Rightarrow> limiter" where
  "set_events key ts rl = rl\<lparr>events := (events rl)(key := ts)\<rparr>"

definition try_acquire :: "limiter \<Rightarrow> seconds \<Rightarrow> string \<Rightarrow> bool \<times> limiter" where
  "try_acquire rl now key =
     (let cutoff = now - window rl;
          ts = drop_expired cutoff (events rl key) in
      if int (length ts) \<ge> max_events rl then (False, set_events key ts rl)
      else (True, set_events key (ts @ [now]) rl))"

definition remaining :: "limiter \<Rightarrow> seconds \<Rightarrow> string \<Rightarrow> int \<times> limiter" where
  "remaining rl now key =
     (let cutoff = now - window rl;
          ts = drop_expired cutoff (events rl key) in
      (max_events rl - int (length ts), set_events key ts rl))"

definition reset :: "limiter \<Rightarrow> limiter" where
  "reset rl = rl\<lparr>events := (\<lambda>_. [])\<rparr>"

definition MAIL_ACTIONS_PER_HOUR :: int where "MAIL_ACTIONS_PER_HOUR = 10"

definition mail_limiter :: limiter where
  "mail_limiter = new_limiter MAIL_ACTIONS_PER_HOUR 3600"

definition consume_rate_limit :: "seconds \<Rightarrow> string \<Rightarrow> limiter \<Rightarrow> bool \<times> limiter" where
  "consume_rate_limit now key rl = try_acquire rl now key"

definition reset_rate_limits :: "limiter \<Rightarrow> limiter" where
  "reset_rate_limits rl = reset rl"

datatype limiter_call = TryAcquire seconds string | Remaining seconds string | Reset

datatype limiter_answer = Allowed bool | Left int | Done

fun limiter_step :: "limiter \<Rightarrow> limiter_call \<Rightarrow> limiter_answer \<times> limiter" where
  "limiter_step rl (TryAcquire now key) = map_prod Allowed id (try_acquire rl now key)"
| "limiter_step rl (Remaining now key) = map_prod Left id (remaining rl now key)"
| "limiter_step rl Reset = (Done, reset rl)"

subsection \<open>The contract\<close>

text \<open>Every accepted event, in order, and the time of the last call.\<close>

record window_spec =
  accepted :: "(seconds \<times> string) list"
  last_call :: "seconds option"

definition in_window :: "seconds \<Rightarrow> seconds \<Rightarrow> string \<Rightarrow> (seconds \<times> string) list \<Rightarrow> nat" where
  "in_window now win key evs = length (filter (\<lambda>(t, k). k = key \<and> now - win \<le> t) evs)"

fun spec_step :: "int \<Rightarrow> seconds \<Rightarrow> window_spec \<Rightarrow> limiter_call \<Rightarrow> limiter_answer \<times> window_spec" where
  "spec_step max_ev win h (TryAcquire now key) =
     (let ok = int (in_window now win key (accepted h)) < max_ev in
      (Allowed ok, \<lparr>accepted = (if ok then accepted h @ [(now, key)] else accepted h), last_call = Some now\<rparr>))"
| "spec_step max_ev win h (Remaining now key) =
     (Left (max_ev - int (in_window now win key (accepted h))), \<lparr>accepted = accepted h, last_call = Some now\<rparr>)"
| "spec_step max_ev win h Reset = (Done, h\<lparr>accepted := []\<rparr>)"

fun call_time :: "limiter_call \<Rightarrow> seconds option" where
  "call_time (TryAcquire now key) = Some now"
| "call_time (Remaining now key) = Some now"
| "call_time Reset = None"

text \<open>A monotonic clock: no call is earlier than the one before.\<close>

definition in_time :: "window_spec \<Rightarrow> limiter_call \<Rightarrow> bool" where
  "in_time h c = (case (call_time c, last_call h) of (Some now, Some t) \<Rightarrow> t \<le> now | _ \<Rightarrow> True)"

definition key_times :: "string \<Rightarrow> (seconds \<times> string) list \<Rightarrow> seconds list" where
  "key_times key evs = map fst (filter (\<lambda>(t, k). k = key) evs)"

text \<open>
  The deque of a key holds its accepted events but for some that the window of the last call, and so
  of every later one, has left behind.
\<close>

definition limiter_rel :: "int \<Rightarrow> seconds \<Rightarrow> limiter \<Rightarrow> window_spec \<Rightarrow> bool" where
  "limiter_rel max_ev win rl h =
     (max_events rl = max_ev \<and> window rl = win \<and>
      (\<forall>key. \<exists>gone. key_times key (accepted h) = gone @ events rl key \<and>
         (\<forall>t\<in>set gone. \<exists>now. last_call h = Some now \<and> t < now - win)) \<and>
      (\<forall>key. sorted (key_times key (accepted h))) \<and>
      (\<forall>(t, k)\<in>set (accepted h). \<exists>now. last_call h = Some now \<and> t \<le> now))"

lemma drop_expired_split:
  "sorted ts \<Longrightarrow> \<exists>gone. ts = gone @ drop_expired c ts \<and> (\<forall>t\<in>set gone. t < c) \<and> (\<forall>t\<in>set (drop_expired c ts). c \<le> t)"
proof (induction ts)
  case (Cons t ts)
  show ?case
  proof (cases "t < c")
    case True
    then obtain gone where "ts = gone @ drop_expired c ts" "\<forall>t\<in>set gone. t < c" "\<forall>t\<in>set (drop_expired c ts). c \<le> t"
      using Cons by auto
    then show ?thesis using True by (intro exI [of _ "t # gone"]) auto
  next
    case False
    then show ?thesis using Cons.prems by (intro exI [of _ "[]"]) (auto intro: order_trans [of c t])
  qed
qed simp

lemma in_window_times: "in_window now win key evs = length (filter (\<lambda>t. now - win \<le> t) (key_times key evs))"
  by (induction evs) (auto simp: in_window_def key_times_def)

text \<open>What a call finds in the window is what the deque has left of its key.\<close>

lemma window_count:
  assumes "limiter_rel max_ev win rl h" "\<And>t. last_call h = Some t \<Longrightarrow> t \<le> now"
  obtains gone where "key_times key (accepted h) = gone @ drop_expired (now - win) (events rl key)"
    "\<forall>t\<in>set gone. t < now - win" "in_window now win key (accepted h) = length (drop_expired (now - win) (events rl key))"
proof -
  obtain g where g: "key_times key (accepted h) = g @ events rl key"
    "\<forall>t\<in>set g. \<exists>n. last_call h = Some n \<and> t < n - win"
    using assms(1) unfolding limiter_rel_def by blast
  have srt: "sorted (key_times key (accepted h))" using assms(1) by (simp add: limiter_rel_def)
  have old: "t < now - win" if "t \<in> set g" for t
  proof -
    obtain n where "last_call h = Some n" "t < n - win" using g(2) \<open>t \<in> set g\<close> by blast
    then show ?thesis using assms(2) by fastforce
  qed
  have "sorted (events rl key)" using srt g(1) by (simp add: sorted_append)
  from drop_expired_split [OF this, of "now - win"] obtain g' where
    g': "events rl key = g' @ drop_expired (now - win) (events rl key)" "\<forall>t\<in>set g'. t < now - win"
    "\<forall>t\<in>set (drop_expired (now - win) (events rl key)). now - win \<le> t" by blast
  let ?d = "drop_expired (now - win) (events rl key)"
  have split: "key_times key (accepted h) = (g @ g') @ ?d" using g(1) g'(1) by simp
  have gone: "\<forall>t\<in>set (g @ g'). t < now - win" using old g'(2) by auto
  have "filter (\<lambda>t. now - win \<le> t) (g @ g') = []" using gone unfolding filter_empty_conv not_le .
  moreover have "filter (\<lambda>t. now - win \<le> t) ?d = ?d" using g'(3) by simp
  ultimately have "in_window now win key (accepted h) = length ?d"
    unfolding in_window_times split filter_append by simp
  then show ?thesis using that [OF split gone] by blast
qed

lemma key_times_snoc: "key_times key (evs @ [(now, k)]) = key_times key evs @ (if k = key then [now] else [])"
  by (simp add: key_times_def)

lemma key_times_mem: "t \<in> set (key_times key evs) \<Longrightarrow> (t, key) \<in> set evs"
  by (auto simp: key_times_def)

lemma limiter_rel_touch:
  assumes rel: "limiter_rel max_ev win rl h" and time: "\<And>t. last_call h = Some t \<Longrightarrow> t \<le> now"
    and key: "key_times key evs = gone @ ts" "\<forall>t\<in>set gone. t < now - win" "sorted (key_times key evs)"
    and others: "\<And>k. k \<noteq> key \<Longrightarrow> key_times k evs = key_times k (accepted h)"
    and past: "\<forall>(t, k)\<in>set evs. t \<le> now"
  shows "limiter_rel max_ev win (set_events key ts rl) \<lparr>accepted = evs, last_call = Some now\<rparr>"
proof -
  have "\<exists>gone. key_times k evs = gone @ (if k = key then ts else events rl k) \<and> (\<forall>t\<in>set gone. t < now - win)" for k
  proof (cases "k = key")
    case True
    then show ?thesis using key by auto
  next
    case False
    obtain g where "key_times k (accepted h) = g @ events rl k" "\<forall>t\<in>set g. \<exists>n. last_call h = Some n \<and> t < n - win"
      using rel unfolding limiter_rel_def by blast
    then show ?thesis using False others time by (intro exI [of _ g]) fastforce
  qed
  moreover have "sorted (key_times k evs)" for k
    using rel key(3) others by (cases "k = key") (simp_all add: limiter_rel_def)
  ultimately show ?thesis using rel past by (simp add: limiter_rel_def set_events_def)
qed

lemma limiter_rel_past:
  assumes "limiter_rel max_ev win rl h" "\<And>t. last_call h = Some t \<Longrightarrow> t \<le> now"
  shows "\<forall>(t, k)\<in>set (accepted h). t \<le> now"
proof (clarify)
  fix t k assume "(t, k) \<in> set (accepted h)"
  then obtain n where "last_call h = Some n" "t \<le> n" using assms(1) unfolding limiter_rel_def by blast
  then show "t \<le> now" using assms(2) order_trans by blast
qed

interpretation limiter: lockstep limiter_step "spec_step max_ev win" "limiter_rel max_ev win" in_time
proof (unfold_locales, goal_cases)
  case (1 rl h c)
  have m: "max_events rl = max_ev" "window rl = win" using 1(1) by (simp_all add: limiter_rel_def)
  show ?case
  proof (cases c)
    case (TryAcquire now key)
    then have "\<And>t. last_call h = Some t \<Longrightarrow> t \<le> now" using 1(2) by (simp add: in_time_def)
    then have "in_window now win key (accepted h) = length (drop_expired (now - win) (events rl key))"
      using window_count [OF 1(1), of now key] by blast
    then show ?thesis using m TryAcquire by (simp add: try_acquire_def Let_def)
  next
    case (Remaining now key)
    then have "\<And>t. last_call h = Some t \<Longrightarrow> t \<le> now" using 1(2) by (simp add: in_time_def)
    then have "in_window now win key (accepted h) = length (drop_expired (now - win) (events rl key))"
      using window_count [OF 1(1), of now key] by blast
    then show ?thesis using m Remaining by (simp add: remaining_def Let_def)
  qed simp
next
  case (2 rl h c)
  have m: "max_events rl = max_ev" "window rl = win" using 2(1) by (simp_all add: limiter_rel_def)
  show ?case
  proof (cases c)
    case (TryAcquire now key)
    then have time: "\<And>t. last_call h = Some t \<Longrightarrow> t \<le> now" using 2(2) by (simp add: in_time_def)
    let ?d = "drop_expired (now - win) (events rl key)"
    obtain gone where g: "key_times key (accepted h) = gone @ ?d" "\<forall>t\<in>set gone. t < now - win"
      and n: "in_window now win key (accepted h) = length ?d" using window_count [OF 2(1) time, of key] by blast
    have past: "\<forall>(t, k)\<in>set (accepted h). t \<le> now" using limiter_rel_past [OF 2(1) time] .
    have srt: "sorted (key_times key (accepted h))" using 2(1) by (simp add: limiter_rel_def)
    show ?thesis
    proof (cases "int (length ?d) < max_ev")
      case True
      have "t \<le> now" if "t \<in> set (key_times key (accepted h))" for t
        using past key_times_mem [OF that] by fastforce
      then have srt': "sorted (key_times key (accepted h @ [(now, key)]))"
        using srt by (simp add: key_times_snoc sorted_append)
      have "limiter_rel max_ev win (set_events key (?d @ [now]) rl) \<lparr>accepted = accepted h @ [(now, key)], last_call = Some now\<rparr>"
        by (rule limiter_rel_touch [OF 2(1) time, where gone = gone])
           (use g srt' past in \<open>simp_all add: key_times_snoc\<close>)
      then show ?thesis using True TryAcquire m n by (simp add: try_acquire_def Let_def)
    next
      case False
      have "limiter_rel max_ev win (set_events key ?d rl) \<lparr>accepted = accepted h, last_call = Some now\<rparr>"
        by (rule limiter_rel_touch [OF 2(1) time, where gone = gone]) (use g srt past in simp_all)
      then show ?thesis using False TryAcquire m n by (simp add: try_acquire_def Let_def)
    qed
  next
    case (Remaining now key)
    then have time: "\<And>t. last_call h = Some t \<Longrightarrow> t \<le> now" using 2(2) by (simp add: in_time_def)
    obtain gone where g: "key_times key (accepted h) = gone @ drop_expired (now - win) (events rl key)"
      "\<forall>t\<in>set gone. t < now - win" by (rule window_count [OF 2(1) time, of key])
    have srt: "sorted (key_times key (accepted h))" using 2(1) by (simp add: limiter_rel_def)
    have "limiter_rel max_ev win (set_events key (drop_expired (now - win) (events rl key)) rl)
        \<lparr>accepted = accepted h, last_call = Some now\<rparr>"
      by (rule limiter_rel_touch [OF 2(1) time, where gone = gone])
         (use g srt limiter_rel_past [OF 2(1) time] in simp_all)
    then show ?thesis using Remaining m by (simp add: remaining_def Let_def)
  next
    case Reset
    then show ?thesis using 2(1) by (simp add: limiter_rel_def reset_def key_times_def)
  qed
qed

lemma limiter_rel_new: "limiter_rel max_ev win (new_limiter max_ev win) \<lparr>accepted = [], last_call = None\<rparr>"
  by (simp add: limiter_rel_def new_limiter_def key_times_def)

lemma length_filter_mono: "(\<And>x. P x \<Longrightarrow> Q x) \<Longrightarrow> length (filter P xs) \<le> length (filter Q xs)"
  by (induction xs) auto

text \<open>No window of the accepted events holds more than the limit.\<close>

definition windows_ok :: "int \<Rightarrow> seconds \<Rightarrow> window_spec \<Rightarrow> bool" where
  "windows_ok max_ev win h =
     ((\<forall>key start. int (length (filter (\<lambda>(t, k). k = key \<and> start \<le> t \<and> t \<le> start + win) (accepted h))) \<le> max 0 max_ev) \<and>
      (\<forall>(t, k)\<in>set (accepted h). \<exists>now. last_call h = Some now \<and> t \<le> now))"

lemma windows_ok_step:
  assumes ok: "windows_ok max_ev win h" and "in_time h c"
  shows "windows_ok max_ev win (snd (spec_step max_ev win h c))"
proof (cases c)
  case (TryAcquire now key)
  have time: "\<And>t. last_call h = Some t \<Longrightarrow> t \<le> now" using assms(2) TryAcquire by (simp add: in_time_def)
  have past: "t \<le> now" if "(t, k) \<in> set (accepted h)" for t k
    using ok time order_trans that unfolding windows_ok_def by blast
  show ?thesis
  proof (cases "int (in_window now win key (accepted h)) < max_ev")
    case True
    have "int (length (filter (\<lambda>(t, k). k = key' \<and> start \<le> t \<and> t \<le> start + win) (accepted h @ [(now, key)]))) \<le> max 0 max_ev"
      for key' start
    proof (cases "key' = key \<and> start \<le> now \<and> now \<le> start + win")
      case True
      have "length (filter (\<lambda>(t, k). k = key' \<and> start \<le> t \<and> t \<le> start + win) (accepted h)) \<le> in_window now win key (accepted h)"
        unfolding in_window_def using True by (intro length_filter_mono) auto
      then show ?thesis using True \<open>int (in_window now win key (accepted h)) < max_ev\<close> by simp
    next
      case False
      then show ?thesis using ok by (auto simp: windows_ok_def)
    qed
    then show ?thesis
      using True TryAcquire past unfolding windows_ok_def by (simp add: Let_def) (auto dest: past)
  next
    case False
    then show ?thesis
      using ok TryAcquire past unfolding windows_ok_def by (simp add: Let_def) blast
  qed
next
  case (Remaining now key)
  have "\<And>t. last_call h = Some t \<Longrightarrow> t \<le> now" using assms(2) Remaining by (simp add: in_time_def)
  then have "t \<le> now" if "(t, k) \<in> set (accepted h)" for t k
    using ok order_trans that unfolding windows_ok_def by blast
  then show ?thesis using ok Remaining unfolding windows_ok_def by simp blast
next
  case Reset
  then show ?thesis by (simp add: windows_ok_def)
qed

lemma windows_ok_run:
  "windows_ok max_ev win h \<Longrightarrow> all_enabled in_time (spec_step max_ev win) h cs \<Longrightarrow>
     windows_ok max_ev win (final_state (spec_step max_ev win) h cs)"
  by (induction cs arbitrary: h) (simp_all add: windows_ok_step)

subsection \<open>Properties\<close>

text \<open>C30. The limiter keeps its promise. For any sequence of calls at times that do not go back, it answers
  each call as the contract does: an action is allowed exactly when fewer than \<open>max_events\<close> allowed
  actions of its key lie in the window ending now, and \<open>remaining\<close> is what is left of the limit.
  So no window of that length, wherever it starts, holds more allowed actions of one key.\<close>

theorem limiter_refines_window:
  assumes "all_enabled in_time (spec_step max_ev win) \<lparr>accepted = [], last_call = None\<rparr> calls"
  shows "answers limiter_step (new_limiter max_ev win) calls =
      answers (spec_step max_ev win) \<lparr>accepted = [], last_call = None\<rparr> calls \<and>
    (\<forall>key start. int (length (filter (\<lambda>(t, k). k = key \<and> start \<le> t \<and> t \<le> start + win)
       (accepted (final_state (spec_step max_ev win) \<lparr>accepted = [], last_call = None\<rparr> calls)))) \<le> max 0 max_ev)"
proof -
  have "windows_ok max_ev win \<lparr>accepted = [], last_call = None\<rparr>" by (simp add: windows_ok_def)
  from windows_ok_run [OF this assms] limiter.same_answers [OF limiter_rel_new assms]
  show ?thesis unfolding windows_ok_def by blast
qed

theorem limiter_refines_window_witness:
  "answers limiter_step (new_limiter 2 60)
     [TryAcquire 0 ''u'', TryAcquire 10 ''u'', TryAcquire 60 ''u'', TryAcquire 61 ''u'', Remaining 71 ''u''] =
   [Allowed True, Allowed True, Allowed False, Allowed True, Left 1]"
proof -
  let ?cs = "[TryAcquire 0 ''u'', TryAcquire 10 ''u'', TryAcquire 60 ''u'', TryAcquire 61 ''u'', Remaining 71 ''u'']"
  have "all_enabled in_time (spec_step 2 60) \<lparr>accepted = [], last_call = None\<rparr> ?cs" by code_simp
  from limiter_refines_window [OF this] show ?thesis by (simp add: in_window_def Let_def)
qed

end
