(* ===== verification/TripModels.thy ===== *)
theory TripModels
  imports PyNumbers "HOL-Library.List_Lexorder" "HOL-Library.Char_ord"
begin

text \<open>
  The data a trip is made of and how it is written to and read from a dict: \<open>src/models/memory.py\<close>,
  \<open>journal.py\<close>, \<open>encounter.py\<close>, the segment, counter and tag parts of \<open>project.py\<close>, the id and
  plausibility checks of \<open>activity.py\<close> and \<open>value_bounds.py\<close>, \<open>person.py\<close> and
  \<open>src/project/memory_match.py\<close>.

  The dataclasses do not check the types of their attributes, and \<open>from_dict\<close> stores whatever value
  the dict holds, so the attributes are decoded values. A dict is an association list; \<open>None\<close>
  stands for a raised \<open>AttributeError\<close>, \<open>TypeError\<close> or \<open>ValueError\<close> where a function has one.
\<close>

text \<open>\<open>d.get(k, default)\<close>.\<close>

definition dget_or :: "(string \<times> json) list \<Rightarrow> string \<Rightarrow> json \<Rightarrow> json" where
  "dget_or d k dflt = (case map_of d k of None \<Rightarrow> dflt | Some v \<Rightarrow> v)"

lemma dget_Cons [simp]: "dget ((k', v) # d) k = (if k' = k then v else dget d k)"
  by (simp add: dget_def)

lemma dget_or_simps [simp]: "dget_or [] k x = x" "dget_or ((k', v) # d) k x = (if k' = k then v else dget_or d k x)"
  by (simp_all add: dget_or_def)

subsection \<open>Memories, journal entries, encounters\<close>

record Memory =
  mm_id :: json
  mm_public_id :: json
  mm_project_id :: json
  mm_name :: json
  mm_date :: json
  mm_time :: json
  mm_description :: json
  mm_photos :: json
  mm_geo_mode :: json
  mm_lat :: json
  mm_lon :: json
  mm_comment_count :: json
  mm_like_count :: json

definition memory_to_dict :: "Memory \<Rightarrow> (string \<times> json) list" where
  "memory_to_dict v =
     [(''id'', mm_id v),
      (''public_id'', mm_public_id v),
      (''name'', mm_name v),
      (''date'', mm_date v),
      (''time'', mm_time v),
      (''description'', mm_description v),
      (''photos'', mm_photos v),
      (''geo_mode'', mm_geo_mode v),
      (''lat'', mm_lat v),
      (''lon'', mm_lon v),
      (''comment_count'', mm_comment_count v),
      (''like_count'', mm_like_count v)]"

definition memory_from_dict :: "(string \<times> json) list \<Rightarrow> Memory" where
  "memory_from_dict d =
     \<lparr>mm_id = dget d ''id'',
      mm_public_id = dget d ''public_id'',
      mm_project_id = JNull,
      mm_name = dget d ''name'',
      mm_date = dget_or d ''date'' (JStr ''''),
      mm_time = dget d ''time'',
      mm_description = dget d ''description'',
      mm_photos = dget_or d ''photos'' (JList []),
      mm_geo_mode = dget_or d ''geo_mode'' (JStr ''start_of_day''),
      mm_lat = dget d ''lat'',
      mm_lon = dget d ''lon'',
      mm_comment_count = JInt 0,
      mm_like_count = JInt 0\<rparr>"

record JournalEntry =
  jr_id :: json
  jr_project_id :: json
  jr_user_info_id :: json
  jr_date :: json
  jr_time :: json
  jr_description :: json
  jr_photos :: json
  jr_geo_mode :: json
  jr_lat :: json
  jr_lon :: json

definition journal_to_dict :: "JournalEntry \<Rightarrow> (string \<times> json) list" where
  "journal_to_dict v =
     [(''id'', jr_id v),
      (''date'', jr_date v),
      (''time'', jr_time v),
      (''description'', jr_description v),
      (''photos'', jr_photos v),
      (''geo_mode'', jr_geo_mode v),
      (''lat'', jr_lat v),
      (''lon'', jr_lon v)]"

definition journal_from_dict :: "(string \<times> json) list \<Rightarrow> JournalEntry" where
  "journal_from_dict d =
     \<lparr>jr_id = dget d ''id'',
      jr_project_id = JNull,
      jr_user_info_id = JNull,
      jr_date = dget_or d ''date'' (JStr ''''),
      jr_time = dget d ''time'',
      jr_description = dget d ''description'',
      jr_photos = dget_or d ''photos'' (JList []),
      jr_geo_mode = dget_or d ''geo_mode'' (JStr ''start_of_day''),
      jr_lat = dget d ''lat'',
      jr_lon = dget d ''lon''\<rparr>"

record Encounter =
  en_id :: json
  en_project_id :: json
  en_person_id :: json
  en_group_id :: json
  en_date :: json
  en_time :: json
  en_description :: json
  en_geo_mode :: json
  en_lat :: json
  en_lon :: json

definition encounter_to_dict :: "Encounter \<Rightarrow> (string \<times> json) list" where
  "encounter_to_dict v =
     [(''id'', en_id v),
      (''person_id'', en_person_id v),
      (''group_id'', en_group_id v),
      (''date'', en_date v),
      (''time'', en_time v),
      (''description'', en_description v),
      (''geo_mode'', en_geo_mode v),
      (''lat'', en_lat v),
      (''lon'', en_lon v)]"

definition encounter_from_dict :: "(string \<times> json) list \<Rightarrow> Encounter" where
  "encounter_from_dict d =
     \<lparr>en_id = dget d ''id'',
      en_project_id = JNull,
      en_person_id = dget d ''person_id'',
      en_group_id = dget d ''group_id'',
      en_date = dget_or d ''date'' (JStr ''''),
      en_time = dget d ''time'',
      en_description = dget d ''description'',
      en_geo_mode = dget_or d ''geo_mode'' (JStr ''start_of_day''),
      en_lat = dget d ''lat'',
      en_lon = dget d ''lon''\<rparr>"

subsection \<open>Connecting segments\<close>

record SegmentEndpoint =
  pt_lat :: json
  pt_lon :: json
  pt_source :: json

record ConnectingSegment =
  sg_id :: json
  sg_segment_type :: json
  sg_label :: json
  sg_date :: json
  sg_start :: SegmentEndpoint
  sg_end :: SegmentEndpoint
  sg_route_mode :: json
  sg_train_number :: json
  sg_hafas_provider :: json
  sg_route_polyline :: json
  sg_route_status :: json
  sg_route_error :: json
  sg_route_started_at :: json
  sg_route_degraded :: json
  sg_route_hafas_failed :: json
  sg_route_degrade_retries :: json
  sg_route_edited :: json
  sg_route_resolver_version :: json
  sg_route_strategy :: json

definition endpoint_to_dict :: "SegmentEndpoint \<Rightarrow> json" where
  "endpoint_to_dict p = JDict [(''lat'', pt_lat p), (''lon'', pt_lon p), (''source'', pt_source p)]"

definition segment_to_dict :: "ConnectingSegment \<Rightarrow> (string \<times> json) list" where
  "segment_to_dict v =
     [(''id'', sg_id v),
      (''segment_type'', sg_segment_type v),
      (''label'', sg_label v),
      (''date'', sg_date v),
      (''start'', endpoint_to_dict (sg_start v)),
      (''end'', endpoint_to_dict (sg_end v)),
      (''route_mode'', sg_route_mode v),
      (''train_number'', sg_train_number v),
      (''hafas_provider'', sg_hafas_provider v),
      (''route_polyline'', sg_route_polyline v),
      (''route_status'', sg_route_status v),
      (''route_error'', sg_route_error v),
      (''route_started_at'', sg_route_started_at v),
      (''route_degraded'', sg_route_degraded v),
      (''route_hafas_failed'', sg_route_hafas_failed v),
      (''route_degrade_retries'', sg_route_degrade_retries v),
      (''route_edited'', sg_route_edited v),
      (''route_resolver_version'', sg_route_resolver_version v),
      (''route_strategy'', sg_route_strategy v)]"

text \<open>\<open>d.get("start", {}).get(...)\<close>: \<open>None\<close> when the value there has no \<open>get\<close>.\<close>

definition endpoint_from :: "json \<Rightarrow> SegmentEndpoint option" where
  "endpoint_from v =
     (case v of
        JDict e \<Rightarrow> Some \<lparr>pt_lat = dget_or e ''lat'' (JFloat (Fin 0)), pt_lon = dget_or e ''lon'' (JFloat (Fin 0)),
                       pt_source = dget_or e ''source'' (JStr ''auto'')\<rparr>
      | _ \<Rightarrow> None)"

definition segment_from_dict :: "(string \<times> json) list \<Rightarrow> ConnectingSegment option" where
  "segment_from_dict d =
     do { start \<leftarrow> endpoint_from (dget_or d ''start'' (JDict []));
          end' \<leftarrow> endpoint_from (dget_or d ''end'' (JDict []));
          Some \<lparr>sg_id = dget_or d ''id'' (JStr ''''),
                sg_segment_type = dget_or d ''segment_type'' (JStr ''flight''),
                sg_label = dget_or d ''label'' (JStr ''''),
                sg_date = dget d ''date'',
                sg_start = start,
                sg_end = end',
                sg_route_mode = dget_or d ''route_mode'' (JStr ''great_circle''),
                sg_train_number = dget d ''train_number'',
                sg_hafas_provider = dget d ''hafas_provider'',
                sg_route_polyline = dget d ''route_polyline'',
                sg_route_status = dget_or d ''route_status'' (JStr ''idle''),
                sg_route_error = dget d ''route_error'',
                sg_route_started_at = dget d ''route_started_at'',
                sg_route_degraded = dget_or d ''route_degraded'' (JBool False),
                sg_route_hafas_failed = dget_or d ''route_hafas_failed'' (JBool False),
                sg_route_degrade_retries = dget_or d ''route_degrade_retries'' (JInt 0),
                sg_route_edited = dget_or d ''route_edited'' (JBool False),
                sg_route_resolver_version = dget_or d ''route_resolver_version'' (JInt 0),
                sg_route_strategy = dget d ''route_strategy''\<rparr> }"

subsection \<open>Ids and plausible figures\<close>

definition ACTIVITY_ID_MIN :: int where "ACTIVITY_ID_MIN = - (2 ^ 63)"
definition ACTIVITY_ID_MAX :: int where "ACTIVITY_ID_MAX = 2 ^ 63 - 1"

definition is_activity_id :: "json \<Rightarrow> bool" where
  "is_activity_id v = (case v of JInt n \<Rightarrow> ACTIVITY_ID_MIN \<le> n \<and> n \<le> ACTIVITY_ID_MAX | _ \<Rightarrow> False)"

text \<open>\<open>None\<close> is the \<open>ValueError\<close>.\<close>

definition activity_id_or_none :: "json \<Rightarrow> json option" where
  "activity_id_or_none v = (if v = JNull \<or> is_activity_id v then Some v else None)"

definition ELEVATION_MIN_M :: rat where "ELEVATION_MIN_M = -20000"
definition ELEVATION_MAX_M :: rat where "ELEVATION_MAX_M = 20000"
definition GAIN_MAX_M :: rat where "GAIN_MAX_M = 10 ^ 7"

text \<open>The finite number a value is, an integer of any size included; \<open>None\<close> for everything else.\<close>

definition finite_or_none :: "json \<Rightarrow> rat option" where
  "finite_or_none v = (case v of JInt n \<Rightarrow> Some (of_int n) | JFloat (Fin x) \<Rightarrow> Some x | _ \<Rightarrow> None)"

definition plausible_elevation :: "json \<Rightarrow> json" where
  "plausible_elevation v =
     (case finite_or_none v of
        None \<Rightarrow> JNull
      | Some x \<Rightarrow> if ELEVATION_MIN_M \<le> x \<and> x \<le> ELEVATION_MAX_M then v else JNull)"

definition is_number :: "json \<Rightarrow> bool" where
  "is_number v = (case v of JInt _ \<Rightarrow> True | JFloat _ \<Rightarrow> True | _ \<Rightarrow> False)"

definition elevation_reading :: "json \<Rightarrow> json" where
  "elevation_reading v = (if is_number v then plausible_elevation v else v)"

definition gain_reading :: "json \<Rightarrow> json" where
  "gain_reading v =
     (if is_number v then
        case finite_or_none v of
          None \<Rightarrow> JFloat (Fin 0)
        | Some x \<Rightarrow> if 0 \<le> x \<and> x \<le> GAIN_MAX_M then v else JFloat (Fin 0)
      else v)"

text \<open>\<open>value in (None, "", "strava")\<close>.\<close>

definition is_strava_source :: "json \<Rightarrow> bool" where
  "is_strava_source v = (v = JNull \<or> v = JStr '''' \<or> v = JStr ''strava'')"

definition positive_id :: "json \<Rightarrow> bool" where
  "positive_id v = (is_activity_id v \<and> (case v of JInt n \<Rightarrow> 0 < n | _ \<Rightarrow> False))"

definition strava_id_of :: "(string \<times> json) list \<Rightarrow> json option" where
  "strava_id_of data =
     (case map_of data ''strava_id'' of
        Some v \<Rightarrow> activity_id_or_none v
      | None \<Rightarrow>
          let aid = dget data ''id'' in
          if positive_id aid \<and> is_strava_source (dget data ''source'') then Some aid else Some JNull)"

fun starts_with :: "string \<Rightarrow> string \<Rightarrow> bool" where
  "starts_with [] s = True"
| "starts_with (p # ps) [] = False"
| "starts_with (p # ps) (c # cs) = (p = c \<and> starts_with ps cs)"

fun contains_text :: "string \<Rightarrow> string \<Rightarrow> bool" where
  "contains_text p [] = starts_with p []"
| "contains_text p (c # cs) = (starts_with p (c # cs) \<or> contains_text p cs)"

definition strip_heartrate :: "(string \<times> json) list \<Rightarrow> (string \<times> json) list" where
  "strip_heartrate raw = filter (\<lambda>(k, v). \<not> contains_text ''heartrate'' k) raw"

subsection \<open>Names\<close>

definition normalize_name :: "string option \<Rightarrow> string option" where
  "normalize_name name =
     (case name of
        None \<Rightarrow> None
      | Some n \<Rightarrow> let stripped = py_strip n in if stripped = '''' then None else Some stripped)"

definition step_key :: "string option \<Rightarrow> string option \<Rightarrow> string option \<times> string option" where
  "step_key name date = (normalize_name name, date)"

text \<open>A social entry is a dict of texts; \<open>entry.get(k) or ""\<close>.\<close>

definition entry_text :: "(string \<times> string) list \<Rightarrow> string \<Rightarrow> string" where
  "entry_text entry k = (case map_of entry k of None \<Rightarrow> '''' | Some v \<Rightarrow> v)"

fun polarsteps_from_socials :: "(string \<times> string) list list \<Rightarrow> string option" where
  "polarsteps_from_socials [] = None"
| "polarsteps_from_socials (entry # rest) =
     (if py_lower (py_strip (entry_text entry ''network'')) = ''polarsteps'' then
        let handle = py_strip (entry_text entry ''handle'') in if handle = '''' then None else Some handle
      else polarsteps_from_socials rest)"

subsection \<open>Counters and tags\<close>

record CounterEntry =
  ce_name :: json
  ce_value :: pyfloat

definition day_counters_to_json :: "CounterEntry list \<Rightarrow> json" where
  "day_counters_to_json entries =
     JList (map (\<lambda>e. JDict [(''name'', ce_name e), (''value'', JFloat (ce_value e))]) entries)"

text \<open>\<open>CounterEntry(name=name, value=float(v))\<close>; \<open>None\<close> when \<open>float\<close> raises.\<close>

definition counter_entry :: "json \<Rightarrow> json \<Rightarrow> CounterEntry option" where
  "counter_entry name v = (case to_float v of Float f \<Rightarrow> Some \<lparr>ce_name = name, ce_value = f\<rparr> | _ \<Rightarrow> None)"

fun counters_of_list :: "json list \<Rightarrow> CounterEntry list option" where
  "counters_of_list [] = Some []"
| "counters_of_list (e # es) =
     (case e of
        JDict d \<Rightarrow>
          (case map_of d ''name'' of
             None \<Rightarrow> counters_of_list es
           | Some name \<Rightarrow>
               do { c \<leftarrow> counter_entry name (dget_or d ''value'' (JInt 0));
                    cs \<leftarrow> counters_of_list es;
                    Some (c # cs) })
      | _ \<Rightarrow> counters_of_list es)"

fun counters_of_map :: "(string \<times> json) list \<Rightarrow> CounterEntry list option" where
  "counters_of_map [] = Some []"
| "counters_of_map ((k, v) # d) =
     do { c \<leftarrow> counter_entry (JStr k) v; cs \<leftarrow> counters_of_map d; Some (c # cs) }"

definition day_counters_from_json :: "json \<Rightarrow> CounterEntry list option" where
  "day_counters_from_json raw =
     (case raw of JDict d \<Rightarrow> counters_of_map d | JList es \<Rightarrow> counters_of_list es | _ \<Rightarrow> Some [])"

definition UNTAGGED_LABEL :: string where "UNTAGGED_LABEL = ''Untagged''"

text \<open>A day's tags: \<open>None\<close> or the empty list is a day without tags of its own.\<close>

definition tag_options_with_untagged :: "string list option list \<Rightarrow> string list" where
  "tag_options_with_untagged tags_by_day =
     (let real = concat (map (\<lambda>t. case t of None \<Rightarrow> [] | Some ts \<Rightarrow> ts) tags_by_day);
          has_untagged = list_ex (\<lambda>t. case t of None \<Rightarrow> True | Some ts \<Rightarrow> ts = []) tags_by_day;
          options = sort (remdups real) in
      if options \<noteq> [] \<and> has_untagged then options @ [UNTAGGED_LABEL] else options)"

subsection \<open>Properties\<close>

lemma counters_roundtrip: "day_counters_from_json (day_counters_to_json cs) = Some cs"
proof -
  have "counters_of_list (map (\<lambda>e. JDict [(''name'', ce_name e), (''value'', JFloat (ce_value e))]) cs) = Some cs"
    by (induction cs) (simp_all add: counter_entry_def to_float_def)
  then show ?thesis by (simp add: day_counters_from_json_def day_counters_to_json_def)
qed

lemma endpoint_roundtrip: "endpoint_from (endpoint_to_dict p) = Some p"
  by (simp add: endpoint_from_def endpoint_to_dict_def)

text \<open>What is written to a dict is read back: a segment and the counters of a day exactly, an encounter
  and a journal entry but for the ids that name their row's owner, and a memory but for those and
  its comment and like counts, which are written and not read.\<close>

theorem trip_records_roundtrip:
  "segment_from_dict (segment_to_dict s) = Some s \<and>
   day_counters_from_json (day_counters_to_json cs) = Some cs \<and>
   encounter_from_dict (encounter_to_dict e) = e\<lparr>en_project_id := JNull\<rparr> \<and>
   journal_from_dict (journal_to_dict j) = j\<lparr>jr_project_id := JNull, jr_user_info_id := JNull\<rparr> \<and>
   memory_from_dict (memory_to_dict m) =
     m\<lparr>mm_project_id := JNull, mm_comment_count := JInt 0, mm_like_count := JInt 0\<rparr>"
proof (intro conjI)
  show "segment_from_dict (segment_to_dict s) = Some s"
    by (simp add: segment_from_dict_def segment_to_dict_def endpoint_roundtrip)
  show "encounter_from_dict (encounter_to_dict e) = e\<lparr>en_project_id := JNull\<rparr>"
    by (simp add: encounter_from_dict_def encounter_to_dict_def)
  show "journal_from_dict (journal_to_dict j) = j\<lparr>jr_project_id := JNull, jr_user_info_id := JNull\<rparr>"
    by (simp add: journal_from_dict_def journal_to_dict_def)
  show "memory_from_dict (memory_to_dict m) =
     m\<lparr>mm_project_id := JNull, mm_comment_count := JInt 0, mm_like_count := JInt 0\<rparr>"
    by (simp add: memory_from_dict_def memory_to_dict_def)
qed (rule counters_roundtrip)

lemma tag_options_mem:
  "tag \<in> set (tag_options_with_untagged days) \<longleftrightarrow>
     (\<exists>ts. Some ts \<in> set days \<and> tag \<in> set ts) \<or>
     tag = UNTAGGED_LABEL \<and> (\<exists>t ts. Some ts \<in> set days \<and> t \<in> set ts) \<and> (None \<in> set days \<or> Some [] \<in> set days)"
proof -
  let ?real = "concat (map (\<lambda>t. case t of None \<Rightarrow> [] | Some ts \<Rightarrow> ts) days)"
  have real: "t \<in> set ?real \<longleftrightarrow> (\<exists>ts. Some ts \<in> set days \<and> t \<in> set ts)" for t
    by (induction days) (auto split: option.splits)
  have un: "list_ex (\<lambda>t. case t of None \<Rightarrow> True | Some ts \<Rightarrow> ts = []) days \<longleftrightarrow> None \<in> set days \<or> Some [] \<in> set days"
    by (induction days) (auto split: option.splits)
  have "?real \<noteq> [] \<longleftrightarrow> (\<exists>t ts. Some ts \<in> set days \<and> t \<in> set ts)"
  proof -
    have "?real \<noteq> [] \<longleftrightarrow> (\<exists>t. t \<in> set ?real)" by (cases ?real) auto
    then show ?thesis unfolding real by blast
  qed
  then show ?thesis
    unfolding tag_options_with_untagged_def Let_def un using real by auto
qed

text \<open>Every heart-rate key is dropped and nothing else is.\<close>

lemma strip_heartrate_mem:
  "(k, v) \<in> set (strip_heartrate raw) \<longleftrightarrow> (k, v) \<in> set raw \<and> \<not> contains_text ''heartrate'' k"
  by (auto simp: strip_heartrate_def)

lemma starts_with_append: "starts_with p s \<longleftrightarrow> (\<exists>rest. s = p @ rest)"
  by (induction p s rule: starts_with.induct) auto

lemma contains_text_infix: "contains_text p s \<longleftrightarrow> (\<exists>before after. s = before @ p @ after)"
proof (induction s)
  case (Cons c s)
  show ?case
  proof
    assume "contains_text p (c # s)"
    then consider rest where "c # s = p @ rest" | before after where "s = before @ p @ after"
      using Cons by (auto simp: starts_with_append)
    then show "\<exists>before after. c # s = before @ p @ after"
      by cases (metis append_Nil, metis append_Cons)
  next
    assume "\<exists>before after. c # s = before @ p @ after"
    then obtain before after where "c # s = before @ p @ after" by blast
    then show "contains_text p (c # s)"
      unfolding contains_text.simps starts_with_append Cons.IH by (cases before) auto
  qed
qed (auto simp: starts_with_append)

end
