(* ===== verification/TripProject.thy ===== *)
theory TripProject
  imports TripModels Calendar "HOL-Library.AList" "HOL-Library.Sublist"
begin

text \<open>
  \<open>src/models/project.py\<close>: the in-memory trip and its operations: adding activities at their
  chronological place, moving, removing and sorting items, and filling the gaps between days.

  A datetime is its instant in seconds; the local start of an activity is its calendar day. The
  random bits behind a stand-in id are an argument, the sequence of draws; a loop that goes on until
  a draw is free has no value when none is. \<open>self._activity_map\<close> is an association list with the
  newest entry of a key in force.
\<close>

datatype project_error = TypeError | DateOverflow

record Activity =
  ac_id :: "int option"
  ac_name :: string
  ac_type :: string
  ac_start_date :: "seconds option"
  ac_local_date :: ymd
  ac_strava_id :: "int option"
  ac_source :: "string option"

record DayMeta =
  dm_difficulty :: "string option"
  dm_sleeping :: "string option"
  dm_weather :: "string option"
  dm_journal :: "string option"
  dm_tags :: "string list option"
  dm_counters :: "CounterEntry list"

definition empty_day :: DayMeta where
  "empty_day = \<lparr>dm_difficulty = None, dm_sleeping = None, dm_weather = None, dm_journal = None,
                dm_tags = None, dm_counters = []\<rparr>"

record ProjectItem =
  it_type :: string
  it_activity_id :: "int option"
  it_segment :: "ConnectingSegment option"
  it_memory :: "Memory option"
  it_journal :: "JournalEntry option"
  it_encounter :: "Encounter option"
  it_uid :: "string option"

definition activity_item :: "int option \<Rightarrow> ProjectItem" where
  "activity_item aid = \<lparr>it_type = ''activity'', it_activity_id = aid, it_segment = None, it_memory = None,
                         it_journal = None, it_encounter = None, it_uid = None\<rparr>"

text \<open>The fields the operations read or write; the others (name, style, settings) they never touch.\<close>

record Project =
  pj_items :: "ProjectItem list"
  pj_activities :: "Activity list"
  pj_activity_map :: "(int option \<times> Activity) list"
  pj_day_meta :: "(string \<times> DayMeta) list"

definition in_id_range :: "int \<Rightarrow> bool" where
  "in_id_range n = is_activity_id (JInt n)"

definition STAND_IN_ID_BITS :: nat where "STAND_IN_ID_BITS = 53"

definition strava_identity :: "Activity \<Rightarrow> int option" where
  "strava_identity act =
     (case ac_strava_id act of
        Some sid \<Rightarrow> if in_id_range sid \<and> sid > 0 then Some sid
                    else if ac_source act \<in> {None, Some '''', Some ''strava''}
                    then (case ac_id act of Some i \<Rightarrow> if in_id_range i \<and> i > 0 then Some i else None | None \<Rightarrow> None)
                    else None
      | None \<Rightarrow> if ac_source act \<in> {None, Some '''', Some ''strava''}
                then (case ac_id act of Some i \<Rightarrow> if in_id_range i \<and> i > 0 then Some i else None | None \<Rightarrow> None)
                else None)"

subsection \<open>The lookup\<close>

definition map_activities :: "Activity list \<Rightarrow> (int option \<times> Activity) list" where
  "map_activities acts = foldl (\<lambda>m a. if ac_id a = None then m else AList.update (ac_id a) a m) [] acts"

definition rebuild_map :: "Project \<Rightarrow> Project" where
  "rebuild_map p = p\<lparr>pj_activity_map := map_activities (pj_activities p)\<rparr>"

definition activity_by_id :: "int option \<Rightarrow> Project \<Rightarrow> Activity option \<times> Project" where
  "activity_by_id aid p =
     (let p' = (if pj_activity_map p = [] then rebuild_map p else p) in (map_of (pj_activity_map p') aid, p'))"

definition is_activity_item :: "ProjectItem \<Rightarrow> bool" where
  "is_activity_item it = (it_type it = ''activity'')"

fun ordered_loop :: "ProjectItem list \<Rightarrow> Project \<Rightarrow> Activity list \<times> Project" where
  "ordered_loop [] p = ([], p)"
| "ordered_loop (it # its) p =
     (if is_activity_item it \<and> it_activity_id it \<noteq> None then
        let (a, p') = activity_by_id (it_activity_id it) p; (rest, p'') = ordered_loop its p' in
        (case a of None \<Rightarrow> (rest, p'') | Some act \<Rightarrow> (act # rest, p''))
      else ordered_loop its p)"

definition ordered_activities :: "Project \<Rightarrow> Activity list \<times> Project" where
  "ordered_activities p = ordered_loop (pj_items p) p"

subsection \<open>Sort keys\<close>

text \<open>The values the code sorts by; Python compares two of them only when both are texts or both times.\<close>

datatype sort_val = KNone | KText string | KTime seconds

instantiation sort_val :: linorder
begin

fun less_eq_sort_val :: "sort_val \<Rightarrow> sort_val \<Rightarrow> bool" where
  "less_eq_sort_val KNone b = True"
| "less_eq_sort_val (KText s) KNone = False"
| "less_eq_sort_val (KText s) (KText t) = (s \<le> t)"
| "less_eq_sort_val (KText s) (KTime y) = True"
| "less_eq_sort_val (KTime x) (KTime y) = (x \<le> y)"
| "less_eq_sort_val (KTime x) b = False"

definition less_sort_val :: "sort_val \<Rightarrow> sort_val \<Rightarrow> bool" where
  "less_sort_val a b = (a \<le> b \<and> \<not> b \<le> a)"

instance
proof
  fix a b c :: sort_val
  show "a < b \<longleftrightarrow> a \<le> b \<and> \<not> b \<le> a" by (simp add: less_sort_val_def)
  show "a \<le> a" by (cases a) auto
  show "a \<le> b \<Longrightarrow> b \<le> c \<Longrightarrow> a \<le> c" by (cases a; cases b; cases c) auto
  show "a \<le> b \<Longrightarrow> b \<le> a \<Longrightarrow> a = b" by (cases a; cases b) auto
  show "a \<le> b \<or> b \<le> a" by (cases a; cases b) auto
qed

end

definition is_text :: "sort_val \<Rightarrow> bool" where
  "is_text v = (case v of KText _ \<Rightarrow> True | _ \<Rightarrow> False)"

definition is_time :: "sort_val \<Rightarrow> bool" where
  "is_time v = (case v of KTime _ \<Rightarrow> True | _ \<Rightarrow> False)"

text \<open>\<open>sorted(xs, key=...)\<close>: stable, and a \<open>TypeError\<close> when two keys cannot be compared.\<close>

definition py_sorted :: "('a \<Rightarrow> sort_val) \<Rightarrow> 'a list \<Rightarrow> (project_error, 'a list) result" where
  "py_sorted key xs =
     (if length xs \<le> 1 \<or> list_all (\<lambda>x. is_text (key x)) xs \<or> list_all (\<lambda>x. is_time (key x)) xs
      then Inr (sort_key key xs) else Inl TypeError)"

definition start_or_empty :: "Activity \<Rightarrow> sort_val" where
  "start_or_empty a = (case ac_start_date a of None \<Rightarrow> KText '''' | Some t \<Rightarrow> KTime t)"

subsection \<open>Adding activities\<close>

partial_function (option) stand_in_id :: "(nat \<Rightarrow> int) \<Rightarrow> nat \<Rightarrow> int option list \<Rightarrow> (int \<times> nat) option" where
  "stand_in_id draws i taken =
     (if draws i \<noteq> 0 \<and> Some (draws i) \<notin> set taken then Some (draws i, Suc i)
      else stand_in_id draws (Suc i) taken)"

declare stand_in_id.simps [code]

fun insert_pos_loop :: "(int option \<times> Activity) list \<Rightarrow> seconds \<Rightarrow> nat \<Rightarrow> ProjectItem list \<Rightarrow> nat \<Rightarrow> nat" where
  "insert_pos_loop m start idx [] insert_pos = insert_pos"
| "insert_pos_loop m start idx (it # its) insert_pos =
     insert_pos_loop m start (Suc idx) its
       (if is_activity_item it \<and> it_activity_id it \<noteq> None then
          (case map_of m (it_activity_id it) of
             None \<Rightarrow> insert_pos
           | Some existing \<Rightarrow>
               (case ac_start_date existing of
                  None \<Rightarrow> insert_pos
                | Some t \<Rightarrow> if t \<le> start then Suc idx else insert_pos))
        else insert_pos)"

definition chronological_insert_pos :: "Activity \<Rightarrow> (int option \<times> Activity) list \<Rightarrow> ProjectItem list \<Rightarrow> nat" where
  "chronological_insert_pos act m its =
     (case ac_start_date act of None \<Rightarrow> length its | Some start \<Rightarrow> insert_pos_loop m start 0 its 0)"

text \<open>The local variables of the loop of \<open>add_activities\<close>.\<close>

record adding =
  ad_project :: Project
  ad_existing :: "int option list"
  ad_held :: "int list"
  ad_added :: nat
  ad_draws :: nat

definition put_activity :: "Activity \<Rightarrow> adding \<Rightarrow> adding" where
  "put_activity act s =
     (let p = ad_project s; m = AList.update (ac_id act) act (pj_activity_map p) in
      s\<lparr>ad_project := p\<lparr>pj_activities := pj_activities p @ [act], pj_activity_map := m,
                        pj_items := insert_at (chronological_insert_pos act m (pj_items p))
                                      (activity_item (ac_id act)) (pj_items p)\<rparr>,
        ad_existing := ac_id act # ad_existing s, ad_added := ad_added s + 1\<rparr>)"

definition add_one :: "(nat \<Rightarrow> int) \<Rightarrow> Activity \<Rightarrow> adding \<Rightarrow> adding option" where
  "add_one draws act s =
     (case strava_identity act of
        Some sid \<Rightarrow>
          if sid \<in> set (ad_held s) then Some s
          else
            let s1 = s\<lparr>ad_held := sid # ad_held s\<rparr> in
            if ac_id act \<in> set (ad_existing s) then
              (case stand_in_id draws (ad_draws s) (ad_existing s) of
                 None \<Rightarrow> None
               | Some (fresh, n) \<Rightarrow>
                   Some (put_activity (act\<lparr>ac_id := Some fresh, ac_strava_id := Some sid\<rparr>) (s1\<lparr>ad_draws := n\<rparr>)))
            else Some (put_activity act s1)
      | None \<Rightarrow> if ac_id act \<in> set (ad_existing s) then Some s else Some (put_activity act s))"

fun add_loop :: "(nat \<Rightarrow> int) \<Rightarrow> Activity list \<Rightarrow> adding \<Rightarrow> adding option" where
  "add_loop draws [] s = Some s"
| "add_loop draws (act # acts) s =
     (case add_one draws act s of None \<Rightarrow> None | Some s' \<Rightarrow> add_loop draws acts s')"

subsection \<open>Day gaps\<close>

definition MAX_ORD :: int where "MAX_ORD = 3652059"

text \<open>\<open>while cur <= last\<close>, on ordinals; \<open>cur + 1\<close> past the last representable date raises.\<close>

function fill_days :: "int \<Rightarrow> int \<Rightarrow> (string \<times> DayMeta) list \<Rightarrow> (project_error, (string \<times> DayMeta) list) result" where
  "fill_days cur last_day days =
     (if cur > last_day then Inr days
      else
        let key = isoformat (ord2ymd cur);
            days' = (if map_of days key = None then AList.update key empty_day days else days) in
        if cur + 1 > MAX_ORD then Inl DateOverflow else fill_days (cur + 1) last_day days')"
  by auto
termination
  by (relation "measure (\<lambda>(cur, last_day, days). nat (last_day + 1 - cur))") auto

declare fill_days.simps [simp del]

definition activity_days :: "Project \<Rightarrow> int list" where
  "activity_days p = map (\<lambda>a. ymd2ord (ac_local_date a)) (pj_activities p)"

definition fill_day_gaps :: "Project \<Rightarrow> (project_error, Project) result" where
  "fill_day_gaps p =
     (let dates = activity_days p in
      if dates = [] then Inr p
      else rbind (fill_days (Min (set dates)) (Max (set dates)) (pj_day_meta p))
             (\<lambda>days. Inr (p\<lparr>pj_day_meta := days\<rparr>)))"

definition start_adding :: "nat \<Rightarrow> Project \<Rightarrow> adding" where
  "start_adding n p =
     (let p0 = rebuild_map p in
      \<lparr>ad_project = p0,
       ad_existing = filter (\<lambda>i. i \<noteq> None) (map ac_id (pj_activities p)),
       ad_held = List.map_filter ac_strava_id (pj_activities p),
       ad_added = 0, ad_draws = n\<rparr>)"

text \<open>\<open>None\<close> when the search for a stand-in id never ends.\<close>

definition add_activities ::
  "(nat \<Rightarrow> int) \<Rightarrow> nat \<Rightarrow> Activity list \<Rightarrow> Project \<Rightarrow> (project_error, nat \<times> Project) result option" where
  "add_activities draws n new_activities p =
     (case py_sorted start_or_empty new_activities of
        Inl e \<Rightarrow> Some (Inl e)
      | Inr acts \<Rightarrow>
          map_option
            (\<lambda>s. if ad_added s \<noteq> 0 then rbind (fill_day_gaps (ad_project s)) (\<lambda>p'. Inr (ad_added s, p'))
                 else Inr (0, ad_project s))
            (add_loop draws acts (start_adding n p)))"

subsection \<open>Moving, removing, sorting\<close>

definition remove_item :: "int \<Rightarrow> Project \<Rightarrow> Project" where
  "remove_item index p =
     (if 0 \<le> index \<and> index < int (length (pj_items p))
      then p\<lparr>pj_items := delete_at (nat index) (pj_items p)\<rparr> else p)"

definition move_item :: "int \<Rightarrow> int \<Rightarrow> Project \<Rightarrow> Project" where
  "move_item from_index to_index p =
     (let n = int (length (pj_items p)) in
      if from_index = to_index \<or> \<not> (0 \<le> from_index \<and> from_index < n) then p
      else
        let to' = max 0 (min (n - 1) to_index);
            it = pj_items p ! nat from_index in
        p\<lparr>pj_items := insert_at (nat to') it (delete_at (nat from_index) (pj_items p))\<rparr>)"

text \<open>\<open>for i, item in enumerate(self.items): if ...: self.items[i] = next(it)\<close>.\<close>

fun refill :: "ProjectItem list \<Rightarrow> ProjectItem list \<Rightarrow> ProjectItem list" where
  "refill [] acts = []"
| "refill (it # its) acts =
     (if is_activity_item it then
        (case acts of [] \<Rightarrow> it # refill its [] | a # rest \<Rightarrow> a # refill its rest)
      else it # refill its acts)"

definition item_key :: "(Activity \<Rightarrow> sort_val) \<Rightarrow> (int option \<times> Activity) list \<Rightarrow> ProjectItem \<Rightarrow> sort_val" where
  "item_key key m it =
     (case it_activity_id it of
        None \<Rightarrow> KText ''''
      | Some i \<Rightarrow> if i = 0 then KText '''' else (case map_of m (Some i) of None \<Rightarrow> KText '''' | Some a \<Rightarrow> key a))"

definition sort_activity_slots :: "(Activity \<Rightarrow> sort_val) \<Rightarrow> Project \<Rightarrow> (project_error, Project) result" where
  "sort_activity_slots key p =
     (let slots = filter is_activity_item (pj_items p);
          looked_up = list_ex (\<lambda>it. it_activity_id it \<noteq> None \<and> it_activity_id it \<noteq> Some 0) slots;
          m = (if looked_up \<and> pj_activity_map p = [] then map_activities (pj_activities p) else pj_activity_map p) in
      rbind (py_sorted (item_key key m) slots)
        (\<lambda>acts. Inr (p\<lparr>pj_activity_map := m, pj_items := refill (pj_items p) acts\<rparr>)))"

definition start_key :: "Activity \<Rightarrow> sort_val" where
  "start_key a = (case ac_start_date a of None \<Rightarrow> KNone | Some t \<Rightarrow> KTime t)"

definition sort_activities_by_date :: "Project \<Rightarrow> (project_error, Project) result" where
  "sort_activities_by_date p = sort_activity_slots start_key p"

definition sort_activities_by_name :: "Project \<Rightarrow> (project_error, Project) result" where
  "sort_activities_by_name p = sort_activity_slots (\<lambda>a. KText (py_lower (ac_name a))) p"

subsection \<open>Sorting the slots\<close>

lemma length_refill [simp]: "length (refill its acts) = length its"
  by (induction its acts rule: refill.induct) (auto split: list.splits)

lemma refill_other: "i < length its \<Longrightarrow> \<not> is_activity_item (its ! i) \<Longrightarrow> refill its acts ! i = its ! i"
proof (induction its acts arbitrary: i rule: refill.induct)
  case (2 it its acts)
  then show ?case by (cases i; cases acts) auto
qed simp

lemma refill_slots:
  "length acts = length (filter is_activity_item its) \<Longrightarrow> list_all is_activity_item acts \<Longrightarrow>
     filter is_activity_item (refill its acts) = acts"
proof (induction its acts rule: refill.induct)
  case (2 it its acts)
  then show ?case by (cases acts) auto
qed simp

lemma refill_rest: "list_all is_activity_item acts \<Longrightarrow>
     filter (\<lambda>it. \<not> is_activity_item it) (refill its acts) = filter (\<lambda>it. \<not> is_activity_item it) its"
proof (induction its acts rule: refill.induct)
  case (2 it its acts)
  then show ?case by (cases acts) auto
qed simp

lemma mset_filter_split: "mset xs = mset (filter P xs) + mset (filter (\<lambda>x. \<not> P x) xs)"
  by (induction xs) auto

subsection \<open>The chronological place\<close>

text \<open>The start of the activity an item stands for, if it stands for one that has a start.\<close>

definition item_time :: "(int option \<times> Activity) list \<Rightarrow> ProjectItem \<Rightarrow> seconds option" where
  "item_time m it =
     (if is_activity_item it \<and> it_activity_id it \<noteq> None
      then Option.bind (map_of m (it_activity_id it)) ac_start_date else None)"

definition dated :: "(int option \<times> Activity) list \<Rightarrow> ProjectItem list \<Rightarrow> seconds list" where
  "dated m its = List.map_filter (item_time m) its"

lemma dated_append [simp]: "dated m (xs @ ys) = dated m xs @ dated m ys"
  by (simp add: dated_def List.map_filter_def)

lemma dated_Cons: "dated m (it # its) = (case item_time m it of None \<Rightarrow> dated m its | Some t \<Rightarrow> t # dated m its)"
  by (simp add: dated_def List.map_filter_simps split: option.splits)

lemma dated_mem: "t \<in> set (dated m its) \<longleftrightarrow> (\<exists>it\<in>set its. item_time m it = Some t)"
  by (induction its) (auto simp: dated_def List.map_filter_simps split: option.splits)

lemma insert_pos_loop_step:
  "insert_pos_loop m start idx (it # its) pos =
     insert_pos_loop m start (Suc idx) its
       (case item_time m it of None \<Rightarrow> pos | Some t \<Rightarrow> if t \<le> start then Suc idx else pos)"
  by (auto simp: item_time_def split: option.splits)

text \<open>The loop returns the place behind the last item that is not later.\<close>

lemma insert_pos_loop_spec:
  "\<exists>k\<le>length its. insert_pos_loop m start idx its pos = (if k = 0 then pos else idx + k) \<and>
     (\<forall>t\<in>set (dated m (drop k its)). start < t) \<and>
     (k \<noteq> 0 \<longrightarrow> (\<exists>t. item_time m (its ! (k - 1)) = Some t \<and> t \<le> start))"
proof (induction its arbitrary: idx pos)
  case Nil
  then show ?case by (simp add: dated_def List.map_filter_simps)
next
  case (Cons it its)
  let ?pos = "case item_time m it of None \<Rightarrow> pos | Some t \<Rightarrow> if t \<le> start then Suc idx else pos"
  obtain k where k: "k \<le> length its"
    "insert_pos_loop m start (Suc idx) its ?pos = (if k = 0 then ?pos else Suc idx + k)"
    "\<forall>t\<in>set (dated m (drop k its)). start < t"
    "k \<noteq> 0 \<longrightarrow> (\<exists>t. item_time m (its ! (k - 1)) = Some t \<and> t \<le> start)"
    using Cons [of "Suc idx" ?pos] by blast
  show ?case
  proof (cases "k = 0")
    case False
    then show ?thesis
      using k by (intro exI [of _ "Suc k"]) (simp add: insert_pos_loop_step del: insert_pos_loop.simps)
  next
    case True
    show ?thesis
    proof (cases "\<exists>t. item_time m it = Some t \<and> t \<le> start")
      case True
      then show ?thesis
        using k \<open>k = 0\<close> by (intro exI [of _ 1]) (auto simp: insert_pos_loop_step simp del: insert_pos_loop.simps)
    next
      case False
      then have "insert_pos_loop m start idx (it # its) pos = pos"
        using k \<open>k = 0\<close> by (auto simp: insert_pos_loop_step simp del: insert_pos_loop.simps split: option.splits)
      moreover have "\<forall>t\<in>set (dated m (it # its)). start < t"
        using k(3) False \<open>k = 0\<close> by (auto simp: dated_Cons split: option.splits)
      ultimately show ?thesis by (intro exI [of _ 0]) simp
    qed
  qed
qed

lemma insert_in_order:
  assumes srt: "sorted (dated m its)" and known: "map_of m (ac_id act) = Some act"
  shows "sorted (dated m (insert_at (chronological_insert_pos act m its) (activity_item (ac_id act)) its))"
proof (cases "ac_id act = None \<or> ac_start_date act = None")
  case True
  then have "item_time m (activity_item (ac_id act)) = None"
    using known by (auto simp: item_time_def activity_item_def is_activity_item_def)
  then have "dated m (insert_at i (activity_item (ac_id act)) its) = dated m (take i its @ drop i its)" for i
    unfolding insert_at_def by (simp only: dated_append dated_Cons option.case)
  then show ?thesis using srt by simp
next
  case False
  then obtain start where start: "ac_start_date act = Some start" by blast
  have t: "item_time m (activity_item (ac_id act)) = Some start"
    using False known start by (simp add: item_time_def activity_item_def is_activity_item_def)
  obtain k where k: "k \<le> length its" "insert_pos_loop m start 0 its 0 = k"
    "\<forall>t\<in>set (dated m (drop k its)). start < t"
    "k \<noteq> 0 \<longrightarrow> (\<exists>t. item_time m (its ! (k - 1)) = Some t \<and> t \<le> start)"
    using insert_pos_loop_spec [of its m start 0 0] by auto
  have parts: "sorted (dated m (take k its))" "sorted (dated m (drop k its))"
    using srt by (metis append_take_drop_id dated_append sorted_append)+
  have before: "\<forall>t\<in>set (dated m (take k its)). t \<le> start"
  proof (cases "k = 0")
    case False
    then obtain t where t: "item_time m (its ! (k - 1)) = Some t" "t \<le> start" using k(4) by blast
    have "take k its = take (k - 1) its @ [its ! (k - 1)]"
      using False k(1) take_Suc_conv_app_nth [of "k - 1" its] by simp
    then have d: "dated m (take k its) = dated m (take (k - 1) its) @ [t]"
      using t(1) by (simp add: dated_Cons) (simp add: dated_def List.map_filter_simps)
    show ?thesis using parts(1) t(2) unfolding d by (auto simp: sorted_append)
  qed (simp add: dated_def List.map_filter_simps)
  have "dated m (insert_at k (activity_item (ac_id act)) its) = dated m (take k its) @ start # dated m (drop k its)"
    unfolding insert_at_def using t by (simp add: dated_Cons)
  moreover have "x \<le> y" if "x \<in> set (dated m (take k its))" "y \<in> set (dated m (drop k its))" for x y
    using before k(3) that by (meson less_imp_le order_trans)
  then have "sorted (dated m (take k its) @ start # dated m (drop k its))"
    using parts before k(3) by (simp add: sorted_append less_imp_le)
  ultimately show ?thesis using k(2) start by (simp add: chronological_insert_pos_def)
qed

subsection \<open>Stand-in ids\<close>

text \<open>The search ends as soon as a draw is free.\<close>

lemma stand_in_id_ends:
  "draws (i + k) \<noteq> 0 \<Longrightarrow> Some (draws (i + k)) \<notin> set taken \<Longrightarrow> \<exists>r. stand_in_id draws i taken = Some r"
proof (induction k arbitrary: i)
  case 0
  then show ?case by (simp add: stand_in_id.simps)
next
  case (Suc k)
  then show ?case using Suc.IH [of "Suc i"] by (subst stand_in_id.simps) simp
qed

lemma stand_in_id_fresh:
  assumes "stand_in_id draws i taken = Some r"
  shows "fst r \<noteq> 0 \<and> Some (fst r) \<notin> set taken \<and> i < snd r \<and> fst r = draws (snd r - 1)"
proof (rule stand_in_id.raw_induct [where P = "\<lambda>draws i taken r.
    fst r \<noteq> 0 \<and> Some (fst r) \<notin> set taken \<and> i < snd r \<and> fst r = draws (snd r - 1)", OF _ assms], goal_cases)
  case (1 self draws i taken r)
  show ?case
  proof (cases "draws i \<noteq> 0 \<and> Some (draws i) \<notin> set taken")
    case True
    then show ?thesis using 1(2) by auto
  next
    case False
    then have "self draws (Suc i) taken = Some r" using 1(2) by (simp split: if_splits)
    then show ?thesis using 1(1) [of draws "Suc i" taken r] Suc_lessD by metis
  qed
qed

subsection \<open>Day gaps\<close>

lemma fill_days_fills:
  assumes "fill_days cur last_day days = Inr days'"
  shows "(\<forall>d. cur \<le> d \<and> d \<le> last_day \<longrightarrow> map_of days' (isoformat (ord2ymd d)) \<noteq> None) \<and>
    (\<forall>k. map_of days k \<noteq> None \<longrightarrow> map_of days' k = map_of days k) \<and>
    (\<forall>k. map_of days k = None \<and> map_of days' k \<noteq> None \<longrightarrow>
       map_of days' k = Some empty_day \<and> (\<exists>d. cur \<le> d \<and> d \<le> last_day \<and> k = isoformat (ord2ymd d)))"
  using assms
proof (induction cur last_day days rule: fill_days.induct)
  case (1 cur last_day days)
  show ?case
  proof (cases "cur > last_day")
    case True
    then show ?thesis using 1(2) by (auto simp: fill_days.simps)
  next
    case False
    let ?key = "isoformat (ord2ymd cur)"
    define mid where "mid = (if map_of days ?key = None then AList.update ?key empty_day days else days)"
    have small: "\<not> cur + 1 > MAX_ORD" and rec: "fill_days (cur + 1) last_day mid = Inr days'"
      using 1(2) False by (auto simp: fill_days.simps [of cur] mid_def Let_def split: if_splits)
    have IH: "cur + 1 \<le> d \<Longrightarrow> d \<le> last_day \<Longrightarrow> map_of days' (isoformat (ord2ymd d)) \<noteq> None"
      "map_of mid k \<noteq> None \<Longrightarrow> map_of days' k = map_of mid k"
      "map_of mid k = None \<Longrightarrow> map_of days' k \<noteq> None \<Longrightarrow>
         map_of days' k = Some empty_day \<and> (\<exists>d. cur + 1 \<le> d \<and> d \<le> last_day \<and> k = isoformat (ord2ymd d))" for d k
      using 1(1) [OF False refl refl] small rec unfolding mid_def [symmetric] by blast+
    have m: "map_of mid k = (if k = ?key \<and> map_of days ?key = None then Some empty_day else map_of days k)" for k
      by (simp add: mid_def update_conv')
    show ?thesis
    proof (intro conjI allI impI, goal_cases)
      case (1 d)
      then show ?case
        using IH(1) [of d] IH(2) [of ?key] m [of ?key] by (cases "d = cur") (auto split: if_splits)
    next
      case (2 k)
      then show ?case using IH(2) [of k] m [of k] by (auto split: if_splits)
    next
      case (3 k)
      then show ?case using IH(2) [of k] IH(3) [of k] m [of k] by (cases "map_of mid k") (auto split: if_splits)
    next
      case (4 k)
      show ?case
      proof (cases "map_of mid k")
        case None
        then obtain d where "cur + 1 \<le> d" "d \<le> last_day" "k = isoformat (ord2ymd d)" using IH(3) [of k] 4 by blast
        then show ?thesis by (intro exI [of _ d]) simp
      next
        case (Some v)
        then have "k = ?key" using m [of k] 4 by (auto split: if_splits)
        then show ?thesis using False by (intro exI [of _ cur]) simp
      qed
    qed
  qed
qed

lemma fill_days_total: "last_day < MAX_ORD \<Longrightarrow> \<exists>days'. fill_days cur last_day days = Inr days'"
proof (induction cur last_day days rule: fill_days.induct)
  case (1 cur last_day days)
  show ?case
  proof (cases "cur > last_day")
    case True
    then show ?thesis by (simp add: fill_days.simps)
  next
    case False
    then have "\<not> cur + 1 > MAX_ORD" using 1(2) by simp
    then show ?thesis
      using 1(1) [OF False refl refl] 1(2) False by (subst fill_days.simps) (simp add: Let_def)
  qed
qed

subsection \<open>Adding keeps identities apart\<close>

text \<open>
  An activity whose Strava id is the one the app reads off it, and that has a row id; the trip's
  activities have different row ids and different Strava ids.
\<close>

definition identified :: "Activity \<Rightarrow> bool" where
  "identified a = (ac_id a \<noteq> None \<and> ac_strava_id a = strava_identity a)"

definition strava_ids :: "Activity list \<Rightarrow> int list" where
  "strava_ids acts = List.map_filter ac_strava_id acts"

definition apart :: "Activity list \<Rightarrow> bool" where
  "apart acts = (list_all (\<lambda>a. ac_id a \<noteq> None) acts \<and> distinct (map ac_id acts) \<and> distinct (strava_ids acts))"

definition present :: "Activity \<Rightarrow> Activity list \<Rightarrow> bool" where
  "present a acts = (case strava_identity a of Some sid \<Rightarrow> sid \<in> set (strava_ids acts) | None \<Rightarrow> ac_id a \<in> ac_id ` set acts)"

definition adding_ok :: "adding \<Rightarrow> bool" where
  "adding_ok s = (apart (pj_activities (ad_project s)) \<and>
     set (ad_existing s) = ac_id ` set (pj_activities (ad_project s)) \<and>
     set (ad_held s) = set (strava_ids (pj_activities (ad_project s))))"

text \<open>What a run of the loop adds: activities behind, their items somewhere among the old ones.\<close>

definition grown :: "adding \<Rightarrow> Activity list \<Rightarrow> adding \<Rightarrow> bool" where
  "grown s news s' =
     (pj_activities (ad_project s') = pj_activities (ad_project s) @ news \<and>
      ad_added s' = ad_added s + length news \<and>
      subseq (pj_items (ad_project s)) (pj_items (ad_project s')) \<and>
      mset (pj_items (ad_project s')) = mset (pj_items (ad_project s)) + mset (map (\<lambda>a. activity_item (ac_id a)) news) \<and>
      pj_day_meta (ad_project s') = pj_day_meta (ad_project s))"

lemma strava_ids_snoc: "strava_ids (acts @ [a]) = strava_ids acts @ (case ac_strava_id a of None \<Rightarrow> [] | Some i \<Rightarrow> [i])"
  by (simp add: strava_ids_def List.map_filter_def split: option.splits)

lemma strava_ids_append: "strava_ids (xs @ ys) = strava_ids xs @ strava_ids ys"
  by (simp add: strava_ids_def List.map_filter_def)

lemma subseq_insert_at: "subseq xs (insert_at i x xs)"
proof -
  have "subseq (take i xs @ drop i xs) (take i xs @ x # drop i xs)"
    by (rule list_emb_append_mono) (auto intro: subseq_order.refl)
  then show ?thesis by (simp add: insert_at_def)
qed

lemma put_activity_fields [simp]:
  "pj_activities (ad_project (put_activity a s)) = pj_activities (ad_project s) @ [a]"
  "ad_existing (put_activity a s) = ac_id a # ad_existing s"
  "ad_held (put_activity a s) = ad_held s"
  "ad_added (put_activity a s) = ad_added s + 1"
  "pj_day_meta (ad_project (put_activity a s)) = pj_day_meta (ad_project s)"
  "mset (pj_items (ad_project (put_activity a s))) = add_mset (activity_item (ac_id a)) (mset (pj_items (ad_project s)))"
  "subseq (pj_items (ad_project s)) (pj_items (ad_project (put_activity a s)))"
  by (simp_all add: put_activity_def Let_def subseq_insert_at)

lemma put_activity_ok:
  assumes "apart (pj_activities (ad_project s))" "set (ad_existing s) = ac_id ` set (pj_activities (ad_project s))"
    and "set (ad_held s) = set (strava_ids (pj_activities (ad_project s) @ [a]))"
    and "ac_id a \<noteq> None" "ac_id a \<notin> set (ad_existing s)"
    and "\<And>i. ac_strava_id a = Some i \<Longrightarrow> i \<notin> set (strava_ids (pj_activities (ad_project s)))"
  shows "adding_ok (put_activity a s)"
  using assms by (auto simp: adding_ok_def apart_def strava_ids_snoc split: option.splits)

lemma grown_put: "grown s [a] (put_activity a (s\<lparr>ad_held := h, ad_draws := n\<rparr>))" "grown s [a] (put_activity a s)"
  by (simp_all add: grown_def put_activity_def Let_def subseq_insert_at)

lemma grown_refl: "grown s [] s"
  by (simp add: grown_def)

lemma grown_trans: "grown s xs s1 \<Longrightarrow> grown s1 ys s2 \<Longrightarrow> grown s (xs @ ys) s2"
  by (auto simp: grown_def intro: subseq_order.trans)

lemma present_append: "present a xs \<Longrightarrow> present a (xs @ ys)"
  by (auto simp: present_def strava_ids_append split: option.splits)

text \<open>The same activity, but perhaps for its ids.\<close>

definition same_content :: "Activity \<Rightarrow> Activity \<Rightarrow> bool" where
  "same_content a b = (b = a\<lparr>ac_id := ac_id b, ac_strava_id := ac_strava_id b\<rparr>)"

lemma same_content_simps [simp]: "same_content a a" "same_content a (a\<lparr>ac_id := i, ac_strava_id := s\<rparr>)"
  by (simp_all add: same_content_def)

lemma same_content_date: "same_content a b \<Longrightarrow> ac_local_date b = ac_local_date a"
  unfolding same_content_def by (metis Activity.select_convs Activity.surjective Activity.update_convs)

text \<open>A fair source of draws: whatever is taken, a free id comes up again and again.\<close>

definition fair :: "(nat \<Rightarrow> int) \<Rightarrow> bool" where
  "fair draws = (\<forall>taken i. finite taken \<longrightarrow> (\<exists>k. draws (i + k) \<noteq> 0 \<and> draws (i + k) \<notin> taken))"

lemma fair_stand_in: "fair draws \<Longrightarrow> \<exists>fresh n. stand_in_id draws i taken = Some (fresh, n)"
proof -
  assume "fair draws"
  moreover have "finite {c. Some c \<in> set taken}" by (rule finite_subset [of _ "the ` set taken"]) force+
  ultimately obtain k where "draws (i + k) \<noteq> 0" "draws (i + k) \<notin> {c. Some c \<in> set taken}"
    unfolding fair_def by blast
  then show ?thesis using stand_in_id_ends [of draws i k taken] by auto
qed

lemma add_one_ok:
  assumes ok: "adding_ok s" and a: "identified a" and "fair draws"
  shows "\<exists>s' news. add_one draws a s = Some s' \<and> adding_ok s' \<and> grown s news s' \<and>
    present a (pj_activities (ad_project s')) \<and> (\<forall>b\<in>set news. same_content a b)"
proof (cases "strava_identity a")
  case None
  then have sa: "ac_strava_id a = None" using a by (simp add: identified_def)
  show ?thesis
  proof (cases "ac_id a \<in> set (ad_existing s)")
    case True
    then have "add_one draws a s = Some s" "present a (pj_activities (ad_project s))"
      using None ok by (simp_all add: add_one_def present_def adding_ok_def)
    then show ?thesis using ok grown_refl by fastforce
  next
    case False
    have "adding_ok (put_activity a s)"
      by (rule put_activity_ok) (use ok False sa a in \<open>auto simp: adding_ok_def identified_def strava_ids_snoc\<close>)
    moreover have "add_one draws a s = Some (put_activity a s)" using None False by (simp add: add_one_def)
    moreover have "present a (pj_activities (ad_project (put_activity a s)))" using None by (simp add: present_def)
    moreover have "\<forall>b\<in>set [a]. same_content a b" by simp
    ultimately show ?thesis using grown_put(2) by blast
  qed
next
  case (Some sid)
  then have sa: "ac_strava_id a = Some sid" using a by (simp add: identified_def)
  show ?thesis
  proof (cases "sid \<in> set (ad_held s)")
    case True
    then have "add_one draws a s = Some s" "present a (pj_activities (ad_project s))"
      using Some ok by (simp_all add: add_one_def present_def adding_ok_def)
    then show ?thesis using ok grown_refl by fastforce
  next
    case False
    obtain fresh n where fn: "stand_in_id draws (ad_draws s) (ad_existing s) = Some (fresh, n)"
      using fair_stand_in [OF assms(3)] by blast
    have free: "Some fresh \<notin> set (ad_existing s)" using stand_in_id_fresh [OF fn] by (metis fst_conv)
    define b where "b = (if ac_id a \<in> set (ad_existing s) then a\<lparr>ac_id := Some fresh, ac_strava_id := Some sid\<rparr> else a)"
    define n' where "n' = (if ac_id a \<in> set (ad_existing s) then n else ad_draws s)"
    let ?s1 = "s\<lparr>ad_held := sid # ad_held s, ad_draws := n'\<rparr>"
    have run: "add_one draws a s = Some (put_activity b ?s1)"
      using Some False fn by (simp add: add_one_def Let_def b_def n'_def)
    have b: "ac_id b \<noteq> None" "ac_id b \<notin> set (ad_existing s)" "ac_strava_id b = Some sid"
      using a free sa by (auto simp: b_def identified_def)
    have "adding_ok (put_activity b ?s1)"
      by (rule put_activity_ok) (use ok b False in \<open>auto simp: adding_ok_def strava_ids_snoc\<close>)
    moreover have "present a (pj_activities (ad_project (put_activity b ?s1)))"
      using Some b(3) by (simp add: present_def strava_ids_snoc)
    moreover have "\<forall>c\<in>set [b]. same_content a c" by (simp add: b_def)
    ultimately show ?thesis using run grown_put(1) by blast
  qed
qed

lemma grown_present: "grown s news s' \<Longrightarrow> present a (pj_activities (ad_project s)) \<Longrightarrow> present a (pj_activities (ad_project s'))"
  by (simp add: grown_def present_append)

lemma add_loop_ok:
  "adding_ok s \<Longrightarrow> list_all identified acts \<Longrightarrow> fair draws \<Longrightarrow>
     \<exists>s' news. add_loop draws acts s = Some s' \<and> adding_ok s' \<and> grown s news s' \<and>
       (\<forall>a\<in>set acts. present a (pj_activities (ad_project s'))) \<and>
       (\<forall>b\<in>set news. \<exists>a\<in>set acts. same_content a b)"
proof (induction acts arbitrary: s)
  case Nil
  then show ?case using grown_refl [of s] by fastforce
next
  case (Cons a acts)
  then obtain s1 n1 where s1: "add_one draws a s = Some s1" "adding_ok s1" "grown s n1 s1" "present a (pj_activities (ad_project s1))"
    "\<forall>b\<in>set n1. same_content a b"
    using add_one_ok [of s a draws] by auto
  obtain s2 n2 where s2: "add_loop draws acts s1 = Some s2" "adding_ok s2" "grown s1 n2 s2"
    "\<forall>b\<in>set acts. present b (pj_activities (ad_project s2))" "\<forall>b\<in>set n2. \<exists>a\<in>set acts. same_content a b"
    using Cons.IH [OF s1(2)] Cons.prems by auto
  have "present a (pj_activities (ad_project s2))" using grown_present [OF s2(3) s1(4)] .
  then have "\<forall>b\<in>set (a # acts). present b (pj_activities (ad_project s2))" using s2(4) by simp
  moreover have "add_loop draws (a # acts) s = Some s2" using s1(1) s2(1) by simp
  moreover have "\<forall>b\<in>set (n1 @ n2). \<exists>x\<in>set (a # acts). same_content x b" using s1(5) s2(5) by auto
  ultimately show ?case using grown_trans [OF s1(3) s2(3)] s2(2) by blast
qed

text \<open>Nothing is added when everything is there.\<close>

lemma add_loop_nothing:
  "adding_ok s \<Longrightarrow> \<forall>a\<in>set acts. present a (pj_activities (ad_project s)) \<Longrightarrow> add_loop draws acts s = Some s"
proof (induction acts)
  case (Cons a acts)
  then have "add_one draws a s = Some s"
    by (auto simp: add_one_def present_def adding_ok_def split: option.splits)
  then show ?case using Cons by simp
qed simp

lemma start_adding_ok:
  "apart (pj_activities p) \<Longrightarrow> adding_ok (start_adding n p)"
  by (force simp: adding_ok_def start_adding_def Let_def rebuild_map_def apart_def strava_ids_def list_all_iff)

lemma py_sorted_times:
  "\<forall>a\<in>set acts. ac_start_date a \<noteq> None \<Longrightarrow> py_sorted start_or_empty acts = Inr (sort_key start_or_empty acts)"
  by (auto simp: py_sorted_def list_all_iff is_time_def start_or_empty_def split: option.splits)

text \<open>All days between the first and the last activity, and what they were before.\<close>

definition days_filled :: "Project \<Rightarrow> (string \<times> DayMeta) list \<Rightarrow> bool" where
  "days_filled p old =
     ((\<forall>a\<in>set (activity_days p). \<forall>b\<in>set (activity_days p). \<forall>d. a \<le> d \<and> d \<le> b \<longrightarrow>
        map_of (pj_day_meta p) (isoformat (ord2ymd d)) \<noteq> None) \<and>
      (\<forall>k. map_of old k \<noteq> None \<longrightarrow> map_of (pj_day_meta p) k = map_of old k))"

lemma fill_day_gaps_ok:
  assumes "\<forall>d\<in>set (activity_days p). d < MAX_ORD"
  shows "\<exists>days. fill_day_gaps p = Inr (p\<lparr>pj_day_meta := days\<rparr>) \<and> days_filled (p\<lparr>pj_day_meta := days\<rparr>) (pj_day_meta p)"
proof (cases "activity_days p = []")
  case True
  then have "fill_day_gaps p = Inr (p\<lparr>pj_day_meta := pj_day_meta p\<rparr>)" by (simp add: fill_day_gaps_def)
  moreover have "days_filled (p\<lparr>pj_day_meta := pj_day_meta p\<rparr>) (pj_day_meta p)"
    using True by (simp add: days_filled_def)
  ultimately show ?thesis by blast
next
  case False
  let ?D = "set (activity_days p)"
  have "Max ?D < MAX_ORD" using False assms by simp
  then obtain days where days: "fill_days (Min ?D) (Max ?D) (pj_day_meta p) = Inr days"
    using fill_days_total by blast
  have "map_of days (isoformat (ord2ymd d)) \<noteq> None" if "a \<in> ?D" "b \<in> ?D" "a \<le> d" "d \<le> b" for a b d
  proof -
    have "Min ?D \<le> d" "d \<le> Max ?D" using that by (auto intro: order_trans [OF Min_le] order_trans [OF _ Max_ge])
    then show ?thesis using fill_days_fills [OF days] by blast
  qed
  moreover have "map_of days k = map_of (pj_day_meta p) k" if "map_of (pj_day_meta p) k \<noteq> None" for k
    using fill_days_fills [OF days] that by blast
  moreover have "activity_days (p\<lparr>pj_day_meta := days\<rparr>) = activity_days p" by (simp add: activity_days_def)
  ultimately have "days_filled (p\<lparr>pj_day_meta := days\<rparr>) (pj_day_meta p)" unfolding days_filled_def by simp
  then show ?thesis using days False by (auto simp: fill_day_gaps_def)
qed

subsection \<open>Properties\<close>



text \<open>A new activity goes to its chronological place: when the dated activity items of the trip are in
  order of their starts, they are in order after the item of the new activity is inserted where
  \<open>_chronological_insert_pos\<close> says; it comes behind the items of the same start, and the items that
  are not activities, or have no start, keep their places relative to the others.\<close>

theorem insertion_is_chronological:
  assumes "sorted (dated m its)" "map_of m (ac_id act) = Some act"
  shows "sorted (dated m (insert_at (chronological_insert_pos act m its) (activity_item (ac_id act)) its)) \<and>
    delete_at (chronological_insert_pos act m its)
      (insert_at (chronological_insert_pos act m its) (activity_item (ac_id act)) its) = its \<and>
    (\<forall>start. ac_start_date act = Some start \<longrightarrow>
      (\<forall>t\<in>set (dated m (drop (chronological_insert_pos act m its) its)). start < t))"
proof (intro conjI allI impI)
  show "sorted (dated m (insert_at (chronological_insert_pos act m its) (activity_item (ac_id act)) its))"
    by (rule insert_in_order [OF assms])
  have pos: "insert_pos_loop m start 0 its 0 \<le> length its \<and>
      (\<forall>t\<in>set (dated m (drop (insert_pos_loop m start 0 its 0) its)). start < t)" for start
  proof -
    obtain k where "k \<le> length its" "insert_pos_loop m start 0 its 0 = (if k = 0 then 0 else 0 + k)"
      "\<forall>t\<in>set (dated m (drop k its)). start < t" using insert_pos_loop_spec [of its m start 0 0] by blast
    then show ?thesis by (cases "k = 0") simp_all
  qed
  have le: "chronological_insert_pos act m its \<le> length its"
    using pos by (simp add: chronological_insert_pos_def split: option.splits)
  then show "delete_at (chronological_insert_pos act m its)
      (insert_at (chronological_insert_pos act m its) (activity_item (ac_id act)) its) = its" by simp
  show "\<forall>t\<in>set (dated m (drop (chronological_insert_pos act m its) its)). start < t"
    if "ac_start_date act = Some start" for start
    using pos [of start] that by (simp add: chronological_insert_pos_def)
qed

theorem insertion_is_chronological_witness:
  "chronological_insert_pos
     \<lparr>ac_id = Some 3, ac_name = ''c'', ac_type = ''Run'', ac_start_date = Some 15, ac_local_date = (2024, 5, 1),
      ac_strava_id = None, ac_source = Some ''gpx''\<rparr>
     [(Some 3, \<lparr>ac_id = Some 3, ac_name = ''c'', ac_type = ''Run'', ac_start_date = Some 15, ac_local_date = (2024, 5, 1),
         ac_strava_id = None, ac_source = Some ''gpx''\<rparr>),
      (Some 1, \<lparr>ac_id = Some 1, ac_name = ''a'', ac_type = ''Run'', ac_start_date = Some 10, ac_local_date = (2024, 5, 1),
         ac_strava_id = None, ac_source = Some ''gpx''\<rparr>)]
     [activity_item (Some 1)] = 1 \<and>
   sorted (dated
     [(Some 3, \<lparr>ac_id = Some 3, ac_name = ''c'', ac_type = ''Run'', ac_start_date = Some 15, ac_local_date = (2024, 5, 1),
         ac_strava_id = None, ac_source = Some ''gpx''\<rparr>),
      (Some 1, \<lparr>ac_id = Some 1, ac_name = ''a'', ac_type = ''Run'', ac_start_date = Some 10, ac_local_date = (2024, 5, 1),
         ac_strava_id = None, ac_source = Some ''gpx''\<rparr>)]
     [activity_item (Some 1), activity_item (Some 3)])"
proof -
  let ?c = "\<lparr>ac_id = Some 3, ac_name = ''c'', ac_type = ''Run'', ac_start_date = Some 15, ac_local_date = (2024, 5, 1),
         ac_strava_id = None, ac_source = Some ''gpx''\<rparr>"
  let ?m = "[(Some 3, ?c),
      (Some 1, \<lparr>ac_id = Some 1, ac_name = ''a'', ac_type = ''Run'', ac_start_date = Some 10, ac_local_date = (2024, 5, 1),
         ac_strava_id = None, ac_source = Some ''gpx''\<rparr>)]"
  have pos: "chronological_insert_pos ?c ?m [activity_item (Some 1)] = 1" by code_simp
  have "sorted (dated ?m [activity_item (Some 1)])" by code_simp
  then have "sorted (dated ?m (insert_at 1 (activity_item (Some 3)) [activity_item (Some 1)]))"
    using insertion_is_chronological [of ?m "[activity_item (Some 1)]" ?c] unfolding pos by simp
  then show ?thesis using pos by (simp add: insert_at_def)
qed

text \<open>Sorting the activities leaves everything else where it is: every item that is not an activity keeps
  its index, and the activity items, the same ones, fill the other places in the order of a stable
  sort by their key. Sorting by name always succeeds; sorting by date raises \<open>TypeError\<close> when one
  activity item has a start and another names no activity of the trip.\<close>

theorem sorting_moves_activities_only:
  "(\<forall>key p p'. sort_activity_slots key p = Inr p' \<longrightarrow>
     (\<forall>i<length (pj_items p). \<not> is_activity_item (pj_items p ! i) \<longrightarrow> pj_items p' ! i = pj_items p ! i) \<and>
     filter is_activity_item (pj_items p') =
       sort_key (item_key key (pj_activity_map p')) (filter is_activity_item (pj_items p)) \<and>
     mset (pj_items p') = mset (pj_items p)) \<and>
   (\<forall>p. \<exists>p'. sort_activities_by_name p = Inr p') \<and>
   (\<forall>p it it' i a t. pj_activity_map p \<noteq> [] \<and> it \<in> set (pj_items p) \<and> it' \<in> set (pj_items p) \<and>
      is_activity_item it \<and> is_activity_item it' \<and> it_activity_id it = Some i \<and> i \<noteq> 0 \<and>
      map_of (pj_activity_map p) (Some i) = Some a \<and> ac_start_date a = Some t \<and>
      (\<forall>j. it_activity_id it' = Some j \<longrightarrow> map_of (pj_activity_map p) (Some j) = None) \<longrightarrow>
      sort_activities_by_date p = Inl TypeError)"
proof (intro conjI allI impI, goal_cases)
  case (1 key p p' i)
  then show ?case by (auto simp: sort_activity_slots_def Let_def refill_other elim!: rbind_InrE)
next
  case (2 key p p')
  let ?slots = "filter is_activity_item (pj_items p)"
  obtain m acts where a: "py_sorted (item_key key m) ?slots = Inr acts" and p': "p' = p\<lparr>pj_activity_map := m, pj_items := refill (pj_items p) acts\<rparr>"
    using 2 by (auto simp: sort_activity_slots_def Let_def elim!: rbind_InrE)
  have acts: "acts = sort_key (item_key key m) ?slots" using a by (auto simp: py_sorted_def split: if_splits)
  show ?case unfolding p' using acts by (simp add: refill_slots list_all_iff)
next
  case (3 key p p')
  let ?slots = "filter is_activity_item (pj_items p)"
  obtain m acts where a: "py_sorted (item_key key m) ?slots = Inr acts" and p': "p' = p\<lparr>pj_activity_map := m, pj_items := refill (pj_items p) acts\<rparr>"
    using 3 by (auto simp: sort_activity_slots_def Let_def elim!: rbind_InrE)
  have acts: "acts = sort_key (item_key key m) ?slots" using a by (auto simp: py_sorted_def split: if_splits)
  then have all: "list_all is_activity_item acts" and len: "length acts = length ?slots" by (simp_all add: list_all_iff)
  have "mset (refill (pj_items p) acts) = mset ?slots + mset (filter (\<lambda>it. \<not> is_activity_item it) (pj_items p))"
    using mset_filter_split [of "refill (pj_items p) acts" is_activity_item]
    unfolding refill_slots [OF len all] refill_rest [OF all] by (simp add: acts)
  then have "mset (refill (pj_items p) acts) = mset (pj_items p)"
    using mset_filter_split [of "pj_items p" is_activity_item] by (simp only:)
  moreover have "pj_items p' = refill (pj_items p) acts" by (simp add: p')
  ultimately show ?case by (simp only:)
next
  case (4 p)
  have "is_text (item_key (\<lambda>a. KText (py_lower (ac_name a))) m it)" for m it
    by (simp add: item_key_def is_text_def split: option.splits)
  then show ?case by (simp add: sort_activities_by_name_def sort_activity_slots_def Let_def py_sorted_def list_all_iff)
next
  case (5 p it it' i a t)
  let ?slots = "filter is_activity_item (pj_items p)" and ?k = "item_key start_key (pj_activity_map p)"
  have k: "?k it = KTime t" "?k it' = KText ''''"
    using 5 by (auto simp: item_key_def start_key_def split: option.splits)
  have mem: "it \<in> set ?slots" "it' \<in> set ?slots" using 5 by simp_all
  have "\<not> length ?slots \<le> 1"
  proof
    assume "length ?slots \<le> 1"
    then have "it = it'" using mem by (cases ?slots) auto
    then show False using k by simp
  qed
  moreover have "\<not> list_all (\<lambda>x. is_text (?k x)) ?slots" "\<not> list_all (\<lambda>x. is_time (?k x)) ?slots"
    using mem k unfolding list_all_iff is_text_def is_time_def by force+
  ultimately have "py_sorted ?k ?slots = Inl TypeError" by (simp add: py_sorted_def)
  then show ?case using 5 by (simp add: sort_activities_by_date_def sort_activity_slots_def Let_def)
qed

theorem sorting_moves_activities_only_witness:
  "sort_activities_by_date
     \<lparr>pj_items = [activity_item (Some 1), activity_item (Some 2)],
      pj_activities = [],
      pj_activity_map = [(Some 1, \<lparr>ac_id = Some 1, ac_name = ''a'', ac_type = ''Run'', ac_start_date = Some 10,
        ac_local_date = (2024, 5, 1), ac_strava_id = None, ac_source = None\<rparr>)],
      pj_day_meta = []\<rparr> = Inl TypeError"
  by (rule sorting_moves_activities_only [THEN conjunct2, THEN conjunct2, rule_format,
        of _ "activity_item (Some 1)" "activity_item (Some 2)" 1
          "\<lparr>ac_id = Some 1, ac_name = ''a'', ac_type = ''Run'', ac_start_date = Some 10,
            ac_local_date = (2024, 5, 1), ac_strava_id = None, ac_source = None\<rparr>" 10])
     (simp add: activity_item_def is_activity_item_def)

text \<open>
  A moved item ends at the index it was moved to (the last one at most), the others keep their order.
  Moved towards the end, it therefore comes behind the item that was at that index.
\<close>

lemma move_item_exact:
  assumes "0 \<le> i" "i < int (length (pj_items p))" "i \<noteq> j"
  defines "to' \<equiv> nat (max 0 (min (int (length (pj_items p)) - 1) j))"
  shows "pj_items (move_item i j p) ! to' = pj_items p ! nat i \<and>
    delete_at to' (pj_items (move_item i j p)) = delete_at (nat i) (pj_items p) \<and>
    mset (pj_items (move_item i j p)) = mset (pj_items p) \<and>
    (nat i < to' \<longrightarrow> pj_items (move_item i j p) ! (to' - 1) = pj_items p ! to')"
proof -
  let ?its = "pj_items p"
  have n: "nat i < length ?its" using assms(1,2) by simp
  have to': "to' < length ?its" using assms(1,2) unfolding to'_def by linarith
  have len: "length (delete_at (nat i) ?its) = length ?its - 1" using n by (simp add: delete_at_def)
  have le: "to' \<le> length (delete_at (nat i) ?its)" using to' len by simp
  have m: "pj_items (move_item i j p) = insert_at to' (?its ! nat i) (delete_at (nat i) ?its)"
    using assms(1-3) by (simp add: move_item_def Let_def to'_def)
  have "insert_at to' (?its ! nat i) (delete_at (nat i) ?its) ! (to' - 1) = ?its ! to'" if "nat i < to'"
    using that to' le by (simp add: insert_at_def delete_at_def nth_append)
  moreover have "insert_at to' (?its ! nat i) (delete_at (nat i) ?its) ! to' = ?its ! nat i"
    using le by (simp add: insert_at_def nth_append)
  moreover have "delete_at to' (insert_at to' (?its ! nat i) (delete_at (nat i) ?its)) = delete_at (nat i) ?its"
    by (rule delete_insert_at [OF le])
  moreover have "mset (insert_at to' (?its ! nat i) (delete_at (nat i) ?its)) = mset ?its"
    using mset_delete_at [OF n] by simp
  ultimately show ?thesis unfolding m by blast
qed

end
