(* ===== verification/ProjectAccess.thy ===== *)
theory ProjectAccess
  imports TripProject
begin

text \<open>
  \<open>api/project_access.py\<close>: who may do what on a trip, and how an index into the items a caller sees
  is turned into a place in the whole list; with the two edits of \<open>api/project_items.py\<close> and the
  insertion of \<open>api/memories.py\<close> that use it. The tables are lists of rows; a query returns the
  first row that matches.
\<close>

record DBProject =
  pr_id :: int
  pr_user_info_id :: int
  pr_name :: string

record DBProjectMember =
  pm_project_id :: int
  pm_user_info_id :: int
  pm_role :: string

record access_db =
  db_projects :: "DBProject list"
  db_members :: "DBProjectMember list"

datatype access_error = HTTPException nat string | KeyError string

definition ROLE_RANK :: "(string \<times> int) list" where
  "ROLE_RANK = [(''viewer'', 0), (''editor'', 1), (''co-owner'', 2), (''owner'', 3)]"

definition MIN_ROLE_DETAIL :: "(string \<times> string) list" where
  "MIN_ROLE_DETAIL =
     [(''editor'', ''You need editor access to do this''),
      (''co-owner'', ''Only the trip owner or a co-owner can do this''),
      (''owner'', ''Only the trip owner can do this'')]"

definition caller_role :: "access_db \<Rightarrow> int \<Rightarrow> int \<Rightarrow> string option" where
  "caller_role db project_id user =
     map_option pm_role (find (\<lambda>m. pm_project_id m = project_id \<and> pm_user_info_id m = user) (db_members db))"

definition is_member :: "access_db \<Rightarrow> int \<Rightarrow> int \<Rightarrow> bool" where
  "is_member db project_id user = (caller_role db project_id user \<noteq> None)"

text \<open>\<open>_ROLE_RANK.get(role, -1)\<close>.\<close>

definition rank_of :: "string option \<Rightarrow> int" where
  "rank_of role =
     (case role of None \<Rightarrow> -1 | Some r \<Rightarrow> (case map_of ROLE_RANK r of None \<Rightarrow> -1 | Some k \<Rightarrow> k))"

definition role_satisfies :: "string option \<Rightarrow> string \<Rightarrow> (access_error, bool) result" where
  "role_satisfies role min_role =
     (case map_of ROLE_RANK min_role of None \<Rightarrow> Inl (KeyError min_role) | Some k \<Rightarrow> Inr (rank_of role \<ge> k))"

definition effective_role :: "access_db \<Rightarrow> DBProject \<Rightarrow> int \<Rightarrow> string option" where
  "effective_role db row caller = (if pr_user_info_id row = caller then Some ''owner'' else caller_role db (pr_id row) caller)"

definition forbidden :: "string \<Rightarrow> access_error" where
  "forbidden min_role =
     HTTPException 403 (case map_of MIN_ROLE_DETAIL min_role of None \<Rightarrow> ''Forbidden'' | Some t \<Rightarrow> t)"

definition not_found :: access_error where
  "not_found = HTTPException 404 ''Project not found''"

definition require_role :: "access_db \<Rightarrow> DBProject \<Rightarrow> int \<Rightarrow> string \<Rightarrow> (access_error, unit) result" where
  "require_role db row caller min_role =
     rbind (role_satisfies (effective_role db row caller) min_role)
       (\<lambda>ok. if ok then Inr () else Inl (forbidden min_role))"

definition find_project :: "access_db \<Rightarrow> int \<Rightarrow> string \<Rightarrow> DBProject option" where
  "find_project db owner name = find (\<lambda>p. pr_user_info_id p = owner \<and> pr_name p = name) (db_projects db)"

definition resolve_project ::
  "access_db \<Rightarrow> int \<Rightarrow> string \<Rightarrow> int option \<Rightarrow> string \<Rightarrow> (access_error, DBProject) result" where
  "resolve_project db caller name owner_id min_role =
     (case owner_id of
        Some owner \<Rightarrow>
          if owner \<noteq> caller then
            (case find_project db owner name of
               None \<Rightarrow> Inl not_found
             | Some row \<Rightarrow>
                 (case caller_role db (pr_id row) caller of
                    None \<Rightarrow> Inl not_found
                  | Some role \<Rightarrow>
                      rbind (role_satisfies (Some role) min_role)
                        (\<lambda>ok. if ok then Inr row else Inl (forbidden min_role))))
          else (case find_project db caller name of None \<Rightarrow> Inl not_found | Some row \<Rightarrow> Inr row)
      | None \<Rightarrow> (case find_project db caller name of None \<Rightarrow> Inl not_found | Some row \<Rightarrow> Inr row))"

definition assert_project_access ::
  "access_db \<Rightarrow> int \<Rightarrow> int \<Rightarrow> string \<Rightarrow> (access_error, DBProject) result" where
  "assert_project_access db caller project_id min_role =
     (case find (\<lambda>p. pr_id p = project_id) (db_projects db) of
        None \<Rightarrow> Inl (HTTPException 403 ''Forbidden'')
      | Some row \<Rightarrow>
          rbind (role_satisfies (effective_role db row caller) min_role)
            (\<lambda>ok. if ok then Inr row else Inl (HTTPException 403 ''Forbidden'')))"

subsection \<open>The items a caller sees\<close>

text \<open>\<open>for pos, item in enumerate(items): ... positions.append(pos)\<close>.\<close>

fun positions_from :: "('a \<Rightarrow> bool) \<Rightarrow> nat \<Rightarrow> 'a list \<Rightarrow> nat list" where
  "positions_from keep pos [] = []"
| "positions_from keep pos (x # xs) =
     (if keep x then pos # positions_from keep (Suc pos) xs else positions_from keep (Suc pos) xs)"

definition visible_item :: "int \<Rightarrow> int \<Rightarrow> ProjectItem \<Rightarrow> bool" where
  "visible_item caller owner it =
     (if it_type it = ''journal'' then
        (case it_journal it of
           None \<Rightarrow> True
         | Some j \<Rightarrow> (if jr_user_info_id j = JNull then JInt owner else jr_user_info_id j) = JInt caller)
      else True)"

definition journal_visible_positions :: "ProjectItem list \<Rightarrow> int \<Rightarrow> int \<Rightarrow> nat list" where
  "journal_visible_positions its caller owner = positions_from (visible_item caller owner) 0 its"

record DBProjectItem =
  ir_id :: int
  ir_project_id :: int
  ir_position :: int
  ir_uid :: "string option"
  ir_item_type :: string
  ir_activity_id :: "int option"
  ir_segment_json :: stored_json
  ir_segment_id :: "json option"
  ir_memory_id :: "json option"
  ir_journal_id :: "json option"
  ir_encounter_id :: "json option"

text \<open>A journal row: its id and its author.\<close>

definition journal_author :: "(json \<times> int option) list \<Rightarrow> int \<Rightarrow> json \<Rightarrow> int" where
  "journal_author journals owner jid =
     (case map_of journals jid of None \<Rightarrow> owner | Some None \<Rightarrow> owner | Some (Some u) \<Rightarrow> u)"

definition visible_row :: "(json \<times> int option) list \<Rightarrow> int \<Rightarrow> int \<Rightarrow> DBProjectItem \<Rightarrow> bool" where
  "visible_row journals caller owner r =
     (if ir_item_type r = ''journal'' then
        (case ir_journal_id r of None \<Rightarrow> True | Some jid \<Rightarrow> journal_author journals owner jid = caller)
      else True)"

definition journal_visible_row_positions ::
  "(json \<times> int option) list \<Rightarrow> DBProjectItem list \<Rightarrow> int \<Rightarrow> int \<Rightarrow> nat list" where
  "journal_visible_row_positions journals rows caller owner = positions_from (visible_row journals caller owner) 0 rows"

definition translate_insert_after :: "nat list \<Rightarrow> int option \<Rightarrow> nat \<Rightarrow> nat" where
  "translate_insert_after visible_positions insert_after_index full =
     (case insert_after_index of
        None \<Rightarrow> full
      | Some i \<Rightarrow>
          if i \<ge> int (length visible_positions) then full
          else if i < 0 then 0
          else visible_positions ! nat i + 1)"

definition row_position_for_index :: "DBProjectItem list \<Rightarrow> nat \<Rightarrow> int" where
  "row_position_for_index rows index =
     (if index \<ge> length rows then (if rows = [] then 0 else ir_position (List.last rows) + 1)
      else ir_position (rows ! index))"

text \<open>The callers: shift every row at or behind the position, then add the new row there.\<close>

definition open_slot :: "int \<Rightarrow> DBProjectItem list \<Rightarrow> DBProjectItem list" where
  "open_slot insert_pos rows =
     map (\<lambda>r. if ir_position r \<ge> insert_pos then r\<lparr>ir_position := ir_position r + 1\<rparr> else r) rows"

definition insert_row :: "(json \<times> int option) list \<Rightarrow> int \<Rightarrow> int \<Rightarrow> int option \<Rightarrow> DBProjectItem \<Rightarrow> DBProjectItem list \<Rightarrow> DBProjectItem list" where
  "insert_row journals caller owner insert_after_index new rows =
     (let visible = journal_visible_row_positions journals rows caller owner;
          at' = translate_insert_after visible insert_after_index (length rows);
          insert_pos = row_position_for_index rows at' in
      open_slot insert_pos rows @ [new\<lparr>ir_position := insert_pos\<rparr>])"

subsection \<open>Removing and moving by visible index\<close>

definition remove_visible :: "int \<Rightarrow> int \<Rightarrow> int \<Rightarrow> Project \<Rightarrow> (access_error, Project) result" where
  "remove_visible caller owner index p =
     (let visible = journal_visible_positions (pj_items p) caller owner in
      if index < 0 \<or> index \<ge> int (length visible) then Inl (HTTPException 422 ''Index out of range'')
      else Inr (remove_item (int (visible ! nat index)) p))"

definition move_visible :: "int \<Rightarrow> int \<Rightarrow> int \<Rightarrow> int \<Rightarrow> Project \<Rightarrow> Project" where
  "move_visible caller owner from_index to_index p =
     (let visible = journal_visible_positions (pj_items p) caller owner in
      if 0 \<le> from_index \<and> from_index < int (length visible) then
        let to' = max 0 (min (int (length visible) - 1) to_index) in
        move_item (int (visible ! nat from_index)) (int (visible ! nat to')) p
      else p)"

subsection \<open>Positions and projections\<close>

lemma length_positions_from [simp]: "length (positions_from keep k xs) = length (filter keep xs)"
  by (induction xs arbitrary: k) auto

text \<open>The \<open>i\<close>-th position is that of the \<open>i\<close>-th kept element, with \<open>i\<close> kept ones before it.\<close>

lemma positions_from_nth:
  "i < length (filter keep xs) \<Longrightarrow>
     k \<le> positions_from keep k xs ! i \<and> positions_from keep k xs ! i - k < length xs \<and>
     keep (xs ! (positions_from keep k xs ! i - k)) \<and>
     length (filter keep (take (positions_from keep k xs ! i - k) xs)) = i"
proof (induction xs arbitrary: k i)
  case (Cons x xs)
  have step: "Suc k \<le> positions_from keep (Suc k) xs ! j \<and> positions_from keep (Suc k) xs ! j - Suc k < length xs \<and>
     keep (xs ! (positions_from keep (Suc k) xs ! j - Suc k)) \<and>
     length (filter keep (take (positions_from keep (Suc k) xs ! j - Suc k) xs)) = j"
    if "j < length (filter keep xs)" for j using Cons.IH [OF that] .
  have shift: "q - k = Suc (q - Suc k)" if "Suc k \<le> q" for q using that by simp
  show ?case
  proof (cases "keep x \<and> i = 0")
    case True
    then show ?thesis by simp
  next
    case False
    define j where "j = (if keep x then i - 1 else i)"
    have j: "j < length (filter keep xs)" using Cons.prems False by (auto simp: j_def split: if_splits)
    have q: "positions_from keep k (x # xs) ! i = positions_from keep (Suc k) xs ! j"
      using False by (cases i) (auto simp: j_def)
    show ?thesis
      unfolding q using step [OF j] shift [of "positions_from keep (Suc k) xs ! j"] False
      by (auto simp: j_def split: if_splits)
  qed
qed simp

lemma filter_insert_at:
  "keep x \<Longrightarrow> filter keep (insert_at p x xs) = insert_at (length (filter keep (take p xs))) x (filter keep xs)"
proof -
  assume "keep x"
  have "filter keep xs = filter keep (take p xs) @ filter keep (drop p xs)"
    by (metis append_take_drop_id filter_append)
  then show ?thesis using \<open>keep x\<close> by (simp add: insert_at_def)
qed

lemma filter_delete_at:
  assumes "p < length xs" "keep (xs ! p)"
  shows "filter keep (delete_at p xs) = delete_at (length (filter keep (take p xs))) (filter keep xs)"
proof -
  have "xs = take p xs @ xs ! p # drop (Suc p) xs" using assms(1) by (rule id_take_nth_drop)
  then have "filter keep xs = filter keep (take p xs) @ xs ! p # filter keep (drop (Suc p) xs)"
    using assms(2) by (metis filter.simps(2) filter_append)
  then show ?thesis by (simp add: delete_at_def)
qed

lemma filter_out_insert_at: "keep x \<Longrightarrow> filter (\<lambda>y. \<not> keep y) (insert_at p x xs) = filter (\<lambda>y. \<not> keep y) xs"
proof -
  assume "keep x"
  have "filter (\<lambda>y. \<not> keep y) xs = filter (\<lambda>y. \<not> keep y) (take p xs) @ filter (\<lambda>y. \<not> keep y) (drop p xs)"
    by (metis append_take_drop_id filter_append)
  then show ?thesis using \<open>keep x\<close> by (simp add: insert_at_def)
qed

lemma filter_out_delete_at:
  "p < length xs \<Longrightarrow> keep (xs ! p) \<Longrightarrow> filter (\<lambda>y. \<not> keep y) (delete_at p xs) = filter (\<lambda>y. \<not> keep y) xs"
  using filter_out_insert_at [of keep "xs ! p" p "delete_at p xs"] insert_delete_at [of p xs] by simp

text \<open>What \<open>list.pop\<close> and \<open>list.insert\<close> make of a move, on any list.\<close>

definition move_in :: "nat \<Rightarrow> nat \<Rightarrow> 'a list \<Rightarrow> 'a list" where
  "move_in i j xs = (if i = j then xs else insert_at j (xs ! i) (delete_at i xs))"

text \<open>A move between two kept places is, for whoever sees the kept elements only, a move between their indices.\<close>

lemma nth_filter_position:
  assumes "q < length xs" "keep (xs ! q)"
  shows "filter keep xs ! length (filter keep (take q xs)) = xs ! q"
proof -
  have "xs = take q xs @ xs ! q # drop (Suc q) xs" using assms(1) by (rule id_take_nth_drop)
  then have "filter keep xs = filter keep (take q xs) @ xs ! q # filter keep (drop (Suc q) xs)"
    using assms(2) by (metis filter.simps(2) filter_append)
  then show ?thesis by (simp add: nth_append)
qed

lemma filter_take_mono: "p \<le> q \<Longrightarrow> length (filter keep (take p xs)) \<le> length (filter keep (take q xs))"
proof -
  assume "p \<le> q"
  then have "take q xs = take p xs @ take (q - p) (drop p xs)" by (metis le_add_diff_inverse take_add)
  then show ?thesis by simp
qed

lemma filter_take_Suc: "p < length xs \<Longrightarrow> keep (xs ! p) \<Longrightarrow>
   length (filter keep (take (Suc p) xs)) = Suc (length (filter keep (take p xs)))"
  by (simp add: take_Suc_conv_app_nth)

lemma filter_move_in:
  assumes p: "p < length xs" "keep (xs ! p)" and q: "q < length xs" "keep (xs ! q)"
  shows "filter keep (move_in p q xs) =
      move_in (length (filter keep (take p xs))) (length (filter keep (take q xs))) (filter keep xs) \<and>
    filter (\<lambda>y. \<not> keep y) (move_in p q xs) = filter (\<lambda>y. \<not> keep y) xs"
proof (cases "p = q")
  case True
  then show ?thesis by (simp add: move_in_def)
next
  case False
  let ?i = "length (filter keep (take p xs))" and ?j = "length (filter keep (take q xs))"
  have ne: "?i \<noteq> ?j"
  proof (cases "p < q")
    case True
    then have "Suc ?i \<le> ?j" using filter_take_mono [of "Suc p" q keep xs] filter_take_Suc [of p xs keep, OF p] by simp
    then show ?thesis by simp
  next
    case False
    then have "Suc ?j \<le> ?i" using \<open>p \<noteq> q\<close> filter_take_mono [of "Suc q" p keep xs] filter_take_Suc [of q xs keep, OF q] by simp
    then show ?thesis by simp
  qed
  have count: "length (filter keep (take q (delete_at p xs))) = ?j"
  proof (cases "q < p")
    case True
    then show ?thesis using p by (simp add: delete_at_def min_def)
  next
    case False
    then have pq: "p < q" using \<open>p \<noteq> q\<close> by simp
    have "take q (delete_at p xs) = delete_at p (take (Suc q) xs)"
      using pq p q by (simp add: delete_at_def drop_take min_def)
    moreover have "length (filter keep (delete_at p (take (Suc q) xs))) = length (filter keep (take (Suc q) xs)) - 1"
    proof -
      have pt: "p < length (take (Suc q) xs)" "keep (take (Suc q) xs ! p)" using pq p q by auto
      have "mset (filter keep (take (Suc q) xs)) = add_mset (xs ! p) (mset (filter keep (delete_at p (take (Suc q) xs))))"
        using mset_delete_at [OF pt(1)] pt(2) pq by (metis filter_mset_add_mset mset_filter nth_take less_SucI)
      then show ?thesis by (metis diff_Suc_1 size_add_mset size_mset)
    qed
    ultimately show ?thesis using filter_take_Suc [of q xs keep, OF q] by simp
  qed
  have "filter keep (insert_at q (xs ! p) (delete_at p xs)) =
      insert_at ?j (filter keep xs ! ?i) (delete_at ?i (filter keep xs))"
    using filter_insert_at [of keep "xs ! p" q "delete_at p xs"] p filter_delete_at [of p xs keep, OF p]
    by (simp add: count nth_filter_position [of p xs keep, OF p])
  moreover have "filter (\<lambda>y. \<not> keep y) (insert_at q (xs ! p) (delete_at p xs)) = filter (\<lambda>y. \<not> keep y) xs"
    using filter_out_insert_at [of keep "xs ! p" q "delete_at p xs"] filter_out_delete_at [of p xs keep] p by simp
  ultimately show ?thesis using False ne by (simp add: move_in_def)
qed

lemma move_item_move_in:
  assumes "i < length (pj_items p)" "j < length (pj_items p)"
  shows "pj_items (move_item (int i) (int j) p) = move_in i j (pj_items p)"
proof -
  have "max 0 (min (int (length (pj_items p)) - 1) (int j)) = int j" using assms(2) by linarith
  then show ?thesis using assms by (simp add: move_item_def move_in_def Let_def)
qed

subsection \<open>Properties\<close>

text \<open>C28. Access follows the roles. A trip is resolved only for its owner or for a member whose role is at least
  the one asked for, and it is the trip of that owner and name; whoever is neither gets the same answer
  whether the trip exists or not; a role that allows something allows everything a lower one does, and
  the owner is allowed everything. The check by id grants exactly what the roles do.\<close>

theorem access_follows_roles:
  assumes "map_of ROLE_RANK min_role = Some k"
  shows "(\<forall>owner_id row. resolve_project db caller name owner_id min_role = Inr row \<longrightarrow>
      row \<in> set (db_projects db) \<and> pr_name row = name \<and>
      pr_user_info_id row = (case owner_id of None \<Rightarrow> caller | Some owner \<Rightarrow> owner) \<and>
      (pr_user_info_id row = caller \<or>
       (\<exists>m\<in>set (db_members db). pm_project_id m = pr_id row \<and> pm_user_info_id m = caller \<and> k \<le> rank_of (Some (pm_role m))))) \<and>
    (\<forall>owner row. owner \<noteq> caller \<and> find_project db owner name = Some row \<and> \<not> is_member db (pr_id row) caller \<longrightarrow>
      resolve_project db caller name (Some owner) min_role =
        resolve_project (db\<lparr>db_projects := []\<rparr>) caller name (Some owner) min_role) \<and>
    (\<forall>row weaker k'. map_of ROLE_RANK weaker = Some k' \<and> k' \<le> k \<and> require_role db row caller min_role = Inr () \<longrightarrow>
      require_role db row caller weaker = Inr ()) \<and>
    (\<forall>row. require_role db row (pr_user_info_id row) min_role = Inr ()) \<and>
    (\<forall>project_id row. assert_project_access db caller project_id min_role = Inr row \<longrightarrow>
      pr_id row = project_id \<and> require_role db row caller min_role = Inr ())"
proof (intro conjI allI impI, goal_cases)
  case (1 owner_id row)
  then show ?case
    by (auto simp: resolve_project_def find_project_def find_Some_iff split: option.splits if_splits elim!: rbind_InrE)
next
  case (2 owner_id row)
  then show ?case
    by (auto simp: resolve_project_def find_project_def find_Some_iff split: option.splits if_splits elim!: rbind_InrE)
next
  case (3 owner_id row)
  then show ?case
    by (auto simp: resolve_project_def find_project_def find_Some_iff split: option.splits if_splits elim!: rbind_InrE)
next
  case (4 owner_id row)
  have member: "\<exists>m\<in>set (db_members db). pm_project_id m = pid \<and> pm_user_info_id m = caller \<and> pm_role m = role"
    if "caller_role db pid caller = Some role" for pid role
    using that by (auto simp: caller_role_def find_Some_iff)
  show ?case
    using 4 assms member
    by (fastforce simp: resolve_project_def find_project_def find_Some_iff role_satisfies_def
        split: option.splits if_splits elim!: rbind_InrE)
next
  case (5 owner row)
  then show ?case by (simp add: resolve_project_def is_member_def find_project_def)
next
  case (6 row weaker k')
  then show ?case using assms by (auto simp: require_role_def role_satisfies_def split: if_splits)
next
  case (7 row)
  have "k \<le> 3" using assms by (auto simp: ROLE_RANK_def split: if_splits)
  then show ?case using assms by (simp add: require_role_def role_satisfies_def effective_role_def rank_of_def ROLE_RANK_def)
next
  case (8 project_id row)
  then show ?case
    by (auto simp: assert_project_access_def find_Some_iff split: option.splits if_splits elim!: rbind_InrE)
next
  case (9 project_id row)
  then show ?case
    by (auto simp: assert_project_access_def require_role_def split: option.splits if_splits elim!: rbind_InrE)
qed

theorem access_follows_roles_witness:
  "resolve_project \<lparr>db_projects = [\<lparr>pr_id = 1, pr_user_info_id = 10, pr_name = ''Alps''\<rparr>],
       db_members = [\<lparr>pm_project_id = 1, pm_user_info_id = 20, pm_role = ''viewer''\<rparr>]\<rparr> 30 ''Alps'' (Some 10) ''editor'' =
   resolve_project \<lparr>db_projects = [],
       db_members = [\<lparr>pm_project_id = 1, pm_user_info_id = 20, pm_role = ''viewer''\<rparr>]\<rparr> 30 ''Alps'' (Some 10) ''editor''"
proof -
  let ?db = "\<lparr>db_projects = [\<lparr>pr_id = 1, pr_user_info_id = 10, pr_name = ''Alps''\<rparr>],
       db_members = [\<lparr>pm_project_id = 1, pm_user_info_id = 20, pm_role = ''viewer''\<rparr>]\<rparr>"
  have "map_of ROLE_RANK ''editor'' = Some 1" by code_simp
  from access_follows_roles [OF this, of ?db 30 "''Alps''", THEN conjunct2, THEN conjunct1, rule_format,
      of 10 "\<lparr>pr_id = 1, pr_user_info_id = 10, pr_name = ''Alps''\<rparr>"]
  show ?thesis by (simp add: find_project_def is_member_def caller_role_def)
qed

lemma visible_position:
  assumes "i < length (filter (visible_item caller owner) its)"
  defines "q \<equiv> journal_visible_positions its caller owner ! i"
  shows "q < length its" "visible_item caller owner (its ! q)"
    "length (filter (visible_item caller owner) (take q its)) = i"
  using positions_from_nth [OF assms(1), of 0] unfolding q_def journal_visible_positions_def by simp_all

lemma move_visible_view:
  assumes "0 \<le> i" "i < int (length (filter (visible_item caller owner) (pj_items p)))"
  shows "filter (visible_item caller owner) (pj_items (move_visible caller owner i j p)) =
       move_in (nat i) (nat (max 0 (min (int (length (filter (visible_item caller owner) (pj_items p))) - 1) j)))
         (filter (visible_item caller owner) (pj_items p)) \<and>
     filter (\<lambda>it. \<not> visible_item caller owner it) (pj_items (move_visible caller owner i j p)) =
       filter (\<lambda>it. \<not> visible_item caller owner it) (pj_items p)"
proof -
  let ?V = "visible_item caller owner"
  let ?n = "length (filter ?V (pj_items p))"
  define j' where "j' = nat (max 0 (min (int ?n - 1) j))"
  have i: "nat i < ?n" and j': "j' < ?n" using assms unfolding j'_def by linarith+
  note p = visible_position [OF i] and q = visible_position [OF j']
  have m: "pj_items (move_visible caller owner i j p) =
      move_in (journal_visible_positions (pj_items p) caller owner ! nat i)
        (journal_visible_positions (pj_items p) caller owner ! j') (pj_items p)"
    using assms move_item_move_in [OF p(1) q(1)]
    by (simp add: move_visible_def Let_def j'_def journal_visible_positions_def)
  show ?thesis using filter_move_in [OF p(1,2) q(1,2)] unfolding m p(3) q(3) unfolding j'_def .
qed

text \<open>C29. A companion edits what they see. Removing or moving by index acts on the caller's own view as the
  same edit of that list: the item at that index goes, or moves to the other index (clamped to the
  list), and the entries of others, which the caller does not see, stay as they are and in their
  order. An index outside the view is refused, or does nothing.\<close>

theorem edits_act_on_the_view:
  "(\<forall>index p. 0 \<le> index \<and> index < int (length (filter (visible_item caller owner) (pj_items p))) \<longrightarrow>
     (\<exists>p'. remove_visible caller owner index p = Inr p' \<and>
        filter (visible_item caller owner) (pj_items p') =
          delete_at (nat index) (filter (visible_item caller owner) (pj_items p)) \<and>
        filter (\<lambda>it. \<not> visible_item caller owner it) (pj_items p') =
          filter (\<lambda>it. \<not> visible_item caller owner it) (pj_items p))) \<and>
   (\<forall>index p. \<not> (0 \<le> index \<and> index < int (length (filter (visible_item caller owner) (pj_items p)))) \<longrightarrow>
     remove_visible caller owner index p = Inl (HTTPException 422 ''Index out of range'') \<and>
     (\<forall>to_index. move_visible caller owner index to_index p = p)) \<and>
   (\<forall>i j p. 0 \<le> i \<and> i < int (length (filter (visible_item caller owner) (pj_items p))) \<longrightarrow>
     filter (visible_item caller owner) (pj_items (move_visible caller owner i j p)) =
       move_in (nat i) (nat (max 0 (min (int (length (filter (visible_item caller owner) (pj_items p))) - 1) j)))
         (filter (visible_item caller owner) (pj_items p)) \<and>
     filter (\<lambda>it. \<not> visible_item caller owner it) (pj_items (move_visible caller owner i j p)) =
       filter (\<lambda>it. \<not> visible_item caller owner it) (pj_items p))"
proof (intro conjI allI impI, goal_cases)
  case (1 index p)
  let ?V = "visible_item caller owner" and ?i = "nat index"
  let ?q = "journal_visible_positions (pj_items p) caller owner ! ?i"
  have i: "?i < length (filter ?V (pj_items p))" using 1 by linarith
  note q = visible_position [OF i]
  have "remove_visible caller owner index p = Inr (p\<lparr>pj_items := delete_at ?q (pj_items p)\<rparr>)"
    using 1 q(1) by (simp add: remove_visible_def remove_item_def Let_def journal_visible_positions_def)
  then show ?case
    using filter_delete_at [of ?q "pj_items p" ?V, OF q(1,2)] filter_out_delete_at [of ?q "pj_items p" ?V, OF q(1,2)] q(3)
    by simp
next
  case (2 index p)
  then show ?case by (auto simp: remove_visible_def Let_def journal_visible_positions_def)
next
  case (3 index p to_index)
  then show ?case by (auto simp: move_visible_def Let_def journal_visible_positions_def)
next
  case (4 i j p)
  then show ?case using move_visible_view [of i caller owner p j] by simp
next
  case (5 i j p)
  then show ?case using move_visible_view [of i caller owner p j] by simp
qed

theorem edits_act_on_the_view_witness:
  "filter (visible_item 1 1) (pj_items (move_visible 1 1 0 1
     \<lparr>pj_items = [activity_item (Some 5), (activity_item None)\<lparr>it_type := ''journal'',
         it_journal := Some \<lparr>jr_id = JInt 1, jr_project_id = JNull, jr_user_info_id = JInt 2, jr_date = JStr '''', jr_time = JNull,
           jr_description = JNull, jr_photos = JList [], jr_geo_mode = JNull, jr_lat = JNull, jr_lon = JNull\<rparr>\<rparr>, activity_item (Some 6)],
      pj_activities = [], pj_activity_map = [], pj_day_meta = []\<rparr>)) = [activity_item (Some 6), activity_item (Some 5)]"
proof -
  let ?p = "\<lparr>pj_items = [activity_item (Some 5), (activity_item None)\<lparr>it_type := ''journal'',
         it_journal := Some \<lparr>jr_id = JInt 1, jr_project_id = JNull, jr_user_info_id = JInt 2, jr_date = JStr '''', jr_time = JNull,
           jr_description = JNull, jr_photos = JList [], jr_geo_mode = JNull, jr_lat = JNull, jr_lon = JNull\<rparr>\<rparr>, activity_item (Some 6)],
      pj_activities = [], pj_activity_map = [], pj_day_meta = []\<rparr>"
  have v: "filter (visible_item 1 1) (pj_items ?p) = [activity_item (Some 5), activity_item (Some 6)]"
    by (simp add: visible_item_def activity_item_def)
  show ?thesis
    using edits_act_on_the_view [of 1 1, THEN conjunct2, THEN conjunct2, rule_format, of 0 ?p 1, unfolded v]
    by (simp add: move_in_def insert_at_def delete_at_def)
qed

subsection \<open>Inserting a row at a visible index\<close>

definition shifted :: "int \<Rightarrow> DBProjectItem \<Rightarrow> DBProjectItem" where
  "shifted v r = (if ir_position r \<ge> v then r\<lparr>ir_position := ir_position r + 1\<rparr> else r)"

lemma open_slot_map: "open_slot v rows = map (shifted v) rows"
  by (simp add: open_slot_def shifted_def)

lemma visible_row_position [simp]:
  "visible_row journals caller owner (r\<lparr>ir_position := x\<rparr>) = visible_row journals caller owner r"
  by (cases "ir_item_type r = ''journal''") (simp_all add: visible_row_def)

lemma shifted_simps [simp]:
  "ir_id (shifted v r) = ir_id r" "visible_row journals caller owner (shifted v r) = visible_row journals caller owner r"
  "ir_position (shifted v r) = (if ir_position r \<ge> v then ir_position r + 1 else ir_position r)"
  by (simp_all add: shifted_def)

lemma insert_at_map: "map f (insert_at i x xs) = insert_at i (f x) (map f xs)"
  by (simp add: insert_at_def take_map drop_map)

text \<open>Rows before the place have smaller positions than the one the new row is given, the others do not.\<close>

lemma row_position_splits:
  assumes "sorted_wrt (<) (map ir_position rows)" "k \<le> length rows"
  shows "(\<forall>r\<in>set (take k rows). ir_position r < row_position_for_index rows k) \<and>
    (\<forall>r\<in>set (drop k rows). row_position_for_index rows k \<le> ir_position r)"
proof (cases "k < length rows")
  case True
  have split: "rows = take k rows @ rows ! k # drop (Suc k) rows" using True by (rule id_take_nth_drop)
  have "sorted_wrt (<) (map ir_position (take k rows @ rows ! k # drop (Suc k) rows))" using assms(1) split by simp
  moreover have "drop k rows = rows ! k # drop (Suc k) rows" using True by (simp add: Cons_nth_drop_Suc)
  ultimately show ?thesis using True by (auto simp: row_position_for_index_def sorted_wrt_append less_imp_le)
next
  case False
  then have k: "k = length rows" using assms(2) by simp
  show ?thesis
  proof (cases "rows = []")
    case True
    then show ?thesis using k by simp
  next
    case False
    have "rows = butlast rows @ [List.last rows]" using False by simp
    then have "sorted_wrt (<) (map ir_position (butlast rows) @ [ir_position (List.last rows)])"
      using assms(1) by (metis list.simps(8,9) map_append)
    then have "ir_position r \<le> ir_position (List.last rows)" if "r \<in> set rows" for r
      using that \<open>rows = butlast rows @ [List.last rows]\<close>
      by (auto simp: sorted_wrt_append) (metis (no_types, lifting) Un_iff empty_iff less_imp_le list.set(1) order_refl set_ConsD set_append)
    then show ?thesis using False k by (auto simp: row_position_for_index_def zle_add1_eq_le)
  qed
qed

lemma insert_row_order:
  assumes srt: "sorted_wrt (<) (map ir_position rows)" and k: "k \<le> length rows"
  defines "v \<equiv> row_position_for_index rows k"
  shows "sort_key ir_position (open_slot v rows @ [new\<lparr>ir_position := v\<rparr>]) =
    insert_at k (new\<lparr>ir_position := v\<rparr>) (map (shifted v) rows)"
proof -
  let ?new = "new\<lparr>ir_position := v\<rparr>"
  let ?ys = "insert_at k ?new (map (shifted v) rows)"
  have lt: "\<forall>r\<in>set (take k rows). ir_position r < v" and ge: "\<forall>r\<in>set (drop k rows). v \<le> ir_position r"
    using row_position_splits [OF srt k] unfolding v_def by auto
  have parts: "sorted_wrt (<) (map ir_position (take k rows))" "sorted_wrt (<) (map ir_position (drop k rows))"
    using srt by (metis append_take_drop_id map_append sorted_wrt_append)+
  have t: "map ir_position (map (shifted v) (take k rows)) = map ir_position (take k rows)" using lt by auto
  have d: "map ir_position (map (shifted v) (drop k rows)) = map (\<lambda>r. ir_position r + 1) (drop k rows)" using ge by auto
  have "sorted_wrt (<) (map (\<lambda>r. ir_position r + 1) (drop k rows))"
    using parts(2) unfolding sorted_wrt_map by (rule sorted_wrt_mono_rel [rotated]) simp
  moreover have "map ir_position ?ys = map ir_position (take k rows) @ v # map (\<lambda>r. ir_position r + 1) (drop k rows)"
    unfolding insert_at_def take_map drop_map map_append list.map t d by simp
  moreover have "\<forall>x\<in>set (take k rows). \<forall>y\<in>set (drop k rows). ir_position x < ir_position y + 1"
    using lt ge by fastforce
  ultimately have strict: "sorted_wrt (<) (map ir_position ?ys)"
    using parts(1) lt ge by (auto simp: sorted_wrt_append zless_add1_eq order.order_iff_strict)
  have "mset (open_slot v rows @ [?new]) = mset ?ys" by (simp add: open_slot_map)
  moreover have "inj_on ir_position (set ?ys)" using strict by (metis strict_sorted_iff distinct_map)
  moreover have "sorted (map ir_position ?ys)" using strict by (simp add: strict_sorted_iff)
  ultimately show ?thesis by (metis sort_key_inj_key_eq set_mset_mset)
qed

text \<open>A new entry lands where its author asked. The rows of a trip read by position, inserting behind the
  \<open>insert_after_index\<close>-th of the rows the author sees puts the new row at exactly that place of their
  view (at the end without an index or beyond it, at the front for a negative one), although the
  positions in the table have gaps and rows of others lie between; nobody's rows change order.\<close>

theorem inserted_row_lands_in_view:
  assumes "sorted_wrt (<) (map ir_position rows)" "visible_row journals caller owner new"
  shows "map ir_id (filter (visible_row journals caller owner)
      (sort_key ir_position (insert_row journals caller owner insert_after_index new rows))) =
    (let seen = map ir_id (filter (visible_row journals caller owner) rows) in
     insert_at (case insert_after_index of None \<Rightarrow> length seen | Some i \<Rightarrow> nat (max 0 (min (int (length seen)) (i + 1))))
       (ir_id new) seen) \<and>
    (\<exists>k\<le>length rows. map ir_id (sort_key ir_position (insert_row journals caller owner insert_after_index new rows)) =
       insert_at k (ir_id new) (map ir_id rows))"
proof -
  let ?V = "visible_row journals caller owner"
  let ?vis = "journal_visible_row_positions journals rows caller owner"
  define k where "k = translate_insert_after ?vis insert_after_index (length rows)"
  define c where "c = (case insert_after_index of None \<Rightarrow> length (filter ?V rows)
      | Some i \<Rightarrow> nat (max 0 (min (int (length (filter ?V rows))) (i + 1))))"
  define v where "v = row_position_for_index rows k"
  have len: "length ?vis = length (filter ?V rows)" by (simp add: journal_visible_row_positions_def)
  have kc: "k \<le> length rows \<and> length (filter ?V (take k rows)) = c"
  proof (cases "\<exists>i. insert_after_index = Some i \<and> 0 \<le> i \<and> i < int (length (filter ?V rows))")
    case True
    then obtain i where i: "insert_after_index = Some i" "0 \<le> i" "nat i < length (filter ?V rows)" by fastforce
    have q: "?vis ! nat i < length rows" "?V (rows ! (?vis ! nat i))" "length (filter ?V (take (?vis ! nat i) rows)) = nat i"
      using positions_from_nth [OF i(3), of 0] unfolding journal_visible_row_positions_def by simp_all
    have lt: "i < int (length (filter ?V rows))" using i(2,3) by linarith
    have "k = Suc (?vis ! nat i)" using i lt len by (simp add: k_def translate_insert_after_def)
    moreover have "c = Suc (nat i)" using i lt by (simp add: c_def)
    ultimately show ?thesis using q filter_take_Suc [of "?vis ! nat i" rows ?V, OF q(1,2)] by simp
  next
    case False
    then consider "insert_after_index = None" | i where "insert_after_index = Some i" "i < 0"
      | i where "insert_after_index = Some i" "int (length (filter ?V rows)) \<le> i"
      by (cases insert_after_index) force+
    then show ?thesis using len by cases (simp_all add: k_def c_def translate_insert_after_def)
  qed
  have v: "?V (new\<lparr>ir_position := v\<rparr>)" using assms(2) by simp
  have order: "sort_key ir_position (insert_row journals caller owner insert_after_index new rows) =
      insert_at k (new\<lparr>ir_position := v\<rparr>) (map (shifted v) rows)"
    using insert_row_order [OF assms(1), of k new] kc by (simp add: insert_row_def Let_def k_def v_def)
  have "filter ?V (map (shifted v) xs) = map (shifted v) (filter ?V xs)" for xs
    by (simp add: filter_map comp_def)
  then have "map ir_id (filter ?V (insert_at k (new\<lparr>ir_position := v\<rparr>) (map (shifted v) rows))) =
      insert_at c (ir_id new) (map ir_id (filter ?V rows))"
    unfolding filter_insert_at [of ?V, OF v] insert_at_map using kc by (simp add: take_map comp_def)
  moreover have "map ir_id (insert_at k (new\<lparr>ir_position := v\<rparr>) (map (shifted v) rows)) = insert_at k (ir_id new) (map ir_id rows)"
    by (simp add: insert_at_map comp_def)
  ultimately show ?thesis unfolding order Let_def length_map c_def [symmetric] using kc by blast
qed

theorem inserted_row_lands_in_view_witness:
  "map ir_id (filter (visible_row [] 1 1) (sort_key ir_position
     (insert_row [] 1 1 (Some 0)
       \<lparr>ir_id = 9, ir_project_id = 1, ir_position = 0, ir_uid = Some ''n'', ir_item_type = ''memory'', ir_activity_id = None,
        ir_segment_json = NoText, ir_segment_id = None, ir_memory_id = Some (JInt 4), ir_journal_id = None, ir_encounter_id = None\<rparr>
       [\<lparr>ir_id = 7, ir_project_id = 1, ir_position = 0, ir_uid = Some ''a'', ir_item_type = ''memory'', ir_activity_id = None,
        ir_segment_json = NoText, ir_segment_id = None, ir_memory_id = Some (JInt 2), ir_journal_id = None, ir_encounter_id = None\<rparr>,
        \<lparr>ir_id = 8, ir_project_id = 1, ir_position = 3, ir_uid = Some ''b'', ir_item_type = ''memory'', ir_activity_id = None,
        ir_segment_json = NoText, ir_segment_id = None, ir_memory_id = Some (JInt 3), ir_journal_id = None, ir_encounter_id = None\<rparr>]))) = [7, 9, 8]"
  by (subst inserted_row_lands_in_view [THEN conjunct1]) (simp_all add: visible_row_def Let_def insert_at_def)

end
