(* ===== verification/ItemRows.thy ===== *)
theory ItemRows
  imports ProjectAccess
begin

text \<open>
  \<open>src/project/repo_items.py\<close>: how the timeline of a trip is kept in rows, saved as a difference against
  what is stored, and how one segment is written or deleted without a full save; with the lock counter of
  \<open>src/project/repo_core.py\<close> they advance. Primary keys come from the database and new uids from a
  sequence of draws; an \<open>UPDATE\<close> or \<open>DELETE\<close> by key acts on the rows with that key.
\<close>

datatype row_error = AttributeError | ValueError

record trip_db =
  td_rows :: "DBProjectItem list"
  td_locks :: "(int \<times> int) list"

definition bump_lock_version :: "int \<Rightarrow> trip_db \<Rightarrow> trip_db" where
  "bump_lock_version pid db = db\<lparr>td_locks := map (\<lambda>(p, v). (p, if p = pid then v + 1 else v)) (td_locks db)\<rparr>"

text \<open>A value in a nullable column.\<close>

definition col :: "json \<Rightarrow> json option" where
  "col v = (if v = JNull then None else Some v)"

text \<open>The columns of an item, set on a row; \<open>None\<close> when a segment item has no segment.\<close>

definition row_values :: "ProjectItem \<Rightarrow> int \<Rightarrow> DBProjectItem \<Rightarrow> DBProjectItem option" where
  "row_values it pos r =
     (let segment_col = (if it_type it = ''segment'' then
                           map_option (\<lambda>s. Text (JDict (segment_to_dict s))) (it_segment it)
                         else Some NoText) in
      map_option
        (\<lambda>sj. r\<lparr>ir_position := pos, ir_item_type := it_type it,
                ir_activity_id := (if it_type it = ''activity'' then it_activity_id it else None),
                ir_segment_json := sj,
                ir_segment_id := (if it_type it = ''segment'' then
                                    (case it_segment it of
                                       None \<Rightarrow> None
                                     | Some s \<Rightarrow> if truthy (sg_id s) then Some (sg_id s) else None)
                                  else None),
                ir_memory_id := (if it_type it = ''memory'' then Option.bind (it_memory it) (\<lambda>m. col (mm_id m)) else None),
                ir_journal_id := (if it_type it = ''journal'' then Option.bind (it_journal it) (\<lambda>j. col (jr_id j)) else None),
                ir_encounter_id := (if it_type it = ''encounter'' then Option.bind (it_encounter it) (\<lambda>e. col (en_id e)) else None)\<rparr>)
        segment_col)"

subsection \<open>One segment\<close>

definition parsed_or_empty :: "stored_json \<Rightarrow> json option" where
  "parsed_or_empty t = (case t of NoText \<Rightarrow> Some (JDict []) | BadText \<Rightarrow> None | Text j \<Rightarrow> Some j)"

text \<open>The scan for a row written before the column existed; \<open>Inl\<close> when a text is not an object.\<close>

fun scan_segments :: "DBProjectItem list \<Rightarrow> string \<Rightarrow> (row_error, DBProjectItem option) result" where
  "scan_segments [] seg_id = Inr None"
| "scan_segments (r # rs) seg_id =
     (case parsed_or_empty (ir_segment_json r) of
        None \<Rightarrow> scan_segments rs seg_id
      | Some (JDict d) \<Rightarrow> if dget d ''id'' = JStr seg_id then Inr (Some r) else scan_segments rs seg_id
      | Some _ \<Rightarrow> Inl AttributeError)"

definition update_row :: "int \<Rightarrow> (DBProjectItem \<Rightarrow> DBProjectItem) \<Rightarrow> DBProjectItem list \<Rightarrow> DBProjectItem list" where
  "update_row rid f rows = map (\<lambda>r. if ir_id r = rid then f r else r) rows"

definition segment_row ::
  "int \<Rightarrow> string \<Rightarrow> trip_db \<Rightarrow> (row_error, DBProjectItem option \<times> trip_db) result" where
  "segment_row pid seg_id db =
     (case find (\<lambda>r. ir_project_id r = pid \<and> ir_segment_id r = Some (JStr seg_id)) (td_rows db) of
        Some r \<Rightarrow> Inr (Some r, db)
      | None \<Rightarrow>
          rbind (scan_segments (filter (\<lambda>r. ir_project_id r = pid \<and> ir_item_type r = ''segment'' \<and> ir_segment_id r = None)
                                  (td_rows db)) seg_id)
            (\<lambda>found.
               case found of
                 None \<Rightarrow> Inr (None, db)
               | Some r \<Rightarrow>
                   let set_id = (\<lambda>x. x\<lparr>ir_segment_id := Some (JStr seg_id)\<rparr>) in
                   Inr (Some (set_id r), db\<lparr>td_rows := update_row (ir_id r) set_id (td_rows db)\<rparr>)))"

text \<open>\<open>data.update(fields)\<close>.\<close>

definition dict_update :: "(string \<times> json) list \<Rightarrow> (string \<times> json) list \<Rightarrow> (string \<times> json) list" where
  "dict_update d fs = foldl (\<lambda>acc (k, v). AList.update k v acc) d fs"

text \<open>The guards: \<open>None\<close> stands for the sentinel, no comparison asked for.\<close>

definition guard_ok :: "(string \<times> json) list \<Rightarrow> string \<Rightarrow> json option \<Rightarrow> bool" where
  "guard_ok d k expected = (case expected of None \<Rightarrow> True | Some v \<Rightarrow> dget d k = v)"

definition update_segment_fields ::
  "int \<Rightarrow> string \<Rightarrow> (string \<times> json) list \<Rightarrow> json option \<Rightarrow> json option \<Rightarrow> trip_db \<Rightarrow>
     (row_error, bool \<times> trip_db) result" where
  "update_segment_fields pid seg_id flds expect_status expect_started_at db =
     rbind (segment_row pid seg_id db) (\<lambda>(found, db1).
       case found of
         None \<Rightarrow> Inr (False, db1)
       | Some row \<Rightarrow>
           (case parsed_or_empty (ir_segment_json row) of
              None \<Rightarrow> Inl ValueError
            | Some (JDict d) \<Rightarrow>
                if guard_ok d ''route_status'' expect_status \<and> guard_ok d ''route_started_at'' expect_started_at then
                  Inr (True, bump_lock_version pid
                    (db1\<lparr>td_rows := update_row (ir_id row)
                       (\<lambda>r. r\<lparr>ir_segment_json := Text (JDict (dict_update d flds))\<rparr>) (td_rows db1)\<rparr>))
                else Inr (False, db1)
            | Some _ \<Rightarrow> Inl AttributeError))"

definition delete_segment_row :: "int \<Rightarrow> string \<Rightarrow> trip_db \<Rightarrow> (row_error, bool \<times> trip_db) result" where
  "delete_segment_row pid seg_id db =
     rbind (segment_row pid seg_id db) (\<lambda>(found, db1).
       case found of
         None \<Rightarrow> Inr (False, db1)
       | Some row \<Rightarrow>
           Inr (True, bump_lock_version pid (db1\<lparr>td_rows := filter (\<lambda>r. ir_id r \<noteq> ir_id row) (td_rows db1)\<rparr>)))"

subsection \<open>The whole list\<close>

definition existing_row :: "int \<Rightarrow> string \<Rightarrow> DBProjectItem list \<Rightarrow> DBProjectItem option" where
  "existing_row pid uid rows = find (\<lambda>r. ir_project_id r = pid \<and> ir_uid r = Some uid) rows"

text \<open>A row about to be inserted; its primary key is given by the database.\<close>

definition blank_row :: "int \<Rightarrow> string \<Rightarrow> DBProjectItem" where
  "blank_row pid uid =
     \<lparr>ir_id = 0, ir_project_id = pid, ir_position = 0, ir_uid = Some uid, ir_item_type = '''', ir_activity_id = None,
      ir_segment_json = NoText, ir_segment_id = None, ir_memory_id = None, ir_journal_id = None, ir_encounter_id = None\<rparr>"

record diffing =
  df_rows :: "DBProjectItem list"
  df_items :: "ProjectItem list"
  df_seen :: "string list"
  df_inserts :: "DBProjectItem list"
  df_draws :: nat

definition uid_for :: "(nat \<Rightarrow> string) \<Rightarrow> ProjectItem \<Rightarrow> diffing \<Rightarrow> string \<times> nat" where
  "uid_for fresh it s =
     (case it_uid it of
        None \<Rightarrow> (fresh (df_draws s), Suc (df_draws s))
      | Some u \<Rightarrow> if u = '''' \<or> u \<in> set (df_seen s) then (fresh (df_draws s), Suc (df_draws s)) else (u, df_draws s))"

definition diff_one :: "(nat \<Rightarrow> string) \<Rightarrow> int \<Rightarrow> DBProjectItem list \<Rightarrow> ProjectItem \<Rightarrow> diffing \<Rightarrow> diffing option" where
  "diff_one fresh pid stored it s =
     (let (uid, n) = uid_for fresh it s;
          pos = int (length (df_items s));
          s1 = s\<lparr>df_items := df_items s @ [it\<lparr>it_uid := Some uid\<rparr>], df_seen := uid # df_seen s, df_draws := n\<rparr> in
      case existing_row pid uid stored of
        None \<Rightarrow> map_option (\<lambda>r. s1\<lparr>df_inserts := df_inserts s @ [r]\<rparr>) (row_values it pos (blank_row pid uid))
      | Some row \<Rightarrow>
          map_option (\<lambda>_. s1\<lparr>df_rows := update_row (ir_id row) (\<lambda>r. the (row_values it pos r)) (df_rows s)\<rparr>)
            (row_values it pos row))"

fun diff_loop :: "(nat \<Rightarrow> string) \<Rightarrow> int \<Rightarrow> DBProjectItem list \<Rightarrow> ProjectItem list \<Rightarrow> diffing \<Rightarrow> diffing option" where
  "diff_loop fresh pid stored [] s = Some s"
| "diff_loop fresh pid stored (it # its) s =
     (case diff_one fresh pid stored it s of None \<Rightarrow> None | Some s' \<Rightarrow> diff_loop fresh pid stored its s')"

text \<open>The database numbers inserted rows from a key it has not used.\<close>

fun number_rows :: "int \<Rightarrow> DBProjectItem list \<Rightarrow> DBProjectItem list" where
  "number_rows n [] = []"
| "number_rows n (r # rs) = r\<lparr>ir_id := n\<rparr> # number_rows (n + 1) rs"

definition is_stale_row :: "int \<Rightarrow> DBProjectItem list \<Rightarrow> string list \<Rightarrow> DBProjectItem \<Rightarrow> bool" where
  "is_stale_row pid stored seen r =
     list_ex (\<lambda>x. ir_id x = ir_id r \<and> ir_project_id x = pid \<and> (case ir_uid x of None \<Rightarrow> False | Some u \<Rightarrow> u \<notin> set seen)) stored"

definition replace_items ::
  "(nat \<Rightarrow> string) \<Rightarrow> nat \<Rightarrow> int \<Rightarrow> int \<Rightarrow> ProjectItem list \<Rightarrow> DBProjectItem list \<Rightarrow>
     (DBProjectItem list \<times> ProjectItem list) option" where
  "replace_items fresh n next_id pid its stored =
     map_option
       (\<lambda>s. (filter (\<lambda>r. \<not> (ir_project_id r = pid \<and> ir_uid r = None))
               (filter (\<lambda>r. \<not> is_stale_row pid stored (df_seen s) r) (df_rows s))
             @ number_rows next_id (df_inserts s),
             df_items s))
       (diff_loop fresh pid stored its
          \<lparr>df_rows = stored, df_items = [], df_seen = [], df_inserts = [], df_draws = n\<rparr>)"

subsection \<open>What the difference leaves in the table\<close>

text \<open>Each item with its uid and its position, in the order of the loop.\<close>

type_synonym row_plan = "(string \<times> int \<times> ProjectItem) list"

definition values_defined :: "ProjectItem \<Rightarrow> bool" where
  "values_defined it = (it_type it = ''segment'' \<longrightarrow> it_segment it \<noteq> None)"

definition written :: "ProjectItem \<Rightarrow> int \<Rightarrow> DBProjectItem \<Rightarrow> DBProjectItem" where
  "written it pos r = the (row_values it pos r)"

lemma row_values_written: "row_values it pos r = (if values_defined it then Some (written it pos r) else None)"
  by (auto simp: row_values_def values_defined_def written_def Let_def)

lemma written_fields [simp]:
  assumes "values_defined it"
  shows "ir_id (written it pos r) = ir_id r" "ir_project_id (written it pos r) = ir_project_id r"
    "ir_uid (written it pos r) = ir_uid r" "ir_position (written it pos r) = pos"
  using assms by (auto simp: written_def row_values_def values_defined_def Let_def)

text \<open>Two rows that differ in their key alone are written alike.\<close>

lemma written_same:
  assumes "values_defined it" "ir_project_id r = ir_project_id r'" "ir_uid r = ir_uid r'"
  shows "(written it pos r)\<lparr>ir_id := 0\<rparr> = (written it pos r')\<lparr>ir_id := 0\<rparr>"
  using assms by (cases r; cases r') (auto simp: written_def row_values_def values_defined_def Let_def)

definition apply_plan :: "int \<Rightarrow> row_plan \<Rightarrow> DBProjectItem \<Rightarrow> DBProjectItem" where
  "apply_plan pid plan r =
     (if ir_project_id r = pid then
        (case ir_uid r of
           None \<Rightarrow> r
         | Some u \<Rightarrow> (case map_of plan u of None \<Rightarrow> r | Some (i, it) \<Rightarrow> written it i r))
      else r)"

definition plan_inserts :: "int \<Rightarrow> DBProjectItem list \<Rightarrow> row_plan \<Rightarrow> DBProjectItem list" where
  "plan_inserts pid stored plan =
     map (\<lambda>(u, i, it). written it i (blank_row pid u)) (filter (\<lambda>(u, _). existing_row pid u stored = None) plan)"

definition plan_ok :: "row_plan \<Rightarrow> bool" where
  "plan_ok plan = (distinct (map fst plan) \<and> map (\<lambda>(u, i, it). i) plan = map int [0..<length plan] \<and>
     (\<forall>(u, i, it)\<in>set plan. values_defined it))"

definition follows_plan :: "int \<Rightarrow> DBProjectItem list \<Rightarrow> row_plan \<Rightarrow> diffing \<Rightarrow> bool" where
  "follows_plan pid stored plan s =
     (plan_ok plan \<and> df_seen s = rev (map fst plan) \<and>
      df_items s = map (\<lambda>(u, i, it). it\<lparr>it_uid := Some u\<rparr>) plan \<and>
      df_rows s = map (apply_plan pid plan) stored \<and> df_inserts s = plan_inserts pid stored plan)"

text \<open>The keys of the table, and the uids of a trip, are unique.\<close>

definition rows_ok :: "int \<Rightarrow> DBProjectItem list \<Rightarrow> bool" where
  "rows_ok pid rows =
     (distinct (map ir_id rows) \<and>
      distinct (map ir_uid (filter (\<lambda>r. ir_project_id r = pid \<and> ir_uid r \<noteq> None) rows)))"

lemma rows_ok_id: "rows_ok pid rows \<Longrightarrow> r \<in> set rows \<Longrightarrow> x \<in> set rows \<Longrightarrow> ir_id r = ir_id x \<Longrightarrow> r = x"
  by (auto simp: rows_ok_def distinct_map inj_on_def)

lemma rows_ok_uid:
  "rows_ok pid rows \<Longrightarrow> r \<in> set rows \<Longrightarrow> x \<in> set rows \<Longrightarrow> ir_project_id r = pid \<Longrightarrow> ir_project_id x = pid \<Longrightarrow>
     ir_uid r = Some u \<Longrightarrow> ir_uid x = Some u \<Longrightarrow> r = x"
  by (auto simp: rows_ok_def distinct_map inj_on_def)

lemma existing_row_Some: "existing_row pid u rows = Some r \<Longrightarrow> r \<in> set rows \<and> ir_project_id r = pid \<and> ir_uid r = Some u"
  by (auto simp: existing_row_def find_Some_iff)

lemma existing_row_None: "existing_row pid u rows = None \<longleftrightarrow> (\<forall>r\<in>set rows. \<not> (ir_project_id r = pid \<and> ir_uid r = Some u))"
  by (auto simp: existing_row_def find_None_iff)

lemma apply_plan_id: "plan_ok plan \<Longrightarrow> ir_id (apply_plan pid plan r) = ir_id r"
  by (auto simp: apply_plan_def plan_ok_def split: option.splits dest!: map_of_SomeD)

lemma apply_plan_snoc:
  assumes "u \<notin> set (map fst plan)"
  shows "apply_plan pid (plan @ [(u, i, it)]) r =
    (if ir_project_id r = pid \<and> ir_uid r = Some u then written it i r else apply_plan pid plan r)"
proof -
  have "map_of plan u = None" using assms by (simp add: map_of_eq_None_iff)
  then show ?thesis by (auto simp: apply_plan_def map_add_def split: option.splits)
qed

lemma plan_ok_snoc:
  "plan_ok plan \<Longrightarrow> u \<notin> set (map fst plan) \<Longrightarrow> values_defined it \<Longrightarrow> plan_ok (plan @ [(u, int (length plan), it)])"
  by (simp add: plan_ok_def)

lemma diff_one_follows:
  assumes ok: "rows_ok pid stored" and fol: "follows_plan pid stored plan s"
    and step: "diff_one fresh pid stored it s = Some s'" and new: "fst (uid_for fresh it s) \<notin> set (map fst plan)"
  shows "follows_plan pid stored (plan @ [(fst (uid_for fresh it s), int (length plan), it)]) s' \<and> values_defined it"
proof -
  obtain u n where un: "uid_for fresh it s = (u, n)" by (cases "uid_for fresh it s")
  let ?i = "int (length plan)"
  have len: "length (df_items s) = length plan" using fol by (simp add: follows_plan_def)
  have vd: "values_defined it"
    using step un by (auto simp: diff_one_def Let_def row_values_written split: option.splits if_splits)
  have u: "u \<notin> set (map fst plan)" using new un by simp
  have pok: "plan_ok plan" using fol by (simp add: follows_plan_def)
  have rows: "df_rows s' = map (apply_plan pid (plan @ [(u, ?i, it)])) stored"
  proof (cases "existing_row pid u stored")
    case None
    then have "df_rows s' = df_rows s"
      using step un vd by (auto simp: diff_one_def Let_def row_values_written)
    moreover have "apply_plan pid (plan @ [(u, ?i, it)]) r = apply_plan pid plan r" if "r \<in> set stored" for r
      using None that unfolding existing_row_None apply_plan_snoc [OF u] by auto
    ultimately show ?thesis using fol by (simp add: follows_plan_def)
  next
    case (Some row)
    note ex = existing_row_Some [OF Some]
    have rs: "df_rows s' = update_row (ir_id row) (written it ?i) (map (apply_plan pid plan) stored)"
      using step un vd Some fol len
      by (auto simp: diff_one_def Let_def row_values_written follows_plan_def update_row_def)
    have "map_of plan u = None" using u by (simp add: map_of_eq_None_iff)
    then have same: "apply_plan pid plan row = row" using ex by (simp add: apply_plan_def)
    have "(if ir_id (apply_plan pid plan r) = ir_id row then written it ?i (apply_plan pid plan r) else apply_plan pid plan r) =
        apply_plan pid (plan @ [(u, ?i, it)]) r" if r: "r \<in> set stored" for r
    proof (cases "r = row")
      case True
      then show ?thesis using ex same apply_plan_snoc [OF u] by simp
    next
      case False
      then have "ir_id r \<noteq> ir_id row" "\<not> (ir_project_id r = pid \<and> ir_uid r = Some u)"
        using rows_ok_id [OF ok r] rows_ok_uid [OF ok r] ex by blast+
      then show ?thesis using apply_plan_id [OF pok] apply_plan_snoc [OF u] by auto
    qed
    then show ?thesis unfolding rs update_row_def by simp
  qed
  have "df_inserts s' = plan_inserts pid stored (plan @ [(u, ?i, it)])"
    using step un vd fol len
    by (cases "existing_row pid u stored")
       (auto simp: diff_one_def Let_def row_values_written follows_plan_def plan_inserts_def)
  moreover have "df_seen s' = rev (map fst (plan @ [(u, ?i, it)]))"
    "df_items s' = map (\<lambda>(u, i, it). it\<lparr>it_uid := Some u\<rparr>) (plan @ [(u, ?i, it)])"
    using step un vd fol by (auto simp: diff_one_def Let_def row_values_written follows_plan_def split: option.splits)
  ultimately show ?thesis using plan_ok_snoc [OF pok u vd] rows vd un by (simp add: follows_plan_def)
qed

definition uids_from :: "(nat \<Rightarrow> string) \<Rightarrow> ProjectItem list \<Rightarrow> row_plan \<Rightarrow> diffing \<Rightarrow> bool" where
  "uids_from fresh its plan s =
     (\<forall>u\<in>set (map fst plan). Some u \<in> it_uid ` set its \<or> (\<exists>k<df_draws s. u = fresh k))"

lemma uid_for_new:
  assumes "follows_plan pid stored plan s" "uids_from fresh its plan s" "inj fresh"
    and "it \<in> set its" "\<forall>x\<in>set its. \<forall>k. it_uid x \<noteq> Some (fresh k)"
  shows "fst (uid_for fresh it s) \<notin> set (map fst plan) \<and>
    uids_from fresh its (plan @ [(fst (uid_for fresh it s), i, it)]) (s'\<lparr>df_draws := snd (uid_for fresh it s)\<rparr>)"
proof -
  have seen: "set (df_seen s) = set (map fst plan)" using assms(1) by (simp add: follows_plan_def)
  have fresh: "fresh (df_draws s) \<notin> set (map fst plan)"
  proof
    assume "fresh (df_draws s) \<in> set (map fst plan)"
    then consider "Some (fresh (df_draws s)) \<in> it_uid ` set its" | k where "k < df_draws s" "fresh (df_draws s) = fresh k"
      using assms(2) unfolding uids_from_def by blast
    then show False
    proof cases
      case 1
      then obtain x where "x \<in> set its" "it_uid x = Some (fresh (df_draws s))" by (metis imageE)
      then show False using assms(5) by blast
    next
      case 2
      then show False using assms(3) by (simp add: inj_eq)
    qed
  qed
  have old: "\<forall>u\<in>set (map fst plan). Some u \<in> it_uid ` set its \<or> (\<exists>k<Suc (df_draws s). u = fresh k)"
    "\<forall>u\<in>set (map fst plan). Some u \<in> it_uid ` set its \<or> (\<exists>k<df_draws s. u = fresh k)"
    using assms(2) unfolding uids_from_def by (meson less_SucI)+
  show ?thesis
  proof (cases "\<exists>u. it_uid it = Some u \<and> u \<noteq> '''' \<and> u \<notin> set (df_seen s)")
    case True
    then obtain u where u: "it_uid it = Some u" "uid_for fresh it s = (u, df_draws s)" "u \<notin> set (df_seen s)"
      by (auto simp: uid_for_def)
    have "Some u \<in> it_uid ` set its" using assms(4) u(1) by force
    then show ?thesis using u(2,3) seen old(2) by (simp add: uids_from_def)
  next
    case False
    then have "uid_for fresh it s = (fresh (df_draws s), Suc (df_draws s))"
      by (auto simp: uid_for_def split: option.splits)
    then show ?thesis using fresh old(1) by (auto simp: uids_from_def)
  qed
qed

lemma diff_one_draws: "diff_one fresh pid stored it s = Some s' \<Longrightarrow> df_draws s' = snd (uid_for fresh it s)"
  by (auto simp: diff_one_def Let_def split: option.splits prod.splits)

lemma diff_loop_follows:
  assumes "rows_ok pid stored" "inj fresh" "\<forall>x\<in>set all. \<forall>k. it_uid x \<noteq> Some (fresh k)"
  shows "set its \<subseteq> set all \<Longrightarrow> follows_plan pid stored plan s \<Longrightarrow> uids_from fresh all plan s \<Longrightarrow>
    diff_loop fresh pid stored its s = Some s' \<Longrightarrow>
    \<exists>plan'. follows_plan pid stored (plan @ plan') s' \<and> map (\<lambda>(u, i, it). it) plan' = its"
proof (induction its arbitrary: plan s)
  case Nil
  then show ?case by (intro exI [of _ "[]"]) simp
next
  case (Cons it its)
  then obtain s1 where s1: "diff_one fresh pid stored it s = Some s1" "diff_loop fresh pid stored its s1 = Some s'"
    by (auto split: option.splits)
  let ?u = "fst (uid_for fresh it s)"
  let ?p = "plan @ [(?u, int (length plan), it)]"
  have nu: "?u \<notin> set (map fst plan)" "uids_from fresh all ?p (s1\<lparr>df_draws := snd (uid_for fresh it s)\<rparr>)"
    using uid_for_new [OF Cons.prems(2,3) assms(2) _ assms(3), of it "int (length plan)" s1] Cons.prems(1) by auto
  have fol: "follows_plan pid stored ?p s1" using diff_one_follows [OF assms(1) Cons.prems(2) s1(1) nu(1)] by blast
  have uf: "uids_from fresh all ?p s1" using nu(2) diff_one_draws [OF s1(1)] by (simp add: uids_from_def)
  obtain plan' where "follows_plan pid stored (?p @ plan') s'" "map (\<lambda>(u, i, it). it) plan' = its"
    using Cons.IH [OF _ fol uf s1(2)] Cons.prems(1) by auto
  then show ?case by (intro exI [of _ "(?u, int (length plan), it) # plan'"]) simp
qed

lemma diff_loop_total:
  "\<forall>it\<in>set its. values_defined it \<Longrightarrow> \<exists>s'. diff_loop fresh pid stored its s = Some s'"
proof (induction its arbitrary: s)
  case (Cons it its)
  then have "\<exists>s1. diff_one fresh pid stored it s = Some s1"
    by (auto simp: diff_one_def Let_def row_values_written split: option.splits prod.splits)
  then show ?case using Cons by auto
qed simp

subsection \<open>The rows of a saved trip\<close>

definition keyless :: "DBProjectItem \<Rightarrow> DBProjectItem" where
  "keyless r = r\<lparr>ir_id := 0\<rparr>"

definition item_row :: "int \<Rightarrow> string \<times> int \<times> ProjectItem \<Rightarrow> DBProjectItem" where
  "item_row pid p = keyless (written (snd (snd p)) (fst (snd p)) (blank_row pid (fst p)))"

lemma keyless_number_rows: "map keyless (number_rows n rs) = map keyless rs"
  by (induction rs arbitrary: n) (simp_all add: keyless_def)

lemma map_insort_key: "map g (insort_key (f \<circ> g) x xs) = insort_key f (g x) (map g xs)"
  by (induction xs) auto

lemma map_sort_key: "map g (sort_key (f \<circ> g) xs) = sort_key f (map g xs)"
  by (induction xs) (simp_all add: map_insort_key [unfolded comp_def] sort_key_def comp_def)

lemma number_rows_fields:
  "r \<in> set (number_rows n rs) \<Longrightarrow> \<exists>x\<in>set rs. ir_project_id r = ir_project_id x \<and> ir_uid r = ir_uid x"
  by (induction rs arbitrary: n) fastforce+

text \<open>The rows of the trip that stay: those whose uid is in the plan.\<close>

definition stays :: "int \<Rightarrow> row_plan \<Rightarrow> DBProjectItem \<Rightarrow> bool" where
  "stays pid plan r = (ir_project_id r = pid \<and> (case ir_uid r of None \<Rightarrow> False | Some u \<Rightarrow> u \<in> set (map fst plan)))"

lemma apply_plan_fields:
  assumes "plan_ok plan"
  shows "ir_project_id (apply_plan pid plan r) = ir_project_id r" "ir_uid (apply_plan pid plan r) = ir_uid r"
  using assms by (auto simp: apply_plan_def plan_ok_def split: option.splits dest!: map_of_SomeD)

lemma kept_rows:
  assumes ok: "rows_ok pid stored" and pl: "plan_ok plan"
  shows "filter (\<lambda>r. \<not> (ir_project_id r = pid \<and> ir_uid r = None))
      (filter (\<lambda>r. \<not> is_stale_row pid stored (rev (map fst plan)) r) (map (apply_plan pid plan) stored)) =
    map (apply_plan pid plan) (filter (\<lambda>r. ir_project_id r \<noteq> pid \<or> stays pid plan r) stored)"
proof -
  have stale: "is_stale_row pid stored (rev (map fst plan)) (apply_plan pid plan r) \<longleftrightarrow>
      ir_project_id r = pid \<and> (\<exists>u. ir_uid r = Some u \<and> u \<notin> set (map fst plan))" if "r \<in> set stored" for r
  proof -
    have "is_stale_row pid stored (rev (map fst plan)) (apply_plan pid plan r) \<longleftrightarrow>
        (\<exists>x\<in>set stored. x = r \<and> ir_project_id x = pid \<and> (\<exists>u. ir_uid x = Some u \<and> u \<notin> set (map fst plan)))"
      unfolding is_stale_row_def list_ex_iff apply_plan_id [OF pl]
    proof (rule bex_cong [OF refl])
      fix x assume x: "x \<in> set stored"
      have "ir_id x = ir_id r \<longleftrightarrow> x = r" using rows_ok_id [OF ok x that] by blast
      then show "(ir_id x = ir_id r \<and> ir_project_id x = pid \<and>
          (case ir_uid x of None \<Rightarrow> False | Some u \<Rightarrow> u \<notin> set (rev (map fst plan)))) =
        (x = r \<and> ir_project_id x = pid \<and> (\<exists>u. ir_uid x = Some u \<and> u \<notin> set (map fst plan)))"
        by (cases "ir_uid x") auto
    qed
    then show ?thesis using that by blast
  qed
  have keep: "(\<not> is_stale_row pid stored (rev (map fst plan)) (apply_plan pid plan r) \<and>
      \<not> (ir_project_id (apply_plan pid plan r) = pid \<and> ir_uid (apply_plan pid plan r) = None)) \<longleftrightarrow>
      ir_project_id r \<noteq> pid \<or> stays pid plan r" if "r \<in> set stored" for r
    unfolding stale [OF that] apply_plan_fields [OF pl] stays_def by (auto split: option.splits)
  show ?thesis
    unfolding filter_filter filter_map comp_def
    by (rule arg_cong [of _ _ "map (apply_plan pid plan)"], rule filter_cong [OF refl])
       (rule keep)
qed

lemma stays_match:
  assumes ok: "rows_ok pid stored" and pl: "plan_ok plan"
  shows "mset (map (keyless \<circ> apply_plan pid plan) (filter (stays pid plan) stored)) =
    mset (map (item_row pid) (filter (\<lambda>(u, _). existing_row pid u stored \<noteq> None) plan))"
proof -
  let ?key = "\<lambda>r. the (ir_uid r)"
  let ?pl = "\<lambda>u. (u, the (map_of plan u))"
  let ?R = "filter (stays pid plan) stored"
  let ?P = "filter (\<lambda>(u, _). existing_row pid u stored \<noteq> None) plan"
  have dist: "distinct (map fst plan)" using pl by (simp add: plan_ok_def)
  have row: "(keyless \<circ> apply_plan pid plan) r = item_row pid (?pl (?key r))" if rR: "r \<in> set ?R" for r
  proof -
    obtain u where u: "ir_project_id r = pid" "ir_uid r = Some u" "u \<in> set (map fst plan)"
      using rR by (auto simp: stays_def split: option.splits)
    then obtain i it where m: "map_of plan u = Some (i, it)" by (metis map_of_eq_None_iff not_Some_eq prod.exhaust_sel image_set)
    then have "values_defined it" using pl map_of_SomeD [OF m] by (auto simp: plan_ok_def)
    then have "keyless (written it i r) = keyless (written it i (blank_row pid u))"
      unfolding keyless_def by (rule written_same) (simp_all add: u blank_row_def)
    then show ?thesis using u m by (simp add: apply_plan_def item_row_def)
  qed
  have "inj_on ?key (set ?R)"
    using rows_ok_uid [OF ok] by (auto simp: inj_on_def stays_def split: option.splits)
  moreover have "distinct ?R" using ok by (auto simp: rows_ok_def distinct_map)
  ultimately have dR: "distinct (map (\<lambda>r. ?pl (?key r)) ?R)" by (auto simp: distinct_map inj_on_def)
  have dP: "distinct ?P" using dist by (auto simp: distinct_map)
  have "set (map (\<lambda>r. ?pl (?key r)) ?R) = set ?P"
  proof (intro equalityI subsetI)
    fix p assume "p \<in> set (map (\<lambda>r. ?pl (?key r)) ?R)"
    then obtain r u where r: "r \<in> set stored" "ir_project_id r = pid" "ir_uid r = Some u" "u \<in> set (map fst plan)" "p = ?pl u"
      by (auto simp: stays_def split: option.splits)
    then obtain x where "map_of plan u = Some x" by (metis map_of_eq_None_iff not_Some_eq image_set)
    moreover have "existing_row pid u stored \<noteq> None" using r by (auto simp: existing_row_None)
    ultimately show "p \<in> set ?P" using r(5) map_of_SomeD by fastforce
  next
    fix p assume p: "p \<in> set ?P"
    obtain u x where ux: "p = (u, x)" by (cases p)
    then have m: "map_of plan u = Some x" using p dist by simp
    obtain r where r: "existing_row pid u stored = Some r" using p ux by auto
    note ex = existing_row_Some [OF r]
    have "r \<in> set ?R" using ex m p ux by (auto simp: stays_def) (metis image_eqI fst_conv)
    moreover have "?pl (?key r) = p" using ex m ux by simp
    ultimately show "p \<in> set (map (\<lambda>r. ?pl (?key r)) ?R)" by (metis (no_types, lifting) image_eqI list.set_map)
  qed
  then have "mset (map (\<lambda>r. ?pl (?key r)) ?R) = mset ?P" using set_eq_iff_mset_eq_distinct [OF dR dP] by blast
  then have "image_mset (item_row pid) (mset (map (\<lambda>r. ?pl (?key r)) ?R)) = image_mset (item_row pid) (mset ?P)"
    by (rule arg_cong)
  then have "mset (map (item_row pid) (map (\<lambda>r. ?pl (?key r)) ?R)) = mset (map (item_row pid) ?P)"
    unfolding mset_map [of "item_row pid"] .
  moreover have "map (item_row pid) (map (\<lambda>r. ?pl (?key r)) ?R) = map (keyless \<circ> apply_plan pid plan) ?R"
    using row by (simp add: comp_def)
  ultimately show ?thesis by (simp only:)
qed

lemma saved_rows:
  fixes next_id :: int
  assumes ok: "rows_ok pid stored" and fol: "follows_plan pid stored plan s"
  defines "rows' \<equiv> filter (\<lambda>r. \<not> (ir_project_id r = pid \<and> ir_uid r = None))
               (filter (\<lambda>r. \<not> is_stale_row pid stored (df_seen s) r) (df_rows s)) @ number_rows next_id (df_inserts s)"
  shows "map keyless (sort_key ir_position (filter (\<lambda>r. ir_project_id r = pid) rows')) = map (item_row pid) plan"
    and "filter (\<lambda>r. ir_project_id r \<noteq> pid) rows' = filter (\<lambda>r. ir_project_id r \<noteq> pid) stored"
    and "r \<in> set stored \<Longrightarrow> stays pid plan r \<Longrightarrow> apply_plan pid plan r \<in> set rows'"
proof -
  have pl: "plan_ok plan" using fol by (simp add: follows_plan_def)
  have rows': "rows' = map (apply_plan pid plan) (filter (\<lambda>r. ir_project_id r \<noteq> pid \<or> stays pid plan r) stored) @
      number_rows next_id (plan_inserts pid stored plan)"
    using fol kept_rows [OF ok pl] unfolding rows'_def follows_plan_def by simp
  have ins: "ir_project_id x = pid" if "x \<in> set (number_rows next_id (plan_inserts pid stored plan))" for x
    using number_rows_fields [OF that] pl by (auto simp: plan_inserts_def plan_ok_def blank_row_def)
  have here: "filter (\<lambda>r. ir_project_id r = pid) rows' =
      map (apply_plan pid plan) (filter (stays pid plan) stored) @ number_rows next_id (plan_inserts pid stored plan)"
  proof -
    have "filter (\<lambda>r. ir_project_id r = pid) (number_rows next_id (plan_inserts pid stored plan)) =
        number_rows next_id (plan_inserts pid stored plan)" using ins by simp
    moreover have "filter (\<lambda>r. ir_project_id r = pid)
        (map (apply_plan pid plan) (filter (\<lambda>r. ir_project_id r \<noteq> pid \<or> stays pid plan r) stored)) =
        map (apply_plan pid plan) (filter (stays pid plan) stored)"
      unfolding filter_map comp_def apply_plan_fields [OF pl] filter_filter
      by (rule arg_cong [of _ _ "map (apply_plan pid plan)"], rule filter_cong [OF refl]) (auto simp: stays_def)
    ultimately show ?thesis unfolding rows' by simp
  qed
  have "mset (map keyless (filter (\<lambda>r. ir_project_id r = pid) rows')) = mset (map (item_row pid) plan)"
  proof -
    have "map keyless (plan_inserts pid stored plan) = map (item_row pid) (filter (\<lambda>(u, _). existing_row pid u stored = None) plan)"
      unfolding plan_inserts_def by (simp add: item_row_def case_prod_beta')
    moreover have "mset (map (item_row pid) plan) =
        mset (map (item_row pid) (filter (\<lambda>(u, _). existing_row pid u stored \<noteq> None) plan)) +
        mset (map (item_row pid) (filter (\<lambda>(u, _). existing_row pid u stored = None) plan))"
      by (induction plan) auto
    ultimately show ?thesis
      unfolding here map_append keyless_number_rows mset_append map_map stays_match [OF ok pl] by simp
  qed
  moreover have pos: "map ir_position (map (item_row pid) plan) = map int [0..<length plan]"
  proof -
    have "map ir_position (map (item_row pid) plan) = map (\<lambda>(u, i, it). i) plan"
      unfolding map_map comp_def
    proof (rule map_cong [OF refl])
      fix p assume p: "p \<in> set plan"
      obtain u i it where e: "p = (u, i, it)" by (cases p)
      then have "values_defined it" using pl p by (auto simp: plan_ok_def)
      then show "ir_position (item_row pid p) = (case p of (u, i, it) \<Rightarrow> i)" by (simp add: e item_row_def keyless_def)
    qed
    moreover have "map (\<lambda>(u, i, it). i) plan = map int [0..<length plan]" using pl unfolding plan_ok_def by blast
    ultimately show ?thesis by (simp only:)
  qed
  moreover have "sorted (map int [0..<length plan])" "distinct (map int [0..<length plan])"
    by (auto simp: sorted_iff_nth_mono distinct_map)
  ultimately have "sort_key ir_position (map keyless (filter (\<lambda>r. ir_project_id r = pid) rows')) = map (item_row pid) plan"
    by (metis sort_key_inj_key_eq distinct_map set_mset_mset)
  moreover have "ir_position \<circ> keyless = ir_position" by (auto simp: keyless_def)
  ultimately show "map keyless (sort_key ir_position (filter (\<lambda>r. ir_project_id r = pid) rows')) = map (item_row pid) plan"
    using map_sort_key [of keyless ir_position] by metis
  have "filter (\<lambda>r. ir_project_id r \<noteq> pid) (number_rows next_id (plan_inserts pid stored plan)) = []"
    using ins by (simp add: filter_empty_conv)
  moreover have "filter (\<lambda>r. ir_project_id r \<noteq> pid)
      (map (apply_plan pid plan) (filter (\<lambda>r. ir_project_id r \<noteq> pid \<or> stays pid plan r) stored)) =
      map (apply_plan pid plan) (filter (\<lambda>r. ir_project_id r \<noteq> pid) stored)"
    unfolding filter_map comp_def apply_plan_fields [OF pl] filter_filter
    by (rule arg_cong [of _ _ "map (apply_plan pid plan)"], rule filter_cong [OF refl]) auto
  moreover have "map (apply_plan pid plan) (filter (\<lambda>r. ir_project_id r \<noteq> pid) stored) = filter (\<lambda>r. ir_project_id r \<noteq> pid) stored"
    by (rule map_idI) (simp add: apply_plan_def)
  ultimately show "filter (\<lambda>r. ir_project_id r \<noteq> pid) rows' = filter (\<lambda>r. ir_project_id r \<noteq> pid) stored"
    unfolding rows' by simp
  show "r \<in> set stored \<Longrightarrow> stays pid plan r \<Longrightarrow> apply_plan pid plan r \<in> set rows'"
    unfolding rows' by auto
qed

subsection \<open>Properties\<close>

text \<open>C6. Saving the item list as a difference stores exactly that list. Read by position, the rows of the trip
  are afterwards the items, in order and numbered from 0, each with the columns of its kind; the items
  are given different uids and otherwise unchanged; an item whose uid had a row keeps that row, key
  included; the rows of other trips are untouched. And the save succeeds whenever every segment item
  has its segment.\<close>

theorem saved_items_are_the_items:
  assumes "rows_ok pid stored" "inj fresh" "\<forall>it\<in>set its. \<forall>k. it_uid it \<noteq> Some (fresh k)"
    and "\<forall>it\<in>set its. values_defined it"
  shows "\<exists>rows' its'. replace_items fresh n next_id pid its stored = Some (rows', its') \<and>
    map keyless (sort_key ir_position (filter (\<lambda>r. ir_project_id r = pid) rows')) =
      map2 (\<lambda>pos it. item_row pid (the (it_uid it), pos, it)) (map int [0..<length its]) its' \<and>
    map (\<lambda>it. it\<lparr>it_uid := None\<rparr>) its' = map (\<lambda>it. it\<lparr>it_uid := None\<rparr>) its \<and> distinct (map it_uid its') \<and>
    (\<forall>r\<in>set stored. ir_project_id r = pid \<and> ir_uid r \<noteq> None \<and> ir_uid r \<in> it_uid ` set its' \<longrightarrow>
       (\<exists>r'\<in>set rows'. ir_id r' = ir_id r \<and> ir_uid r' = ir_uid r \<and> ir_project_id r' = pid)) \<and>
    filter (\<lambda>r. ir_project_id r \<noteq> pid) rows' = filter (\<lambda>r. ir_project_id r \<noteq> pid) stored"
proof -
  let ?s0 = "\<lparr>df_rows = stored, df_items = [], df_seen = [], df_inserts = [], df_draws = n\<rparr>"
  have nil: "apply_plan pid [] = (\<lambda>r. r)" by (rule ext) (simp add: apply_plan_def split: option.splits)
  have f0: "follows_plan pid stored [] ?s0"
    by (simp add: follows_plan_def plan_ok_def plan_inserts_def nil)
  have u0: "uids_from fresh its [] ?s0" by (simp add: uids_from_def)
  obtain s where s: "diff_loop fresh pid stored its ?s0 = Some s" using diff_loop_total [OF assms(4)] by blast
  obtain plan where fol: "follows_plan pid stored plan s" and its: "map (\<lambda>(u, i, it). it) plan = its"
    using diff_loop_follows [OF assms(1-3) subset_refl f0 u0 s] by auto
  let ?rows = "filter (\<lambda>r. \<not> (ir_project_id r = pid \<and> ir_uid r = None))
               (filter (\<lambda>r. \<not> is_stale_row pid stored (df_seen s) r) (df_rows s)) @ number_rows next_id (df_inserts s)"
  note saved = saved_rows [OF assms(1) fol, where next_id = next_id]
  have pl: "plan_ok plan" and items: "df_items s = map (\<lambda>(u, i, it). it\<lparr>it_uid := Some u\<rparr>) plan"
    using fol by (simp_all add: follows_plan_def)
  have run: "replace_items fresh n next_id pid its stored = Some (?rows, df_items s)"
    using s by (simp add: replace_items_def)
  have len: "length its = length plan" using its by (metis length_map)
  have idx: "fst (snd (plan ! i)) = int i" if "i < length plan" for i
  proof -
    have "map (\<lambda>(u, i, it). i) plan ! i = map int [0..<length plan] ! i" using pl by (simp add: plan_ok_def)
    then show ?thesis using that by (simp add: case_prod_beta')
  qed
  have irow: "item_row pid (u, i, it\<lparr>it_uid := x\<rparr>) = item_row pid (u, i, it)" for u i it x
    by (simp add: item_row_def written_def row_values_def)
  have list: "map2 (\<lambda>pos it. item_row pid (the (it_uid it), pos, it)) (map int [0..<length its]) (df_items s) = map (item_row pid) plan"
    by (rule nth_equalityI) (simp_all add: items len case_prod_beta' irow idx [symmetric])
  have same: "map (\<lambda>it. it\<lparr>it_uid := None\<rparr>) (df_items s) = map (\<lambda>it. it\<lparr>it_uid := None\<rparr>) its"
    unfolding items its [symmetric] by (simp add: case_prod_beta')
  have uids: "map it_uid (df_items s) = map (Some \<circ> fst) plan" unfolding items by (simp add: case_prod_beta')
  have dist: "distinct (map it_uid (df_items s))"
    unfolding uids using pl by (auto simp: plan_ok_def distinct_map inj_on_def)
  have kept: "\<exists>r'\<in>set ?rows. ir_id r' = ir_id r \<and> ir_uid r' = ir_uid r \<and> ir_project_id r' = pid"
    if r: "r \<in> set stored" "ir_project_id r = pid" "ir_uid r \<noteq> None" "ir_uid r \<in> it_uid ` set (df_items s)" for r
  proof -
    have "it_uid ` set (df_items s) = set (map (Some \<circ> fst) plan)" using uids by (metis list.set_map)
    then obtain p where "p \<in> set plan" "ir_uid r = Some (fst p)" using r(4) by auto
    then have "stays pid plan r" using r(2) by (simp add: stays_def)
    from saved(3) [OF r(1) this] show ?thesis
      by (rule bexI [rotated]) (simp add: apply_plan_id [OF pl] apply_plan_fields [OF pl] r(2))
  qed
  show ?thesis
    by (rule exI [of _ ?rows], rule exI [of _ "df_items s"])
       (intro conjI ballI impI run same dist saved(2) trans [OF saved(1) list [symmetric]] kept; blast)
qed

theorem saved_items_are_the_items_witness:
  "\<exists>rows' its'. replace_items (\<lambda>k. replicate (Suc k) (CHR ''f'')) 0 1 5 [activity_item (Some 3), activity_item (Some 4)] [] = Some (rows', its') \<and>
     distinct (map it_uid its') \<and> map ir_activity_id (map keyless (sort_key ir_position (filter (\<lambda>r. ir_project_id r = 5) rows'))) = [Some 3, Some 4]"
proof -
  let ?its = "[activity_item (Some 3), activity_item (Some 4)]" and ?f = "\<lambda>k. replicate (Suc k) (CHR ''f'')"
  have "inj ?f" by (rule injI) (metis length_replicate nat.inject)
  moreover have "rows_ok 5 []" by (simp add: rows_ok_def)
  moreover have "\<forall>it\<in>set ?its. \<forall>k. it_uid it \<noteq> Some (?f k)" "\<forall>it\<in>set ?its. values_defined it"
    by (simp_all add: activity_item_def values_defined_def)
  ultimately obtain rows' its' where r: "replace_items ?f 0 1 5 ?its [] = Some (rows', its')"
    "map keyless (sort_key ir_position (filter (\<lambda>r. ir_project_id r = 5) rows')) =
      map2 (\<lambda>pos it. item_row 5 (the (it_uid it), pos, it)) (map int [0..<length ?its]) its'"
    "map (\<lambda>it. it\<lparr>it_uid := None\<rparr>) its' = map (\<lambda>it. it\<lparr>it_uid := None\<rparr>) ?its" "distinct (map it_uid its')"
    using saved_items_are_the_items [of 5 "[]" ?f ?its 0 1] by blast
  have "map ir_activity_id (the (map_option (sort_key ir_position \<circ> filter (\<lambda>r. ir_project_id r = 5) \<circ> fst) (replace_items ?f 0 1 5 ?its []))) = [Some 3, Some 4]"
    by code_simp
  then show ?thesis using r by (simp add: keyless_def comp_def)
qed

text \<open>A superseded job writes nothing: when the guard does not match what is stored, no row's text and no counter changes.\<close>

lemma superseded_job_writes_nothing:
  assumes "update_segment_fields pid seg_id flds st started db = Inr (False, db')"
  shows "map ir_segment_json (td_rows db') = map ir_segment_json (td_rows db) \<and> td_locks db' = td_locks db"
proof -
  have "map ir_segment_json (td_rows db1) = map ir_segment_json (td_rows db) \<and> td_locks db1 = td_locks db"
    if "segment_row pid seg_id db = Inr (found, db1)" for found db1
    using that by (auto simp: segment_row_def update_row_def Let_def split: option.splits elim!: rbind_InrE)
  then show ?thesis
    using assms by (auto simp: update_segment_fields_def split: option.splits json.splits if_splits elim!: rbind_InrE)
qed

end
