(* ===== verification/TripLock.thy ===== *)
theory TripLock
  imports TJ_Prelude
begin

text \<open>
  \<open>src/project/repo_retry.py\<close> and the version check of \<open>save_project\<close> in \<open>src/project/repo_core.py\<close>: structural
  edits of a trip under an optimistic lock. A stored trip is its lock counter and its content, or no
  row at all. A call loads both, applies its callback to what it loaded, and saves if the counter has not moved; other
  writers (payload writes, blind saves) change the content and advance the counter. The calls run
  interleaved: one load and one save transaction are each one step.
\<close>

type_synonym 'c stored_trip = "(int \<times> 'c) option"

datatype save_error = StaleWriteError | PartialItems

definition DEFAULT_ATTEMPTS :: nat where "DEFAULT_ATTEMPTS = 5"

text \<open>
  \<open>save_project\<close> with and without the check: a trip without a row gets a new one, whose counter
  is 0. \<open>update_segment_fields\<close> and its like advance the counter of a row that exists.
\<close>

definition row_version :: "'c stored_trip \<Rightarrow> int" where
  "row_version stored = (case stored of None \<Rightarrow> 0 | Some (v, _) \<Rightarrow> v)"

definition save_project :: "bool \<Rightarrow> bool \<Rightarrow> int \<Rightarrow> 'c \<Rightarrow> 'c stored_trip \<Rightarrow> (save_error, 'c stored_trip) result" where
  "save_project partial_items check_version expected content stored =
     (if partial_items then Inl PartialItems
      else if check_version then
        (if row_version stored = expected then Inr (Some (expected + 1, content)) else Inl StaleWriteError)
      else Inr (Some (row_version stored + 1, content)))"

definition payload_write :: "('c \<Rightarrow> 'c) \<Rightarrow> 'c stored_trip \<Rightarrow> 'c stored_trip" where
  "payload_write f stored = map_option (\<lambda>(v, c). (v + 1, f c)) stored"

text \<open>Where a call of \<open>save_project_with_retry\<close> stands: before its \<open>k\<close>-th load, between load and save, or ended.
  \<open>NotFound\<close> is the result None.\<close>

datatype 'c save_call = Starting nat | Loaded nat int 'c | Saved | GaveUp | NotFound

text \<open>What has been committed, in order: the callback of a call, or another writer's change.\<close>

datatype 'c commit = ByCall nat | ByOther "'c \<Rightarrow> 'c"

definition after_save :: "nat \<Rightarrow> nat \<Rightarrow> ('c \<Rightarrow> 'c) \<Rightarrow> int \<Rightarrow> 'c \<Rightarrow> 'c stored_trip \<Rightarrow> 'c save_call \<times> 'c stored_trip" where
  "after_save attempts k mutate v loaded stored =
     (case save_project False True v (mutate loaded) stored of
        Inr stored' \<Rightarrow> (Saved, stored')
      | Inl _ \<Rightarrow> (if Suc k = attempts then GaveUp else Starting (Suc k), stored))"

inductive save_step ::
  "nat \<Rightarrow> (nat \<Rightarrow> 'c \<Rightarrow> 'c) \<Rightarrow> 'c stored_trip \<times> 'c save_call list \<times> 'c commit list \<Rightarrow>
     'c stored_trip \<times> 'c save_call list \<times> 'c commit list \<Rightarrow> bool"
  for attempts mutate where
  step_load: "i < length cs \<Longrightarrow> cs ! i = Starting k \<Longrightarrow>
     save_step attempts mutate (Some (v, c), cs, hist) (Some (v, c), cs[i := Loaded k v c], hist)"
| step_missing: "i < length cs \<Longrightarrow> cs ! i = Starting k \<Longrightarrow>
     save_step attempts mutate (None, cs, hist) (None, cs[i := NotFound], hist)"
| step_save: "i < length cs \<Longrightarrow> cs ! i = Loaded k v loaded \<Longrightarrow>
     after_save attempts k (mutate i) v loaded stored = (Saved, stored') \<Longrightarrow>
     save_step attempts mutate (stored, cs, hist) (stored', cs[i := Saved], hist @ [ByCall i])"
| step_stale: "i < length cs \<Longrightarrow> cs ! i = Loaded k v loaded \<Longrightarrow>
     after_save attempts k (mutate i) v loaded stored = (c, stored') \<Longrightarrow> c \<noteq> Saved \<Longrightarrow>
     save_step attempts mutate (stored, cs, hist) (stored', cs[i := c], hist)"
| step_other: "save_step attempts mutate (stored, cs, hist) (payload_write f stored, cs, hist @ [ByOther f])"

inductive_cases save_stepE: "save_step attempts mutate (stored, cs, hist) s'"

subsection \<open>Every commit is applied to what the one before left\<close>

fun commit_fun :: "(nat \<Rightarrow> 'c \<Rightarrow> 'c) \<Rightarrow> 'c commit \<Rightarrow> 'c \<Rightarrow> 'c" where
  "commit_fun mutate (ByCall i) = mutate i"
| "commit_fun mutate (ByOther f) = f"

definition replay :: "(nat \<Rightarrow> 'c \<Rightarrow> 'c) \<Rightarrow> 'c commit list \<Rightarrow> 'c \<Rightarrow> 'c" where
  "replay mutate hist c = foldl (\<lambda>acc e. commit_fun mutate e acc) c hist"

definition by_calls :: "'c commit list \<Rightarrow> nat list" where
  "by_calls hist = List.map_filter (\<lambda>e. case e of ByCall i \<Rightarrow> Some i | ByOther _ \<Rightarrow> None) hist"

lemma by_calls_snoc [simp]:
  "by_calls (hist @ [ByCall i]) = by_calls hist @ [i]" "by_calls (hist @ [ByOther f]) = by_calls hist"
  by (simp_all add: by_calls_def List.map_filter_def)

lemma replay_snoc [simp]: "replay mutate (hist @ [e]) c = commit_fun mutate e (replay mutate hist c)"
  by (simp add: replay_def)

text \<open>
  The invariant: the counter has moved once per commit; the content is the commits replayed; who
  loaded at the present counter holds the present content; an attempt is lost only to a commit; and
  the calls that saved are those in the hist, once each.
\<close>

fun call_ok :: "nat \<Rightarrow> int \<Rightarrow> int \<times> 'c \<Rightarrow> 'c save_call \<Rightarrow> bool" where
  "call_ok attempts v0 stored (Starting k) = (v0 + int k \<le> fst stored \<and> k < attempts)"
| "call_ok attempts v0 stored (Loaded k v loaded) =
     (v0 + int k \<le> v \<and> v \<le> fst stored \<and> (v = fst stored \<longrightarrow> loaded = snd stored) \<and> k < attempts)"
| "call_ok attempts v0 stored Saved = True"
| "call_ok attempts v0 stored GaveUp = (v0 + int attempts \<le> fst stored)"
| "call_ok attempts v0 stored NotFound = False"

definition lock_inv ::
  "nat \<Rightarrow> (nat \<Rightarrow> 'c \<Rightarrow> 'c) \<Rightarrow> int \<times> 'c \<Rightarrow> 'c stored_trip \<times> 'c save_call list \<times> 'c commit list \<Rightarrow> bool" where
  "lock_inv attempts mutate start s =
     (case s of (stored, cs, hist) \<Rightarrow>
        stored = Some (fst start + int (length hist), replay mutate hist (snd start)) \<and>
        (\<forall>c\<in>set cs. call_ok attempts (fst start) (the stored) c) \<and>
        distinct (by_calls hist) \<and> (\<forall>i. i \<in> set (by_calls hist) \<longleftrightarrow> i < length cs \<and> cs ! i = Saved))"

lemma call_ok_commit: "call_ok attempts v0 stored c \<Longrightarrow> call_ok attempts v0 (fst stored + 1, x) c"
  by (cases c) auto

lemma after_save_cases:
  "after_save attempts k f v loaded stored =
     (if row_version stored = v then (Saved, Some (v + 1, f loaded))
      else (if Suc k = attempts then GaveUp else Starting (Suc k), stored))"
  by (simp add: after_save_def save_project_def)

lemma set_update_ball: "\<forall>x\<in>set xs. P x \<Longrightarrow> P y \<Longrightarrow> \<forall>x\<in>set (xs[i := y]). P x"
  using set_update_subset_insert [of xs i y] by blast

lemma lock_inv_step:
  assumes "save_step attempts mutate s s'" "lock_inv attempts mutate start s"
  shows "lock_inv attempts mutate start s'"
  using assms
proof (induction rule: save_step.induct)
  case (step_load i cs k v c hist)
  then have ok: "\<forall>c'\<in>set cs. call_ok attempts (fst start) (v, c) c'" by (auto simp: lock_inv_def)
  have "call_ok attempts (fst start) (v, c) (Starting k)" using ok step_load(1,2) nth_mem by metis
  then have "call_ok attempts (fst start) (v, c) (Loaded k v c)" by simp
  then have "\<forall>c'\<in>set (cs[i := Loaded k v c]). call_ok attempts (fst start) (v, c) c'"
    using set_update_ball [OF ok] by blast
  moreover have "cs[i := Loaded k v c] ! j = Saved \<longleftrightarrow> cs ! j = Saved" if "j < length cs" for j
    using step_load(1,2) that by (cases "j = i") auto
  ultimately show ?case using step_load(3) by (auto simp: lock_inv_def)
next
  case (step_missing i cs k hist)
  then show ?case by (simp add: lock_inv_def)
next
  case (step_save i cs k v loaded stored stored' hist)
  then obtain st where st: "stored = Some st" and ok: "\<forall>c\<in>set cs. call_ok attempts (fst start) st c"
    by (auto simp: lock_inv_def)
  have "call_ok attempts (fst start) st (Loaded k v loaded)" using ok step_save(1,2) nth_mem by metis
  then have l: "stored' = Some (fst st + 1, mutate i (snd st))"
    using step_save(3) by (auto simp: after_save_cases st row_version_def split: if_splits prod.splits)
  have "\<forall>c\<in>set cs. call_ok attempts (fst start) (the stored') c"
    unfolding l option.sel by (rule ballI, rule call_ok_commit, rule bspec [OF ok])
  then have "\<forall>c\<in>set (cs[i := Saved]). call_ok attempts (fst start) (the stored') c" by (rule set_update_ball) simp
  moreover have "i \<notin> set (by_calls hist)" using step_save(1,2,4) by (auto simp: lock_inv_def)
  moreover have "j \<in> set (by_calls (hist @ [ByCall i])) \<longleftrightarrow> j < length (cs[i := Saved]) \<and> cs[i := Saved] ! j = Saved" for j
    using step_save(1,4) by (cases "j = i") (auto simp: lock_inv_def)
  ultimately show ?case using step_save(4) by (simp add: lock_inv_def l st)
next
  case (step_stale i cs k v loaded stored c stored' hist)
  then obtain st where st: "stored = Some st" and ok: "\<forall>c\<in>set cs. call_ok attempts (fst start) st c"
    by (auto simp: lock_inv_def)
  have l: "call_ok attempts (fst start) st (Loaded k v loaded)" using ok step_stale(1,2) nth_mem by metis
  have c: "stored' = stored" "v \<noteq> fst st" "c = (if Suc k = attempts then GaveUp else Starting (Suc k))"
    using step_stale(3,4) by (auto simp: after_save_cases st row_version_def split: if_splits prod.splits)
  have "call_ok attempts (fst start) st c" using l c(2) by (auto simp: c(3))
  then have "\<forall>x\<in>set (cs[i := c]). call_ok attempts (fst start) st x" using set_update_ball [OF ok] by blast
  moreover have "cs[i := c] ! j = Saved \<longleftrightarrow> cs ! j = Saved" if "j < length cs" for j
    using step_stale(1,2,4) that by (cases "j = i") auto
  ultimately show ?case using step_stale(5) by (auto simp: lock_inv_def c(1) st)
next
  case (step_other stored cs hist f)
  then obtain st where st: "stored = Some st" and ok: "\<forall>c\<in>set cs. call_ok attempts (fst start) st c"
    by (auto simp: lock_inv_def)
  have w: "payload_write f stored = Some (fst st + 1, f (snd st))" by (simp add: payload_write_def st case_prod_beta)
  have "\<forall>c\<in>set cs. call_ok attempts (fst start) (fst st + 1, f (snd st)) c"
    by (rule ballI, rule call_ok_commit, rule bspec [OF ok])
  then show ?case using step_other w unfolding st by (simp add: lock_inv_def ac_simps)
qed

lemma lock_inv_reachable:
  "(save_step attempts mutate)\<^sup>*\<^sup>* s s' \<Longrightarrow> lock_inv attempts mutate start s \<Longrightarrow> lock_inv attempts mutate start s'"
  by (induction rule: rtranclp_induct) (auto intro: lock_inv_step)

lemma length_cs_step: "save_step attempts mutate s s' \<Longrightarrow> length (fst (snd s')) = length (fst (snd s))"
  by (induction rule: save_step.induct) auto

lemma length_cs: "(save_step attempts mutate)\<^sup>*\<^sup>* s s' \<Longrightarrow> length (fst (snd s')) = length (fst (snd s))"
  by (induction rule: rtranclp_induct) (auto dest: length_cs_step)

lemma by_calls_length: "length (by_calls hist) \<le> length hist"
  by (simp add: by_calls_def List.map_filter_def)

lemma by_calls_only: "(\<forall>e\<in>set hist. \<exists>i. e = ByCall i) \<Longrightarrow> length (by_calls hist) = length hist"
  by (induction hist) (auto simp: by_calls_def List.map_filter_simps)

subsection \<open>Properties\<close>

lemma can_step:
  assumes "i < length cs" "cs ! i \<noteq> Saved" "cs ! i \<noteq> GaveUp" "cs ! i \<noteq> NotFound"
  shows "\<exists>s' c. save_step attempts mutate (Some st, cs, hist) s' \<and> fst (snd s') = cs[i := c] \<and> c \<noteq> cs ! i"
proof (cases "cs ! i")
  case (Starting k)
  have "save_step attempts mutate (Some st, cs, hist) (Some st, cs[i := Loaded k (fst st) (snd st)], hist)"
    using save_step.step_load [OF assms(1) Starting, of attempts mutate "fst st" "snd st" hist] by simp
  moreover have "Loaded k (fst st) (snd st) \<noteq> cs ! i" by (simp add: Starting)
  ultimately show ?thesis by force
next
  case (Loaded k v loaded)
  let ?c = "fst (after_save attempts k (mutate i) v loaded (Some st))"
  let ?st = "snd (after_save attempts k (mutate i) v loaded (Some st))"
  have "?c \<noteq> cs ! i" using Loaded by (cases "Suc k = attempts") (simp_all add: after_save_cases)
  moreover have "\<exists>h. save_step attempts mutate (Some st, cs, hist) (?st, cs[i := ?c], h)"
  proof (cases "?c = Saved")
    case True
    then have "after_save attempts k (mutate i) v loaded (Some st) = (Saved, ?st)" by (simp add: prod_eq_iff)
    from save_step.step_save [of i cs k v loaded attempts mutate, OF assms(1) Loaded this, of hist] True
    show ?thesis by auto
  next
    case False
    then have "after_save attempts k (mutate i) v loaded (Some st) = (?c, ?st)" by simp
    from save_step.step_stale [of i cs k v loaded attempts mutate, OF assms(1) Loaded this False, of hist]
    show ?thesis by blast
  qed
  ultimately show ?thesis by force
qed (use assms in simp_all)

text \<open>C5. No edit of a trip is lost. However the load and save steps of concurrent edits interleave with each
  other and with other writers, the stored content is always the committed changes applied one after the
  other in the order they were committed; a call that returned has its callback among them exactly
  once, a call that gave up or has not ended not at all. A call gives up only after as many commits of
  others as it has attempts, so as many concurrent edits as there are attempts, with no other
  writer, all succeed; and a call that has not ended can always take a step.\<close>

theorem no_edit_is_lost:
  assumes "(save_step attempts mutate)\<^sup>*\<^sup>* (Some (v, c), replicate n (Starting 0), []) (stored, cs, hist)" "0 < attempts"
  shows "stored = Some (v + int (length hist), replay mutate hist c) \<and>
    distinct (by_calls hist) \<and> (\<forall>i<n. i \<in> set (by_calls hist) \<longleftrightarrow> cs ! i = Saved) \<and>
    NotFound \<notin> set cs \<and> (GaveUp \<in> set cs \<longrightarrow> attempts \<le> length hist) \<and>
    ((\<forall>e\<in>set hist. \<exists>i. e = ByCall i) \<and> n \<le> attempts \<longrightarrow> GaveUp \<notin> set cs) \<and>
    (\<forall>i<n. cs ! i \<noteq> Saved \<and> cs ! i \<noteq> GaveUp \<longrightarrow>
       (\<exists>s' c'. save_step attempts mutate (stored, cs, hist) s' \<and> fst (snd s') = cs[i := c'] \<and> c' \<noteq> cs ! i))"
proof -
  have "lock_inv attempts mutate (v, c) (Some (v, c), replicate n (Starting 0), [])"
    using assms(2) by (auto simp: lock_inv_def replay_def by_calls_def List.map_filter_simps)
  then have inv: "lock_inv attempts mutate (v, c) (stored, cs, hist)" using lock_inv_reachable [OF assms(1)] by blast
  then have st: "stored = Some (v + int (length hist), replay mutate hist c)" by (simp add: lock_inv_def)
  have ok: "\<forall>x\<in>set cs. call_ok attempts v (v + int (length hist), replay mutate hist c) x"
    using inv by (auto simp: lock_inv_def)
  have len: "length cs = n" using length_cs [OF assms(1)] by simp
  have found: "NotFound \<notin> set cs" using ok call_ok.simps(5) by blast
  have gave: "attempts \<le> length hist" if "GaveUp \<in> set cs" using bspec [OF ok that] by simp
  have "GaveUp \<notin> set cs" if only: "\<forall>e\<in>set hist. \<exists>i. e = ByCall i" and n: "n \<le> attempts"
  proof
    assume g: "GaveUp \<in> set cs"
    then obtain g' where g': "g' < n" "cs ! g' = GaveUp" using len by (metis in_set_conv_nth)
    have "set (by_calls hist) \<subseteq> {..<n} - {g'}" using inv g' len by (auto simp: lock_inv_def)
    then have "card (set (by_calls hist)) \<le> card ({..<n} - {g'})" by (intro card_mono) auto
    moreover have "card (set (by_calls hist)) = length hist"
      using inv by_calls_only [OF only] by (simp add: lock_inv_def distinct_card)
    moreover have "card ({..<n} - {g'}) < n" using g' by simp
    ultimately show False using gave [OF g] n by linarith
  qed
  moreover have "\<exists>s' c'. save_step attempts mutate (stored, cs, hist) s' \<and> fst (snd s') = cs[i := c'] \<and> c' \<noteq> cs ! i"
    if i: "i < n" "cs ! i \<noteq> Saved" "cs ! i \<noteq> GaveUp" for i
  proof -
    have "cs ! i \<noteq> NotFound" using found i(1) len nth_mem by metis
    then show ?thesis unfolding st using i len by (intro can_step) simp_all
  qed
  ultimately show ?thesis using inv st found gave len by (simp add: lock_inv_def)
qed

theorem no_edit_is_lost_witness:
  "\<exists>cs hist. (save_step DEFAULT_ATTEMPTS (\<lambda>i xs. xs @ [i]))\<^sup>*\<^sup>*
       (Some (7, []), replicate 2 (Starting 0), []) (Some (9, [1, 0]), cs, hist) \<and>
     hist = [ByCall 1, ByCall 0] \<and> cs = [Saved, Saved] \<and> GaveUp \<notin> set cs \<and> replay (\<lambda>i xs. xs @ [i]) hist [] = [1, 0]"
proof -
  let ?s = "save_step DEFAULT_ATTEMPTS (\<lambda>i xs. xs @ [i])"
  have a: "?s (Some (7, []), [Starting 0, Starting 0], []) (Some (7, []), [Loaded 0 7 [], Starting 0], [])"
    using save_step.step_load [of 0 "[Starting 0, Starting 0]" 0 DEFAULT_ATTEMPTS _ 7 "[]" "[]"] by simp
  have b: "?s (Some (7, []), [Loaded 0 7 [], Starting 0], []) (Some (7, []), [Loaded 0 7 [], Loaded 0 7 []], [])"
    using save_step.step_load [of 1 "[Loaded 0 7 [], Starting 0]" 0 DEFAULT_ATTEMPTS _ 7 "[]" "[]"] by simp
  have c: "?s (Some (7, []), [Loaded 0 7 [], Loaded 0 7 []], []) (Some (8, [1]), [Loaded 0 7 [], Saved], [ByCall 1])"
    using save_step.step_save [of 1 "[Loaded 0 7 [], Loaded 0 7 []]" 0 7 "[]" DEFAULT_ATTEMPTS "\<lambda>i xs. xs @ [i]" "Some (7, [])" "Some (8, [1])" "[]"]
    by (simp add: after_save_cases row_version_def)
  have d: "?s (Some (8, [1]), [Loaded 0 7 [], Saved], [ByCall 1]) (Some (8, [1]), [Starting 1, Saved], [ByCall 1])"
    using save_step.step_stale [of 0 "[Loaded 0 7 [], Saved]" 0 7 "[]" DEFAULT_ATTEMPTS "\<lambda>i xs. xs @ [i]" "Some (8, [1])" "Starting 1" "Some (8, [1])" "[ByCall 1]"]
    by (simp add: after_save_cases row_version_def DEFAULT_ATTEMPTS_def)
  have e: "?s (Some (8, [1]), [Starting 1, Saved], [ByCall 1]) (Some (8, [1]), [Loaded 1 8 [1], Saved], [ByCall 1])"
    using save_step.step_load [of 0 "[Starting 1, Saved]" 1 DEFAULT_ATTEMPTS "\<lambda>i xs. xs @ [i]" 8 "[1]" "[ByCall 1]"] by simp
  have f: "?s (Some (8, [1]), [Loaded 1 8 [1], Saved], [ByCall 1]) (Some (9, [1, 0]), [Saved, Saved], [ByCall 1, ByCall 0])"
    using save_step.step_save [of 0 "[Loaded 1 8 [1], Saved]" 1 8 "[1]" DEFAULT_ATTEMPTS "\<lambda>i xs. xs @ [i]" "Some (8, [1])" "Some (9, [1, 0])" "[ByCall 1]"]
    by (simp add: after_save_cases row_version_def)
  have "?s\<^sup>*\<^sup>* (Some (7, []), replicate 2 (Starting 0), []) (Some (9, [1, 0]), [Saved, Saved], [ByCall 1, ByCall 0])"
    using a b c d e f by (simp add: numeral_2_eq_2)
  from no_edit_is_lost [OF this] this show ?thesis by (simp add: DEFAULT_ATTEMPTS_def)
qed

text \<open>
  A trip deleted between load and save comes back when its counter was 0, that of the row
  the save creates; a later one is refused, and the next load finds no trip.
\<close>

lemma deleted_trip_saved:
  "after_save attempts k f v loaded None =
     (if v = 0 then (Saved, Some (1, f loaded)) else (if Suc k = attempts then GaveUp else Starting (Suc k), None))"
  by (auto simp: after_save_cases row_version_def)

end
