(* ===== verification/JsonText.thy ===== *)
theory JsonText
  imports PyNumbers Json
begin

text \<open>
  \<open>json.loads\<close> on a text of UTF-8 bytes, as the code uses it: with the constants \<open>NaN\<close>, \<open>Infinity\<close> and
  \<open>-Infinity\<close> read (Python's default) or refused (\<open>parse_constant\<close> raising). \<open>None\<close> stands for any error. An
  integer of more than 4300 digits is refused, as Python does; nesting is not bounded, where Python raises
  \<open>RecursionError\<close> at a depth that depends on the call.
\<close>

definition is_ws :: "char \<Rightarrow> bool" where
  "is_ws c \<longleftrightarrow> c = CHR '' '' \<or> c = CHR 0x09 \<or> c = CHR 0x0A \<or> c = CHR 0x0D"

definition skip_ws :: "string \<Rightarrow> string" where
  "skip_ws s = dropWhile is_ws s"

subsection \<open>Strings\<close>

definition hex_val :: "char \<Rightarrow> int option" where
  "hex_val c =
     (let n = of_char c :: int in
      if 48 \<le> n \<and> n \<le> 57 then Some (n - 48)
      else if 97 \<le> n \<and> n \<le> 102 then Some (n - 87)
      else if 65 \<le> n \<and> n \<le> 70 then Some (n - 55) else None)"

fun hex_digits :: "nat \<Rightarrow> int \<Rightarrow> string \<Rightarrow> (int \<times> string) option" where
  "hex_digits 0 acc s = Some (acc, s)"
| "hex_digits (Suc k) acc [] = None"
| "hex_digits (Suc k) acc (c # s) = (case hex_val c of None \<Rightarrow> None | Some d \<Rightarrow> hex_digits k (16 * acc + d) s)"

text \<open>The bytes of a code point; a lone surrogate takes the three bytes its number gives.\<close>

definition utf8 :: "int \<Rightarrow> string" where
  "utf8 u =
     map char_of
      (if u < 128 then [u]
       else if u < 2048 then [192 + u div 64, 128 + u mod 64]
       else if u < 65536 then [224 + u div 4096, 128 + u div 64 mod 64, 128 + u mod 64]
       else [240 + u div 262144, 128 + u div 4096 mod 64, 128 + u div 64 mod 64, 128 + u mod 64])"

text \<open>After \<open>\u\<close>: four digits, and a following low surrogate joined to a high one.\<close>

definition unicode_escape :: "string \<Rightarrow> (string \<times> string) option" where
  "unicode_escape s =
     (case hex_digits 4 0 s of
        None \<Rightarrow> None
      | Some (u, r) \<Rightarrow>
          if 55296 \<le> u \<and> u \<le> 56319 \<and> take 2 r = [CHR 0x5C, CHR ''u''] then
            (case hex_digits 4 0 (drop 2 r) of
               None \<Rightarrow> None
             | Some (u2, r2) \<Rightarrow>
                 if 56320 \<le> u2 \<and> u2 \<le> 57343 then Some (utf8 (65536 + (u - 55296) * 1024 + (u2 - 56320)), r2)
                 else Some (utf8 u, r))
          else Some (utf8 u, r))"

definition simple_escape :: "char \<Rightarrow> char option" where
  "simple_escape c =
     (if c = CHR 0x22 \<or> c = CHR 0x5C \<or> c = CHR ''/'' then Some c
      else if c = CHR ''b'' then Some (CHR 0x08) else if c = CHR ''f'' then Some (CHR 0x0C)
      else if c = CHR ''n'' then Some (CHR 0x0A) else if c = CHR ''r'' then Some (CHR 0x0D)
      else if c = CHR ''t'' then Some (CHR 0x09) else None)"

text \<open>The rest of a string after its opening quote. The comparison of lengths always holds.\<close>

fun scan_string :: "string \<Rightarrow> (string \<times> string) option" where
  "scan_string [] = None"
| "scan_string (c # s) =
     (if c = CHR 0x22 then Some ([], s)
      else if c = CHR 0x5C then
        (case s of
           [] \<Rightarrow> None
         | e # t \<Rightarrow>
             if e = CHR ''u'' then
               (case unicode_escape t of
                  None \<Rightarrow> None
                | Some (bytes, r) \<Rightarrow>
                    if length r \<le> length t then map_option (apfst ((@) bytes)) (scan_string r) else None)
             else
               (case simple_escape e of
                  None \<Rightarrow> None
                | Some x \<Rightarrow> map_option (apfst ((#) x)) (scan_string t)))
      else if (of_char c :: nat) < 32 then None
      else map_option (apfst ((#) c)) (scan_string s))"

subsection \<open>Numbers\<close>

text \<open>The longest prefix of the grammar of numbers: an integer part without leading zeros, then optionally
  a fraction and an exponent.\<close>

definition scan_int :: "string \<Rightarrow> (string \<times> string) option" where
  "scan_int s =
     (let (sgn, t) = (if s \<noteq> [] \<and> hd s = CHR ''-'' then (''-'', tl s) else ([], s)); ds = takeWhile is_digit t in
      if ds = [] then None
      else if hd ds = CHR ''0'' then Some (sgn @ ''0'', tl t)
      else Some (sgn @ ds, drop (length ds) t))"

definition scan_frac :: "string \<Rightarrow> string \<times> string" where
  "scan_frac s =
     (let ds = takeWhile is_digit (tl s) in
      if s \<noteq> [] \<and> hd s = CHR ''.'' \<and> ds \<noteq> [] then (CHR ''.'' # ds, drop (length ds) (tl s)) else ([], s))"

definition scan_exp :: "string \<Rightarrow> string \<times> string" where
  "scan_exp s =
     (let t = tl s; (sgn, u) = (if t \<noteq> [] \<and> (hd t = CHR ''+'' \<or> hd t = CHR ''-'') then ([hd t], tl t) else ([], t));
          ds = takeWhile is_digit u in
      if s \<noteq> [] \<and> (hd s = CHR ''e'' \<or> hd s = CHR ''E'') \<and> ds \<noteq> [] then (CHR ''e'' # sgn @ ds, drop (length ds) u) else ([], s))"

definition INT_MAX_STR_DIGITS :: nat where "INT_MAX_STR_DIGITS = 4300"

text \<open>A literal too large for a float reads as an infinity.\<close>

definition as_double :: "pyfloat \<Rightarrow> pyfloat" where
  "as_double f =
     (case f of Fin x \<Rightarrow> if float_limit \<le> x then PInf else if x \<le> - float_limit then NInf else f | _ \<Rightarrow> f)"

definition scan_number :: "string \<Rightarrow> (json \<times> string) option" where
  "scan_number s =
     (case scan_int s of
        None \<Rightarrow> None
      | Some (i, r) \<Rightarrow>
          let (f, r1) = scan_frac r; (e, r2) = scan_exp r1 in
          if f = [] \<and> e = [] then
            (if length (filter is_digit i) > INT_MAX_STR_DIGITS then None
             else map_option (\<lambda>n. (JInt n, r)) (py_int i))
          else map_option (\<lambda>x. (JFloat (as_double x), r2)) (py_float (i @ f @ e)))"

subsection \<open>Values\<close>

definition starts :: "string \<Rightarrow> string \<Rightarrow> string option" where
  "starts w s = (if take (length w) s = w then Some (drop (length w) s) else None)"

definition literals :: "bool \<Rightarrow> (string \<times> json) list" where
  "literals constants =
     [(''null'', JNull), (''true'', JBool True), (''false'', JBool False)] @
     (if constants then [(''NaN'', JFloat NaN), (''Infinity'', JFloat PInf), (''-Infinity'', JFloat NInf)] else [])"

fun scan_literal :: "(string \<times> json) list \<Rightarrow> string \<Rightarrow> (json \<times> string) option" where
  "scan_literal [] s = None"
| "scan_literal ((w, v) # ws) s = (case starts w s of Some r \<Rightarrow> Some (v, r) | None \<Rightarrow> scan_literal ws s)"

text \<open>A repeated key keeps its place and takes the last value.\<close>

fun dict_put :: "string \<Rightarrow> json \<Rightarrow> (string \<times> json) list \<Rightarrow> (string \<times> json) list" where
  "dict_put k v [] = [(k, v)]"
| "dict_put k v ((k', v') # kvs) = (if k = k' then (k, v) # kvs else (k', v') # dict_put k v kvs)"

text \<open>A value, the elements of a list after \<open>[\<close> or a comma, and the members of an object after \<open>{\<close> or a
  comma, each with what follows. The comparisons of lengths always hold.\<close>

function (sequential) parse_value :: "bool \<Rightarrow> string \<Rightarrow> (json \<times> string) option"
  and parse_items :: "bool \<Rightarrow> json list \<Rightarrow> string \<Rightarrow> (json list \<times> string) option"
  and parse_members :: "bool \<Rightarrow> (string \<times> json) list \<Rightarrow> string \<Rightarrow> ((string \<times> json) list \<times> string) option" where
  "parse_value k [] = None"
| "parse_value k (c # s) =
     (if c = CHR 0x22 then map_option (apfst JStr) (scan_string s)
      else if c = CHR ''['' then
        (case skip_ws s of
           [] \<Rightarrow> None
         | d # r \<Rightarrow> if d = CHR '']'' then Some (JList [], r)
                   else if length (skip_ws s) \<le> length s then map_option (apfst JList) (parse_items k [] (skip_ws s)) else None)
      else if c = CHR 0x7B then
        (case skip_ws s of
           [] \<Rightarrow> None
         | d # r \<Rightarrow> if d = CHR 0x7D then Some (JDict [], r)
                   else if length (skip_ws s) \<le> length s then map_option (apfst JDict) (parse_members k [] (skip_ws s)) else None)
      else (case scan_number (c # s) of Some x \<Rightarrow> Some x | None \<Rightarrow> scan_literal (literals k) (c # s)))"
| "parse_items k acc s =
     (case parse_value k s of
        None \<Rightarrow> None
      | Some (v, r) \<Rightarrow>
          (case skip_ws r of
             [] \<Rightarrow> None
           | d # t \<Rightarrow>
               if d = CHR '']'' then Some (acc @ [v], t)
               else if d = CHR '','' \<and> length (skip_ws t) < length s then parse_items k (acc @ [v]) (skip_ws t)
               else None))"
| "parse_members k acc s =
     (if s = [] \<or> hd s \<noteq> CHR 0x22 then None
      else
        (case scan_string (tl s) of
           None \<Rightarrow> None
         | Some (key, r) \<Rightarrow>
             (case skip_ws r of
                [] \<Rightarrow> None
              | colon # r1 \<Rightarrow>
                  if colon = CHR '':'' \<and> length (skip_ws r1) < length s then
                    (case parse_value k (skip_ws r1) of
                       None \<Rightarrow> None
                     | Some (v, r2) \<Rightarrow>
                         (case skip_ws r2 of
                            [] \<Rightarrow> None
                          | d # t \<Rightarrow>
                              if d = CHR 0x7D then Some (dict_put key v acc, t)
                              else if d = CHR '','' \<and> length (skip_ws t) < length s
                              then parse_members k (dict_put key v acc) (skip_ws t)
                              else None))
                  else None)))"
  by pat_completeness auto
termination
  by (relation "measure (\<lambda>x. case x of Inl (k, s) \<Rightarrow> 2 * length s | Inr (Inl (k, acc, s)) \<Rightarrow> 2 * length s + 1
      | Inr (Inr (k, acc, s)) \<Rightarrow> 2 * length s + 1)") auto

text \<open>\<open>json.loads\<close>.\<close>

definition json_loads :: "bool \<Rightarrow> string \<Rightarrow> json option" where
  "json_loads constants s =
     (case parse_value constants (skip_ws s) of
        Some (v, r) \<Rightarrow> if skip_ws r = [] then Some v else None
      | None \<Rightarrow> None)"

subsection \<open>The comparisons of lengths\<close>

lemma skip_ws_le: "length (skip_ws s) \<le> length s"
  by (simp add: skip_ws_def length_dropWhile_le)

lemma hex_digits_le: "hex_digits k acc s = Some (u, r) \<Longrightarrow> length r \<le> length s"
proof (induction k acc s rule: hex_digits.induct)
  case (3 k acc c s)
  then show ?case by (auto split: option.splits)
qed auto

lemma unicode_escape_le: "unicode_escape s = Some (b, r) \<Longrightarrow> length r \<le> length s"
  by (auto simp: unicode_escape_def split: option.splits if_splits dest!: hex_digits_le)

lemma scan_string_shorter: "scan_string s = Some (x, r) \<Longrightarrow> length r < length s"
proof (induction s arbitrary: x r rule: scan_string.induct)
  case (2 c s)
  show ?case
  proof (cases "c = CHR 0x5C")
    case False
    then show ?thesis using 2 by (force split: if_splits)
  next
    case True
    then obtain e t where s: "s = e # t" using "2.prems" by (cases s) auto
    show ?thesis
    proof (cases "e = CHR ''u''")
      case u: True
      then obtain b q where q: "unicode_escape t = Some (b, q)" "length q \<le> length t" "map_option (apfst ((@) b)) (scan_string q) = Some (x, r)"
        using "2.prems" True s by (auto split: option.splits if_splits)
      then obtain y where "scan_string q = Some (y, r)" by auto
      then have "length r < length q" using "2.IH"(1) True s u q by auto
      then show ?thesis using q(2) s by simp
    next
      case False
      then show ?thesis using 2 True s by (force split: option.splits)
    qed
  qed
qed simp

lemma scan_frac_le: "scan_frac s = (f, r) \<Longrightarrow> length r \<le> length s"
  by (auto simp: scan_frac_def Let_def split: if_splits)

lemma scan_exp_le: "scan_exp s = (f, r) \<Longrightarrow> length r \<le> length s"
  by (auto simp: scan_exp_def Let_def split: if_splits prod.splits)

lemma scan_int_shorter: "scan_int s = Some (i, r) \<Longrightarrow> length r < length s"
  by (cases s) (auto simp: scan_int_def Let_def neq_Nil_conv split: if_splits prod.splits)

lemma scan_number_shorter: "scan_number s = Some (v, r) \<Longrightarrow> length r < length s"
  by (auto simp: scan_number_def Let_def split: option.splits if_splits prod.splits dest!: scan_int_shorter scan_frac_le scan_exp_le)

lemma scan_literal_shorter: "\<forall>(w, v)\<in>set ws. w \<noteq> [] \<Longrightarrow> s \<noteq> [] \<Longrightarrow> scan_literal ws s = Some (v, r) \<Longrightarrow> length r < length s"
  by (induction ws s rule: scan_literal.induct) (auto simp: starts_def split: if_splits)

lemma literals_nonempty: "\<forall>(w, v)\<in>set (literals k). w \<noteq> []"
  by (auto simp: literals_def)

lemma parsed_shorter:
  "parse_value k s = Some (v, r) \<Longrightarrow> length r < length s"
  "parse_items k acc s = Some (vs, r) \<Longrightarrow> length r < length s"
  "parse_members k kvs s = Some (d, r) \<Longrightarrow> length r < length s"
proof (induction k s and k acc s and k kvs s arbitrary: v r and vs r and d r
    rule: parse_value_parse_items_parse_members.induct)
  case (2 k c s)
  note le = skip_ws_le [of s]
  show ?case
  proof (cases "c = CHR 0x22")
    case True
    then show ?thesis using "2.prems" scan_string_shorter by fastforce
  next
    case nostr: False
    show ?thesis
    proof (cases "c = CHR ''['' \<or> c = CHR 0x7B")
      case True
      then show ?thesis using 2 nostr le by (cases "skip_ws s") (fastforce split: if_splits)+
    next
      case False
      then show ?thesis
        using "2.prems" nostr scan_number_shorter [of "c # s"] scan_literal_shorter [OF literals_nonempty, of "c # s"]
        by (auto split: option.splits)
    qed
  qed
next
  case (3 k acc s)
  obtain v q where v: "parse_value k s = Some (v, q)" using "3.prems" by (auto split: option.splits)
  have q: "length q < length s" by (rule "3.IH"(1) [OF v])
  obtain e t where t: "skip_ws q = e # t" using "3.prems" v by (auto split: list.splits)
  have lt: "length t < length s" using skip_ws_le [of q] q t by simp
  show ?case
  proof (cases "e = CHR '']''")
    case True
    then show ?thesis using "3.prems" v t lt by simp
  next
    case False
    then have c: "e = CHR '','' \<and> length (skip_ws t) < length s" "parse_items k (acc @ [v]) (skip_ws t) = Some (vs, r)"
      using "3.prems" v t by (auto split: if_splits)
    show ?thesis using "3.IH"(2) [OF v refl t False c(1) c(2)] c(1) by simp
  qed
next
  case (4 k kvs s)
  obtain key q where s: "s \<noteq> []" "hd s = CHR 0x22" "scan_string (tl s) = Some (key, q)"
    using "4.prems" by (auto split: option.splits if_splits)
  obtain colon r1 where c: "skip_ws q = colon # r1" "colon = CHR '':'' \<and> length (skip_ws r1) < length s"
    using "4.prems" s by (auto split: option.splits if_splits list.splits)
  obtain v r2 where v: "parse_value k (skip_ws r1) = Some (v, r2)" using "4.prems" s c by (auto split: option.splits)
  obtain e t where t: "skip_ws r2 = e # t" using "4.prems" s c v by (auto split: list.splits)
  have "length r2 < length (skip_ws r1)" using "4.IH"(1) s c v by blast
  then have lt: "length t < length s" using skip_ws_le [of r2] t c(2) by simp
  show ?case
  proof (cases "e = CHR 0x7D")
    case True
    then show ?thesis using "4.prems" s c v t lt by simp
  next
    case False
    then have m: "e = CHR '','' \<and> length (skip_ws t) < length s" "parse_members k (dict_put key v kvs) (skip_ws t) = Some (d, r)"
      using "4.prems" s c v t by (auto split: if_splits)
    have "length r < length (skip_ws t)" using "4.IH"(2) s c v t False m by blast
    then show ?thesis using m(1) by simp
  qed
qed simp

text \<open>So the comparisons change nothing.\<close>

lemma parse_items_unfold:
  "parse_items k acc s =
     (case parse_value k s of
        None \<Rightarrow> None
      | Some (v, r) \<Rightarrow>
          (case skip_ws r of
             [] \<Rightarrow> None
           | d # t \<Rightarrow> if d = CHR '']'' then Some (acc @ [v], t) else if d = CHR '','' then parse_items k (acc @ [v]) (skip_ws t) else None))"
proof -
  have "length (skip_ws t) < length s" if "parse_value k s = Some (v, r)" "skip_ws r = d # t" for v r d t
    using parsed_shorter(1) [OF that(1)] skip_ws_le [of r] skip_ws_le [of t] that(2) by simp
  then show ?thesis by (subst parse_items.simps) (auto split: option.splits list.splits)
qed

lemma json_loads_examples:
  "json_loads False ''[[1, -2], []] '' = Some (JList [JList [JInt 1, JInt (- 2)], JList []])"
  "json_loads False ''[01]'' = None"
  "json_loads False ''[NaN]'' = None"
  "json_loads True [CHR 0x7B, CHR 0x22, CHR ''a'', CHR 0x22, CHR '':'', CHR ''1'', CHR '','', CHR 0x22, CHR ''a'', CHR 0x22, CHR '':'', CHR ''2'', CHR 0x7D] =
     Some (JDict [(''a'', JInt 2)])"
  by code_simp+

end
