(* ===== verification/IsoTime.thy ===== *)
theory IsoTime
  imports Calendar
begin

text \<open>
  \<open>datetime.fromisoformat\<close> and \<open>datetime.isoformat\<close> of Python 3.11 and later, which stored and exported
  times go through: a date, optionally any one character and a time \<open>HH[[:]MM[[:]SS[.f+]]]\<close> with an
  offset from UTC. \<open>None\<close> stands for \<open>ValueError\<close>. The functions follow CPython, which reads a text up to
  its terminating NUL. A separator beyond ASCII takes several bytes and is not read here.
\<close>

record pydatetime =
  dt_date :: ymd
  dt_hour :: int
  dt_minute :: int
  dt_second :: int
  dt_micro :: int
  dt_offset :: "int option"   \<comment> \<open>microseconds east of UTC\<close>

definition head0 :: "string \<Rightarrow> char" where
  "head0 s = (case s of [] \<Rightarrow> CHR 0x00 | c # _ \<Rightarrow> c)"

text \<open>The fields of a clock reading: \<open>i\<close> are left to read, the reading ends after \<open>n\<close> characters. The result
  is the fields and either whether more text follows, or where the fraction of a second starts.\<close>

fun clock_fields :: "nat \<Rightarrow> bool \<Rightarrow> bool \<Rightarrow> string \<Rightarrow> nat \<Rightarrow> int list \<Rightarrow> (int list \<times> (bool + string \<times> nat)) option" where
  "clock_fields 0 first colons s n vals = Some (vals, Inr (s, n))"
| "clock_fields (Suc i) first colons s n vals =
     (case parse_digits 2 s of
        None \<Rightarrow> None
      | Some (v, q) \<Rightarrow>
          let c = head0 q; colons' = (if first then c = CHR '':'' else colons) in
          if n \<le> 3 then Some (vals @ [v], Inl (c \<noteq> CHR 0x00))
          else if colons' \<and> c = CHR '':'' then clock_fields i False colons' (tl q) (n - 3) (vals @ [v])
          else if c = CHR ''.'' \<or> c = CHR '','' then Some (vals @ [v], Inr (tl q, n - 3))
          else if \<not> colons' then clock_fields i False colons' q (n - 2) (vals @ [v])
          else None)"

definition parse_clock :: "string \<Rightarrow> nat \<Rightarrow> (int list \<times> int \<times> bool) option" where
  "parse_clock s n =
     (case clock_fields 3 True True s n [] of
        None \<Rightarrow> None
      | Some (vals, Inl left) \<Rightarrow> Some (take 3 (vals @ [0, 0, 0]), 0, left)
      | Some (vals, Inr (p, m)) \<Rightarrow>
          (case parse_digits (min 6 m) p of
             None \<Rightarrow> None
           | Some (u, rest) \<Rightarrow>
               Some (take 3 (vals @ [0, 0, 0]), u * 10 ^ (6 - min 6 m), head0 (dropWhile is_digit rest) \<noteq> CHR 0x00)))"

definition is_tz_char :: "char \<Rightarrow> bool" where
  "is_tz_char c \<longleftrightarrow> c = CHR ''+'' \<or> c = CHR ''-'' \<or> c = CHR ''Z''"

definition parse_time :: "string \<Rightarrow> (int list \<times> int \<times> int option) option" where
  "parse_time s =
     (let clock = takeWhile (\<lambda>c. \<not> is_tz_char c) s; tz = drop (length clock) s in
      case parse_clock s (length clock) of
        None \<Rightarrow> None
      | Some (vals, u, left) \<Rightarrow>
          (case tz of
             [] \<Rightarrow> if left then None else Some (vals, u, None)
           | c # q \<Rightarrow>
               if c = CHR ''Z'' then (if head0 q \<noteq> CHR 0x00 then None else Some (vals, u, Some 0))
               else
                 (case parse_clock q (length q) of
                    None \<Rightarrow> None
                  | Some (ovals, us, oleft) \<Rightarrow>
                      if oleft then None
                      else
                        (let sgn = (if c = CHR ''-'' then - 1 else 1);
                             off = sgn * (ovals ! 0 * 3600 + ovals ! 1 * 60 + ovals ! 2) in
                         Some (vals, u, Some (if off = 0 then 0 else off * 10 ^ 6 + sgn * us))))))"

text \<open>Where the date ends.\<close>

definition separator_location :: "string \<Rightarrow> nat option" where
  "separator_location s =
     (let n = length s; digits = length (takeWhile is_digit (drop 7 s)) in
      if n = 7 then Some 7
      else if s ! 4 = CHR ''-'' then
        (if s ! 5 = CHR ''W'' then
           (if n > 8 \<and> s ! 8 = CHR ''-'' then
              (if n = 9 then None else if n > 10 \<and> is_digit (s ! 10) then Some 8 else Some 10)
            else Some 8)
         else Some 10)
      else if s ! 4 = CHR ''W'' then
        (if 7 + digits < 9 then Some (7 + digits) else if even (7 + digits) then Some 7 else Some 8)
      else Some 8)"

definition time_part :: "string \<Rightarrow> nat \<Rightarrow> (int list \<times> int \<times> int option) option" where
  "time_part s k = (if length s \<le> k then Some ([0, 0, 0], 0, None) else parse_time (drop (k + 1) s))"

definition valid_offset :: "int option \<Rightarrow> bool" where
  "valid_offset off = (case off of None \<Rightarrow> True | Some x \<Rightarrow> \<bar>x\<bar> < 86400 * 10 ^ 6)"

definition parse_datetime :: "string \<Rightarrow> pydatetime option" where
  "parse_datetime s =
     (if length s < 7 then None
      else
        Option.bind (separator_location s) (\<lambda>k.
        Option.bind (fromisoformat (take k s)) (\<lambda>d.
        Option.bind (time_part s k) (\<lambda>(vals, u, off).
        if vals ! 0 \<le> 23 \<and> vals ! 1 \<le> 59 \<and> vals ! 2 \<le> 59 \<and> valid_offset off
        then Some \<lparr>dt_date = d, dt_hour = vals ! 0, dt_minute = vals ! 1, dt_second = vals ! 2, dt_micro = u, dt_offset = off\<rparr>
        else None))))"

subsection \<open>Printing\<close>

definition pad2 :: "int \<Rightarrow> string" where "pad2 n = pad_nat 2 (nat n)"

definition format_offset :: "int \<Rightarrow> string" where
  "format_offset off =
     (let a = \<bar>off\<bar>; secs = a div 10 ^ 6; us = a mod 10 ^ 6; ss = secs mod 60 in
      (if off < 0 then ''-'' else ''+'') @ pad2 (secs div 3600) @ '':'' @ pad2 (secs div 60 mod 60) @
      (if ss = 0 \<and> us = 0 then [] else '':'' @ pad2 ss @ (if us = 0 then [] else ''.'' @ pad_nat 6 (nat us))))"

definition datetime_isoformat :: "pydatetime \<Rightarrow> string" where
  "datetime_isoformat t =
     isoformat (dt_date t) @ ''T'' @ pad2 (dt_hour t) @ '':'' @ pad2 (dt_minute t) @ '':'' @ pad2 (dt_second t) @
     (if dt_micro t = 0 then [] else ''.'' @ pad_nat 6 (nat (dt_micro t))) @
     (case dt_offset t of None \<Rightarrow> [] | Some off \<Rightarrow> format_offset off)"

definition valid_datetime :: "pydatetime \<Rightarrow> bool" where
  "valid_datetime t \<longleftrightarrow>
     1 \<le> fst (dt_date t) \<and> fst (dt_date t) \<le> 9999 \<and> valid_ymd (dt_date t) \<and>
     0 \<le> dt_hour t \<and> dt_hour t \<le> 23 \<and> 0 \<le> dt_minute t \<and> dt_minute t \<le> 59 \<and>
     0 \<le> dt_second t \<and> dt_second t \<le> 59 \<and> 0 \<le> dt_micro t \<and> dt_micro t < 10 ^ 6 \<and> valid_offset (dt_offset t)"

lemma parse_datetime_examples:
  "parse_datetime ''2024-01-01T10:30:05.25-01:30'' =
     Some \<lparr>dt_date = (2024, 1, 1), dt_hour = 10, dt_minute = 30, dt_second = 5, dt_micro = 250000, dt_offset = Some (- 5400000000)\<rparr>"
  "parse_datetime ''2024-01-01T10:3005'' = None"
  "parse_datetime ''2024-01-01T24:00'' = None"
  by code_simp+

subsection \<open>What is printed is read back\<close>

lemma parse_pad2: "0 \<le> x \<Longrightarrow> x < 100 \<Longrightarrow> parse_digits 2 (pad2 x @ r) = Some (x, r)"
  using parse_pad_nat [of "nat x" 2 r] by (simp add: pad2_def)

lemma length_pad2 [simp]: "length (pad2 x) = 2"
  by (simp add: pad2_def)

lemma head0_simps [simp]: "head0 [] = CHR 0x00" "head0 (c # s) = c"
  by (simp_all add: head0_def)

lemma clock_seconds:
  assumes "0 \<le> h" "h < 100" "0 \<le> m" "m < 100" "0 \<le> c" "c < 100"
  shows "parse_clock (pad2 h @ CHR '':'' # pad2 m @ CHR '':'' # pad2 c @ r) 8 = Some ([h, m, c], 0, head0 r \<noteq> CHR 0x00)"
  using assms by (simp add: parse_clock_def numeral_3_eq_3 parse_pad2 Let_def)

lemma clock_minutes:
  assumes "0 \<le> h" "h < 100" "0 \<le> m" "m < 100"
  shows "parse_clock (pad2 h @ CHR '':'' # pad2 m @ r) 5 = Some ([h, m, 0], 0, head0 r \<noteq> CHR 0x00)"
  using assms by (simp add: parse_clock_def numeral_3_eq_3 parse_pad2 Let_def)

lemma clock_fraction:
  assumes "0 \<le> h" "h < 100" "0 \<le> m" "m < 100" "0 \<le> c" "c < 100" "0 \<le> u" "u < 10 ^ 6" "\<not> is_digit (head0 r)"
  shows "parse_clock (pad2 h @ CHR '':'' # pad2 m @ CHR '':'' # pad2 c @ CHR ''.'' # pad_nat 6 (nat u) @ r) 15 =
    Some ([h, m, c], u, head0 r \<noteq> CHR 0x00)"
proof -
  have "parse_digits 6 (pad_nat 6 (nat u) @ r) = Some (u, r)" using parse_pad_nat [of "nat u" 6 r] assms(7,8) by simp
  moreover have "dropWhile is_digit r = r" using assms(9) by (cases r) auto
  moreover have "clock_fields 3 True True (pad2 h @ CHR '':'' # pad2 m @ CHR '':'' # pad2 c @ CHR ''.'' # pad_nat 6 (nat u) @ r) 15 [] =
      Some ([h, m, c], Inr (pad_nat 6 (nat u) @ r, 6))"
    using assms by (simp add: numeral_3_eq_3 parse_pad2 Let_def del: pad_nat.simps)
  ultimately show ?thesis by (simp add: parse_clock_def del: pad_nat.simps)
qed

definition no_tz :: "string \<Rightarrow> bool" where
  "no_tz s \<longleftrightarrow> list_all (\<lambda>c. \<not> is_tz_char c) s"

lemma no_tz_simps [simp]:
  "no_tz []" "no_tz (s @ t) \<longleftrightarrow> no_tz s \<and> no_tz t" "no_tz (CHR '':'' # s) \<longleftrightarrow> no_tz s" "no_tz (CHR ''.'' # s) \<longleftrightarrow> no_tz s"
  by (simp_all add: no_tz_def is_tz_char_def)

lemma digits_no_tz [simp]: "no_tz (pad_nat k n)" "no_tz (pad2 x)"
proof -
  show "no_tz (pad_nat k n)" for k n
    using pad_nat_digits [of k n] by (auto simp: no_tz_def list_all_iff is_digit_def is_tz_char_def)
  then show "no_tz (pad2 x)" by (simp add: pad2_def)
qed

lemma split_tz:
  assumes "no_tz a" "r = [] \<or> is_tz_char (head0 r)"
  shows "takeWhile (\<lambda>c. \<not> is_tz_char c) (a @ r) = a"
proof -
  have "takeWhile (\<lambda>c. \<not> is_tz_char c) r = []" using assms(2) by (cases r) auto
  moreover have "\<forall>c\<in>set a. \<not> is_tz_char c" using assms(1) by (simp add: no_tz_def list_all_iff)
  ultimately show ?thesis by (simp add: takeWhile_append2)
qed

text \<open>An offset reads back, but for one of less than a second, which \<open>fromisoformat\<close> never makes.\<close>

lemma offset_reading:
  fixes off :: int
  assumes "\<bar>off\<bar> < 86400 * 10 ^ 6"
  defines "secs \<equiv> \<bar>off\<bar> div 10 ^ 6" and "us \<equiv> \<bar>off\<bar> mod 10 ^ 6"
  shows "\<exists>q. format_offset off = (if off < 0 then CHR ''-'' else CHR ''+'') # q \<and>
    parse_clock q (length q) = Some ([secs div 3600, secs div 60 mod 60, secs mod 60], us, False)"
proof -
  have rng: "0 \<le> secs" "secs < 86400" "0 \<le> us" "us < 10 ^ 6" using assms(1) by (simp_all add: secs_def us_def)
  have d: "0 \<le> secs div 3600" "secs div 3600 < 100" "0 \<le> secs div 60 mod 60" "secs div 60 mod 60 < 100" "0 \<le> secs mod 60" "secs mod 60 < 100"
    using rng by simp_all
  let ?q = "pad2 (secs div 3600) @ CHR '':'' # pad2 (secs div 60 mod 60) @
    (if secs mod 60 = 0 \<and> us = 0 then [] else CHR '':'' # pad2 (secs mod 60) @ (if us = 0 then [] else CHR ''.'' # pad_nat 6 (nat us) @ []))"
  have "format_offset off = (if off < 0 then CHR ''-'' else CHR ''+'') # ?q"
    unfolding format_offset_def Let_def secs_def [symmetric] us_def [symmetric] by simp
  moreover have "parse_clock ?q (length ?q) = Some ([secs div 3600, secs div 60 mod 60, secs mod 60], us, False)"
  proof (cases "us = 0")
    case u: True
    show ?thesis
    proof (cases "secs mod 60 = 0")
      case True
      have "length ?q = 5" using True u by simp
      then show ?thesis using clock_minutes [OF d(1,2,3,4), of "[]"] True u by (simp only: if_True head0_simps) simp
    next
      case False
      have "length ?q = 8" using False u by simp
      then show ?thesis using clock_seconds [OF d, of "[]"] False u by (simp only: if_False if_True simp_thms head0_simps)
    qed
  next
    case False
    have "length ?q = 15" using False by simp
    then show ?thesis using clock_fraction [OF d rng(3,4), of "[]"] False
      by (simp only: if_False simp_thms head0_simps append_Nil2) (simp add: is_digit_def del: pad_nat.simps)
  qed
  ultimately show ?thesis by blast
qed

definition readable_offset :: "int option \<Rightarrow> bool" where
  "readable_offset off = (case off of None \<Rightarrow> True | Some x \<Rightarrow> x = 0 \<or> 10 ^ 6 \<le> \<bar>x\<bar>)"

definition clock_text :: "int \<Rightarrow> int \<Rightarrow> int \<Rightarrow> int \<Rightarrow> string" where
  "clock_text h m c u = pad2 h @ CHR '':'' # pad2 m @ CHR '':'' # pad2 c @ (if u = 0 then [] else CHR ''.'' # pad_nat 6 (nat u))"

lemma clock_text_reading:
  assumes "0 \<le> h" "h < 100" "0 \<le> m" "m < 100" "0 \<le> c" "c < 100" "0 \<le> u" "u < 10 ^ 6" "\<not> is_digit (head0 r)"
  shows "parse_clock (clock_text h m c u @ r) (length (clock_text h m c u)) = Some ([h, m, c], u, head0 r \<noteq> CHR 0x00)"
proof (cases "u = 0")
  case True
  have "length (clock_text h m c u) = 8" using True by (simp add: clock_text_def)
  then show ?thesis using clock_seconds [OF assms(1-6), of r] True by (simp only: clock_text_def) simp
next
  case False
  have "length (clock_text h m c u) = 15" using False by (simp add: clock_text_def)
  then show ?thesis using clock_fraction [OF assms] False by (simp only: clock_text_def) (simp del: pad_nat.simps)
qed

lemma time_reading:
  assumes v: "0 \<le> h" "h < 100" "0 \<le> m" "m < 100" "0 \<le> c" "c < 100" "0 \<le> u" "u < 10 ^ 6"
    and off: "valid_offset off" "readable_offset off"
  shows "parse_time (clock_text h m c u @ (case off of None \<Rightarrow> [] | Some x \<Rightarrow> format_offset x)) = Some ([h, m, c], u, off)"
proof -
  let ?C = "clock_text h m c u" and ?r = "case off of None \<Rightarrow> [] | Some x \<Rightarrow> format_offset x"
  have C: "no_tz ?C" by (simp add: clock_text_def)
  show ?thesis
  proof (cases off)
    case None
    have "parse_clock ?C (length ?C) = Some ([h, m, c], u, False)"
      using clock_text_reading [OF v, of "[]"] by (simp add: is_digit_def)
    moreover have all: "takeWhile (\<lambda>c. \<not> is_tz_char c) ?C = ?C" using split_tz [OF C, of "[]"] by (simp only: append_Nil2) simp
    ultimately show ?thesis unfolding None parse_time_def Let_def option.case append_Nil2 all by simp
  next
    case (Some x)
    define secs where "secs = \<bar>x\<bar> div 10 ^ 6"
    define us where "us = \<bar>x\<bar> mod 10 ^ 6"
    have x: "\<bar>x\<bar> < 86400 * 10 ^ 6" "x = 0 \<or> 10 ^ 6 \<le> \<bar>x\<bar>" using off Some by (simp_all add: valid_offset_def readable_offset_def)
    obtain q where q: "format_offset x = (if x < 0 then CHR ''-'' else CHR ''+'') # q"
      "parse_clock q (length q) = Some ([secs div 3600, secs div 60 mod 60, secs mod 60], us, False)"
      using offset_reading [OF x(1)] unfolding secs_def us_def by blast
    have tz: "is_tz_char (head0 (format_offset x))" "\<not> is_digit (head0 (format_offset x))" "head0 (format_offset x) \<noteq> CHR 0x00"
      unfolding q(1) head0_simps by (simp_all add: is_tz_char_def is_digit_def)
    have split: "takeWhile (\<lambda>c. \<not> is_tz_char c) (?C @ format_offset x) = ?C" by (rule split_tz [OF C]) (simp add: tz)
    have pc: "parse_clock (?C @ format_offset x) (length ?C) = Some ([h, m, c], u, True)"
      using clock_text_reading [OF v tz(2)] tz(3) by simp
    have "secs div 3600 = secs div 60 div 60" using zdiv_zmult2_eq [of 60 secs 60] by simp
    then have off': "secs div 3600 * 3600 + secs div 60 mod 60 * 60 + secs mod 60 = secs"
      using div_mult_mod_eq [of secs 60] div_mult_mod_eq [of "secs div 60" 60] by linarith
    have abs: "secs * 10 ^ 6 + us = \<bar>x\<bar>" by (simp add: secs_def us_def)
    have zero: "secs = 0 \<Longrightarrow> x = 0" using x(2) abs by (auto simp: us_def)
    have dr: "drop (length ?C) (?C @ format_offset x) = (if x < 0 then CHR ''-'' else CHR ''+'') # q" by (simp add: q(1))
    have nth: "[a, b, d] ! 0 = a" "[a, b, d] ! 1 = b" "[a, b, d] ! 2 = d" for a b d :: int by simp_all
    have ch: "(if x < 0 then CHR ''-'' else CHR ''+'') \<noteq> CHR ''Z''" "((if x < 0 then CHR ''-'' else CHR ''+'') = CHR ''-'') = (x < 0)"
      by simp_all
    let ?o = "(if x < 0 then - 1 else 1) * secs"
    have "parse_time (?C @ format_offset x) = Some ([h, m, c], u, Some (if ?o = 0 then 0 else ?o * 10 ^ 6 + (if x < 0 then - 1 else 1) * us))"
      unfolding parse_time_def Let_def split pc dr option.case prod.case list.case q(2) if_not_P [OF ch(1)] nth off' ch(2)
      by (simp only: if_False)
    also have "\<dots> = Some ([h, m, c], u, Some x)"
      using abs zero by (cases "secs = 0"; cases "x < 0") auto
    finally show ?thesis by (simp add: Some)
  qed
qed

text \<open>What \<open>isoformat\<close> prints, \<open>fromisoformat\<close> reads back.\<close>

lemma parse_datetime_isoformat:
  assumes "valid_datetime t" "readable_offset (dt_offset t)"
  shows "parse_datetime (datetime_isoformat t) = Some t"
proof -
  obtain y mo d where ymd: "dt_date t = (y, mo, d)" by (cases "dt_date t") auto
  have date: "valid_ymd (y, mo, d)" "1 \<le> y" "y \<le> 9999" using assms(1) by (simp_all add: valid_datetime_def ymd)
  have v: "0 \<le> dt_hour t" "dt_hour t < 100" "0 \<le> dt_minute t" "dt_minute t < 100" "0 \<le> dt_second t" "dt_second t < 100"
    "0 \<le> dt_micro t" "dt_micro t < 10 ^ 6" "valid_offset (dt_offset t)"
    using assms(1) by (simp_all add: valid_datetime_def)
  define r where "r = clock_text (dt_hour t) (dt_minute t) (dt_second t) (dt_micro t) @
    (case dt_offset t of None \<Rightarrow> [] | Some x \<Rightarrow> format_offset x)"
  have s: "datetime_isoformat t = isoformat (y, mo, d) @ CHR ''T'' # r"
    by (simp add: datetime_isoformat_def ymd r_def clock_text_def del: isoformat.simps)
  have len: "length (isoformat (y, mo, d)) = 10" by simp
  have sep: "separator_location (datetime_isoformat t) = Some 10"
  proof -
    obtain a b where ab: "pad_nat 2 (nat mo) = a # b" "is_digit a" using pad_nat_hd [of 2 "nat mo"] by auto
    have 4: "datetime_isoformat t ! 4 = CHR ''-''" "datetime_isoformat t ! 5 = a"
      unfolding s isoformat_shape ab(1) by (simp_all add: nth_append)
    have "a \<noteq> CHR ''W''" using ab(2) by (auto simp: is_digit_def)
    moreover have "length (datetime_isoformat t) \<noteq> 7" using len by (simp add: s)
    ultimately show ?thesis by (simp add: separator_location_def Let_def 4)
  qed
  have parts: "take 10 (datetime_isoformat t) = isoformat (y, mo, d)" "drop 11 (datetime_isoformat t) = r"
    using len by (simp_all add: s del: isoformat.simps)
  have "parse_time r = Some ([dt_hour t, dt_minute t, dt_second t], dt_micro t, dt_offset t)"
    unfolding r_def by (rule time_reading [OF v assms(2)])
  moreover have "\<not> length (datetime_isoformat t) \<le> 10" "\<not> length (datetime_isoformat t) < 7" using len by (simp_all add: s del: isoformat.simps)
  ultimately show ?thesis
    using assms(1) fromisoformat_isoformat [OF date]
    by (simp add: parse_datetime_def time_part_def sep parts valid_datetime_def ymd del: isoformat.simps)
qed

subsection \<open>The form written to clients\<close>

text \<open>\<open>str.replace\<close>: every occurrence from the left.\<close>

function py_replace :: "string \<Rightarrow> string \<Rightarrow> string \<Rightarrow> string" where
  "py_replace old new s =
     (if old = [] \<or> s = [] then s
      else if take (length old) s = old then new @ py_replace old new (drop (length old) s)
      else hd s # py_replace old new (tl s))"
  by pat_completeness auto
termination by (relation "measure (\<lambda>(old, new, s). length s)") auto

declare py_replace.simps [simp del]

lemma py_replace_Nil [simp]: "py_replace old new [] = []"
  by (simp add: py_replace.simps)

lemma py_replace_id:
  assumes "c \<notin> set s"
  shows "py_replace [c] new s = s"
  using assms
proof (induction s)
  case (Cons x s)
  then show ?case by (subst py_replace.simps) auto
qed simp

text \<open>Replacing a text by a new letter and back gives the text.\<close>

lemma py_replace_back:
  assumes "c \<notin> set s" "old \<noteq> []"
  shows "py_replace [c] old (py_replace old [c] s) = s"
  using assms
proof (induction "length s" arbitrary: s rule: less_induct)
  case less
  show ?case
  proof (cases "s = []")
    case False
    show ?thesis
    proof (cases "take (length old) s = old")
      case True
      let ?t = "drop (length old) s"
      have "py_replace [c] old (py_replace old [c] ?t) = ?t"
        using less.prems False by (intro less.hyps) (auto dest: in_set_dropD)
      moreover have "py_replace old [c] s = c # py_replace old [c] ?t" using True False less.prems by (subst py_replace.simps) simp
      ultimately show ?thesis using True by (simp add: py_replace.simps [of "[c]"]) (metis append_take_drop_id)
    next
      case no: False
      obtain x t where s: "s = x # t" using False by (cases s) auto
      have "py_replace [c] old (py_replace old [c] t) = t" using less.prems s by (intro less.hyps) auto
      moreover have "py_replace old [c] s = x # py_replace old [c] t" using no s less.prems by (subst py_replace.simps) simp
      ultimately show ?thesis using s less.prems by (auto simp: py_replace.simps [of "[c]" _ "_ # _"])
    qed
  qed simp
qed

subsection \<open>What is read can be printed\<close>

lemma checked_date_valid: "checked_date t = Some d \<Longrightarrow> 1 \<le> fst d \<and> fst d \<le> 9999 \<and> valid_ymd d"
  by (simp add: checked_date_def split: if_splits)

lemma parse_month_day_valid: "parse_month_day y sep p = Some d \<Longrightarrow> 1 \<le> fst d \<and> fst d \<le> 9999 \<and> valid_ymd d"
  unfolding parse_month_day_def bind_eq_Some_conv by (elim exE conjE) (auto simp: bind_eq_Some_conv split_beta dest: checked_date_valid)

lemma iso_to_ymd_valid: "iso_to_ymd y w k = Some d \<Longrightarrow> 1 \<le> fst d \<and> fst d \<le> 9999 \<and> valid_ymd d"
  unfolding iso_to_ymd_def Let_def by (meson checked_date_valid option.distinct(1))

lemma parse_week_valid: "parse_week y sep p = Some d \<Longrightarrow> 1 \<le> fst d \<and> fst d \<le> 9999 \<and> valid_ymd d"
  unfolding parse_week_def bind_eq_Some_conv by (elim exE conjE) (auto simp: bind_eq_Some_conv split: if_splits dest: iso_to_ymd_valid)

lemma fromisoformat_valid: "fromisoformat s = Some d \<Longrightarrow> 1 \<le> fst d \<and> fst d \<le> 9999 \<and> valid_ymd d"
  by (auto simp: fromisoformat_def Let_def bind_eq_Some_conv split: if_splits list.splits
      dest: parse_week_valid parse_month_day_valid)

lemma parse_digits_bounds: "parse_digits k s = Some (v, r) \<Longrightarrow> 0 \<le> v \<and> v < 10 ^ k"
  using read_digits_bound [of "take k s"] by (auto simp: parse_digits_def split: if_splits)

lemma clock_fields_nonneg:
  "clock_fields i first colons s n vals = Some (vals', x) \<Longrightarrow> \<forall>v\<in>set vals. 0 \<le> v \<Longrightarrow> \<forall>v\<in>set vals'. 0 \<le> v"
proof (induction i arbitrary: first colons s n vals)
  case (Suc i)
  obtain v q where v: "parse_digits 2 s = Some (v, q)" using Suc.prems(1) by (auto split: option.splits)
  then have nn: "\<forall>x\<in>set (vals @ [v]). 0 \<le> x" using parse_digits_bounds [OF v] Suc.prems(2) by auto
  have step: "vals' = vals @ [v] \<or> (\<exists>f c t m. clock_fields i f c t m (vals @ [v]) = Some (vals', x))"
    using Suc.prems(1) unfolding clock_fields.simps v option.case prod.case Let_def by (metis option.inject option.distinct(1) prod.inject)
  then show ?case using nn Suc.IH [OF _ nn] by blast
qed simp

lemma parse_clock_bounds:
  assumes "parse_clock s n = Some (vals, u, b)"
  shows "length vals = 3 \<and> (\<forall>v\<in>set vals. 0 \<le> v) \<and> 0 \<le> u \<and> u < 10 ^ 6"
proof -
  obtain vs x where vs: "clock_fields 3 True True s n [] = Some (vs, x)"
    using assms by (auto simp: parse_clock_def split: option.splits)
  have nn: "\<forall>v\<in>set vs. 0 \<le> v" using clock_fields_nonneg [OF vs] by simp
  have vals: "vals = take 3 (vs @ [0, 0, 0])" using assms vs by (auto simp: parse_clock_def split: sum.splits option.splits)
  have "\<forall>v\<in>set (vs @ [0, 0, 0]). 0 \<le> v" using nn by auto
  then have "length vals = 3 \<and> (\<forall>v\<in>set vals. 0 \<le> v)" unfolding vals by (auto dest: in_set_takeD)
  moreover have "0 \<le> u \<and> u < 10 ^ 6"
  proof (cases x)
    case (Inl y)
    then show ?thesis using assms vs by (simp add: parse_clock_def)
  next
    case (Inr pm)
    obtain p m where pm: "pm = (p, m)" by fastforce
    obtain w r where w: "parse_digits (min 6 m) p = Some (w, r)" "u = w * 10 ^ (6 - min 6 m)"
      using assms vs Inr pm by (auto simp: parse_clock_def split: option.splits)
    have "u < 10 ^ min 6 m * 10 ^ (6 - min 6 m)"
      unfolding w(2) using parse_digits_bounds [OF w(1)] by (intro mult_strict_right_mono) simp_all
    also have "\<dots> = 10 ^ 6" by (simp flip: power_add)
    finally show ?thesis using parse_digits_bounds [OF w(1)] w(2) by simp
  qed
  ultimately show ?thesis by blast
qed

lemma parse_time_bounds:
  assumes "parse_time s = Some (vals, u, off)"
  shows "length vals = 3 \<and> (\<forall>v\<in>set vals. 0 \<le> v) \<and> 0 \<le> u \<and> u < 10 ^ 6 \<and> readable_offset off"
proof -
  define clock where "clock = takeWhile (\<lambda>c. \<not> is_tz_char c) s"
  obtain b where c: "parse_clock s (length clock) = Some (vals, u, b)"
    using assms by (auto simp: parse_time_def Let_def clock_def split: option.splits list.splits if_splits)
  have "readable_offset off"
  proof (cases "drop (length clock) s")
    case Nil
    then show ?thesis using assms c by (auto simp: parse_time_def Let_def clock_def readable_offset_def split: if_splits)
  next
    case (Cons t q)
    show ?thesis
    proof (cases "t = CHR ''Z''")
      case True
      then show ?thesis using assms c Cons by (auto simp: parse_time_def Let_def clock_def readable_offset_def split: if_splits)
    next
      case False
      define sgn where "sgn = (if t = CHR ''-'' then - 1 else 1 :: int)"
      obtain ovals us where o: "parse_clock q (length q) = Some (ovals, us, False)"
        "off = Some (let d = sgn * (ovals ! 0 * 3600 + ovals ! 1 * 60 + ovals ! 2) in if d = 0 then 0 else d * 10 ^ 6 + sgn * us)"
        using assms c Cons False by (auto simp: parse_time_def Let_def clock_def sgn_def split: option.splits if_splits)
      have b: "length ovals = 3" "\<forall>v\<in>set ovals. 0 \<le> v" "0 \<le> us" using parse_clock_bounds [OF o(1)] by auto
      define x where "x = ovals ! 0 * 3600 + ovals ! 1 * 60 + ovals ! 2"
      have "0 \<le> x" using b by (simp add: x_def)
      moreover have "off = Some (if sgn * x = 0 then 0 else sgn * x * 10 ^ 6 + sgn * us)" using o(2) by (simp add: Let_def x_def)
      ultimately show ?thesis using b(3) by (auto simp: readable_offset_def sgn_def)
    qed
  qed
  then show ?thesis using parse_clock_bounds [OF c] by blast
qed

lemma parse_datetime_valid:
  assumes "parse_datetime s = Some t"
  shows "valid_datetime t \<and> readable_offset (dt_offset t)"
proof -
  obtain k d vals u off where p: "fromisoformat (take k s) = Some d"
    "time_part s k = Some (vals, u, off)"
    "vals ! 0 \<le> 23 \<and> vals ! 1 \<le> 59 \<and> vals ! 2 \<le> 59 \<and> valid_offset off"
    "t = \<lparr>dt_date = d, dt_hour = vals ! 0, dt_minute = vals ! 1, dt_second = vals ! 2, dt_micro = u, dt_offset = off\<rparr>"
    using assms by (auto simp: parse_datetime_def bind_eq_Some_conv split: if_splits)
  have b: "length vals = 3" "\<forall>v\<in>set vals. 0 \<le> v" "0 \<le> u" "u < 10 ^ 6" "readable_offset off"
    using p(2) parse_time_bounds by (auto simp: time_part_def readable_offset_def split: if_splits)
  then show ?thesis using p fromisoformat_valid [OF p(1)] by (simp add: valid_datetime_def)
qed

text \<open>A printed time holds no \<open>Z\<close>, so writing the offset of UTC as one can be undone.\<close>

lemma isoformat_no_Z: "valid_datetime t \<Longrightarrow> CHR ''Z'' \<notin> set (datetime_isoformat t)"
proof -
  have d: "CHR ''Z'' \<notin> set (pad_nat k n)" for k n using pad_nat_digits [of k n] by (auto simp: list_all_iff is_digit_def)
  then show ?thesis
    by (cases "dt_date t") (auto simp: datetime_isoformat_def format_offset_def pad2_def Let_def split: option.splits simp del: pad_nat.simps)
qed

lemma written_time_reads_back:
  assumes "valid_datetime t" "readable_offset (dt_offset t)"
  shows "parse_datetime (py_replace ''Z'' ''+00:00'' (py_replace ''+00:00'' ''Z'' (datetime_isoformat t))) = Some t"
  using assms by (simp add: py_replace_back isoformat_no_Z parse_datetime_isoformat)

end
