(* ===== verification/TrackGain.thy ===== *)
theory TrackGain
  imports TripModels
begin

text \<open>
  The ascent of a recorded track, from \<open>src/models/track_edit.py\<close>: the noise of the sensor read off
  high-order differences, a moving average over distance as wide as the noise asks for, and a
  hysteresis band; and the same with flat stretches taken from a terrain model. \<open>math.sqrt\<close> is a
  parameter, of which the theorems use \<open>sqrt_ok\<close>; all other arithmetic is exact.
\<close>

definition sqrt_ok :: "(rat \<Rightarrow> rat) \<Rightarrow> bool" where
  "sqrt_ok sq \<longleftrightarrow> (\<forall>x. 1 \<le> x \<longrightarrow> 1 \<le> sq x)"

subsection \<open>Noise\<close>

definition ELEV_SMOOTH_SPAN_M :: rat where "ELEV_SMOOTH_SPAN_M = 60"
definition ELEV_SMOOTH_MAX_SPAN_M :: rat where "ELEV_SMOOTH_MAX_SPAN_M = 240"
definition ELEV_SMOOTH_TARGET_SIGMA_M :: rat where "ELEV_SMOOTH_TARGET_SIGMA_M = 1"
definition ELEV_NOISE_SIGMA_MULTIPLE :: rat where "ELEV_NOISE_SIGMA_MULTIPLE = 9 / 2"
definition ELEV_GAIN_THRESHOLD_MIN_M :: rat where "ELEV_GAIN_THRESHOLD_MIN_M = 1"
definition ELEV_GAIN_THRESHOLD_MAX_M :: rat where "ELEV_GAIN_THRESHOLD_MAX_M = 20"
definition NOISE_DIFFERENCE_ORDERS :: "nat list" where "NOISE_DIFFERENCE_ORDERS = [3..<6]"
definition NOISE_MIN_DIFFERENCES :: nat where "NOISE_MIN_DIFFERENCES = 8"
definition NOISE_MAX_RUN_STRIDE :: nat where "NOISE_MAX_RUN_STRIDE = 16"
definition NOISE_MEDIAN_SAMPLE_CAP :: nat where "NOISE_MEDIAN_SAMPLE_CAP = 20000"

definition NOISE_DIFFERENCE_SCALE :: "(rat \<Rightarrow> rat) \<Rightarrow> nat \<Rightarrow> rat" where
  "NOISE_DIFFERENCE_SCALE sq k = (14826 / 10000) / sq (of_nat ((2 * k) choose k))"

text \<open>\<open>_run_stride\<close>: the runs are counted by their length, up to the cap.\<close>

definition count_run :: "nat \<Rightarrow> nat list \<Rightarrow> nat list" where
  "count_run len counts =
     (let k = (if len < NOISE_MAX_RUN_STRIDE then len else NOISE_MAX_RUN_STRIDE) in counts[k := counts ! k + 1])"

fun run_loop :: "rat list \<Rightarrow> nat \<Rightarrow> nat list \<Rightarrow> nat \<Rightarrow> nat list \<times> nat" where
  "run_loop (a # b # xs) len counts runs =
     (if a = b then run_loop (b # xs) (len + 1) counts runs
      else run_loop (b # xs) 1 (count_run len counts) (runs + 1))"
| "run_loop _ len counts runs = (count_run len counts, runs + 1)"

fun pick_stride :: "nat list \<Rightarrow> nat \<Rightarrow> nat \<Rightarrow> nat list \<Rightarrow> nat" where
  "pick_stride counts runs seen [] = NOISE_MAX_RUN_STRIDE"
| "pick_stride counts runs seen (s # ss) =
     (if (seen + counts ! s) * 2 > runs then s else pick_stride counts runs (seen + counts ! s) ss)"

definition run_stride :: "rat list \<Rightarrow> nat" where
  "run_stride elevs =
     (let (counts, runs) = run_loop elevs 1 (replicate (NOISE_MAX_RUN_STRIDE + 1) 0) 0 in
      pick_stride counts runs 0 [1..<NOISE_MAX_RUN_STRIDE + 1])"

text \<open>\<open>_noise_estimate\<close>.\<close>

definition differences :: "nat \<Rightarrow> rat list \<Rightarrow> rat list" where
  "differences stride xs = map2 (\<lambda>a b. b - a) xs (drop stride xs)"

definition every_nth :: "nat \<Rightarrow> 'a list \<Rightarrow> 'a list" where
  "every_nth step xs = map (\<lambda>i. xs ! i) (filter (\<lambda>i. i mod step = 0) [0..<length xs])"

definition median_magnitude :: "rat list \<Rightarrow> rat" where
  "median_magnitude ds =
     (let magnitudes = sort (map abs (every_nth (1 + length ds div NOISE_MEDIAN_SAMPLE_CAP) ds)) in
      magnitudes ! (length magnitudes div 2))"

fun noise_loop :: "(rat \<Rightarrow> rat) \<Rightarrow> nat \<Rightarrow> nat list \<Rightarrow> rat list \<Rightarrow> rat option \<Rightarrow> rat option" where
  "noise_loop sq stride [] ds estimate = estimate"
| "noise_loop sq stride (order # orders) ds estimate =
     (let ds' = differences stride ds in
      if length ds' < NOISE_MIN_DIFFERENCES then estimate
      else if order \<notin> set NOISE_DIFFERENCE_ORDERS then noise_loop sq stride orders ds' estimate
      else (let sigma = NOISE_DIFFERENCE_SCALE sq order * median_magnitude ds' in
        noise_loop sq stride orders ds' (Some (case estimate of None \<Rightarrow> sigma | Some e \<Rightarrow> min e sigma))))"

definition noise_estimate :: "(rat \<Rightarrow> rat) \<Rightarrow> rat list \<Rightarrow> rat \<times> nat" where
  "noise_estimate sq elevs =
     (let stride = run_stride elevs in
      (case noise_loop sq stride [1..<6] elevs None of None \<Rightarrow> 0 | Some e \<Rightarrow> e, stride))"

subsection \<open>Smoothing\<close>

text \<open>The two pointers of the sliding window; a comparison past the end would raise, and none happens.\<close>

function advance_lo :: "rat list \<Rightarrow> rat \<Rightarrow> nat \<Rightarrow> nat \<Rightarrow> nat" where
  "advance_lo d half i lo = (if lo < length d \<and> d ! i - d ! lo > half then advance_lo d half i (lo + 1) else lo)"
  by auto
termination by (relation "measure (\<lambda>(d, half, i, lo). length d - lo)") auto

function advance_hi :: "rat list \<Rightarrow> rat \<Rightarrow> nat \<Rightarrow> nat \<Rightarrow> nat" where
  "advance_hi d half i hi = (if hi + 1 < length d \<and> d ! (hi + 1) - d ! i \<le> half then advance_hi d half i (hi + 1) else hi)"
  by auto
termination by (relation "measure (\<lambda>(d, half, i, hi). length d - hi)") auto

declare advance_lo.simps [simp del] advance_hi.simps [simp del]

fun prefix_sums :: "rat \<Rightarrow> rat list \<Rightarrow> rat list" where
  "prefix_sums acc [] = [acc]"
| "prefix_sums acc (x # xs) = acc # prefix_sums (acc + x) xs"

fun smooth_loop :: "rat list \<Rightarrow> rat list \<Rightarrow> rat \<Rightarrow> nat list \<Rightarrow> nat \<Rightarrow> nat \<Rightarrow> rat list \<times> nat" where
  "smooth_loop psums d half [] lo hi = ([], 0)"
| "smooth_loop psums d half (i # is) lo hi =
     (let lo' = advance_lo d half i lo;
          hi' = advance_hi d half i hi;
          width = hi' + 1 - lo';
          (out, total_width) = smooth_loop psums d half is lo' hi' in
      ((psums ! (hi' + 1) - psums ! lo') / of_nat width # out, width + total_width))"

definition smooth_span :: "rat list \<Rightarrow> rat \<Rightarrow> nat \<Rightarrow> rat" where
  "smooth_span d sigma stride =
     (let gaps = sort (map2 (\<lambda>a b. b - a) d (drop 1 d));
          median_gap_m = gaps ! (length gaps div 2) * 1000;
          wanted = of_nat stride * (sigma / ELEV_SMOOTH_TARGET_SIGMA_M) ^ 2 * median_gap_m in
      max ELEV_SMOOTH_SPAN_M (min ELEV_SMOOTH_MAX_SPAN_M wanted))"

definition smooth_elevations :: "rat list \<Rightarrow> rat list option \<Rightarrow> rat \<Rightarrow> nat \<Rightarrow> rat list \<times> rat" where
  "smooth_elevations elevs distances sigma stride =
     (case distances of
        None \<Rightarrow> (elevs, 1)
      | Some d \<Rightarrow>
          if length elevs < 3 \<or> length d \<noteq> length elevs then (elevs, 1)
          else
            (let half_km = smooth_span d sigma stride / 2 / 1000;
                 (out, total_width) = smooth_loop (prefix_sums 0 elevs) d half_km [0..<length elevs] 0 0 in
             (out, of_nat total_width / of_nat (length elevs))))"

subsection \<open>The band and the gain\<close>

definition noise_threshold :: "(rat \<Rightarrow> rat) \<Rightarrow> rat \<Rightarrow> nat \<Rightarrow> rat \<Rightarrow> rat" where
  "noise_threshold sq sigma stride window =
     (let residual = sigma / sq (max 1 (window / of_nat stride)) in
      min ELEV_GAIN_THRESHOLD_MAX_M (max ELEV_GAIN_THRESHOLD_MIN_M (ELEV_NOISE_SIGMA_MULTIPLE * residual)))"

fun gain_loop :: "rat \<Rightarrow> rat list \<Rightarrow> rat \<Rightarrow> rat \<Rightarrow> rat" where
  "gain_loop threshold [] gain ref = gain"
| "gain_loop threshold (v # vs) gain ref =
     (if v - ref \<ge> threshold then gain_loop threshold vs (gain + (v - ref)) v
      else if ref - v \<ge> threshold then gain_loop threshold vs gain v
      else gain_loop threshold vs gain ref)"

definition elevation_gain ::
  "(rat \<Rightarrow> rat) \<Rightarrow> rat list \<Rightarrow> rat list option \<Rightarrow> (rat \<times> nat) option \<Rightarrow> rat" where
  "elevation_gain sq elevs distances noise =
     (if length elevs < 2 then 0
      else
        (let (sigma, stride) = (case noise of Some n \<Rightarrow> n | None \<Rightarrow> noise_estimate sq elevs);
             (smoothed, window) = smooth_elevations elevs distances sigma stride;
             threshold = noise_threshold sq sigma stride window in
         gain_loop threshold (tl smoothed) 0 (hd smoothed)))"

subsection \<open>Terrain\<close>

definition TERRAIN_WINDOW_M :: rat where "TERRAIN_WINDOW_M = 500"
definition TERRAIN_RELIEF_M :: rat where "TERRAIN_RELIEF_M = 5"

definition relief :: "rat list \<Rightarrow> rat" where
  "relief window = Max (set window) - Min (set window)"

function window_end :: "rat list \<Rightarrow> rat \<Rightarrow> nat \<Rightarrow> nat" where
  "window_end d bound hi = (if hi < length d \<and> d ! hi < bound then window_end d bound (hi + 1) else hi)"
  by auto
termination by (relation "measure (\<lambda>(d, bound, hi). length d - hi)") auto

declare window_end.simps [simp del]

definition next_window :: "rat list \<Rightarrow> rat \<Rightarrow> nat \<Rightarrow> nat" where
  "next_window d window_m lo =
     min (length d) (max (window_end d (d ! lo + window_m / 1000) (lo + 1)) (lo + 3) + 1)"

function walk_windows :: "rat list \<Rightarrow> rat \<Rightarrow> nat \<Rightarrow> (nat \<times> nat) list" where
  "walk_windows d window_m lo =
     (if lo + 1 < length d then
        (let hi = next_window d window_m lo in (lo, hi) # walk_windows d window_m (hi - 1))
      else [])"
  by auto
termination by (relation "measure (\<lambda>(d, window_m, lo). length d - lo)") (auto simp: next_window_def)

declare walk_windows.simps [simp del]

definition terrain_windows :: "rat list option \<Rightarrow> nat \<Rightarrow> rat \<Rightarrow> (nat \<times> nat) list" where
  "terrain_windows distances cnt window_m =
     (let step = max 3 (cnt div 2);
          plain = map (\<lambda>lo. (lo, min cnt (lo + step + 1))) (filter (\<lambda>lo. lo mod step = 0) [0..<cnt - 1]) in
      case distances of
        None \<Rightarrow> plain
      | Some d \<Rightarrow> if d = [] \<or> length d \<noteq> cnt then plain else walk_windows d window_m 0)"

fun walk_back :: "rat list \<Rightarrow> rat \<Rightarrow> nat \<Rightarrow> nat" where
  "walk_back d bound 0 = 0"
| "walk_back d bound (Suc back) = (if d ! Suc back > bound then walk_back d bound back else Suc back)"

definition slice :: "nat \<Rightarrow> nat \<Rightarrow> 'a list \<Rightarrow> 'a list" where
  "slice lo hi xs = drop lo (take hi xs)"

definition relief_span :: "nat \<Rightarrow> nat \<Rightarrow> nat \<Rightarrow> rat \<Rightarrow> rat list option \<Rightarrow> nat \<times> nat" where
  "relief_span lo hi cnt window_m distances =
     (case distances of
        None \<Rightarrow> (lo, hi)
      | Some d \<Rightarrow>
          if d \<noteq> [] \<and> length d = cnt \<and> hi - lo \<ge> 2 \<and> (d ! (hi - 1) - d ! lo) * 1000 < window_m
          then (walk_back d (d ! (hi - 1) - window_m / 1000) lo, hi) else (lo, hi))"

fun add_steps :: "rat list \<Rightarrow> rat list \<Rightarrow> rat list" where
  "add_steps series (a # b # xs) = add_steps (series @ [last series + (b - a)]) (b # xs)"
| "add_steps series _ = series"

definition is_flat :: "rat list \<Rightarrow> rat list option \<Rightarrow> nat \<Rightarrow> rat \<Rightarrow> rat \<Rightarrow> nat \<times> nat \<Rightarrow> bool" where
  "is_flat terrain distances cnt window_m relief_m w =
     (let (back, hi) = relief_span (fst w) (snd w) cnt window_m distances;
          verdict = slice back hi terrain in
      length verdict \<ge> 3 \<and> relief verdict < relief_m)"

fun splice_windows ::
  "rat list \<Rightarrow> rat list \<Rightarrow> rat list option \<Rightarrow> rat \<Rightarrow> rat \<Rightarrow> (nat \<times> nat) list \<Rightarrow> rat list \<Rightarrow> rat list" where
  "splice_windows recorded terrain distances window_m relief_m [] series = series"
| "splice_windows recorded terrain distances window_m relief_m (w # ws) series =
     (let source = (if is_flat terrain distances (length recorded) window_m relief_m w then terrain else recorded) in
      splice_windows recorded terrain distances window_m relief_m ws (add_steps series (slice (fst w) (snd w) source)))"

definition terrain_corrected_gain ::
  "(rat \<Rightarrow> rat) \<Rightarrow> rat list \<Rightarrow> rat list \<Rightarrow> rat list option \<Rightarrow> rat \<Rightarrow> rat \<Rightarrow> rat" where
  "terrain_corrected_gain sq recorded terrain distances window_m relief_m =
     (if terrain = [] \<or> length terrain \<noteq> length recorded then elevation_gain sq recorded distances None
      else if length recorded < 3 then elevation_gain sq recorded distances None
      else
        (let series = splice_windows recorded terrain distances window_m relief_m
                        (terrain_windows distances (length recorded) window_m) [hd recorded] in
         elevation_gain sq series distances (Some (noise_estimate sq recorded))))"

subsection \<open>The stride is the median length of a run\<close>

fun run_lengths :: "nat \<Rightarrow> rat list \<Rightarrow> nat list" where
  "run_lengths len (a # b # xs) = (if a = b then run_lengths (len + 1) (b # xs) else len # run_lengths 1 (b # xs))"
| "run_lengths len _ = [len]"

definition capped_runs :: "rat list \<Rightarrow> nat list" where
  "capped_runs xs = map (min NOISE_MAX_RUN_STRIDE) (run_lengths 1 xs)"

definition counts_of :: "nat list \<Rightarrow> nat list" where
  "counts_of ls = map (\<lambda>k. length (filter (\<lambda>l. l = k) ls)) [0..<NOISE_MAX_RUN_STRIDE + 1]"

lemma count_run_counts_of:
  "count_run len (counts_of ls) = counts_of (ls @ [min NOISE_MAX_RUN_STRIDE len])"
  by (rule nth_equalityI) (auto simp: count_run_def counts_of_def Let_def nth_list_update NOISE_MAX_RUN_STRIDE_def min_def)

lemma run_loop_counts:
  "run_loop xs len (counts_of ls) (length ls) =
     (counts_of (ls @ map (min NOISE_MAX_RUN_STRIDE) (run_lengths len xs)), length ls + length (run_lengths len xs))"
proof (induction xs len "counts_of ls" "length ls" arbitrary: ls rule: run_loop.induct)
  case (1 a b xs len)
  show ?case
  proof (cases "a = b")
    case True
    then show ?thesis using 1(1) by simp
  next
    case False
    then show ?thesis using 1(2) [OF False, of "ls @ [min NOISE_MAX_RUN_STRIDE len]"] by (simp add: count_run_counts_of)
  qed
qed (simp_all add: count_run_counts_of)

lemma counts_of_nil: "counts_of [] = replicate (NOISE_MAX_RUN_STRIDE + 1) 0"
  by (simp add: counts_of_def map_replicate_const)

lemma filter_le_Suc: "length (filter (\<lambda>l. l \<le> Suc s) ls) = length (filter (\<lambda>l. l \<le> s) ls) + length (filter (\<lambda>l. l = Suc s) ls)"
  by (induction ls) auto

lemma pick_stride_median:
  assumes "s0 \<le> NOISE_MAX_RUN_STRIDE" "\<forall>l\<in>set ls. l \<le> NOISE_MAX_RUN_STRIDE" "ls \<noteq> []"
    and "length (filter (\<lambda>l. l \<le> s0) ls) * 2 \<le> length ls"
    and "s = pick_stride (counts_of ls) (length ls) (length (filter (\<lambda>l. l \<le> s0) ls)) [Suc s0..<NOISE_MAX_RUN_STRIDE + 1]"
  shows "s0 < s \<and> s \<le> NOISE_MAX_RUN_STRIDE \<and> length ls < 2 * length (filter (\<lambda>l. l \<le> s) ls) \<and>
     (\<forall>s'. s0 \<le> s' \<and> s' < s \<longrightarrow> 2 * length (filter (\<lambda>l. l \<le> s') ls) \<le> length ls)"
  using assms
proof (induction "NOISE_MAX_RUN_STRIDE - s0" arbitrary: s0)
  case 0
  then have "filter (\<lambda>l. l \<le> s0) ls = ls" by simp
  then show ?case using 0 by simp
next
  case (Suc n)
  then have lt: "s0 < NOISE_MAX_RUN_STRIDE" by simp
  let ?f = "\<lambda>s. length (filter (\<lambda>l. l \<le> s) ls)"
  have up: "[Suc s0..<NOISE_MAX_RUN_STRIDE + 1] = Suc s0 # [Suc (Suc s0)..<NOISE_MAX_RUN_STRIDE + 1]"
    using lt by (simp add: upt_conv_Cons del: upt_Suc)
  have c: "counts_of ls ! Suc s0 = length (filter (\<lambda>l. l = Suc s0) ls)"
    using lt by (simp add: counts_of_def del: upt_Suc)
  show ?case
  proof (cases "?f (Suc s0) * 2 > length ls")
    case True
    then have "s = Suc s0" using Suc(7) [unfolded up] by (simp add: c filter_le_Suc)
    then show ?thesis using True Suc(6) lt by (auto simp: less_Suc_eq_le)
  next
    case False
    then have "s = pick_stride (counts_of ls) (length ls) (?f (Suc s0)) [Suc (Suc s0)..<NOISE_MAX_RUN_STRIDE + 1]"
      using Suc(7) [unfolded up] by (simp add: c filter_le_Suc)
    then have "Suc s0 < s \<and> s \<le> NOISE_MAX_RUN_STRIDE \<and> length ls < 2 * ?f s \<and>
        (\<forall>s'. Suc s0 \<le> s' \<and> s' < s \<longrightarrow> 2 * ?f s' \<le> length ls)"
      using Suc(1) [of "Suc s0"] Suc(2,4,5) lt False by simp
    moreover have "2 * ?f s0 \<le> length ls" using Suc(6) by simp
    ultimately show ?thesis by (metis Suc_leI Suc_lessD le_neq_implies_less)
  qed
qed

lemma run_lengths_pos: "0 < len \<Longrightarrow> l \<in> set (run_lengths len xs) \<Longrightarrow> 0 < l"
  by (induction len xs rule: run_lengths.induct) (auto split: if_splits)

lemma run_lengths_nonempty: "run_lengths len xs \<noteq> []"
  by (induction len xs rule: run_lengths.induct) auto

lemma run_stride_median:
  "1 \<le> run_stride xs" "run_stride xs \<le> NOISE_MAX_RUN_STRIDE"
  "length (capped_runs xs) < 2 * length (filter (\<lambda>l. l \<le> run_stride xs) (capped_runs xs))"
  "s' < run_stride xs \<Longrightarrow> 2 * length (filter (\<lambda>l. l \<le> s') (capped_runs xs)) \<le> length (capped_runs xs)"
proof -
  let ?ls = "capped_runs xs"
  have z: "filter (\<lambda>l. l \<le> 0) ?ls = []"
    using run_lengths_pos [of 1 _ xs] by (force simp: capped_runs_def filter_empty_conv NOISE_MAX_RUN_STRIDE_def)
  have "run_stride xs = pick_stride (counts_of ?ls) (length ?ls) 0 [1..<NOISE_MAX_RUN_STRIDE + 1]"
    using run_loop_counts [of xs 1 "[]"] by (simp add: run_stride_def capped_runs_def counts_of_nil)
  then have eq: "run_stride xs = pick_stride (counts_of ?ls) (length ?ls) (length (filter (\<lambda>l. l \<le> 0) ?ls)) [Suc 0..<NOISE_MAX_RUN_STRIDE + 1]"
    by (simp only: z list.size One_nat_def)
  have le: "\<forall>l\<in>set ?ls. l \<le> NOISE_MAX_RUN_STRIDE" and ne: "?ls \<noteq> []"
    by (auto simp: capped_runs_def run_lengths_nonempty)
  have z2: "length (filter (\<lambda>l. l \<le> 0) ?ls) * 2 \<le> length ?ls" by (simp only: z list.size)
  note med = pick_stride_median [OF le0 le ne z2 eq]
  from med show "1 \<le> run_stride xs" "run_stride xs \<le> NOISE_MAX_RUN_STRIDE"
    "length ?ls < 2 * length (filter (\<lambda>l. l \<le> run_stride xs) ?ls)"
    "s' < run_stride xs \<Longrightarrow> 2 * length (filter (\<lambda>l. l \<le> s') ?ls) \<le> length ?ls" by simp_all
qed

subsection \<open>The sliding window is the window\<close>

definition window_of :: "rat list \<Rightarrow> rat \<Rightarrow> nat \<Rightarrow> nat list" where
  "window_of d half i = filter (\<lambda>j. \<bar>d ! j - d ! i\<bar> \<le> half) [0..<length d]"

definition mean_at :: "rat list \<Rightarrow> nat list \<Rightarrow> rat" where
  "mean_at xs js = sum_list (map (\<lambda>j. xs ! j) js) / of_nat (length js)"

lemma advance_lo_spec:
  assumes "i < length d" "lo \<le> i" "0 \<le> half" "\<forall>j<lo. d ! i - d ! j > half"
  shows "advance_lo d half i lo \<le> i \<and> (\<forall>j<advance_lo d half i lo. d ! i - d ! j > half) \<and>
     d ! i - d ! advance_lo d half i lo \<le> half"
  using assms
proof (induction d half i lo rule: advance_lo.induct)
  case (1 d half i lo)
  show ?case
  proof (cases "d ! i - d ! lo > half")
    case True
    then have "lo \<noteq> i" using 1(4) by auto
    then have "lo + 1 \<le> i" using 1(3) by simp
    moreover have "\<forall>j<lo + 1. d ! i - d ! j > half" using 1(5) True less_Suc_eq by auto
    ultimately show ?thesis
      using 1(1) [OF conjI [OF _ True]] 1(2,3,4) True by (simp add: advance_lo.simps [of d half i lo])
  next
    case False
    then show ?thesis using 1(3,5) by (simp add: advance_lo.simps [of d half i lo])
  qed
qed

lemma advance_hi_spec:
  assumes "hi < length d" "\<forall>j\<le>hi. d ! j - d ! i \<le> half" "sorted d"
  shows "hi \<le> advance_hi d half i hi \<and> advance_hi d half i hi < length d \<and>
     (\<forall>j\<le>advance_hi d half i hi. d ! j - d ! i \<le> half) \<and>
     (\<forall>j. advance_hi d half i hi < j \<and> j < length d \<longrightarrow> d ! j - d ! i > half)"
  using assms
proof (induction d half i hi rule: advance_hi.induct)
  case (1 d half i hi)
  show ?case
  proof (cases "hi + 1 < length d \<and> d ! (hi + 1) - d ! i \<le> half")
    case True
    then have "\<forall>j\<le>hi + 1. d ! j - d ! i \<le> half" using 1(3) le_Suc_eq by auto
    then show ?thesis using 1(1) [OF True] True 1(4) by (simp add: advance_hi.simps [of d half i hi])
  next
    case False
    have "d ! j - d ! i > half" if j: "hi < j" "j < length d" for j
    proof -
      have "d ! (hi + 1) \<le> d ! j" using 1(4) j by (intro sorted_nth_mono) auto
      moreover have "d ! (hi + 1) - d ! i > half" using False j by auto
      ultimately show ?thesis by simp
    qed
    moreover have "advance_hi d half i hi = hi" by (subst advance_hi.simps) (use False in auto)
    ultimately show ?thesis using 1(2,3) by simp
  qed
qed

lemma length_prefix_sums [simp]: "length (prefix_sums acc xs) = Suc (length xs)"
  by (induction acc xs rule: prefix_sums.induct) auto

lemma prefix_sums_nth: "k \<le> length xs \<Longrightarrow> prefix_sums acc xs ! k = acc + sum_list (take k xs)"
proof (induction acc xs arbitrary: k rule: prefix_sums.induct)
  case (2 acc x xs)
  then show ?case by (cases k) auto
qed simp

lemma prefix_sums_diff:
  assumes "lo \<le> hi" "hi \<le> length xs"
  shows "prefix_sums 0 xs ! hi - prefix_sums 0 xs ! lo = sum_list (map (\<lambda>j. xs ! j) [lo..<hi])"
proof -
  have "map (\<lambda>j. xs ! j) [lo..<hi] = take (hi - lo) (drop lo xs)"
    using assms by (intro nth_equalityI) auto
  then have "take hi xs = take lo xs @ map (\<lambda>j. xs ! j) [lo..<hi]"
    using assms(1) take_add [of lo "hi - lo" xs] by simp
  then show ?thesis using assms by (simp add: prefix_sums_nth)
qed

lemma window_of_upt:
  assumes "lo \<le> hi" "hi < length d" "\<forall>j<lo. d ! i - d ! j > half" "d ! i - d ! lo \<le> half"
    and "\<forall>j\<le>hi. d ! j - d ! i \<le> half" "\<forall>j. hi < j \<and> j < length d \<longrightarrow> d ! j - d ! i > half" "sorted d" "0 \<le> half"
  shows "window_of d half i = [lo..<hi + 1]"
proof -
  have inw: "\<bar>d ! j - d ! i\<bar> \<le> half \<longleftrightarrow> lo \<le> j \<and> j \<le> hi" if j: "j < length d" for j
  proof (cases "lo \<le> j \<and> j \<le> hi")
    case True
    then have "d ! lo \<le> d ! j" using assms(7) j by (intro sorted_nth_mono) auto
    moreover have "d ! j - d ! i \<le> half" using assms(5) True by simp
    ultimately show ?thesis using assms(4) True by (simp add: abs_le_iff)
  next
    case False
    then show ?thesis using assms(3,6) j by (auto simp: abs_le_iff not_le dest!: spec [of _ j])
  qed
  have "[0..<length d] = [0..<lo] @ [lo..<hi + 1] @ [hi + 1..<length d]"
    using assms(1,2) by (metis append.assoc le0 le_SucI less_eq_Suc_le Suc_eq_plus1 le_add_diff_inverse upt_add_eq_append)
  moreover have "filter (\<lambda>j. \<bar>d ! j - d ! i\<bar> \<le> half) [0..<lo] = []" "filter (\<lambda>j. \<bar>d ! j - d ! i\<bar> \<le> half) [hi + 1..<length d] = []"
    "filter (\<lambda>j. \<bar>d ! j - d ! i\<bar> \<le> half) [lo..<hi + 1] = [lo..<hi + 1]"
    using inw assms(1,2) by (auto simp: filter_empty_conv filter_id_conv simp del: upt_Suc)
  ultimately show ?thesis by (simp add: window_of_def del: upt_Suc)
qed

lemma smooth_loop_windows:
  assumes "sorted d" "length d = length xs" "0 \<le> half" "k \<le> length xs"
    and "lo \<le> k" "k < length xs \<Longrightarrow> \<forall>j<lo. d ! k - d ! j > half"
    and "hi < length xs" "k < length xs \<Longrightarrow> \<forall>j\<le>hi. d ! j - d ! k \<le> half"
  shows "smooth_loop (prefix_sums 0 xs) d half [k..<length xs] lo hi =
     (map (\<lambda>i. mean_at xs (window_of d half i)) [k..<length xs],
      sum_list (map (\<lambda>i. length (window_of d half i)) [k..<length xs]))"
  using assms(4-)
proof (induction "length xs - k" arbitrary: k lo hi)
  case 0
  then show ?case by simp
next
  case (Suc n)
  then have k: "k < length xs" by simp
  let ?lo = "advance_lo d half k lo" and ?hi = "advance_hi d half k hi"
  have l: "?lo \<le> k" "\<forall>j<?lo. d ! k - d ! j > half" "d ! k - d ! ?lo \<le> half"
    using advance_lo_spec [of k d lo half] Suc k assms(2,3) by simp_all
  have h: "?hi < length d" "\<forall>j\<le>?hi. d ! j - d ! k \<le> half" "\<forall>j. ?hi < j \<and> j < length d \<longrightarrow> d ! j - d ! k > half"
    using advance_hi_spec [of hi d k half] Suc k assms(1,2) by simp_all
  have "k \<le> ?hi" using h(3) k assms(2,3) by (metis diff_self leI not_le)
  then have lh: "?lo \<le> ?hi" using l(1) by simp
  have w: "window_of d half k = [?lo..<?hi + 1]" using window_of_upt [OF lh h(1) l(2,3) h(2,3) assms(1,3)] .
  have m: "(prefix_sums 0 xs ! (?hi + 1) - prefix_sums 0 xs ! ?lo) / of_nat (?hi + 1 - ?lo) = mean_at xs (window_of d half k)"
    using prefix_sums_diff [of ?lo "?hi + 1" xs] lh h(1) assms(2) by (simp add: w mean_at_def del: upt_Suc)
  have mono: "d ! k \<le> d ! Suc k" if "Suc k < length xs" using assms(1,2) that by (intro sorted_nth_mono) auto
  have next1: "\<forall>j<?lo. d ! Suc k - d ! j > half" if "Suc k < length xs" using l(2) mono [OF that] by fastforce
  have next2: "\<forall>j\<le>?hi. d ! j - d ! Suc k \<le> half" if "Suc k < length xs" using h(2) mono [OF that] by fastforce
  have "smooth_loop (prefix_sums 0 xs) d half [Suc k..<length xs] ?lo ?hi =
     (map (\<lambda>i. mean_at xs (window_of d half i)) [Suc k..<length xs],
      sum_list (map (\<lambda>i. length (window_of d half i)) [Suc k..<length xs]))"
  proof (rule Suc(1))
    show "n = length xs - Suc k" using Suc(2) by simp
  qed (use k l(1) h(1) assms(2) next1 next2 in simp_all)
  then show ?case using k m w by (simp add: upt_conv_Cons Let_def del: upt_Suc)
qed

lemma smooth_span_bounds: "ELEV_SMOOTH_SPAN_M \<le> smooth_span d sigma stride" "smooth_span d sigma stride \<le> ELEV_SMOOTH_MAX_SPAN_M"
  by (simp_all add: smooth_span_def Let_def ELEV_SMOOTH_SPAN_M_def ELEV_SMOOTH_MAX_SPAN_M_def)

lemma smooth_elevations_windows:
  assumes "sorted d" "length d = length xs" "3 \<le> length xs"
  shows "smooth_elevations xs (Some d) sigma stride =
    (let half = smooth_span d sigma stride / 2000 in
     (map (\<lambda>i. mean_at xs (window_of d half i)) [0..<length xs],
      of_nat (sum_list (map (\<lambda>i. length (window_of d half i)) [0..<length xs])) / of_nat (length xs)))"
proof -
  have h: "0 \<le> smooth_span d sigma stride / 2000"
    using smooth_span_bounds(1) [of d sigma stride] by (simp add: ELEV_SMOOTH_SPAN_M_def)
  have "smooth_loop (prefix_sums 0 xs) d (smooth_span d sigma stride / 2000) [0..<length xs] 0 0 =
     (map (\<lambda>i. mean_at xs (window_of d (smooth_span d sigma stride / 2000) i)) [0..<length xs],
      sum_list (map (\<lambda>i. length (window_of d (smooth_span d sigma stride / 2000) i)) [0..<length xs]))"
  proof (rule smooth_loop_windows [OF assms(1,2) h])
    show "\<forall>j\<le>0. d ! j - d ! 0 \<le> smooth_span d sigma stride / 2000" using h by simp
  qed (use assms(3) in auto)
  then show ?thesis using assms(2,3) by (simp add: smooth_elevations_def Let_def divide_divide_eq_left)
qed

lemma mean_at_bounds:
  assumes "js \<noteq> []" "\<forall>j\<in>set js. a \<le> xs ! j \<and> xs ! j \<le> b"
  shows "a \<le> mean_at xs js" "mean_at xs js \<le> b"
proof -
  have "a * of_nat (length js) \<le> sum_list (map (\<lambda>j. xs ! j) js)" "sum_list (map (\<lambda>j. xs ! j) js) \<le> b * of_nat (length js)"
    using assms(2) by (induction js) (auto simp: algebra_simps)
  moreover have "0 < (of_nat (length js) :: rat)" using assms(1) by simp
  ultimately show "a \<le> mean_at xs js" "mean_at xs js \<le> b"
    by (simp_all add: mean_at_def pos_le_divide_eq pos_divide_le_eq)
qed

lemma window_of_self: "i < length d \<Longrightarrow> 0 \<le> half \<Longrightarrow> i \<in> set (window_of d half i)"
  by (simp add: window_of_def)

subsection \<open>What the band counts\<close>

fun rises :: "rat list \<Rightarrow> rat" where
  "rises (a # b # xs) = max 0 (b - a) + rises (b # xs)"
| "rises _ = 0"

lemma gain_loop_acc: "gain_loop t vs g ref = g + gain_loop t vs 0 ref"
proof (induction vs arbitrary: g ref)
  case (Cons v vs)
  show ?case using Cons [of "g + (v - ref)" v] Cons [of "v - ref" v] Cons [of g v] Cons [of g ref] by simp
qed simp

lemma gain_loop_nonneg: "0 < t \<Longrightarrow> 0 \<le> gain_loop t vs 0 ref"
proof (induction vs arbitrary: ref)
  case (Cons v vs)
  then show ?case using Cons(1) [of v] Cons(1) [of ref] gain_loop_acc [of t vs "v - ref" v] by simp
qed simp

lemma gain_loop_rises: "0 < t \<Longrightarrow> gain_loop t vs 0 ref \<le> rises (ref # vs)"
proof (induction vs arbitrary: ref)
  case (Cons v vs)
  have *: "rises (ref # vs) \<le> max 0 (v - ref) + rises (v # vs)" by (cases vs) auto
  show ?case
    using Cons(1) [OF Cons(2), of v] Cons(1) [OF Cons(2), of ref] * gain_loop_acc [of t vs "v - ref" v] by auto
qed simp

text \<open>Where the loop stands after \<open>vs\<close>: the reference is within a band of the last value.\<close>

fun gain_ref :: "rat \<Rightarrow> rat list \<Rightarrow> rat \<Rightarrow> rat" where
  "gain_ref t [] ref = ref"
| "gain_ref t (v # vs) ref = gain_ref t vs (if v - ref \<ge> t \<or> ref - v \<ge> t then v else ref)"

lemma gain_loop_append: "gain_loop t (us @ vs) g ref = gain_loop t vs (gain_loop t us g ref) (gain_ref t us ref)"
  by (induction us arbitrary: g ref) auto

lemma gain_ref_append: "gain_ref t (us @ vs) ref = gain_ref t vs (gain_ref t us ref)"
  by (induction us arbitrary: ref) auto

lemma gain_ref_close: "0 < t \<Longrightarrow> \<bar>last (ref # vs) - gain_ref t vs ref\<bar> < t"
proof (induction vs arbitrary: ref rule: rev_induct)
  case (snoc v vs)
  then show ?case by (auto simp: gain_ref_append abs_if)
qed simp

lemma gain_ref_climb: "0 < t \<Longrightarrow> gain_ref t vs ref - ref \<le> gain_loop t vs 0 ref"
proof (induction vs arbitrary: ref)
  case (Cons v vs)
  show ?case
    using Cons(1) [OF Cons(2), of v] Cons(1) [OF Cons(2), of ref] gain_loop_acc [of t vs "v - ref" v] Cons(2) by auto
qed simp

lemma gain_loop_climb:
  assumes "0 < t" "i \<le> j" "j < length (ref # vs)"
  shows "(ref # vs) ! j - (ref # vs) ! i < gain_loop t vs 0 ref + 2 * t"
proof -
  let ?us = "take i vs" and ?ws = "take (j - i) (drop i vs)" and ?xs = "drop j vs"
  let ?a = "gain_ref t ?us ref" and ?b = "gain_ref t (?us @ ?ws) ref"
  have tj: "take j vs = ?us @ ?ws" using assms(2) take_add [of i "j - i" vs] by simp
  have vs: "vs = (?us @ ?ws) @ ?xs" using tj append_take_drop_id [of j vs] by simp
  have last: "last (ref # take k vs) = (ref # vs) ! k" if "k < length (ref # vs)" for k
    using that by (cases k) (auto simp: take_Suc_conv_app_nth)
  have a: "\<bar>(ref # vs) ! i - ?a\<bar> < t" using gain_ref_close [OF assms(1), of ref ?us] last [of i] assms by simp
  have b: "\<bar>(ref # vs) ! j - ?b\<bar> < t" using gain_ref_close [OF assms(1), of ref "?us @ ?ws"] last [of j] assms(3) by (simp add: tj)
  have "?b - ?a \<le> gain_loop t ?ws 0 ?a" using gain_ref_climb [OF assms(1)] by (simp add: gain_ref_append)
  moreover have "gain_loop t ?ws 0 ?a \<le> gain_loop t vs 0 ref"
  proof -
    have "gain_loop t vs 0 ref = gain_loop t ?us 0 ref + gain_loop t ?ws 0 ?a + gain_loop t ?xs 0 ?b"
      using gain_loop_acc [of t ?ws "gain_loop t ?us 0 ref" ?a]
        gain_loop_acc [of t ?xs "gain_loop t (?us @ ?ws) 0 ref" ?b]
      by (subst vs) (simp add: gain_loop_append gain_ref_append)
    then show ?thesis using gain_loop_nonneg [OF assms(1), of ?us ref] gain_loop_nonneg [OF assms(1), of ?xs ?b] by linarith
  qed
  ultimately show ?thesis using a b by linarith
qed

lemma noise_threshold_bounds:
  "ELEV_GAIN_THRESHOLD_MIN_M \<le> noise_threshold sq sigma stride window"
  "noise_threshold sq sigma stride window \<le> ELEV_GAIN_THRESHOLD_MAX_M"
  by (simp_all add: noise_threshold_def Let_def ELEV_GAIN_THRESHOLD_MIN_M_def ELEV_GAIN_THRESHOLD_MAX_M_def)

subsection \<open>The windows of the terrain model\<close>

text \<open>Windows from sample \<open>a\<close> that share their boundary samples and end with the last of \<open>n\<close>.\<close>

fun tiles :: "nat \<Rightarrow> nat \<Rightarrow> (nat \<times> nat) list \<Rightarrow> bool" where
  "tiles a n [] \<longleftrightarrow> a + 1 = n"
| "tiles a n (w # ws) \<longleftrightarrow> fst w = a \<and> a + 1 < snd w \<and> snd w \<le> n \<and> tiles (snd w - 1) n ws"

lemma next_window_bounds: "lo + 1 < length d \<Longrightarrow> lo + 1 < next_window d window_m lo \<and> next_window d window_m lo \<le> length d"
  by (simp add: next_window_def)

lemma walk_windows_tiles: "lo < length d \<Longrightarrow> tiles lo (length d) (walk_windows d window_m lo)"
proof (induction d window_m lo rule: walk_windows.induct)
  case (1 d window_m lo)
  show ?case
  proof (cases "lo + 1 < length d")
    case True
    note b = next_window_bounds [OF True, of window_m]
    have "tiles (next_window d window_m lo - 1) (length d) (walk_windows d window_m (next_window d window_m lo - 1))"
      using b True by (intro 1(1)) auto
    then show ?thesis using b True by (subst walk_windows.simps) (simp add: Let_def)
  next
    case False
    then show ?thesis using 1(2) by (subst walk_windows.simps) simp
  qed
qed

lemma plain_windows_tile:
  assumes "0 < step" "a mod step = 0" "a < n"
  shows "tiles a n (map (\<lambda>lo. (lo, min n (lo + step + 1))) (filter (\<lambda>lo. lo mod step = 0) [a..<n - 1]))"
  using assms(2,3)
proof (induction "n - a" arbitrary: a rule: less_induct)
  case less
  show ?case
  proof (cases "a + 1 < n")
    case True
    have no: "filter (\<lambda>lo. lo mod step = 0) [a + 1..<b] = []" if "b \<le> a + step" for b
    proof -
      have "x mod step \<noteq> 0" if "a + 1 \<le> x" "x < a + step" for x
      proof -
        have "x mod step = (x - a) mod step" using that less(2) by (metis add_leD1 le_add_diff_inverse mod_add_left_eq add_0)
        then show ?thesis using that by (simp add: less_diff_conv2)
      qed
      then show ?thesis using that by (auto simp: filter_empty_conv)
    qed
    have up: "[a..<n - 1] = a # [a + 1..<n - 1]" using True by (simp add: upt_conv_Cons)
    show ?thesis
    proof (cases "n - 1 \<le> a + step")
      case True2: True
      then have "filter (\<lambda>lo. lo mod step = 0) [a..<n - 1] = [a]" using no [OF True2] less(2) up by simp
      then show ?thesis using True True2 by simp
    next
      case False
      then have "[a + 1..<n - 1] = [a + 1..<a + step] @ [a + step..<n - 1]"
        using assms(1) upt_add_eq_append [of "a + 1" "a + step" "n - 1 - (a + step)"] by simp
      then have "filter (\<lambda>lo. lo mod step = 0) [a..<n - 1] = a # filter (\<lambda>lo. lo mod step = 0) [a + step..<n - 1]"
        using no [of "a + step"] less(2) up by simp
      moreover have "tiles (a + step) n (map (\<lambda>lo. (lo, min n (lo + step + 1))) (filter (\<lambda>lo. lo mod step = 0) [a + step..<n - 1]))"
        using less(1) [of "a + step"] False assms(1) less(2) by simp
      moreover have "min n (Suc (a + step)) = Suc (a + step)" using False by simp
      ultimately show ?thesis using False assms(1) by simp
    qed
  next
    case False
    then show ?thesis using less(3) by simp
  qed
qed

lemma terrain_windows_tile: "2 \<le> n \<Longrightarrow> tiles 0 n (terrain_windows distances n window_m)"
  using plain_windows_tile [of "max 3 (n div 2)" 0 n] walk_windows_tiles [of 0]
  by (auto simp: terrain_windows_def Let_def split: option.splits)

lemma tiles_from: "tiles a n ws \<Longrightarrow> w \<in> set ws \<Longrightarrow> a \<le> fst w \<and> fst w + 1 < snd w \<and> snd w \<le> n"
proof (induction ws arbitrary: a)
  case (Cons v ws)
  then show ?case by (cases "w = v") (auto dest!: Cons(1))
qed simp

lemma tiles_unique:
  "tiles a n ws \<Longrightarrow> w \<in> set ws \<Longrightarrow> w' \<in> set ws \<Longrightarrow> fst w \<le> k \<Longrightarrow> k + 1 < snd w \<Longrightarrow> fst w' \<le> k \<Longrightarrow> k + 1 < snd w' \<Longrightarrow> w = w'"
proof (induction ws arbitrary: a)
  case (Cons v ws)
  have t: "tiles (snd v - 1) n ws" using Cons(2) by simp
  have "\<not> (fst u \<le> k \<and> k + 1 < snd v)" if "u \<in> set ws" for u
    using tiles_from [OF t that] by linarith
  then show ?case using Cons(1) [OF t] Cons(3-) by (metis set_ConsD)
qed simp

lemma add_steps_shift: "add_steps s (y # ys) = s @ map (\<lambda>x. last s + (x - y)) ys"
proof (induction ys arbitrary: s y)
  case (Cons z ys)
  then show ?case by (simp add: algebra_simps)
qed simp

lemma slice_Cons: "lo < hi \<Longrightarrow> hi \<le> length xs \<Longrightarrow> slice lo hi xs = xs ! lo # map (\<lambda>k. xs ! k) [lo + 1..<hi]"
proof -
  assume "lo < hi" "hi \<le> length xs"
  then have "slice lo hi xs = map (\<lambda>k. xs ! k) [lo..<hi]" by (intro nth_equalityI) (auto simp: slice_def)
  then show ?thesis using \<open>lo < hi\<close> by (simp add: upt_conv_Cons)
qed

lemma splice_windows_steps:
  assumes "tiles a (length rec) ws" "length series = a + 1" "length ter = length rec"
    and "s = splice_windows rec ter distances window_m relief_m ws series"
  shows "length s = length rec \<and> take (a + 1) s = series \<and>
    (\<forall>k. a \<le> k \<and> k + 1 < length rec \<longrightarrow> (\<exists>w\<in>set ws. fst w \<le> k \<and> k + 1 < snd w \<and>
       s ! (k + 1) - s ! k =
         (let source = (if is_flat ter distances (length rec) window_m relief_m w then ter else rec) in source ! (k + 1) - source ! k)))"
  using assms(1,2,4)
proof (induction ws arbitrary: a series)
  case Nil
  then show ?case by simp
next
  case (Cons w ws)
  let ?source = "if is_flat ter distances (length rec) window_m relief_m w then ter else rec"
  let ?series = "add_steps series (slice (fst w) (snd w) ?source)"
  have w: "fst w = a" "a + 1 < snd w" "snd w \<le> length rec" "tiles (snd w - 1) (length rec) ws" using Cons(2) by simp_all
  have new: "?series = series @ map (\<lambda>k. last series + (?source ! k - ?source ! a)) [a + 1..<snd w]"
    using w assms(3) by (simp add: slice_Cons add_steps_shift comp_def)
  then have len: "length ?series = (snd w - 1) + 1" using w(2) Cons(3) by simp
  have s: "s = splice_windows rec ter distances window_m relief_m ws ?series" using Cons(4) by (simp add: Let_def)
  note ih = Cons(1) [OF w(4) len s]
  have pre: "s ! k = ?series ! k" if "k < snd w" for k
  proof -
    have "take (snd w - 1 + 1) s ! k = ?series ! k" using ih by simp
    then show ?thesis using that by simp
  qed
  have at: "?series ! k = last series + (?source ! k - ?source ! a)" if "a \<le> k" "k < snd w" for k
  proof (cases "k = a")
    case True
    have "series \<noteq> []" using Cons(3) by auto
    then show ?thesis using True Cons(3) unfolding new by (simp add: nth_append last_conv_nth)
  next
    case False
    then show ?thesis using that Cons(3) unfolding new by (simp add: nth_append)
  qed
  have "take (a + 1) s = series"
  proof -
    have "take (a + 1) s = take (a + 1) (take (snd w - 1 + 1) s)" using w(2) by (simp add: min_def)
    also have "\<dots> = take (a + 1) ?series" using ih by simp
    also have "\<dots> = series" using Cons(3) unfolding new by simp
    finally show ?thesis .
  qed
  moreover have "\<exists>v\<in>set (w # ws). fst v \<le> k \<and> k + 1 < snd v \<and>
       s ! (k + 1) - s ! k =
         (let source = (if is_flat ter distances (length rec) window_m relief_m v then ter else rec) in source ! (k + 1) - source ! k)"
    if k: "a \<le> k" "k + 1 < length rec" for k
  proof (cases "k + 1 < snd w")
    case True
    then have "s ! (k + 1) - s ! k = ?source ! (k + 1) - ?source ! k"
      using pre [of k] pre [of "k + 1"] at [of k] at [of "k + 1"] k(1) by simp
    then show ?thesis using True k(1) w(1) by (intro bexI [of _ w]) (auto simp: Let_def)
  next
    case False
    then have "snd w - 1 \<le> k" by simp
    then show ?thesis using ih k(2) by (meson list.set_intros(2))
  qed
  ultimately show ?case using ih by blast
qed

lemma relief_shift: "xs \<noteq> [] \<Longrightarrow> relief (map (\<lambda>x. x + c) xs) = relief xs"
proof -
  assume "xs \<noteq> []"
  then have "Max ((\<lambda>x. x + c) ` set xs) = Max (set xs) + c" "Min ((\<lambda>x. x + c) ` set xs) = Min (set xs) + c"
    by (simp_all add: Max_add_commute Min_add_commute)
  then show ?thesis by (simp add: relief_def)
qed

lemma slice_map: "slice lo hi (map f xs) = map f (slice lo hi xs)"
  by (simp add: slice_def drop_map take_map)

lemma is_flat_shift: "is_flat (map (\<lambda>x. x + c) terrain) distances n window_m relief_m w = is_flat terrain distances n window_m relief_m w"
proof -
  obtain bk hi where b: "relief_span (fst w) (snd w) n window_m distances = (bk, hi)" by fastforce
  show ?thesis
  proof (cases "slice bk hi terrain = []")
    case False
    then show ?thesis by (simp add: is_flat_def b slice_map relief_shift Let_def)
  qed (simp add: is_flat_def b slice_map)
qed

lemma add_steps_level: "add_steps s (map (\<lambda>x. x + c) ys) = add_steps s ys"
  by (induction s ys rule: add_steps.induct) simp_all

lemma splice_windows_level:
  "splice_windows recorded (map (\<lambda>x. x + c) terrain) distances window_m relief_m ws series =
     splice_windows recorded terrain distances window_m relief_m ws series"
  by (induction ws arbitrary: series) (simp_all add: is_flat_shift slice_map add_steps_level if_distrib [of "slice _ _"] if_distrib [of "add_steps _"] Let_def)

lemma same_steps:
  assumes "length xs = length ys" "xs ! 0 = ys ! 0" "\<And>k. k + 1 < length ys \<Longrightarrow> xs ! (k + 1) - xs ! k = ys ! (k + 1) - ys ! (k::nat)"
  shows "xs = (ys :: rat list)"
proof (rule nth_equalityI [OF assms(1)])
  fix k assume "k < length xs"
  then show "xs ! k = ys ! k"
  proof (induction k)
    case (Suc k)
    then show ?case using assms(3) [of k] assms(1) by simp
  qed (simp add: assms(2))
qed

subsection \<open>Properties\<close>

text \<open>Smoothing computes what it is meant to, in one pass. For a track with distances in order the two moving
  pointers over prefix sums give at every sample the mean of the elevations within half the span of it,
  and the mean number of samples in those windows; the span lies between 60 and 240 metres, so no
  smoothed value leaves the range of the recorded ones. The stride the noise is read at is the median
  length of a run of equal readings, capped at 16.\<close>

theorem smoothing_is_window_mean:
  assumes "sorted d" "length d = length elevs" "3 \<le> length elevs"
  shows "\<exists>half. ELEV_SMOOTH_SPAN_M / 2000 \<le> half \<and> half \<le> ELEV_SMOOTH_MAX_SPAN_M / 2000 \<and>
    smooth_elevations elevs (Some d) sigma stride =
      (map (\<lambda>i. mean_at elevs (window_of d half i)) [0..<length elevs],
       of_nat (sum_list (map (\<lambda>i. length (window_of d half i)) [0..<length elevs])) / of_nat (length elevs)) \<and>
    (\<forall>i<length elevs. i \<in> set (window_of d half i) \<and>
       Min (set elevs) \<le> mean_at elevs (window_of d half i) \<and> mean_at elevs (window_of d half i) \<le> Max (set elevs)) \<and>
    1 \<le> run_stride elevs \<and> run_stride elevs \<le> NOISE_MAX_RUN_STRIDE \<and>
    length (capped_runs elevs) < 2 * length (filter (\<lambda>l. l \<le> run_stride elevs) (capped_runs elevs)) \<and>
    (\<forall>s<run_stride elevs. 2 * length (filter (\<lambda>l. l \<le> s) (capped_runs elevs)) \<le> length (capped_runs elevs))"
proof -
  let ?half = "smooth_span d sigma stride / 2000"
  have b: "ELEV_SMOOTH_SPAN_M / 2000 \<le> ?half" "?half \<le> ELEV_SMOOTH_MAX_SPAN_M / 2000"
    using smooth_span_bounds [of d sigma stride] by (auto intro: divide_right_mono)
  have pos: "0 \<le> ?half" using b(1) by (simp add: ELEV_SMOOTH_SPAN_M_def)
  have "i \<in> set (window_of d ?half i) \<and> Min (set elevs) \<le> mean_at elevs (window_of d ?half i) \<and>
      mean_at elevs (window_of d ?half i) \<le> Max (set elevs)" if "i < length elevs" for i
  proof -
    have i: "i \<in> set (window_of d ?half i)" using window_of_self pos that assms(2) by simp
    have ne: "window_of d ?half i \<noteq> []" using i by (cases "window_of d ?half i") auto
    have "\<forall>j\<in>set (window_of d ?half i). Min (set elevs) \<le> elevs ! j \<and> elevs ! j \<le> Max (set elevs)"
      using assms(2) by (auto simp: window_of_def)
    then show ?thesis using i mean_at_bounds [OF ne] by blast
  qed
  then show ?thesis
    using b smooth_elevations_windows [OF assms, of sigma stride] run_stride_median [where xs = elevs]
    by (intro exI [of _ ?half]) (simp add: Let_def)
qed

theorem smoothing_is_window_mean_witness:
  "sorted [0, 1/100, 1/50 :: rat] \<and>
   fst (smooth_elevations [10, 13, 16] (Some [0, 1/100, 1/50]) 0 1) = [13, 13, 13] \<and>
   (\<exists>half. ELEV_SMOOTH_SPAN_M / 2000 \<le> half \<and> fst (smooth_elevations [10, 13, 16] (Some [0, 1/100, 1/50]) 0 1) =
      map (\<lambda>i. mean_at [10, 13, 16] (window_of [0, 1/100, 1/50] half i)) [0..<3])"
proof -
  have "sorted [0, 1/100, 1/50 :: rat]" by simp
  moreover have "fst (smooth_elevations [10, 13, 16] (Some [0, 1/100, 1/50]) 0 1) = [13, 13, 13]" by code_simp
  moreover obtain half where "ELEV_SMOOTH_SPAN_M / 2000 \<le> half"
    "smooth_elevations [10, 13, 16] (Some [0, 1/100, 1/50]) 0 1 =
      (map (\<lambda>i. mean_at [10, 13, 16] (window_of [0, 1/100, 1/50] half i)) [0..<length [10, 13, 16 :: rat]],
       of_nat (sum_list (map (\<lambda>i. length (window_of [0, 1/100, 1/50] half i)) [0..<length [10, 13, 16 :: rat]])) /
       of_nat (length [10, 13, 16 :: rat]))"
    using smoothing_is_window_mean [of "[0, 1/100, 1/50]" "[10, 13, 16]" 0 1] by auto
  moreover have "length [10, 13, 16 :: rat] = 3" by simp
  ultimately show ?thesis by (metis fst_conv)
qed

text \<open>The ascent of a track counts its climbs and not its jitter. The band lies between 1 and 20 metres; the
  ascent is not negative and at most the sum of the rises of the smoothed series; it is at least any
  climb from one sample to a later one less two bands; and a series whose values all lie within one
  band has none.\<close>

theorem gain_counts_climbs:
  assumes "2 \<le> length elevs" "noise_estimate sq elevs = (sigma, stride)"
    and "smooth_elevations elevs distances sigma stride = (smoothed, window)" "smoothed \<noteq> []"
  shows "\<exists>band. ELEV_GAIN_THRESHOLD_MIN_M \<le> band \<and> band \<le> ELEV_GAIN_THRESHOLD_MAX_M \<and>
    0 \<le> elevation_gain sq elevs distances None \<and> elevation_gain sq elevs distances None \<le> rises smoothed \<and>
    (\<forall>i j. i \<le> j \<and> j < length smoothed \<longrightarrow>
       smoothed ! j - smoothed ! i < elevation_gain sq elevs distances None + 2 * band) \<and>
    ((\<forall>x\<in>set smoothed. \<forall>y\<in>set smoothed. x - y < band) \<longrightarrow> elevation_gain sq elevs distances None = 0)"
proof -
  let ?t = "noise_threshold sq sigma stride window"
  obtain r vs where s: "smoothed = r # vs" using assms(4) by (cases smoothed) auto
  have g: "elevation_gain sq elevs distances None = gain_loop ?t vs 0 r"
    using assms(1-3) by (simp add: elevation_gain_def s)
  have b: "ELEV_GAIN_THRESHOLD_MIN_M \<le> ?t" "?t \<le> ELEV_GAIN_THRESHOLD_MAX_M" by (rule noise_threshold_bounds)+
  then have t: "0 < ?t" by (simp add: ELEV_GAIN_THRESHOLD_MIN_M_def)
  have "gain_loop ?t vs 0 r = 0" if "\<forall>x\<in>set smoothed. \<forall>y\<in>set smoothed. x - y < ?t"
    using that unfolding s by (induction vs) (auto simp: not_le)
  then show ?thesis
    using b gain_loop_nonneg [OF t] gain_loop_rises [OF t, of vs r] gain_loop_climb [OF t, of _ _ r vs]
    unfolding g by (intro exI [of _ ?t]) (simp add: s)
qed

theorem gain_counts_climbs_witness:
  "noise_estimate (\<lambda>x. x) [100, 101, 100, 130, 129] = (0, 1) \<and>
   elevation_gain (\<lambda>x. x) [100, 101, 100, 130, 129] None None = 31 \<and>
   elevation_gain (\<lambda>x. x) [100, 101, 100, 130, 129] None None \<le> rises [100, 101, 100, 130, 129]"
proof -
  have n: "noise_estimate (\<lambda>x. x) [100, 101, 100, 130, 129] = (0, 1)" by code_simp
  have "elevation_gain (\<lambda>x. x) [100, 101, 100, 130, 129] None None = 31" by code_simp
  then show ?thesis
    using gain_counts_climbs [OF _ n, of None "[100, 101, 100, 130, 129]" 1] n by (auto simp: smooth_elevations_def)
qed

text \<open>With a terrain model the ascent is measured once, over a series as long as the recording that starts with it
  and whose every step comes from one source: each step of the track lies in exactly one window, and it
  is the model's step when the window is flat and the recording's otherwise. So where no window is flat
  the model changes nothing; and only the steps of the model matter, not its level.\<close>

theorem terrain_replaces_flat_steps:
  assumes "length terrain = length recorded" "3 \<le> length recorded"
  shows "\<exists>series ws. terrain_corrected_gain sq recorded terrain distances window_m relief_m =
      elevation_gain sq series distances (Some (noise_estimate sq recorded)) \<and>
    ws = terrain_windows distances (length recorded) window_m \<and>
    length series = length recorded \<and> hd series = hd recorded \<and>
    (\<forall>k. k + 1 < length recorded \<longrightarrow> (\<exists>!w. w \<in> set ws \<and> fst w \<le> k \<and> k + 1 < snd w)) \<and>
    (\<forall>w\<in>set ws. \<forall>k. fst w \<le> k \<and> k + 1 < snd w \<longrightarrow> series ! (k + 1) - series ! k =
       (if is_flat terrain distances (length recorded) window_m relief_m w
        then terrain ! (k + 1) - terrain ! k else recorded ! (k + 1) - recorded ! k)) \<and>
    ((\<forall>w\<in>set ws. \<not> is_flat terrain distances (length recorded) window_m relief_m w) \<longrightarrow>
       terrain_corrected_gain sq recorded terrain distances window_m relief_m = elevation_gain sq recorded distances None) \<and>
    terrain_corrected_gain sq recorded (map (\<lambda>x. x + c) terrain) distances window_m relief_m =
      terrain_corrected_gain sq recorded terrain distances window_m relief_m"
proof -
  let ?n = "length recorded"
  let ?ws = "terrain_windows distances ?n window_m"
  let ?s = "splice_windows recorded terrain distances window_m relief_m ?ws [hd recorded]"
  let ?step = "\<lambda>w k. (if is_flat terrain distances ?n window_m relief_m w
        then terrain ! (k + 1) - terrain ! k else recorded ! (k + 1) - recorded ! k)"
  have tile: "tiles 0 ?n ?ws" using terrain_windows_tile assms(2) by simp
  have ne: "terrain \<noteq> []" "recorded \<noteq> []" using assms by auto
  have run: "terrain_corrected_gain sq recorded terrain distances window_m relief_m =
      elevation_gain sq ?s distances (Some (noise_estimate sq recorded))"
    using ne assms by (simp add: terrain_corrected_gain_def)
  note st = splice_windows_steps [OF tile _ assms(1) refl, of "[hd recorded]" distances window_m relief_m, simplified]
  have len: "length ?s = ?n" using st by simp
  have "take (Suc 0) ?s ! 0 = hd recorded" using st by simp
  then have first: "?s ! 0 = hd recorded" by simp
  have some: "\<exists>w\<in>set ?ws. fst w \<le> k \<and> k + 1 < snd w \<and> ?s ! (k + 1) - ?s ! k = ?step w k" if k: "k + 1 < ?n" for k
  proof -
    obtain w where w: "w \<in> set ?ws" "fst w \<le> k" "k + 1 < snd w" "?s ! (k + 1) - ?s ! k =
        (let source = (if is_flat terrain distances ?n window_m relief_m w then terrain else recorded) in source ! (k + 1) - source ! k)"
      using st k unfolding Suc_eq_plus1 by blast
    then show ?thesis by (intro bexI [of _ w]) (simp_all add: Let_def split: if_splits)
  qed
  have uniq: "\<exists>!w. w \<in> set ?ws \<and> fst w \<le> k \<and> k + 1 < snd w" if "k + 1 < ?n" for k
    using some [OF that] tiles_unique [OF tile] by (intro ex_ex1I) blast+
  have steps: "?s ! (k + 1) - ?s ! k = ?step w k" if w: "w \<in> set ?ws" "fst w \<le> k" "k + 1 < snd w" for w k
  proof -
    have "k + 1 < ?n" using tiles_from [OF tile w(1)] w(3) by simp
    from some [OF this] obtain v where v: "v \<in> set ?ws" "fst v \<le> k" "k + 1 < snd v" "?s ! (k + 1) - ?s ! k = ?step v k" by blast
    then show ?thesis using tiles_unique [OF tile w(1) v(1) w(2,3) v(2,3)] by simp
  qed
  have noop: "elevation_gain sq ?s distances (Some (noise_estimate sq recorded)) = elevation_gain sq recorded distances None"
    if flat: "\<forall>w\<in>set ?ws. \<not> is_flat terrain distances ?n window_m relief_m w"
  proof -
    have "?s = recorded"
    proof (rule same_steps [OF len])
      show "?s ! 0 = recorded ! 0" using first ne by (simp add: hd_conv_nth)
      show "?s ! (k + 1) - ?s ! k = recorded ! (k + 1) - recorded ! k" if "k + 1 < ?n" for k
        using some [OF that] flat by auto
    qed
    then show ?thesis by (simp add: elevation_gain_def)
  qed
  have level: "terrain_corrected_gain sq recorded (map (\<lambda>x. x + c) terrain) distances window_m relief_m =
      terrain_corrected_gain sq recorded terrain distances window_m relief_m"
    by (simp add: terrain_corrected_gain_def splice_windows_level)
  have first': "hd ?s = hd recorded" using first len ne by (metis hd_conv_nth length_0_conv)
  show ?thesis
    by (rule exI [of _ ?s], rule exI [of _ ?ws], intro conjI allI ballI impI)
      (assumption | erule conjE | rule run refl len first' uniq steps trans [OF run noop] level)+
qed

theorem terrain_replaces_flat_steps_witness:
  "terrain_corrected_gain (\<lambda>x. x) [0, 3, 0, 3] [7, 7, 7, 7] None 500 5 = 0 \<and>
   elevation_gain (\<lambda>x. x) [0, 3, 0, 3] None None = 6 \<and>
   (\<exists>series. length series = 4 \<and> hd series = 0 \<and>
      terrain_corrected_gain (\<lambda>x. x) [0, 3, 0, 3] [7, 7, 7, 7] None 500 5 =
        elevation_gain (\<lambda>x. x) series None (Some (noise_estimate (\<lambda>x. x) [0, 3, 0, 3])))"
proof -
  have "terrain_corrected_gain (\<lambda>x. x) [0, 3, 0, 3] [7, 7, 7, 7] None 500 5 = 0"
    "elevation_gain (\<lambda>x. x) [0, 3, 0, 3] None None = 6" by code_simp+
  moreover have l: "length [7, 7, 7, 7 :: rat] = length [0, 3, 0, 3 :: rat]" "3 \<le> length [0, 3, 0, 3 :: rat]" by simp_all
  moreover obtain series where "length series = length [0, 3, 0, 3 :: rat]" "hd series = hd [0, 3, 0, 3 :: rat]"
    "terrain_corrected_gain (\<lambda>x. x) [0, 3, 0, 3] [7, 7, 7, 7] None 500 5 =
        elevation_gain (\<lambda>x. x) series None (Some (noise_estimate (\<lambda>x. x) [0, 3, 0, 3]))"
    using terrain_replaces_flat_steps [OF l, of "\<lambda>x. x" None 500 5 0] by blast
  ultimately show ?thesis by (intro conjI exI [of _ series]) simp_all
qed

end
