(* ===== verification/TrackRepair.thy ===== *)
theory TrackRepair
  imports TrackGain
begin

text \<open>
  The points and figures of a track, from \<open>src/models/track_edit.py\<close> and \<open>great_circle.py\<close>: the elevation
  profile aligned with the polyline, gaps filled by distance, stored profiles and figures repaired, and
  the metrics of an edited track. \<open>math\<close>'s trigonometry and square root and the polyline codec (a
  package) are parameters. The numbers of a rebuilt profile are given by their value.
\<close>

record libm =
  m_sin :: "rat \<Rightarrow> rat"
  m_cos :: "rat \<Rightarrow> rat"
  m_asin :: "rat \<Rightarrow> rat"
  m_sqrt :: "rat \<Rightarrow> rat"

definition libm_ok :: "libm \<Rightarrow> bool" where
  "libm_ok m \<longleftrightarrow> (\<forall>x. 0 \<le> x \<and> x \<le> 1 \<longrightarrow> 0 \<le> m_asin m x) \<and> (\<forall>x\<ge>0. 0 \<le> m_sqrt m x)"

text \<open>\<open>math.pi\<close> is this double.\<close>

definition math_pi :: rat where "math_pi = 884279719003555 / 281474976710656"

definition radians :: "rat \<Rightarrow> rat" where "radians x = x * (math_pi / 180)"

text \<open>\<open>haversine_km\<close>; \<open>None\<close> is the \<open>ValueError\<close> of \<open>sqrt\<close> or \<open>asin\<close> outside its domain.\<close>

definition haversine_km :: "libm \<Rightarrow> rat \<Rightarrow> rat \<Rightarrow> rat \<Rightarrow> rat \<Rightarrow> rat option" where
  "haversine_km m lat1 lon1 lat2 lon2 =
     (let phi1 = radians lat1;
          phi2 = radians lat2;
          dphi = radians (lat2 - lat1);
          dlam = radians (lon2 - lon1);
          a = m_sin m (dphi / 2) ^ 2 + m_cos m phi1 * m_cos m phi2 * m_sin m (dlam / 2) ^ 2 in
      if a < 0 then None
      else if m_sqrt m a > 1 then None
      else Some (2 * 6371 * m_asin m (m_sqrt m a)))"

subsection \<open>Points\<close>

record TrackPoint =
  tp_lat :: rat
  tp_lng :: rat
  tp_elev :: "rat option"

definition plausible_m :: "rat \<Rightarrow> bool" where
  "plausible_m e \<longleftrightarrow> ELEVATION_MIN_M \<le> e \<and> e \<le> ELEVATION_MAX_M"

definition track_point :: "rat \<Rightarrow> rat \<Rightarrow> rat option \<Rightarrow> TrackPoint" where
  "track_point lat lng elev =
     \<lparr>tp_lat = lat, tp_lng = lng, tp_elev = (case elev of None \<Rightarrow> None | Some e \<Rightarrow> if plausible_m e then Some e else None)\<rparr>"

fun cumulative :: "libm \<Rightarrow> rat \<Rightarrow> (rat \<times> rat) list \<Rightarrow> rat list option" where
  "cumulative m acc [] = Some []"
| "cumulative m acc [p] = Some [acc]"
| "cumulative m acc (p # q # ps) =
     (case haversine_km m (fst p) (snd p) (fst q) (snd q) of
        None \<Rightarrow> None
      | Some h \<Rightarrow> map_option ((#) acc) (cumulative m (acc + h) (q # ps)))"

text \<open>\<open>bisect.bisect_left\<close>.\<close>

function bisect_left :: "rat list \<Rightarrow> rat \<Rightarrow> nat \<Rightarrow> nat \<Rightarrow> nat" where
  "bisect_left xs x lo hi =
     (if lo < hi then
        (let mid = (lo + hi) div 2 in if xs ! mid < x then bisect_left xs x (mid + 1) hi else bisect_left xs x lo mid)
      else lo)"
  by auto
termination by (relation "measure (\<lambda>(xs, x, lo, hi). hi - lo)") auto

declare bisect_left.simps [simp del]

definition interp_elev :: "rat \<Rightarrow> rat list \<Rightarrow> rat list \<Rightarrow> rat" where
  "interp_elev d dist_km elev_m =
     (if d \<le> dist_km ! 0 then elev_m ! 0
      else if d \<ge> dist_km ! (length dist_km - 1) then elev_m ! (length elev_m - 1)
      else
        (let i = bisect_left dist_km d 0 (length dist_km);
             d0 = dist_km ! (i - 1); d1 = dist_km ! i; e0 = elev_m ! (i - 1); e1 = elev_m ! i in
         if d1 = d0 then e0 else e0 + (d - d0) / (d1 - d0) * (e1 - e0)))"

definition align_points ::
  "libm \<Rightarrow> (string \<Rightarrow> (rat \<times> rat) list) \<Rightarrow> string option \<Rightarrow> (rat list \<times> rat list) option \<Rightarrow> TrackPoint list option" where
  "align_points m decode polyline profile =
     (case polyline of
        None \<Rightarrow> Some []
      | Some text \<Rightarrow>
          if text = '''' \<or> decode text = [] then Some []
          else
            (let decoded = decode text; (dist_km, elev_m) = (case profile of None \<Rightarrow> ([], []) | Some p \<Rightarrow> p) in
             if dist_km = [] \<or> elev_m = [] \<or> length dist_km \<noteq> length elev_m
             then Some (map (\<lambda>(lat, lng). track_point lat lng None) decoded)
             else map_option
               (\<lambda>cum. map2 (\<lambda>(lat, lng) d. track_point lat lng (Some (interp_elev d dist_km elev_m))) decoded cum)
               (cumulative m 0 decoded)))"

definition points_to_polyline :: "((rat \<times> rat) list \<Rightarrow> string) \<Rightarrow> TrackPoint list \<Rightarrow> string option" where
  "points_to_polyline encode points =
     (if points = [] then None else Some (encode (map (\<lambda>p. (tp_lat p, tp_lng p)) points)))"

subsection \<open>Gaps\<close>

text \<open>The straight line over a gap between the known samples \<open>a\<close> and \<open>b\<close>.\<close>

definition gap_line :: "rat list \<Rightarrow> rat list \<Rightarrow> nat \<Rightarrow> nat \<Rightarrow> nat \<Rightarrow> rat" where
  "gap_line d xs a b i =
     (let span = d ! b - d ! a;
          frac = (if span \<noteq> 0 then (d ! i - d ! a) / span else 0) in
      xs ! a + frac * (xs ! b - xs ! a))"

definition put_all :: "(nat \<Rightarrow> 'a) \<Rightarrow> nat list \<Rightarrow> 'a list \<Rightarrow> 'a list" where
  "put_all f is xs = foldl (\<lambda>ys i. ys[i := f i]) xs is"

fun fill_gaps :: "rat list \<Rightarrow> nat list \<Rightarrow> rat list \<Rightarrow> rat list" where
  "fill_gaps d (a # b # known) xs = fill_gaps d (b # known) (put_all (gap_line d xs a b) [a + 1..<b] xs)"
| "fill_gaps d _ xs = xs"

definition known_positions :: "rat option list \<Rightarrow> nat list" where
  "known_positions elevs = filter (\<lambda>i. elevs ! i \<noteq> None) [0..<length elevs]"

definition interpolate_elevation_gaps :: "rat list \<Rightarrow> rat option list \<Rightarrow> rat list option" where
  "interpolate_elevation_gaps distances_km elevs =
     (let known = known_positions elevs in
      if known = [] then None
      else
        (let filled0 = map (\<lambda>e. case e of None \<Rightarrow> 0 | Some x \<Rightarrow> x) elevs;
             filled1 = put_all (\<lambda>_. filled0 ! hd known) [0..<hd known] filled0;
             filled2 = put_all (\<lambda>_. filled1 ! last known) [last known + 1..<length filled1] filled1 in
         Some (fill_gaps distances_km known filled2)))"

text \<open>\<open>points_to_elevation_profile\<close>: the outer \<open>None\<close> is an exception, the inner one no profile.\<close>

definition points_to_elevation_profile :: "libm \<Rightarrow> TrackPoint list \<Rightarrow> (rat list \<times> rat list) option option" where
  "points_to_elevation_profile m points =
     (if list_all (\<lambda>p. tp_elev p = None) points then Some None
      else
        (case cumulative m 0 (map (\<lambda>p. (tp_lat p, tp_lng p)) points) of
           None \<Rightarrow> None
         | Some distances \<Rightarrow>
             (case interpolate_elevation_gaps distances (map tp_elev points) of
                None \<Rightarrow> None
              | Some filled \<Rightarrow> Some (Some (distances, filled)))))"

subsection \<open>Stored profiles and figures\<close>

type_synonym json_profile = "json list \<times> json list"

fun keep_samples :: "(json \<times> json) list \<Rightarrow> (rat \<times> rat option) list" where
  "keep_samples [] = []"
| "keep_samples ((d, e) # ps) =
     (case finite_or_none d of
        None \<Rightarrow> keep_samples ps
      | Some x \<Rightarrow> (x, finite_or_none (plausible_elevation e)) # keep_samples ps)"

text \<open>The rebuilt profile, which cannot fail: an elevation is known.\<close>

definition clean_elevation_profile :: "json list \<Rightarrow> json list \<Rightarrow> (rat list \<times> rat list) option" where
  "clean_elevation_profile distances_km elevs =
     (let kept = keep_samples (zip distances_km elevs); dists = map fst kept; es = map snd kept in
      if length dists < 2 \<or> list_all (\<lambda>e. e = None) es then None
      else Some (dists, the (interpolate_elevation_gaps dists es)))"

definition elevation_profile_from_streams :: "json list \<Rightarrow> json list \<Rightarrow> (rat list \<times> rat list) option" where
  "elevation_profile_from_streams distance_m altitude_m =
     (let n = min (length distance_m) (length altitude_m) in
      clean_elevation_profile
        (map (\<lambda>d. case finite_or_none d of None \<Rightarrow> JNull | Some x \<Rightarrow> JFloat (Fin (x / 1000))) (take n distance_m))
        (take n altitude_m))"

definition is_reading :: "json \<Rightarrow> bool" where
  "is_reading v \<longleftrightarrow> v = JNull \<or> is_number v"

text \<open>Bounds, \<open>None\<close> for an infinite one.\<close>

definition between :: "rat option \<Rightarrow> rat option \<Rightarrow> rat \<Rightarrow> bool" where
  "between lo hi x \<longleftrightarrow> (case lo of None \<Rightarrow> True | Some a \<Rightarrow> a \<le> x) \<and> (case hi of None \<Rightarrow> True | Some b \<Rightarrow> x \<le> b)"

definition number_value :: "json \<Rightarrow> rat" where
  "number_value v = (case finite_or_none v of Some x \<Rightarrow> x | None \<Rightarrow> 0)"

text \<open>Whether \<open>sum\<close> gives a finite number: an int, or a float when no term and not the total is infinite.\<close>

definition finite_total :: "json list \<Rightarrow> bool" where
  "finite_total vs \<longleftrightarrow>
     list_all (\<lambda>v. finite_or_none v \<noteq> None) vs \<and>
     (list_all (\<lambda>v. case v of JInt _ \<Rightarrow> True | _ \<Rightarrow> False) vs \<or> \<bar>sum_list (map number_value vs)\<bar> < float_limit)"

definition all_within :: "json list \<Rightarrow> rat option \<Rightarrow> rat option \<Rightarrow> bool" where
  "all_within vs lo hi =
     (if list_all is_number vs \<and> finite_total vs
      then vs = [] \<or> between lo None (Min (set (map number_value vs))) \<and> between None hi (Max (set (map number_value vs)))
      else list_all (\<lambda>v. case finite_or_none v of None \<Rightarrow> False | Some x \<Rightarrow> between lo hi x) vs)"

definition profile_needs_repair :: "json_profile \<Rightarrow> bool" where
  "profile_needs_repair p =
     (\<not> (all_within (fst p) None None \<and> all_within (snd p) (Some ELEVATION_MIN_M) (Some ELEVATION_MAX_M)))"

text \<open>The figures of a profile: its gain, highest and lowest sample. \<open>max\<close> of no sample raises \<open>ValueError\<close>.\<close>

definition py_max :: "json list \<Rightarrow> json" where
  "py_max vs = hd (filter (\<lambda>v. number_value v = Max (set (map number_value vs))) vs)"

definition py_min :: "json list \<Rightarrow> json" where
  "py_min vs = hd (filter (\<lambda>v. number_value v = Min (set (map number_value vs))) vs)"

datatype repair_error = EmptyProfile

definition measured :: "(rat \<Rightarrow> rat) \<Rightarrow> json_profile option \<Rightarrow> (repair_error, json \<times> json \<times> json) result" where
  "measured sq profile =
     (case profile of
        None \<Rightarrow> Inr (JFloat (Fin 0), JNull, JNull)
      | Some p \<Rightarrow>
          if profile_needs_repair p then Inr (JFloat (Fin 0), JNull, JNull)
          else if snd p = [] then Inl EmptyProfile
          else Inr (JFloat (Fin (elevation_gain sq (map number_value (snd p)) (Some (map number_value (fst p))) None)),
                    py_max (snd p), py_min (snd p)))"

definition bad_gain :: "json \<Rightarrow> bool" where
  "bad_gain g \<longleftrightarrow> g \<noteq> JNull \<and> \<not> (case finite_or_none g of None \<Rightarrow> False | Some x \<Rightarrow> 0 \<le> x \<and> x \<le> GAIN_MAX_M)"

definition bad_elevation :: "json \<Rightarrow> bool" where
  "bad_elevation e \<longleftrightarrow> e \<noteq> JNull \<and> plausible_elevation e = JNull"

definition stored_profile :: "rat list \<times> rat list \<Rightarrow> json_profile" where
  "stored_profile p = (map (JFloat \<circ> Fin) (fst p), map (JFloat \<circ> Fin) (snd p))"

definition repair_profile :: "json_profile option \<Rightarrow> json_profile option \<times> bool" where
  "repair_profile profile =
     (case profile of
        Some p \<Rightarrow>
          if profile_needs_repair p \<and> list_all is_reading (fst p) \<and> list_all is_reading (snd p)
          then (map_option stored_profile (clean_elevation_profile (fst p) (snd p)), True) else (profile, False)
      | None \<Rightarrow> (None, False))"

definition repair_elevations ::
  "(rat \<Rightarrow> rat) \<Rightarrow> json_profile option \<Rightarrow> json \<Rightarrow> json \<Rightarrow> json \<Rightarrow> bool \<Rightarrow>
     (repair_error, json_profile option \<times> json \<times> json \<times> json) result" where
  "repair_elevations sq profile0 gain0 high0 low0 app_measured =
     (let (profile, repaired) = repair_profile profile0 in
      rbind (if repaired \<and> app_measured
             then rbind (measured sq profile) (\<lambda>(g, h, l). Inr (if gain0 \<noteq> JNull then g else JNull, h, l))
             else Inr (gain0, high0, low0)) (\<lambda>(gain, high, low).
      if bad_gain gain \<or> bad_elevation high \<or> bad_elevation low
      then rbind (measured sq profile) (\<lambda>(g, h, l).
        Inr (profile, if bad_gain gain then g else gain, if bad_elevation high then h else high, if bad_elevation low then l else low))
      else Inr (profile, gain, high, low)))"

definition DURATION_MAX_S :: rat where "DURATION_MAX_S = 10 ^ 9"
definition DISTANCE_MAX_M :: rat where "DISTANCE_MAX_M = 10 ^ 8"

definition repair_elapsed :: "json \<Rightarrow> json \<Rightarrow> json" where
  "repair_elapsed elapsed moving =
     (if is_number elapsed \<and> (case finite_or_none elapsed of None \<Rightarrow> True | Some x \<Rightarrow> x > DURATION_MAX_S)
      then
        (case finite_or_none moving of
           Some x \<Rightarrow> if 0 \<le> x \<and> x \<le> DURATION_MAX_S then JInt (trunc_rat x) else JInt 0
         | None \<Rightarrow> JInt 0)
      else elapsed)"

subsection \<open>Metrics\<close>

record TrackMetrics =
  tm_distance :: rat
  tm_gain :: rat
  tm_high :: "rat option"
  tm_low :: "rat option"
  tm_start :: "(rat \<times> rat) option"
  tm_end :: "(rat \<times> rat) option"
  tm_speed :: rat
  tm_moving :: int
  tm_elapsed :: int

definition implausible_track :: "TrackMetrics \<Rightarrow> string option" where
  "implausible_track metrics =
     (if tm_distance metrics > DISTANCE_MAX_M then Some ''This track is longer than 100,000 km, which no real track is.''
      else if tm_gain metrics > GAIN_MAX_M then Some ''This track climbs more than 10,000 km, which no real track does.''
      else None)"

text \<open>The distance over every point, and the elevations with the distance they were read at.\<close>

fun metrics_loop :: "libm \<Rightarrow> TrackPoint \<Rightarrow> TrackPoint list \<Rightarrow> rat \<Rightarrow> (rat \<times> (rat \<times> rat) list) option" where
  "metrics_loop m prev [] distance_km = Some (distance_km, [])"
| "metrics_loop m prev (p # ps) distance_km =
     (case haversine_km m (tp_lat prev) (tp_lng prev) (tp_lat p) (tp_lng p) of
        None \<Rightarrow> None
      | Some h \<Rightarrow>
          map_option (\<lambda>(total_km, samples).
              (total_km, case tp_elev p of None \<Rightarrow> samples | Some e \<Rightarrow> (distance_km + h, e) # samples))
            (metrics_loop m p ps (distance_km + h)))"

definition latlng :: "TrackPoint \<Rightarrow> rat \<times> rat" where "latlng p = (tp_lat p, tp_lng p)"

definition recompute_track_metrics :: "libm \<Rightarrow> TrackPoint list \<Rightarrow> rat \<Rightarrow> int \<Rightarrow> int \<Rightarrow> TrackMetrics option" where
  "recompute_track_metrics m points original_distance_m original_moving original_elapsed =
     (if length points < 2 then
        Some (let start = (case points of [] \<Rightarrow> None | p # _ \<Rightarrow> Some (latlng p));
                  elev = (case points of [] \<Rightarrow> None | p # _ \<Rightarrow> tp_elev p) in
          \<lparr>tm_distance = 0, tm_gain = 0, tm_high = elev, tm_low = elev, tm_start = start, tm_end = start,
           tm_speed = 0, tm_moving = 0, tm_elapsed = 0\<rparr>)
      else
        map_option (\<lambda>(distance_km, rest).
          let samples = (case tp_elev (hd points) of None \<Rightarrow> rest | Some e \<Rightarrow> (0, e) # rest);
              elevs = map snd samples;
              distance_m = distance_km * 1000;
              frac = (if original_distance_m > 0 then max 0 (min 1 (distance_m / original_distance_m)) else 1);
              moving = round_half_even (of_int original_moving * frac) in
          \<lparr>tm_distance = distance_m, tm_gain = elevation_gain (m_sqrt m) elevs (Some (map fst samples)) None,
           tm_high = (if elevs = [] then None else Some (Max (set elevs))),
           tm_low = (if elevs = [] then None else Some (Min (set elevs))),
           tm_start = Some (latlng (hd points)), tm_end = Some (latlng (last points)),
           tm_speed = (if moving > 0 then distance_m / of_int moving else 0),
           tm_moving = moving, tm_elapsed = round_half_even (of_int original_elapsed * frac)\<rparr>)
        (metrics_loop m (hd points) (tl points) 0))"

subsection \<open>What the gaps are filled with\<close>

lemma length_put_all [simp]: "length (put_all f is xs) = length xs"
  unfolding put_all_def by (induction "is" arbitrary: xs) auto

lemma put_all_nth: "j < length xs \<Longrightarrow> put_all f is xs ! j = (if j \<in> set is then f j else xs ! j)"
proof (induction "is" arbitrary: xs)
  case (Cons i "is")
  have "put_all f (i # is) xs = put_all f is (xs[i := f i])" by (simp add: put_all_def)
  then show ?case using Cons by (auto simp: nth_list_update)
qed (simp add: put_all_def)

lemma length_fill_gaps [simp]: "length (fill_gaps d ks xs) = length xs"
  by (induction d ks xs rule: fill_gaps.induct) auto

lemma fill_gaps_keeps:
  assumes "sorted_wrt (<) ks" "j < length xs" "j \<in> set ks \<or> j \<le> hd ks \<or> last ks \<le> j"
  shows "fill_gaps d ks xs ! j = xs ! j"
  using assms
proof (induction d ks xs rule: fill_gaps.induct)
  case (1 d a b known xs)
  have "j \<in> set (b # known) \<or> j \<le> b \<or> last (b # known) \<le> j" using 1(2,4) by auto
  then have "fill_gaps d (b # known) (put_all (gap_line d xs a b) [a + 1..<b] xs) ! j = put_all (gap_line d xs a b) [a + 1..<b] xs ! j"
    using 1(1) 1(2,3) by simp
  moreover have "j \<notin> set [a + 1..<b]"
  proof -
    have "b \<le> last (b # known)" using 1(2) by (cases known rule: rev_cases) auto
    then show ?thesis using 1(2,4) by auto
  qed
  ultimately show ?case using 1(3) by (simp add: put_all_nth del: set_upt)
qed auto

lemma fill_gaps_line:
  assumes "sorted_wrt (<) ks" "\<forall>k\<in>set ks. k < length xs" "Suc n < length ks" "ks ! n < j" "j < ks ! Suc n"
  shows "fill_gaps d ks xs ! j = gap_line d xs (ks ! n) (ks ! Suc n) j"
  using assms
proof (induction d ks xs arbitrary: n rule: fill_gaps.induct)
  case (1 d a b known xs)
  let ?xs = "put_all (gap_line d xs a b) [a + 1..<b] xs"
  have s: "sorted_wrt (<) (b # known)" using 1(2) by simp
  show ?case
  proof (cases n)
    case 0
    then have "j < length xs" "a < j" "j < b" using 1(3,5,6) by auto
    then show ?thesis using fill_gaps_keeps [OF s, of j ?xs] 0 by (simp add: put_all_nth)
  next
    case (Suc n')
    have same: "?xs ! k = xs ! k" if "k \<in> set (b # known)" for k
      using that 1(2,3) by (subst put_all_nth) auto
    have mem: "(b # known) ! n' \<in> set (b # known)" "(b # known) ! Suc n' \<in> set (b # known)"
      by (rule nth_mem, use 1(4) Suc in simp)+
    have "fill_gaps d (b # known) ?xs ! j = gap_line d ?xs ((b # known) ! n') ((b # known) ! Suc n') j"
      using 1(1) [of n'] s 1(3,4,5,6) Suc by simp
    then show ?thesis using Suc same [OF mem(1)] same [OF mem(2)] by (simp add: gap_line_def)
  qed
qed auto

lemma known_positions_sorted: "sorted_wrt (<) (known_positions es)"
  by (simp add: known_positions_def sorted_wrt_filter)

lemma known_positions_mem: "i \<in> set (known_positions es) \<longleftrightarrow> i < length es \<and> es ! i \<noteq> None"
  by (auto simp: known_positions_def)

lemma known_range: "k \<in> set (known_positions es) \<Longrightarrow> hd (known_positions es) \<le> k \<and> k \<le> last (known_positions es)"
proof -
  have "hd ks \<le> k \<and> k \<le> last ks" if "sorted_wrt (<) ks" "k \<in> set ks" for ks :: "nat list"
    using that by (induction ks) (auto simp: less_imp_le intro: order_trans)
  then show "k \<in> set (known_positions es) \<Longrightarrow> hd (known_positions es) \<le> k \<and> k \<le> last (known_positions es)"
    using known_positions_sorted by blast
qed

lemma consecutive_known:
  assumes "sorted_wrt (<) ks" "a \<in> set ks" "b \<in> set ks" "(a::nat) < b" "\<forall>k. a < k \<and> k < b \<longrightarrow> k \<notin> set ks"
  obtains n where "Suc n < length ks" "ks ! n = a" "ks ! Suc n = b"
proof -
  obtain n l where n: "n < length ks" "ks ! n = a" and l: "l < length ks" "ks ! l = b"
    using assms(2,3) by (metis in_set_conv_nth)
  have inc: "ks ! i < ks ! j" if "i < j" "j < length ks" for i j using assms(1) that by (simp add: sorted_wrt_nth_less)
  have "n < l" using inc [of l n] n l assms(4) by (metis less_asym linorder_neqE_nat)
  moreover have "\<not> Suc n < l"
  proof
    assume "Suc n < l"
    then have "a < ks ! Suc n" "ks ! Suc n < b" using inc [of n "Suc n"] inc [of "Suc n" l] n l by auto
    then show False using assms(5) l(1) \<open>Suc n < l\<close> by (meson less_trans nth_mem)
  qed
  ultimately have "l = Suc n" by simp
  then show ?thesis using n l by (intro that [of n]) auto
qed

lemma gaps_known:
  assumes "interpolate_elevation_gaps d es = Some r" "i < length es" "es ! i = Some e"
  shows "r ! i = e"
proof -
  let ?ks = "known_positions es"
  let ?f0 = "map (\<lambda>e. case e of None \<Rightarrow> 0 | Some x \<Rightarrow> x) es"
  have mem: "i \<in> set ?ks" using assms(2,3) by (simp add: known_positions_mem)
  then have ne: "?ks \<noteq> []" by auto
  have "hd ?ks \<le> i" "i \<le> last ?ks" using known_range [OF mem] by auto
  then show ?thesis
    using assms ne fill_gaps_keeps [OF known_positions_sorted, of i _ es d] mem
    by (auto simp: interpolate_elevation_gaps_def Let_def put_all_nth split: if_splits)
qed

lemma gaps_length: "interpolate_elevation_gaps d es = Some r \<Longrightarrow> length r = length es"
  by (auto simp: interpolate_elevation_gaps_def Let_def split: if_splits)

lemma gaps_total: "interpolate_elevation_gaps d es = None \<longleftrightarrow> (\<forall>e\<in>set es. e = None)"
proof -
  have "known_positions es = [] \<longleftrightarrow> (\<forall>i<length es. es ! i = None)"
    by (auto simp: known_positions_def filter_empty_conv)
  then show ?thesis
    by (simp add: interpolate_elevation_gaps_def Let_def all_set_conv_all_nth)
qed

lemma gaps_ends:
  assumes "interpolate_elevation_gaps d es = Some r" "i < length es" "k < length es" "es ! k = Some e"
    and "(i < k \<and> (\<forall>j<k. es ! j = None)) \<or> (k < i \<and> (\<forall>j. k < j \<and> j < length es \<longrightarrow> es ! j = None))"
  shows "r ! i = e"
proof -
  let ?ks = "known_positions es"
  have mem: "k \<in> set ?ks" using assms(3,4) by (simp add: known_positions_mem)
  then have ne: "?ks \<noteq> []" by auto
  note srt = known_positions_sorted [of es]
  have h: "hd ?ks \<in> set ?ks" "last ?ks \<in> set ?ks" using ne by auto
  have hk: "hd ?ks \<le> k" and lk: "k \<le> last ?ks" using known_range [OF mem] by auto
  have hl: "hd ?ks \<le> last ?ks" using hk lk by simp
  consider "i < k" "hd ?ks = k" | "k < i" "last ?ks = k"
    using assms(5) h hk lk by (metis known_positions_mem le_neq_implies_less)
  then show ?thesis
  proof cases
    case 1
    then show ?thesis
      using assms ne hl fill_gaps_keeps [OF srt, of i _ d] h
      by (auto simp: interpolate_elevation_gaps_def Let_def put_all_nth split: if_splits)
  next
    case 2
    then show ?thesis
      using assms ne hl fill_gaps_keeps [OF srt, of i _ d] h
      by (auto simp: interpolate_elevation_gaps_def Let_def put_all_nth split: if_splits)
  qed
qed

lemma gaps_between:
  assumes "interpolate_elevation_gaps d es = Some r" "a < i" "i < b" "b < length es"
    and "es ! a = Some x" "es ! b = Some y" "\<forall>j. a < j \<and> j < b \<longrightarrow> es ! j = None"
  shows "r ! i = x + (if d ! b - d ! a \<noteq> 0 then (d ! i - d ! a) / (d ! b - d ! a) else 0) * (y - x)"
proof -
  let ?ks = "known_positions es"
  let ?f0 = "map (\<lambda>e. case e of None \<Rightarrow> 0 | Some x \<Rightarrow> x) es"
  let ?f1 = "put_all (\<lambda>_. ?f0 ! hd ?ks) [0..<hd ?ks] ?f0"
  let ?f2 = "put_all (\<lambda>_. ?f1 ! last ?ks) [last ?ks + 1..<length ?f1] ?f1"
  have m: "a \<in> set ?ks" "b \<in> set ?ks" using assms by (simp_all add: known_positions_mem)
  note srt = known_positions_sorted [of es]
  obtain n where n: "Suc n < length ?ks" "?ks ! n = a" "?ks ! Suc n = b"
    using consecutive_known [OF srt m] assms(2,3,7) by (auto simp: known_positions_mem)
  have ne: "?ks \<noteq> []" using m by auto
  have r: "r = fill_gaps d ?ks ?f2" using assms(1) ne by (simp add: interpolate_elevation_gaps_def Let_def)
  have in_range: "hd ?ks \<le> k \<and> k \<le> last ?ks \<and> k < length es" if "k \<in> set ?ks" for k
    using known_range [OF that] that by (simp add: known_positions_mem)
  have same: "?f2 ! k = ?f0 ! k" if "k \<in> set ?ks" for k
    using in_range [OF that] by (simp add: put_all_nth)
  have "r ! i = gap_line d ?f2 a b i"
    using fill_gaps_line [OF srt _ n(1), of ?f2 i d] n(2,3) assms(2,3) in_range r by simp
  then show ?thesis using same [OF m(1)] same [OF m(2)] assms(2-6) by (simp add: gap_line_def Let_def)
qed

text \<open>Every position is a known one, before the first, behind the last, or in a gap between two.\<close>

lemma gap_cases:
  assumes "i < length es" "k < length es" "es ! k \<noteq> None"
  obtains (known) "es ! i \<noteq> None"
    | (ends) j where "j < length es" "es ! j \<noteq> None" "(i < j \<and> (\<forall>l<j. es ! l = None)) \<or> (j < i \<and> (\<forall>l. j < l \<and> l < length es \<longrightarrow> es ! l = None))"
    | (gap) a b where "a < i" "i < b" "b < length es" "es ! a \<noteq> None" "es ! b \<noteq> None" "\<forall>j. a < j \<and> j < b \<longrightarrow> es ! j = None"
proof (cases "es ! i \<noteq> None")
  case False
  let ?A = "{j. j < i \<and> es ! j \<noteq> None}" and ?B = "{j. i < j \<and> j < length es \<and> es ! j \<noteq> None}"
  have fin: "finite ?A" "finite ?B" by auto
  have a: "Max ?A < i" "es ! Max ?A \<noteq> None" "\<forall>j. Max ?A < j \<and> j \<le> i \<longrightarrow> es ! j = None" if "?A \<noteq> {}"
  proof -
    have m: "Max ?A \<in> ?A" by (rule Max_in [OF fin(1) that])
    then show "Max ?A < i" "es ! Max ?A \<noteq> None" by auto
    show "\<forall>j. Max ?A < j \<and> j \<le> i \<longrightarrow> es ! j = None"
      using Max_ge [OF fin(1)] False by (metis (mono_tags, lifting) le_neq_implies_less linorder_not_less mem_Collect_eq)
  qed
  have b: "i < Min ?B" "Min ?B < length es" "es ! Min ?B \<noteq> None" "\<forall>j. i \<le> j \<and> j < Min ?B \<longrightarrow> es ! j = None" if "?B \<noteq> {}"
  proof -
    have m: "Min ?B \<in> ?B" by (rule Min_in [OF fin(2) that])
    then show "i < Min ?B" "Min ?B < length es" "es ! Min ?B \<noteq> None" by auto
    show "\<forall>j. i \<le> j \<and> j < Min ?B \<longrightarrow> es ! j = None"
    proof (intro allI impI, elim conjE)
      fix j assume j: "i \<le> j" "j < Min ?B"
      have "j \<notin> ?B" using Min_le [OF fin(2), of j] j(2) by (meson leD)
      then have nb: "\<not> (i < j \<and> j < length es \<and> es ! j \<noteq> None)" by blast
      have "j < length es" using m j(2) by simp
      then show "es ! j = None" using j(1) False nb by (metis le_neq_implies_less)
    qed
  qed
  consider "?A = {}" | "?B = {}" | "?A \<noteq> {}" "?B \<noteq> {}" by blast
  then show ?thesis
  proof cases
    case 1
    then have "?B \<noteq> {}" using assms False by (metis (mono_tags, lifting) empty_Collect_eq linorder_neqE_nat)
    note b = b [OF this]
    have "\<forall>l<Min ?B. es ! l = None" using 1 b(4) by (metis (mono_tags, lifting) empty_Collect_eq not_le)
    then show ?thesis using ends [of "Min ?B"] b by blast
  next
    case 2
    then have "?A \<noteq> {}" using assms False by (metis (mono_tags, lifting) empty_Collect_eq linorder_neqE_nat)
    note a = a [OF this]
    have "\<forall>l. Max ?A < l \<and> l < length es \<longrightarrow> es ! l = None" using 2 a(3) by (metis (mono_tags, lifting) empty_Collect_eq not_le)
    then show ?thesis using ends [of "Max ?A"] a assms(1) by (meson less_trans)
  next
    case 3
    then show ?thesis using gap [of "Max ?A" "Min ?B"] a b by (meson le_less_linear less_imp_le)
  qed
qed (use known in blast)

lemma gaps_within:
  assumes "interpolate_elevation_gaps d es = Some r" "sorted d" "length d = length es" "i < length es"
    and "\<forall>e. Some e \<in> set es \<longrightarrow> lo \<le> e \<and> e \<le> hi"
  shows "lo \<le> r ! i \<and> r ! i \<le> hi"
proof -
  obtain k where k: "k < length es" "es ! k \<noteq> None"
    using assms(1) gaps_total [of d es] by (metis in_set_conv_nth option.distinct(1))
  have bound: "lo \<le> e \<and> e \<le> hi" if "es ! j = Some e" "j < length es" for j e
    using assms(5) that by (metis nth_mem)
  from gap_cases [OF assms(4) k] show ?thesis
  proof cases
    case 1
    then show ?thesis using gaps_known [OF assms(1,4)] bound assms(4) by fastforce
  next
    case (2 j)
    then show ?thesis using gaps_ends [OF assms(1,4) 2(1) _ 2(3)] bound by fastforce
  next
    case gap: (3 a b)
    then obtain x y where xy: "es ! a = Some x" "es ! b = Some y" by blast
    have xb: "lo \<le> x" "x \<le> hi" "lo \<le> y" "y \<le> hi" using bound [OF xy(1)] bound [OF xy(2)] gap by auto
    have "d ! a \<le> d ! i" "d ! i \<le> d ! b" using assms(2,3) gap by (auto intro!: sorted_nth_mono)
    then have f: "0 \<le> (d ! i - d ! a) / (d ! b - d ! a)" "(d ! i - d ! a) / (d ! b - d ! a) \<le> 1"
      by (auto intro!: divide_nonneg_nonneg simp: divide_le_eq_1)
    have line: "lo \<le> x + f * (y - x) \<and> x + f * (y - x) \<le> hi" if "0 \<le> f" "f \<le> 1" for f :: rat
    proof -
      have eq: "x + f * (y - x) = (1 - f) * x + f * y" by (simp add: algebra_simps)
      have "(1 - f) * lo + f * lo \<le> (1 - f) * x + f * y" "(1 - f) * x + f * y \<le> (1 - f) * hi + f * hi"
        using that xb by (auto intro!: add_mono mult_left_mono)
      then show ?thesis unfolding eq by (simp add: algebra_simps)
    qed
    show ?thesis
      unfolding gaps_between [OF assms(1) gap(1-3) xy gap(6)] using line [OF f] line [of 0] by simp
  qed
qed

subsection \<open>Reading a profile back\<close>

lemma bisect_left_spec:
  assumes "sorted xs" "lo \<le> hi" "hi \<le> length xs" "\<forall>i<lo. xs ! i < x" "\<forall>i. hi \<le> i \<and> i < length xs \<longrightarrow> x \<le> xs ! i"
  shows "bisect_left xs x lo hi \<le> length xs \<and> (\<forall>i<bisect_left xs x lo hi. xs ! i < x) \<and>
     (\<forall>i. bisect_left xs x lo hi \<le> i \<and> i < length xs \<longrightarrow> x \<le> xs ! i)"
  using assms
proof (induction xs x lo hi rule: bisect_left.induct)
  case (1 xs x lo hi)
  show ?case
  proof (cases "lo < hi")
    case False
    then have "bisect_left xs x lo hi = lo" by (subst bisect_left.simps) simp
    moreover have "lo = hi" using False 1(4) by simp
    ultimately show ?thesis using 1(5-) by simp
  next
    case lt: True
    define mid where "mid = (lo + hi) div 2"
    have m: "lo \<le> mid" "mid < hi" using lt by (auto simp: mid_def)
    show ?thesis
    proof (cases "xs ! mid < x")
      case True
      have "\<forall>i<mid + 1. xs ! i < x"
      proof (intro allI impI)
        fix i assume "i < mid + 1"
        then have "xs ! i \<le> xs ! mid" using 1(3,5) m by (intro sorted_nth_mono) auto
        then show "xs ! i < x" using True by simp
      qed
      then show ?thesis
        using 1(1) [OF lt mid_def] True m 1(3,5,7) lt by (simp add: bisect_left.simps [of xs x lo hi] mid_def [symmetric])
    next
      case False
      have up: "\<forall>i. mid \<le> i \<and> i < length xs \<longrightarrow> x \<le> xs ! i"
      proof (intro allI impI, elim conjE)
        fix i assume "mid \<le> i" "i < length xs"
        then have "xs ! mid \<le> xs ! i" using 1(3) by (intro sorted_nth_mono)
        then show "x \<le> xs ! i" using False by simp
      qed
      have eq: "bisect_left xs x lo hi = bisect_left xs x lo mid"
        using lt False by (subst bisect_left.simps) (simp add: mid_def [symmetric] Let_def)
      have ml: "mid \<le> length xs" using m 1(5) by simp
      show ?thesis unfolding eq by (rule 1(2) [OF lt mid_def False 1(3) m(1) ml 1(6) up])
    qed
  qed
qed

lemma interp_elev_sample:
  assumes "sorted_wrt (<) ds" "length es = length ds" "k < length ds"
  shows "interp_elev (ds ! k) ds es = es ! k"
proof -
  have inc: "ds ! i < ds ! j" if "i < j" "j < length ds" for i j using assms(1) that by (simp add: sorted_wrt_nth_less)
  have srt: "sorted ds" using assms(1) by (simp add: strict_sorted_iff)
  consider "k = 0" | "k \<noteq> 0" "k = length ds - 1" | "0 < k" "k < length ds - 1" using assms(3) by linarith
  then show ?thesis
  proof cases
    case 1
    then show ?thesis by (simp add: interp_elev_def)
  next
    case 2
    then show ?thesis using inc [of 0 k] assms by (simp add: interp_elev_def)
  next
    case 3
    let ?i = "bisect_left ds (ds ! k) 0 (length ds)"
    have b: "?i \<le> length ds" "\<forall>i<?i. ds ! i < ds ! k" "\<forall>i. ?i \<le> i \<and> i < length ds \<longrightarrow> ds ! k \<le> ds ! i"
      using bisect_left_spec [OF srt, of 0 "length ds" "ds ! k"] by auto
    have "?i = k"
    proof (rule antisym)
      show "?i \<le> k" using b(2) by (metis less_irrefl not_le)
      show "k \<le> ?i" using b(3) inc [of ?i k] assms(3) by (metis leD le_less_linear le_less_trans less_imp_le_nat nat_less_le order_refl)
    qed
    moreover have "ds ! 0 < ds ! k" "ds ! k < ds ! (length ds - 1)" "ds ! (k - 1) < ds ! k"
      using inc 3 assms(3) by auto
    ultimately show ?thesis by (simp add: interp_elev_def Let_def)
  qed
qed

lemma zip_same_length_map: "length xs = length ys \<Longrightarrow> map2 f xs ys = map (\<lambda>i. f (xs ! i) (ys ! i)) [0..<length xs]"
  by (rule nth_equalityI) auto

lemma cumulative_length: "cumulative m acc ps = Some ds \<Longrightarrow> length ds = length ps"
  by (induction m acc ps arbitrary: ds rule: cumulative.induct) (auto split: option.splits)


subsection \<open>Bounds, judged in either way\<close>

lemma all_within_iff:
  "all_within vs lo hi \<longleftrightarrow> (\<forall>v\<in>set vs. \<exists>x. finite_or_none v = Some x \<and> between lo hi x)"
proof (cases "list_all is_number vs \<and> finite_total vs")
  case True
  then have fin: "\<forall>v\<in>set vs. finite_or_none v = Some (number_value v)"
    by (auto simp: finite_total_def list_all_iff number_value_def)
  have "vs = [] \<or> between lo None (Min (set (map number_value vs))) \<and> between None hi (Max (set (map number_value vs))) \<longleftrightarrow>
     (\<forall>v\<in>set vs. between lo hi (number_value v))"
  proof (cases "vs = []")
    case False
    then have "between lo None (Min (number_value ` set vs)) \<longleftrightarrow> (\<forall>v\<in>set vs. between lo None (number_value v))"
      "between None hi (Max (number_value ` set vs)) \<longleftrightarrow> (\<forall>v\<in>set vs. between None hi (number_value v))"
      by (auto simp: between_def split: option.splits)
    then show ?thesis using False by (auto simp: between_def)
  qed simp
  then show ?thesis using True fin by (auto simp: all_within_def)
next
  case False
  then have "all_within vs lo hi = list_all (\<lambda>v. case finite_or_none v of None \<Rightarrow> False | Some x \<Rightarrow> between lo hi x) vs"
    unfolding all_within_def by (simp only: if_False)
  then show ?thesis by (auto simp: list_all_iff split: option.splits)
qed

lemma finite_or_none_simps [simp]:
  "finite_or_none (JFloat (Fin x)) = Some x" "finite_or_none (JInt n) = Some (of_int n)"
  "finite_or_none JNull = None" "finite_or_none (JFloat NaN) = None"
  by (simp_all add: finite_or_none_def)

lemma plausible_elevation_iff:
  "plausible_elevation v = (case finite_or_none v of Some x \<Rightarrow> if plausible_m x then v else JNull | None \<Rightarrow> JNull)"
  by (simp add: plausible_elevation_def plausible_m_def split: option.splits)

lemma sound_profile_iff:
  "\<not> profile_needs_repair p \<longleftrightarrow>
     (\<forall>v\<in>set (fst p). finite_or_none v \<noteq> None) \<and> (\<forall>v\<in>set (snd p). \<exists>x. finite_or_none v = Some x \<and> plausible_m x)"
  by (auto simp: profile_needs_repair_def all_within_iff between_def plausible_m_def)

lemma py_max_mem: "vs \<noteq> [] \<Longrightarrow> py_max vs \<in> set vs"
  and py_min_mem: "vs \<noteq> [] \<Longrightarrow> py_min vs \<in> set vs"
proof -
  assume "vs \<noteq> []"
  then have "Max (number_value ` set vs) \<in> number_value ` set vs" "Min (number_value ` set vs) \<in> number_value ` set vs" by simp_all
  then have "filter (\<lambda>v. number_value v = Max (set (map number_value vs))) vs \<noteq> []"
    "filter (\<lambda>v. number_value v = Min (set (map number_value vs))) vs \<noteq> []" by (auto simp: filter_empty_conv)
  then have "hd (filter (\<lambda>v. number_value v = Max (set (map number_value vs))) vs) \<in> set (filter (\<lambda>v. number_value v = Max (set (map number_value vs))) vs)"
    "hd (filter (\<lambda>v. number_value v = Min (set (map number_value vs))) vs) \<in> set (filter (\<lambda>v. number_value v = Min (set (map number_value vs))) vs)"
    by (simp_all only: hd_in_set not_False_eq_True)
  then show "py_max vs \<in> set vs" "py_min vs \<in> set vs" by (auto simp: py_max_def py_min_def)
qed

lemma measured_sound:
  assumes "\<forall>p. profile = Some p \<longrightarrow> snd p \<noteq> []"
  shows "\<exists>g h l. measured sq profile = Inr (g, h, l) \<and> \<not> bad_elevation h \<and> \<not> bad_elevation l \<and> g \<noteq> JNull"
proof (cases "profile = None \<or> profile_needs_repair (the profile)")
  case True
  then show ?thesis by (auto simp: measured_def bad_elevation_def split: option.splits)
next
  case False
  then obtain p where p: "profile = Some p" "\<not> profile_needs_repair p" by auto
  have ne: "snd p \<noteq> []" using assms p(1) by blast
  have "\<not> bad_elevation v" if "v \<in> set (snd p)" for v
    using p(2) that by (auto simp: sound_profile_iff bad_elevation_def plausible_elevation_iff)
  then show ?thesis using p ne py_max_mem [OF ne] py_min_mem [OF ne] by (simp add: measured_def)
qed

lemma clean_profile_sound:
  assumes "clean_elevation_profile ds es = Some (d, e)" "sorted (map fst (keep_samples (zip ds es)))"
  shows "\<not> profile_needs_repair (stored_profile (d, e))" "e \<noteq> []" "sorted d" "length e = length d" "2 \<le> length d"
proof -
  let ?kept = "keep_samples (zip ds es)"
  have d: "d = map fst ?kept" "2 \<le> length ?kept" "e = the (interpolate_elevation_gaps d (map snd ?kept))"
    "\<not> list_all (\<lambda>e. e = None) (map snd ?kept)"
    using assms(1) by (auto simp: clean_elevation_profile_def Let_def split: if_splits)
  have "interpolate_elevation_gaps d (map snd ?kept) \<noteq> None" using d(4) unfolding gaps_total list_all_iff .
  then have i: "interpolate_elevation_gaps d (map snd ?kept) = Some e" using d(3) by auto
  have plaus: "Some x \<in> set (map snd (keep_samples ps)) \<Longrightarrow> plausible_m x" for x ps
    by (induction ps rule: keep_samples.induct)
      (auto simp: plausible_elevation_iff finite_or_none_def split: option.splits if_splits)
  show "length e = length d" "2 \<le> length d" "e \<noteq> []" "sorted d"
    using gaps_length [OF i] d assms(2) by auto
  have "plausible_m (e ! k)" if "k < length e" for k
    using gaps_within [OF i, of k ELEVATION_MIN_M ELEVATION_MAX_M] plaus [of _ "zip ds es"] that gaps_length [OF i] d(1) assms(2)
    by (simp add: plausible_m_def)
  then show "\<not> profile_needs_repair (stored_profile (d, e))"
    by (auto simp: sound_profile_iff stored_profile_def all_set_conv_all_nth)
qed

subsection \<open>Distances of an edited track\<close>

lemma haversine_nonneg:
  assumes "libm_ok m" "haversine_km m a b c d = Some h"
  shows "0 \<le> h"
proof -
  obtain x where x: "\<not> x < 0" "\<not> m_sqrt m x > 1" "h = 2 * 6371 * m_asin m (m_sqrt m x)"
    using assms(2) unfolding haversine_km_def Let_def by (metis option.distinct(1) option.inject)
  then have "0 \<le> m_asin m (m_sqrt m x)" using assms(1) by (simp add: libm_ok_def)
  then show ?thesis by (simp add: x(3))
qed

lemma metrics_loop_nonneg: "libm_ok m \<Longrightarrow> metrics_loop m prev ps d = Some (total_km, samples) \<Longrightarrow> d \<le> total_km"
proof (induction m prev ps d arbitrary: samples rule: metrics_loop.induct)
  case (2 m prev p ps d)
  then obtain h s where h: "haversine_km m (tp_lat prev) (tp_lng prev) (tp_lat p) (tp_lng p) = Some h"
    and s: "metrics_loop m p ps (d + h) = Some (total_km, s)"
    by (auto split: option.splits)
  show ?case using 2(1) [OF h 2(2) s] haversine_nonneg [OF 2(2) h] by simp
qed simp

lemma metrics_loop_elevs:
  "metrics_loop m prev ps d = Some (total_km, samples) \<Longrightarrow> e \<in> set (map snd samples) \<longleftrightarrow> (\<exists>p\<in>set ps. tp_elev p = Some e)"
proof (induction m prev ps d arbitrary: samples rule: metrics_loop.induct)
  case (2 m prev p ps d)
  then obtain h s where h: "haversine_km m (tp_lat prev) (tp_lng prev) (tp_lat p) (tp_lng p) = Some h"
    and s: "metrics_loop m p ps (d + h) = Some (total_km, s)"
    and samples: "samples = (case tp_elev p of None \<Rightarrow> s | Some e \<Rightarrow> (d + h, e) # s)"
    by (auto split: option.splits)
  show ?case using 2(1) [OF h s] by (cases "tp_elev p") (auto simp: samples)
qed simp

lemma metrics_loop_split:
  "metrics_loop m prev (us @ p # vs) d = Some (total_km, samples) \<Longrightarrow>
     \<exists>mid s1 s2. metrics_loop m prev (us @ [p]) d = Some (mid, s1) \<and> metrics_loop m p vs 0 = Some (total_km - mid, s2)"
proof (induction us arbitrary: prev d samples)
  case Nil
  have shift: "\<exists>s'. metrics_loop m q ps (x - c) = Some (t - c, s')" if "metrics_loop m q ps x = Some (t, s)" for q ps x t s c
    using that
  proof (induction m q ps x arbitrary: s rule: metrics_loop.induct)
    case (2 m prev p ps x)
    then obtain h s1 where h: "haversine_km m (tp_lat prev) (tp_lng prev) (tp_lat p) (tp_lng p) = Some h"
      and s1: "metrics_loop m p ps (x + h) = Some (t, s1)" by (auto split: option.splits)
    have eq: "x - c + h = x + h - c" by simp
    show ?case using 2(1) [OF h s1] h by (auto simp: eq)
  qed simp
  from Nil obtain h s where h: "haversine_km m (tp_lat prev) (tp_lng prev) (tp_lat p) (tp_lng p) = Some h"
    and s: "metrics_loop m p vs (d + h) = Some (total_km, s)" by (auto split: option.splits)
  show ?case using shift [OF s, of "d + h"] h by (auto split: option.splits)
next
  case (Cons u us)
  then obtain h s where h: "haversine_km m (tp_lat prev) (tp_lng prev) (tp_lat u) (tp_lng u) = Some h"
    and s: "metrics_loop m u (us @ p # vs) (d + h) = Some (total_km, s)" by (auto split: option.splits)
  show ?case using Cons(1) [OF s] h by auto
qed

lemma elevation_gain_nonneg: "0 \<le> elevation_gain sq es ds noise"
proof -
  have "0 < noise_threshold sq sigma stride window" for sigma stride window
    using noise_threshold_bounds(1) [of sq sigma stride window] by (simp add: ELEV_GAIN_THRESHOLD_MIN_M_def)
  then show ?thesis by (auto simp: elevation_gain_def Let_def case_prod_beta intro: gain_loop_nonneg)
qed

lemma round_half_even_mono:
  assumes "x \<le> y"
  shows "round_half_even x \<le> round_half_even y"
proof (rule ccontr)
  assume "\<not> round_half_even x \<le> round_half_even y"
  then have lt: "round_half_even y + 1 \<le> round_half_even x" by simp
  then have "of_int (round_half_even y) + 1 \<le> (of_int (round_half_even x) :: rat)"
    by (metis of_int_1 of_int_add of_int_le_iff)
  then have "x = y" using assms round_half_even_bounds(1) [of x] round_half_even_bounds(2) [of y] by linarith
  then show False using lt by simp
qed

lemma apportioned:
  assumes "0 \<le> (f::rat)" "f \<le> 1" "0 \<le> n" "n \<le> n'"
  shows "0 \<le> round_half_even (of_int n * f)" "round_half_even (of_int n * f) \<le> n"
    "round_half_even (of_int n * f) \<le> round_half_even (of_int n' * f)"
proof -
  have "0 \<le> of_int n * f" using assms by simp
  then show "0 \<le> round_half_even (of_int n * f)" using round_half_even_mono [of 0 "of_int n * f"] round_half_even_of_int [of 0] by simp
  have "of_int n * f \<le> of_int n" using assms by (simp add: mult_left_le)
  then show "round_half_even (of_int n * f) \<le> n" using round_half_even_mono [of "of_int n * f" "of_int n"] by simp
  have "of_int n * f \<le> of_int n' * f" using assms by (intro mult_right_mono) auto
  then show "round_half_even (of_int n * f) \<le> round_half_even (of_int n' * f)" by (rule round_half_even_mono)
qed

lemma recompute_split:
  assumes "recompute_track_metrics m (us @ p # vs) od om oe = Some t"
  shows "\<exists>t1 t2. recompute_track_metrics m (us @ [p]) od om oe = Some t1 \<and> recompute_track_metrics m (p # vs) od om oe = Some t2 \<and>
     tm_distance t1 + tm_distance t2 = tm_distance t"
proof -
  have one: "\<exists>s. recompute_track_metrics m [p] od om oe = Some s \<and> tm_distance s = 0"
    by (simp add: recompute_track_metrics_def Let_def)
  have two: "\<exists>s. recompute_track_metrics m ps od om oe = Some s \<and> tm_distance s = km * 1000"
    if "metrics_loop m (hd ps) (tl ps) 0 = Some (km, samples)" "2 \<le> length ps" for ps km samples
    using that by (simp add: recompute_track_metrics_def Let_def)
  show ?thesis
  proof (cases "us = [] \<or> vs = []")
    case True
    then show ?thesis using one assms by auto
  next
    case False
    then obtain u us' where us: "us = u # us'" by (cases us) auto
    obtain v vs' where vs: "vs = v # vs'" using False by (cases vs) auto
    obtain km samples where l: "metrics_loop m u (us' @ p # vs) 0 = Some (km, samples)" and km: "tm_distance t = km * 1000"
      using assms by (auto simp: recompute_track_metrics_def Let_def us)
    obtain mid s1 s2 where "metrics_loop m u (us' @ [p]) 0 = Some (mid, s1)" "metrics_loop m p vs 0 = Some (km - mid, s2)"
      using metrics_loop_split [OF l] by blast
    then show ?thesis using two [of "us @ [p]" mid s1] two [of "p # vs" "km - mid" s2] km by (auto simp: us vs left_diff_distrib)
  qed
qed

lemma recompute_long:
  assumes "2 \<le> length points" "recompute_track_metrics m points od om oe = Some t"
  obtains km rest samples frac moving where "metrics_loop m (hd points) (tl points) 0 = Some (km, rest)"
    "samples = (case tp_elev (hd points) of None \<Rightarrow> rest | Some e \<Rightarrow> (0, e) # rest)"
    "frac = (if od > 0 then max 0 (min 1 (km * 1000 / od)) else 1)" "moving = round_half_even (of_int om * frac)"
    "t = \<lparr>tm_distance = km * 1000, tm_gain = elevation_gain (m_sqrt m) (map snd samples) (Some (map fst samples)) None,
           tm_high = (if map snd samples = [] then None else Some (Max (set (map snd samples)))),
           tm_low = (if map snd samples = [] then None else Some (Min (set (map snd samples)))),
           tm_start = Some (latlng (hd points)), tm_end = Some (latlng (last points)),
           tm_speed = (if moving > 0 then km * 1000 / of_int moving else 0),
           tm_moving = moving, tm_elapsed = round_half_even (of_int oe * frac)\<rparr>"
proof (cases "metrics_loop m (hd points) (tl points) 0")
  case None
  then show thesis using assms by (simp add: recompute_track_metrics_def)
next
  case (Some x)
  obtain km rest where x: "x = (km, rest)" by (cases x)
  show thesis
  proof (rule that [OF _ refl refl refl])
    show "metrics_loop m (hd points) (tl points) 0 = Some (km, rest)" using Some x by simp
  qed (rule option.inject [THEN iffD1], unfold assms(2) [symmetric],
      use assms(1) Some x in \<open>simp add: recompute_track_metrics_def Let_def\<close>)
qed

subsection \<open>Properties\<close>

text \<open>A track's elevation profile is read back as it was stored, gaps filled. Over points whose distances
  grow, the stored profile has a value for every point: a recorded elevation is kept, a gap between two
  recorded points is the straight line by distance between them, a gap at an end extends the nearest
  recorded value; so every value lies between the lowest and the highest recorded one. Aligning polyline
  and profile again gives the same points, each with that value.\<close>

theorem stored_profile_is_read_back:
  assumes "cumulative m 0 (map (\<lambda>p. (tp_lat p, tp_lng p)) points) = Some ds" "sorted_wrt (<) ds"
    and "\<exists>p\<in>set points. tp_elev p \<noteq> None" "\<forall>p\<in>set points. \<forall>e. tp_elev p = Some e \<longrightarrow> lo \<le> e \<and> e \<le> hi"
    and "ELEVATION_MIN_M \<le> lo" "hi \<le> ELEVATION_MAX_M"
    and "decode (encode (map (\<lambda>p. (tp_lat p, tp_lng p)) points)) = map (\<lambda>p. (tp_lat p, tp_lng p)) points"
    and "encode (map (\<lambda>p. (tp_lat p, tp_lng p)) points) \<noteq> ''''"
  shows "\<exists>filled. points_to_elevation_profile m points = Some (Some (ds, filled)) \<and> length filled = length points \<and>
    (\<forall>i<length points. lo \<le> filled ! i \<and> filled ! i \<le> hi \<and>
       (\<forall>e. tp_elev (points ! i) = Some e \<longrightarrow> filled ! i = e)) \<and>
    (\<forall>a i b x y. a < i \<and> i < b \<and> b < length points \<and> tp_elev (points ! a) = Some x \<and> tp_elev (points ! b) = Some y \<and>
       (\<forall>j. a < j \<and> j < b \<longrightarrow> tp_elev (points ! j) = None) \<longrightarrow>
       filled ! i = x + (ds ! i - ds ! a) / (ds ! b - ds ! a) * (y - x)) \<and>
    align_points m decode (points_to_polyline encode points) (Some (ds, filled)) =
      Some (map (\<lambda>i. \<lparr>tp_lat = tp_lat (points ! i), tp_lng = tp_lng (points ! i), tp_elev = Some (filled ! i)\<rparr>) [0..<length points])"
proof -
  let ?es = "map tp_elev points" and ?ll = "map (\<lambda>p. (tp_lat p, tp_lng p)) points"
  have ne: "points \<noteq> []" using assms(3) by auto
  have len: "length ds = length points" using cumulative_length [OF assms(1)] by simp
  have srt: "sorted ds" using assms(2) by (simp add: strict_sorted_iff)
  have "interpolate_elevation_gaps ds ?es \<noteq> None" using assms(3) by (auto simp: gaps_total)
  then obtain r where r: "interpolate_elevation_gaps ds ?es = Some r" by blast
  have prof: "points_to_elevation_profile m points = Some (Some (ds, r))"
    using assms(1,3) r by (auto simp: points_to_elevation_profile_def list_all_iff)
  have lenr: "length r = length points" using gaps_length [OF r] by simp
  have within: "lo \<le> r ! i \<and> r ! i \<le> hi" if "i < length points" for i
  proof -
    have "\<forall>e. Some e \<in> set ?es \<longrightarrow> lo \<le> e \<and> e \<le> hi" using assms(4) by (metis imageE list.set_map)
    then show ?thesis using gaps_within [OF r srt, of i lo hi] that len by simp
  qed
  have kept: "r ! i = e" if "i < length points" "tp_elev (points ! i) = Some e" for i e
    using gaps_known [OF r, of i e] that by simp
  have line: "r ! i = x + (ds ! i - ds ! a) / (ds ! b - ds ! a) * (y - x)"
    if "a < i" "i < b" "b < length points" "tp_elev (points ! a) = Some x" "tp_elev (points ! b) = Some y"
      "\<forall>j. a < j \<and> j < b \<longrightarrow> tp_elev (points ! j) = None" for a i b x y
  proof -
    have "ds ! a < ds ! b" using assms(2) that len by (simp add: sorted_wrt_nth_less)
    then show ?thesis using gaps_between [OF r that(1,2)] that by simp
  qed
  have point: "track_point a b (Some (interp_elev (ds ! i) ds r)) = \<lparr>tp_lat = a, tp_lng = b, tp_elev = Some (r ! i)\<rparr>"
    if "i < length points" for i a b
    using interp_elev_sample [OF assms(2), of r i] within [OF that] that len lenr assms(5,6)
    by (simp add: track_point_def plausible_m_def)
  have "align_points m decode (points_to_polyline encode points) (Some (ds, r)) =
      Some (map2 (\<lambda>(lat, lng) d. track_point lat lng (Some (interp_elev d ds r))) ?ll ds)"
  proof -
    have "ds \<noteq> []" "r \<noteq> []" using ne len lenr by auto
    then show ?thesis using assms(1,7,8) ne len lenr by (simp add: align_points_def points_to_polyline_def Let_def)
  qed
  also have "\<dots> = Some (map (\<lambda>i. \<lparr>tp_lat = tp_lat (points ! i), tp_lng = tp_lng (points ! i), tp_elev = Some (r ! i)\<rparr>) [0..<length points])"
    using len point by (simp add: zip_same_length_map)
  finally show ?thesis using prof lenr within kept line by (intro exI [of _ r]) blast
qed

definition example_libm :: libm where
  "example_libm = \<lparr>m_sin = \<lambda>x. x, m_cos = \<lambda>x. 1, m_asin = \<lambda>x. x, m_sqrt = \<lambda>x. x\<rparr>"

definition example_points :: "TrackPoint list" where
  "example_points = [track_point 0 0 (Some 10), track_point 0 1 None, track_point 0 3 (Some 20)]"

theorem stored_profile_is_read_back_witness:
  "\<exists>ds filled. sorted_wrt (<) ds \<and>
     points_to_elevation_profile example_libm example_points = Some (Some (ds, filled)) \<and>
     filled ! 0 = 10 \<and> 10 \<le> filled ! 1 \<and> filled ! 1 \<le> 20 \<and> filled ! 2 = 20 \<and>
     align_points example_libm (\<lambda>_. [(0, 0), (0, 1), (0, 3)]) (points_to_polyline (\<lambda>_. ''x'') example_points) (Some (ds, filled)) =
       Some (map (\<lambda>i. \<lparr>tp_lat = tp_lat (example_points ! i), tp_lng = tp_lng (example_points ! i), tp_elev = Some (filled ! i)\<rparr>) [0..<3])"
proof -
  let ?ll = "[(0, 0), (0, 1), (0, 3)] :: (rat \<times> rat) list"
  obtain ds where c: "cumulative example_libm 0 ?ll = Some ds" and s: "sorted_wrt (<) ds"
    by (simp add: example_libm_def haversine_km_def radians_def math_pi_def Let_def power2_eq_square)
  have e: "tp_elev (example_points ! 0) = Some 10" "tp_elev (example_points ! 2) = Some 20" "length example_points = 3"
    and ll: "map (\<lambda>p. (tp_lat p, tp_lng p)) example_points = ?ll"
    by (simp_all add: example_points_def track_point_def plausible_m_def ELEVATION_MIN_M_def ELEVATION_MAX_M_def)
  have c': "cumulative example_libm 0 (map (\<lambda>p. (tp_lat p, tp_lng p)) example_points) = Some ds" using c ll by simp
  have h: "\<exists>p\<in>set example_points. tp_elev p \<noteq> None"
    "\<forall>p\<in>set example_points. \<forall>e. tp_elev p = Some e \<longrightarrow> 10 \<le> e \<and> e \<le> 20"
    by (simp_all add: example_points_def track_point_def plausible_m_def ELEVATION_MIN_M_def ELEVATION_MAX_M_def)
  have b: "ELEVATION_MIN_M \<le> 10" "20 \<le> ELEVATION_MAX_M" by (simp_all add: ELEVATION_MIN_M_def ELEVATION_MAX_M_def)
  from stored_profile_is_read_back [OF c' s h b ll [symmetric], of "\<lambda>_. ''x''"]
  obtain filled where f: "points_to_elevation_profile example_libm example_points = Some (Some (ds, filled))"
    "\<forall>i<3. 10 \<le> filled ! i \<and> filled ! i \<le> 20 \<and> (\<forall>e. tp_elev (example_points ! i) = Some e \<longrightarrow> filled ! i = e)"
    "align_points example_libm (\<lambda>_. ?ll) (points_to_polyline (\<lambda>_. ''x'') example_points) (Some (ds, filled)) =
       Some (map (\<lambda>i. \<lparr>tp_lat = tp_lat (example_points ! i), tp_lng = tp_lng (example_points ! i), tp_elev = Some (filled ! i)\<rparr>) [0..<3])"
    unfolding e(3) by blast
  have "filled ! 0 = 10" "10 \<le> filled ! 1" "filled ! 1 \<le> 20" "filled ! 2 = 20" using f(2) e by simp_all
  then show ?thesis using s f(1,3) by blast
qed

text \<open>C32. Repairing an activity's elevation figures leaves them sound. For a profile with at least one elevation
  whose distances are in order, the repair returns: a profile it could read has then finite distances
  and plausible elevations only (or is gone), highest and lowest are plausible or absent, the gain is
  plausible, absent, or the one measured from that profile; an absent gain stays absent. What was sound is
  returned unchanged, and repairing again changes nothing.\<close>

theorem repaired_figures_are_sound:
  assumes "\<forall>p. profile = Some p \<longrightarrow> snd p \<noteq> [] \<and> sorted (map fst (keep_samples (zip (fst p) (snd p))))"
  shows "\<exists>profile' gain' high' low'.
    repair_elevations sq profile gain high low app_measured = Inr (profile', gain', high', low') \<and>
    (\<forall>q. profile' = Some q \<longrightarrow> \<not> profile_needs_repair q \<or>
       profile = Some q \<and> \<not> (list_all is_reading (fst q) \<and> list_all is_reading (snd q))) \<and>
    \<not> bad_elevation high' \<and> \<not> bad_elevation low' \<and>
    (bad_gain gain' \<longrightarrow> (\<exists>h l. measured sq profile' = Inr (gain', h, l))) \<and> (gain' = JNull \<longleftrightarrow> gain = JNull) \<and>
    ((\<forall>q. profile = Some q \<longrightarrow> \<not> profile_needs_repair q) \<and> \<not> bad_gain gain \<and> \<not> bad_elevation high \<and> \<not> bad_elevation low \<longrightarrow>
       (profile', gain', high', low') = (profile, gain, high, low)) \<and>
    repair_elevations sq profile' gain' high' low' app_measured = Inr (profile', gain', high', low')"
proof -
  obtain profile' repaired where rp: "repair_profile profile = (profile', repaired)" by fastforce
  have ne: "\<forall>p. profile' = Some p \<longrightarrow> snd p \<noteq> []"
    using assms rp clean_profile_sound(2)
    by (fastforce simp: repair_profile_def stored_profile_def split: option.splits if_splits)
  have sound: "\<not> profile_needs_repair q \<or>
       profile = Some q \<and> \<not> (list_all is_reading (fst q) \<and> list_all is_reading (snd q))" if "profile' = Some q" for q
    using that assms rp clean_profile_sound(1)
    by (fastforce simp: repair_profile_def split: option.splits if_splits)
  have again: "repair_profile profile' = (profile', False)"
    using sound by (auto simp: repair_profile_def split: option.splits)
  have same: "profile' = profile" "\<not> repaired" if "\<forall>q. profile = Some q \<longrightarrow> \<not> profile_needs_repair q"
    using that rp by (auto simp: repair_profile_def split: option.splits)
  obtain g h l where m: "measured sq profile' = Inr (g, h, l)" "\<not> bad_elevation h" "\<not> bad_elevation l" "g \<noteq> JNull"
    using measured_sound [OF ne] by blast
  define gain1 where "gain1 = (if repaired \<and> app_measured \<and> gain \<noteq> JNull then g else gain)"
  define high1 where "high1 = (if repaired \<and> app_measured then h else high)"
  define low1 where "low1 = (if repaired \<and> app_measured then l else low)"
  let ?g = "if bad_gain gain1 then g else gain1" and ?h = "if bad_elevation high1 then h else high1"
    and ?l = "if bad_elevation low1 then l else low1"
  have nn: "\<not> bad_gain JNull" by (simp add: bad_gain_def)
  have run: "repair_elevations sq profile gain high low app_measured = Inr (profile', ?g, ?h, ?l)"
    by (simp add: repair_elevations_def rp m(1) gain1_def high1_def low1_def)
  have run2: "repair_elevations sq profile' ?g ?h ?l app_measured = Inr (profile', ?g, ?h, ?l)"
    using m(2,3) by (simp add: repair_elevations_def again m(1))
  have "?g = JNull \<longleftrightarrow> gain = JNull" using m(4) nn by (auto simp: gain1_def)
  moreover have "bad_gain ?g \<longrightarrow> (\<exists>h l. measured sq profile' = Inr (?g, h, l))" using m(1) by auto
  moreover have "\<not> bad_elevation ?h" "\<not> bad_elevation ?l" using m by auto
  moreover have "(profile', ?g, ?h, ?l) = (profile, gain, high, low)"
    if "\<forall>q. profile = Some q \<longrightarrow> \<not> profile_needs_repair q" "\<not> bad_gain gain" "\<not> bad_elevation high" "\<not> bad_elevation low"
    using same [OF that(1)] that(2-) by (simp add: gain1_def high1_def low1_def)
  ultimately show ?thesis using run run2 sound by (intro exI conjI) (assumption, blast+)
qed

theorem repaired_figures_are_sound_witness:
  "\<exists>profile' high'. sorted (map fst (keep_samples (zip [JInt 0, JInt 1, JInt 2] [JInt 10, JFloat NaN, JInt 20]))) \<and>
     repair_elevations (\<lambda>x. x) (Some ([JInt 0, JInt 1, JInt 2], [JInt 10, JFloat NaN, JInt 20])) JNull (JInt 65535) JNull False =
       Inr (profile', JNull, high', JNull) \<and>
     (\<exists>q. profile' = Some q \<and> \<not> profile_needs_repair q) \<and> \<not> bad_elevation high'"
proof -
  let ?p = "([JInt 0, JInt 1, JInt 2], [JInt 10, JFloat NaN, JInt 20])"
  have s: "sorted (map fst (keep_samples (zip (fst ?p) (snd ?p))))" by (simp add: finite_or_none_def)
  have r: "list_all is_reading (fst ?p) \<and> list_all is_reading (snd ?p)" by (simp add: is_reading_def is_number_def)
  have h: "\<forall>p. Some ?p = Some p \<longrightarrow> snd p \<noteq> [] \<and> sorted (map fst (keep_samples (zip (fst p) (snd p))))" using s by simp
  have needs: "profile_needs_repair ?p"
    by (simp add: profile_needs_repair_def all_within_iff finite_or_none_def)
  have clean: "clean_elevation_profile (fst ?p) (snd ?p) = Some ([0, 1, 2], [10, 15, 20])"
    by (simp add: clean_elevation_profile_def Let_def plausible_elevation_iff plausible_m_def ELEVATION_MIN_M_def
      ELEVATION_MAX_M_def interpolate_elevation_gaps_def known_positions_def put_all_def gap_line_def upt_conv_Cons)
  have rp: "repair_profile (Some ?p) = (Some (stored_profile ([0, 1, 2], [10, 15, 20])), True)"
    using needs r clean by (simp add: repair_profile_def)
  have m: "\<exists>g h l. measured (\<lambda>x. x) (Some (stored_profile ([0, 1, 2], [10, 15, 20]))) = Inr (g, h, l)"
    by (simp add: measured_def stored_profile_def)
  have run: "\<exists>q high'. repair_elevations (\<lambda>x. x) (Some ?p) JNull (JInt 65535) JNull False = Inr (Some q, JNull, high', JNull)"
    using m by (auto simp: repair_elevations_def rp bad_gain_def bad_elevation_def)
  then obtain q high' where R: "repair_elevations (\<lambda>x. x) (Some ?p) JNull (JInt 65535) JNull False = Inr (Some q, JNull, high', JNull)"
    by blast
  from repaired_figures_are_sound [OF h, of "\<lambda>x. x" JNull "JInt 65535" JNull False]
  have "(\<not> profile_needs_repair q \<or> Some ?p = Some q \<and> \<not> (list_all is_reading (fst q) \<and> list_all is_reading (snd q))) \<and>
    \<not> bad_elevation high'"
    unfolding R sum.inject prod.inject by (elim exE conjE) metis
  then have "\<not> profile_needs_repair q" "\<not> bad_elevation high'" using r by auto
  then show ?thesis using R s by (intro exI [of _ "Some q"] exI [of _ high']) simp
qed

text \<open>Two faults of the repair. A profile without samples makes it raise on a figure it was to clear: the highest
  of no elevations is asked for. And a gap in a profile whose distances are not in order is filled off the
  end of the line, so the repaired profile can hold an elevation as implausible as those it removed.\<close>

theorem repair_faults:
  "repair_elevations sq (Some ([], [])) (JFloat NaN) JNull JNull app_measured = Inl EmptyProfile \<and>
   repair_elevations sq (Some ([JInt 0, JInt 100, JInt 1], [JInt 0, JNull, JInt 1000])) JNull JNull JNull False =
     Inr (Some ([JFloat (Fin 0), JFloat (Fin 100), JFloat (Fin 1)], [JFloat (Fin 0), JFloat (Fin 100000), JFloat (Fin 1000)]), JNull, JNull, JNull) \<and>
   profile_needs_repair ([JFloat (Fin 0), JFloat (Fin 100), JFloat (Fin 1)], [JFloat (Fin 0), JFloat (Fin 100000), JFloat (Fin 1000)])"
proof (intro conjI)
  have e: "\<not> profile_needs_repair ([], [])" by (simp add: profile_needs_repair_def all_within_iff)
  then have "repair_profile (Some ([], [])) = (Some ([], []), False)" by (simp add: repair_profile_def)
  then show "repair_elevations sq (Some ([], [])) (JFloat NaN) JNull JNull app_measured = Inl EmptyProfile"
    using e by (simp add: repair_elevations_def measured_def bad_gain_def bad_elevation_def finite_or_none_def)
  let ?p = "([JInt 0, JInt 100, JInt 1], [JInt 0, JNull, JInt 1000])"
  have "profile_needs_repair ?p" "list_all is_reading (fst ?p) \<and> list_all is_reading (snd ?p)"
    by (simp_all add: profile_needs_repair_def all_within_iff finite_or_none_def is_reading_def is_number_def)
  moreover have "clean_elevation_profile (fst ?p) (snd ?p) = Some ([0, 100, 1], [0, 100000, 1000])"
    by (simp add: clean_elevation_profile_def Let_def plausible_elevation_iff plausible_m_def ELEVATION_MIN_M_def
      ELEVATION_MAX_M_def interpolate_elevation_gaps_def known_positions_def put_all_def gap_line_def upt_conv_Cons)
  ultimately have "repair_profile (Some ?p) = (Some (stored_profile ([0, 100, 1], [0, 100000, 1000])), True)"
    by (simp add: repair_profile_def)
  then show "repair_elevations sq (Some ?p) JNull JNull JNull False =
     Inr (Some ([JFloat (Fin 0), JFloat (Fin 100), JFloat (Fin 1)], [JFloat (Fin 0), JFloat (Fin 100000), JFloat (Fin 1000)]), JNull, JNull, JNull)"
    by (simp add: repair_elevations_def stored_profile_def bad_gain_def bad_elevation_def)
  show "profile_needs_repair ([JFloat (Fin 0), JFloat (Fin 100), JFloat (Fin 1)], [JFloat (Fin 0), JFloat (Fin 100000), JFloat (Fin 1000)])"
    by (simp add: profile_needs_repair_def all_within_iff between_def ELEVATION_MAX_M_def)
qed

text \<open>The metrics of an edited track are consistent. Whenever they can be computed, distance and gain are
  not negative; highest and lowest are readings of the track, the highest not below the lowest, and both
  are absent when no point has one; the times are shares of the original ones, with moving time at most
  elapsed time; speed times moving time is the distance. Cutting a track at a point gives two pieces
  whose distances add up to it.\<close>

theorem edited_track_metrics_consistent:
  assumes "libm_ok m" "recompute_track_metrics m points od om oe = Some t" "0 \<le> om" "om \<le> oe"
  shows "0 \<le> tm_distance t \<and> 0 \<le> tm_gain t \<and>
    (tm_high t = None \<longleftrightarrow> (\<forall>p\<in>set points. tp_elev p = None)) \<and> (tm_low t = None \<longleftrightarrow> tm_high t = None) \<and>
    (\<forall>hi lo. tm_high t = Some hi \<and> tm_low t = Some lo \<longrightarrow>
       lo \<le> hi \<and> (\<exists>p\<in>set points. tp_elev p = Some hi) \<and> (\<exists>p\<in>set points. tp_elev p = Some lo) \<and>
       (\<forall>p\<in>set points. \<forall>e. tp_elev p = Some e \<longrightarrow> lo \<le> e \<and> e \<le> hi)) \<and>
    0 \<le> tm_moving t \<and> tm_moving t \<le> om \<and> tm_moving t \<le> tm_elapsed t \<and> tm_elapsed t \<le> oe \<and>
    (0 < tm_moving t \<longrightarrow> tm_speed t * of_int (tm_moving t) = tm_distance t) \<and>
    (\<forall>us p vs. points = us @ p # vs \<longrightarrow>
       (\<exists>t1 t2. recompute_track_metrics m (us @ [p]) od om oe = Some t1 \<and> recompute_track_metrics m (p # vs) od om oe = Some t2 \<and>
          tm_distance t1 + tm_distance t2 = tm_distance t))"
proof -
  have pieces: "\<exists>t1 t2. recompute_track_metrics m (us @ [p]) od om oe = Some t1 \<and> recompute_track_metrics m (p # vs) od om oe = Some t2 \<and>
          tm_distance t1 + tm_distance t2 = tm_distance t" if "points = us @ p # vs" for us p vs
    using assms(2) unfolding that by (rule recompute_split)
  show ?thesis
  proof (cases "length points < 2")
    case True
    then consider "points = []" | q where "points = [q]" by (cases points; cases "tl points") auto
    then have "t = \<lparr>tm_distance = 0, tm_gain = 0, tm_high = (case points of [] \<Rightarrow> None | q # _ \<Rightarrow> tp_elev q),
       tm_low = (case points of [] \<Rightarrow> None | q # _ \<Rightarrow> tp_elev q), tm_start = (case points of [] \<Rightarrow> None | q # _ \<Rightarrow> Some (latlng q)),
       tm_end = (case points of [] \<Rightarrow> None | q # _ \<Rightarrow> Some (latlng q)), tm_speed = 0, tm_moving = 0, tm_elapsed = 0\<rparr> \<and>
       (points = [] \<or> (\<exists>q. points = [q]))"
      using assms(2) by cases (simp_all add: recompute_track_metrics_def Let_def)
    then show ?thesis using pieces assms(3,4) by (elim conjE disjE exE) (simp_all, clarsimp)
  next
    case False
    then have two: "2 \<le> length points" by simp
    then obtain q qs where q: "points = q # qs" by (cases points) auto
    obtain km rest samples frac moving where l: "metrics_loop m (hd points) (tl points) 0 = Some (km, rest)"
      and samples: "samples = (case tp_elev (hd points) of None \<Rightarrow> rest | Some e \<Rightarrow> (0, e) # rest)"
      and frac: "frac = (if od > 0 then max 0 (min 1 (km * 1000 / od)) else 1)"
      and moving: "moving = round_half_even (of_int om * frac)"
      and t: "t = \<lparr>tm_distance = km * 1000, tm_gain = elevation_gain (m_sqrt m) (map snd samples) (Some (map fst samples)) None,
           tm_high = (if map snd samples = [] then None else Some (Max (set (map snd samples)))),
           tm_low = (if map snd samples = [] then None else Some (Min (set (map snd samples)))),
           tm_start = Some (latlng (hd points)), tm_end = Some (latlng (last points)),
           tm_speed = (if moving > 0 then km * 1000 / of_int moving else 0),
           tm_moving = moving, tm_elapsed = round_half_even (of_int oe * frac)\<rparr>"
      by (rule recompute_long [OF two assms(2)])
    let ?es = "map snd samples"
    have mem: "e \<in> set ?es \<longleftrightarrow> (\<exists>p\<in>set points. tp_elev p = Some e)" for e
      using metrics_loop_elevs [OF l, of e] by (auto simp: samples q split: option.splits)
    have f: "0 \<le> frac" "frac \<le> 1" by (auto simp: frac)
    have none: "?es = [] \<longleftrightarrow> (\<forall>p\<in>set points. tp_elev p = None)"
    proof -
      have "?es = [] \<longleftrightarrow> \<not> (\<exists>e. e \<in> set ?es)" by (cases samples) auto
      then show ?thesis unfolding mem by (auto simp: not_Some_eq [symmetric] simp del: not_Some_eq)
    qed
    have ext: "Max (set ?es) \<in> set ?es" "Min (set ?es) \<in> set ?es" if "?es \<noteq> []"
      using that by (simp_all del: set_map)
    have le: "Min (set ?es) \<le> e" "e \<le> Max (set ?es)" if "e \<in> set ?es" for e
      using that by (simp_all del: set_map)
    have A: "0 \<le> tm_distance t" "0 \<le> tm_gain t"
      using metrics_loop_nonneg [OF assms(1) l] elevation_gain_nonneg by (simp_all add: t)
    have B: "tm_high t = None \<longleftrightarrow> (\<forall>p\<in>set points. tp_elev p = None)" "tm_low t = None \<longleftrightarrow> tm_high t = None"
      using none by (simp_all add: t)
    have C: "lo \<le> hi \<and> (\<exists>p\<in>set points. tp_elev p = Some hi) \<and> (\<exists>p\<in>set points. tp_elev p = Some lo) \<and>
       (\<forall>p\<in>set points. \<forall>e. tp_elev p = Some e \<longrightarrow> lo \<le> e \<and> e \<le> hi)"
      if hl: "tm_high t = Some hi" "tm_low t = Some lo" for hi lo
    proof -
      have ne: "?es \<noteq> []" and hi: "hi = Max (set ?es)" and lo: "lo = Min (set ?es)"
        using hl by (auto simp: t split: if_splits)
      show ?thesis using ext [OF ne] le mem unfolding hi lo by blast
    qed
    have D: "0 \<le> tm_moving t" "tm_moving t \<le> om" "tm_moving t \<le> tm_elapsed t" "tm_elapsed t \<le> oe"
      using apportioned [OF f assms(3) assms(4)] apportioned(2) [OF f, of oe oe] assms(3,4) by (simp_all add: t moving)
    have E: "0 < tm_moving t \<longrightarrow> tm_speed t * of_int (tm_moving t) = tm_distance t" by (simp add: t)
    show ?thesis using A B C D E pieces by blast
  qed
qed

theorem edited_track_metrics_consistent_witness:
  "\<exists>t. libm_ok example_libm \<and> recompute_track_metrics example_libm example_points 1000 600 900 = Some t \<and>
     tm_high t = Some 20 \<and> 0 \<le> tm_distance t \<and> tm_moving t \<le> 600 \<and> tm_moving t \<le> tm_elapsed t"
proof -
  have ok: "libm_ok example_libm" by (simp add: libm_ok_def example_libm_def)
  obtain t where t: "recompute_track_metrics example_libm example_points 1000 600 900 = Some t" "tm_high t = Some 20"
    by (simp add: recompute_track_metrics_def example_libm_def example_points_def haversine_km_def radians_def math_pi_def
      track_point_def plausible_m_def ELEVATION_MIN_M_def ELEVATION_MAX_M_def Let_def power2_eq_square)
  then show ?thesis using edited_track_metrics_consistent [OF ok t(1)] ok by auto
qed

end
