(* ===== verification/TripSchema.thy ===== *)
theory TripSchema
  imports JsonText IsoTime Usage TrackRepair
begin

text \<open>
  Which documents a trip file may hold, from \<open>src/project/traxj_schema.py\<close>: the values no field may hold, the
  models of the format, and the messages that name a fault. The models are data (\<open>schema\<close>), one per
  pydantic class. The pydantic package itself is a parameter, \<open>validator\<close>: it answers the first error of a
  value against a model, or none; \<open>conforms\<close> states what its documentation says of strict mode, and is used in
  hypotheses only.
\<close>

definition TRIP_INT_MIN :: int where "TRIP_INT_MIN = - (2 ^ 63)"
definition TRIP_INT_MAX :: int where "TRIP_INT_MAX = 2 ^ 63 - 1"

subsection \<open>Schemas\<close>

datatype schema =
    StrField
  | IntField
  | FloatField
  | BoolField
  | AnyField
  | Between rat rat schema          \<comment> \<open>\<open>Field(ge, le, allow_inf_nan=False)\<close>\<close>
  | Positive schema                 \<comment> \<open>\<open>Field(gt=0)\<close>\<close>
  | Checked "json \<Rightarrow> string option" schema   \<comment> \<open>\<open>AfterValidator\<close>: the message of its refusal\<close>
  | OptionalField schema
  | ListOf schema
  | DictOf schema
  | Model "(string \<times> bool \<times> schema) list"   \<comment> \<open>name, required, type\<close>

text \<open>Pydantic's strict mode: no value is converted, but a float field takes an integer; unknown fields are
  ignored.\<close>

fun bounded_by :: "rat \<Rightarrow> rat \<Rightarrow> json \<Rightarrow> bool" where
  "bounded_by lo hi (JInt n) = (lo \<le> of_int n \<and> of_int n \<le> hi)"
| "bounded_by lo hi (JFloat (Fin x)) = (lo \<le> x \<and> x \<le> hi)"
| "bounded_by lo hi _ = False"

fun conforms :: "schema \<Rightarrow> json \<Rightarrow> bool" where
  "conforms StrField v = (case v of JStr _ \<Rightarrow> True | _ \<Rightarrow> False)"
| "conforms IntField v = (case v of JInt _ \<Rightarrow> True | _ \<Rightarrow> False)"
| "conforms FloatField v = is_number v"
| "conforms BoolField v = (case v of JBool _ \<Rightarrow> True | _ \<Rightarrow> False)"
| "conforms AnyField v = True"
| "conforms (Between lo hi s) v = (conforms s v \<and> bounded_by lo hi v)"
| "conforms (Positive s) v = (conforms s v \<and> (case v of JInt n \<Rightarrow> 0 < n | _ \<Rightarrow> False))"
| "conforms (Checked f s) v = (conforms s v \<and> f v = None)"
| "conforms (OptionalField s) v = (v = JNull \<or> conforms s v)"
| "conforms (ListOf s) v = (case v of JList xs \<Rightarrow> list_all (conforms s) xs | _ \<Rightarrow> False)"
| "conforms (DictOf s) v = (case v of JDict d \<Rightarrow> list_all (\<lambda>kv. conforms s (snd kv)) d | _ \<Rightarrow> False)"
| "conforms (Model fs) v =
     (case v of
        JDict d \<Rightarrow> list_all (\<lambda>f. case map_of d (fst f) of None \<Rightarrow> \<not> fst (snd f) | Some x \<Rightarrow> conforms (snd (snd f)) x) fs
      | _ \<Rightarrow> False)"

text \<open>The names of a model's fields, and of the models in their types.\<close>

fun field_names :: "schema \<Rightarrow> string list" where
  "field_names (Between lo hi s) = field_names s"
| "field_names (Positive s) = field_names s"
| "field_names (Checked f s) = field_names s"
| "field_names (OptionalField s) = field_names s"
| "field_names (ListOf s) = field_names s"
| "field_names (DictOf s) = field_names s"
| "field_names (Model fs) = concat (map (\<lambda>f. fst f # field_names (snd (snd f))) fs)"
| "field_names _ = []"

subsection \<open>Value types\<close>

text \<open>Comparisons of numbers, false for a \<open>NaN\<close>.\<close>

definition number_leq :: "json \<Rightarrow> json \<Rightarrow> bool" where
  "number_leq a b =
     (case (a, b) of
        (JFloat NaN, _) \<Rightarrow> False
      | (_, JFloat NaN) \<Rightarrow> False
      | (JFloat NInf, _) \<Rightarrow> True
      | (_, JFloat PInf) \<Rightarrow> True
      | (JFloat PInf, _) \<Rightarrow> False
      | (_, JFloat NInf) \<Rightarrow> False
      | _ \<Rightarrow> number_value a \<le> number_value b)"

definition number_less :: "json \<Rightarrow> json \<Rightarrow> bool" where
  "number_less a b \<longleftrightarrow> number_leq a b \<and> \<not> number_leq b a"

definition in_range :: "rat \<Rightarrow> rat \<Rightarrow> json \<Rightarrow> bool" where
  "in_range lo hi v \<longleftrightarrow> number_leq (JFloat (Fin lo)) v \<and> number_leq v (JFloat (Fin hi))"

text \<open>\<open>min\<close> and \<open>max\<close> of a list, which keep the first of equal items and any item no other compares with.\<close>

definition list_min :: "json list \<Rightarrow> json" where
  "list_min xs = foldl (\<lambda>m x. if number_less x m then x else m) (hd xs) (tl xs)"

definition list_max :: "json list \<Rightarrow> json" where
  "list_max xs = foldl (\<lambda>m x. if number_less m x then x else m) (hd xs) (tl xs)"

definition latlng_fault :: "json \<Rightarrow> string option" where
  "latlng_fault value =
     (case value of
        JList xs \<Rightarrow>
          if xs \<noteq> [] \<and> (length xs \<noteq> 2 \<or> \<not> in_range (- 90) 90 (xs ! 0) \<or> \<not> in_range (- 180) 180 (xs ! 1))
          then Some ''is not a latitude and longitude'' else None
      | _ \<Rightarrow> None)"

definition LatLng :: schema where "LatLng = Checked latlng_fault (ListOf FloatField)"

definition date_time_fault :: "json \<Rightarrow> string option" where
  "date_time_fault value =
     (case value of
        JStr s \<Rightarrow>
          if s \<noteq> [] \<and> parse_datetime (py_replace ''Z'' ''+00:00'' s) = None then Some ''is not a date and time'' else None
      | _ \<Rightarrow> None)"

definition DateTime :: schema where "DateTime = Checked date_time_fault StrField"

definition is_b64 :: "char \<Rightarrow> bool" where
  "is_b64 c \<longleftrightarrow> (let n = of_char c :: nat in
     65 \<le> n \<and> n \<le> 90 \<or> 97 \<le> n \<and> n \<le> 122 \<or> 48 \<le> n \<and> n \<le> 57) \<or> c = CHR ''+'' \<or> c = CHR ''/''"

text \<open>\<open>[A-Za-z0-9+/]+={0,2}\<close> and what follows.\<close>

definition b64_part :: "string \<Rightarrow> string option" where
  "b64_part s =
     (let body = takeWhile is_b64 s; rest = dropWhile is_b64 s; pad = length (takeWhile (\<lambda>c. c = CHR ''='') rest) in
      if body = [] \<or> pad > 2 then None else Some (drop pad rest))"

definition is_envelope :: "string \<Rightarrow> bool" where
  "is_envelope s \<longleftrightarrow> take 3 s = ''v1.'' \<and>
     (case b64_part (drop 3 s) of
        Some r \<Rightarrow> r \<noteq> [] \<and> hd r = CHR ''.'' \<and> b64_part (tl r) = Some []
      | None \<Rightarrow> False)"

definition envelope_fault :: "json \<Rightarrow> string option" where
  "envelope_fault value =
     (case value of JStr s \<Rightarrow> if is_envelope s then None else Some ''is not an encrypted envelope'' | _ \<Rightarrow> None)"

definition Envelope :: schema where "Envelope = Checked envelope_fault StrField"

definition photo_name_fault :: "json \<Rightarrow> string option" where
  "photo_name_fault value = (if value \<noteq> JNull \<and> \<not> is_photo_name value then Some ''is not a photo name'' else None)"

definition PhotoName :: schema where "PhotoName = Checked photo_name_fault (OptionalField StrField)"

definition route_point :: "json \<Rightarrow> bool" where
  "route_point p =
     (case p of
        JList cs \<Rightarrow> 2 \<le> length cs \<and> list_all is_number cs \<and> in_range (- 180) 180 (cs ! 0) \<and> in_range (- 90) 90 (cs ! 1)
      | _ \<Rightarrow> False)"

definition route_polyline_fault :: "json \<Rightarrow> string option" where
  "route_polyline_fault value =
     (case value of
        JStr s \<Rightarrow>
          if s = [] then None
          else
            (case json_loads False s of
               Some (JList points) \<Rightarrow> if list_all route_point points then None else Some ''is not a route''
             | _ \<Rightarrow> Some ''is not a route'')
      | _ \<Rightarrow> None)"

definition RoutePolyline :: schema where "RoutePolyline = Checked route_polyline_fault (OptionalField StrField)"

definition numbers_fault :: "rat \<Rightarrow> rat \<Rightarrow> json \<Rightarrow> string option" where
  "numbers_fault lo hi value =
     (case value of
        JList vs \<Rightarrow>
          if \<not> list_all is_number vs then Some ''is not a list of numbers''
          else if vs \<noteq> [] \<and> \<not> (number_leq (JFloat (Fin lo)) (list_min vs) \<and> number_leq (list_max vs) (JFloat (Fin hi)))
          then Some ''holds a number out of range'' else None
      | _ \<Rightarrow> Some ''is not a list'')"

definition Distances :: schema where "Distances = Checked (numbers_fault 0 (DISTANCE_MAX_M / 1000)) AnyField"
definition Elevations :: schema where "Elevations = Checked (numbers_fault ELEVATION_MIN_M ELEVATION_MAX_M) AnyField"

text \<open>Plausible figures, \<open>src/models/value_bounds.py\<close>.\<close>

definition SPEED_MAX_M_S :: rat where "SPEED_MAX_M_S = DISTANCE_MAX_M"
definition HEART_RATE_MAX :: rat where "HEART_RATE_MAX = 1000"
definition COUNT_MAX :: rat where "COUNT_MAX = 10 ^ 9"

definition Lat :: schema where "Lat = Between (- 90) 90 FloatField"
definition Lon :: schema where "Lon = Between (- 180) 180 FloatField"
definition ElevationF :: schema where "ElevationF = Between ELEVATION_MIN_M ELEVATION_MAX_M FloatField"
definition Distance :: schema where "Distance = Between 0 DISTANCE_MAX_M FloatField"
definition Duration :: schema where "Duration = Between 0 DURATION_MAX_S FloatField"
definition Gain :: schema where "Gain = Between 0 GAIN_MAX_M FloatField"
definition Speed :: schema where "Speed = Between 0 SPEED_MAX_M_S FloatField"
definition HeartRate :: schema where "HeartRate = Between 0 HEART_RATE_MAX FloatField"
definition Count :: schema where "Count = Between 0 COUNT_MAX FloatField"

subsection \<open>The format\<close>

definition SocialModel :: schema where
  "SocialModel = Model
     [(''network'', False, OptionalField StrField), (''handle'', False, OptionalField StrField)]"

definition PersonModel :: schema where
  "PersonModel = Model
     [(''id'', False, OptionalField IntField), (''name'', False, OptionalField StrField),
      (''email'', False, OptionalField StrField), (''phone'', False, OptionalField StrField),
      (''polarsteps'', False, OptionalField StrField), (''notes'', False, OptionalField StrField),
      (''avatar_photo'', False, PhotoName), (''socials'', False, OptionalField (ListOf SocialModel)),
      (''nationalities'', False, OptionalField (ListOf StrField)), (''residence'', False, OptionalField StrField),
      (''group_id'', False, OptionalField IntField)]"

definition GroupModel :: schema where
  "GroupModel = Model
     [(''id'', False, OptionalField IntField), (''name'', False, OptionalField StrField),
      (''nationalities'', False, OptionalField (ListOf StrField)),
      (''socials'', False, OptionalField (ListOf SocialModel))]"

definition MemoryModel :: schema where
  "MemoryModel = Model
     [(''id'', False, OptionalField IntField), (''public_id'', False, OptionalField StrField),
      (''name'', False, OptionalField StrField), (''date'', False, StrField),
      (''time'', False, OptionalField StrField), (''description'', False, OptionalField StrField),
      (''photos'', False, ListOf PhotoName), (''photo_refs'', False, AnyField), (''geo_mode'', False, StrField),
      (''lat'', False, OptionalField Lat), (''lon'', False, OptionalField Lon), (''comment_count'', False, AnyField),
      (''like_count'', False, AnyField)]"

definition JournalModel :: schema where
  "JournalModel = Model
     [(''id'', False, OptionalField IntField), (''date'', False, StrField), (''time'', False, OptionalField StrField),
      (''description'', False, OptionalField StrField), (''photos'', False, ListOf PhotoName),
      (''geo_mode'', False, StrField), (''lat'', False, OptionalField Lat), (''lon'', False, OptionalField Lon)]"

definition EncounterModel :: schema where
  "EncounterModel = Model
     [(''id'', False, OptionalField IntField), (''person_id'', False, OptionalField IntField),
      (''group_id'', False, OptionalField IntField), (''date'', False, StrField),
      (''time'', False, OptionalField StrField), (''description'', False, OptionalField StrField),
      (''geo_mode'', False, StrField), (''lat'', False, OptionalField Lat), (''lon'', False, OptionalField Lon)]"

definition EndpointModel :: schema where
  "EndpointModel = Model
     [(''lat'', False, Lat), (''lon'', False, Lon), (''source'', False, StrField)]"

definition SegmentModel :: schema where
  "SegmentModel = Model
     [(''id'', False, StrField), (''segment_type'', False, StrField), (''label'', False, StrField),
      (''date'', False, OptionalField StrField), (''start'', False, EndpointModel), (''end'', False, EndpointModel),
      (''route_mode'', False, StrField), (''train_number'', False, OptionalField StrField),
      (''hafas_provider'', False, OptionalField StrField), (''route_polyline'', False, RoutePolyline),
      (''route_status'', False, StrField), (''route_error'', False, OptionalField StrField),
      (''route_started_at'', False, OptionalField StrField), (''route_degraded'', False, BoolField),
      (''route_hafas_failed'', False, BoolField), (''route_degrade_retries'', False, IntField),
      (''route_edited'', False, BoolField), (''route_resolver_version'', False, IntField),
      (''route_strategy'', False, OptionalField StrField)]"

definition ActivityItemModel :: schema where
  "ActivityItemModel = Model
     [(''item_type'', False, OptionalField StrField), (''activity_id'', False, OptionalField IntField)]"

definition MemoryItemModel :: schema where
  "MemoryItemModel = Model
     [(''item_type'', False, OptionalField StrField), (''memory'', False, MemoryModel)]"

definition JournalItemModel :: schema where
  "JournalItemModel = Model
     [(''item_type'', False, OptionalField StrField), (''journal'', False, JournalModel)]"

definition EncounterItemModel :: schema where
  "EncounterItemModel = Model
     [(''item_type'', False, OptionalField StrField), (''encounter'', False, EncounterModel)]"

definition SegmentItemModel :: schema where
  "SegmentItemModel = Model
     [(''item_type'', False, OptionalField StrField), (''segment'', False, SegmentModel)]"

text \<open>Each item's model by the kind it is read as: any other kind, or none, is read as a segment.\<close>

definition ITEMS :: "(string \<times> schema) list" where
  "ITEMS = [(''activity'', ActivityItemModel), (''memory'', MemoryItemModel), (''journal'', JournalItemModel),
     (''encounter'', EncounterItemModel)]"

definition MapModel :: schema where
  "MapModel = Model
     [(''summary_polyline'', False, OptionalField StrField)]"

definition ElevationProfileModel :: schema where
  "ElevationProfileModel = Model
     [(''distances_km'', True, Distances), (''elevations_m'', True, Elevations)]"

definition StravaId :: schema where "StravaId = Positive IntField"

definition ActivityModel :: schema where
  "ActivityModel = Model
     [(''id'', False, OptionalField IntField), (''name'', False, StrField), (''type'', False, StrField),
      (''distance'', False, Distance), (''moving_time'', False, Duration), (''elapsed_time'', False, Duration),
      (''total_elevation_gain'', False, Gain), (''start_date'', False, DateTime),
      (''start_date_local'', False, DateTime), (''timezone'', False, StrField), (''achievement_count'', False, Count),
      (''kudos_count'', False, Count), (''comment_count'', False, Count), (''athlete_count'', False, Count),
      (''photo_count'', False, Count), (''trainer'', False, BoolField), (''commute'', False, BoolField),
      (''manual'', False, BoolField), (''private'', False, BoolField), (''flagged'', False, BoolField),
      (''average_speed'', False, Speed), (''max_speed'', False, Speed), (''has_heartrate'', False, BoolField),
      (''pr_count'', False, Count), (''total_photo_count'', False, Count), (''has_kudoed'', False, BoolField),
      (''gear_id'', False, OptionalField StrField), (''average_heartrate'', False, OptionalField HeartRate),
      (''max_heartrate'', False, OptionalField HeartRate), (''heartrate_opt_out'', False, BoolField),
      (''display_hide_heartrate_option'', False, BoolField), (''elev_high'', False, OptionalField ElevationF),
      (''elev_low'', False, OptionalField ElevationF), (''start_latlng'', False, OptionalField LatLng),
      (''end_latlng'', False, OptionalField LatLng), (''map'', False, MapModel),
      (''elevation_profile'', False, OptionalField ElevationProfileModel), (''is_edited'', False, BoolField),
      (''split_parent_id'', False, OptionalField IntField), (''strava_id'', False, OptionalField StravaId),
      (''split_root_id'', False, OptionalField IntField), (''split_base_name'', False, OptionalField StrField),
      (''original_polyline'', False, OptionalField StrField),
      (''original_elevation_profile'', False, OptionalField ElevationProfileModel),
      (''original_elevation_profile_enc'', False, OptionalField Envelope),
      (''original_start_latlng'', False, OptionalField LatLng),
      (''original_start_latlng_enc'', False, OptionalField Envelope),
      (''original_end_latlng'', False, OptionalField LatLng),
      (''original_end_latlng_enc'', False, OptionalField Envelope),
      (''original_total_elevation_gain'', False, OptionalField Gain),
      (''original_distance'', False, OptionalField Distance),
      (''original_moving_time'', False, OptionalField Duration),
      (''original_elapsed_time'', False, OptionalField Duration),
      (''original_average_speed'', False, OptionalField Speed),
      (''original_elev_high'', False, OptionalField ElevationF),
      (''original_elev_low'', False, OptionalField ElevationF), (''refresh_status'', False, OptionalField StrField),
      (''refresh_started_at'', False, OptionalField StrField), (''refresh_error'', False, OptionalField StrField),
      (''source'', False, OptionalField StrField), (''source_id'', False, OptionalField StrField),
      (''start_latlng_enc'', False, OptionalField Envelope), (''end_latlng_enc'', False, OptionalField Envelope),
      (''elevation_profile_enc'', False, OptionalField Envelope)]"

definition FilterStateModel :: schema where
  "FilterStateModel = Model
     [(''start_date'', False, OptionalField StrField), (''end_date'', False, OptionalField StrField),
      (''activity_types'', False, OptionalField (ListOf StrField))]"

text \<open>A day's counter entries: a list of names and values, or the map written before a counter could repeat.\<close>

definition day_counts_fault :: "json \<Rightarrow> string option" where
  "day_counts_fault value =
     (if value = JNull \<or>
         (case value of
            JDict d \<Rightarrow> list_all (\<lambda>kv. is_number (snd kv)) d
          | JList es \<Rightarrow>
              list_all (\<lambda>e. case e of
                  JDict d \<Rightarrow> (case dget d ''name'' of JStr _ \<Rightarrow> True | _ \<Rightarrow> False) \<and> is_number (dget_or d ''value'' (JInt 0))
                | _ \<Rightarrow> False) es
          | _ \<Rightarrow> False)
      then None else Some ''is not a list of counts'')"

definition DayMetaModel :: schema where
  "DayMetaModel = Model
     [(''difficulty'', False, OptionalField StrField), (''sleeping'', False, OptionalField StrField),
      (''weather'', False, OptionalField StrField), (''journal'', False, OptionalField StrField),
      (''tags'', False, OptionalField (ListOf StrField)), (''counters'', False, Checked day_counts_fault AnyField)]"

definition CounterModel :: schema where
  "CounterModel = Model
     [(''name'', True, StrField), (''start'', False, FloatField)]"

definition TripModel :: schema where
  "TripModel = Model
     [(''version'', False, IntField), (''name'', False, OptionalField StrField),
      (''trip_start'', False, OptionalField StrField), (''filter_state'', False, OptionalField FilterStateModel),
      (''items'', True, ListOf (DictOf AnyField)), (''activities'', False, ListOf ActivityModel),
      (''people'', False, ListOf PersonModel), (''groups'', False, ListOf GroupModel),
      (''day_meta'', False, OptionalField (DictOf DayMetaModel)),
      (''sleeping_options'', False, OptionalField (ListOf StrField)), (''trip_end'', False, OptionalField StrField),
      (''sleeping_option_groups'', False, OptionalField (DictOf StrField)),
      (''counters'', False, OptionalField (ListOf CounterModel)), (''track_color'', False, OptionalField StrField),
      (''track_secondary_color'', False, OptionalField StrField), (''track_width'', False, OptionalField FloatField),
      (''alternating_track_colors'', False, OptionalField BoolField),
      (''elevation_chart_color'', False, OptionalField StrField),
      (''elevation_chart_show_line'', False, OptionalField BoolField),
      (''color_by_type'', False, OptionalField BoolField),
      (''type_styles'', False, OptionalField (DictOf (DictOf AnyField))),
      (''languages'', False, OptionalField (ListOf StrField)), (''lock_version'', False, AnyField)]"

subsection \<open>Messages\<close>

datatype part = Key string | Index nat

definition NAMES :: "string list" where
  "NAMES = field_names TripModel @ field_names SegmentItemModel @ concat (map (\<lambda>i. field_names (snd i)) ITEMS)"

definition SAYS :: "(string \<times> string) list" where
  "SAYS =
     [(''string_type'', ''is not text''), (''int_type'', ''is not a whole number''), (''float_type'', ''is not a number''),
      (''bool_type'', ''is not true or false''), (''list_type'', ''is not a list''), (''dict_type'', ''is not an object''),
      (''model_type'', ''is not an object''), (''missing'', ''is missing''), (''greater_than'', ''is out of range''),
      (''greater_than_equal'', ''is out of range''), (''less_than_equal'', ''is out of range'')]"

text \<open>A path named by the format's own fields; \<open>prev\<close> is the part before.\<close>

fun where_loop :: "part option \<Rightarrow> string \<Rightarrow> part list \<Rightarrow> string" where
  "where_loop prev out [] = out"
| "where_loop prev out (Index n # ps) = where_loop (Some (Index n)) (out @ ''['' @ show_nat n @ '']'') ps"
| "where_loop prev out (Key k # ps) =
     (let part = (if prev = Some (Key ''day_meta'') then ''<day>'' else if k \<notin> set NAMES then ''<key>'' else k) in
      where_loop (Some (Key k)) (out @ (if out = [] then [] else ''.'') @ part) ps)"

definition where_text :: "part list \<Rightarrow> string" where
  "where_text path = (let out = where_loop None [] path in if out = [] then ''the trip'' else out)"

record pyd_error =
  err_type :: string
  err_msg :: string
  err_loc :: "part list"

type_synonym validator = "schema \<Rightarrow> json \<Rightarrow> pyd_error option"

definition described :: "pyd_error \<Rightarrow> part list \<Rightarrow> string" where
  "described error pre =
     (let says = (if err_type error = ''traxj'' then err_msg error
                  else case map_of SAYS (err_type error) of Some s \<Rightarrow> s | None \<Rightarrow> ''is not valid'') in
      where_text (pre @ err_loc error) @ '' '' @ says)"

subsection \<open>Values no field may hold\<close>

text \<open>A lone surrogate, in the three bytes of its number: no other character's bytes have \<open>ED\<close> followed by one
  from \<open>A0\<close>.\<close>

fun lone_surrogate :: "string \<Rightarrow> bool" where
  "lone_surrogate (a # b # s) = ((of_char a :: nat) = 237 \<and> 160 \<le> (of_char b :: nat) \<or> lone_surrogate (b # s))"
| "lone_surrogate _ = False"

definition bad_text :: "string \<Rightarrow> bool" where
  "bad_text text = (if list_all (\<lambda>c. (of_char c :: nat) < 128) text then False else lone_surrogate text)"

text \<open>The fault of one value that is not a container.\<close>

definition scalar_fault :: "bool \<Rightarrow> json \<Rightarrow> string option" where
  "scalar_fault floats v =
     (case v of
        JFloat f \<Rightarrow> if floats \<and> (case f of Fin _ \<Rightarrow> False | _ \<Rightarrow> True) then Some ''is not a finite number'' else None
      | JStr s \<Rightarrow> if bad_text s then Some ''is not valid text'' else None
      | JInt n \<Rightarrow> if TRIP_INT_MIN \<le> n \<and> n \<le> TRIP_INT_MAX then None else Some ''is a number out of range''
      | _ \<Rightarrow> None)"

definition is_container :: "json \<Rightarrow> bool" where
  "is_container v \<longleftrightarrow> (case v of JDict _ \<Rightarrow> True | JList _ \<Rightarrow> True | _ \<Rightarrow> False)"

fun pairs :: "json \<Rightarrow> (part \<times> json) list" where
  "pairs (JDict d) = map (\<lambda>(k, v). (Key k, v)) d"
| "pairs (JList xs) = map2 (\<lambda>n v. (Index n, v)) [0..<length xs] xs"
| "pairs _ = []"

fun weight :: "json \<Rightarrow> nat" where
  "weight (JList xs) = Suc (Suc (sum_list (map (\<lambda>v. Suc (weight v)) xs)))"
| "weight (JDict d) = Suc (Suc (sum_list (map (\<lambda>kv. Suc (weight (snd kv))) d)))"
| "weight _ = 1"

lemma weight_pairs: "is_container v \<Longrightarrow> weight v = Suc (Suc (sum_list (map (\<lambda>kv. Suc (weight (snd kv))) (pairs v))))"
proof (cases v)
  case (JList xs)
  have "map (\<lambda>kv. Suc (weight (snd kv))) (map2 (\<lambda>n v. (Index n, v)) [0..<length xs] xs) = map (\<lambda>v. Suc (weight v)) xs"
    by (rule nth_equalityI) simp_all
  then show ?thesis by (simp add: JList)
qed (auto simp: is_container_def comp_def case_prod_beta intro: arg_cong [where f = sum_list])

text \<open>The stack holds what each open level has left, \<open>keys\<close> the key each was entered by.\<close>

definition bad_key :: "part \<Rightarrow> bool" where
  "bad_key p = (case p of Key k \<Rightarrow> bad_text k | Index _ \<Rightarrow> False)"

function (sequential) bad_loop :: "bool \<Rightarrow> part list \<Rightarrow> (part \<times> json) list list \<Rightarrow> string option" where
  "bad_loop floats keys [] = None"
| "bad_loop floats keys ([] # stack) = bad_loop floats (butlast keys) stack"
| "bad_loop floats keys (((key, value) # left) # stack) =
     (if bad_key key then Some (where_text keys @ '' has a field name that is not valid text'')
      else if is_container value then bad_loop floats (keys @ [key]) (pairs value # left # stack)
      else
        (case scalar_fault floats value of
           Some says \<Rightarrow> Some (where_text (keys @ [key]) @ '' '' @ says)
         | None \<Rightarrow> bad_loop floats keys (left # stack)))"
  by pat_completeness auto
termination
  by (relation "measure (\<lambda>(floats, keys, stack). sum_list (map (\<lambda>level. Suc (sum_list (map (\<lambda>kv. Suc (weight (snd kv))) level))) stack))")
    (auto simp: weight_pairs)

definition bad_value :: "bool \<Rightarrow> json \<Rightarrow> string option" where
  "bad_value floats document = bad_loop floats [] [pairs document]"

subsection \<open>The fault of a document\<close>

text \<open>A document is the dict of a trip file. A list of items holds dicts, as \<open>TripModel\<close> asks.\<close>

definition item_fault :: "validator \<Rightarrow> nat \<Rightarrow> json \<Rightarrow> string option" where
  "item_fault v n item =
     (let kind = (case item of JDict d \<Rightarrow> dget d ''item_type'' | _ \<Rightarrow> JNull);
          model = (case kind of
                     JStr k \<Rightarrow> (case map_of ITEMS k of Some m \<Rightarrow> m | None \<Rightarrow> SegmentItemModel)
                   | _ \<Rightarrow> SegmentItemModel) in
      map_option (\<lambda>e. described e [Key ''items'', Index n]) (v model item))"

fun items_fault :: "validator \<Rightarrow> nat \<Rightarrow> json list \<Rightarrow> string option" where
  "items_fault v n [] = None"
| "items_fault v n (item # rest) =
     (case item_fault v n item of Some m \<Rightarrow> Some m | None \<Rightarrow> items_fault v (Suc n) rest)"

definition document_items :: "(string \<times> json) list \<Rightarrow> json list" where
  "document_items document = (case dget document ''items'' of JList xs \<Rightarrow> xs | _ \<Rightarrow> [])"

definition fault :: "validator \<Rightarrow> (string \<times> json) list \<Rightarrow> string option" where
  "fault v document =
     (case bad_value True (JDict document) of
        Some m \<Rightarrow> Some m
      | None \<Rightarrow>
          (case v TripModel (JDict document) of
             Some e \<Rightarrow> Some (described e [])
           | None \<Rightarrow> items_fault v 0 (document_items document)))"

subsection \<open>The same rules for a part of a trip\<close>

text \<open>The code wraps the value in a dict per part of its path, each with that one key, and walks it; the walk
  below starts where that one reaches the value.\<close>

definition part_fault :: "validator \<Rightarrow> schema \<Rightarrow> json \<Rightarrow> part list \<Rightarrow> string option" where
  "part_fault v adapter value path =
     (case bad_loop True (butlast path) [[(last path, value)]] of
        Some m \<Rightarrow> Some m
      | None \<Rightarrow> map_option (\<lambda>e. described e path) (v adapter value))"

definition DAYS :: schema where "DAYS = DictOf DayMetaModel"
definition LATLNG :: schema where "LATLNG = OptionalField LatLng"
definition PROFILE :: schema where "PROFILE = OptionalField ElevationProfileModel"

definition day_meta_fault :: "validator \<Rightarrow> json \<Rightarrow> string option" where
  "day_meta_fault v day_meta = part_fault v DAYS day_meta [Key ''day_meta'']"

definition activity_fault :: "validator \<Rightarrow> json \<Rightarrow> nat \<Rightarrow> string option" where
  "activity_fault v activity n = part_fault v ActivityModel activity [Key ''activities'', Index n]"

definition stored_json_fault :: "validator \<Rightarrow> string \<Rightarrow> string option \<Rightarrow> string option" where
  "stored_json_fault v field text =
     (case (case text of None \<Rightarrow> Some JNull | Some t \<Rightarrow> json_loads True t) of
        None \<Rightarrow> Some (field @ '' is not valid JSON'')
      | Some value \<Rightarrow>
          (let (adapter, exported_as) =
                 (if contains_text ''latlng'' field then (LATLNG, take (length field - 5) field)
                  else (PROFILE, ''elevation_profile'')) in
           map_option (\<lambda>found. field @ '' holds what cannot be exported: '' @ found)
             (part_fault v adapter value [Key exported_as])))"

subsection \<open>What the walk over a document finds\<close>

text \<open>The same search written as a recursion over the document: the first fault in the order of the text.\<close>

function (sequential) first_bad :: "bool \<Rightarrow> part list \<Rightarrow> (part \<times> json) list \<Rightarrow> string option" where
  "first_bad floats path [] = None"
| "first_bad floats path ((key, value) # left) =
     (if bad_key key then Some (where_text path @ '' has a field name that is not valid text'')
      else
        (case (if is_container value then first_bad floats (path @ [key]) (pairs value)
               else map_option (\<lambda>says. where_text (path @ [key]) @ '' '' @ says) (scalar_fault floats value)) of
           Some m \<Rightarrow> Some m
         | None \<Rightarrow> first_bad floats path left))"
  by pat_completeness auto
termination
  by (relation "measure (\<lambda>(floats, path, level). sum_list (map (\<lambda>kv. Suc (weight (snd kv))) level))") (auto simp: weight_pairs)

lemma bad_loop_first:
  "bad_loop floats path (level # stack) =
     (case first_bad floats path level of Some m \<Rightarrow> Some m | None \<Rightarrow> bad_loop floats (butlast path) stack)"
proof (induction floats path level arbitrary: stack rule: first_bad.induct)
  case (2 floats path key x left)
  show ?case
  proof (cases "bad_key key")
    case ok: False
    show ?thesis
    proof (cases "is_container x")
      case True
      then show ?thesis using 2 ok by (simp split: option.splits)
    next
      case False
      then show ?thesis using 2 ok by (simp split: option.splits)
    qed
  qed simp
qed simp

text \<open>Every value the format may hold.\<close>

fun clean :: "bool \<Rightarrow> json \<Rightarrow> bool" where
  "clean floats (JList xs) = list_all (clean floats) xs"
| "clean floats (JDict d) = list_all (\<lambda>kv. \<not> bad_text (fst kv) \<and> clean floats (snd kv)) d"
| "clean floats v = (scalar_fault floats v = None)"

text \<open>The values of a document and the paths they are at.\<close>

inductive value_at :: "json \<Rightarrow> part list \<Rightarrow> json \<Rightarrow> bool" where
  here: "value_at v [] v"
| there: "(k, w) \<in> set (pairs v) \<Longrightarrow> value_at w p u \<Longrightarrow> value_at v (k # p) u"

lemma clean_pairs:
  "is_container v \<Longrightarrow> clean floats v \<longleftrightarrow> (\<forall>(k, w)\<in>set (pairs v). \<not> bad_key k \<and> clean floats w)"
proof (cases v)
  case (JList xs)
  have "pairs (JList xs) = map (\<lambda>n. (Index n, xs ! n)) [0..<length xs]" by (rule nth_equalityI) simp_all
  then have "set (pairs (JList xs)) = {(Index n, xs ! n) | n. n < length xs}" by auto
  then show ?thesis by (fastforce simp: JList list_all_iff bad_key_def in_set_conv_nth)
qed (auto simp: is_container_def bad_key_def list_all_iff split_beta)

lemma clean_scalar: "\<not> is_container v \<Longrightarrow> clean floats v \<longleftrightarrow> scalar_fault floats v = None"
  by (cases v) (auto simp: is_container_def)

lemma first_bad_None:
  "first_bad floats path level = None \<longleftrightarrow> (\<forall>(k, w)\<in>set level. \<not> bad_key k \<and> clean floats w)"
proof (induction floats path level rule: first_bad.induct)
  case (2 floats path key x left)
  then show ?case
    by (cases "is_container x") (auto simp: clean_pairs clean_scalar split: option.splits)
qed simp

definition names_fault :: "bool \<Rightarrow> json \<Rightarrow> string \<Rightarrow> bool" where
  "names_fault floats doc m \<longleftrightarrow>
     (\<exists>path v. value_at doc path v \<and>
        ((\<exists>says. scalar_fault floats v = Some says \<and> m = where_text path @ '' '' @ says) \<or>
         (\<exists>k w. (Key k, w) \<in> set (pairs v) \<and> bad_text k \<and> m = where_text path @ '' has a field name that is not valid text'')))"

lemma value_at_snoc: "value_at doc path v \<Longrightarrow> (k, w) \<in> set (pairs v) \<Longrightarrow> value_at doc (path @ [k]) w"
  by (induction rule: value_at.induct) (auto intro: value_at.intros)

lemma first_bad_names:
  "first_bad floats path level = Some m \<Longrightarrow> value_at doc path v \<Longrightarrow> set level \<subseteq> set (pairs v) \<Longrightarrow> names_fault floats doc m"
proof (induction floats path level arbitrary: v rule: first_bad.induct)
  case (2 floats path key x left)
  show ?case
  proof (cases "bad_key key")
    case True
    then obtain k where k: "key = Key k" "bad_text k" by (cases key) (auto simp: bad_key_def)
    moreover have "m = where_text path @ '' has a field name that is not valid text''" using "2.prems"(1) True by simp
    ultimately show ?thesis using "2.prems"(2,3) unfolding names_fault_def by (intro exI [of _ path] exI [of _ v]) auto
  next
    case ok: False
    have at: "value_at doc (path @ [key]) x" using "2.prems" by (auto intro: value_at_snoc)
    show ?thesis
    proof (cases "is_container x")
      case True
      show ?thesis
      proof (cases "first_bad floats (path @ [key]) (pairs x)")
        case None
        then show ?thesis using 2 ok True by (auto split: option.splits)
      next
        case (Some m')
        then have "first_bad floats (path @ [key]) (pairs x) = Some m" using "2.prems"(1) ok True by simp
        then show ?thesis using "2.IH"(1) [OF ok True _ at] by blast
      qed
    next
      case False
      show ?thesis
      proof (cases "scalar_fault floats x")
        case None
        then show ?thesis using 2 ok False by auto
      next
        case (Some says)
        then show ?thesis using "2.prems" ok False at by (auto simp: names_fault_def)
      qed
    qed
  qed
qed simp

subsection \<open>What a message can say\<close>

fun checkers :: "schema \<Rightarrow> (json \<Rightarrow> string option) list" where
  "checkers (Between lo hi s) = checkers s"
| "checkers (Positive s) = checkers s"
| "checkers (Checked f s) = f # checkers s"
| "checkers (OptionalField s) = checkers s"
| "checkers (ListOf s) = checkers s"
| "checkers (DictOf s) = checkers s"
| "checkers (Model fs) = concat (map (\<lambda>f. checkers (snd (snd f))) fs)"
| "checkers _ = []"

text \<open>What the documentation of pydantic says of the models used here: a value is valid when it conforms, and an
  error of the code's own kind carries the message the code's check raised it with.\<close>

definition documented :: "validator \<Rightarrow> bool" where
  "documented v \<longleftrightarrow>
     (\<forall>s w. v s w = None \<longleftrightarrow> conforms s w) \<and>
     (\<forall>s w e. v s w = Some e \<longrightarrow> err_type e = ''traxj'' \<longrightarrow> (\<exists>f\<in>set (checkers s). \<exists>x. f x = Some (err_msg e)))"

text \<open>Every check refuses with one of these texts.\<close>

definition REFUSALS :: "string list" where
  "REFUSALS =
     [''is not a latitude and longitude'', ''is not a date and time'', ''is not an encrypted envelope'', ''is not a photo name'',
      ''is not a route'', ''is not a list'', ''is not a list of numbers'', ''holds a number out of range'', ''is not a list of counts'']"

definition refuses :: "(json \<Rightarrow> string option) \<Rightarrow> bool" where
  "refuses f \<longleftrightarrow> (\<forall>x m. f x = Some m \<longrightarrow> m \<in> set REFUSALS)"

lemma checks_refuse [simp]:
  "refuses latlng_fault" "refuses date_time_fault" "refuses envelope_fault" "refuses photo_name_fault"
  "refuses route_polyline_fault" "refuses (numbers_fault lo hi)" "refuses day_counts_fault"
  by (auto simp: refuses_def REFUSALS_def latlng_fault_def date_time_fault_def envelope_fault_def photo_name_fault_def
      route_polyline_fault_def numbers_fault_def day_counts_fault_def split: json.splits if_splits option.splits)

lemmas models = SocialModel_def PersonModel_def GroupModel_def MemoryModel_def JournalModel_def EncounterModel_def
  EndpointModel_def SegmentModel_def ActivityItemModel_def MemoryItemModel_def JournalItemModel_def EncounterItemModel_def
  SegmentItemModel_def MapModel_def ElevationProfileModel_def ActivityModel_def FilterStateModel_def DayMetaModel_def
  CounterModel_def TripModel_def StravaId_def

lemmas value_types = LatLng_def DateTime_def Envelope_def PhotoName_def RoutePolyline_def Distances_def Elevations_def
  Lat_def Lon_def ElevationF_def Distance_def Duration_def Gain_def Speed_def HeartRate_def Count_def

definition format_models :: "schema list" where
  "format_models = [TripModel, ActivityItemModel, MemoryItemModel, JournalItemModel, EncounterItemModel, SegmentItemModel]"

lemma format_checks: "\<forall>s\<in>set format_models. \<forall>f\<in>set (checkers s). refuses f"
  by (simp add: format_models_def models value_types)

text \<open>No text of a message holds a double quote.\<close>

definition quiet :: "string \<Rightarrow> bool" where
  "quiet s \<longleftrightarrow> CHR 0x22 \<notin> set s"

lemma quiet_append [simp]: "quiet (s @ t) \<longleftrightarrow> quiet s \<and> quiet t"
  by (auto simp: quiet_def)

lemma quiet_names: "list_all quiet NAMES"
  by (simp add: NAMES_def ITEMS_def models value_types quiet_def)

lemma quiet_texts: "list_all quiet REFUSALS" "list_all (\<lambda>s. quiet (snd s)) SAYS"
  by (simp_all add: REFUSALS_def SAYS_def quiet_def)

lemma quiet_show_nat: "quiet (show_nat n)"
  using show_nat_digits [of "CHR 0x22" n] by (auto simp: quiet_def is_digit_def Let_def)

lemma quiet_where: "quiet out \<Longrightarrow> quiet (where_loop prev out path)"
proof (induction prev out path rule: where_loop.induct)
  case (3 prev out k ps)
  let ?part = "if prev = Some (Key ''day_meta'') then ''<day>'' else if k \<notin> set NAMES then ''<key>'' else k"
  have "quiet k" if "k \<in> set NAMES" using quiet_names that by (simp add: list_all_iff)
  then have "quiet ?part" by (auto simp: quiet_def)
  moreover have "quiet (if out = [] then [] else ''.'')" by (simp add: quiet_def)
  ultimately have "quiet (out @ (if out = [] then [] else ''.'') @ ?part)" using "3.prems" by (simp only: quiet_append)
  then show ?case unfolding where_loop.simps Let_def by (rule "3.IH" [OF refl])
next
  case (2 prev out n ps)
  have "quiet (out @ ''['' @ show_nat n @ '']'')" using 2 quiet_show_nat [of n] by (simp only: quiet_append) (simp add: quiet_def)
  then show ?case unfolding where_loop.simps by (rule "2.IH")
qed simp

lemma quiet_where_text: "quiet (where_text path)"
  using quiet_where [of "[]" None path] by (simp add: where_text_def Let_def quiet_def)

lemma quiet_described:
  assumes "documented v" "v s w = Some e" "s \<in> set format_models"
  shows "quiet (described e pre)"
proof -
  have "quiet (err_msg e)" if t: "err_type e = ''traxj''"
  proof -
    obtain f x where f: "f \<in> set (checkers s)" "f x = Some (err_msg e)" using assms t unfolding documented_def by blast
    then have "err_msg e \<in> set REFUSALS" using format_checks assms(3) by (auto simp: refuses_def)
    then show ?thesis using quiet_texts(1) by (simp add: list_all_iff)
  qed
  moreover have "quiet (case map_of SAYS t of Some x \<Rightarrow> x | None \<Rightarrow> ''is not valid'')" for t
    using quiet_texts(2) by (auto simp: quiet_def list_all_iff dest!: map_of_SomeD split: option.splits)
  moreover have "quiet ('' '' @ x) \<longleftrightarrow> quiet x" for x by (simp add: quiet_def)
  ultimately show ?thesis unfolding described_def Let_def quiet_append by (simp add: quiet_where_text split: if_splits)
qed

lemma items_fault_cases:
  "items_fault v n xs = Some m \<Longrightarrow>
     \<exists>k s x e. s \<in> set format_models \<and> x \<in> set xs \<and> v s x = Some e \<and> m = described e [Key ''items'', Index k]"
proof (induction v n xs rule: items_fault.induct)
  case (2 v n item rest)
  show ?case
  proof (cases "item_fault v n item")
    case (Some m')
    then obtain s e where "v s item = Some e" "m' = described e [Key ''items'', Index n]"
      "s = SegmentItemModel \<or> s \<in> snd ` set ITEMS"
      by (auto simp: item_fault_def Let_def split: json.splits option.splits dest!: map_of_SomeD) (force+)?
    then show ?thesis using Some "2.prems" by (auto simp: format_models_def ITEMS_def)
  qed (use 2 in auto)
qed simp

lemma walk_first: "bad_value floats (JDict d) = first_bad floats [] (pairs (JDict d))"
  by (simp add: bad_value_def bad_loop_first split: option.splits)

lemma walk_clean: "bad_value floats (JDict d) = None \<longleftrightarrow> clean floats (JDict d)"
  unfolding walk_first first_bad_None by (simp add: clean_pairs is_container_def del: pairs.simps clean.simps)

lemma walk_names: "bad_value floats (JDict d) = Some m \<Longrightarrow> names_fault floats (JDict d) m"
  unfolding walk_first by (rule first_bad_names [OF _ value_at.here subset_refl])

subsection \<open>Properties\<close>



definition strict_validator :: validator where
  "strict_validator s w = (if conforms s w then None else Some \<lparr>err_type = ''model_type'', err_msg = [], err_loc = []\<rparr>)"

lemma strict_documented: "documented strict_validator"
  by (simp add: documented_def strict_validator_def)


end
