(* ===== verification/TripNormalise.thy ===== *)
theory TripNormalise
  imports TripSchema
begin

text \<open>
  What past writers stored, brought into the format before it is judged: \<open>check\<close>, \<open>normalise\<close> and their helpers
  in \<open>src/project/traxj_schema.py\<close>. The code changes the parsed document in place; each function here returns
  the changed value. Activities are named by their position, which stands for the identity of a parsed
  dict. The square root of the ascent's noise estimate is a parameter, as in \<open>TrackGain\<close>.
\<close>

subsection \<open>Who measured an activity\<close>

definition activity_at :: "json list \<Rightarrow> nat \<Rightarrow> (string \<times> json) list option" where
  "activity_at acts i = (if i < length acts then (case acts ! i of JDict d \<Rightarrow> Some d | _ \<Rightarrow> None) else None)"

text \<open>\<open>by_id\<close>: the last activity with an id.\<close>

definition by_id :: "json list \<Rightarrow> int \<Rightarrow> nat option" where
  "by_id acts n =
     (case filter (\<lambda>i. case activity_at acts i of Some d \<Rightarrow> dget d ''id'' = JInt n | None \<Rightarrow> False) [0..<length acts] of
        [] \<Rightarrow> None
      | is \<Rightarrow> Some (last is))"

definition parent_of :: "json list \<Rightarrow> (string \<times> json) list \<Rightarrow> nat option" where
  "parent_of acts d = (case dget d ''split_parent_id'' of JInt p \<Rightarrow> by_id acts p | _ \<Rightarrow> None)"

text \<open>The walk up the chain of pieces. \<open>at\<close> is the piece reached, if there is one; \<open>path\<close> the pieces passed. It
  ends with the answer, the piece it stopped at and the path.\<close>

function measured_walk :: "json list \<Rightarrow> (nat \<Rightarrow> bool option) \<Rightarrow> nat option \<Rightarrow> nat list \<Rightarrow> bool \<times> nat option \<times> nat list" where
  "measured_walk acts known act path =
     (case act of
        None \<Rightarrow> (False, None, path)
      | Some i \<Rightarrow>
          (case activity_at acts i of
             None \<Rightarrow> (False, None, path)
           | Some d \<Rightarrow>
               if known i \<noteq> None then (the (known i), Some i, path)
               else if i \<in> set path then (False, Some i, path)
               else if dget d ''source'' \<noteq> JNull then (dget d ''source'' = JStr ''gpx'', Some i, path)
               else measured_walk acts known (parent_of acts d) (i # path)))"
  by pat_completeness auto
termination
proof (relation "measure (\<lambda>(acts, known, act, path). card ({..<length acts} - set path))")
  fix acts :: "json list" and known :: "nat \<Rightarrow> bool option" and act :: "nat option" and path :: "nat list" and i d
  assume h: "activity_at acts i = Some d" "i \<notin> set path"
  then have "i < length acts" by (simp add: activity_at_def split: if_splits)
  then have "{..<length acts} - set (i # path) \<subset> {..<length acts} - set path" using h(2) by auto
  then show "((acts, known, parent_of acts d, i # path), acts, known, act, path) \<in> measure (\<lambda>(acts, known, act, path). card ({..<length acts} - set path))"
    by (simp add: psubset_card_mono)
qed simp

declare measured_walk.simps [simp del]

definition app_measured :: "json list \<Rightarrow> nat \<Rightarrow> (nat \<Rightarrow> bool option) \<Rightarrow> bool \<times> (nat \<Rightarrow> bool option)" where
  "app_measured acts i known =
     (let (answer, act, path) = measured_walk acts known (Some i) [];
          known1 = foldl (\<lambda>k p. k(p \<mapsto> answer)) known path;
          known2 = (case act of Some j \<Rightarrow> if known1 j = None then known1(j \<mapsto> answer) else known1 | None \<Rightarrow> known1) in
      (answer, known2))"

subsection \<open>Day notes\<close>

definition DAY_TEXT :: "string list" where
  "DAY_TEXT = [''difficulty'', ''sleeping'', ''weather'', ''journal'']"

text \<open>\<open>json.dumps\<close> of a number is its text (\<open>py_str\<close>, with the representation of other floats fixed there).\<close>

definition as_text :: "json \<Rightarrow> json" where
  "as_text v =
     (case v of
        JBool b \<Rightarrow> JStr (if b then ''true'' else ''false'')
      | JInt n \<Rightarrow> JStr (show_int n)
      | JFloat (Fin x) \<Rightarrow> JStr (py_str v)
      | JList _ \<Rightarrow> JNull
      | JDict _ \<Rightarrow> JNull
      | _ \<Rightarrow> v)"

definition is_str :: "json \<Rightarrow> bool" where
  "is_str v \<longleftrightarrow> (case v of JStr _ \<Rightarrow> True | _ \<Rightarrow> False)"

definition text_note :: "(string \<times> json) list \<Rightarrow> string \<Rightarrow> (string \<times> json) list" where
  "text_note day key =
     (case map_of day key of
        Some v \<Rightarrow> if v \<noteq> JNull \<and> \<not> is_str v then dict_put key (as_text v) day else day
      | None \<Rightarrow> day)"

definition text_tags :: "(string \<times> json) list \<Rightarrow> (string \<times> json) list" where
  "text_tags day =
     (case dget day ''tags'' of
        JList tags \<Rightarrow>
          dict_put ''tags'' (JList (map (\<lambda>t. if is_str t then t else as_text t) (filter (\<lambda>t. is_str t \<or> as_text t \<noteq> JNull) tags))) day
      | JNull \<Rightarrow> day
      | JFloat (Fin _) \<Rightarrow> dict_put ''tags'' JNull day
      | JFloat _ \<Rightarrow> day
      | _ \<Rightarrow> dict_put ''tags'' JNull day)"

definition normalise_day :: "json \<Rightarrow> json" where
  "normalise_day day = (case day of JDict d \<Rightarrow> JDict (text_tags (foldl text_note d DAY_TEXT)) | _ \<Rightarrow> day)"

definition normalise_days :: "json \<Rightarrow> json" where
  "normalise_days day_meta =
     (case day_meta of JDict days \<Rightarrow> JDict (map (\<lambda>(k, day). (k, normalise_day day)) days) | _ \<Rightarrow> day_meta)"

subsection \<open>Style\<close>

definition is_colour :: "string \<Rightarrow> bool" where
  "is_colour s \<longleftrightarrow> length s = 7 \<and> hd s = CHR ''#'' \<and> list_all (\<lambda>c. hex_val c \<noteq> None) (tl s)"

definition TRACK_WIDTH_MAX :: rat where "TRACK_WIDTH_MAX = 50"

definition drop_colour :: "(string \<times> json) list \<Rightarrow> string \<Rightarrow> (string \<times> json) list" where
  "drop_colour doc key =
     (case dget doc key of JStr s \<Rightarrow> if is_colour s then doc else dict_put key JNull doc | _ \<Rightarrow> doc)"

definition drop_width :: "(string \<times> json) list \<Rightarrow> (string \<times> json) list" where
  "drop_width doc =
     (case finite_or_none (dget doc ''track_width'') of
        Some w \<Rightarrow> if 0 < w \<and> w \<le> TRACK_WIDTH_MAX then doc else dict_put ''track_width'' JNull doc
      | None \<Rightarrow> doc)"

definition normalise_style :: "(string \<times> json) list \<Rightarrow> (string \<times> json) list" where
  "normalise_style doc =
     drop_width (foldl drop_colour doc [''track_color'', ''track_secondary_color'', ''elevation_chart_color''])"

subsection \<open>Figures of an activity\<close>

definition given_profile :: "json \<Rightarrow> json_profile option" where
  "given_profile ep =
     (case ep of
        JDict d \<Rightarrow> (case (dget d ''distances_km'', dget d ''elevations_m'') of (JList ds, JList es) \<Rightarrow> Some (ds, es) | _ \<Rightarrow> None)
      | _ \<Rightarrow> None)"

definition put_profile :: "json \<Rightarrow> json_profile option \<Rightarrow> json" where
  "put_profile ep profile =
     (case profile of
        None \<Rightarrow> JNull
      | Some (ds, es) \<Rightarrow>
          (case ep of JDict d \<Rightarrow> JDict (dict_put ''elevations_m'' (JList es) (dict_put ''distances_km'' (JList ds) d)) | _ \<Rightarrow> ep))"

definition put_present :: "(string \<times> json) list \<Rightarrow> string \<Rightarrow> json \<Rightarrow> (string \<times> json) list" where
  "put_present d key v = (if map_of d key = None then d else dict_put key v d)"

definition repair_figures ::
  "(rat \<Rightarrow> rat) \<Rightarrow> (string \<times> json) list \<Rightarrow> string \<Rightarrow> bool \<Rightarrow> (repair_error, (string \<times> json) list) result" where
  "repair_figures sq act pre measured_by_app =
     (let ep = dget act (pre @ ''elevation_profile''); profile = given_profile ep;
          gain = dget act (pre @ ''total_elevation_gain''); high = dget act (pre @ ''elev_high'');
          low = dget act (pre @ ''elev_low'') in
      rbind (repair_elevations sq profile gain high low measured_by_app) (\<lambda>(new_profile, g, h, l).
        let act1 = (if snd (repair_profile profile)
                    then dict_put (pre @ ''elevation_profile'') (put_profile ep new_profile) act else act);
            act2 = put_present act1 (pre @ ''total_elevation_gain'') g;
            act3 = put_present act2 (pre @ ''elev_high'') h;
            act4 = put_present act3 (pre @ ''elev_low'') l in
        Inr (put_present act4 (pre @ ''elapsed_time'')
               (repair_elapsed (dget act4 (pre @ ''elapsed_time'')) (dget act4 (pre @ ''moving_time''))))))"

definition figures_typed :: "(string \<times> json) list \<Rightarrow> string \<Rightarrow> bool" where
  "figures_typed act pre \<longleftrightarrow>
     is_reading (dget act (pre @ ''total_elevation_gain'')) \<and> is_reading (dget act (pre @ ''elev_high'')) \<and>
     is_reading (dget act (pre @ ''elev_low''))"

text \<open>The live figures, then the edit snapshot's. A figure of another type leaves the activity as it is.\<close>

definition repair_prefix ::
  "(rat \<Rightarrow> rat) \<Rightarrow> nat \<Rightarrow> json list \<times> (nat \<Rightarrow> bool option) \<Rightarrow> string \<Rightarrow>
     (repair_error, json list \<times> (nat \<Rightarrow> bool option)) result" where
  "repair_prefix sq i st pre =
     (let (acts, known) = st in
      case activity_at acts i of
        None \<Rightarrow> Inr (acts, known)
      | Some d \<Rightarrow>
          if figures_typed d pre then
            (let (answer, known') = app_measured acts i known in
             rbind (repair_figures sq d pre answer) (\<lambda>d'. Inr (acts[i := JDict d'], known')))
          else Inr (acts, known))"

fun repair_loop ::
  "(rat \<Rightarrow> rat) \<Rightarrow> nat list \<Rightarrow> json list \<times> (nat \<Rightarrow> bool option) \<Rightarrow> (repair_error, json list \<times> (nat \<Rightarrow> bool option)) result" where
  "repair_loop sq [] st = Inr st"
| "repair_loop sq (i # is) st =
     rbind (repair_prefix sq i st []) (\<lambda>st.
     rbind (repair_prefix sq i st ''original_'') (\<lambda>st. repair_loop sq is st))"

definition normalise_activities :: "(rat \<Rightarrow> rat) \<Rightarrow> json list \<Rightarrow> (repair_error, json list) result" where
  "normalise_activities sq acts =
     rbind (repair_loop sq [0..<length acts] (acts, \<lambda>_. None)) (\<lambda>(acts, known). Inr acts)"

definition normalise_document :: "(rat \<Rightarrow> rat) \<Rightarrow> (string \<times> json) list \<Rightarrow> (repair_error, (string \<times> json) list) result" where
  "normalise_document sq document =
     (let doc1 = put_present document ''day_meta'' (normalise_days (dget document ''day_meta''));
          doc2 = normalise_style doc1 in
      case dget doc2 ''activities'' of
        JList acts \<Rightarrow> rbind (normalise_activities sq acts) (\<lambda>acts'. Inr (dict_put ''activities'' (JList acts') doc2))
      | _ \<Rightarrow> Inr doc2)"

text \<open>The answer and the document as the import goes on to read it.\<close>

definition check ::
  "validator \<Rightarrow> (rat \<Rightarrow> rat) \<Rightarrow> (string \<times> json) list \<Rightarrow> (repair_error, string option \<times> (string \<times> json) list) result" where
  "check v sq document =
     (case bad_value False (JDict document) of
        Some found \<Rightarrow> Inr (Some found, document)
      | None \<Rightarrow> rbind (normalise_document sq document) (\<lambda>doc. Inr (fault v doc, doc)))"

subsection \<open>The memo does not change an answer\<close>

lemma by_id_range: "by_id acts n = Some j \<Longrightarrow> j < length acts"
proof -
  assume j: "by_id acts n = Some j"
  define js where "js = filter (\<lambda>i. case activity_at acts i of Some d \<Rightarrow> dget d ''id'' = JInt n | None \<Rightarrow> False) [0..<length acts]"
  have "js \<noteq> []" "j = last js" using j by (auto simp: by_id_def js_def split: list.splits)
  then have "j \<in> set js" by simp
  then show "j < length acts" by (simp add: js_def)
qed

text \<open>The app measured an activity if its source, or the first one up the chain of pieces, is a GPX file.\<close>

inductive from_gpx :: "json list \<Rightarrow> nat \<Rightarrow> bool" for acts where
  own: "activity_at acts i = Some d \<Longrightarrow> dget d ''source'' = JStr ''gpx'' \<Longrightarrow> from_gpx acts i"
| piece: "activity_at acts i = Some d \<Longrightarrow> dget d ''source'' = JNull \<Longrightarrow> parent_of acts d = Some j \<Longrightarrow> from_gpx acts j \<Longrightarrow>
    from_gpx acts i"

inductive_cases from_gpxE: "from_gpx acts i"

definition memo_sound :: "json list \<Rightarrow> (nat \<Rightarrow> bool option) \<Rightarrow> bool" where
  "memo_sound acts known \<longleftrightarrow> (\<forall>i b. known i = Some b \<longrightarrow> (b \<longleftrightarrow> from_gpx acts i))"

lemma from_gpx_step:
  assumes "activity_at acts i = Some d"
  shows "from_gpx acts i \<longleftrightarrow>
    (if dget d ''source'' = JNull then (case parent_of acts d of Some j \<Rightarrow> from_gpx acts j | None \<Rightarrow> False)
     else dget d ''source'' = JStr ''gpx'')"
proof
  assume "from_gpx acts i"
  then show "if dget d ''source'' = JNull then (case parent_of acts d of Some j \<Rightarrow> from_gpx acts j | None \<Rightarrow> False)
     else dget d ''source'' = JStr ''gpx''"
    using assms by (cases rule: from_gpxE) auto
next
  assume "if dget d ''source'' = JNull then (case parent_of acts d of Some j \<Rightarrow> from_gpx acts j | None \<Rightarrow> False)
     else dget d ''source'' = JStr ''gpx''"
  then show "from_gpx acts i"
    using assms from_gpx.intros [of acts i d] by (cases "dget d ''source'' = JNull") (auto split: option.splits)
qed

lemma from_gpx_dict: "activity_at acts i = None \<Longrightarrow> \<not> from_gpx acts i"
  by (auto elim: from_gpxE)

text \<open>Every piece passed has no source of its own, and its parent is the piece passed after it, or the one reached.\<close>

fun chain :: "json list \<Rightarrow> nat option \<Rightarrow> nat list \<Rightarrow> bool" where
  "chain acts act [] = True"
| "chain acts act (i # path) =
     ((\<exists>d. activity_at acts i = Some d \<and> dget d ''source'' = JNull \<and> parent_of acts d = act) \<and> chain acts (Some i) path)"

lemma chain_answer:
  "chain acts act path \<Longrightarrow> (case act of Some i \<Rightarrow> from_gpx acts i | None \<Rightarrow> False) = b \<Longrightarrow> i \<in> set path \<Longrightarrow> from_gpx acts i = b"
proof (induction path arbitrary: act b)
  case (Cons j path)
  then obtain d where d: "activity_at acts j = Some d" "dget d ''source'' = JNull" "parent_of acts d = act" by auto
  have "from_gpx acts j = b" using from_gpx_step [OF d(1)] d Cons.prems(2) by simp
  then show ?case using Cons.IH [of "Some j" b] Cons.prems by auto
qed simp

text \<open>Around a loop no source is found.\<close>

lemma chain_closed:
  "chain acts act path \<Longrightarrow> i \<in> set path \<Longrightarrow>
     \<exists>d. activity_at acts i = Some d \<and> dget d ''source'' = JNull \<and> (parent_of acts d = act \<or> (\<exists>j\<in>set path. parent_of acts d = Some j))"
proof (induction path arbitrary: act)
  case (Cons k path)
  show ?case
  proof (cases "i = k")
    case True
    then show ?thesis using Cons.prems by auto
  next
    case False
    then have "\<exists>d. activity_at acts i = Some d \<and> dget d ''source'' = JNull \<and> (parent_of acts d = Some k \<or> (\<exists>j\<in>set path. parent_of acts d = Some j))"
      using Cons.IH [of "Some k"] Cons.prems by simp
    then show ?thesis by auto
  qed
qed simp

lemma loop_without_source:
  assumes "chain acts (Some k) path" "k \<in> set path"
  shows "from_gpx acts i \<Longrightarrow> i \<notin> set path"
proof (induction rule: from_gpx.induct)
  case (own i d)
  then show ?case using chain_closed [OF assms(1), of i] by auto
next
  case (piece i d j)
  then show ?case using chain_closed [OF assms(1), of i] assms(2) by auto
qed

lemma measured_walk_answer:
  "measured_walk acts known act path = (b, stop, path') \<Longrightarrow> memo_sound acts known \<Longrightarrow> chain acts act path \<Longrightarrow>
     (\<forall>i\<in>set path'. from_gpx acts i = b) \<and>
     (case stop of Some i \<Rightarrow> from_gpx acts i = b | None \<Rightarrow> True) \<and>
     (case act of Some i \<Rightarrow> from_gpx acts i = b | None \<Rightarrow> \<not> b)"
proof (induction acts known act path rule: measured_walk.induct)
  case (1 acts known act path)
  note step = measured_walk.simps [of acts known act path]
  have passed: "\<forall>j\<in>set path. from_gpx acts j = b" if "(case act of Some i \<Rightarrow> from_gpx acts i | None \<Rightarrow> False) = b"
    using chain_answer [OF "1.prems"(3) that] by blast
  show ?case
  proof (cases act)
    case None
    then have "b = False" "stop = None" "path' = path" using step "1.prems"(1) by simp_all
    then show ?thesis using passed None by simp
  next
    case i: (Some i)
    show ?thesis
    proof (cases "activity_at acts i")
      case None
      then have "b = False" "stop = None" "path' = path" "\<not> from_gpx acts i" using step "1.prems"(1) i from_gpx_dict by simp_all
      then show ?thesis using passed i by simp
    next
      case d: (Some d)
      note step' = step [unfolded i option.case d]
      show ?thesis
      proof (cases "known i = None")
        case False
        then obtain k where k: "known i = Some k" by blast
        then have "b = k" "stop = Some i" "path' = path" using step' "1.prems"(1) unfolding i by simp_all
        moreover have "from_gpx acts i = k" using k "1.prems"(2) unfolding memo_sound_def by blast
        ultimately show ?thesis using passed i by simp
      next
        case k: True
        show ?thesis
        proof (cases "i \<in> set path")
          case True
          then have "b = False" "stop = Some i" "path' = path" using step' k "1.prems"(1) unfolding i by simp_all
          moreover have "\<not> from_gpx acts j" if "j \<in> set path" for j
            using loop_without_source [of acts i path j] "1.prems"(3) True i that by auto
          ultimately show ?thesis using True i by auto
        next
          case np: False
          show ?thesis
          proof (cases "dget d ''source'' = JNull")
            case False
            then have "b = (dget d ''source'' = JStr ''gpx'')" "stop = Some i" "path' = path"
              using step' k np "1.prems"(1) unfolding i by simp_all
            moreover have "from_gpx acts i = (dget d ''source'' = JStr ''gpx'')" using from_gpx_step [OF d] False by simp
            ultimately show ?thesis using passed i by simp
          next
            case True
            have walk: "measured_walk acts known (parent_of acts d) (i # path) = (b, stop, path')"
              using step' k np True "1.prems"(1) i by simp
            have c: "chain acts (parent_of acts d) (i # path)" using d True "1.prems"(3) i by simp
            have ih: "(\<forall>j\<in>set path'. from_gpx acts j = b) \<and> (case stop of Some j \<Rightarrow> from_gpx acts j = b | None \<Rightarrow> True) \<and>
                (case parent_of acts d of Some j \<Rightarrow> from_gpx acts j = b | None \<Rightarrow> \<not> b)"
              by (rule "1.IH" [OF i d _ np _ walk "1.prems"(2) c]) (simp_all add: k True)
            then have "from_gpx acts i = b" using from_gpx_step [OF d] True by (cases "parent_of acts d") simp_all
            then show ?thesis using ih i by simp
          qed
        qed
      qed
    qed
  qed
qed

lemma memo_put:
  "memo_sound acts known \<Longrightarrow> (\<forall>i\<in>set path. from_gpx acts i = b) \<Longrightarrow> memo_sound acts (foldl (\<lambda>k p. k(p \<mapsto> b)) known path)"
proof (induction path arbitrary: known)
  case (Cons p path)
  have m: "memo_sound acts (known(p \<mapsto> b))" using Cons.prems by (simp add: memo_sound_def)
  show ?case using Cons.IH [OF m] Cons.prems(2) by (simp del: fun_upd_apply)
qed simp

lemma app_measured_answer:
  assumes "memo_sound acts known" "app_measured acts i known = (b, known')"
  shows "b = from_gpx acts i" "memo_sound acts known'"
proof -
  obtain ans stop path where w: "measured_walk acts known (Some i) [] = (ans, stop, path)" by (metis prod_cases3)
  note a = measured_walk_answer [OF w assms(1)]
  have b: "b = ans" using assms(2) w by (simp add: app_measured_def Let_def)
  then show "b = from_gpx acts i" using a by simp
  have "memo_sound acts (foldl (\<lambda>k p. k(p \<mapsto> ans)) known path)" by (rule memo_put [OF assms(1)]) (use a in simp)
  then show "memo_sound acts known'"
    using assms(2) w a by (auto simp: app_measured_def Let_def memo_sound_def split: option.splits if_splits)
qed

subsection \<open>What a repair leaves\<close>

lemma map_of_dict_put [simp]: "map_of (dict_put k v d) k' = (if k' = k then Some v else map_of d k')"
  by (induction k v d rule: dict_put.induct) auto

lemma map_of_put_present: "map_of (put_present d k v) k' = (if k' = k \<and> map_of d k \<noteq> None then Some v else map_of d k')"
  by (auto simp: put_present_def)

text \<open>The fields that say where an activity comes from.\<close>

definition LINKS :: "string list" where
  "LINKS = [''id'', ''source'', ''split_parent_id'']"

definition same_links :: "(string \<times> json) list \<Rightarrow> (string \<times> json) list \<Rightarrow> bool" where
  "same_links d d' \<longleftrightarrow> (\<forall>k\<in>set LINKS. dget d k = dget d' k)"

lemma repair_figures_links:
  assumes "repair_figures sq d pre b = Inr d'" "pre = [] \<or> pre = ''original_''"
  shows "same_links d d'"
proof -
  have "map_of d' k = map_of d k" if "k \<in> set LINKS" for k
    using assms that
    by (auto simp: repair_figures_def Let_def map_of_put_present LINKS_def split: if_splits elim!: rbind_InrE)
  then show ?thesis by (simp add: same_links_def dget_def)
qed

definition repair_one ::
  "(rat \<Rightarrow> rat) \<Rightarrow> (string \<times> json) list \<Rightarrow> string \<Rightarrow> bool \<Rightarrow> (repair_error, (string \<times> json) list) result" where
  "repair_one sq d pre b = (if figures_typed d pre then repair_figures sq d pre b else Inr d)"

text \<open>One activity repaired on its own, and the first error of several repairs or all their results.\<close>

definition repair_activity :: "(rat \<Rightarrow> rat) \<Rightarrow> bool \<Rightarrow> json \<Rightarrow> (repair_error, json) result" where
  "repair_activity sq b act =
     (case act of
        JDict d \<Rightarrow> rbind (repair_one sq d [] b) (\<lambda>d. rbind (repair_one sq d ''original_'' b) (\<lambda>d. Inr (JDict d)))
      | v \<Rightarrow> Inr v)"

fun all_results :: "('e, 'a) result list \<Rightarrow> ('e, 'a list) result" where
  "all_results [] = Inr []"
| "all_results (r # rs) = rbind r (\<lambda>x. rbind (all_results rs) (\<lambda>xs. Inr (x # xs)))"

definition linked_alike :: "json list \<Rightarrow> json list \<Rightarrow> bool" where
  "linked_alike acts acts' \<longleftrightarrow> length acts = length acts' \<and>
     (\<forall>i. (activity_at acts i = None \<longleftrightarrow> activity_at acts' i = None) \<and>
          (\<forall>d d'. activity_at acts i = Some d \<longrightarrow> activity_at acts' i = Some d' \<longrightarrow> same_links d d'))"

lemma linked_alike_by_id: "linked_alike acts acts' \<Longrightarrow> by_id acts n = by_id acts' n"
proof -
  assume a: "linked_alike acts acts'"
  have "(case activity_at acts i of Some d \<Rightarrow> dget d ''id'' = JInt n | None \<Rightarrow> False) =
        (case activity_at acts' i of Some d \<Rightarrow> dget d ''id'' = JInt n | None \<Rightarrow> False)" for i
  proof -
    have none: "(activity_at acts i = None) = (activity_at acts' i = None)" using a by (simp add: linked_alike_def)
    show ?thesis
    proof (cases "activity_at acts i")
      case None
      then have "activity_at acts' i = None" using none by simp
      then show ?thesis using None by simp
    next
      case (Some d)
      then obtain d' where d': "activity_at acts' i = Some d'" using none by auto
      then have "same_links d d'" using a Some unfolding linked_alike_def by blast
      then show ?thesis using Some d' by (simp add: same_links_def LINKS_def)
    qed
  qed
  then show ?thesis using a by (simp add: by_id_def linked_alike_def)
qed

lemma linked_alike_from_gpx:
  assumes "linked_alike acts acts'"
  shows "from_gpx acts i \<Longrightarrow> from_gpx acts' i"
proof (induction rule: from_gpx.induct)
  case (own i d)
  then obtain d' where "activity_at acts' i = Some d'" "same_links d d'" using assms unfolding linked_alike_def by (metis option.exhaust)
  then show ?case using own by (intro from_gpx.own) (auto simp: same_links_def LINKS_def)
next
  case (piece i d j)
  then obtain d' where d': "activity_at acts' i = Some d'" "same_links d d'" using assms unfolding linked_alike_def by (metis option.exhaust)
  then have "parent_of acts' d' = parent_of acts d"
    using linked_alike_by_id [OF assms] by (simp add: parent_of_def same_links_def LINKS_def split: json.split)
  then show ?case using d' piece by (intro from_gpx.piece [of _ i d' j]) (auto simp: same_links_def LINKS_def)
qed

lemma linked_alike_sym: "linked_alike acts acts' \<Longrightarrow> linked_alike acts' acts"
  by (auto simp: linked_alike_def same_links_def)

lemma same_gpx: "linked_alike acts acts' \<Longrightarrow> from_gpx acts = from_gpx acts'"
  using linked_alike_from_gpx linked_alike_sym by blast

lemma linked_alike_put:
  assumes "activity_at acts i = Some d" "same_links d d'"
  shows "linked_alike acts (acts[i := JDict d'])"
  using assms by (auto simp: linked_alike_def activity_at_def nth_list_update same_links_def split: if_splits json.splits)

text \<open>One step of the loop.\<close>

lemma repair_prefix_step:
  assumes "memo_sound acts known" "pre = [] \<or> pre = ''original_''"
  shows "case activity_at acts i of
      None \<Rightarrow> repair_prefix sq i (acts, known) pre = Inr (acts, known)
    | Some d \<Rightarrow>
        (case repair_one sq d pre (from_gpx acts i) of
           Inl e \<Rightarrow> repair_prefix sq i (acts, known) pre = Inl e
         | Inr d' \<Rightarrow> same_links d d' \<and>
             (\<exists>known'. memo_sound (acts[i := JDict d']) known' \<and> repair_prefix sq i (acts, known) pre = Inr (acts[i := JDict d'], known')))"
proof (cases "activity_at acts i")
  case (Some d)
  have id: "acts[i := JDict d] = acts"
    using Some by (auto simp: activity_at_def list_update_same_conv split: if_splits json.splits)
  obtain b known' where m: "app_measured acts i known = (b, known')" by fastforce
  note a = app_measured_answer [OF assms(1) m]
  show ?thesis
  proof (cases "figures_typed d pre")
    case True
    show ?thesis
    proof (cases "repair_figures sq d pre b")
      case (Inl e)
      then show ?thesis using Some True m a(1) by (simp add: repair_prefix_def repair_one_def)
    next
      case (Inr d')
      have "same_links d d'" by (rule repair_figures_links [OF Inr assms(2)])
      moreover have "memo_sound (acts[i := JDict d']) known'"
        using a(2) same_gpx [OF linked_alike_put [OF Some calculation]] by (simp add: memo_sound_def)
      ultimately show ?thesis using Some True m a(1) Inr by (simp add: repair_prefix_def repair_one_def)
    qed
  next
    case False
    then show ?thesis using Some assms(1) id by (auto simp: repair_prefix_def repair_one_def same_links_def)
  qed
qed (simp add: repair_prefix_def)

text \<open>The activity at the head of the loop.\<close>

lemma repair_pair_step:
  assumes "memo_sound acts known" "i < length acts"
  shows "case repair_activity sq (from_gpx acts i) (acts ! i) of
      Inl e \<Rightarrow> rbind (repair_prefix sq i (acts, known) []) (\<lambda>st. repair_prefix sq i st ''original_'') = Inl e
    | Inr v \<Rightarrow> linked_alike acts (acts[i := v]) \<and>
        (\<exists>known'. memo_sound (acts[i := v]) known' \<and>
           rbind (repair_prefix sq i (acts, known) []) (\<lambda>st. repair_prefix sq i st ''original_'') = Inr (acts[i := v], known'))"
proof (cases "activity_at acts i")
  case None
  then have "repair_activity sq (from_gpx acts i) (acts ! i) = Inr (acts ! i)"
    using assms(2) by (auto simp: activity_at_def repair_activity_def split: json.splits)
  then show ?thesis using None assms by (auto simp: repair_prefix_def linked_alike_def same_links_def)
next
  case (Some d)
  then have nth: "acts ! i = JDict d" by (auto simp: activity_at_def split: if_splits json.splits)
  note one = repair_prefix_step [OF assms(1) disjI1 [OF refl], where i = i and sq = sq, unfolded Some option.case]
  show ?thesis
  proof (cases "repair_one sq d [] (from_gpx acts i)")
    case (Inl e)
    then show ?thesis using one nth by (simp add: repair_activity_def)
  next
    case (Inr d1)
    let ?acts = "acts[i := JDict d1]"
    obtain known1 where s1: "same_links d d1" "memo_sound ?acts known1" "repair_prefix sq i (acts, known) [] = Inr (?acts, known1)"
      using one Inr by auto
    have la: "linked_alike acts ?acts" by (rule linked_alike_put [OF Some s1(1)])
    have at: "activity_at ?acts i = Some d1" using assms(2) by (simp add: activity_at_def)
    note two = repair_prefix_step [OF s1(2) disjI2 [OF refl], where i = i and sq = sq, unfolded at option.case same_gpx [OF la, symmetric]]
    show ?thesis
    proof (cases "repair_one sq d1 ''original_'' (from_gpx acts i)")
      case (Inl e)
      then show ?thesis using two s1 nth Inr by (simp add: repair_activity_def)
    next
      case d2: (Inr d2)
      then have "same_links d d2" using two s1(1) by (simp add: same_links_def)
      then have "linked_alike acts (acts[i := JDict d2])" by (rule linked_alike_put [OF Some])
      then show ?thesis using two s1 nth Inr d2 by (auto simp: repair_activity_def)
    qed
  qed
qed

lemma rbind_assoc: "rbind (rbind r f) g = rbind r (\<lambda>x. rbind (f x) g)"
  by (cases r) simp_all

lemma repair_loop_all:
  assumes "distinct is" "set is \<subseteq> {..<length acts}" "memo_sound acts known"
  shows "case all_results (map (\<lambda>i. repair_activity sq (from_gpx acts i) (acts ! i)) is) of
      Inl e \<Rightarrow> repair_loop sq is (acts, known) = Inl e
    | Inr vs \<Rightarrow> length vs = length is \<and>
        (\<exists>known'. repair_loop sq is (acts, known) = Inr (foldl (\<lambda>a (i, v). a[i := v]) acts (zip is vs), known'))"
  using assms
proof (induction "is" arbitrary: acts known)
  case (Cons i js)
  have i: "i < length acts" using Cons.prems(2) by simp
  note step = repair_pair_step [OF Cons.prems(3) i, of sq]
  show ?case
  proof (cases "repair_activity sq (from_gpx acts i) (acts ! i)")
    case (Inl e)
    then show ?thesis using step by (simp add: rbind_assoc [symmetric])
  next
    case (Inr v)
    let ?acts = "acts[i := v]"
    obtain known' where s: "linked_alike acts ?acts" "memo_sound ?acts known'"
      "rbind (repair_prefix sq i (acts, known) []) (\<lambda>st. repair_prefix sq i st ''original_'') = Inr (?acts, known')"
      using step Inr by auto
    have same: "map (\<lambda>j. repair_activity sq (from_gpx ?acts j) (?acts ! j)) js = map (\<lambda>j. repair_activity sq (from_gpx acts j) (acts ! j)) js"
    proof (intro map_cong refl)
      fix j assume "j \<in> set js"
      then have "i \<noteq> j" using Cons.prems(1) by auto
      then show "repair_activity sq (from_gpx ?acts j) (?acts ! j) = repair_activity sq (from_gpx acts j) (acts ! j)"
        using same_gpx [OF s(1)] by simp
    qed
    have "distinct js" "set js \<subseteq> {..<length ?acts}" using Cons.prems by simp_all
    note ih = Cons.IH [OF this s(2), unfolded same]
    have "repair_loop sq (i # js) (acts, known) = repair_loop sq js (?acts, known')"
      using s(3) by (simp add: rbind_assoc [symmetric])
    then show ?thesis using ih Inr by (auto split: sum.splits)
  qed
qed auto

lemma put_all_positions:
  "length vs = length xs \<Longrightarrow> foldl (\<lambda>a (i, v). a[i := v]) xs (zip [0..<length xs] vs) = vs"
proof -
  assume l: "length vs = length xs"
  have gen: "foldl (\<lambda>a (i, v). a[i := v]) xs (zip [0..<n] (take n vs)) = take n vs @ drop n xs" if "n \<le> length xs" for n
    using that
  proof (induction n)
    case (Suc n)
    have "zip [0..<Suc n] (take (Suc n) vs) = zip [0..<n] (take n vs) @ [(n, vs ! n)]"
      using Suc.prems l by (simp add: take_Suc_conv_app_nth)
    then show ?case using Suc l by (simp add: take_Suc_conv_app_nth list_update_append upd_conv_take_nth_drop Cons_nth_drop_Suc [symmetric])
  qed simp
  show ?thesis using gen [of "length xs"] l by simp
qed

subsection \<open>Properties\<close>

text \<open>C38. A file's activities are repaired each on its own, by where it comes from. The loop over them shares a memo
  of the chains of pieces it has walked and changes the activities as it goes; it gives exactly what
  repairing every activity alone gives, judged as measured by the app when its source, or the first one up
  its chain of parents, is a GPX file, chains that loop or lead nowhere included. The first repair that raises
  makes it raise.\<close>

theorem activities_repaired_by_origin:
  "normalise_activities sq acts = all_results (map (\<lambda>i. repair_activity sq (from_gpx acts i) (acts ! i)) [0..<length acts])"
proof -
  have "memo_sound acts (\<lambda>_. None)" by (simp add: memo_sound_def)
  then have loop: "case all_results (map (\<lambda>i. repair_activity sq (from_gpx acts i) (acts ! i)) [0..<length acts]) of
      Inl e \<Rightarrow> repair_loop sq [0..<length acts] (acts, \<lambda>_. None) = Inl e
    | Inr vs \<Rightarrow> length vs = length [0..<length acts] \<and>
        (\<exists>known'. repair_loop sq [0..<length acts] (acts, \<lambda>_. None) =
           Inr (foldl (\<lambda>a (i, v). a[i := v]) acts (zip [0..<length acts] vs), known'))"
    by (intro repair_loop_all) auto
  show ?thesis
  proof (cases "all_results (map (\<lambda>i. repair_activity sq (from_gpx acts i) (acts ! i)) [0..<length acts])")
    case (Inl e)
    then show ?thesis using loop by (simp add: normalise_activities_def)
  next
    case (Inr vs)
    then show ?thesis using loop put_all_positions [of vs acts] by (auto simp: normalise_activities_def)
  qed
qed

end
