(* ===== verification/Activities.thy ===== *)
theory Activities
  imports TripNormalise
begin

text \<open>
  Activities and their dict form, from \<open>src/models/activity.py\<close>. Python checks no type, so a field holds what the
  source held there, a JSON value; the two times are parsed, and an elevation profile is the pair of its
  lists. A raised exception is \<open>None\<close>. \<open>datetime.now()\<close>, the time of an activity that carries none, is an
  argument.
\<close>

record ApiActivity =
  act_id :: json
  act_name :: json
  act_type :: json
  act_distance :: json
  act_moving_time :: json
  act_elapsed_time :: json
  act_total_elevation_gain :: json
  act_start_date :: pydatetime
  act_start_date_local :: pydatetime
  act_timezone :: json
  act_achievement_count :: json
  act_kudos_count :: json
  act_comment_count :: json
  act_athlete_count :: json
  act_photo_count :: json
  act_trainer :: json
  act_commute :: json
  act_manual :: json
  act_private :: json
  act_flagged :: json
  act_average_speed :: json
  act_max_speed :: json
  act_pr_count :: json
  act_total_photo_count :: json
  act_has_kudoed :: json
  act_gear_id :: json
  act_elev_high :: json
  act_elev_low :: json
  act_start_latlng :: json
  act_end_latlng :: json
  act_summary_polyline :: json
  act_elevation_profile :: "(json \<times> json) option"
  act_elevation_profile_low_res :: "(json \<times> json) option"
  act_is_edited :: json
  act_split_parent_id :: json
  act_strava_id :: json
  act_split_root_id :: json
  act_split_base_name :: json
  act_original_polyline :: json
  act_original_elevation_profile :: "(json \<times> json) option"
  act_original_elevation_profile_enc :: json
  act_original_start_latlng :: json
  act_original_start_latlng_enc :: json
  act_original_end_latlng :: json
  act_original_end_latlng_enc :: json
  act_original_total_elevation_gain :: json
  act_original_distance :: json
  act_original_moving_time :: json
  act_original_elapsed_time :: json
  act_original_average_speed :: json
  act_original_elev_high :: json
  act_original_elev_low :: json
  act_refresh_status :: json
  act_refresh_started_at :: json
  act_refresh_error :: json
  act_source :: json
  act_source_id :: json
  act_start_latlng_enc :: json
  act_end_latlng_enc :: json
  act_elevation_profile_enc :: json
  act_plain_fields :: json
  act_has_gain_snapshot :: json
  act_shared_with_others :: json

subsection \<open>Writing\<close>

definition iso :: "pydatetime \<Rightarrow> string" where
  "iso t = py_replace ''+00:00'' ''Z'' (datetime_isoformat t)"

definition profile_dict :: "(json \<times> json) option \<Rightarrow> json" where
  "profile_dict p =
     (case p of None \<Rightarrow> JNull | Some (ds, es) \<Rightarrow> JDict [(''distances_km'', ds), (''elevations_m'', es)])"

definition to_strava_dict :: "ApiActivity \<Rightarrow> (string \<times> json) list" where
  "to_strava_dict a =
     [(''id'', act_id a), (''name'', act_name a), (''type'', act_type a), (''distance'', act_distance a),
      (''moving_time'', act_moving_time a), (''elapsed_time'', act_elapsed_time a),
      (''total_elevation_gain'', act_total_elevation_gain a), (''start_date'', JStr (iso (act_start_date a))),
      (''start_date_local'', JStr (iso (act_start_date_local a))), (''timezone'', act_timezone a),
      (''achievement_count'', act_achievement_count a), (''kudos_count'', act_kudos_count a),
      (''comment_count'', act_comment_count a), (''athlete_count'', act_athlete_count a),
      (''photo_count'', act_photo_count a), (''trainer'', act_trainer a), (''commute'', act_commute a),
      (''manual'', act_manual a), (''private'', act_private a), (''flagged'', act_flagged a),
      (''average_speed'', act_average_speed a), (''max_speed'', act_max_speed a), (''pr_count'', act_pr_count a),
      (''total_photo_count'', act_total_photo_count a), (''has_kudoed'', act_has_kudoed a),
      (''gear_id'', act_gear_id a), (''elev_high'', act_elev_high a), (''elev_low'', act_elev_low a),
      (''start_latlng'', act_start_latlng a), (''end_latlng'', act_end_latlng a),
      (''map'', JDict [(''summary_polyline'', act_summary_polyline a)]),
      (''elevation_profile'', profile_dict (act_elevation_profile a)), (''is_edited'', act_is_edited a),
      (''split_parent_id'', act_split_parent_id a), (''strava_id'', act_strava_id a),
      (''refresh_status'', act_refresh_status a), (''refresh_started_at'', act_refresh_started_at a),
      (''refresh_error'', act_refresh_error a), (''source'', act_source a), (''source_id'', act_source_id a),
      (''start_latlng_enc'', act_start_latlng_enc a), (''end_latlng_enc'', act_end_latlng_enc a),
      (''elevation_profile_enc'', act_elevation_profile_enc a)]"

definition to_traxj_dict :: "ApiActivity \<Rightarrow> (string \<times> json) list" where
  "to_traxj_dict a = to_strava_dict a @
     [(''split_root_id'', act_split_root_id a), (''split_base_name'', act_split_base_name a),
      (''original_polyline'', act_original_polyline a),
      (''original_elevation_profile'', profile_dict (act_original_elevation_profile a)),
      (''original_elevation_profile_enc'', act_original_elevation_profile_enc a),
      (''original_start_latlng'', act_original_start_latlng a),
      (''original_start_latlng_enc'', act_original_start_latlng_enc a),
      (''original_end_latlng'', act_original_end_latlng a),
      (''original_end_latlng_enc'', act_original_end_latlng_enc a),
      (''original_total_elevation_gain'', act_original_total_elevation_gain a),
      (''original_distance'', act_original_distance a), (''original_moving_time'', act_original_moving_time a),
      (''original_elapsed_time'', act_original_elapsed_time a),
      (''original_average_speed'', act_original_average_speed a),
      (''original_elev_high'', act_original_elev_high a), (''original_elev_low'', act_original_elev_low a)]"

subsection \<open>Reading\<close>

definition date_field :: "pydatetime \<Rightarrow> (string \<times> json) list \<Rightarrow> string \<Rightarrow> pydatetime option" where
  "date_field now d key =
     (if \<not> truthy (dget d key) then Some now
      else case dget d key of JStr s \<Rightarrow> parse_datetime (py_replace ''Z'' ''+00:00'' s) | _ \<Rightarrow> None)"

definition polyline_field :: "(string \<times> json) list \<Rightarrow> json option" where
  "polyline_field d =
     (case dget_or d ''map'' (JDict []) of JDict m \<Rightarrow> Some (json_or (dget m ''summary_polyline'') JNull) | _ \<Rightarrow> None)"

definition profile_field :: "json \<Rightarrow> (json \<times> json) option option" where
  "profile_field v =
     (if \<not> truthy v then Some None
      else case v of
             JDict p \<Rightarrow>
               (case (map_of p ''distances_km'', map_of p ''elevations_m'') of
                  (Some ds, Some es) \<Rightarrow> Some (Some (ds, es))
                | _ \<Rightarrow> None)
           | _ \<Rightarrow> None)"

text \<open>The activity of a dict, given the fields whose reading can fail.\<close>

definition read_activity ::
  "(string \<times> json) list \<Rightarrow> json \<Rightarrow> pydatetime \<Rightarrow> pydatetime \<Rightarrow> json \<Rightarrow> (json \<times> json) option \<Rightarrow> json \<Rightarrow> (json \<times> json) option \<Rightarrow>
     ApiActivity" where
  "read_activity d aid sd sdl poly ep sid op =
      \<lparr>act_id = aid, act_name = dget_or d ''name'' (JStr []), act_type = dget_or d ''type'' (JStr []),
       act_distance = dget_or d ''distance'' (JFloat (Fin 0)),
       act_moving_time = dget_or d ''moving_time'' (JInt 0),
       act_elapsed_time = dget_or d ''elapsed_time'' (JInt 0),
       act_total_elevation_gain = gain_reading (dget_or d ''total_elevation_gain'' (JFloat (Fin 0))),
       act_start_date = sd, act_start_date_local = sdl, act_timezone = dget_or d ''timezone'' (JStr ''UTC''),
       act_achievement_count = dget_or d ''achievement_count'' (JInt 0),
       act_kudos_count = dget_or d ''kudos_count'' (JInt 0),
       act_comment_count = dget_or d ''comment_count'' (JInt 0),
       act_athlete_count = dget_or d ''athlete_count'' (JInt 0),
       act_photo_count = dget_or d ''photo_count'' (JInt 0), act_trainer = dget_or d ''trainer'' (JBool False),
       act_commute = dget_or d ''commute'' (JBool False), act_manual = dget_or d ''manual'' (JBool False),
       act_private = dget_or d ''private'' (JBool False), act_flagged = dget_or d ''flagged'' (JBool False),
       act_average_speed = dget_or d ''average_speed'' (JFloat (Fin 0)),
       act_max_speed = dget_or d ''max_speed'' (JFloat (Fin 0)), act_pr_count = dget_or d ''pr_count'' (JInt 0),
       act_total_photo_count = dget_or d ''total_photo_count'' (JInt 0),
       act_has_kudoed = dget_or d ''has_kudoed'' (JBool False), act_gear_id = dget d ''gear_id'',
       act_elev_high = elevation_reading (dget d ''elev_high''),
       act_elev_low = elevation_reading (dget d ''elev_low''), act_start_latlng = dget d ''start_latlng'',
       act_end_latlng = dget d ''end_latlng'', act_summary_polyline = poly, act_elevation_profile = ep,
       act_elevation_profile_low_res = None, act_is_edited = dget_or d ''is_edited'' (JBool False),
       act_split_parent_id = dget d ''split_parent_id'', act_strava_id = sid,
       act_split_root_id = dget d ''split_root_id'', act_split_base_name = dget d ''split_base_name'',
       act_original_polyline = dget d ''original_polyline'', act_original_elevation_profile = op,
       act_original_elevation_profile_enc = dget d ''original_elevation_profile_enc'',
       act_original_start_latlng = dget d ''original_start_latlng'',
       act_original_start_latlng_enc = dget d ''original_start_latlng_enc'',
       act_original_end_latlng = dget d ''original_end_latlng'',
       act_original_end_latlng_enc = dget d ''original_end_latlng_enc'',
       act_original_total_elevation_gain = gain_reading (dget d ''original_total_elevation_gain''),
       act_original_distance = dget d ''original_distance'',
       act_original_moving_time = dget d ''original_moving_time'',
       act_original_elapsed_time = dget d ''original_elapsed_time'',
       act_original_average_speed = dget d ''original_average_speed'',
       act_original_elev_high = elevation_reading (dget d ''original_elev_high''),
       act_original_elev_low = elevation_reading (dget d ''original_elev_low''),
       act_refresh_status = dget d ''refresh_status'', act_refresh_started_at = dget d ''refresh_started_at'',
       act_refresh_error = dget d ''refresh_error'', act_source = dget d ''source'',
       act_source_id = dget d ''source_id'', act_start_latlng_enc = dget d ''start_latlng_enc'',
       act_end_latlng_enc = dget d ''end_latlng_enc'',
       act_elevation_profile_enc = dget d ''elevation_profile_enc'', act_plain_fields = JNull,
       act_has_gain_snapshot = JBool False, act_shared_with_others = JNull\<rparr>"

definition from_strava_api :: "pydatetime \<Rightarrow> (string \<times> json) list \<Rightarrow> ApiActivity option" where
  "from_strava_api now d =
     Option.bind (activity_id_or_none (dget d ''id'')) (\<lambda>aid.
     Option.bind (date_field now d ''start_date'') (\<lambda>sd.
     Option.bind (date_field now d ''start_date_local'') (\<lambda>sdl.
     Option.bind (polyline_field d) (\<lambda>poly.
     Option.bind (profile_field (dget d ''elevation_profile'')) (\<lambda>ep.
     Option.bind (strava_id_of d) (\<lambda>sid.
     Option.bind (profile_field (dget d ''original_elevation_profile'')) (\<lambda>op.
       Some (read_activity d aid sd sdl poly ep sid op))))))))"

text \<open>The activities that could be read, and how many were dropped.\<close>

definition parse_activity :: "pydatetime \<Rightarrow> json \<Rightarrow> ApiActivity option" where
  "parse_activity now raw = (case raw of JDict d \<Rightarrow> from_strava_api now d | _ \<Rightarrow> None)"

definition parse_activities_or_log :: "pydatetime \<Rightarrow> json list \<Rightarrow> ApiActivity list \<times> nat" where
  "parse_activities_or_log now raw_list =
     (List.map_filter (parse_activity now) raw_list,
      length (filter (\<lambda>raw. parse_activity now raw = None) raw_list))"

subsection \<open>Lookups\<close>

lemma traxj_fields:
  "map_of (to_traxj_dict a) ''id'' = Some (act_id a)"
  "map_of (to_traxj_dict a) ''name'' = Some (act_name a)"
  "map_of (to_traxj_dict a) ''type'' = Some (act_type a)"
  "map_of (to_traxj_dict a) ''distance'' = Some (act_distance a)"
  "map_of (to_traxj_dict a) ''moving_time'' = Some (act_moving_time a)"
  "map_of (to_traxj_dict a) ''elapsed_time'' = Some (act_elapsed_time a)"
  "map_of (to_traxj_dict a) ''total_elevation_gain'' = Some (act_total_elevation_gain a)"
  "map_of (to_traxj_dict a) ''start_date'' = Some (JStr (iso (act_start_date a)))"
  "map_of (to_traxj_dict a) ''start_date_local'' = Some (JStr (iso (act_start_date_local a)))"
  "map_of (to_traxj_dict a) ''timezone'' = Some (act_timezone a)"
  "map_of (to_traxj_dict a) ''achievement_count'' = Some (act_achievement_count a)"
  "map_of (to_traxj_dict a) ''kudos_count'' = Some (act_kudos_count a)"
  "map_of (to_traxj_dict a) ''comment_count'' = Some (act_comment_count a)"
  "map_of (to_traxj_dict a) ''athlete_count'' = Some (act_athlete_count a)"
  "map_of (to_traxj_dict a) ''photo_count'' = Some (act_photo_count a)"
  "map_of (to_traxj_dict a) ''trainer'' = Some (act_trainer a)"
  "map_of (to_traxj_dict a) ''commute'' = Some (act_commute a)"
  "map_of (to_traxj_dict a) ''manual'' = Some (act_manual a)"
  "map_of (to_traxj_dict a) ''private'' = Some (act_private a)"
  "map_of (to_traxj_dict a) ''flagged'' = Some (act_flagged a)"
  "map_of (to_traxj_dict a) ''average_speed'' = Some (act_average_speed a)"
  "map_of (to_traxj_dict a) ''max_speed'' = Some (act_max_speed a)"
  "map_of (to_traxj_dict a) ''pr_count'' = Some (act_pr_count a)"
  "map_of (to_traxj_dict a) ''total_photo_count'' = Some (act_total_photo_count a)"
  "map_of (to_traxj_dict a) ''has_kudoed'' = Some (act_has_kudoed a)"
  "map_of (to_traxj_dict a) ''gear_id'' = Some (act_gear_id a)"
  "map_of (to_traxj_dict a) ''elev_high'' = Some (act_elev_high a)"
  "map_of (to_traxj_dict a) ''elev_low'' = Some (act_elev_low a)"
  "map_of (to_traxj_dict a) ''start_latlng'' = Some (act_start_latlng a)"
  "map_of (to_traxj_dict a) ''end_latlng'' = Some (act_end_latlng a)"
  "map_of (to_traxj_dict a) ''map'' = Some (JDict [(''summary_polyline'', act_summary_polyline a)])"
  "map_of (to_traxj_dict a) ''elevation_profile'' = Some (profile_dict (act_elevation_profile a))"
  "map_of (to_traxj_dict a) ''is_edited'' = Some (act_is_edited a)"
  "map_of (to_traxj_dict a) ''split_parent_id'' = Some (act_split_parent_id a)"
  "map_of (to_traxj_dict a) ''strava_id'' = Some (act_strava_id a)"
  "map_of (to_traxj_dict a) ''refresh_status'' = Some (act_refresh_status a)"
  "map_of (to_traxj_dict a) ''refresh_started_at'' = Some (act_refresh_started_at a)"
  "map_of (to_traxj_dict a) ''refresh_error'' = Some (act_refresh_error a)"
  "map_of (to_traxj_dict a) ''source'' = Some (act_source a)"
  "map_of (to_traxj_dict a) ''source_id'' = Some (act_source_id a)"
  "map_of (to_traxj_dict a) ''start_latlng_enc'' = Some (act_start_latlng_enc a)"
  "map_of (to_traxj_dict a) ''end_latlng_enc'' = Some (act_end_latlng_enc a)"
  "map_of (to_traxj_dict a) ''elevation_profile_enc'' = Some (act_elevation_profile_enc a)"
  "map_of (to_traxj_dict a) ''split_root_id'' = Some (act_split_root_id a)"
  "map_of (to_traxj_dict a) ''split_base_name'' = Some (act_split_base_name a)"
  "map_of (to_traxj_dict a) ''original_polyline'' = Some (act_original_polyline a)"
  "map_of (to_traxj_dict a) ''original_elevation_profile'' = Some (profile_dict (act_original_elevation_profile a))"
  "map_of (to_traxj_dict a) ''original_elevation_profile_enc'' = Some (act_original_elevation_profile_enc a)"
  "map_of (to_traxj_dict a) ''original_start_latlng'' = Some (act_original_start_latlng a)"
  "map_of (to_traxj_dict a) ''original_start_latlng_enc'' = Some (act_original_start_latlng_enc a)"
  "map_of (to_traxj_dict a) ''original_end_latlng'' = Some (act_original_end_latlng a)"
  "map_of (to_traxj_dict a) ''original_end_latlng_enc'' = Some (act_original_end_latlng_enc a)"
  "map_of (to_traxj_dict a) ''original_total_elevation_gain'' = Some (act_original_total_elevation_gain a)"
  "map_of (to_traxj_dict a) ''original_distance'' = Some (act_original_distance a)"
  "map_of (to_traxj_dict a) ''original_moving_time'' = Some (act_original_moving_time a)"
  "map_of (to_traxj_dict a) ''original_elapsed_time'' = Some (act_original_elapsed_time a)"
  "map_of (to_traxj_dict a) ''original_average_speed'' = Some (act_original_average_speed a)"
  "map_of (to_traxj_dict a) ''original_elev_high'' = Some (act_original_elev_high a)"
  "map_of (to_traxj_dict a) ''original_elev_low'' = Some (act_original_elev_low a)"
  by (simp_all add: to_traxj_dict_def to_strava_dict_def)

subsection \<open>An activity as the app keeps it\<close>

text \<open>Ids are integers of 64 bits or absent, times are real times, figures plausible readings; what only the
  database fills in is not there.\<close>

definition kept_activity :: "ApiActivity \<Rightarrow> bool" where
  "kept_activity a \<longleftrightarrow>
     activity_id_or_none (act_id a) \<noteq> None \<and> activity_id_or_none (act_strava_id a) \<noteq> None \<and>
     (\<forall>t\<in>{act_start_date a, act_start_date_local a}. valid_datetime t \<and> readable_offset (dt_offset t)) \<and>
     (act_summary_polyline a = JNull \<or> truthy (act_summary_polyline a)) \<and>
     (\<forall>g\<in>{act_total_elevation_gain a, act_original_total_elevation_gain a}. gain_reading g = g) \<and>
     (\<forall>e\<in>{act_elev_high a, act_elev_low a, act_original_elev_high a, act_original_elev_low a}. elevation_reading e = e) \<and>
     act_elevation_profile_low_res a = None \<and> act_plain_fields a = JNull \<and> act_has_gain_snapshot a = JBool False \<and>
     act_shared_with_others a = JNull"

lemma iso_nonempty: "iso t \<noteq> []"
proof
  assume "iso t = []"
  then have "py_replace ''Z'' ''+00:00'' (iso t) = []" by simp
  moreover have "datetime_isoformat t \<noteq> []" by (cases "dt_date t") (simp add: datetime_isoformat_def)
  then have "iso t \<noteq> []" by (subst iso_def, subst py_replace.simps) (auto simp: Let_def)
  ultimately show False using \<open>iso t = []\<close> by simp
qed

lemma date_field_iso:
  assumes "map_of d k = Some (JStr (iso t))" "valid_datetime t" "readable_offset (dt_offset t)"
  shows "date_field now d k = Some t"
  using written_time_reads_back [OF assms(2,3)] iso_nonempty [of t] assms(1)
  by (simp add: date_field_def dget_def iso_def)

lemma profile_field_dict [simp]: "profile_field (profile_dict p) = Some p"
  by (auto simp: profile_field_def profile_dict_def split: option.splits)

lemma activity_id_or_none_id: "activity_id_or_none v \<noteq> None \<Longrightarrow> activity_id_or_none v = Some v"
  by (simp add: activity_id_or_none_def split: if_splits)

lemma kept_activity_reads_back:
  assumes "kept_activity a"
  shows "from_strava_api now (to_traxj_dict a) = Some a"
proof -
  note k = assms [unfolded kept_activity_def]
  have g: "dget (to_traxj_dict a) x = v" "dget_or (to_traxj_dict a) x y = v" if "map_of (to_traxj_dict a) x = Some v" for x v y
    using that by (simp_all add: dget_def dget_or_def)
  note l = traxj_fields [THEN g(1)] traxj_fields [THEN g(2)]
  have ids: "activity_id_or_none (act_id a) = Some (act_id a)" "activity_id_or_none (act_strava_id a) = Some (act_strava_id a)"
    using k activity_id_or_none_id by blast+
  have "date_field now (to_traxj_dict a) ''start_date'' = Some (act_start_date a)"
    "date_field now (to_traxj_dict a) ''start_date_local'' = Some (act_start_date_local a)"
    using k by (auto intro!: date_field_iso simp: traxj_fields)
  moreover have "polyline_field (to_traxj_dict a) = Some (act_summary_polyline a)"
    using k by (auto simp: polyline_field_def l json_or_def)
  moreover have "strava_id_of (to_traxj_dict a) = Some (act_strava_id a)"
    using ids(2) by (simp add: strava_id_of_def traxj_fields)
  ultimately show ?thesis
    using k ids by (simp add: from_strava_api_def read_activity_def l)
qed

end
