(* ===== verification/ActivityImport.thy ===== *)
theory ActivityImport
  imports Activities
begin

text \<open>
  An activity a trip file may hold is read, and what was read can be written to a file again: \<open>Activities\<close> against
  the model of \<open>TripSchema\<close>.
\<close>

subsection \<open>Fields\<close>

definition fits :: "(string \<times> json) list \<Rightarrow> string \<Rightarrow> schema \<Rightarrow> bool" where
  "fits d k s \<longleftrightarrow> (case map_of d k of None \<Rightarrow> True | Some x \<Rightarrow> conforms s x)"

lemma conforms_model:
  "conforms (Model fs) (JDict d) \<longleftrightarrow> list_all (\<lambda>(k, req, s). (req \<longrightarrow> map_of d k \<noteq> None) \<and> fits d k s) fs"
  by (auto simp: fits_def list_all_iff split: option.splits)

lemma fits_get: "fits d k s \<Longrightarrow> conforms s x \<Longrightarrow> conforms s (dget_or d k x)"
  by (simp add: fits_def dget_or_def split: option.splits)

lemma dget_dget_or: "dget d k = dget_or d k JNull"
  by (simp add: dget_def dget_or_def)

lemma activity_fits:
  assumes "conforms ActivityModel (JDict d)"
  shows "fits d ''id'' (OptionalField IntField) \<and>
     fits d ''name'' (StrField) \<and>
     fits d ''type'' (StrField) \<and>
     fits d ''distance'' (Distance) \<and>
     fits d ''moving_time'' (Duration) \<and>
     fits d ''elapsed_time'' (Duration) \<and>
     fits d ''total_elevation_gain'' (Gain) \<and>
     fits d ''start_date'' (DateTime) \<and>
     fits d ''start_date_local'' (DateTime) \<and>
     fits d ''timezone'' (StrField) \<and>
     fits d ''achievement_count'' (Count) \<and>
     fits d ''kudos_count'' (Count) \<and>
     fits d ''comment_count'' (Count) \<and>
     fits d ''athlete_count'' (Count) \<and>
     fits d ''photo_count'' (Count) \<and>
     fits d ''trainer'' (BoolField) \<and>
     fits d ''commute'' (BoolField) \<and>
     fits d ''manual'' (BoolField) \<and>
     fits d ''private'' (BoolField) \<and>
     fits d ''flagged'' (BoolField) \<and>
     fits d ''average_speed'' (Speed) \<and>
     fits d ''max_speed'' (Speed) \<and>
     fits d ''has_heartrate'' (BoolField) \<and>
     fits d ''pr_count'' (Count) \<and>
     fits d ''total_photo_count'' (Count) \<and>
     fits d ''has_kudoed'' (BoolField) \<and>
     fits d ''gear_id'' (OptionalField StrField) \<and>
     fits d ''average_heartrate'' (OptionalField HeartRate) \<and>
     fits d ''max_heartrate'' (OptionalField HeartRate) \<and>
     fits d ''heartrate_opt_out'' (BoolField) \<and>
     fits d ''display_hide_heartrate_option'' (BoolField) \<and>
     fits d ''elev_high'' (OptionalField ElevationF) \<and>
     fits d ''elev_low'' (OptionalField ElevationF) \<and>
     fits d ''start_latlng'' (OptionalField LatLng) \<and>
     fits d ''end_latlng'' (OptionalField LatLng) \<and>
     fits d ''map'' (MapModel) \<and>
     fits d ''elevation_profile'' (OptionalField ElevationProfileModel) \<and>
     fits d ''is_edited'' (BoolField) \<and>
     fits d ''split_parent_id'' (OptionalField IntField) \<and>
     fits d ''strava_id'' (OptionalField StravaId) \<and>
     fits d ''split_root_id'' (OptionalField IntField) \<and>
     fits d ''split_base_name'' (OptionalField StrField) \<and>
     fits d ''original_polyline'' (OptionalField StrField) \<and>
     fits d ''original_elevation_profile'' (OptionalField ElevationProfileModel) \<and>
     fits d ''original_elevation_profile_enc'' (OptionalField Envelope) \<and>
     fits d ''original_start_latlng'' (OptionalField LatLng) \<and>
     fits d ''original_start_latlng_enc'' (OptionalField Envelope) \<and>
     fits d ''original_end_latlng'' (OptionalField LatLng) \<and>
     fits d ''original_end_latlng_enc'' (OptionalField Envelope) \<and>
     fits d ''original_total_elevation_gain'' (OptionalField Gain) \<and>
     fits d ''original_distance'' (OptionalField Distance) \<and>
     fits d ''original_moving_time'' (OptionalField Duration) \<and>
     fits d ''original_elapsed_time'' (OptionalField Duration) \<and>
     fits d ''original_average_speed'' (OptionalField Speed) \<and>
     fits d ''original_elev_high'' (OptionalField ElevationF) \<and>
     fits d ''original_elev_low'' (OptionalField ElevationF) \<and>
     fits d ''refresh_status'' (OptionalField StrField) \<and>
     fits d ''refresh_started_at'' (OptionalField StrField) \<and>
     fits d ''refresh_error'' (OptionalField StrField) \<and>
     fits d ''source'' (OptionalField StrField) \<and>
     fits d ''source_id'' (OptionalField StrField) \<and>
     fits d ''start_latlng_enc'' (OptionalField Envelope) \<and>
     fits d ''end_latlng_enc'' (OptionalField Envelope) \<and>
     fits d ''elevation_profile_enc'' (OptionalField Envelope)"
  using assms unfolding ActivityModel_def conforms_model by simp

lemma read_activity_fields:
  "act_name (read_activity d aid sd sdl poly ep sid op) = dget_or d ''name'' (JStr [])"
  "act_type (read_activity d aid sd sdl poly ep sid op) = dget_or d ''type'' (JStr [])"
  "act_distance (read_activity d aid sd sdl poly ep sid op) = dget_or d ''distance'' (JFloat (Fin 0))"
  "act_moving_time (read_activity d aid sd sdl poly ep sid op) = dget_or d ''moving_time'' (JInt 0)"
  "act_elapsed_time (read_activity d aid sd sdl poly ep sid op) = dget_or d ''elapsed_time'' (JInt 0)"
  "act_total_elevation_gain (read_activity d aid sd sdl poly ep sid op) = gain_reading (dget_or d ''total_elevation_gain'' (JFloat (Fin 0)))"
  "act_timezone (read_activity d aid sd sdl poly ep sid op) = dget_or d ''timezone'' (JStr ''UTC'')"
  "act_achievement_count (read_activity d aid sd sdl poly ep sid op) = dget_or d ''achievement_count'' (JInt 0)"
  "act_kudos_count (read_activity d aid sd sdl poly ep sid op) = dget_or d ''kudos_count'' (JInt 0)"
  "act_comment_count (read_activity d aid sd sdl poly ep sid op) = dget_or d ''comment_count'' (JInt 0)"
  "act_athlete_count (read_activity d aid sd sdl poly ep sid op) = dget_or d ''athlete_count'' (JInt 0)"
  "act_photo_count (read_activity d aid sd sdl poly ep sid op) = dget_or d ''photo_count'' (JInt 0)"
  "act_trainer (read_activity d aid sd sdl poly ep sid op) = dget_or d ''trainer'' (JBool False)"
  "act_commute (read_activity d aid sd sdl poly ep sid op) = dget_or d ''commute'' (JBool False)"
  "act_manual (read_activity d aid sd sdl poly ep sid op) = dget_or d ''manual'' (JBool False)"
  "act_private (read_activity d aid sd sdl poly ep sid op) = dget_or d ''private'' (JBool False)"
  "act_flagged (read_activity d aid sd sdl poly ep sid op) = dget_or d ''flagged'' (JBool False)"
  "act_average_speed (read_activity d aid sd sdl poly ep sid op) = dget_or d ''average_speed'' (JFloat (Fin 0))"
  "act_max_speed (read_activity d aid sd sdl poly ep sid op) = dget_or d ''max_speed'' (JFloat (Fin 0))"
  "act_pr_count (read_activity d aid sd sdl poly ep sid op) = dget_or d ''pr_count'' (JInt 0)"
  "act_total_photo_count (read_activity d aid sd sdl poly ep sid op) = dget_or d ''total_photo_count'' (JInt 0)"
  "act_has_kudoed (read_activity d aid sd sdl poly ep sid op) = dget_or d ''has_kudoed'' (JBool False)"
  "act_gear_id (read_activity d aid sd sdl poly ep sid op) = dget_or d ''gear_id'' (JNull)"
  "act_elev_high (read_activity d aid sd sdl poly ep sid op) = elevation_reading (dget_or d ''elev_high'' (JNull))"
  "act_elev_low (read_activity d aid sd sdl poly ep sid op) = elevation_reading (dget_or d ''elev_low'' (JNull))"
  "act_start_latlng (read_activity d aid sd sdl poly ep sid op) = dget_or d ''start_latlng'' (JNull)"
  "act_end_latlng (read_activity d aid sd sdl poly ep sid op) = dget_or d ''end_latlng'' (JNull)"
  "act_elevation_profile_low_res (read_activity d aid sd sdl poly ep sid op) = None"
  "act_is_edited (read_activity d aid sd sdl poly ep sid op) = dget_or d ''is_edited'' (JBool False)"
  "act_split_parent_id (read_activity d aid sd sdl poly ep sid op) = dget_or d ''split_parent_id'' (JNull)"
  "act_split_root_id (read_activity d aid sd sdl poly ep sid op) = dget_or d ''split_root_id'' (JNull)"
  "act_split_base_name (read_activity d aid sd sdl poly ep sid op) = dget_or d ''split_base_name'' (JNull)"
  "act_original_polyline (read_activity d aid sd sdl poly ep sid op) = dget_or d ''original_polyline'' (JNull)"
  "act_original_elevation_profile_enc (read_activity d aid sd sdl poly ep sid op) = dget_or d ''original_elevation_profile_enc'' (JNull)"
  "act_original_start_latlng (read_activity d aid sd sdl poly ep sid op) = dget_or d ''original_start_latlng'' (JNull)"
  "act_original_start_latlng_enc (read_activity d aid sd sdl poly ep sid op) = dget_or d ''original_start_latlng_enc'' (JNull)"
  "act_original_end_latlng (read_activity d aid sd sdl poly ep sid op) = dget_or d ''original_end_latlng'' (JNull)"
  "act_original_end_latlng_enc (read_activity d aid sd sdl poly ep sid op) = dget_or d ''original_end_latlng_enc'' (JNull)"
  "act_original_total_elevation_gain (read_activity d aid sd sdl poly ep sid op) = gain_reading (dget_or d ''original_total_elevation_gain'' (JNull))"
  "act_original_distance (read_activity d aid sd sdl poly ep sid op) = dget_or d ''original_distance'' (JNull)"
  "act_original_moving_time (read_activity d aid sd sdl poly ep sid op) = dget_or d ''original_moving_time'' (JNull)"
  "act_original_elapsed_time (read_activity d aid sd sdl poly ep sid op) = dget_or d ''original_elapsed_time'' (JNull)"
  "act_original_average_speed (read_activity d aid sd sdl poly ep sid op) = dget_or d ''original_average_speed'' (JNull)"
  "act_original_elev_high (read_activity d aid sd sdl poly ep sid op) = elevation_reading (dget_or d ''original_elev_high'' (JNull))"
  "act_original_elev_low (read_activity d aid sd sdl poly ep sid op) = elevation_reading (dget_or d ''original_elev_low'' (JNull))"
  "act_refresh_status (read_activity d aid sd sdl poly ep sid op) = dget_or d ''refresh_status'' (JNull)"
  "act_refresh_started_at (read_activity d aid sd sdl poly ep sid op) = dget_or d ''refresh_started_at'' (JNull)"
  "act_refresh_error (read_activity d aid sd sdl poly ep sid op) = dget_or d ''refresh_error'' (JNull)"
  "act_source (read_activity d aid sd sdl poly ep sid op) = dget_or d ''source'' (JNull)"
  "act_source_id (read_activity d aid sd sdl poly ep sid op) = dget_or d ''source_id'' (JNull)"
  "act_start_latlng_enc (read_activity d aid sd sdl poly ep sid op) = dget_or d ''start_latlng_enc'' (JNull)"
  "act_end_latlng_enc (read_activity d aid sd sdl poly ep sid op) = dget_or d ''end_latlng_enc'' (JNull)"
  "act_elevation_profile_enc (read_activity d aid sd sdl poly ep sid op) = dget_or d ''elevation_profile_enc'' (JNull)"
  "act_plain_fields (read_activity d aid sd sdl poly ep sid op) = JNull"
  "act_has_gain_snapshot (read_activity d aid sd sdl poly ep sid op) = JBool False"
  "act_shared_with_others (read_activity d aid sd sdl poly ep sid op) = JNull"
  "act_id (read_activity d aid sd sdl poly ep sid op) = aid"
  "act_start_date (read_activity d aid sd sdl poly ep sid op) = sd"
  "act_start_date_local (read_activity d aid sd sdl poly ep sid op) = sdl"
  "act_summary_polyline (read_activity d aid sd sdl poly ep sid op) = poly"
  "act_elevation_profile (read_activity d aid sd sdl poly ep sid op) = ep"
  "act_strava_id (read_activity d aid sd sdl poly ep sid op) = sid"
  "act_original_elevation_profile (read_activity d aid sd sdl poly ep sid op) = op"
  by (simp_all add: read_activity_def dget_dget_or)

lemma read_parts:
  assumes "from_strava_api now d = Some a"
  obtains aid sd sdl poly ep sid op where "a = read_activity d aid sd sdl poly ep sid op"
    "activity_id_or_none (dget d ''id'') = Some aid" "date_field now d ''start_date'' = Some sd"
    "date_field now d ''start_date_local'' = Some sdl" "polyline_field d = Some poly"
    "profile_field (dget d ''elevation_profile'') = Some ep" "strava_id_of d = Some sid"
    "profile_field (dget d ''original_elevation_profile'') = Some op"
  using assms unfolding from_strava_api_def bind_eq_Some_conv by blast

subsection \<open>Reading cannot fail\<close>

lemma clean_get: "clean fl (JDict d) \<Longrightarrow> map_of d k = Some v \<Longrightarrow> clean fl v"
  by (auto simp: list_all_iff dest!: map_of_SomeD)

lemma clean_get_or: "clean fl (JDict d) \<Longrightarrow> clean fl x \<Longrightarrow> clean fl (dget_or d k x)"
  by (simp add: dget_or_def clean_get del: clean.simps split: option.splits)

lemma conforms_id: "conforms (OptionalField IntField) v \<Longrightarrow> clean fl v \<Longrightarrow> activity_id_or_none v = Some v"
  by (auto simp: activity_id_or_none_def is_activity_id_def scalar_fault_def TRIP_INT_MIN_def TRIP_INT_MAX_def
      ACTIVITY_ID_MIN_def ACTIVITY_ID_MAX_def split: json.splits if_splits)

lemma fits_id: "fits d k (OptionalField IntField) \<Longrightarrow> clean fl (JDict d) \<Longrightarrow> activity_id_or_none (dget d k) = Some (dget d k)"
  unfolding dget_dget_or
  by (rule conforms_id [OF fits_get clean_get_or]) (simp_all add: scalar_fault_def del: clean.simps(2))

lemma conforms_strava_id: "conforms (OptionalField StravaId) v \<Longrightarrow> conforms (OptionalField IntField) v"
  by (auto simp: StravaId_def)

lemma fits_strava_id: "fits d k (OptionalField StravaId) \<Longrightarrow> fits d k (OptionalField IntField)"
  using conforms_strava_id by (simp add: fits_def del: conforms.simps split: option.splits)

lemma fits_date:
  assumes "fits d k DateTime"
  shows "\<exists>t. date_field now d k = Some t"
  using assms by (auto simp: fits_def DateTime_def date_time_fault_def date_field_def dget_def split: option.splits json.splits if_splits)

lemma date_field_valid:
  assumes "date_field now d k = Some t" "valid_datetime now" "readable_offset (dt_offset now)"
  shows "valid_datetime t \<and> readable_offset (dt_offset t)"
  using assms parse_datetime_valid by (auto simp: date_field_def split: if_splits json.splits)

lemma fits_polyline:
  assumes "fits d ''map'' MapModel"
  shows "\<exists>p. polyline_field d = Some p \<and> conforms (OptionalField StrField) p \<and> (p = JNull \<or> truthy p) \<and>
    (clean fl (JDict d) \<longrightarrow> clean fl p)"
proof (cases "map_of d ''map''")
  case None
  then show ?thesis by (simp add: polyline_field_def dget_or_def json_or_def scalar_fault_def)
next
  case (Some v)
  then have c: "conforms MapModel v" using assms by (simp add: fits_def)
  then obtain m where m: "v = JDict m" by (auto simp: MapModel_def split: json.splits)
  have p: "conforms (OptionalField StrField) (dget m ''summary_polyline'')"
    using c m by (auto simp: MapModel_def dget_def split: option.splits json.splits)
  have "clean fl (dget m ''summary_polyline'')" if "clean fl (JDict d)"
    using clean_get_or [OF clean_get [OF that Some, unfolded m], of JNull] by (simp add: dget_dget_or scalar_fault_def del: clean.simps(2))
  then show ?thesis using Some m p by (auto simp: polyline_field_def dget_or_def json_or_def scalar_fault_def)
qed

lemma fits_profile:
  assumes "fits d k (OptionalField ElevationProfileModel)"
  shows "\<exists>p. profile_field (dget d k) = Some p \<and> conforms (OptionalField ElevationProfileModel) (profile_dict p) \<and>
    (clean fl (JDict d) \<longrightarrow> clean fl (profile_dict p))"
proof (cases "dget d k = JNull")
  case True
  then show ?thesis by (simp add: profile_field_def profile_dict_def scalar_fault_def)
next
  case False
  then obtain v where v: "map_of d k = Some v" "dget d k = v" by (auto simp: dget_def split: option.splits)
  then have c: "conforms ElevationProfileModel v" using assms False by (simp add: fits_def)
  then obtain m where m: "v = JDict m" by (auto simp: ElevationProfileModel_def split: json.splits)
  obtain ds es where de: "map_of m ''distances_km'' = Some ds" "map_of m ''elevations_m'' = Some es"
    "conforms Distances ds" "conforms Elevations es"
    using c m by (auto simp: ElevationProfileModel_def split: option.splits)
  have t: "truthy v" using m de(1) by auto
  have "clean fl ds \<and> clean fl es" if "clean fl (JDict d)"
    using clean_get [OF that v(1)] m clean_get [OF _ de(1)] clean_get [OF _ de(2)] by blast
  moreover have "conforms ElevationProfileModel (profile_dict (Some (ds, es)))"
    using de(3,4) by (simp add: profile_dict_def ElevationProfileModel_def)
  ultimately show ?thesis using v(2) m t de(1,2)
    by (auto simp: profile_field_def profile_dict_def bad_text_def)
qed

subsection \<open>What is written conforms\<close>

lemma conforms_iso: "valid_datetime t \<Longrightarrow> readable_offset (dt_offset t) \<Longrightarrow> conforms DateTime (JStr (iso t))"
  using written_time_reads_back [of t] by (simp add: DateTime_def date_time_fault_def iso_def)

lemma bounded_by_iff: "bounded_by lo hi v \<longleftrightarrow> (\<exists>x. finite_or_none v = Some x \<and> lo \<le> x \<and> x \<le> hi)"
  by (cases "(lo, hi, v)" rule: bounded_by.cases) (auto simp: finite_or_none_def)

lemma conforms_gain: "conforms Gain v \<or> conforms (OptionalField Gain) v \<Longrightarrow> gain_reading v = v"
  by (auto simp: Gain_def bounded_by_iff gain_reading_def is_number_def)

lemma conforms_elevation: "conforms (OptionalField ElevationF) v \<Longrightarrow> elevation_reading v = v"
  by (auto simp: ElevationF_def bounded_by_iff elevation_reading_def plausible_elevation_def is_number_def)

lemma conforms_map: "conforms (OptionalField StrField) p \<Longrightarrow> conforms MapModel (JDict [(''summary_polyline'', p)])"
  by (simp add: MapModel_def)

lemma conforms_defaults:
  "conforms (OptionalField s) JNull" "conforms StrField (JStr x)" "conforms BoolField (JBool b)"
  "conforms Distance (JFloat (Fin 0))" "conforms Gain (JFloat (Fin 0))" "conforms Speed (JFloat (Fin 0))"
  "conforms Duration (JInt 0)" "conforms Count (JInt 0)"
  by (simp_all add: Distance_def Gain_def Speed_def Duration_def Count_def is_number_def DISTANCE_MAX_M_def GAIN_MAX_M_def
      SPEED_MAX_M_S_def DURATION_MAX_S_def COUNT_MAX_def)

lemma clean_defaults:
  "clean fl JNull" "clean fl (JStr [])" "clean fl (JStr ''UTC'')" "clean fl (JBool b)" "clean fl (JFloat (Fin x))" "clean fl (JInt 0)"
  by (simp_all add: scalar_fault_def bad_text_def TRIP_INT_MIN_def TRIP_INT_MAX_def)

definition ascii :: "string \<Rightarrow> bool" where
  "ascii s \<longleftrightarrow> (\<forall>c\<in>set s. (of_char c :: nat) < 128)"

lemma ascii_simps [simp]: "ascii []" "ascii (s @ t) \<longleftrightarrow> ascii s \<and> ascii t" "ascii (c # s) \<longleftrightarrow> (of_char c :: nat) < 128 \<and> ascii s"
  by (auto simp: ascii_def)

lemma ascii_digits [simp]: "ascii (pad_nat k n)" "ascii (pad2 x)"
proof -
  show "ascii (pad_nat k n)" for k n using pad_nat_digits [of k n] by (auto simp: ascii_def list_all_iff is_digit_def Let_def)
  then show "ascii (pad2 x)" by (simp add: pad2_def)
qed

lemma ascii_format_offset: "ascii (format_offset x)"
  by (simp add: format_offset_def Let_def del: pad_nat.simps)

lemma ascii_datetime: "ascii (datetime_isoformat t)"
  by (cases "dt_date t") (simp add: datetime_isoformat_def ascii_format_offset del: pad_nat.simps split: option.splits)

lemma ascii_replace: "ascii new \<Longrightarrow> ascii s \<Longrightarrow> ascii (py_replace old new s)"
proof (induction old new s rule: py_replace.induct)
  case (1 old new s)
  note step = py_replace.simps [of old new s]
  show ?case
  proof (cases "old = [] \<or> s = []")
    case True
    then show ?thesis using step 1 by simp
  next
    case False
    have sub: "ascii (drop (length old) s)" "ascii (tl s)" "(of_char (hd s) :: nat) < 128"
      using 1 False by (auto simp: ascii_def dest: in_set_dropD list.set_sel(2))
    show ?thesis
      using 1 False sub step by (cases "take (length old) s = old") simp_all
  qed
qed

lemma iso_ascii: "\<not> bad_text (iso t)"
  using ascii_replace [OF _ ascii_datetime, of "''Z''"] by (simp add: bad_text_def list_all_iff iso_def ascii_def)

lemma clean_iso: "clean fl (JStr (iso t))"
  using iso_ascii by (simp add: scalar_fault_def)

lemma clean_map: "clean fl p \<Longrightarrow> clean fl (JDict [(''summary_polyline'', p)])"
  by (simp add: bad_text_def)

lemma keys_ascii: "list_all (\<lambda>kv. \<not> bad_text (fst kv)) (to_traxj_dict a)"
  by (simp add: to_traxj_dict_def to_strava_dict_def bad_text_def)

lemma traxj_missing:
  "map_of (to_traxj_dict a) ''has_heartrate'' = None"
  "map_of (to_traxj_dict a) ''average_heartrate'' = None"
  "map_of (to_traxj_dict a) ''max_heartrate'' = None"
  "map_of (to_traxj_dict a) ''heartrate_opt_out'' = None"
  "map_of (to_traxj_dict a) ''display_hide_heartrate_option'' = None"
  by (simp_all add: to_traxj_dict_def to_strava_dict_def)

lemma fits_some: "map_of d k = Some v \<Longrightarrow> fits d k s = conforms s v"
  and fits_none: "map_of d k = None \<Longrightarrow> fits d k s"
  by (simp_all add: fits_def)

lemma read_strava_id:
  assumes "fits d ''id'' (OptionalField IntField)" "fits d ''strava_id'' (OptionalField StravaId)" "clean fl (JDict d)"
  shows "\<exists>v. strava_id_of d = Some v \<and> activity_id_or_none v = Some v \<and> conforms (OptionalField StravaId) v \<and> clean fl v"
proof (cases "map_of d ''strava_id''")
  case (Some v)
  have "activity_id_or_none v = Some v"
    using fits_id [OF fits_strava_id [OF assms(2)] assms(3)] Some by (simp add: dget_def)
  moreover have "conforms (OptionalField StravaId) v" using assms(2) Some by (simp add: fits_some del: conforms.simps)
  ultimately show ?thesis using Some clean_get [OF assms(3) Some] by (simp add: strava_id_of_def)
next
  case None
  have aid: "activity_id_or_none (dget d ''id'') = Some (dget d ''id'')" by (rule fits_id [OF assms(1,3)])
  have cl: "clean fl (dget d ''id'')" unfolding dget_dget_or by (rule clean_get_or [OF assms(3) clean_defaults(1)])
  have "conforms (OptionalField StravaId) v" if "positive_id v" for v
    using that by (auto simp: positive_id_def StravaId_def split: json.splits)
  then show ?thesis
    using None aid cl clean_defaults(1) [of fl] conforms_defaults(1) [of StravaId] by (auto simp: strava_id_of_def Let_def activity_id_or_none_def simp del: conforms.simps clean.simps)
qed

lemma written_activity:
  assumes c: "conforms ActivityModel (JDict d)" and cl: "clean True (JDict d)"
    and now: "valid_datetime now" "readable_offset (dt_offset now)"
  shows "\<exists>a. from_strava_api now d = Some a \<and> kept_activity a \<and> conforms ActivityModel (JDict (to_traxj_dict a)) \<and>
    clean True (JDict (to_traxj_dict a))"
proof -
  note f = activity_fits [OF c]
  have ids: "activity_id_or_none (dget d ''id'') = Some (dget d ''id'')"
    using fits_id [OF _ cl] f by blast
  obtain sd sdl where dates: "date_field now d ''start_date'' = Some sd" "date_field now d ''start_date_local'' = Some sdl"
    using f fits_date by blast
  obtain poly where poly: "polyline_field d = Some poly" "conforms (OptionalField StrField) poly" "poly = JNull \<or> truthy poly" "clean True poly"
    using f fits_polyline [of d True] cl by blast
  obtain ep where ep: "profile_field (dget d ''elevation_profile'') = Some ep" "conforms (OptionalField ElevationProfileModel) (profile_dict ep)"
    "clean True (profile_dict ep)"
    using f fits_profile [of d "''elevation_profile''" True] cl by blast
  obtain op where op: "profile_field (dget d ''original_elevation_profile'') = Some op" "conforms (OptionalField ElevationProfileModel) (profile_dict op)"
    "clean True (profile_dict op)"
    using f fits_profile [of d "''original_elevation_profile''" True] cl by blast
  obtain v where v: "strava_id_of d = Some v" "activity_id_or_none v = Some v" "conforms (OptionalField StravaId) v" "clean True v"
    using read_strava_id [OF _ _ cl] f by blast
  let ?a = "read_activity d (dget d ''id'') sd sdl poly ep v op"
  have read: "from_strava_api now d = Some ?a" by (simp add: from_strava_api_def ids dates poly ep op v)
  note vd = date_field_valid [OF dates(1) now] date_field_valid [OF dates(2) now]
  have gains: "gain_reading (dget_or d ''total_elevation_gain'' (JFloat (Fin 0))) = dget_or d ''total_elevation_gain'' (JFloat (Fin 0))"
    "gain_reading (dget_or d ''original_total_elevation_gain'' JNull) = dget_or d ''original_total_elevation_gain'' JNull"
    using f by (auto intro!: conforms_gain fits_get conforms_defaults)
  have elevs: "elevation_reading (dget_or d k JNull) = dget_or d k JNull"
    if "k \<in> {''elev_high'', ''elev_low'', ''original_elev_high'', ''original_elev_low''}" for k
  proof (rule conforms_elevation, rule fits_get [OF _ conforms_defaults(1)])
    show "fits d k (OptionalField ElevationF)" using f that by blast
  qed
  have kept: "kept_activity ?a"
    using ids v(2) vd poly(3) gains elevs by (simp add: kept_activity_def read_activity_fields dget_dget_or)
  have "conforms ActivityModel (JDict (to_traxj_dict ?a))"
    unfolding ActivityModel_def conforms_model
    using f v(3) ep(2) op(2) vd
    by (simp add: fits_some fits_none traxj_fields traxj_missing read_activity_fields gains elevs fits_get conforms_defaults
        conforms_iso conforms_map [OF poly(2)] dget_dget_or del: conforms.simps)
  moreover have "list_all (\<lambda>kv. clean True (snd kv)) (to_traxj_dict ?a)"
    using v(4) ep(3) op(3) clean_iso [of True sd] clean_iso [of True sdl] clean_map [OF poly(4)]
    by (simp add: to_traxj_dict_def to_strava_dict_def read_activity_fields gains elevs clean_get_or [OF cl] clean_defaults dget_dget_or
        del: clean.simps)
  then have "clean True (JDict (to_traxj_dict ?a))" using keys_ascii [of ?a] by (simp add: list_all_iff)
  ultimately show ?thesis using read kept by blast
qed

lemma activity_fault_None:
  assumes "documented v"
  shows "activity_fault v (JDict d) n = None \<longleftrightarrow> conforms ActivityModel (JDict d) \<and> clean True (JDict d)"
proof -
  have "bad_loop True [Key ''activities''] [[(Index n, JDict d)]] = first_bad True [Key ''activities''] [(Index n, JDict d)]"
    unfolding bad_loop_first by (simp del: first_bad.simps split: option.splits)
  then have "bad_loop True [Key ''activities''] [[(Index n, JDict d)]] = None \<longleftrightarrow> clean True (JDict d)"
    by (simp only: first_bad_None) (simp add: bad_key_def del: clean.simps)
  then show ?thesis using assms
    by (auto simp: activity_fault_def part_fault_def documented_def simp del: conforms.simps clean.simps bad_loop.simps split: option.splits)
qed

subsection \<open>Properties\<close>

text \<open>An activity a trip file may hold survives import and export. If the check finds no fault in it, reading it
  raises nothing, so the import never silently drops it; what is written from it is again without fault,
  and reading that gives the very same activity, whatever the clock says then.\<close>

theorem accepted_activity_survives:
  assumes "documented v" "activity_fault v (JDict d) n = None" "valid_datetime now" "readable_offset (dt_offset now)"
  shows "\<exists>a. from_strava_api now d = Some a \<and> activity_fault v (JDict (to_traxj_dict a)) m = None \<and>
    (\<forall>later. from_strava_api later (to_traxj_dict a) = Some a)"
proof -
  have "conforms ActivityModel (JDict d)" "clean True (JDict d)" using assms(2) activity_fault_None [OF assms(1)] by simp_all
  then obtain a where a: "from_strava_api now d = Some a" "kept_activity a" "conforms ActivityModel (JDict (to_traxj_dict a))"
    "clean True (JDict (to_traxj_dict a))"
    using written_activity assms(3,4) by blast
  then show ?thesis using kept_activity_reads_back activity_fault_None [OF assms(1)] by blast
qed

definition example_now :: pydatetime where
  "example_now = \<lparr>dt_date = (2024, 5, 1), dt_hour = 9, dt_minute = 30, dt_second = 0, dt_micro = 0, dt_offset = None\<rparr>"

theorem accepted_activity_survives_witness:
  "\<exists>a. from_strava_api example_now [(''id'', JInt 7), (''distance'', JInt 1200)] = Some a \<and>
     activity_fault strict_validator (JDict (to_traxj_dict a)) 0 = None \<and>
     from_strava_api example_now (to_traxj_dict a) = Some a"
proof -
  have c: "conforms ActivityModel (JDict [(''id'', JInt 7), (''distance'', JInt 1200)])"
    by (simp add: ActivityModel_def Distance_def is_number_def DISTANCE_MAX_M_def)
  have "clean True (JDict [(''id'', JInt 7), (''distance'', JInt 1200)])"
    by (simp add: bad_text_def scalar_fault_def TRIP_INT_MIN_def TRIP_INT_MAX_def)
  then have ok: "activity_fault strict_validator (JDict [(''id'', JInt 7), (''distance'', JInt 1200)]) 0 = None"
    using c activity_fault_None [OF strict_documented] by blast
  have "valid_datetime example_now" "readable_offset (dt_offset example_now)"
    by (simp_all add: example_now_def valid_datetime_def days_in_month_def valid_offset_def readable_offset_def)
  then show ?thesis using accepted_activity_survives [OF strict_documented ok, of example_now 0] by blast
qed

end
