(* ===== verification/ProjectIO.thy ===== *)
theory ProjectIO
  imports ActivityImport TripProject
begin

text \<open>
  Reading a trip file into a trip and writing it out again: \<open>src/project/project_io.py\<close>, with the dataclasses it
  fills (\<open>src/models/project.py\<close>, \<open>person.py\<close>, \<open>person_group.py\<close>) and the document the exports write
  (\<open>_traxj_document\<close> in \<open>api/project_transfer.py\<close>).

  The dataclasses check no type at run time and the import stores what the document holds, so the attributes are
  decoded values here (\<open>TripProject\<close> has the typed trip its operations work on). \<open>None\<close> stands for an exception
  other than \<open>InvalidProjectFile\<close>. The clock is read once.
\<close>

subsection \<open>The trip in memory\<close>

record ProjectFilterState =
  flt_start_date :: json
  flt_end_date :: json
  flt_activity_types :: json

record Person =
  per_id :: json
  per_project_id :: json
  per_name :: json
  per_email :: json
  per_phone :: json
  per_polarsteps :: json
  per_notes :: json
  per_avatar_photo :: json
  per_socials :: json
  per_nationalities :: json
  per_residence :: json
  per_group_id :: json

record PersonGroup =
  grp_id :: json
  grp_project_id :: json
  grp_name :: json
  grp_nationalities :: json
  grp_socials :: json

record Counter =
  ctr_name :: json
  ctr_start :: pyfloat

record FileItem =
  fi_type :: string
  fi_activity_id :: json
  fi_segment :: "ConnectingSegment option"
  fi_memory :: "Memory option"
  fi_journal :: "JournalEntry option"
  fi_encounter :: "Encounter option"

record FileDay =
  fd_difficulty :: json
  fd_sleeping :: json
  fd_weather :: json
  fd_journal :: json
  fd_tags :: json
  fd_counters :: "CounterEntry list"

record FileProject =
  fp_name :: json
  fp_version :: json
  fp_lock_version :: json
  fp_items :: "FileItem list"
  fp_filter_state :: ProjectFilterState
  fp_trip_start :: json
  fp_trip_end :: json
  fp_day_meta :: "(string \<times> FileDay) list"
  fp_sleeping_options :: "json list"
  fp_sleeping_option_groups :: "(string \<times> json) list"
  fp_counters :: "Counter list"
  fp_activities :: "ApiActivity list"
  fp_people :: "Person list"
  fp_groups :: "PersonGroup list"
  fp_track_color :: json
  fp_track_secondary_color :: json
  fp_track_width :: pyfloat
  fp_alternating_track_colors :: json
  fp_elevation_chart_color :: json
  fp_elevation_chart_show_line :: json
  fp_color_by_type :: json
  fp_type_styles :: "(string \<times> json) list"
  fp_languages :: "json list"
  fp_settings_carried :: "string set"
  fp_activity_map :: "(json \<times> ApiActivity) list"

definition DEFAULT_SLEEPING_OPTIONS :: "json list" where
  "DEFAULT_SLEEPING_OPTIONS =
     map JStr [''Camping'', ''Bivouac'', ''Shelter'', ''Pension/Guesthouse'', ''Hotel'', ''Apartment'']"

definition SETTINGS :: "string list" where
  "SETTINGS =
     [''trip_start'', ''trip_end'', ''sleeping_option_groups'', ''counters'', ''track_color'', ''track_secondary_color'',
      ''track_width'', ''alternating_track_colors'', ''elevation_chart_color'', ''elevation_chart_show_line'',
      ''color_by_type'', ''type_styles'', ''languages'']"

text \<open>The defaults of \<open>Project(name="")\<close> the import falls back to.\<close>

definition DEFAULT_TRACK_COLOR :: json where "DEFAULT_TRACK_COLOR = JStr ''#F97316''"
definition DEFAULT_TRACK_WIDTH :: json where "DEFAULT_TRACK_WIDTH = JFloat (Fin (5 / 2))"

subsection \<open>People and groups\<close>

definition person_to_dict :: "Person \<Rightarrow> (string \<times> json) list" where
  "person_to_dict p =
     [(''id'', per_id p), (''name'', per_name p), (''email'', per_email p), (''phone'', per_phone p),
      (''polarsteps'', per_polarsteps p), (''notes'', per_notes p), (''avatar_photo'', per_avatar_photo p),
      (''socials'', per_socials p), (''nationalities'', per_nationalities p), (''residence'', per_residence p),
      (''group_id'', per_group_id p)]"

definition person_from_dict :: "(string \<times> json) list \<Rightarrow> Person" where
  "person_from_dict d =
     \<lparr>per_id = dget d ''id'', per_project_id = JNull, per_name = dget d ''name'', per_email = dget d ''email'',
      per_phone = dget d ''phone'', per_polarsteps = dget d ''polarsteps'', per_notes = dget d ''notes'',
      per_avatar_photo = dget d ''avatar_photo'', per_socials = json_or (dget d ''socials'') (JList []),
      per_nationalities = json_or (dget d ''nationalities'') (JList []), per_residence = dget d ''residence'',
      per_group_id = dget d ''group_id''\<rparr>"

definition group_to_dict :: "PersonGroup \<Rightarrow> (string \<times> json) list" where
  "group_to_dict g =
     [(''id'', grp_id g), (''name'', grp_name g), (''nationalities'', grp_nationalities g), (''socials'', grp_socials g)]"

definition group_from_dict :: "(string \<times> json) list \<Rightarrow> PersonGroup" where
  "group_from_dict d =
     \<lparr>grp_id = dget d ''id'', grp_project_id = JNull, grp_name = dget d ''name'',
      grp_nationalities = json_or (dget d ''nationalities'') (JList []),
      grp_socials = json_or (dget d ''socials'') (JList [])\<rparr>"

text \<open>The elements of a list, each read as a dict: \<open>None\<close> when one is not.\<close>

definition read_dicts :: "((string \<times> json) list \<Rightarrow> 'a option) \<Rightarrow> json \<Rightarrow> 'a list option" where
  "read_dicts f v =
     (case v of JList xs \<Rightarrow> those (map (\<lambda>x. case x of JDict d \<Rightarrow> f d | _ \<Rightarrow> None) xs) | _ \<Rightarrow> None)"

subsection \<open>Items\<close>

definition file_item :: "string \<Rightarrow> FileItem" where
  "file_item kind = \<lparr>fi_type = kind, fi_activity_id = JNull, fi_segment = None, fi_memory = None, fi_journal = None,
                     fi_encounter = None\<rparr>"

text \<open>An item without a segment where one is to be written raises.\<close>

definition serialise_item :: "FileItem \<Rightarrow> (string \<times> json) list option" where
  "serialise_item i =
     map_option (Cons (''item_type'', JStr (fi_type i)))
       (if fi_type i = ''activity'' then Some [(''activity_id'', fi_activity_id i)]
        else
          (case (fi_type i = ''memory'', fi_memory i) of
             (True, Some m) \<Rightarrow> Some [(''memory'', JDict (memory_to_dict m))]
           | _ \<Rightarrow>
          (case (fi_type i = ''journal'', fi_journal i) of
             (True, Some j) \<Rightarrow> Some [(''journal'', JDict (journal_to_dict j))]
           | _ \<Rightarrow>
          (case (fi_type i = ''encounter'', fi_encounter i) of
             (True, Some e) \<Rightarrow> Some [(''encounter'', JDict (encounter_to_dict e))]
           | _ \<Rightarrow> map_option (\<lambda>s. [(''segment'', JDict (segment_to_dict s))]) (fi_segment i)))))"

text \<open>\<open>d.get(k, {})\<close> handed to a \<open>from_dict\<close>, which needs a dict.\<close>

definition sub_dict :: "(string \<times> json) list \<Rightarrow> string \<Rightarrow> (string \<times> json) list option" where
  "sub_dict d k = (case dget_or d k (JDict []) of JDict e \<Rightarrow> Some e | _ \<Rightarrow> None)"

definition deserialise_item :: "(string \<times> json) list \<Rightarrow> FileItem option" where
  "deserialise_item d =
     (let kind = dget d ''item_type'' in
      if kind = JStr ''activity'' then Some ((file_item ''activity'')\<lparr>fi_activity_id := dget d ''activity_id''\<rparr>)
      else if is_container kind then None
      else if kind = JStr ''memory'' then
        map_option (\<lambda>m. (file_item ''memory'')\<lparr>fi_memory := Some (memory_from_dict m)\<rparr>) (sub_dict d ''memory'')
      else if kind = JStr ''journal'' then
        map_option (\<lambda>j. (file_item ''journal'')\<lparr>fi_journal := Some (journal_from_dict j)\<rparr>) (sub_dict d ''journal'')
      else if kind = JStr ''encounter'' then
        map_option (\<lambda>e. (file_item ''encounter'')\<lparr>fi_encounter := Some (encounter_from_dict e)\<rparr>) (sub_dict d ''encounter'')
      else
        do { s \<leftarrow> sub_dict d ''segment''; seg \<leftarrow> segment_from_dict s;
             Some ((file_item ''segment'')\<lparr>fi_segment := Some seg\<rparr>) })"

subsection \<open>Days and counters\<close>

text \<open>Notes that are not \<open>None\<close>, then the tags.\<close>

definition day_notes :: "FileDay \<Rightarrow> (string \<times> json) list" where
  "day_notes dm =
     filter (\<lambda>kv. snd kv \<noteq> JNull)
       [(''difficulty'', fd_difficulty dm), (''sleeping'', fd_sleeping dm), (''weather'', fd_weather dm),
        (''journal'', fd_journal dm)] @
     (if fd_tags dm \<noteq> JNull then [(''tags'', fd_tags dm)] else [])"

definition day_to_dict :: "FileDay \<Rightarrow> (string \<times> json) list" where
  "day_to_dict dm =
     day_notes dm @ (if fd_counters dm \<noteq> [] then [(''counters'', day_counters_to_json (fd_counters dm))] else [])"

definition day_from_dict :: "(string \<times> json) list \<Rightarrow> FileDay option" where
  "day_from_dict d =
     map_option (\<lambda>cs.
        \<lparr>fd_difficulty = dget d ''difficulty'', fd_sleeping = dget d ''sleeping'', fd_weather = dget d ''weather'',
         fd_journal = dget d ''journal'', fd_tags = dget d ''tags'', fd_counters = cs\<rparr>)
       (day_counters_from_json (dget d ''counters''))"

definition days_from_json :: "json \<Rightarrow> (string \<times> FileDay) list option" where
  "days_from_json v =
     do { days \<leftarrow> as_dict v;
          those (map (\<lambda>(k, day). case day of JDict d \<Rightarrow> map_option (Pair k) (day_from_dict d) | _ \<Rightarrow> None) days) }"

definition counter_from_dict :: "(string \<times> json) list \<Rightarrow> Counter option" where
  "counter_from_dict d =
     (case (map_of d ''name'', to_float (dget_or d ''start'' (JInt 0))) of
        (Some name, Float f) \<Rightarrow> Some \<lparr>ctr_name = name, ctr_start = f\<rparr>
      | _ \<Rightarrow> None)"

definition counter_to_dict :: "Counter \<Rightarrow> json" where
  "counter_to_dict c = JDict [(''name'', ctr_name c), (''start'', JFloat (ctr_start c))]"

subsection \<open>Reading a document\<close>

definition filter_state_from :: "(string \<times> json) list \<Rightarrow> ProjectFilterState option" where
  "filter_state_from data =
     map_option (\<lambda>d. \<lparr>flt_start_date = dget d ''start_date'', flt_end_date = dget d ''end_date'',
                      flt_activity_types = dget d ''activity_types''\<rparr>)
       (as_dict (dget data ''filter_state''))"

definition sleeping_options_from :: "(string \<times> json) list \<Rightarrow> json list" where
  "sleeping_options_from data =
     (case dget data ''sleeping_options'' of JList (x # xs) \<Rightarrow> x # xs | _ \<Rightarrow> DEFAULT_SLEEPING_OPTIONS)"

definition flag_or :: "(string \<times> json) list \<Rightarrow> string \<Rightarrow> json \<Rightarrow> json" where
  "flag_or data key dflt = (if dget data key = JNull then dflt else dget data key)"

text \<open>\<open>float(...)\<close>.\<close>

definition float_of :: "json \<Rightarrow> pyfloat option" where
  "float_of v = (case to_float v of Float f \<Rightarrow> Some f | _ \<Rightarrow> None)"

text \<open>The activities of a document that has some, read one by one; one that cannot be read is dropped.\<close>

definition activities_from :: "pydatetime \<Rightarrow> (string \<times> json) list \<Rightarrow> ApiActivity list option" where
  "activities_from now data =
     (case dget_or data ''activities'' (JList []) of
        JList xs \<Rightarrow> Some (fst (parse_activities_or_log now xs))
      | _ \<Rightarrow> None)"

definition activity_map :: "ApiActivity list \<Rightarrow> (json \<times> ApiActivity) list" where
  "activity_map acts = foldl (\<lambda>m a. if act_id a = JNull then m else AList.update (act_id a) a m) [] acts"

text \<open>The trip of a document \<open>check\<close> found no fault in. \<open>dict\<close> and \<open>list\<close> of a value of another type, which that
  check refuses, count as raising.\<close>

definition build_project :: "pydatetime \<Rightarrow> (string \<times> json) list \<Rightarrow> FileProject option" where
  "build_project now data =
     do { filter_state \<leftarrow> filter_state_from data;
          activities \<leftarrow> activities_from now data;
          items \<leftarrow> read_dicts deserialise_item (dget data ''items'');
          day_meta \<leftarrow> days_from_json (dget data ''day_meta'');
          people \<leftarrow> read_dicts (\<lambda>d. Some (person_from_dict d)) (dget_or data ''people'' (JList []));
          groups \<leftarrow> read_dicts (\<lambda>d. Some (group_from_dict d)) (dget_or data ''groups'' (JList []));
          sleeping_groups \<leftarrow> as_dict (dget data ''sleeping_option_groups'');
          counters \<leftarrow> read_dicts counter_from_dict (json_or (dget data ''counters'') (JList []));
          width \<leftarrow> float_of (json_or (dget data ''track_width'') DEFAULT_TRACK_WIDTH);
          styles \<leftarrow> as_dict (dget data ''type_styles'');
          languages \<leftarrow> as_list (dget data ''languages'');
          Some \<lparr>fp_name = dget_or data ''name'' (JStr ''Untitled''), fp_version = dget_or data ''version'' (JInt 1),
                fp_lock_version = JInt 0, fp_items = items, fp_filter_state = filter_state,
                fp_trip_start = json_or (dget data ''trip_start'') JNull,
                fp_trip_end = json_or (dget data ''trip_end'') JNull, fp_day_meta = day_meta,
                fp_sleeping_options = sleeping_options_from data, fp_sleeping_option_groups = sleeping_groups,
                fp_counters = counters, fp_activities = activities, fp_people = people, fp_groups = groups,
                fp_track_color = json_or (dget data ''track_color'') DEFAULT_TRACK_COLOR,
                fp_track_secondary_color = dget data ''track_secondary_color'', fp_track_width = width,
                fp_alternating_track_colors = flag_or data ''alternating_track_colors'' (JBool False),
                fp_elevation_chart_color = dget data ''elevation_chart_color'',
                fp_elevation_chart_show_line = flag_or data ''elevation_chart_show_line'' (JBool True),
                fp_color_by_type = flag_or data ''color_by_type'' (JBool False), fp_type_styles = styles,
                fp_languages = languages,
                fp_settings_carried = set (filter (\<lambda>k. map_of data k \<noteq> None) SETTINGS),
                fp_activity_map = activity_map activities\<rparr> }"

text \<open>What an import answers: the refusals of \<open>InvalidProjectFile\<close>, or another exception. The three the parser can
  give (a syntax error at its line and column, a number too long, nesting too deep) are one here.\<close>

datatype refusal = NotText | NotJson | NoTrip | Fault string
datatype import_error = InvalidProjectFile refusal | Raised

definition from_dict ::
  "validator \<Rightarrow> (rat \<Rightarrow> rat) \<Rightarrow> pydatetime \<Rightarrow> json \<Rightarrow> (import_error, FileProject) result" where
  "from_dict v sq now data =
     (case data of
        JDict d \<Rightarrow>
          if map_of d ''items'' = None then Inl (InvalidProjectFile NoTrip)
          else
            (case check v sq d of
               Inl e \<Rightarrow> Inl Raised
             | Inr (Some m, doc) \<Rightarrow> Inl (InvalidProjectFile (Fault m))
             | Inr (None, doc) \<Rightarrow> (case build_project now doc of None \<Rightarrow> Inl Raised | Some p \<Rightarrow> Inr p))
      | _ \<Rightarrow> Inl (InvalidProjectFile NoTrip))"

text \<open>The bytes of the character a text starts with, as UTF-8 has it: no overlong form, no surrogate, nothing past
  \<open>U+10FFFF\<close>.\<close>

definition is_trail :: "nat \<Rightarrow> bool" where "is_trail n \<longleftrightarrow> 128 \<le> n \<and> n \<le> 191"

definition utf8_width :: "nat list \<Rightarrow> nat option" where
  "utf8_width s =
     (case s of
        a # b # c # d # _ \<Rightarrow>
          if a < 128 then Some 1
          else if 194 \<le> a \<and> a \<le> 223 \<and> is_trail b then Some 2
          else if 224 \<le> a \<and> a \<le> 239 \<and> is_trail b \<and> is_trail c \<and> (a = 224 \<longrightarrow> 160 \<le> b) \<and> (a = 237 \<longrightarrow> b \<le> 159) then Some 3
          else if 240 \<le> a \<and> a \<le> 244 \<and> is_trail b \<and> is_trail c \<and> is_trail d \<and> (a = 240 \<longrightarrow> 144 \<le> b) \<and> (a = 244 \<longrightarrow> b \<le> 143)
          then Some 4 else None
      | _ \<Rightarrow> None)"

text \<open>Zeros after the end stand for nothing: no character but the first takes one.\<close>

function utf8_valid :: "nat list \<Rightarrow> bool" where
  "utf8_valid s =
     (if s = [] then True
      else case utf8_width (s @ [0, 0, 0]) of None \<Rightarrow> False | Some n \<Rightarrow> utf8_valid (drop (max 1 n) s))"
  by pat_completeness auto
termination
  by (relation "measure length") auto

declare utf8_valid.simps [simp del]

definition BOM :: string where "BOM = [CHR 0xEF, CHR 0xBB, CHR 0xBF]"

definition from_bytes ::
  "validator \<Rightarrow> (rat \<Rightarrow> rat) \<Rightarrow> pydatetime \<Rightarrow> string \<Rightarrow> (import_error, FileProject) result" where
  "from_bytes v sq now raw =
     (if \<not> utf8_valid (map of_char raw) then Inl (InvalidProjectFile NotText)
      else
        (case json_loads True (if take 3 raw = BOM then drop 3 raw else raw) of
           None \<Rightarrow> Inl (InvalidProjectFile NotJson)
         | Some data \<Rightarrow> from_dict v sq now data))"

subsection \<open>Writing a document\<close>

text \<open>\<open>_ep_pairs\<close>: the profile as pairs, or its low-resolution copy.\<close>

definition ep_pairs :: "ApiActivity \<Rightarrow> json option" where
  "ep_pairs a =
     (case (if act_elevation_profile a = None then act_elevation_profile_low_res a else act_elevation_profile a) of
        None \<Rightarrow> Some JNull
      | Some (JList ds, JList es) \<Rightarrow> Some (JList (map (\<lambda>(d, e). JList [d, e]) (zip ds es)))
      | Some _ \<Rightarrow> None)"

definition activity_out :: "ApiActivity \<Rightarrow> json option" where
  "activity_out a =
     map_option (\<lambda>pairs.
        let d1 = dict_put ''elevation_profile'' pairs (to_strava_dict a);
            d2 = (if act_plain_fields a \<noteq> JNull then dict_put ''plain_fields'' (act_plain_fields a) d1 else d1);
            d3 = dict_put ''has_gain_snapshot'' (act_has_gain_snapshot a) d2 in
        JDict (if act_shared_with_others a \<noteq> JNull then dict_put ''shared_with_others'' (act_shared_with_others a) d3 else d3))
       (ep_pairs a)"

definition filter_state_to :: "ProjectFilterState \<Rightarrow> json" where
  "filter_state_to f =
     JDict [(''start_date'', flt_start_date f), (''end_date'', flt_end_date f), (''activity_types'', flt_activity_types f)]"

definition items_out :: "FileProject \<Rightarrow> json list option" where
  "items_out p = map_option (map JDict) (those (map serialise_item (fp_items p)))"

definition to_dict :: "FileProject \<Rightarrow> (string \<times> json) list option" where
  "to_dict p =
     do { activities \<leftarrow> those (map activity_out (fp_activities p));
          items \<leftarrow> items_out p;
          Some
            [(''version'', fp_version p), (''lock_version'', fp_lock_version p), (''name'', fp_name p),
             (''trip_start'', fp_trip_start p), (''trip_end'', fp_trip_end p),
             (''filter_state'', filter_state_to (fp_filter_state p)), (''items'', JList items),
             (''activities'', JList activities),
             (''people'', JList (map (JDict \<circ> person_to_dict) (fp_people p))),
             (''groups'', JList (map (JDict \<circ> group_to_dict) (fp_groups p))),
             (''day_meta'', JDict (map (\<lambda>(dk, dm). (dk, JDict (day_to_dict dm))) (fp_day_meta p))),
             (''sleeping_options'', JList (fp_sleeping_options p)),
             (''sleeping_option_groups'', JDict (fp_sleeping_option_groups p)),
             (''counters'', JList (map counter_to_dict (fp_counters p))),
             (''track_color'', fp_track_color p), (''track_secondary_color'', fp_track_secondary_color p),
             (''track_width'', JFloat (fp_track_width p)),
             (''alternating_track_colors'', fp_alternating_track_colors p),
             (''elevation_chart_color'', fp_elevation_chart_color p),
             (''elevation_chart_show_line'', fp_elevation_chart_show_line p),
             (''color_by_type'', fp_color_by_type p), (''type_styles'', JDict (fp_type_styles p)),
             (''languages'', JList (fp_languages p))] }"

text \<open>The document both exports write: the activities in the file's own form.\<close>

definition traxj_document :: "FileProject \<Rightarrow> (string \<times> json) list option" where
  "traxj_document p =
     map_option (dict_put ''activities'' (JList (map (JDict \<circ> to_traxj_dict) (fp_activities p)))) (to_dict p)"

text \<open>The document \<open>ProjectIO.save\<close> writes.\<close>

definition save_document :: "FileProject \<Rightarrow> (string \<times> json) list option" where
  "save_document p =
     map_option (\<lambda>items.
            [(''version'', fp_version p), (''name'', fp_name p), (''trip_start'', fp_trip_start p),
             (''trip_end'', fp_trip_end p), (''filter_state'', filter_state_to (fp_filter_state p)),
             (''items'', JList items), (''activities'', JList (map (JDict \<circ> to_traxj_dict) (fp_activities p))),
             (''people'', JList (map (JDict \<circ> person_to_dict) (fp_people p))),
             (''groups'', JList (map (JDict \<circ> group_to_dict) (fp_groups p))),
             (''day_meta'', JDict (map (\<lambda>(dk, dm). (dk, JDict (day_notes dm))) (fp_day_meta p))),
             (''sleeping_options'', JList (fp_sleeping_options p))])
       (items_out p)"

end
