(* ===== verification/TripImport.thy ===== *)
theory TripImport
  imports ProjectIO
begin

text \<open>
  What the import promises: a document without fault is read whole, and the document an export writes of the trip
  that was read is again without fault, is left alone by the repairs of old files, and reads as the very same trip.
  A section per part of the document, then the two properties.
\<close>

subsection \<open>Dicts\<close>

lemma fits_list [simp]: "fits [] k s" "fits ((k', x) # d) k s \<longleftrightarrow> (if k' = k then conforms s x else fits d k s)"
  by (simp_all add: fits_def)

lemma clean_Cons: "clean fl (JDict ((k, x) # d)) \<longleftrightarrow> \<not> bad_text k \<and> clean fl x \<and> clean fl (JDict d)"
  and clean_Nil: "clean fl (JDict [])"
  by simp_all

lemma conforms_json_or: "conforms (OptionalField s) x \<Longrightarrow> conforms s y \<Longrightarrow> conforms s (json_or x y)"
  by (auto simp: json_or_def)

lemma conforms_optional: "conforms s x \<Longrightarrow> conforms (OptionalField s) x"
  by simp

lemma conforms_list_Nil: "conforms (ListOf s) (JList [])"
  by simp

lemma clean_json_or: "clean fl x \<Longrightarrow> clean fl y \<Longrightarrow> clean fl (json_or x y)"
  by (simp add: json_or_def)

lemma clean_list_Nil: "clean fl (JList [])"
  by simp

lemma json_or_idem [simp]: "json_or (json_or x y) y = json_or x y"
  by (simp add: json_or_def)

lemma clean_weaken: "clean True x \<Longrightarrow> clean False x"
proof (induction x)
  case (JDict d)
  then have "clean False (snd kv)" if "kv \<in> set d" for kv using that by (cases kv) (auto simp: list_all_iff)
  then show ?case using JDict.prems by (simp add: list_all_iff)
qed (auto simp: list_all_iff scalar_fault_def)

lemma fits_get_opt: "fits d k (OptionalField s) \<Longrightarrow> conforms (OptionalField s) (dget_or d k JNull)"
  by (rule fits_get) simp_all

lemmas written_record = conforms_defaults fits_get fits_get_opt dget_dget_or conforms_json_or conforms_list_Nil conforms_optional

lemmas clean_record = clean_Cons clean_Nil clean_get_or clean_json_or clean_defaults clean_list_Nil dget_dget_or

lemma conforms_photo: "conforms PhotoName JNull" "conforms RoutePolyline JNull"
  by (simp_all add: PhotoName_def photo_name_fault_def RoutePolyline_def route_polyline_fault_def)

lemma conforms_figures:
  "conforms Lat (JFloat (Fin 0))" "conforms Lon (JFloat (Fin 0))" "conforms IntField (JInt n)" "conforms AnyField x"
  by (simp_all add: Lat_def Lon_def is_number_def)

lemma clean_words:
  "clean fl (JStr ''auto'')" "clean fl (JStr ''start_of_day'')" "clean fl (JStr ''flight'')" "clean fl (JStr ''idle'')"
  "clean fl (JStr ''great_circle'')" "clean fl (JStr ''activity'')" "clean fl (JStr ''memory'')" "clean fl (JStr ''journal'')"
  "clean fl (JStr ''encounter'')" "clean fl (JStr ''segment'')" "clean fl (JStr ''Untitled'')"
  "clean fl (JInt 1)"
  by (simp_all add: scalar_fault_def bad_text_def TRIP_INT_MIN_def TRIP_INT_MAX_def)

lemma ascii_key: "ascii k \<Longrightarrow> \<not> bad_text k"
  by (simp add: ascii_def bad_text_def list_all_iff)

subsection \<open>People and groups\<close>

lemma written_person:
  assumes "conforms PersonModel (JDict d)"
  shows "conforms PersonModel (JDict (person_to_dict (person_from_dict d)))"
  using assms unfolding PersonModel_def conforms_model
  by (simp add: person_to_dict_def person_from_dict_def written_record conforms_photo del: conforms.simps)

lemma clean_person: "clean fl (JDict d) \<Longrightarrow> clean fl (JDict (person_to_dict (person_from_dict d)))"
  by (simp add: person_to_dict_def person_from_dict_def clean_record ascii_key del: clean.simps)

lemma read_person: "person_from_dict (person_to_dict (person_from_dict d)) = person_from_dict d"
  by (simp add: person_to_dict_def person_from_dict_def)

lemma written_group:
  assumes "conforms GroupModel (JDict d)"
  shows "conforms GroupModel (JDict (group_to_dict (group_from_dict d)))"
  using assms unfolding GroupModel_def conforms_model
  by (simp add: group_to_dict_def group_from_dict_def written_record del: conforms.simps)

lemma clean_group: "clean fl (JDict d) \<Longrightarrow> clean fl (JDict (group_to_dict (group_from_dict d)))"
  by (simp add: group_to_dict_def group_from_dict_def clean_record ascii_key del: clean.simps)

lemma read_group: "group_from_dict (group_to_dict (group_from_dict d)) = group_from_dict d"
  by (simp add: group_to_dict_def group_from_dict_def)

subsection \<open>Memories, journal entries, encounters, segments\<close>

lemma written_memory:
  assumes "conforms MemoryModel (JDict d)"
  shows "conforms MemoryModel (JDict (memory_to_dict (memory_from_dict d)))"
  using assms unfolding MemoryModel_def conforms_model
  by (simp add: memory_to_dict_def memory_from_dict_def written_record conforms_figures del: conforms.simps)

lemma clean_memory: "clean fl (JDict d) \<Longrightarrow> clean fl (JDict (memory_to_dict (memory_from_dict d)))"
  by (simp add: memory_to_dict_def memory_from_dict_def clean_record clean_words ascii_key del: clean.simps)

lemma read_memory: "memory_from_dict (memory_to_dict (memory_from_dict d)) = memory_from_dict d"
  by (simp add: memory_to_dict_def memory_from_dict_def)

lemma written_journal:
  assumes "conforms JournalModel (JDict d)"
  shows "conforms JournalModel (JDict (journal_to_dict (journal_from_dict d)))"
  using assms unfolding JournalModel_def conforms_model
  by (simp add: journal_to_dict_def journal_from_dict_def written_record conforms_figures del: conforms.simps)

lemma clean_journal: "clean fl (JDict d) \<Longrightarrow> clean fl (JDict (journal_to_dict (journal_from_dict d)))"
  by (simp add: journal_to_dict_def journal_from_dict_def clean_record clean_words ascii_key del: clean.simps)

lemma read_journal: "journal_from_dict (journal_to_dict (journal_from_dict d)) = journal_from_dict d"
  by (simp add: journal_to_dict_def journal_from_dict_def)

lemma written_encounter:
  assumes "conforms EncounterModel (JDict d)"
  shows "conforms EncounterModel (JDict (encounter_to_dict (encounter_from_dict d)))"
  using assms unfolding EncounterModel_def conforms_model
  by (simp add: encounter_to_dict_def encounter_from_dict_def written_record conforms_figures del: conforms.simps)

lemma clean_encounter: "clean fl (JDict d) \<Longrightarrow> clean fl (JDict (encounter_to_dict (encounter_from_dict d)))"
  by (simp add: encounter_to_dict_def encounter_from_dict_def clean_record clean_words ascii_key del: clean.simps)

lemma read_encounter: "encounter_from_dict (encounter_to_dict (encounter_from_dict d)) = encounter_from_dict d"
  by (simp add: encounter_to_dict_def encounter_from_dict_def)

lemma endpoint_read:
  assumes "fits d k EndpointModel"
  shows "\<exists>p. endpoint_from (dget_or d k (JDict [])) = Some p \<and> conforms EndpointModel (endpoint_to_dict p) \<and>
    (clean fl (JDict d) \<longrightarrow> clean fl (endpoint_to_dict p))"
proof -
  have "conforms EndpointModel (dget_or d k (JDict []))"
    by (rule fits_get [OF assms]) (simp add: EndpointModel_def)
  then obtain e where e: "dget_or d k (JDict []) = JDict e" "conforms EndpointModel (JDict e)"
    by (auto simp: EndpointModel_def split: json.splits)
  have "conforms EndpointModel (endpoint_to_dict \<lparr>pt_lat = dget_or e ''lat'' (JFloat (Fin 0)), pt_lon = dget_or e ''lon'' (JFloat (Fin 0)),
      pt_source = dget_or e ''source'' (JStr ''auto'')\<rparr>)"
    using e(2) unfolding EndpointModel_def conforms_model endpoint_to_dict_def
    by (simp add: written_record conforms_figures del: conforms.simps)
  moreover have "clean fl (endpoint_to_dict \<lparr>pt_lat = dget_or e ''lat'' (JFloat (Fin 0)), pt_lon = dget_or e ''lon'' (JFloat (Fin 0)),
      pt_source = dget_or e ''source'' (JStr ''auto'')\<rparr>)" if "clean fl (JDict d)"
  proof -
    have "clean fl (JDict e)" using clean_get_or [OF that clean_Nil, of k] e(1) by (simp del: clean.simps)
    then show ?thesis by (simp add: endpoint_to_dict_def clean_record clean_words ascii_key del: clean.simps)
  qed
  ultimately show ?thesis using e(1) by (simp add: endpoint_from_def del: conforms.simps clean.simps)
qed

lemma written_segment:
  assumes "conforms SegmentModel (JDict d)"
  shows "\<exists>s. segment_from_dict d = Some s \<and> conforms SegmentModel (JDict (segment_to_dict s)) \<and>
    (clean fl (JDict d) \<longrightarrow> clean fl (JDict (segment_to_dict s))) \<and> segment_from_dict (segment_to_dict s) = Some s"
proof -
  have ends: "fits d ''start'' EndpointModel" "fits d ''end'' EndpointModel"
    using assms unfolding SegmentModel_def conforms_model by simp_all
  obtain p where p: "endpoint_from (dget_or d ''start'' (JDict [])) = Some p" "conforms EndpointModel (endpoint_to_dict p)"
    "clean fl (JDict d) \<longrightarrow> clean fl (endpoint_to_dict p)"
    using endpoint_read [OF ends(1)] by blast
  obtain q where q: "endpoint_from (dget_or d ''end'' (JDict [])) = Some q" "conforms EndpointModel (endpoint_to_dict q)"
    "clean fl (JDict d) \<longrightarrow> clean fl (endpoint_to_dict q)"
    using endpoint_read [OF ends(2)] by blast
  obtain s where s: "segment_from_dict d = Some s" by (simp add: segment_from_dict_def p(1) q(1))
  have "conforms SegmentModel (JDict (segment_to_dict s))"
    using s p(2) q(2) assms unfolding SegmentModel_def conforms_model segment_from_dict_def p(1) q(1)
    by (auto simp: segment_to_dict_def written_record conforms_figures conforms_photo simp del: conforms.simps)
  moreover have "clean fl (JDict (segment_to_dict s))" if "clean fl (JDict d)"
    using s p(3) q(3) that unfolding segment_from_dict_def p(1) q(1)
    by (auto simp: segment_to_dict_def clean_record clean_words ascii_key simp del: clean.simps)
  ultimately show ?thesis using s by (simp add: segment_from_dict_def segment_to_dict_def endpoint_roundtrip del: conforms.simps clean.simps)
qed

subsection \<open>Items\<close>

definition item_schema :: "json \<Rightarrow> schema" where
  "item_schema item =
     (case (case item of JDict d \<Rightarrow> dget d ''item_type'' | _ \<Rightarrow> JNull) of
        JStr k \<Rightarrow> (case map_of ITEMS k of Some m \<Rightarrow> m | None \<Rightarrow> SegmentItemModel)
      | _ \<Rightarrow> SegmentItemModel)"

lemma item_fault_schema: "item_fault v n item = map_option (\<lambda>e. described e [Key ''items'', Index n]) (v (item_schema item) item)"
  by (simp add: item_fault_def item_schema_def Let_def)

lemma items_fault_None:
  assumes "documented v"
  shows "items_fault v n xs = None \<longleftrightarrow> (\<forall>x\<in>set xs. conforms (item_schema x) x)"
proof -
  have c: "conforms s w \<longleftrightarrow> v s w = None" for s w using assms unfolding documented_def by blast
  show ?thesis unfolding c by (induction v n xs rule: items_fault.induct) (auto simp: item_fault_schema split: option.splits)
qed

lemmas item_models = ActivityItemModel_def MemoryItemModel_def JournalItemModel_def EncounterItemModel_def SegmentItemModel_def

lemma item_type_text:
  assumes "conforms (item_schema (JDict d)) (JDict d)"
  shows "dget d ''item_type'' = JNull \<or> (\<exists>k. dget d ''item_type'' = JStr k)"
proof -
  have "item_schema (JDict d) \<in> set [ActivityItemModel, MemoryItemModel, JournalItemModel, EncounterItemModel, SegmentItemModel]"
    by (auto simp: item_schema_def ITEMS_def split: json.splits option.splits)
  then have "fits d ''item_type'' (OptionalField StrField)"
    using assms by (auto simp: item_models conforms_model simp del: conforms.simps)
  then show ?thesis by (auto simp: fits_def dget_def split: option.splits json.splits)
qed

text \<open>An item that keeps what it is when written.\<close>

definition item_kept :: "bool \<Rightarrow> (string \<times> json) list \<Rightarrow> FileItem \<Rightarrow> bool" where
  "item_kept fl d i \<longleftrightarrow>
     deserialise_item d = Some i \<and>
     (\<exists>d'. serialise_item i = Some d' \<and> conforms (item_schema (JDict d')) (JDict d') \<and>
        (clean fl (JDict d) \<longrightarrow> clean fl (JDict d')) \<and> deserialise_item d' = Some i)"

lemma sub_dict_fits:
  assumes "fits d k (Model fs)" "conforms (Model fs) (JDict [])"
  obtains e where "sub_dict d k = Some e" "conforms (Model fs) (JDict e)" "\<And>fl. clean fl (JDict d) \<Longrightarrow> clean fl (JDict e)"
proof -
  have "conforms (Model fs) (dget_or d k (JDict []))" by (rule fits_get [OF assms])
  then obtain e where e: "dget_or d k (JDict []) = JDict e" "conforms (Model fs) (JDict e)"
    by (auto split: json.splits)
  have "clean fl (JDict e)" if "clean fl (JDict d)" for fl
    using clean_get_or [OF that clean_Nil, of k] e(1) by (simp del: clean.simps)
  then show ?thesis using that e by (simp add: sub_dict_def)
qed

lemma empty_models: "conforms MemoryModel (JDict [])" "conforms JournalModel (JDict [])" "conforms EncounterModel (JDict [])"
  "conforms SegmentModel (JDict [])"
  by (simp_all add: MemoryModel_def JournalModel_def EncounterModel_def SegmentModel_def)

lemma kept_entry:
  assumes "dget d ''item_type'' = JStr kind" "kind \<in> {''memory'', ''journal'', ''encounter''}"
    and c: "conforms (item_schema (JDict d)) (JDict d)"
  shows "\<exists>i. item_kept fl d i"
proof -
  note item_eval = item_kept_def deserialise_item_def serialise_item_def item_schema_def ITEMS_def file_item_def is_container_def
    sub_dict_def conforms_defaults conforms_optional conforms_model
  consider (m) "kind = ''memory''" | (j) "kind = ''journal''" | (e) "kind = ''encounter''" using assms(2) by blast
  then show ?thesis
  proof cases
    case m
    have "fits d ''memory'' MemoryModel"
      using c assms(1) m by (simp add: item_schema_def ITEMS_def MemoryItemModel_def conforms_model del: conforms.simps)
    then obtain e where e: "sub_dict d ''memory'' = Some e" "conforms MemoryModel (JDict e)" "clean fl (JDict d) \<Longrightarrow> clean fl (JDict e)"
      using sub_dict_fits [of d "''memory''"] empty_models(1) unfolding MemoryModel_def by blast
    show ?thesis
      using e(1,3) assms(1) m written_memory [OF e(2)] clean_memory [of fl e]
      by (intro exI [of _ "(file_item ''memory'')\<lparr>fi_memory := Some (memory_from_dict e)\<rparr>"])
        (simp add: item_eval MemoryItemModel_def read_memory clean_record clean_words ascii_key dget_or_def del: conforms.simps clean.simps)
  next
    case j
    have "fits d ''journal'' JournalModel"
      using c assms(1) j by (simp add: item_schema_def ITEMS_def JournalItemModel_def conforms_model del: conforms.simps)
    then obtain e where e: "sub_dict d ''journal'' = Some e" "conforms JournalModel (JDict e)" "clean fl (JDict d) \<Longrightarrow> clean fl (JDict e)"
      using sub_dict_fits [of d "''journal''"] empty_models(2) unfolding JournalModel_def by blast
    show ?thesis
      using e(1,3) assms(1) j written_journal [OF e(2)] clean_journal [of fl e]
      by (intro exI [of _ "(file_item ''journal'')\<lparr>fi_journal := Some (journal_from_dict e)\<rparr>"])
        (simp add: item_eval JournalItemModel_def read_journal clean_record clean_words ascii_key dget_or_def del: conforms.simps clean.simps)
  next
    case e
    have "fits d ''encounter'' EncounterModel"
      using c assms(1) e by (simp add: item_schema_def ITEMS_def EncounterItemModel_def conforms_model del: conforms.simps)
    then obtain x where x: "sub_dict d ''encounter'' = Some x" "conforms EncounterModel (JDict x)" "clean fl (JDict d) \<Longrightarrow> clean fl (JDict x)"
      using sub_dict_fits [of d "''encounter''"] empty_models(3) unfolding EncounterModel_def by blast
    show ?thesis
      using x(1,3) assms(1) e written_encounter [OF x(2)] clean_encounter [of fl x]
      by (intro exI [of _ "(file_item ''encounter'')\<lparr>fi_encounter := Some (encounter_from_dict x)\<rparr>"])
        (simp add: item_eval EncounterItemModel_def read_encounter clean_record clean_words ascii_key dget_or_def del: conforms.simps clean.simps)
  qed
qed

lemma kept_activity_item:
  assumes "dget d ''item_type'' = JStr ''activity''" and c: "conforms (item_schema (JDict d)) (JDict d)"
  shows "\<exists>i. item_kept fl d i"
proof -
  have "fits d ''activity_id'' (OptionalField IntField)"
    using c assms(1) by (simp add: item_schema_def ITEMS_def ActivityItemModel_def conforms_model del: conforms.simps)
  then show ?thesis
    using assms(1)
    by (intro exI [of _ "(file_item ''activity'')\<lparr>fi_activity_id := dget d ''activity_id''\<rparr>"])
      (simp add: item_kept_def deserialise_item_def serialise_item_def item_schema_def ITEMS_def ActivityItemModel_def file_item_def
        conforms_model written_record clean_record clean_words ascii_key del: conforms.simps clean.simps)
qed

lemma kept_segment_item:
  assumes "dget d ''item_type'' = JNull \<or> dget d ''item_type'' = JStr k"
    and k: "dget d ''item_type'' \<notin> JStr ` {''activity'', ''memory'', ''journal'', ''encounter''}"
    and c: "conforms (item_schema (JDict d)) (JDict d)"
  shows "\<exists>i. item_kept fl d i"
proof -
  have sch: "item_schema (JDict d) = SegmentItemModel"
    using assms(1) k by (auto simp: item_schema_def ITEMS_def)
  have "fits d ''segment'' SegmentModel"
    using c unfolding sch by (simp add: SegmentItemModel_def conforms_model del: conforms.simps)
  then obtain e where e: "sub_dict d ''segment'' = Some e" "conforms SegmentModel (JDict e)" "clean fl (JDict d) \<Longrightarrow> clean fl (JDict e)"
    using sub_dict_fits [of d "''segment''"] empty_models(4) unfolding SegmentModel_def by blast
  obtain s where s: "segment_from_dict e = Some s" "conforms SegmentModel (JDict (segment_to_dict s))"
    "clean fl (JDict e) \<longrightarrow> clean fl (JDict (segment_to_dict s))" "segment_from_dict (segment_to_dict s) = Some s"
    using written_segment [OF e(2)] by blast
  let ?i = "(file_item ''segment'')\<lparr>fi_segment := Some s\<rparr>"
  have r: "deserialise_item d = Some ?i"
    using assms(1) k e(1) s(1) by (auto simp: deserialise_item_def is_container_def Let_def)
  have w: "serialise_item ?i = Some [(''item_type'', JStr ''segment''), (''segment'', JDict (segment_to_dict s))]" (is "_ = Some ?d")
    by (simp add: serialise_item_def file_item_def)
  have "deserialise_item ?d = Some ?i"
    using s(4) by (simp add: deserialise_item_def is_container_def sub_dict_def)
  moreover have "conforms (item_schema (JDict ?d)) (JDict ?d)"
    using s(2) by (simp add: item_schema_def ITEMS_def SegmentItemModel_def conforms_model conforms_defaults conforms_optional del: conforms.simps)
  moreover have "clean fl (JDict d) \<longrightarrow> clean fl (JDict ?d)"
    using e(3) s(3) by (simp add: clean_record clean_words ascii_key del: clean.simps)
  ultimately show ?thesis using r w unfolding item_kept_def by blast
qed

lemma kept_item:
  assumes c: "conforms (item_schema (JDict d)) (JDict d)"
  shows "\<exists>i. item_kept fl d i"
proof -
  consider (a) "dget d ''item_type'' = JStr ''activity''"
    | (e) k where "dget d ''item_type'' = JStr k" "k \<in> {''memory'', ''journal'', ''encounter''}"
    | (s) k where "dget d ''item_type'' = JNull \<or> dget d ''item_type'' = JStr k"
        "dget d ''item_type'' \<notin> JStr ` {''activity'', ''memory'', ''journal'', ''encounter''}"
    using item_type_text [OF c] by force
  then show ?thesis using kept_activity_item kept_entry kept_segment_item c by cases blast+
qed

subsection \<open>Lists of records\<close>

lemma those_Some: "those xs = Some ys \<longleftrightarrow> xs = map Some ys"
proof (induction xs arbitrary: ys)
  case (Cons x xs)
  then show ?case by (cases ys) (auto split: option.splits)
qed auto

text \<open>Every element of a list of records is read; written, each reads as what it was.\<close>

lemma read_all:
  assumes vs: "\<forall>u\<in>set vs. P u \<and> clean fl u" and dicts: "\<And>u. P u \<Longrightarrow> \<exists>d. u = JDict d"
    and each: "\<And>d. P (JDict d) \<Longrightarrow> clean fl (JDict d) \<Longrightarrow>
      \<exists>x. f d = Some x \<and> P (w x) \<and> clean fl (w x) \<and> (\<exists>d'. w x = JDict d' \<and> f d' = Some x)"
  shows "\<exists>xs. read_dicts f (JList vs) = Some xs \<and> length xs = length vs \<and> (\<forall>x\<in>set xs. P (w x) \<and> clean fl (w x)) \<and>
    read_dicts f (JList (map w xs)) = Some xs"
proof -
  have "\<exists>xs. map (\<lambda>x. case x of JDict d \<Rightarrow> f d | _ \<Rightarrow> None) vs = map Some xs \<and>
      (\<forall>x\<in>set xs. P (w x) \<and> clean fl (w x) \<and> (\<exists>d'. w x = JDict d' \<and> f d' = Some x))"
    using vs
  proof (induction vs)
    case (Cons u vs)
    then obtain d where d: "u = JDict d" using dicts by (metis list.set_intros(1))
    obtain x where x: "f d = Some x" "P (w x)" "clean fl (w x)" "\<exists>d'. w x = JDict d' \<and> f d' = Some x"
      using each [of d] Cons.prems d by (auto simp del: clean.simps)
    obtain xs where "map (\<lambda>x. case x of JDict d \<Rightarrow> f d | _ \<Rightarrow> None) vs = map Some xs"
      "\<forall>x\<in>set xs. P (w x) \<and> clean fl (w x) \<and> (\<exists>d'. w x = JDict d' \<and> f d' = Some x)"
      using Cons.IH Cons.prems by (auto simp del: clean.simps)
    then show ?case using d x by (intro exI [of _ "x # xs"]) (simp del: clean.simps)
  qed simp
  then obtain xs where xs: "map (\<lambda>x. case x of JDict d \<Rightarrow> f d | _ \<Rightarrow> None) vs = map Some xs"
    "\<forall>x\<in>set xs. P (w x) \<and> clean fl (w x) \<and> (\<exists>d'. w x = JDict d' \<and> f d' = Some x)"
    by blast
  have len: "length xs = length vs" using arg_cong [OF xs(1), of length] by simp
  have "(case w x of JDict d \<Rightarrow> f d | _ \<Rightarrow> None) = Some x" if "x \<in> set xs" for x using xs(2) that by auto
  then have "map ((\<lambda>x. case x of JDict d \<Rightarrow> f d | _ \<Rightarrow> None) \<circ> w) xs = map Some xs" by simp
  then show ?thesis using xs len by (intro exI [of _ xs]) (simp add: read_dicts_def those_Some del: clean.simps)
qed

lemma read_list:
  assumes v: "conforms (ListOf (Model fs)) v" "clean fl v"
    and each: "\<And>d. conforms (Model fs) (JDict d) \<Longrightarrow> clean fl (JDict d) \<Longrightarrow>
      \<exists>x. f d = Some x \<and> conforms (Model fs) (w x) \<and> clean fl (w x) \<and> (\<exists>d'. w x = JDict d' \<and> f d' = Some x)"
  shows "\<exists>xs. read_dicts f v = Some xs \<and> conforms (ListOf (Model fs)) (JList (map w xs)) \<and> clean fl (JList (map w xs)) \<and>
    read_dicts f (JList (map w xs)) = Some xs"
proof -
  obtain vs where vs: "v = JList vs" "\<forall>u\<in>set vs. conforms (Model fs) u \<and> clean fl u"
    using v by (cases v) (auto simp: list_all_iff)
  have "\<exists>d. u = JDict d" if "conforms (Model fs) u" for u using that by (cases u) simp_all
  from read_all [OF vs(2) this each] obtain xs where
    xs: "read_dicts f (JList vs) = Some xs" "\<forall>x\<in>set xs. conforms (Model fs) (w x) \<and> clean fl (w x)"
    "read_dicts f (JList (map w xs)) = Some xs" by blast
  have "conforms (ListOf (Model fs)) (JList (map w xs))" "clean fl (JList (map w xs))"
    using xs(2) by (simp_all add: list_all_iff)
  with xs vs(1) show ?thesis by blast
qed

lemma read_people:
  assumes "conforms (ListOf PersonModel) v" "clean fl v"
  shows "\<exists>xs. read_dicts (\<lambda>d. Some (person_from_dict d)) v = Some xs \<and>
    conforms (ListOf PersonModel) (JList (map (JDict \<circ> person_to_dict) xs)) \<and> clean fl (JList (map (JDict \<circ> person_to_dict) xs)) \<and>
    read_dicts (\<lambda>d. Some (person_from_dict d)) (JList (map (JDict \<circ> person_to_dict) xs)) = Some xs"
  using assms unfolding PersonModel_def
  by (rule read_list) (simp add: written_person [unfolded PersonModel_def] clean_person read_person del: conforms.simps clean.simps)

lemma read_groups:
  assumes "conforms (ListOf GroupModel) v" "clean fl v"
  shows "\<exists>xs. read_dicts (\<lambda>d. Some (group_from_dict d)) v = Some xs \<and>
    conforms (ListOf GroupModel) (JList (map (JDict \<circ> group_to_dict) xs)) \<and> clean fl (JList (map (JDict \<circ> group_to_dict) xs)) \<and>
    read_dicts (\<lambda>d. Some (group_from_dict d)) (JList (map (JDict \<circ> group_to_dict) xs)) = Some xs"
  using assms unfolding GroupModel_def
  by (rule read_list) (simp add: written_group [unfolded GroupModel_def] clean_group read_group del: conforms.simps clean.simps)

subsection \<open>Numbers and counters\<close>

lemma float_of_number:
  assumes "is_number v" "clean True v"
  shows "\<exists>x. to_float v = Float (Fin x) \<and> float_of v = Some (Fin x)"
proof -
  have big: "(2::rat) ^ 64 < float_limit" by (simp add: float_limit_def)
  have "\<not> float_limit \<le> \<bar>rat_of_int n\<bar>" if "TRIP_INT_MIN \<le> n" "n \<le> TRIP_INT_MAX" for n
  proof -
    have "\<bar>n\<bar> \<le> 2 ^ 64" using that by (simp add: TRIP_INT_MIN_def TRIP_INT_MAX_def)
    then have "\<bar>rat_of_int n\<bar> \<le> 2 ^ 64" by (metis of_int_abs of_int_le_iff of_int_numeral of_int_power)
    then show ?thesis using big by linarith
  qed
  then show ?thesis using assms
    by (auto simp: is_number_def to_float_def float_of_def scalar_fault_def split: json.splits pyfloat.splits if_splits)
qed

lemma conforms_float: "conforms FloatField (JFloat f)"
  by (simp add: is_number_def)

lemma read_counter:
  assumes "conforms CounterModel (JDict d)" "clean True (JDict d)"
  shows "\<exists>c. counter_from_dict d = Some c \<and> conforms CounterModel (counter_to_dict c) \<and> clean True (counter_to_dict c) \<and>
    (\<exists>d'. counter_to_dict c = JDict d' \<and> counter_from_dict d' = Some c)"
proof -
  obtain name where n: "map_of d ''name'' = Some name" "conforms StrField name"
    using assms(1) by (auto simp: CounterModel_def split: option.splits)
  have "fits d ''start'' FloatField" using assms(1) unfolding CounterModel_def conforms_model by simp
  then have "conforms FloatField (dget_or d ''start'' (JInt 0))" by (rule fits_get) (simp add: is_number_def)
  moreover have "clean True (dget_or d ''start'' (JInt 0))" by (rule clean_get_or [OF assms(2) clean_defaults(6)])
  ultimately obtain x where x: "to_float (dget_or d ''start'' (JInt 0)) = Float (Fin x)"
    using float_of_number by auto
  have cl: "clean True name" by (rule clean_get [OF assms(2) n(1)])
  show ?thesis
    using n x cl
    by (intro exI [of _ "\<lparr>ctr_name = name, ctr_start = Fin x\<rparr>"])
      (simp add: counter_from_dict_def counter_to_dict_def CounterModel_def conforms_model conforms_float clean_record ascii_key to_float_def
        del: conforms.simps clean.simps)
qed

lemma read_counters:
  assumes "conforms (ListOf CounterModel) v" "clean True v"
  shows "\<exists>xs. read_dicts counter_from_dict v = Some xs \<and> conforms (ListOf CounterModel) (JList (map counter_to_dict xs)) \<and>
    clean True (JList (map counter_to_dict xs)) \<and> read_dicts counter_from_dict (JList (map counter_to_dict xs)) = Some xs"
  using assms read_counter unfolding CounterModel_def by (rule read_list)

text \<open>The counter entries of a day.\<close>

definition entry_ok :: "CounterEntry \<Rightarrow> bool" where
  "entry_ok c \<longleftrightarrow> conforms StrField (ce_name c) \<and> clean True (ce_name c) \<and> (\<exists>x. ce_value c = Fin x)"

lemma counter_entry_ok:
  assumes "conforms StrField name" "clean True name" "is_number v" "clean True v"
  shows "\<exists>c. counter_entry name v = Some c \<and> entry_ok c"
  using float_of_number [OF assms(3,4)] assms(1,2) by (auto simp: counter_entry_def entry_ok_def simp del: conforms.simps clean.simps)

lemma counters_of_list_ok:
  assumes "list_all (\<lambda>e. case e of
                  JDict d \<Rightarrow> (case dget d ''name'' of JStr _ \<Rightarrow> True | _ \<Rightarrow> False) \<and> is_number (dget_or d ''value'' (JInt 0))
                | _ \<Rightarrow> False) es" "list_all (clean True) es"
  shows "\<exists>cs. counters_of_list es = Some cs \<and> list_all entry_ok cs"
  using assms
proof (induction es)
  case (Cons e es)
  then obtain d where d: "e = JDict d" by (auto split: json.splits)
  then obtain n where n: "map_of d ''name'' = Some (JStr n)" "is_number (dget_or d ''value'' (JInt 0))"
    using Cons.prems(1) by (auto simp: dget_def split: json.splits option.splits)
  have cl: "clean True (JDict d)" using Cons.prems(2) d by (simp del: clean.simps)
  obtain c where "counter_entry (JStr n) (dget_or d ''value'' (JInt 0)) = Some c" "entry_ok c"
    using counter_entry_ok [OF _ clean_get [OF cl n(1)] n(2) clean_get_or [OF cl clean_defaults(6)]] by auto
  moreover obtain cs where "counters_of_list es = Some cs" "list_all entry_ok cs" using Cons by auto
  ultimately show ?case using d n(1) by simp
qed simp

lemma counters_of_map_ok:
  assumes "list_all (\<lambda>kv. is_number (snd kv)) d" "clean True (JDict d)"
  shows "\<exists>cs. counters_of_map d = Some cs \<and> list_all entry_ok cs"
  using assms
proof (induction d)
  case (Cons kv d)
  obtain k x where kv: "kv = (k, x)" by (cases kv)
  have "clean True (JStr k)" using Cons.prems(2) kv by (simp add: scalar_fault_def)
  then obtain c where "counter_entry (JStr k) x = Some c" "entry_ok c"
    using counter_entry_ok [of "JStr k" x] Cons.prems kv by auto
  moreover obtain cs where "counters_of_map d = Some cs" "list_all entry_ok cs" using Cons by auto
  ultimately show ?case using kv by simp
qed simp

lemma day_counters_ok:
  assumes "day_counts_fault v = None" "clean True v"
  shows "\<exists>cs. day_counters_from_json v = Some cs \<and> list_all entry_ok cs"
proof -
  consider "v = JNull" | d where "v = JDict d" "list_all (\<lambda>kv. is_number (snd kv)) d"
    | es where "v = JList es" "list_all (\<lambda>e. case e of
                  JDict d \<Rightarrow> (case dget d ''name'' of JStr _ \<Rightarrow> True | _ \<Rightarrow> False) \<and> is_number (dget_or d ''value'' (JInt 0))
                | _ \<Rightarrow> False) es"
    using assms(1) by (cases v) (simp_all add: day_counts_fault_def split: if_splits)
  then show ?thesis
  proof cases
    case (2 d)
    then show ?thesis using counters_of_map_ok [of d] assms(2) by (simp add: day_counters_from_json_def)
  next
    case (3 es)
    then show ?thesis using counters_of_list_ok [of es] assms(2) by (simp add: day_counters_from_json_def)
  qed (simp add: day_counters_from_json_def)
qed

lemma day_counters_written:
  assumes "list_all entry_ok cs"
  shows "day_counts_fault (day_counters_to_json cs) = None \<and> clean True (day_counters_to_json cs)"
proof -
  have "conforms StrField v \<longleftrightarrow> (\<exists>s. v = JStr s)" for v by (auto split: json.splits)
  then show ?thesis using assms
    by (auto simp: day_counts_fault_def day_counters_to_json_def list_all_iff entry_ok_def is_number_def bad_text_def scalar_fault_def
        split: json.splits)
qed

subsection \<open>Days\<close>

lemma day_written_fields:
  "dget (day_to_dict m) ''difficulty'' = fd_difficulty m" "dget (day_to_dict m) ''sleeping'' = fd_sleeping m"
  "dget (day_to_dict m) ''weather'' = fd_weather m" "dget (day_to_dict m) ''journal'' = fd_journal m"
  "dget (day_to_dict m) ''tags'' = fd_tags m"
  "dget (day_to_dict m) ''counters'' = (if fd_counters m = [] then JNull else day_counters_to_json (fd_counters m))"
  by (simp_all add: day_to_dict_def day_notes_def)

lemma day_reads_back: "day_from_dict (day_to_dict m) = Some m"
  by (simp add: day_from_dict_def day_written_fields counters_roundtrip) (simp add: day_counters_from_json_def)

lemma as_dict_dict [simp]: "as_dict (JDict d) = Some d" "as_dict JNull = Some []"
  by (simp_all add: as_dict_def)

lemma fits_dget: "conforms s (dget d k) \<Longrightarrow> fits d k s"
  by (simp add: fits_def dget_def split: option.splits)

lemma read_day:
  assumes "conforms DayMetaModel (JDict d)" "clean True (JDict d)"
  shows "\<exists>m. day_from_dict d = Some m \<and> conforms DayMetaModel (JDict (day_to_dict m)) \<and> clean True (JDict (day_to_dict m))"
proof -
  have c: "conforms DayMetaModel (JDict d')" if
    "conforms (OptionalField StrField) (dget d' ''difficulty'')" "conforms (OptionalField StrField) (dget d' ''sleeping'')"
    "conforms (OptionalField StrField) (dget d' ''weather'')" "conforms (OptionalField StrField) (dget d' ''journal'')"
    "conforms (OptionalField (ListOf StrField)) (dget d' ''tags'')" "day_counts_fault (dget d' ''counters'') = None" for d'
  proof -
    have "fits d' ''counters'' (Checked day_counts_fault AnyField)" by (rule fits_dget) (simp add: that(6))
    then show ?thesis using that unfolding DayMetaModel_def conforms_model by (simp add: fits_dget del: conforms.simps)
  qed
  have f: "conforms (OptionalField StrField) (dget d ''difficulty'')" "conforms (OptionalField StrField) (dget d ''sleeping'')"
    "conforms (OptionalField StrField) (dget d ''weather'')" "conforms (OptionalField StrField) (dget d ''journal'')"
    "conforms (OptionalField (ListOf StrField)) (dget d ''tags'')" "day_counts_fault (dget d ''counters'') = None"
  proof -
    have "fits d ''counters'' (Checked day_counts_fault AnyField)"
      using assms(1) unfolding DayMetaModel_def conforms_model by simp
    then have "conforms (Checked day_counts_fault AnyField) (dget d ''counters'')"
      unfolding dget_dget_or by (rule fits_get) (simp add: day_counts_fault_def)
    then show "day_counts_fault (dget d ''counters'') = None" by simp
  qed (use assms(1) in \<open>simp_all add: DayMetaModel_def conforms_model dget_dget_or fits_get_opt del: conforms.simps\<close>)
  have cl: "clean True (dget d k)" for k unfolding dget_dget_or by (rule clean_get_or [OF assms(2) clean_defaults(1)])
  obtain cs where cs: "day_counters_from_json (dget d ''counters'') = Some cs" "list_all entry_ok cs"
    using day_counters_ok [OF f(6) cl] by blast
  define m where "m = \<lparr>fd_difficulty = dget d ''difficulty'', fd_sleeping = dget d ''sleeping'', fd_weather = dget d ''weather'',
    fd_journal = dget d ''journal'', fd_tags = dget d ''tags'', fd_counters = cs\<rparr>"
  have r: "day_from_dict d = Some m" by (simp add: day_from_dict_def cs(1) m_def)
  have w: "conforms DayMetaModel (JDict (day_to_dict m))"
  proof (rule c)
    show "day_counts_fault (dget (day_to_dict m) ''counters'') = None"
      using day_counters_written [OF cs(2)] by (simp add: day_written_fields m_def) (simp add: day_counts_fault_def)
  qed (use f in \<open>simp_all add: day_written_fields m_def del: conforms.simps\<close>)
  have "clean True (JDict (day_to_dict m))"
    using cl day_counters_written [OF cs(2)]
    by (simp add: day_to_dict_def day_notes_def m_def clean_record ascii_key del: clean.simps dget_dget_or)
  with r w show ?thesis by blast
qed

lemma read_days:
  assumes "conforms (OptionalField (DictOf DayMetaModel)) v" "clean True v"
  shows "\<exists>days. days_from_json v = Some days \<and>
    (let out = JDict (map (\<lambda>(dk, dm). (dk, JDict (day_to_dict dm))) days) in
     conforms (DictOf DayMetaModel) out \<and> clean True out \<and> days_from_json out = Some days) \<and>
    map fst days = (case v of JDict d \<Rightarrow> map fst d | _ \<Rightarrow> [])"
proof -
  obtain ds where ds: "as_dict v = Some ds" "list_all (\<lambda>kv. conforms DayMetaModel (snd kv)) ds" "clean True (JDict ds)"
    "(case v of JDict d \<Rightarrow> map fst d | _ \<Rightarrow> []) = map fst ds"
    using assms by (cases v) auto
  let ?f = "\<lambda>(k, day). case day of JDict d \<Rightarrow> map_option (Pair k) (day_from_dict d) | _ \<Rightarrow> None"
  have "\<exists>days. map ?f ds = map Some days \<and> list_all (\<lambda>(k, m). \<not> bad_text k \<and> conforms DayMetaModel (JDict (day_to_dict m)) \<and>
      clean True (JDict (day_to_dict m))) days \<and> map fst days = map fst ds"
    using ds(2,3)
  proof (induction ds)
    case (Cons kv ds)
    obtain k x where kv: "kv = (k, x)" by (cases kv)
    have "conforms DayMetaModel x" using Cons.prems(1) kv by (simp del: conforms.simps)
    then obtain d where d: "x = JDict d" by (auto simp: DayMetaModel_def split: json.splits)
    obtain m where "day_from_dict d = Some m" "conforms DayMetaModel (JDict (day_to_dict m))" "clean True (JDict (day_to_dict m))"
      using read_day [of d] Cons.prems kv d by (auto simp: clean_Cons simp del: conforms.simps clean.simps)
    moreover have "\<not> bad_text k" using Cons.prems(2) kv by (simp add: clean_Cons del: clean.simps)
    moreover obtain days where "map ?f ds = map Some days" "list_all (\<lambda>(k, m). \<not> bad_text k \<and> conforms DayMetaModel (JDict (day_to_dict m)) \<and>
        clean True (JDict (day_to_dict m))) days" "map fst days = map fst ds"
      using Cons.IH Cons.prems kv by (auto simp: clean_Cons simp del: conforms.simps clean.simps)
    ultimately show ?case using kv d by (intro exI [of _ "(k, m) # days"]) (simp del: conforms.simps clean.simps)
  qed simp
  then obtain days where days: "map ?f ds = map Some days" "map fst days = map fst ds"
    "\<forall>(k, m)\<in>set days. \<not> bad_text k \<and> conforms DayMetaModel (JDict (day_to_dict m)) \<and> clean True (JDict (day_to_dict m))"
    by (auto simp: list_all_iff simp del: conforms.simps clean.simps)
  let ?out = "map (\<lambda>(dk, dm). (dk, JDict (day_to_dict dm))) days"
  have "days_from_json v = Some days" using ds(1) days(1) by (simp add: days_from_json_def those_Some)
  moreover have "days_from_json (JDict ?out) = Some days"
    by (simp add: days_from_json_def those_Some day_reads_back case_prod_beta comp_def)
  moreover have "conforms (DictOf DayMetaModel) (JDict ?out)" "clean True (JDict ?out)"
    using days(3) by (auto simp: list_all_iff case_prod_beta simp del: clean.simps(1))
  ultimately show ?thesis using ds(4) days(2) by (simp add: Let_def del: conforms.simps clean.simps)
qed

subsection \<open>Activities\<close>

lemma conforms_profile_lists:
  assumes "conforms (OptionalField ElevationProfileModel) (profile_dict p)"
  shows "p = None \<or> (\<exists>ds es. p = Some (JList ds, JList es))"
proof (cases p)
  case (Some x)
  obtain ds es where "x = (ds, es)" by (cases x)
  then have "conforms Distances ds" "conforms Elevations es"
    using assms Some by (auto simp: profile_dict_def ElevationProfileModel_def)
  then show ?thesis using Some \<open>x = (ds, es)\<close>
    by (auto simp: Distances_def Elevations_def numbers_fault_def split: json.splits)
qed simp

lemma read_activities:
  assumes v: "conforms (ListOf ActivityModel) (JList vs)" "clean True (JList vs)"
    and now: "valid_datetime now" "readable_offset (dt_offset now)"
  shows "\<exists>xs. fst (parse_activities_or_log now vs) = xs \<and> map (parse_activity now) vs = map Some xs \<and>
    conforms (ListOf ActivityModel) (JList (map (JDict \<circ> to_traxj_dict) xs)) \<and>
    clean True (JList (map (JDict \<circ> to_traxj_dict) xs)) \<and>
    (\<forall>later. fst (parse_activities_or_log later (map (JDict \<circ> to_traxj_dict) xs)) = xs) \<and>
    (\<exists>outs. those (map activity_out xs) = Some outs)"
proof -
  have each: "\<exists>a. parse_activity now u = Some a \<and> kept_activity a \<and> conforms ActivityModel (JDict (to_traxj_dict a)) \<and>
      clean True (JDict (to_traxj_dict a))" if "u \<in> set vs" for u
  proof -
    have c: "conforms ActivityModel u" "clean True u" using v that by (simp_all add: list_all_iff del: conforms.simps(12))
    then obtain d where "u = JDict d" by (auto simp: ActivityModel_def split: json.splits)
    then show ?thesis using written_activity [OF _ _ now, of d] c by (simp add: parse_activity_def)
  qed
  define xs where "xs = map (\<lambda>u. the (parse_activity now u)) vs"
  have all: "map (parse_activity now) vs = map Some xs" using each by (fastforce simp: xs_def)
  have good: "\<forall>a\<in>set xs. kept_activity a \<and> conforms ActivityModel (JDict (to_traxj_dict a)) \<and> clean True (JDict (to_traxj_dict a))"
    using each by (force simp: xs_def simp del: conforms.simps clean.simps)
  have mf: "List.map_filter f us = ys" if "map f us = map Some ys" for f :: "json \<Rightarrow> ApiActivity option" and us ys
    using that by (induction us arbitrary: ys) (auto simp: List.map_filter_simps)
  have "map (parse_activity later) (map (JDict \<circ> to_traxj_dict) xs) = map Some xs" for later
    using good kept_activity_reads_back [of _ later] by (simp add: parse_activity_def)
  then have later: "fst (parse_activities_or_log later (map (JDict \<circ> to_traxj_dict) xs)) = xs" for later
    by (simp add: parse_activities_or_log_def mf del: map_map)
  have "\<exists>j. activity_out a = Some j" if "a \<in> set xs" for a
  proof -
    have c: "conforms ActivityModel (JDict (to_traxj_dict a))" and k: "kept_activity a" using good that by auto
    have "fits (to_traxj_dict a) ''elevation_profile'' (OptionalField ElevationProfileModel)" using activity_fits [OF c] by blast
    then have "conforms (OptionalField ElevationProfileModel) (profile_dict (act_elevation_profile a))"
      by (simp add: fits_some traxj_fields del: conforms.simps)
    then show ?thesis using conforms_profile_lists [of "act_elevation_profile a"] k
      by (auto simp: activity_out_def ep_pairs_def kept_activity_def)
  qed
  then have "map activity_out xs = map Some (map (\<lambda>a. the (activity_out a)) xs)" by force
  then have "\<exists>outs. those (map activity_out xs) = Some outs" unfolding those_Some by blast
  moreover have "conforms (ListOf ActivityModel) (JList (map (JDict \<circ> to_traxj_dict) xs))"
    "clean True (JList (map (JDict \<circ> to_traxj_dict) xs))"
    using good by (simp_all add: list_all_iff)
  ultimately show ?thesis using all later by (simp add: parse_activities_or_log_def mf del: conforms.simps clean.simps)
qed

subsection \<open>Items of a document\<close>

lemma any_dict: "conforms (DictOf AnyField) x \<longleftrightarrow> (\<exists>d. x = JDict d)"
  by (cases x) (simp_all add: list_all_iff)

lemma read_items:
  assumes "\<forall>x\<in>set vs. conforms (DictOf AnyField) x \<and> conforms (item_schema x) x" "clean fl (JList vs)"
  shows "\<exists>xs ds. read_dicts deserialise_item (JList vs) = Some xs \<and> length xs = length vs \<and>
    those (map serialise_item xs) = Some ds \<and>
    (\<forall>x\<in>set (map JDict ds). conforms (DictOf AnyField) x \<and> conforms (item_schema x) x) \<and> clean fl (JList (map JDict ds)) \<and>
    read_dicts deserialise_item (JList (map JDict ds)) = Some xs"
proof -
  let ?P = "\<lambda>x. (\<exists>d. x = JDict d) \<and> conforms (item_schema x) x"
  let ?w = "\<lambda>i. JDict (the (serialise_item i))"
  have vs: "\<forall>u\<in>set vs. ?P u \<and> clean fl u"
    using assms by (simp add: list_all_iff any_dict del: conforms.simps(11))
  have each: "\<exists>x. deserialise_item d = Some x \<and> (?P (?w x) \<and> serialise_item x \<noteq> None) \<and> clean fl (?w x) \<and>
      (\<exists>d'. ?w x = JDict d' \<and> deserialise_item d' = Some x)" if "?P (JDict d)" "clean fl (JDict d)" for d
    using kept_item [of d fl] that unfolding item_kept_def by (auto simp del: conforms.simps clean.simps)
  obtain xs where xs: "read_dicts deserialise_item (JList vs) = Some xs" "length xs = length vs"
    "\<forall>x\<in>set xs. ?P (?w x) \<and> clean fl (?w x)" "read_dicts deserialise_item (JList (map ?w xs)) = Some xs"
    using read_all [OF vs, of deserialise_item ?w] each by blast
  have "serialise_item x \<noteq> None" if mem: "x \<in> set xs" for x
  proof -
    obtain u where u: "u \<in> set vs" "(case u of JDict d \<Rightarrow> deserialise_item d | _ \<Rightarrow> None) = Some x"
    proof -
      have "map (\<lambda>x. case x of JDict d \<Rightarrow> deserialise_item d | _ \<Rightarrow> None) vs = map Some xs"
        using xs(1) by (simp add: read_dicts_def those_Some)
      then have "Some x \<in> set (map (\<lambda>x. case x of JDict d \<Rightarrow> deserialise_item d | _ \<Rightarrow> None) vs)" using mem by simp
      then show thesis using that by auto
    qed
    obtain d where d: "u = JDict d" using vs u(1) by blast
    then have "deserialise_item d = Some x" "?P (JDict d)" "clean fl (JDict d)" using u vs by auto
    then show ?thesis using each [of d] by auto
  qed
  then have ser: "map serialise_item xs = map Some (map (\<lambda>i. the (serialise_item i)) xs)" by simp
  show ?thesis
    using xs ser by (intro exI [of _ xs] exI [of _ "map (\<lambda>i. the (serialise_item i)) xs"])
      (auto simp: those_Some list_all_iff comp_def any_dict simp del: conforms.simps(11))
qed

subsection \<open>The repairs leave a fresh document alone\<close>

lemma dict_put_same: "map_of d k = Some x \<Longrightarrow> dict_put k x d = d"
  by (induction d) auto

lemma put_present_same [simp]: "put_present d k (dget d k) = d"
  by (simp add: put_present_def dget_def dict_put_same split: option.splits)

lemma dict_put_dget: "dget d k \<noteq> JNull \<Longrightarrow> dict_put k (dget d k) d = d"
  by (simp add: dget_def dict_put_same split: option.splits)

lemma text_note_same: "conforms (OptionalField StrField) (dget d k) \<Longrightarrow> text_note d k = d"
  by (auto simp: text_note_def dget_def is_str_def split: option.splits json.splits)

lemma text_tags_same:
  assumes "conforms (OptionalField (ListOf StrField)) (dget d ''tags'')"
  shows "text_tags d = d"
proof (cases "dget d ''tags'' = JNull")
  case True
  then show ?thesis by (simp add: text_tags_def)
next
  case False
  then obtain ts where ts: "dget d ''tags'' = JList ts" "list_all is_str ts"
    using assms by (cases "dget d ''tags''") (auto simp: list_all_iff is_str_def)
  have "filter (\<lambda>t. is_str t \<or> as_text t \<noteq> JNull) ts = ts" "map (\<lambda>t. if is_str t then t else as_text t) ts = ts"
    using ts(2) by (simp_all add: list_all_iff filter_id_conv map_idI)
  then show ?thesis using ts(1) dict_put_dget [of d "''tags''"] by (simp add: text_tags_def)
qed

lemma normalise_day_same:
  assumes "conforms DayMetaModel u"
  shows "normalise_day u = u"
proof -
  obtain d where d: "u = JDict d" using assms by (auto simp: DayMetaModel_def split: json.splits)
  have "conforms (OptionalField StrField) (dget d k)" if "k \<in> {''difficulty'', ''sleeping'', ''weather'', ''journal''}" for k
    using assms that unfolding d DayMetaModel_def conforms_model by (auto simp: dget_dget_or fits_get_opt simp del: conforms.simps)
  moreover have "conforms (OptionalField (ListOf StrField)) (dget d ''tags'')"
    using assms unfolding d DayMetaModel_def conforms_model by (simp add: dget_dget_or fits_get_opt del: conforms.simps)
  ultimately show ?thesis by (simp add: d normalise_day_def DAY_TEXT_def text_note_same text_tags_same del: conforms.simps)
qed

lemma normalise_days_same:
  assumes "conforms (OptionalField (DictOf DayMetaModel)) v"
  shows "normalise_days v = v"
proof (cases v)
  case (JDict days)
  have "map (\<lambda>(k, day). (k, normalise_day day)) days = days"
    using assms JDict by (intro map_idI) (auto simp: list_all_iff normalise_day_same)
  then show ?thesis by (simp add: JDict normalise_days_def)
qed (simp_all add: normalise_days_def)

definition styled :: "(string \<times> json) list \<Rightarrow> bool" where
  "styled doc \<longleftrightarrow>
     (\<forall>k\<in>{''track_color'', ''track_secondary_color'', ''elevation_chart_color''}.
        dget doc k = JNull \<or> (\<exists>s. dget doc k = JStr s \<and> is_colour s)) \<and>
     (dget doc ''track_width'' = JNull \<or>
      (\<exists>w. finite_or_none (dget doc ''track_width'') = Some w \<and> 0 < w \<and> w \<le> TRACK_WIDTH_MAX))"

lemma normalise_style_same: "styled doc \<Longrightarrow> normalise_style doc = doc"
  by (auto simp: styled_def normalise_style_def drop_colour_def drop_width_def finite_or_none_def)

text \<open>\<open>min\<close> and \<open>max\<close> of finite numbers.\<close>

lemma number_leq_value: "finite_or_none a \<noteq> None \<Longrightarrow> finite_or_none b \<noteq> None \<Longrightarrow> number_leq a b \<longleftrightarrow> number_value a \<le> number_value b"
  by (auto simp: number_leq_def finite_or_none_def split: json.splits pyfloat.splits)

lemma fold_pick:
  assumes "finite_or_none m \<noteq> None" "\<forall>v\<in>set vs. finite_or_none v \<noteq> None"
    and pick: "\<And>x y. finite_or_none x \<noteq> None \<Longrightarrow> finite_or_none y \<noteq> None \<Longrightarrow> better x y \<longleftrightarrow> g (number_value x) < (g (number_value y) :: rat)"
  shows "finite_or_none (foldl (\<lambda>m x. if better x m then x else m) m vs) \<noteq> None \<and>
    (\<forall>v\<in>insert m (set vs). g (number_value (foldl (\<lambda>m x. if better x m then x else m) m vs)) \<le> g (number_value v))"
  using assms(1,2)
proof (induction vs arbitrary: m)
  case (Cons v vs)
  let ?m = "if better v m then v else m"
  have fin: "finite_or_none ?m \<noteq> None" using Cons.prems by simp
  have le: "g (number_value ?m) \<le> g (number_value m)" "g (number_value ?m) \<le> g (number_value v)"
    using pick [of v m] Cons.prems by (auto simp: not_less)
  show ?case using Cons.IH [OF fin] Cons.prems(2) le by (auto intro: order_trans)
qed simp

lemma list_min_le:
  assumes "\<forall>v\<in>set vs. finite_or_none v \<noteq> None" "v \<in> set vs"
  shows "number_value (list_min vs) \<le> number_value v" "finite_or_none (list_min vs) \<noteq> None"
proof -
  obtain m us where vs: "vs = m # us" using assms(2) by (cases vs) auto
  have "number_less x y \<longleftrightarrow> number_value x < number_value y" if "finite_or_none x \<noteq> None" "finite_or_none y \<noteq> None" for x y
    using number_leq_value [of x y] number_leq_value [of y x] that by (auto simp: number_less_def)
  from fold_pick [of m us number_less "\<lambda>x. x", OF _ _ this] assms vs
  show "number_value (list_min vs) \<le> number_value v" "finite_or_none (list_min vs) \<noteq> None"
    by (auto simp: list_min_def)
qed

lemma list_max_ge:
  assumes "\<forall>v\<in>set vs. finite_or_none v \<noteq> None" "v \<in> set vs"
  shows "number_value v \<le> number_value (list_max vs)" "finite_or_none (list_max vs) \<noteq> None"
proof -
  obtain m us where vs: "vs = m # us" using assms(2) by (cases vs) auto
  have "number_less y x \<longleftrightarrow> - number_value x < - number_value y" if "finite_or_none x \<noteq> None" "finite_or_none y \<noteq> None" for x y
    using number_leq_value [of x y] number_leq_value [of y x] that by (auto simp: number_less_def)
  from fold_pick [of m us "\<lambda>x m. number_less m x" uminus, OF _ _ this] assms vs
  show "number_value v \<le> number_value (list_max vs)" "finite_or_none (list_max vs) \<noteq> None"
    by (auto simp: list_max_def)
qed

lemma numbers_within:
  assumes "numbers_fault lo hi (JList vs) = None" "clean True (JList vs)" "v \<in> set vs"
  shows "\<exists>x. finite_or_none v = Some x \<and> lo \<le> x \<and> x \<le> hi"
proof -
  have fin: "\<forall>v\<in>set vs. finite_or_none v \<noteq> None"
    using assms(1,2) by (auto simp: numbers_fault_def list_all_iff is_number_def finite_or_none_def scalar_fault_def
        split: json.splits pyfloat.splits if_splits)
  have b: "number_leq (JFloat (Fin lo)) (list_min vs)" "number_leq (list_max vs) (JFloat (Fin hi))"
    using assms(1,3) by (auto simp: numbers_fault_def split: if_splits)
  have "lo \<le> number_value (list_min vs)" "number_value (list_max vs) \<le> hi"
    using b list_min_le(2) [OF fin assms(3)] list_max_ge(2) [OF fin assms(3)]
    by (simp_all add: number_leq_value) (simp_all add: number_value_def finite_or_none_def)
  then show ?thesis
    using list_min_le(1) [OF fin assms(3)] list_max_ge(1) [OF fin assms(3)] fin assms(3)
    by (auto simp: number_value_def split: option.splits)
qed

lemma given_profile_sound:
  assumes "conforms (OptionalField ElevationProfileModel) ep" "clean True ep"
  shows "repair_profile (given_profile ep) = (given_profile ep, False)"
proof (cases "given_profile ep")
  case (Some p)
  then obtain d ds es where d: "ep = JDict d" "dget d ''distances_km'' = JList ds" "dget d ''elevations_m'' = JList es" "p = (ds, es)"
    by (auto simp: given_profile_def split: json.splits)
  have c: "numbers_fault 0 (DISTANCE_MAX_M / 1000) (JList ds) = None" "numbers_fault ELEVATION_MIN_M ELEVATION_MAX_M (JList es) = None"
    using assms(1) d by (auto simp: ElevationProfileModel_def Distances_def Elevations_def dget_def split: option.splits)
  have cl: "clean True (JList ds)" "clean True (JList es)"
    using clean_get_or [OF assms(2) [unfolded d(1)] clean_defaults(1)] d(2,3) by (metis dget_dget_or)+
  have "\<not> profile_needs_repair p"
    using numbers_within [OF c(1) cl(1)] numbers_within [OF c(2) cl(2)] d(4)
    by (fastforce simp: profile_needs_repair_def all_within_iff between_def)
  then show ?thesis using Some by (simp add: repair_profile_def)
qed (simp add: repair_profile_def)

lemma gain_sound: "conforms Gain v \<or> conforms (OptionalField Gain) v \<or> v = JNull \<Longrightarrow> \<not> bad_gain v"
  by (auto simp: bad_gain_def Gain_def bounded_by_iff)

lemma elevation_sound: "conforms (OptionalField ElevationF) v \<Longrightarrow> \<not> bad_elevation v"
  by (auto simp: bad_elevation_def ElevationF_def bounded_by_iff plausible_elevation_def)

lemma elapsed_sound: "conforms Duration v \<or> conforms (OptionalField Duration) v \<or> v = JNull \<Longrightarrow> repair_elapsed v m = v"
  by (auto simp: repair_elapsed_def Duration_def bounded_by_iff is_number_def)

lemma fits_or_null: "fits d k s \<Longrightarrow> conforms s (dget d k) \<or> dget d k = JNull"
  by (simp add: fits_def dget_def split: option.splits)

lemma repair_figures_same:
  assumes c: "conforms ActivityModel (JDict d)" and cl: "clean True (JDict d)" and pre: "pre = [] \<or> pre = ''original_''"
  shows "repair_figures sq d pre b = Inr d"
proof -
  note f = activity_fits [OF c]
  have fs: "fits d (pre @ ''elevation_profile'') (OptionalField ElevationProfileModel)"
    "fits d (pre @ ''total_elevation_gain'') Gain \<or> fits d (pre @ ''total_elevation_gain'') (OptionalField Gain)"
    "fits d (pre @ ''elev_high'') (OptionalField ElevationF)" "fits d (pre @ ''elev_low'') (OptionalField ElevationF)"
    "fits d (pre @ ''elapsed_time'') Duration \<or> fits d (pre @ ''elapsed_time'') (OptionalField Duration)"
    using f pre by (auto simp del: conforms.simps)
  have clep: "clean True (dget d k)" for k unfolding dget_dget_or by (rule clean_get_or [OF cl clean_defaults(1)])
  have ep: "conforms (OptionalField ElevationProfileModel) (dget d (pre @ ''elevation_profile''))"
    unfolding dget_dget_or by (rule fits_get_opt [OF fs(1)])
  have g: "\<not> bad_gain (dget d (pre @ ''total_elevation_gain''))"
    by (rule gain_sound) (use fs(2) fits_or_null in blast)
  have hl: "\<not> bad_elevation (dget d (pre @ ''elev_high''))" "\<not> bad_elevation (dget d (pre @ ''elev_low''))"
    unfolding dget_dget_or by (rule elevation_sound [OF fits_get_opt [OF fs(3)]], rule elevation_sound [OF fits_get_opt [OF fs(4)]])
  have el: "repair_elapsed (dget d (pre @ ''elapsed_time'')) m = dget d (pre @ ''elapsed_time'')" for m
    by (rule elapsed_sound) (use fs(5) fits_or_null in blast)
  show ?thesis
    using g hl given_profile_sound [OF ep clep] by (simp add: repair_figures_def repair_elevations_def el Let_def)
qed

lemma repair_prefix_same:
  assumes "\<forall>u\<in>set acts. conforms ActivityModel u \<and> clean True u" and pre: "pre = [] \<or> pre = ''original_''"
  shows "\<exists>known'. repair_prefix sq i (acts, known) pre = Inr (acts, known')"
proof (cases "activity_at acts i")
  case (Some d)
  then have i: "i < length acts" "acts ! i = JDict d" by (auto simp: activity_at_def split: if_splits json.splits)
  then have "conforms ActivityModel (JDict d)" "clean True (JDict d)" using assms(1) nth_mem by metis+
  then have "repair_figures sq d pre b = Inr d" for b using repair_figures_same pre by blast
  then show ?thesis using Some i by (simp add: repair_prefix_def case_prod_beta list_update_same_conv)
qed (simp add: repair_prefix_def)

lemma repair_loop_same:
  assumes "\<forall>u\<in>set acts. conforms ActivityModel u \<and> clean True u"
  shows "\<exists>known'. repair_loop sq is (acts, known) = Inr (acts, known')"
proof (induction "is" arbitrary: known)
  case (Cons i "is")
  obtain k1 where k1: "repair_prefix sq i (acts, known) [] = Inr (acts, k1)" using repair_prefix_same [OF assms] by blast
  obtain k2 where k2: "repair_prefix sq i (acts, k1) ''original_'' = Inr (acts, k2)" using repair_prefix_same [OF assms] by blast
  show ?case using Cons.IH [of k2] k1 k2 by simp
qed simp

lemma normalise_document_same:
  assumes c: "conforms TripModel (JDict doc)" and cl: "clean True (JDict doc)" and "styled doc"
  shows "normalise_document sq doc = Inr doc"
proof -
  have f: "fits doc ''day_meta'' (OptionalField (DictOf DayMetaModel))" "fits doc ''activities'' (ListOf ActivityModel)"
    using c unfolding TripModel_def conforms_model by simp_all
  have "conforms (OptionalField (DictOf DayMetaModel)) (dget doc ''day_meta'')"
    unfolding dget_dget_or by (rule fits_get_opt [OF f(1)])
  then have days: "put_present doc ''day_meta'' (normalise_days (dget doc ''day_meta'')) = doc"
    by (simp add: normalise_days_same del: conforms.simps)
  show ?thesis
  proof (cases "\<exists>acts. dget doc ''activities'' = JList acts")
    case True
    then obtain acts where acts: "dget doc ''activities'' = JList acts" by blast
    have "conforms (ListOf ActivityModel) (JList acts)" using fits_or_null [OF f(2)] acts by simp
    moreover have "clean True (JList acts)" using clean_get_or [OF cl clean_defaults(1), of "''activities''"] acts by (metis dget_dget_or)
    ultimately have "\<forall>u\<in>set acts. conforms ActivityModel u \<and> clean True u" by (simp add: list_all_iff)
    then have "normalise_activities sq acts = Inr acts"
      using repair_loop_same [of acts sq "[0..<length acts]" "\<lambda>_. None"] by (auto simp: normalise_activities_def)
    then show ?thesis
      using acts days dict_put_dget [of doc "''activities''"] by (simp add: normalise_document_def normalise_style_same [OF assms(3)])
  next
    case False
    then show ?thesis using days by (auto simp: normalise_document_def normalise_style_same [OF assms(3)] split: json.splits)
  qed
qed

subsection \<open>A document without fault\<close>

definition trip_ok :: "(string \<times> json) list \<Rightarrow> bool" where
  "trip_ok doc \<longleftrightarrow> conforms TripModel (JDict doc) \<and> clean True (JDict doc) \<and> (\<forall>x\<in>set (document_items doc). conforms (item_schema x) x)"

lemma fault_None:
  assumes "documented v"
  shows "fault v doc = None \<longleftrightarrow> trip_ok doc"
proof -
  have c: "v s w = None \<longleftrightarrow> conforms s w" for s w using assms unfolding documented_def by blast
  show ?thesis
    using walk_clean [of True doc] c [of TripModel "JDict doc"] items_fault_None [OF assms]
    by (auto simp: fault_def trip_ok_def simp del: conforms.simps clean.simps split: option.splits)
qed

text \<open>A document that is in order and styled is read as it stands.\<close>

lemma check_fresh:
  assumes "documented v" "trip_ok doc" "styled doc"
  shows "check v sq doc = Inr (None, doc)"
proof -
  have ok: "conforms TripModel (JDict doc)" "clean True (JDict doc)" using assms(2) by (simp_all add: trip_ok_def)
  have "bad_value False (JDict doc) = None" using walk_clean [of False doc] clean_weaken [OF ok(2)] by simp
  then show ?thesis
    using normalise_document_same [OF ok assms(3)] fault_None [OF assms(1), of doc] assms(2) by (simp add: check_def)
qed

lemma dget_dict_put [simp]: "dget (dict_put k v d) k' = (if k' = k then v else dget d k')"
  by (simp add: dget_def)

lemma normalise_style_effect:
  "k \<in> {''track_color'', ''track_secondary_color'', ''elevation_chart_color''} \<Longrightarrow> dget (normalise_style doc) k = JStr s \<Longrightarrow> is_colour s"
  "finite_or_none (dget (normalise_style doc) ''track_width'') = Some w \<Longrightarrow> 0 < w \<and> w \<le> TRACK_WIDTH_MAX"
proof -
  have c: "dget (drop_colour d key) k' = (case dget d k' of JStr t \<Rightarrow> if k' = key \<and> \<not> is_colour t then JNull else JStr t | x \<Rightarrow> x)" for d key k'
    by (auto simp: drop_colour_def split: json.splits)
  have w: "dget (drop_width d) k' = (if k' = ''track_width'' \<and> (case finite_or_none (dget d k') of Some w \<Rightarrow> \<not> (0 < w \<and> w \<le> TRACK_WIDTH_MAX) | None \<Rightarrow> False)
      then JNull else dget d k')" for d k'
    by (auto simp: drop_width_def split: option.splits)
  show "k \<in> {''track_color'', ''track_secondary_color'', ''elevation_chart_color''} \<Longrightarrow> dget (normalise_style doc) k = JStr s \<Longrightarrow> is_colour s"
    by (auto simp: normalise_style_def c w split: json.splits if_splits)
  have "finite_or_none JNull = None" by (simp add: finite_or_none_def)
  then show "finite_or_none (dget (normalise_style doc) ''track_width'') = Some w \<Longrightarrow> 0 < w \<and> w \<le> TRACK_WIDTH_MAX"
    by (auto simp: normalise_style_def w split: if_splits option.splits)
qed

lemma optional_text: "conforms (OptionalField StrField) v \<longleftrightarrow> v = JNull \<or> (\<exists>s. v = JStr s)"
  by (cases v) simp_all

lemma check_styled:
  assumes "documented v" "check v sq d = Inr (None, doc)"
  shows "trip_ok doc \<and> styled doc"
proof -
  have n: "normalise_document sq d = Inr doc" and ok: "trip_ok doc"
    using assms(2) fault_None [OF assms(1), of doc] by (auto simp: check_def rbind_def split: option.splits sum.splits)
  define doc2 where "doc2 = normalise_style (put_present d ''day_meta'' (normalise_days (dget d ''day_meta'')))"
  have same: "k \<noteq> ''activities'' \<Longrightarrow> dget doc k = dget doc2 k" for k
    using n by (auto simp: normalise_document_def Let_def doc2_def rbind_def split: json.splits sum.splits)
  have f: "fits doc ''track_color'' (OptionalField StrField)" "fits doc ''track_secondary_color'' (OptionalField StrField)"
    "fits doc ''elevation_chart_color'' (OptionalField StrField)" "fits doc ''track_width'' (OptionalField FloatField)"
    using ok unfolding trip_ok_def TripModel_def conforms_model by simp_all
  have t: "dget doc k = JNull \<or> (\<exists>s. dget doc k = JStr s)"
    if "k \<in> {''track_color'', ''track_secondary_color'', ''elevation_chart_color''}" for k
    using that fits_get_opt [OF f(1)] fits_get_opt [OF f(2)] fits_get_opt [OF f(3)]
    unfolding optional_text dget_dget_or [symmetric] by blast
  have col: "dget doc k = JNull \<or> (\<exists>s. dget doc k = JStr s \<and> is_colour s)"
    if k: "k \<in> {''track_color'', ''track_secondary_color'', ''elevation_chart_color''}" for k
    using t [OF k] same [of k] normalise_style_effect(1) [OF k] k by (auto simp: doc2_def)
  have "clean True (dget doc ''track_width'')"
    unfolding dget_dget_or using ok clean_get_or [OF _ clean_defaults(1)] by (simp add: trip_ok_def)
  moreover have "conforms (OptionalField FloatField) (dget doc ''track_width'')"
    unfolding dget_dget_or by (rule fits_get_opt [OF f(4)])
  ultimately have "dget doc ''track_width'' = JNull \<or> (\<exists>w. finite_or_none (dget doc ''track_width'') = Some w)"
    by (auto simp: is_number_def scalar_fault_def finite_or_none_def split: json.splits pyfloat.splits)
  then show ?thesis
    using ok col same [of "''track_width''"] normalise_style_effect(2) by (auto simp: styled_def doc2_def)
qed

subsection \<open>The settings of a trip\<close>

lemma as_list_list [simp]: "as_list (JList xs) = Some xs" "as_list JNull = Some []"
  by (simp_all add: as_list_def)

lemma read_list_field:
  assumes "conforms (OptionalField (ListOf s)) v" "clean fl v"
  shows "\<exists>xs. as_list v = Some xs \<and> conforms (ListOf s) (JList xs) \<and> clean fl (JList xs)"
  using assms by (cases v) auto

lemma read_dict_field:
  assumes "conforms (OptionalField (DictOf s)) v" "clean fl v"
  shows "\<exists>d. as_dict v = Some d \<and> conforms (DictOf s) (JDict d) \<and> clean fl (JDict d)"
  using assms by (cases v) auto

lemma read_filter_state:
  assumes "fits doc ''filter_state'' (OptionalField FilterStateModel)" "clean fl (JDict doc)"
  shows "\<exists>f. filter_state_from doc = Some f \<and> conforms FilterStateModel (filter_state_to f) \<and> clean fl (filter_state_to f) \<and>
    (\<forall>d. dget d ''filter_state'' = filter_state_to f \<longrightarrow> filter_state_from d = Some f)"
proof -
  have v: "conforms (OptionalField FilterStateModel) (dget doc ''filter_state'')" "clean fl (dget doc ''filter_state'')"
    unfolding dget_dget_or by (rule fits_get_opt [OF assms(1)], rule clean_get_or [OF assms(2) clean_defaults(1)])
  obtain e where e: "as_dict (dget doc ''filter_state'') = Some e" "conforms FilterStateModel (JDict e)" "clean fl (JDict e)"
  proof (cases "dget doc ''filter_state'' = JNull")
    case True
    then show thesis using that [of "[]"] by (simp add: FilterStateModel_def)
  next
    case False
    then have "conforms FilterStateModel (dget doc ''filter_state'')" using v(1) by simp
    then obtain e where "dget doc ''filter_state'' = JDict e" by (auto simp: FilterStateModel_def split: json.splits)
    then show thesis using that [of e] v False by (simp del: clean.simps)
  qed
  let ?f = "\<lparr>flt_start_date = dget e ''start_date'', flt_end_date = dget e ''end_date'', flt_activity_types = dget e ''activity_types''\<rparr>"
  have "filter_state_from doc = Some ?f" by (simp add: filter_state_from_def e(1))
  moreover have "conforms FilterStateModel (filter_state_to ?f)"
    using e(2) unfolding FilterStateModel_def conforms_model filter_state_to_def by (simp add: written_record del: conforms.simps)
  moreover have "clean fl (filter_state_to ?f)"
    using e(3) by (simp add: filter_state_to_def clean_record ascii_key del: clean.simps)
  moreover have "filter_state_from d = Some ?f" if "dget d ''filter_state'' = filter_state_to ?f" for d
    by (simp add: filter_state_from_def that) (simp add: filter_state_to_def)
  ultimately show ?thesis by blast
qed

lemma read_sleeping_options:
  assumes "fits doc ''sleeping_options'' (OptionalField (ListOf StrField))" "clean fl (JDict doc)"
  shows "conforms (ListOf StrField) (JList (sleeping_options_from doc)) \<and> clean fl (JList (sleeping_options_from doc)) \<and>
    (\<forall>d. dget d ''sleeping_options'' = JList (sleeping_options_from doc) \<longrightarrow> sleeping_options_from d = sleeping_options_from doc)"
proof -
  have v: "conforms (OptionalField (ListOf StrField)) (dget doc ''sleeping_options'')" "clean fl (dget doc ''sleeping_options'')"
    unfolding dget_dget_or by (rule fits_get_opt [OF assms(1)], rule clean_get_or [OF assms(2) clean_defaults(1)])
  have dflt: "conforms (ListOf StrField) (JList DEFAULT_SLEEPING_OPTIONS)" "clean fl (JList DEFAULT_SLEEPING_OPTIONS)"
    by (simp_all add: DEFAULT_SLEEPING_OPTIONS_def scalar_fault_def bad_text_def)
  have ne: "sleeping_options_from doc \<noteq> []"
    by (simp add: sleeping_options_from_def DEFAULT_SLEEPING_OPTIONS_def split: json.splits list.splits)
  then have "sleeping_options_from d = sleeping_options_from doc" if "dget d ''sleeping_options'' = JList (sleeping_options_from doc)" for d
    using that by (cases "sleeping_options_from doc") (simp_all add: sleeping_options_from_def)
  then show ?thesis using v dflt
    by (auto simp: sleeping_options_from_def simp del: conforms.simps(12) split: json.splits list.splits)
qed

lemma read_width:
  assumes "styled doc"
  shows "\<exists>w. float_of (json_or (dget doc ''track_width'') DEFAULT_TRACK_WIDTH) = Some (Fin w) \<and> 0 < w \<and> w \<le> TRACK_WIDTH_MAX"
proof -
  have big: "(50::rat) < float_limit" by (simp add: float_limit_def)
  have "(\<exists>n. dget doc ''track_width'' = JInt n \<and> 0 < n \<and> rat_of_int n \<le> 50) \<or> (\<exists>x. dget doc ''track_width'' = JFloat (Fin x) \<and> 0 < x \<and> x \<le> 50) \<or>
    dget doc ''track_width'' = JNull"
    using assms by (auto simp: styled_def TRACK_WIDTH_MAX_def finite_or_none_def split: json.splits pyfloat.splits)
  then show ?thesis
    using big by (elim disjE exE) (auto simp: json_or_def float_of_def to_float_def DEFAULT_TRACK_WIDTH_def TRACK_WIDTH_MAX_def abs_if
        intro: exI [of _ "5 / 2"])
qed

lemma flag_fits:
  assumes "fits doc k (OptionalField BoolField)"
  shows "\<exists>b'. flag_or doc k (JBool b) = JBool b'"
proof -
  have "conforms (OptionalField BoolField) (dget doc k)" unfolding dget_dget_or by (rule fits_get_opt [OF assms])
  then show ?thesis by (auto simp: flag_or_def split: json.splits)
qed

subsection \<open>The whole document\<close>

lemma trip_fits:
  assumes "conforms TripModel (JDict doc)"
  shows "fits doc ''version'' IntField \<and> fits doc ''name'' (OptionalField StrField) \<and> fits doc ''trip_start'' (OptionalField StrField) \<and>
    fits doc ''filter_state'' (OptionalField FilterStateModel) \<and> fits doc ''items'' (ListOf (DictOf AnyField)) \<and>
    fits doc ''activities'' (ListOf ActivityModel) \<and> fits doc ''people'' (ListOf PersonModel) \<and> fits doc ''groups'' (ListOf GroupModel) \<and>
    fits doc ''day_meta'' (OptionalField (DictOf DayMetaModel)) \<and> fits doc ''sleeping_options'' (OptionalField (ListOf StrField)) \<and>
    fits doc ''trip_end'' (OptionalField StrField) \<and> fits doc ''sleeping_option_groups'' (OptionalField (DictOf StrField)) \<and>
    fits doc ''counters'' (OptionalField (ListOf CounterModel)) \<and> fits doc ''track_color'' (OptionalField StrField) \<and>
    fits doc ''track_secondary_color'' (OptionalField StrField) \<and> fits doc ''track_width'' (OptionalField FloatField) \<and>
    fits doc ''alternating_track_colors'' (OptionalField BoolField) \<and> fits doc ''elevation_chart_color'' (OptionalField StrField) \<and>
    fits doc ''elevation_chart_show_line'' (OptionalField BoolField) \<and> fits doc ''color_by_type'' (OptionalField BoolField) \<and>
    fits doc ''type_styles'' (OptionalField (DictOf (DictOf AnyField))) \<and> fits doc ''languages'' (OptionalField (ListOf StrField)) \<and>
    map_of doc ''items'' \<noteq> None"
  using assms unfolding TripModel_def conforms_model by simp

text \<open>What is written of a trip, given the parts whose writing can fail.\<close>

definition written_trip :: "FileProject \<Rightarrow> (string \<times> json) list list \<Rightarrow> (string \<times> json) list" where
  "written_trip p its =
     [(''version'', fp_version p), (''lock_version'', fp_lock_version p), (''name'', fp_name p),
      (''trip_start'', fp_trip_start p), (''trip_end'', fp_trip_end p),
      (''filter_state'', filter_state_to (fp_filter_state p)), (''items'', JList (map JDict its)),
      (''activities'', JList (map (JDict \<circ> to_traxj_dict) (fp_activities p))),
      (''people'', JList (map (JDict \<circ> person_to_dict) (fp_people p))),
      (''groups'', JList (map (JDict \<circ> group_to_dict) (fp_groups p))),
      (''day_meta'', JDict (map (\<lambda>(dk, dm). (dk, JDict (day_to_dict dm))) (fp_day_meta p))),
      (''sleeping_options'', JList (fp_sleeping_options p)),
      (''sleeping_option_groups'', JDict (fp_sleeping_option_groups p)),
      (''counters'', JList (map counter_to_dict (fp_counters p))),
      (''track_color'', fp_track_color p), (''track_secondary_color'', fp_track_secondary_color p),
      (''track_width'', JFloat (fp_track_width p)),
      (''alternating_track_colors'', fp_alternating_track_colors p),
      (''elevation_chart_color'', fp_elevation_chart_color p),
      (''elevation_chart_show_line'', fp_elevation_chart_show_line p),
      (''color_by_type'', fp_color_by_type p), (''type_styles'', JDict (fp_type_styles p)),
      (''languages'', JList (fp_languages p))]"

lemma traxj_document_written:
  "those (map activity_out (fp_activities p)) = Some outs \<Longrightarrow> those (map serialise_item (fp_items p)) = Some its \<Longrightarrow>
     traxj_document p = Some (written_trip p its)"
  by (simp add: traxj_document_def to_dict_def items_out_def written_trip_def)

text \<open>A trip every part of which is in the format and reads back.\<close>

definition fit_trip :: "FileProject \<Rightarrow> bool" where
  "fit_trip p \<longleftrightarrow>
     conforms IntField (fp_version p) \<and> clean True (fp_version p) \<and> conforms (OptionalField StrField) (fp_name p) \<and> clean True (fp_name p) \<and>
     fp_lock_version p = JInt 0 \<and>
     conforms (OptionalField StrField) (fp_trip_start p) \<and> clean True (fp_trip_start p) \<and> json_or (fp_trip_start p) JNull = fp_trip_start p \<and>
     conforms (OptionalField StrField) (fp_trip_end p) \<and> clean True (fp_trip_end p) \<and> json_or (fp_trip_end p) JNull = fp_trip_end p \<and>
     conforms (DictOf StrField) (JDict (fp_sleeping_option_groups p)) \<and> clean True (JDict (fp_sleeping_option_groups p)) \<and>
     (\<exists>s. fp_track_color p = JStr s \<and> is_colour s) \<and> clean True (fp_track_color p) \<and>
     (fp_track_secondary_color p = JNull \<or> (\<exists>s. fp_track_secondary_color p = JStr s \<and> is_colour s)) \<and> clean True (fp_track_secondary_color p) \<and>
     (fp_elevation_chart_color p = JNull \<or> (\<exists>s. fp_elevation_chart_color p = JStr s \<and> is_colour s)) \<and> clean True (fp_elevation_chart_color p) \<and>
     (\<exists>w. fp_track_width p = Fin w \<and> 0 < w \<and> w \<le> TRACK_WIDTH_MAX) \<and>
     (\<exists>b. fp_alternating_track_colors p = JBool b) \<and> (\<exists>b. fp_elevation_chart_show_line p = JBool b) \<and> (\<exists>b. fp_color_by_type p = JBool b) \<and>
     conforms (DictOf (DictOf AnyField)) (JDict (fp_type_styles p)) \<and> clean True (JDict (fp_type_styles p)) \<and>
     conforms (ListOf StrField) (JList (fp_languages p)) \<and> clean True (JList (fp_languages p)) \<and>
     fp_activity_map p = activity_map (fp_activities p)"

text \<open>The parts that are read by functions of their own.\<close>

definition parts_kept :: "FileProject \<Rightarrow> (string \<times> json) list \<Rightarrow> pydatetime \<Rightarrow> bool" where
  "parts_kept p d later \<longleftrightarrow>
     conforms FilterStateModel (filter_state_to (fp_filter_state p)) \<and> clean True (filter_state_to (fp_filter_state p)) \<and>
     filter_state_from d = Some (fp_filter_state p) \<and>
     conforms (ListOf ActivityModel) (JList (map (JDict \<circ> to_traxj_dict) (fp_activities p))) \<and>
     clean True (JList (map (JDict \<circ> to_traxj_dict) (fp_activities p))) \<and>
     fst (parse_activities_or_log later (map (JDict \<circ> to_traxj_dict) (fp_activities p))) = fp_activities p \<and>
     conforms (ListOf PersonModel) (JList (map (JDict \<circ> person_to_dict) (fp_people p))) \<and>
     clean True (JList (map (JDict \<circ> person_to_dict) (fp_people p))) \<and>
     read_dicts (\<lambda>d. Some (person_from_dict d)) (JList (map (JDict \<circ> person_to_dict) (fp_people p))) = Some (fp_people p) \<and>
     conforms (ListOf GroupModel) (JList (map (JDict \<circ> group_to_dict) (fp_groups p))) \<and>
     clean True (JList (map (JDict \<circ> group_to_dict) (fp_groups p))) \<and>
     read_dicts (\<lambda>d. Some (group_from_dict d)) (JList (map (JDict \<circ> group_to_dict) (fp_groups p))) = Some (fp_groups p) \<and>
     (let days = JDict (map (\<lambda>(dk, dm). (dk, JDict (day_to_dict dm))) (fp_day_meta p)) in
      conforms (DictOf DayMetaModel) days \<and> clean True days \<and> days_from_json days = Some (fp_day_meta p)) \<and>
     conforms (ListOf StrField) (JList (fp_sleeping_options p)) \<and> clean True (JList (fp_sleeping_options p)) \<and>
     sleeping_options_from d = fp_sleeping_options p \<and>
     conforms (ListOf CounterModel) (JList (map counter_to_dict (fp_counters p))) \<and>
     clean True (JList (map counter_to_dict (fp_counters p))) \<and>
     read_dicts counter_from_dict (JList (map counter_to_dict (fp_counters p))) = Some (fp_counters p)"

lemma written_trip_ok:
  assumes fit: "fit_trip p" and kept: "parts_kept p (written_trip p its) later"
    and its: "\<forall>x\<in>set (map JDict its). conforms (DictOf AnyField) x \<and> conforms (item_schema x) x" "clean True (JList (map JDict its))"
  shows "trip_ok (written_trip p its) \<and> styled (written_trip p its)"
proof -
  note keep = parts_kept_def Let_def
  have days: "conforms (DictOf DayMetaModel) (JDict (map (\<lambda>(dk, dm). (dk, JDict (day_to_dict dm))) (fp_day_meta p)))"
    "clean True (JDict (map (\<lambda>(dk, dm). (dk, JDict (day_to_dict dm))) (fp_day_meta p)))"
    using kept by (simp_all add: keep del: conforms.simps clean.simps)
  have items: "conforms (ListOf (DictOf AnyField)) (JList (map JDict its))"
    using its(1) by (simp add: list_all_iff del: conforms.simps(11))
  have bools: "conforms (OptionalField BoolField) (fp_alternating_track_colors p)" "conforms (OptionalField BoolField) (fp_elevation_chart_show_line p)"
    "conforms (OptionalField BoolField) (fp_color_by_type p)" "clean True (fp_alternating_track_colors p)"
    "clean True (fp_elevation_chart_show_line p)" "clean True (fp_color_by_type p)"
    using fit by (auto simp: fit_trip_def scalar_fault_def)
  have colours: "conforms (OptionalField StrField) (fp_track_color p)" "conforms (OptionalField StrField) (fp_track_secondary_color p)"
    "conforms (OptionalField StrField) (fp_elevation_chart_color p)"
    using fit by (auto simp: fit_trip_def)
  obtain w where w: "fp_track_width p = Fin w" "0 < w" "w \<le> TRACK_WIDTH_MAX" using fit by (auto simp: fit_trip_def)
  have "conforms TripModel (JDict (written_trip p its))"
    using fit kept bools colours items days unfolding TripModel_def conforms_model
    by (simp add: written_trip_def fit_trip_def keep conforms_optional conforms_float conforms_figures del: conforms.simps)
  moreover have "clean True (JDict (written_trip p its))"
    using fit kept bools days its(2) w(1)
    by (simp add: written_trip_def fit_trip_def keep clean_record ascii_key del: conforms.simps clean.simps)
  moreover have "document_items (written_trip p its) = map JDict its"
    by (simp add: document_items_def written_trip_def)
  moreover have "styled (written_trip p its)"
    using fit w by (auto simp: styled_def written_trip_def fit_trip_def finite_or_none_def)
  ultimately show ?thesis using its(1) by (simp add: trip_ok_def)
qed

lemma written_trip_reads:
  assumes fit: "fit_trip p" and kept: "parts_kept p (written_trip p its) later"
    and its: "read_dicts deserialise_item (JList (map JDict its)) = Some (fp_items p)"
  shows "build_project later (written_trip p its) = Some (p\<lparr>fp_settings_carried := set SETTINGS\<rparr>)"
proof -
  have f: "filter_state_from (written_trip p its) = Some (fp_filter_state p)" "sleeping_options_from (written_trip p its) = fp_sleeping_options p"
    using kept by (simp_all add: parts_kept_def del: conforms.simps clean.simps)
  have a: "activities_from later (written_trip p its) = Some (fp_activities p)"
    using kept by (simp add: activities_from_def written_trip_def parts_kept_def del: conforms.simps clean.simps)
  have carried: "filter (\<lambda>k. map_of (written_trip p its) k \<noteq> None) SETTINGS = SETTINGS"
    by (simp add: SETTINGS_def written_trip_def)
  obtain w where w: "fp_track_width p = Fin w" "0 < w" using fit by (auto simp: fit_trip_def)
  have width: "float_of (json_or (JFloat (fp_track_width p)) DEFAULT_TRACK_WIDTH) = Some (fp_track_width p)"
    using w by (simp add: json_or_def float_of_def to_float_def)
  obtain s where "fp_track_color p = JStr s" "is_colour s" using fit by (auto simp: fit_trip_def)
  then have colour: "json_or (fp_track_color p) DEFAULT_TRACK_COLOR = fp_track_color p"
    by (auto simp: json_or_def is_colour_def)
  have counters: "json_or (JList xs) (JList []) = JList xs" for xs by (simp add: json_or_def)
  have flags: "fp_alternating_track_colors p \<noteq> JNull" "fp_elevation_chart_show_line p \<noteq> JNull" "fp_color_by_type p \<noteq> JNull"
    using fit by (auto simp: fit_trip_def)
  have days: "days_from_json (JDict (map (\<lambda>(dk, dm). (dk, JDict (day_to_dict dm))) (fp_day_meta p))) = Some (fp_day_meta p)"
    using kept by (simp add: parts_kept_def Let_def del: conforms.simps clean.simps)
  have rest: "read_dicts (\<lambda>d. Some (person_from_dict d)) (JList (map (JDict \<circ> person_to_dict) (fp_people p))) = Some (fp_people p)"
    "read_dicts (\<lambda>d. Some (group_from_dict d)) (JList (map (JDict \<circ> group_to_dict) (fp_groups p))) = Some (fp_groups p)"
    "read_dicts counter_from_dict (JList (map counter_to_dict (fp_counters p))) = Some (fp_counters p)"
    using kept by (simp_all add: parts_kept_def del: conforms.simps clean.simps)
  have s: "fp_lock_version p = JInt 0" "json_or (fp_trip_start p) JNull = fp_trip_start p" "json_or (fp_trip_end p) JNull = fp_trip_end p"
    "fp_activity_map p = activity_map (fp_activities p)"
    using fit by (simp_all add: fit_trip_def del: conforms.simps clean.simps)
  show ?thesis
    unfolding build_project_def f a carried
    using its width colour counters flags days rest s by (simp add: written_trip_def flag_or_def)
qed

lemma text_field:
  assumes "fits doc k (OptionalField StrField)" "clean True (JDict doc)"
  shows "conforms (OptionalField StrField) (dget doc k) \<and> clean True (dget doc k)"
  unfolding dget_dget_or using fits_get_opt [OF assms(1)] clean_get_or [OF assms(2) clean_defaults(1)] by blast

lemma read_colours:
  assumes "styled doc" "fits doc ''track_color'' (OptionalField StrField) \<and> fits doc ''track_secondary_color'' (OptionalField StrField) \<and>
      fits doc ''elevation_chart_color'' (OptionalField StrField)" "clean True (JDict doc)"
  shows "(\<exists>s. json_or (dget doc ''track_color'') DEFAULT_TRACK_COLOR = JStr s \<and> is_colour s) \<and>
     clean True (json_or (dget doc ''track_color'') DEFAULT_TRACK_COLOR) \<and>
     (dget doc ''track_secondary_color'' = JNull \<or> (\<exists>s. dget doc ''track_secondary_color'' = JStr s \<and> is_colour s)) \<and>
     clean True (dget doc ''track_secondary_color'') \<and>
     (dget doc ''elevation_chart_color'' = JNull \<or> (\<exists>s. dget doc ''elevation_chart_color'' = JStr s \<and> is_colour s)) \<and>
     clean True (dget doc ''elevation_chart_color'')"
proof -
  have "is_colour ''#F97316''" by (simp add: is_colour_def hex_val_def)
  then have "\<exists>s. json_or (dget doc ''track_color'') DEFAULT_TRACK_COLOR = JStr s \<and> is_colour s"
    using assms(1) by (auto simp: styled_def json_or_def DEFAULT_TRACK_COLOR_def is_colour_def)
  moreover have "clean True DEFAULT_TRACK_COLOR" by (simp add: DEFAULT_TRACK_COLOR_def scalar_fault_def bad_text_def)
  ultimately show ?thesis
    using assms(1) text_field [OF _ assms(3)] assms(2) by (simp add: styled_def clean_json_or del: clean.simps conforms.simps)
qed

lemma build_kept:
  assumes ok: "trip_ok doc" and st: "styled doc" and now: "valid_datetime now" "readable_offset (dt_offset now)"
  shows "\<exists>p its outs. build_project now doc = Some p \<and> fit_trip p \<and> (\<forall>later. parts_kept p (written_trip p its) later) \<and>
    those (map activity_out (fp_activities p)) = Some outs \<and> those (map serialise_item (fp_items p)) = Some its \<and>
    (\<forall>x\<in>set (map JDict its). conforms (DictOf AnyField) x \<and> conforms (item_schema x) x) \<and> clean True (JList (map JDict its)) \<and>
    read_dicts deserialise_item (JList (map JDict its)) = Some (fp_items p) \<and>
    length (fp_items p) = length (document_items doc) \<and>
    (case dget_or doc ''activities'' (JList []) of JList acts \<Rightarrow> map (parse_activity now) acts = map Some (fp_activities p) | _ \<Rightarrow> False) \<and>
    map fst (fp_day_meta p) = (case dget doc ''day_meta'' of JDict days \<Rightarrow> map fst days | _ \<Rightarrow> [])"
proof -
  have c: "conforms TripModel (JDict doc)" and cl: "clean True (JDict doc)" using ok by (simp_all add: trip_ok_def)
  note f = trip_fits [OF c]
  have get: "conforms s (dget_or doc k x) \<and> clean True (dget_or doc k x)" if "fits doc k s" "conforms s x" "clean True x" for s k x
    using fits_get [OF that(1,2)] clean_get_or [OF cl that(3)] by blast
  have getn: "conforms (OptionalField s) (dget doc k) \<and> clean True (dget doc k)" if "fits doc k (OptionalField s)" for s k
    unfolding dget_dget_or using get [OF that _ clean_defaults(1)] by simp
  obtain flt where flt: "filter_state_from doc = Some flt" "conforms FilterStateModel (filter_state_to flt)" "clean True (filter_state_to flt)"
    "\<And>d. dget d ''filter_state'' = filter_state_to flt \<Longrightarrow> filter_state_from d = Some flt"
    using read_filter_state [of doc True] f cl by blast
  obtain vs where vs: "dget_or doc ''activities'' (JList []) = JList vs" "conforms (ListOf ActivityModel) (JList vs)" "clean True (JList vs)"
    using get [of "''activities''" "ListOf ActivityModel" "JList []"] f by (cases "dget_or doc ''activities'' (JList [])") auto
  obtain acts outs where acts: "fst (parse_activities_or_log now vs) = acts" "map (parse_activity now) vs = map Some acts"
    "conforms (ListOf ActivityModel) (JList (map (JDict \<circ> to_traxj_dict) acts))" "clean True (JList (map (JDict \<circ> to_traxj_dict) acts))"
    "\<And>later. fst (parse_activities_or_log later (map (JDict \<circ> to_traxj_dict) acts)) = acts" "those (map activity_out acts) = Some outs"
    using read_activities [OF vs(2,3) now] by blast
  obtain us where us: "dget doc ''items'' = JList us" "\<forall>x\<in>set us. conforms (DictOf AnyField) x" "clean True (JList us)"
  proof -
    obtain v where v: "map_of doc ''items'' = Some v" "conforms (ListOf (DictOf AnyField)) v"
      using f by (auto simp: fits_def simp del: conforms.simps)
    then show thesis using that clean_get [OF cl v(1)] by (cases v) (auto simp: dget_def list_all_iff simp del: conforms.simps(11))
  qed
  have us': "document_items doc = us" using us(1) by (simp add: document_items_def)
  then have "\<forall>x\<in>set us. conforms (DictOf AnyField) x \<and> conforms (item_schema x) x" using us(2) ok by (simp add: trip_ok_def)
  from read_items [OF this us(3)] obtain xs its where
    its: "read_dicts deserialise_item (JList us) = Some xs" "length xs = length us" "those (map serialise_item xs) = Some its"
    "\<forall>x\<in>set (map JDict its). conforms (DictOf AnyField) x \<and> conforms (item_schema x) x" "clean True (JList (map JDict its))"
    "read_dicts deserialise_item (JList (map JDict its)) = Some xs" by blast
  obtain days where days: "days_from_json (dget doc ''day_meta'') = Some days"
    "(let out = JDict (map (\<lambda>(dk, dm). (dk, JDict (day_to_dict dm))) days) in
       conforms (DictOf DayMetaModel) out \<and> clean True out \<and> days_from_json out = Some days)"
    "map fst days = (case dget doc ''day_meta'' of JDict d \<Rightarrow> map fst d | _ \<Rightarrow> [])"
    using read_days getn f by blast
  have e: "conforms (ListOf s) (JList [])" "clean True (JList [])" for s by simp_all
  obtain people where people: "read_dicts (\<lambda>d. Some (person_from_dict d)) (dget_or doc ''people'' (JList [])) = Some people"
    "conforms (ListOf PersonModel) (JList (map (JDict \<circ> person_to_dict) people))" "clean True (JList (map (JDict \<circ> person_to_dict) people))"
    "read_dicts (\<lambda>d. Some (person_from_dict d)) (JList (map (JDict \<circ> person_to_dict) people)) = Some people"
    using read_people get [OF _ e] f by blast
  obtain groups where groups: "read_dicts (\<lambda>d. Some (group_from_dict d)) (dget_or doc ''groups'' (JList [])) = Some groups"
    "conforms (ListOf GroupModel) (JList (map (JDict \<circ> group_to_dict) groups))" "clean True (JList (map (JDict \<circ> group_to_dict) groups))"
    "read_dicts (\<lambda>d. Some (group_from_dict d)) (JList (map (JDict \<circ> group_to_dict) groups)) = Some groups"
    using read_groups get [OF _ e] f by blast
  obtain sg where sg: "as_dict (dget doc ''sleeping_option_groups'') = Some sg" "conforms (DictOf StrField) (JDict sg)" "clean True (JDict sg)"
    using read_dict_field getn f by blast
  obtain ty where ty: "as_dict (dget doc ''type_styles'') = Some ty" "conforms (DictOf (DictOf AnyField)) (JDict ty)" "clean True (JDict ty)"
    using read_dict_field getn f by blast
  obtain la where la: "as_list (dget doc ''languages'') = Some la" "conforms (ListOf StrField) (JList la)" "clean True (JList la)"
    using read_list_field getn f by blast
  have "conforms (ListOf CounterModel) (json_or (dget doc ''counters'') (JList []))" "clean True (json_or (dget doc ''counters'') (JList []))"
    using getn [of "''counters''" "ListOf CounterModel"] f by (simp_all add: conforms_json_or e clean_json_or del: conforms.simps clean.simps)
  then obtain ctrs where ctrs: "read_dicts counter_from_dict (json_or (dget doc ''counters'') (JList [])) = Some ctrs"
    "conforms (ListOf CounterModel) (JList (map counter_to_dict ctrs))" "clean True (JList (map counter_to_dict ctrs))"
    "read_dicts counter_from_dict (JList (map counter_to_dict ctrs)) = Some ctrs"
    using read_counters by blast
  obtain w where w: "float_of (json_or (dget doc ''track_width'') DEFAULT_TRACK_WIDTH) = Some (Fin w)" "0 < w" "w \<le> TRACK_WIDTH_MAX"
    using read_width [OF st] by blast
  note sl = read_sleeping_options [of doc True]
  obtain b1 b2 b3 where fl: "flag_or doc ''alternating_track_colors'' (JBool False) = JBool b1"
    "flag_or doc ''elevation_chart_show_line'' (JBool True) = JBool b2" "flag_or doc ''color_by_type'' (JBool False) = JBool b3"
    using flag_fits f by metis
  define p where "p = the (build_project now doc)"
  have b: "build_project now doc = Some p"
    by (simp add: p_def build_project_def activities_from_def flt(1) vs(1) its(1) us(1) days(1) people(1) groups(1) sg(1) ctrs(1) w(1) ty(1) la(1))
  have p: "p = \<lparr>fp_name = dget_or doc ''name'' (JStr ''Untitled''), fp_version = dget_or doc ''version'' (JInt 1),
                fp_lock_version = JInt 0, fp_items = xs, fp_filter_state = flt,
                fp_trip_start = json_or (dget doc ''trip_start'') JNull,
                fp_trip_end = json_or (dget doc ''trip_end'') JNull, fp_day_meta = days,
                fp_sleeping_options = sleeping_options_from doc, fp_sleeping_option_groups = sg,
                fp_counters = ctrs, fp_activities = acts, fp_people = people, fp_groups = groups,
                fp_track_color = json_or (dget doc ''track_color'') DEFAULT_TRACK_COLOR,
                fp_track_secondary_color = dget doc ''track_secondary_color'', fp_track_width = Fin w,
                fp_alternating_track_colors = JBool b1,
                fp_elevation_chart_color = dget doc ''elevation_chart_color'',
                fp_elevation_chart_show_line = JBool b2, fp_color_by_type = JBool b3, fp_type_styles = ty,
                fp_languages = la,
                fp_settings_carried = set (filter (\<lambda>k. map_of doc k \<noteq> None) SETTINGS),
                fp_activity_map = activity_map acts\<rparr>"
    by (simp add: p_def build_project_def activities_from_def flt(1) vs(1) acts(1) its(1) us(1) days(1) people(1) groups(1) sg(1) ctrs(1) w(1) ty(1) la(1) fl)
  have colours: "(\<exists>s. fp_track_color p = JStr s \<and> is_colour s)" "clean True (fp_track_color p)"
    "fp_track_secondary_color p = JNull \<or> (\<exists>s. fp_track_secondary_color p = JStr s \<and> is_colour s)" "clean True (fp_track_secondary_color p)"
    "fp_elevation_chart_color p = JNull \<or> (\<exists>s. fp_elevation_chart_color p = JStr s \<and> is_colour s)" "clean True (fp_elevation_chart_color p)"
    using read_colours [OF st _ cl] f by (simp_all add: p del: clean.simps)
  have fit: "fit_trip p"
    unfolding fit_trip_def
    using colours f getn [of "''trip_start''" StrField] getn [of "''trip_end''" StrField] sg ty la w fl
      get [of "''version''" IntField "JInt 1"] get [of "''name''" "OptionalField StrField" "JStr ''Untitled''"]
    by (simp add: p conforms_json_or conforms_optional conforms_defaults conforms_figures clean_json_or clean_defaults clean_words del: conforms.simps clean.simps)
  have kept: "parts_kept p (written_trip p its) later" for later
    unfolding parts_kept_def using flt acts people groups days ctrs sl f cl by (simp add: p written_trip_def del: conforms.simps clean.simps)
  show ?thesis
    using b fit kept acts(2,6) its us' vs(1) days(3) by (intro exI [of _ p] exI [of _ its] exI [of _ outs]) (simp add: p del: conforms.simps clean.simps)
qed

subsection \<open>Properties\<close>

definition read_whole :: "pydatetime \<Rightarrow> (string \<times> json) list \<Rightarrow> FileProject \<Rightarrow> bool" where
  "read_whole now doc p \<longleftrightarrow>
     length (fp_items p) = length (document_items doc) \<and>
     (case dget_or doc ''activities'' (JList []) of
        JList acts \<Rightarrow> map (parse_activity now) acts = map Some (fp_activities p)
      | _ \<Rightarrow> False) \<and>
     map fst (fp_day_meta p) = (case dget doc ''day_meta'' of JDict days \<Rightarrow> map fst days | _ \<Rightarrow> [])"

lemma checked_document_builds:
  assumes "documented v" "check v sq d = Inr (None, doc)" "valid_datetime now" "readable_offset (dt_offset now)"
  shows "\<exists>p. build_project now doc = Some p \<and> read_whole now doc p"
proof -
  have "trip_ok doc" "styled doc" using check_styled [OF assms(1,2)] by simp_all
  from build_kept [OF this assms(3,4)] show ?thesis unfolding read_whole_def by blast
qed

text \<open>C39. A file is imported whole or refused. When the check finds no fault, reading the document raises nothing:
  every item, every activity and every day of it is in the trip, none dropped. Otherwise the answer is the
  refusal of a document that is no trip or the fault the check found; the only other exception is the one the
  repair of a profile without samples raises.\<close>

theorem import_is_whole_or_refused:
  assumes "documented v" "valid_datetime now" "readable_offset (dt_offset now)"
  shows "case from_dict v sq now data of
      Inr p \<Rightarrow> \<exists>d doc. data = JDict d \<and> check v sq d = Inr (None, doc) \<and> read_whole now doc p
    | Inl (InvalidProjectFile (Fault m)) \<Rightarrow> \<exists>d doc. data = JDict d \<and> check v sq d = Inr (Some m, doc)
    | Inl (InvalidProjectFile NoTrip) \<Rightarrow> \<not> (\<exists>d. data = JDict d \<and> map_of d ''items'' \<noteq> None)
    | Inl Raised \<Rightarrow> \<exists>d. data = JDict d \<and> check v sq d = Inl EmptyProfile
    | _ \<Rightarrow> False"
proof (cases "\<exists>d. data = JDict d \<and> map_of d ''items'' \<noteq> None")
  case True
  then obtain d where d: "data = JDict d" "map_of d ''items'' \<noteq> None" by blast
  show ?thesis
  proof (cases "check v sq d")
    case (Inl e)
    then show ?thesis using d by (cases e) (auto simp: from_dict_def)
  next
    case (Inr r)
    then obtain m doc where r: "check v sq d = Inr (m, doc)" by (cases r) simp
    show ?thesis
    proof (cases m)
      case None
      then obtain p where "build_project now doc = Some p" "read_whole now doc p"
        using checked_document_builds [OF assms(1) _ assms(2,3)] r by blast
      then show ?thesis using d r None by (auto simp: from_dict_def)
    qed (use d r in \<open>auto simp: from_dict_def\<close>)
  qed
next
  case False
  then show ?thesis by (auto simp: from_dict_def split: json.splits)
qed

text \<open>C40. What an import reads, an export writes back. The document an export makes of an imported trip is again one
  the import takes, and importing it, at any later time, gives the very same trip: its items and their contents,
  activities, days, people, groups, counters and every setting.\<close>

theorem exported_trip_reimports:
  assumes "documented v" "valid_datetime now" "readable_offset (dt_offset now)" "from_dict v sq now data = Inr p"
  shows "\<exists>doc. traxj_document p = Some doc \<and>
    (\<forall>later. from_dict v sq later (JDict doc) = Inr (p\<lparr>fp_settings_carried := set SETTINGS\<rparr>))"
proof -
  obtain d doc0 where c: "check v sq d = Inr (None, doc0)" "build_project now doc0 = Some p"
    using assms(4) by (auto simp: from_dict_def split: json.splits if_splits sum.splits option.splits)
  have "trip_ok doc0" "styled doc0" using check_styled [OF assms(1) c(1)] by simp_all
  from build_kept [OF this assms(2,3)] c(2) obtain its outs where
    fit: "fit_trip p" and kept: "\<And>later. parts_kept p (written_trip p its) later" and
    out: "those (map activity_out (fp_activities p)) = Some outs" "those (map serialise_item (fp_items p)) = Some its" and
    its: "\<forall>x\<in>set (map JDict its). conforms (DictOf AnyField) x \<and> conforms (item_schema x) x" "clean True (JList (map JDict its))"
      "read_dicts deserialise_item (JList (map JDict its)) = Some (fp_items p)"
    by auto
  have w: "traxj_document p = Some (written_trip p its)" by (rule traxj_document_written [OF out])
  have ok: "trip_ok (written_trip p its)" "styled (written_trip p its)"
    using written_trip_ok [OF fit kept its(1,2)] by simp_all
  have "map_of (written_trip p its) ''items'' \<noteq> None" by (simp add: written_trip_def)
  then have "from_dict v sq later (JDict (written_trip p its)) = Inr (p\<lparr>fp_settings_carried := set SETTINGS\<rparr>)" for later
    using check_fresh [OF assms(1) ok] written_trip_reads [OF fit kept its(3)] by (simp add: from_dict_def)
  then show ?thesis using w by blast
qed

text \<open>A trip of one activity and its item.\<close>

definition example_file :: "(string \<times> json) list" where
  "example_file =
     [(''items'', JList [JDict [(''item_type'', JStr ''activity''), (''activity_id'', JInt 7)]]),
      (''activities'', JList [JDict [(''id'', JInt 7), (''name'', JStr ''Col'')]])]"

lemma example_file_ok: "trip_ok example_file" "styled example_file"
proof -
  have "conforms ActivityModel (JDict [(''id'', JInt 7), (''name'', JStr ''Col'')])"
    unfolding ActivityModel_def conforms_model by simp
  then have "conforms TripModel (JDict example_file)"
    unfolding TripModel_def conforms_model by (simp add: example_file_def)
  moreover have "clean True (JDict example_file)"
    by (simp add: example_file_def scalar_fault_def bad_text_def TRIP_INT_MIN_def TRIP_INT_MAX_def)
  moreover have "\<forall>x\<in>set (document_items example_file). conforms (item_schema x) x"
    by (simp add: document_items_def example_file_def item_schema_def ITEMS_def ActivityItemModel_def)
  ultimately show "trip_ok example_file" by (simp add: trip_ok_def)
  show "styled example_file" by (simp add: styled_def example_file_def)
qed

lemma example_now_ok: "valid_datetime example_now" "readable_offset (dt_offset example_now)"
  by (simp_all add: example_now_def valid_datetime_def days_in_month_def valid_offset_def readable_offset_def)

lemma example_file_reads:
  "\<exists>p. from_dict strict_validator sq example_now (JDict example_file) = Inr p"
proof -
  have "map_of example_file ''items'' \<noteq> None" by (simp add: example_file_def)
  then show ?thesis
    using check_fresh [OF strict_documented example_file_ok] build_kept [OF example_file_ok example_now_ok]
    by (fastforce simp: from_dict_def)
qed

theorem import_is_whole_or_refused_witness:
  "\<exists>p. from_dict strict_validator (\<lambda>x. x) example_now (JDict example_file) = Inr p \<and>
     length (fp_items p) = 1 \<and> length (fp_activities p) = 1"
proof -
  obtain p where p: "from_dict strict_validator (\<lambda>x. x) example_now (JDict example_file) = Inr p" using example_file_reads by blast
  have "\<exists>d doc. JDict example_file = JDict d \<and> check strict_validator (\<lambda>x. x) d = Inr (None, doc) \<and> read_whole example_now doc p"
    using import_is_whole_or_refused [OF strict_documented example_now_ok, where sq = "\<lambda>x. x" and data = "JDict example_file"]
    unfolding p by simp
  then have "read_whole example_now example_file p" using check_fresh [OF strict_documented example_file_ok, of "\<lambda>x. x"] by auto
  then have "length (fp_items p) = 1" "map (parse_activity example_now) [JDict [(''id'', JInt 7), (''name'', JStr ''Col'')]] = map Some (fp_activities p)"
    by (simp_all add: read_whole_def example_file_def document_items_def)
  then show ?thesis using p arg_cong [of _ _ length] by fastforce
qed

theorem exported_trip_reimports_witness:
  "\<exists>p doc. from_dict strict_validator (\<lambda>x. x) example_now (JDict example_file) = Inr p \<and> traxj_document p = Some doc \<and>
     from_dict strict_validator (\<lambda>x. x) example_now (JDict doc) = Inr (p\<lparr>fp_settings_carried := set SETTINGS\<rparr>)"
proof -
  obtain p where p: "from_dict strict_validator (\<lambda>x. x) example_now (JDict example_file) = Inr p" using example_file_reads by blast
  show ?thesis using exported_trip_reimports [OF strict_documented example_now_ok p] p by blast
qed

text \<open>The exception an import can end in: a profile without samples beside an implausible figure. The file is answered
  with a server error, not with what is wrong with it.\<close>

definition empty_profile_file :: "(string \<times> json) list" where
  "empty_profile_file =
     [(''items'', JList []),
      (''activities'', JList [JDict
        [(''elevation_profile'', JDict [(''distances_km'', JList []), (''elevations_m'', JList [])]), (''elev_high'', JInt 65535)]])]"

theorem empty_profile_stops_the_import: "from_dict v sq now (JDict empty_profile_file) = Inl Raised"
proof -
  let ?a = "[(''elevation_profile'', JDict [(''distances_km'', JList []), (''elevations_m'', JList [])]), (''elev_high'', JInt 65535)]"
  have e: "\<not> profile_needs_repair ([], [])" by (simp add: profile_needs_repair_def all_within_iff)
  then have "repair_profile (Some ([], [])) = (Some ([], []), False)" by (simp add: repair_profile_def)
  then have "repair_elevations sq (Some ([], [])) JNull (JInt 65535) JNull b = Inl EmptyProfile" for b
    using e by (simp add: repair_elevations_def measured_def bad_gain_def bad_elevation_def plausible_elevation_def finite_or_none_def
        ELEVATION_MIN_M_def ELEVATION_MAX_M_def)
  then have "repair_figures sq ?a [] b = Inl EmptyProfile" for b
    by (simp add: repair_figures_def given_profile_def Let_def)
  moreover have "figures_typed ?a []" by (simp add: figures_typed_def is_reading_def is_number_def)
  ultimately have "repair_prefix sq 0 ([JDict ?a], known) [] = Inl EmptyProfile" for known
    by (simp add: repair_prefix_def activity_at_def case_prod_beta)
  then have acts: "normalise_activities sq [JDict ?a] = Inl EmptyProfile" by (simp add: normalise_activities_def)
  have style: "normalise_style empty_profile_file = empty_profile_file"
    by (rule normalise_style_same) (simp add: styled_def empty_profile_file_def)
  have days: "put_present empty_profile_file ''day_meta'' x = empty_profile_file" for x
    by (simp add: put_present_def empty_profile_file_def)
  have "dget empty_profile_file ''activities'' = JList [JDict ?a]" by (simp add: empty_profile_file_def)
  then have "normalise_document sq empty_profile_file = Inl EmptyProfile"
    by (simp only: normalise_document_def Let_def days style json.case acts rbind_simps)
  moreover have "clean False (JDict empty_profile_file)"
    by (simp add: empty_profile_file_def scalar_fault_def bad_text_def TRIP_INT_MIN_def TRIP_INT_MAX_def)
  ultimately have "check v sq empty_profile_file = Inl EmptyProfile" using walk_clean [of False empty_profile_file] by (simp add: check_def)
  moreover have "map_of empty_profile_file ''items'' \<noteq> None" by (simp add: empty_profile_file_def)
  ultimately show ?thesis by (simp add: from_dict_def)
qed

text \<open>A document without the settings: \<open>ProjectIO.save\<close> writes none of them but the dates, and no day's counters.\<close>

theorem saved_file_forgets_settings:
  assumes "save_document p = Some doc"
  shows "set (filter (\<lambda>k. map_of doc k \<noteq> None) SETTINGS) = {''trip_start'', ''trip_end''} \<and>
    (\<exists>days. map_of doc ''day_meta'' = Some (JDict days) \<and> (\<forall>d\<in>snd ` set days. \<exists>day. d = JDict day \<and> map_of day ''counters'' = None))"
proof
  obtain its where doc: "doc =
     [(''version'', fp_version p), (''name'', fp_name p), (''trip_start'', fp_trip_start p),
      (''trip_end'', fp_trip_end p), (''filter_state'', filter_state_to (fp_filter_state p)), (''items'', JList its),
      (''activities'', JList (map (JDict \<circ> to_traxj_dict) (fp_activities p))),
      (''people'', JList (map (JDict \<circ> person_to_dict) (fp_people p))),
      (''groups'', JList (map (JDict \<circ> group_to_dict) (fp_groups p))),
      (''day_meta'', JDict (map (\<lambda>(dk, dm). (dk, JDict (day_notes dm))) (fp_day_meta p))),
      (''sleeping_options'', JList (fp_sleeping_options p))]"
    using assms unfolding save_document_def by blast
  have keys: "map_of doc k \<noteq> None \<longleftrightarrow> k \<in> set (map fst doc)" for k by (simp add: map_of_eq_None_iff)
  show "set (filter (\<lambda>k. map_of doc k \<noteq> None) SETTINGS) = {''trip_start'', ''trip_end''}"
    unfolding keys by (simp add: SETTINGS_def doc insert_commute)
  have "map_of (day_notes dm) ''counters'' = None" for dm by (simp add: day_notes_def)
  moreover have "map_of doc ''day_meta'' = Some (JDict (map (\<lambda>(dk, dm). (dk, JDict (day_notes dm))) (fp_day_meta p)))"
    by (simp add: doc)
  ultimately show "\<exists>days. map_of doc ''day_meta'' = Some (JDict days) \<and>
      (\<forall>d\<in>snd ` set days. \<exists>day. d = JDict day \<and> map_of day ''counters'' = None)"
    by (auto simp: case_prod_beta)
qed

text \<open>A byte order mark before the text changes nothing.\<close>

lemma utf8_valid_BOM: "utf8_valid (map of_char (BOM @ raw)) = utf8_valid (map of_char raw)"
proof -
  have "utf8_width (map of_char (BOM @ raw) @ [0, 0, 0]) = Some 3"
    by (cases raw) (simp_all add: BOM_def utf8_width_def is_trail_def)
  then show ?thesis by (subst utf8_valid.simps) (simp add: BOM_def)
qed

theorem byte_order_mark_is_ignored:
  "take 3 raw \<noteq> BOM \<Longrightarrow> from_bytes v sq now (BOM @ raw) = from_bytes v sq now raw"
  by (simp add: from_bytes_def utf8_valid_BOM del: map_append) (simp add: BOM_def)

end
