(* ===== verification/ZipImport.thy ===== *)
theory ZipImport
  imports TripImport Usage
begin

text \<open>
  \<open>src/project/zip_import.py\<close>: an uploaded archive read into a trip and its photos, staged in a directory of the import.

  The standard library's reader is a parameter: an archive is what it answers of one, the end record, the entries
  with what their directory says, and what reading each gives, chunk by chunk, until the end or an error. So is
  \<open>write_photo_files\<close>: it stores a photo with its thumbnail, refuses it, or fails on the disk with or without having
  written the photo. An error of the import is a fault of the archive or some other exception.
\<close>

subsection \<open>Names in an archive\<close>

definition EXTENSION :: string where "EXTENSION = ''.traxj''"

definition ends_with :: "string \<Rightarrow> string \<Rightarrow> bool" where
  "ends_with suf s \<longleftrightarrow> length suf \<le> length s \<and> drop (length s - length suf) s = suf"

definition base_of :: "string \<Rightarrow> string" where
  "base_of name = rev (takeWhile (\<lambda>c. c \<noteq> CHR ''/'') (rev name))"

definition folder_of :: "string \<Rightarrow> string" where
  "folder_of name = take (length name - length (base_of name) - 1) name"

definition is_os_litter :: "string \<Rightarrow> string list \<Rightarrow> bool" where
  "is_os_litter name names =
     (if take 9 name = ''__MACOSX/'' then True
      else if take 2 (base_of name) \<noteq> ''._'' then False
      else (if folder_of name \<noteq> [] then folder_of name @ ''/'' @ drop 2 (base_of name) else drop 2 (base_of name)) \<in> set names)"

definition top_level :: "string \<Rightarrow> bool" where
  "top_level name \<longleftrightarrow> CHR ''/'' \<notin> set name"

definition archive_root :: "string list \<Rightarrow> string" where
  "archive_root names =
     (let kept = filter (\<lambda>n. \<not> is_os_litter n names) names in
      if list_ex (\<lambda>n. top_level n \<and> ends_with EXTENSION n) kept then []
      else if kept = [] \<or> list_ex top_level kept then []
      else
        (case remdups (map (takeWhile (\<lambda>c. c \<noteq> CHR ''/'')) kept) of
           [folder] \<Rightarrow> if folder = [] \<or> folder = ''.'' \<or> folder = ''..'' then [] else folder @ ''/''
         | _ \<Rightarrow> []))"

definition trip_files :: "string \<Rightarrow> string list \<Rightarrow> string list" where
  "trip_files top_dir names =
     filter (\<lambda>n. take (length top_dir) n = top_dir \<and> \<not> is_os_litter n names \<and> top_level (drop (length top_dir) n) \<and> ends_with EXTENSION n) names"

subsection \<open>Reading an entry\<close>

definition MAX_ENTRIES :: nat where "MAX_ENTRIES = 20000"
definition MAX_CENTRAL_DIRECTORY_BYTES :: nat where "MAX_CENTRAL_DIRECTORY_BYTES = MAX_ENTRIES * 512"
definition MAX_TRIP_FILE_BYTES :: nat where "MAX_TRIP_FILE_BYTES = 50 * 1024 * 1024"
definition MAX_STAGED_PHOTO_BYTES :: nat where "MAX_STAGED_PHOTO_BYTES = 1024 * 1024 * 1024"
definition MAX_PHOTO_BYTES :: nat where "MAX_PHOTO_BYTES = 25 * 1024 * 1024"
definition LOCAL_HEADER_BYTES :: int where "LOCAL_HEADER_BYTES = 30"

text \<open>\<open>ZIP_STORED\<close> and \<open>ZIP_DEFLATED\<close>.\<close>

definition METHODS :: "nat list" where "METHODS = [0, 8]"

record zip_entry =
  ze_filename :: string
  ze_header_offset :: int
  ze_compress_type :: nat
  ze_file_size :: nat
  ze_chunks :: "string list"
  ze_broken :: bool

record archive =
  za_end_record :: "(nat \<times> nat) option"
  za_upload_size :: int
  za_infos :: "zip_entry list option"

datatype archive_fault =
    NotAnArchive | TooManyFiles | DirectoryTooLarge | SameName | NoTripFile | SeveralTripFiles
  | Damaged string | TooLarge string | UnsupportedMethod nat | BadTrip refusal | PhotosTooLarge | BadPhoto string

datatype zip_error = InvalidTripArchive archive_fault | OtherError

fun inflate :: "nat \<Rightarrow> string \<Rightarrow> bool \<Rightarrow> string list \<Rightarrow> string \<Rightarrow> (archive_fault, string) result" where
  "inflate limit what broken [] raw = (if broken then Inl (Damaged what) else Inr raw)"
| "inflate limit what broken (chunk # chunks) raw =
     (if chunk = [] then Inr raw
      else if length raw + length chunk > limit then Inl (TooLarge what)
      else inflate limit what broken chunks (raw @ chunk))"

definition read_entry :: "zip_entry \<Rightarrow> int \<Rightarrow> nat \<Rightarrow> string \<Rightarrow> (archive_fault, string) result" where
  "read_entry info upload_size limit what =
     (if \<not> (0 \<le> ze_header_offset info \<and> ze_header_offset info \<le> upload_size - LOCAL_HEADER_BYTES) then Inl (Damaged what)
      else if ze_compress_type info \<notin> set METHODS then Inl (UnsupportedMethod (ze_compress_type info))
      else if ze_file_size info > limit then Inl (TooLarge what)
      else inflate limit what (ze_broken info) (ze_chunks info) [])"

subsection \<open>Photos\<close>

text \<open>\<open>list(entry.photos or [])\<close>; a value that is not iterable raises.\<close>

definition photo_names :: "json \<Rightarrow> json list option" where
  "photo_names v =
     (if \<not> truthy v then Some []
      else case v of
        JList xs \<Rightarrow> Some xs
      | JStr s \<Rightarrow> Some (map (\<lambda>c. JStr [c]) s)
      | JDict kvs \<Rightarrow> Some (map (JStr \<circ> fst) kvs)
      | _ \<Rightarrow> None)"

definition photo_list :: "FileItem \<Rightarrow> (string \<times> int \<times> json list) list option" where
  "photo_list item =
     (let entry = (if fi_type item = ''memory'' then map_option (\<lambda>m. (mm_id m, mm_photos m)) (fi_memory item)
                   else if fi_type item = ''journal'' then map_option (\<lambda>j. (jr_id j, jr_photos j)) (fi_journal item)
                   else None);
          kind = (if fi_type item = ''memory'' then ''memories'' else ''journal'') in
      case entry of
        None \<Rightarrow> Some []
      | Some (i, photos) \<Rightarrow>
          (case i of JInt n \<Rightarrow> map_option (\<lambda>names. [(kind, n, names)]) (photo_names photos) | _ \<Rightarrow> Some []))"

definition photo_lists :: "FileProject \<Rightarrow> (string \<times> int \<times> json list) list option" where
  "photo_lists project = map_option concat (those (map photo_list (fp_items project)))"

text \<open>One photo the trip file per_item: kind, item id, name.\<close>

type_synonym listed = "string \<times> int \<times> json"

definition listed_photos :: "(string \<times> int \<times> json list) list \<Rightarrow> listed list" where
  "listed_photos per_item = concat (map (\<lambda>(kind, item_id, names). map (\<lambda>n. (kind, item_id, n)) names) per_item)"

datatype photo_outcome = Stored nat | InvalidPhoto | DiskFault bool

type_synonym photo_store = "string \<Rightarrow> string \<Rightarrow> photo_outcome"

text \<open>The staging directory: sizes of files by kind, item id and file name. \<open>StagedPhoto\<close>: sizes of both files.\<close>

type_synonym staged_files = "string \<times> int \<times> string \<rightharpoonup> nat"
type_synonym staged_photo = "(string \<times> int \<times> string) \<times> nat \<times> nat"

record staging =
  sg_manifest :: bool
  sg_files :: staged_files

record stage =
  st_staged :: "staged_photo list"
  st_inflated :: nat
  st_files :: staged_files

definition archive_folder :: "string \<Rightarrow> string" where
  "archive_folder kind = (if kind = ''memories'' then ''photos'' else ''journal'')"

definition entry_name :: "string \<Rightarrow> string \<Rightarrow> int \<Rightarrow> string \<Rightarrow> string" where
  "entry_name top_dir kind item_id name = top_dir @ archive_folder kind @ ''/'' @ show_int item_id @ ''/'' @ name @ ''.jpg''"

definition full_name :: "string \<Rightarrow> string" where "full_name n = n @ ''.jpg''"
definition thumb_name :: "string \<Rightarrow> string" where "thumb_name n = n @ ''_thumb.jpg''"

definition find_entry_named :: "zip_entry list \<Rightarrow> string \<Rightarrow> zip_entry option" where
  "find_entry_named infos name = find (\<lambda>e. ze_filename e = name) infos"

definition stage_one ::
  "photo_store \<Rightarrow> zip_entry list \<Rightarrow> string \<Rightarrow> int \<Rightarrow> listed \<Rightarrow> stage \<Rightarrow> zip_error option \<times> stage" where
  "stage_one store infos top_dir upload_size photo st =
     (case photo of (kind, item_id, v) \<Rightarrow>
      case v of
        JStr name \<Rightarrow>
          if \<not> is_photo_name v \<or> (kind, item_id, name) \<in> fst ` set (st_staged st) then (None, st)
          else
            (let path = entry_name top_dir kind item_id name in
             case find_entry_named infos path of
               None \<Rightarrow> (None, st)
             | Some info \<Rightarrow>
                 (case read_entry info upload_size MAX_PHOTO_BYTES (''photo '' @ path) of
                    Inl e \<Rightarrow> (Some (InvalidTripArchive e), st)
                  | Inr raw \<Rightarrow>
                      let st' = st\<lparr>st_inflated := st_inflated st + length raw\<rparr>;
                          written = (st_files st)((kind, item_id, full_name name) \<mapsto> length raw) in
                      if st_inflated st' > MAX_STAGED_PHOTO_BYTES then (Some (InvalidTripArchive PhotosTooLarge), st')
                      else
                        (case store name raw of
                           InvalidPhoto \<Rightarrow> (Some (InvalidTripArchive (BadPhoto path)), st')
                         | DiskFault wrote \<Rightarrow> (Some OtherError, if wrote then st'\<lparr>st_files := written\<rparr> else st')
                         | Stored thumb \<Rightarrow>
                             (None, st'\<lparr>st_files := written((kind, item_id, thumb_name name) \<mapsto> thumb),
                                        st_staged := st_staged st @ [((kind, item_id, name), length raw, thumb)]\<rparr>))))
      | _ \<Rightarrow> (None, st))"

fun stage_all ::
  "photo_store \<Rightarrow> zip_entry list \<Rightarrow> string \<Rightarrow> int \<Rightarrow> listed list \<Rightarrow> stage \<Rightarrow> zip_error option \<times> stage" where
  "stage_all store infos top_dir upload_size [] st = (None, st)"
| "stage_all store infos top_dir upload_size (p # ps) st =
     (case stage_one store infos top_dir upload_size p st of
        (Some e, st') \<Rightarrow> (Some e, st')
      | (None, st') \<Rightarrow> stage_all store infos top_dir upload_size ps st')"

definition stage_photos ::
  "photo_store \<Rightarrow> zip_entry list \<Rightarrow> string \<Rightarrow> int \<Rightarrow> FileProject \<Rightarrow> staged_files \<Rightarrow> zip_error option \<times> stage" where
  "stage_photos store infos top_dir upload_size project files =
     (let st = \<lparr>st_staged = [], st_inflated = 0, st_files = files\<rparr> in
      case photo_lists project of
        None \<Rightarrow> (Some OtherError, st)
      | Some per_item \<Rightarrow> stage_all store infos top_dir upload_size (listed_photos per_item) st)"

subsection \<open>The whole archive\<close>

definition without_photos :: "staged_files \<Rightarrow> staged_files" where
  "without_photos files = (\<lambda>k. if fst k = ''memories'' \<or> fst k = ''journal'' then None else files k)"

definition check_end_record :: "archive \<Rightarrow> (archive_fault, unit) result" where
  "check_end_record a =
     (case za_end_record a of
        None \<Rightarrow> Inl NotAnArchive
      | Some (entries, directory) \<Rightarrow>
          if entries > MAX_ENTRIES then Inl TooManyFiles
          else if directory > MAX_CENTRAL_DIRECTORY_BYTES then Inl DirectoryTooLarge
          else Inr ())"

definition archive_entries :: "archive \<Rightarrow> (archive_fault, zip_entry list) result" where
  "archive_entries a =
     (case za_infos a of
        None \<Rightarrow> Inl NotAnArchive
      | Some infos \<Rightarrow>
          if length infos > MAX_ENTRIES then Inl TooManyFiles
          else if \<not> distinct (map ze_filename infos) then Inl SameName
          else Inr infos)"

text \<open>The one trip file of the archive, read.\<close>

definition read_trip_file :: "zip_entry list \<Rightarrow> int \<Rightarrow> (archive_fault, string) result" where
  "read_trip_file infos upload_size =
     (let names = map ze_filename infos in
      case trip_files (archive_root names) names of
        [] \<Rightarrow> Inl NoTripFile
      | [n] \<Rightarrow>
          (case find_entry_named infos n of
             Some info \<Rightarrow> read_entry info upload_size MAX_TRIP_FILE_BYTES ''trip file''
           | None \<Rightarrow> Inl NoTripFile)
      | _ \<Rightarrow> Inl SeveralTripFiles)"

definition read_trip_zip ::
  "validator \<Rightarrow> (rat \<Rightarrow> rat) \<Rightarrow> pydatetime \<Rightarrow> photo_store \<Rightarrow> archive \<Rightarrow> staging \<Rightarrow>
   (zip_error, FileProject \<times> staged_photo list) result \<times> staging" where
  "read_trip_zip v sq now store a dir =
     (let dir = dir\<lparr>sg_manifest := True\<rparr> in
      case rbind (check_end_record a) (\<lambda>_. rbind (archive_entries a) (\<lambda>infos.
             rbind (read_trip_file infos (za_upload_size a)) (\<lambda>raw. Inr (infos, raw)))) of
        Inl e \<Rightarrow> (Inl (InvalidTripArchive e), dir)
      | Inr (infos, raw) \<Rightarrow>
          (case from_bytes v sq now raw of
             Inl (InvalidProjectFile r) \<Rightarrow> (Inl (InvalidTripArchive (BadTrip r)), dir)
           | Inl Raised \<Rightarrow> (Inl OtherError, dir)
           | Inr project \<Rightarrow>
               (case stage_photos store infos (archive_root (map ze_filename infos)) (za_upload_size a) project (sg_files dir) of
                  (Some e, st) \<Rightarrow> (Inl e, dir\<lparr>sg_files := without_photos (st_files st)\<rparr>)
                | (None, st) \<Rightarrow> (Inr (project, st_staged st), dir\<lparr>sg_files := st_files st\<rparr>))))"

subsection \<open>What is staged\<close>

lemma inflate_bound: "inflate limit what b chunks raw = Inr r \<Longrightarrow> length raw \<le> limit \<Longrightarrow> length r \<le> limit"
  by (induction chunks arbitrary: raw) (auto split: if_splits)

lemma read_entry_bound: "read_entry info usize limit what = Inr raw \<Longrightarrow> length raw \<le> limit"
  using inflate_bound [of limit what "ze_broken info" "ze_chunks info" "[]" raw]
  by (auto simp: read_entry_def split: if_splits)

lemma photo_name_length: "is_photo_name (JStr n) \<Longrightarrow> length n = 36"
proof -
  have "hex_groups ns s \<Longrightarrow> ns \<noteq> [] \<Longrightarrow> length s = sum_list ns + length ns - 1" for ns s
    by (induction ns s rule: hex_groups.induct) (auto simp: min_def split: if_splits)
  then show "is_photo_name (JStr n) \<Longrightarrow> length n = 36" by (fastforce simp: is_photo_name_def PHOTO_NAME_def)
qed

lemma file_names_inject:
  "is_photo_name (JStr a) \<Longrightarrow> is_photo_name (JStr b) \<Longrightarrow> full_name a = full_name b \<longleftrightarrow> a = b"
  "is_photo_name (JStr a) \<Longrightarrow> is_photo_name (JStr b) \<Longrightarrow> full_name a \<noteq> thumb_name b"
  "thumb_name a = thumb_name b \<longleftrightarrow> a = b"
  by (auto simp: full_name_def thumb_name_def dest!: photo_name_length arg_cong [of "full_name a" _ length] arg_cong [of "a @ _" _ length])

definition files_of :: "staged_photo list \<Rightarrow> ((string \<times> int \<times> string) \<times> nat) list" where
  "files_of staged = concat (map (\<lambda>((k, i, n), full, thumb). [((k, i, full_name n), full), ((k, i, thumb_name n), thumb)]) staged)"

text \<open>A photo staged from the archive: it is listed top_dir a name the app makes, and its files are what its entry holds.\<close>

definition comes_from ::
  "photo_store \<Rightarrow> zip_entry list \<Rightarrow> string \<Rightarrow> int \<Rightarrow> listed set \<Rightarrow> staged_photo \<Rightarrow> bool" where
  "comes_from store infos top_dir usize seen p \<longleftrightarrow>
     (case p of ((k, i, n), full, thumb) \<Rightarrow>
        (k, i, JStr n) \<in> seen \<and> is_photo_name (JStr n) \<and>
        (\<exists>info raw. find_entry_named infos (entry_name top_dir k i n) = Some info \<and>
           read_entry info usize MAX_PHOTO_BYTES (''photo '' @ entry_name top_dir k i n) = Inr raw \<and>
           store n raw = Stored thumb \<and> full = length raw))"

definition stage_ok :: "photo_store \<Rightarrow> zip_entry list \<Rightarrow> string \<Rightarrow> int \<Rightarrow> listed set \<Rightarrow> stage \<Rightarrow> bool" where
  "stage_ok store infos top_dir usize seen st \<longleftrightarrow>
     distinct (map fst (st_staged st)) \<and>
     (\<forall>p\<in>set (st_staged st). comes_from store infos top_dir usize seen p) \<and>
     st_inflated st = sum_list (map (fst \<circ> snd) (st_staged st)) \<and> st_inflated st \<le> MAX_STAGED_PHOTO_BYTES \<and>
     (\<forall>key n. st_files st key = Some n \<longleftrightarrow> (key, n) \<in> set (files_of (st_staged st))) \<and>
     (\<forall>(k, i, v)\<in>seen. \<forall>n. v = JStr n \<longrightarrow> is_photo_name v \<longrightarrow> find_entry_named infos (entry_name top_dir k i n) \<noteq> None \<longrightarrow>
        (k, i, n) \<in> fst ` set (st_staged st))"

lemma comes_from_mono: "comes_from store infos top_dir usize seen p \<Longrightarrow> seen \<subseteq> seen' \<Longrightarrow> comes_from store infos top_dir usize seen' p"
  by (cases p) (auto simp: comes_from_def)

lemma files_of_snoc:
  "set (files_of (staged @ [((k, i, n), full, thumb)])) =
     set (files_of staged) \<union> {((k, i, full_name n), full), ((k, i, thumb_name n), thumb)}"
  by (simp add: files_of_def)

lemma files_of_mem:
  "((k, i, m), x) \<in> set (files_of staged) \<Longrightarrow>
    \<exists>n full thumb. ((k, i, n), full, thumb) \<in> set staged \<and> (m = full_name n \<or> m = thumb_name n)"
  by (auto simp: files_of_def)

lemma files_of_new:
  assumes "\<forall>p\<in>set staged. comes_from store infos top_dir usize seen p" "is_photo_name (JStr n)" "(k, i, n) \<notin> fst ` set staged"
    "m = full_name n \<or> m = thumb_name n"
  shows "((k, i, m), x) \<notin> set (files_of staged)"
proof
  assume "((k, i, m), x) \<in> set (files_of staged)"
  then obtain n' full thumb where n': "((k, i, n'), full, thumb) \<in> set staged" "m = full_name n' \<or> m = thumb_name n'"
    using files_of_mem by blast
  have "is_photo_name (JStr n')" using bspec [OF assms(1) n'(1)] by (simp add: comes_from_def)
  then have "n' = n" using assms(2,4) n'(2) file_names_inject by metis
  then show False using n'(1) assms(3) by (metis fst_conv image_eqI)
qed

lemma stage_one_ok:
  assumes ok: "stage_ok store infos top_dir usize seen st"
    and one: "stage_one store infos top_dir usize photo st = (None, st')"
  shows "stage_ok store infos top_dir usize (insert photo seen) st'"
proof -
  obtain k i v where photo: "photo = (k, i, v)" by (cases photo)
  have skip: "stage_ok store infos top_dir usize (insert photo seen) st"
    if "\<And>n. v = JStr n \<Longrightarrow> is_photo_name v \<Longrightarrow> find_entry_named infos (entry_name top_dir k i n) \<noteq> None \<Longrightarrow> (k, i, n) \<in> fst ` set (st_staged st)"
    using ok that unfolding stage_ok_def photo by (auto intro: comes_from_mono)
  show ?thesis
  proof (cases "\<exists>n info. v = JStr n \<and> is_photo_name v \<and> (k, i, n) \<notin> fst ` set (st_staged st) \<and>
      find_entry_named infos (entry_name top_dir k i n) = Some info")
    case False
    then have "st' = st" using one by (auto simp: stage_one_def photo Let_def split: json.splits if_splits option.splits)
    then show ?thesis using skip False by blast
  next
    case True
    then obtain n info where n: "v = JStr n" "is_photo_name v" "(k, i, n) \<notin> fst ` set (st_staged st)"
      "find_entry_named infos (entry_name top_dir k i n) = Some info" by blast
    obtain raw thumb where r: "read_entry info usize MAX_PHOTO_BYTES (''photo '' @ entry_name top_dir k i n) = Inr raw"
      "st_inflated st + length raw \<le> MAX_STAGED_PHOTO_BYTES" "store n raw = Stored thumb" and
      st': "st' = st\<lparr>st_inflated := st_inflated st + length raw,
          st_files := (st_files st)((k, i, full_name n) \<mapsto> length raw, (k, i, thumb_name n) \<mapsto> thumb),
          st_staged := st_staged st @ [((k, i, n), length raw, thumb)]\<rparr>"
      using one n by (auto simp: stage_one_def photo Let_def split: sum.splits if_splits photo_outcome.splits)
    have new: "comes_from store infos top_dir usize (insert photo seen) ((k, i, n), length raw, thumb)"
      using n r by (simp add: comes_from_def photo)
    have old: "\<forall>p\<in>set (st_staged st). comes_from store infos top_dir usize (insert photo seen) p"
      using ok comes_from_mono [of store infos top_dir usize seen _ "insert photo seen"] by (simp add: stage_ok_def subset_insertI)
    have files: "st_files st' key = Some x \<longleftrightarrow> (key, x) \<in> set (files_of (st_staged st'))" for key x
    proof -
      let ?f = "(k, i, full_name n)" and ?t = "(k, i, thumb_name n)"
      have ne: "?f \<noteq> ?t" by (simp add: full_name_def thumb_name_def)
      have new_files: "(?f, x) \<notin> set (files_of (st_staged st))" "(?t, x) \<notin> set (files_of (st_staged st))"
        using files_of_new [OF old _ n(3)] n(1,2) by blast+
      have before: "st_files st key = Some x \<longleftrightarrow> (key, x) \<in> set (files_of (st_staged st))" using ok unfolding stage_ok_def by blast
      have after: "(key, x) \<in> set (files_of (st_staged st')) \<longleftrightarrow>
          (key, x) \<in> set (files_of (st_staged st)) \<or> key = ?f \<and> x = length raw \<or> key = ?t \<and> x = thumb"
        by (auto simp: st' files_of_snoc)
      consider "key = ?f" | "key = ?t" | "key \<noteq> ?f" "key \<noteq> ?t" by blast
      then show ?thesis
      proof cases
        case 1
        then show ?thesis using ne new_files(1) unfolding after by (auto simp: st')
      next
        case 2
        then show ?thesis using ne new_files(2) unfolding after by (auto simp: st')
      next
        case 3
        then show ?thesis using before unfolding after by (simp add: st')
      qed
    qed
    show ?thesis
      unfolding stage_ok_def
    proof (intro conjI)
      show "\<forall>(k, i, v)\<in>insert photo seen. \<forall>n. v = JStr n \<longrightarrow> is_photo_name v \<longrightarrow>
          find_entry_named infos (entry_name top_dir k i n) \<noteq> None \<longrightarrow> (k, i, n) \<in> fst ` set (st_staged st')"
        using ok unfolding stage_ok_def photo st' by (auto simp: n(1))
    qed (use ok n(3) r(2) new old files in \<open>simp_all add: stage_ok_def st'\<close>)
  qed
qed

lemma stage_all_ok:
  "stage_ok store infos top_dir usize seen st \<Longrightarrow> stage_all store infos top_dir usize ps st = (None, st') \<Longrightarrow>
    stage_ok store infos top_dir usize (seen \<union> set ps) st'"
proof (induction ps arbitrary: seen st)
  case (Cons p ps)
  obtain st1 where "stage_one store infos top_dir usize p st = (None, st1)" "stage_all store infos top_dir usize ps st1 = (None, st')"
    using Cons.prems(2) by (auto split: prod.splits option.splits)
  then show ?case using Cons.IH [of "insert p seen" st1] stage_one_ok [OF Cons.prems(1)] by simp
qed simp

definition photos_only :: "staged_files \<Rightarrow> bool" where
  "photos_only files \<longleftrightarrow> (\<forall>k. files k \<noteq> None \<longrightarrow> fst k = ''memories'' \<or> fst k = ''journal'')"

lemma photos_only_upd: "photos_only f \<Longrightarrow> k = ''memories'' \<or> k = ''journal'' \<Longrightarrow> photos_only (f((k, i, n) \<mapsto> x))"
  by (auto simp: photos_only_def simp del: split_paired_All)

lemma stage_one_photos_only:
  "k = ''memories'' \<or> k = ''journal'' \<Longrightarrow> photos_only (st_files st) \<Longrightarrow>
    photos_only (st_files (snd (stage_one store infos top_dir usize (k, i, v) st)))"
  by (simp add: stage_one_def Let_def photos_only_upd split: json.split option.split sum.split photo_outcome.split)

lemma stage_all_photos_only:
  "stage_all store infos top_dir usize ps st = (e, st') \<Longrightarrow> \<forall>p\<in>set ps. fst p = ''memories'' \<or> fst p = ''journal'' \<Longrightarrow>
    photos_only (st_files st) \<Longrightarrow> photos_only (st_files st')"
proof (induction ps arbitrary: st)
  case (Cons p ps)
  obtain e1 st1 where one: "stage_one store infos top_dir usize p st = (e1, st1)" by fastforce
  then have "photos_only (st_files st1)"
    using stage_one_photos_only [of "fst p" st store infos top_dir usize "fst (snd p)" "snd (snd p)"] Cons.prems by simp
  then show ?case using Cons one by (auto split: option.splits)
qed simp

lemma listed_kinds:
  assumes "photo_lists project = Some per_item" "p \<in> set (listed_photos per_item)"
  shows "fst p = ''memories'' \<or> fst p = ''journal''"
proof -
  have "\<forall>(k, i, ns)\<in>set l. k = ''memories'' \<or> k = ''journal''" if "photo_list item = Some l" for item l
    using that by (auto simp: photo_list_def Let_def split: option.splits json.splits if_splits)
  then have "\<forall>(k, i, ns)\<in>set (concat ls). k = ''memories'' \<or> k = ''journal''" if "those (map photo_list xs) = Some ls" for xs ls
    using that by (induction xs arbitrary: ls) (auto split: option.splits, blast+)
  then show ?thesis using assms by (fastforce simp: photo_lists_def listed_photos_def)
qed

lemma without_photos_empty: "photos_only files \<Longrightarrow> without_photos files = Map.empty"
  by (auto simp: photos_only_def without_photos_def fun_eq_iff simp del: split_paired_All)

subsection \<open>Whole or nothing\<close>

text \<open>What an accepted archive gives: the trip of its one trip file; the photos the trip lists under names the app makes
  and the archive has, each once, with what their entries hold; and their files in the staging directory.\<close>

definition imported :: "validator \<Rightarrow> (rat \<Rightarrow> rat) \<Rightarrow> pydatetime \<Rightarrow> photo_store \<Rightarrow> archive \<Rightarrow> FileProject \<Rightarrow> staged_photo list \<Rightarrow> staged_files \<Rightarrow> bool" where
  "imported v sq now store a project staged files \<longleftrightarrow>
     (\<exists>infos raw listing.
        archive_entries a = Inr infos \<and> read_trip_file infos (za_upload_size a) = Inr raw \<and> length raw \<le> MAX_TRIP_FILE_BYTES \<and>
        from_bytes v sq now raw = Inr project \<and> photo_lists project = Some listing \<and>
        (let top_dir = archive_root (map ze_filename infos); seen = set (listed_photos listing) in
         distinct (map fst staged) \<and>
         (\<forall>p\<in>set staged. comes_from store infos top_dir (za_upload_size a) seen p) \<and>
         (\<forall>(k, i, w)\<in>seen. \<forall>n. w = JStr n \<longrightarrow> is_photo_name w \<longrightarrow> find_entry_named infos (entry_name top_dir k i n) \<noteq> None \<longrightarrow>
            (k, i, n) \<in> fst ` set staged) \<and>
         sum_list (map (fst \<circ> snd) staged) \<le> MAX_STAGED_PHOTO_BYTES \<and>
         (\<forall>key n. files key = Some n \<longleftrightarrow> (key, n) \<in> set (files_of staged))))"

lemma empty_stage_ok: "stage_ok store infos top_dir usize {} \<lparr>st_staged = [], st_inflated = 0, st_files = Map.empty\<rparr>"
  by (simp add: stage_ok_def files_of_def)

lemma staged_or_photos:
  assumes "stage_photos store infos top_dir usize project Map.empty = (e, st)"
  shows "photos_only (st_files st)"
proof (cases "photo_lists project")
  case None
  then show ?thesis using assms by (auto simp: stage_photos_def photos_only_def)
next
  case (Some listing)
  then show ?thesis
    using assms stage_all_photos_only [of store infos top_dir usize "listed_photos listing" _ e st] listed_kinds [OF Some]
    by (auto simp: stage_photos_def photos_only_def)
qed

lemma read_trip_file_bound: "read_trip_file infos usize = Inr raw \<Longrightarrow> length raw \<le> MAX_TRIP_FILE_BYTES"
  by (auto simp: read_trip_file_def Let_def dest: read_entry_bound split: list.splits option.splits)

text \<open>C20. An archive is imported whole or not at all. Whatever an uploaded archive holds and wherever the import fails, on a
  damaged entry, a photo that cannot be decoded or a full disk, either no photo is left in the staging directory, or the
  trip of the one trip file is read and exactly the photos it lists under a name the app makes, and the archive has, are
  staged, each once, from the entry of that name; at most 50 MB of trip file and 1 GB of photos are taken.\<close>

theorem zip_import_whole_or_nothing:
  assumes "sg_files dir = Map.empty" "read_trip_zip v sq now store a dir = (answer, dir')"
  shows "case answer of
      Inl e \<Rightarrow> sg_files dir' = Map.empty
    | Inr (project, staged) \<Rightarrow> imported v sq now store a project staged (sg_files dir')"
proof -
  define opened where "opened = rbind (check_end_record a) (\<lambda>_. rbind (archive_entries a) (\<lambda>infos.
      rbind (read_trip_file infos (za_upload_size a)) (\<lambda>raw. Inr (infos, raw))))"
  show ?thesis
  proof (cases opened)
    case (Inl e)
    then show ?thesis using assms by (auto simp: read_trip_zip_def opened_def [symmetric])
  next
    case (Inr r)
    obtain infos raw where r: "r = (infos, raw)" by (cases r)
    have parts: "archive_entries a = Inr infos" "read_trip_file infos (za_upload_size a) = Inr raw"
      using Inr r by (auto simp: opened_def rbind_def split: sum.splits)
    show ?thesis
    proof (cases "from_bytes v sq now raw")
      case (Inl e)
      then show ?thesis using assms Inr r by (cases e) (auto simp: read_trip_zip_def opened_def [symmetric])
    next
      case project: (Inr project)
      let ?top = "archive_root (map ze_filename infos)"
      obtain e st where st: "stage_photos store infos ?top (za_upload_size a) project Map.empty = (e, st)" by fastforce
      show ?thesis
      proof (cases e)
        case (Some x)
        then show ?thesis
          using assms Inr r project st without_photos_empty [OF staged_or_photos [OF st]]
          by (auto simp: read_trip_zip_def opened_def [symmetric])
      next
        case None
        then obtain listing where l: "photo_lists project = Some listing"
          "stage_all store infos ?top (za_upload_size a) (listed_photos listing) \<lparr>st_staged = [], st_inflated = 0, st_files = Map.empty\<rparr> = (None, st)"
          using st by (auto simp: stage_photos_def Let_def split: option.splits)
        have "answer = Inr (project, st_staged st)" "sg_files dir' = st_files st"
          using assms Inr r project st None by (auto simp: read_trip_zip_def opened_def [symmetric])
        then show ?thesis
          using stage_all_ok [OF empty_stage_ok l(2)] parts project l(1) read_trip_file_bound [OF parts(2)]
          by (auto simp: imported_def stage_ok_def Let_def)
      qed
    qed
  qed
qed

text \<open>An archive zipped again by a desktop: a trip of one memory, its photo, and a stray file.\<close>

definition some_photo :: string where "some_photo = ''01234567-89ab-cdef-0123-456789abcdef''"

definition memory_file :: string where
  "memory_file = ''{\"items\":[{\"item_type\":\"memory\",\"memory\":{\"id\":5,\"photos\":[\"'' @ some_photo @ ''\"]}}]}''"

definition zip_entry_of :: "string \<Rightarrow> string \<Rightarrow> zip_entry" where
  "zip_entry_of n s = \<lparr>ze_filename = n, ze_header_offset = 0, ze_compress_type = 8, ze_file_size = length s, ze_chunks = [s], ze_broken = False\<rparr>"

definition exported_entries :: "zip_entry list" where
  "exported_entries = [zip_entry_of ''Alps.traxj'' memory_file, zip_entry_of (''photos/5/'' @ some_photo @ ''.jpg'') ''JPEG'']"

definition zipped_entries :: "zip_entry list" where
  "zipped_entries = [zip_entry_of ''Trip/Alps.traxj'' memory_file, zip_entry_of (''Trip/photos/5/'' @ some_photo @ ''.jpg'') ''JPEG'',
     zip_entry_of ''__MACOSX/._Trip'' ''x'']"

definition archive_of :: "zip_entry list \<Rightarrow> archive" where
  "archive_of infos = \<lparr>za_end_record = Some (3, 300), za_upload_size = 5000, za_infos = Some infos\<rparr>"

definition empty_staging :: staging where
  "empty_staging = \<lparr>sg_manifest = False, sg_files = Map.empty\<rparr>"

lemma memory_file_reads:
  "case from_bytes strict_validator (\<lambda>x. x) example_now memory_file of
     Inr p \<Rightarrow> photo_lists p = Some [(''memories'', 5, [JStr some_photo])] | Inl e \<Rightarrow> False"
  by code_simp

lemma memory_file_small: "is_photo_name (JStr some_photo)" "memory_file \<noteq> []" "length memory_file \<le> 200"
  by code_simp+

lemma read_small:
  "s \<noteq> [] \<Longrightarrow> length s \<le> limit \<Longrightarrow> read_entry (zip_entry_of n s) 5000 limit what = Inr s"
  by (simp add: read_entry_def zip_entry_of_def LOCAL_HEADER_BYTES_def METHODS_def)

lemma small_archive_reads:
  assumes "archive_root (map ze_filename infos) = T" "trip_files T (map ze_filename infos) = [t]" "distinct (map ze_filename infos)"
    "length infos \<le> 3" "find_entry_named infos t = Some (zip_entry_of t memory_file)"
    "find_entry_named infos (entry_name T ''memories'' 5 some_photo) = Some (zip_entry_of f ''JPEG'')"
  shows "\<exists>p files. read_trip_zip strict_validator (\<lambda>x. x) example_now (\<lambda>_ _. Stored 9) (archive_of infos) empty_staging =
    (Inr (p, [((''memories'', 5, some_photo), 4, 9)]), \<lparr>sg_manifest = True, sg_files = files\<rparr>)"
proof -
  obtain p where p: "from_bytes strict_validator (\<lambda>x. x) example_now memory_file = Inr p"
    "photo_lists p = Some [(''memories'', 5, [JStr some_photo])]"
    using memory_file_reads by (cases "from_bytes strict_validator (\<lambda>x. x) example_now memory_file") auto
  have small: "length memory_file \<le> MAX_TRIP_FILE_BYTES" "length ''JPEG'' \<le> MAX_PHOTO_BYTES" "length ''JPEG'' \<le> MAX_STAGED_PHOTO_BYTES"
    using memory_file_small(3) by (simp_all add: MAX_TRIP_FILE_BYTES_def MAX_PHOTO_BYTES_def MAX_STAGED_PHOTO_BYTES_def)
  have entries: "check_end_record (archive_of infos) = Inr ()" "archive_entries (archive_of infos) = Inr infos"
    using assms(3,4) by (simp_all add: check_end_record_def archive_entries_def archive_of_def MAX_ENTRIES_def MAX_CENTRAL_DIRECTORY_BYTES_def)
  have trip: "read_trip_file infos 5000 = Inr memory_file"
    using read_small [OF memory_file_small(2) small(1)] by (simp add: read_trip_file_def Let_def assms(1,2,5))
  define files where "files = Map.empty((''memories'', 5::int, full_name some_photo) \<mapsto> 4::nat, (''memories'', 5, thumb_name some_photo) \<mapsto> 9)"
  have "stage_photos (\<lambda>_ _. Stored 9) infos T 5000 p Map.empty =
      (None, \<lparr>st_staged = [((''memories'', 5, some_photo), 4, 9)], st_inflated = 4, st_files = files\<rparr>)"
    using read_small [of "''JPEG''" MAX_PHOTO_BYTES] small(2,3) memory_file_small(1) assms(6)
    by (simp add: stage_photos_def p(2) listed_photos_def stage_one_def Let_def files_def eval_nat_numeral)
  then show ?thesis using entries trip p(1) assms(1) by (simp add: read_trip_zip_def archive_of_def empty_staging_def)
qed

lemma zipped_reads:
  "\<exists>p files. read_trip_zip strict_validator (\<lambda>x. x) example_now (\<lambda>_ _. Stored 9) (archive_of zipped_entries) empty_staging =
    (Inr (p, [((''memories'', 5, some_photo), 4, 9)]), \<lparr>sg_manifest = True, sg_files = files\<rparr>)"
  by (rule small_archive_reads [of _ "''Trip/''" "''Trip/Alps.traxj''" "''Trip/photos/5/'' @ some_photo @ ''.jpg''"]; code_simp)

lemma exported_reads:
  "\<exists>p files. read_trip_zip strict_validator (\<lambda>x. x) example_now (\<lambda>_ _. Stored 9) (archive_of exported_entries) empty_staging =
    (Inr (p, [((''memories'', 5, some_photo), 4, 9)]), \<lparr>sg_manifest = True, sg_files = files\<rparr>)"
  by (rule small_archive_reads [of _ "[]" "''Alps.traxj''" "''photos/5/'' @ some_photo @ ''.jpg''"]; code_simp)

theorem zip_import_whole_or_nothing_witness:
  "\<exists>p files. read_trip_zip strict_validator (\<lambda>x. x) example_now (\<lambda>_ _. Stored 9) (archive_of zipped_entries) empty_staging =
       (Inr (p, [((''memories'', 5, some_photo), 4, 9)]), \<lparr>sg_manifest = True, sg_files = files\<rparr>) \<and>
     imported strict_validator (\<lambda>x. x) example_now (\<lambda>_ _. Stored 9) (archive_of zipped_entries) p [((''memories'', 5, some_photo), 4, 9)] files"
proof -
  obtain p files where run: "read_trip_zip strict_validator (\<lambda>x. x) example_now (\<lambda>_ _. Stored 9) (archive_of zipped_entries) empty_staging =
       (Inr (p, [((''memories'', 5, some_photo), 4, 9)]), \<lparr>sg_manifest = True, sg_files = files\<rparr>)"
    using zipped_reads by blast
  show ?thesis using run zip_import_whole_or_nothing [OF _ run] by (auto simp: empty_staging_def)
qed

subsection \<open>An export zipped again\<close>

text \<open>The entries under one folder, with what Finder adds.\<close>

definition plain_folder :: "string \<Rightarrow> bool" where
  "plain_folder P \<longleftrightarrow> CHR ''/'' \<notin> set P \<and> P \<noteq> [] \<and> P \<noteq> ''.'' \<and> P \<noteq> ''..'' \<and> P \<noteq> ''__MACOSX''"

definition finder_extra :: "zip_entry list \<Rightarrow> bool" where
  "finder_extra extra \<longleftrightarrow> distinct (map ze_filename extra) \<and> (\<forall>e\<in>set extra. take 9 (ze_filename e) = ''__MACOSX/'')"

definition nested :: "string \<Rightarrow> zip_entry list \<Rightarrow> zip_entry list" where
  "nested P infos = map (\<lambda>e. e\<lparr>ze_filename := P @ ''/'' @ ze_filename e\<rparr>) infos"

lemma nested_names: "map ze_filename (nested P infos) = map (\<lambda>n. P @ ''/'' @ n) (map ze_filename infos)"
  by (simp add: nested_def)

lemma macosx_folder:
  assumes "take 9 n = ''__MACOSX/''"
  shows "takeWhile (\<lambda>c. c \<noteq> CHR ''/'') n = ''__MACOSX''"
proof -
  obtain r where "n = ''__MACOSX/'' @ r" using assms by (metis append_take_drop_id)
  then show ?thesis by simp
qed

lemma plain_folder_top: "plain_folder P \<Longrightarrow> takeWhile (\<lambda>c. c \<noteq> CHR ''/'') (P @ ''/'' @ n) = P"
  unfolding plain_folder_def by (subst takeWhile_append2) auto

lemma nested_not_macosx: "plain_folder P \<Longrightarrow> take 9 (P @ ''/'' @ n) \<noteq> ''__MACOSX/''"
  using macosx_folder [of "P @ ''/'' @ n"] plain_folder_top [of P n] by (auto simp: plain_folder_def simp del: takeWhile_append2)

lemma no_slash_reversed: "top_level n \<Longrightarrow> takeWhile (\<lambda>c. c \<noteq> CHR ''/'') (rev n) = rev n"
  by (rule takeWhile_eq_all_conv [THEN iffD2]) (auto simp: top_level_def)

lemma base_of_top: "top_level n \<Longrightarrow> base_of n = n"
  by (simp add: base_of_def no_slash_reversed)

lemma base_of_nested:
  assumes "top_level n"
  shows "base_of (P @ ''/'' @ n) = n"
proof -
  have "takeWhile (\<lambda>c. c \<noteq> CHR ''/'') (rev n @ CHR ''/'' # rev P) = rev n @ takeWhile (\<lambda>c. c \<noteq> CHR ''/'') (CHR ''/'' # rev P)"
    using assms by (intro takeWhile_append2) (auto simp: top_level_def)
  then show ?thesis by (simp add: base_of_def)
qed

lemma extra_apart: "plain_folder P \<Longrightarrow> finder_extra extra \<Longrightarrow> P @ ''/'' @ x \<notin> ze_filename ` set extra"
proof
  assume P: "plain_folder P" and e: "finder_extra extra" and "P @ ''/'' @ x \<in> ze_filename ` set extra"
  then have "take 9 (P @ ''/'' @ x) = ''__MACOSX/''" unfolding finder_extra_def by (metis imageE)
  then show False using nested_not_macosx [OF P] by blast
qed

lemma litter_nested:
  assumes P: "plain_folder P" and n: "top_level n" and e: "finder_extra extra"
  shows "is_os_litter (P @ ''/'' @ n) (map (\<lambda>n. P @ ''/'' @ n) names @ map ze_filename extra) = is_os_litter n names"
proof -
  have "folder_of (P @ ''/'' @ n) = P" using base_of_nested [OF n, of P] by (simp add: folder_of_def)
  moreover have "folder_of n = []" using base_of_top [OF n] by (simp add: folder_of_def)
  moreover have "take 9 n \<noteq> ''__MACOSX/''"
  proof
    assume "take 9 n = ''__MACOSX/''"
    then have "CHR ''/'' \<in> set (take 9 n)" by simp
    then show False using n set_take_subset [of 9 n] by (auto simp: top_level_def)
  qed
  moreover have "P @ ''/'' @ drop 2 n \<in> set (map (\<lambda>n. P @ ''/'' @ n) names @ map ze_filename extra) \<longleftrightarrow> drop 2 n \<in> set names"
    using extra_apart [OF P e, of "drop 2 n"] by auto
  moreover have "P \<noteq> []" using P by (simp add: plain_folder_def)
  ultimately show ?thesis
    using base_of_nested [OF n, of P] base_of_top [OF n] nested_not_macosx [OF P, of n] by (simp only: is_os_litter_def if_False if_True simp_thms)
qed

lemma extra_litter: "finder_extra extra \<Longrightarrow> n \<in> ze_filename ` set extra \<Longrightarrow> is_os_litter n names"
  by (auto simp: finder_extra_def is_os_litter_def)

lemma nested_root:
  assumes P: "plain_folder P" and e: "finder_extra extra" and t: "t \<in> set (trip_files [] names)"
  shows "archive_root (map (\<lambda>n. P @ ''/'' @ n) names @ map ze_filename extra) = P @ ''/''"
proof -
  let ?all = "map (\<lambda>n. P @ ''/'' @ n) names @ map ze_filename extra"
  define kept where "kept = filter (\<lambda>n. \<not> is_os_litter n ?all) ?all"
  have sub: "set kept \<subseteq> (\<lambda>n. P @ ''/'' @ n) ` set names" using extra_litter [OF e] by (auto simp: kept_def)
  have tt: "t \<in> set names" "\<not> is_os_litter t names" "top_level t" using t by (auto simp: trip_files_def)
  then have "P @ ''/'' @ t \<in> set kept" using litter_nested [OF P tt(3) e, of names] by (simp add: kept_def)
  then have ne: "kept \<noteq> []" by auto
  have no_top: "\<not> list_ex top_level kept" "\<not> list_ex (\<lambda>n. top_level n \<and> ends_with EXTENSION n) kept"
    using sub by (auto simp: list_ex_iff top_level_def)
  have "map (takeWhile (\<lambda>c. c \<noteq> CHR ''/'')) kept = replicate (length kept) P"
    using sub plain_folder_top [OF P] by (intro nth_equalityI) (auto simp del: takeWhile_append2 dest!: nth_mem)
  moreover have "remdups (replicate (Suc k) P) = [P]" for k by (induction k) simp_all
  ultimately have "remdups (map (takeWhile (\<lambda>c. c \<noteq> CHR ''/'')) kept) = [P]" using ne by (cases kept) (simp_all del: replicate_Suc list.map)
  then show ?thesis unfolding archive_root_def kept_def [symmetric] Let_def using ne no_top P by (simp add: plain_folder_def)
qed

lemma ends_with_nested: "ends_with EXTENSION (P @ ''/'' @ n) = ends_with EXTENSION n"
proof (cases "length EXTENSION \<le> length n")
  case True
  then show ?thesis by (simp add: ends_with_def Suc_diff_le)
next
  case False
  then have "CHR ''/'' \<in> set (drop (length (P @ ''/'' @ n) - length EXTENSION) (P @ ''/'' @ n))" by simp
  moreover have "CHR ''/'' \<notin> set EXTENSION" by (simp add: EXTENSION_def)
  ultimately have "\<not> ends_with EXTENSION (P @ ''/'' @ n)" unfolding ends_with_def by metis
  then show ?thesis using False by (simp add: ends_with_def)
qed

lemma nested_trip_files:
  assumes P: "plain_folder P" and e: "finder_extra extra"
  shows "trip_files (P @ ''/'') (map (\<lambda>n. P @ ''/'' @ n) names @ map ze_filename extra) = map (\<lambda>n. P @ ''/'' @ n) (trip_files [] names)"
proof -
  let ?all = "map (\<lambda>n. P @ ''/'' @ n) names @ map ze_filename extra"
  let ?is = "\<lambda>n. take (length (P @ ''/'')) n = P @ ''/'' \<and> \<not> is_os_litter n ?all \<and> top_level (drop (length (P @ ''/'')) n) \<and> ends_with EXTENSION n"
  have none: "filter ?is (map ze_filename extra) = []" using extra_litter [OF e] by (auto simp: filter_empty_conv)
  have "?is (P @ ''/'' @ n) \<longleftrightarrow> \<not> is_os_litter n names \<and> top_level n \<and> ends_with EXTENSION n" for n
    using litter_nested [OF P _ e, of n names] ends_with_nested [of P n] by auto
  then have "filter ?is (map (\<lambda>n. P @ ''/'' @ n) ns) =
      map (\<lambda>n. P @ ''/'' @ n) (filter (\<lambda>n. \<not> is_os_litter n names \<and> top_level n \<and> ends_with EXTENSION n) ns)" for ns
    by (induction ns) simp_all
  then show ?thesis using none unfolding trip_files_def by simp
qed

lemma nested_find:
  assumes "plain_folder P" "finder_extra extra"
  shows "find_entry_named (nested P infos @ extra) (P @ ''/'' @ n) =
    map_option (\<lambda>e. e\<lparr>ze_filename := P @ ''/'' @ n\<rparr>) (find_entry_named infos n)"
proof -
  have "find (\<lambda>e. ze_filename e = P @ ''/'' @ n) extra = None"
    using extra_apart [OF assms, of n] by (auto simp: find_None_iff image_iff)
  then show ?thesis by (induction infos) (auto simp: find_entry_named_def nested_def)
qed

lemma inflate_named: "inflate limit what b chunks raw = Inr r \<Longrightarrow> inflate limit what' b chunks raw = Inr r"
  by (induction chunks arbitrary: raw) (auto split: if_splits)

lemma read_entry_named:
  "read_entry info usize limit what = Inr raw \<Longrightarrow> read_entry (info\<lparr>ze_filename := n\<rparr>) usize limit what' = Inr raw"
  by (auto simp: read_entry_def intro: inflate_named split: if_splits)

lemma nested_entry_name: "entry_name (P @ ''/'') k i n = P @ ''/'' @ entry_name [] k i n"
  by (simp add: entry_name_def)

lemma nested_stage_one:
  assumes "plain_folder P" "finder_extra extra" "stage_one store infos [] usize photo st = (None, st')"
  shows "stage_one store (nested P infos @ extra) (P @ ''/'') usize photo st = (None, st')"
proof -
  obtain k i v where photo: "photo = (k, i, v)" by (cases photo)
  show ?thesis
  proof (cases "\<exists>n info. v = JStr n \<and> is_photo_name v \<and> (k, i, n) \<notin> fst ` set (st_staged st) \<and>
      find_entry_named infos (entry_name [] k i n) = Some info")
    case False
    then have "find_entry_named (nested P infos @ extra) (entry_name (P @ ''/'') k i n) = None"
      if "v = JStr n" "is_photo_name v" "(k, i, n) \<notin> fst ` set (st_staged st)" for n
      using that nested_find [OF assms(1,2)] by (simp only: nested_entry_name) auto
    moreover have "st' = st" using False assms(3) by (auto simp: stage_one_def photo Let_def split: json.splits if_splits option.splits)
    ultimately show ?thesis by (auto simp: stage_one_def photo Let_def split: json.split)
  next
    case True
    then obtain n info where n: "v = JStr n" "is_photo_name v" "(k, i, n) \<notin> fst ` set (st_staged st)"
      "find_entry_named infos (entry_name [] k i n) = Some info" by blast
    then obtain raw where raw: "read_entry info usize MAX_PHOTO_BYTES (''photo '' @ entry_name [] k i n) = Inr raw"
      using assms(3) by (cases "read_entry info usize MAX_PHOTO_BYTES (''photo '' @ entry_name [] k i n)")
        (simp_all add: stage_one_def photo Let_def)
    let ?path = "entry_name (P @ ''/'') k i n"
    have "find_entry_named (nested P infos @ extra) ?path = Some (info\<lparr>ze_filename := ?path\<rparr>)"
      using nested_find [OF assms(1,2), of infos "entry_name [] k i n"] n(4) by (simp only: nested_entry_name) simp
    moreover have "read_entry (info\<lparr>ze_filename := ?path\<rparr>) usize MAX_PHOTO_BYTES (''photo '' @ ?path) = Inr raw"
      using read_entry_named [OF raw] .
    ultimately show ?thesis
      using assms(3) n raw by (auto simp: stage_one_def photo Let_def split: if_splits photo_outcome.splits)
  qed
qed

lemma nested_stage_all:
  assumes "plain_folder P" "finder_extra extra"
  shows "stage_all store infos [] usize ps st = (None, st') \<Longrightarrow>
    stage_all store (nested P infos @ extra) (P @ ''/'') usize ps st = (None, st')"
proof (induction ps arbitrary: st)
  case (Cons p ps)
  obtain st1 where "stage_one store infos [] usize p st = (None, st1)" "stage_all store infos [] usize ps st1 = (None, st')"
    using Cons.prems by (auto split: prod.splits option.splits)
  then show ?case using Cons.IH nested_stage_one [OF assms] by simp
qed simp

text \<open>C21. An export unzipped and zipped again is the same export. When every entry of an accepted archive is moved under one
  folder, and Finder adds its \<open>__MACOSX\<close> entries, reading it gives the same trip, the same photos and the same files.\<close>

theorem rezipped_archive_reads_the_same:
  assumes "read_trip_zip v sq now store a dir = (Inr r, dir')" "za_infos a = Some infos" "archive_root (map ze_filename infos) = []"
    "plain_folder P" "finder_extra extra" "length infos + length extra \<le> MAX_ENTRIES"
  shows "read_trip_zip v sq now store (a\<lparr>za_infos := Some (nested P infos @ extra)\<rparr>) dir = (Inr r, dir')"
proof -
  let ?names = "map ze_filename infos" and ?infos = "nested P infos @ extra"
  let ?dir = "dir\<lparr>sg_manifest := True\<rparr>"
  have all: "map ze_filename ?infos = map (\<lambda>n. P @ ''/'' @ n) ?names @ map ze_filename extra"
    by (simp add: nested_def)
  define opened where "opened = rbind (check_end_record a) (\<lambda>_. rbind (archive_entries a) (\<lambda>infos.
      rbind (read_trip_file infos (za_upload_size a)) (\<lambda>raw. Inr (infos, raw))))"
  obtain raw where o: "check_end_record a = Inr ()" "archive_entries a = Inr infos" "read_trip_file infos (za_upload_size a) = Inr raw"
    using assms(1,2) by (auto simp: read_trip_zip_def rbind_def archive_entries_def split: sum.splits if_splits)
  obtain project st where rest: "from_bytes v sq now raw = Inr project"
    "stage_photos store infos [] (za_upload_size a) project (sg_files ?dir) = (None, st)"
    "r = (project, st_staged st)" "dir' = ?dir\<lparr>sg_files := st_files st\<rparr>"
    using assms(1,3) o by (auto simp: read_trip_zip_def Let_def split: sum.splits import_error.splits prod.splits option.splits)
  obtain t info where t: "trip_files [] ?names = [t]" "find_entry_named infos t = Some info"
    "read_entry info (za_upload_size a) MAX_TRIP_FILE_BYTES ''trip file'' = Inr raw"
    using o(3) assms(3) by (auto simp: read_trip_file_def Let_def split: list.splits option.splits)
  have top: "archive_root (map ze_filename ?infos) = P @ ''/''"
    unfolding all using nested_root [OF assms(4,5), of t ?names] t(1) by simp
  have trip: "read_trip_file ?infos (za_upload_size a) = Inr raw"
    using nested_trip_files [OF assms(4,5), of ?names] nested_find [OF assms(4,5), of infos t] t(1,2) read_entry_named [OF t(3)]
    unfolding read_trip_file_def Let_def top unfolding all by simp
  have "distinct ?names" "length infos \<le> MAX_ENTRIES" using o(2) assms(2) by (auto simp: archive_entries_def split: if_splits)
  moreover have "set (map (\<lambda>n. P @ ''/'' @ n) ?names) \<inter> set (map ze_filename extra) = {}"
    using extra_apart [OF assms(4,5)] by auto
  ultimately have "distinct (map ze_filename ?infos)"
    unfolding all using assms(5) by (simp add: finder_extra_def distinct_map inj_on_def del: append.simps)
  then have entries: "archive_entries (a\<lparr>za_infos := Some ?infos\<rparr>) = Inr ?infos"
    using assms(6) by (simp add: archive_entries_def nested_def del: map_append)
  have staged: "stage_photos store ?infos (P @ ''/'') (za_upload_size a) project (sg_files ?dir) = (None, st)"
    using rest(2) nested_stage_all [OF assms(4,5)] by (auto simp: stage_photos_def Let_def split: option.splits)
  have "check_end_record (a\<lparr>za_infos := Some ?infos\<rparr>) = Inr ()" using o(1) by (simp add: check_end_record_def)
  then show ?thesis using entries trip top staged rest(1,3,4) by (simp add: read_trip_zip_def)
qed

theorem rezipped_archive_reads_the_same_witness:
  "\<exists>p dir'. read_trip_zip strict_validator (\<lambda>x. x) example_now (\<lambda>_ _. Stored 9) (archive_of zipped_entries) empty_staging =
       (Inr (p, [((''memories'', 5, some_photo), 4, 9)]), dir') \<and>
     zipped_entries = nested ''Trip'' exported_entries @ [zip_entry_of ''__MACOSX/._Trip'' ''x'']"
proof -
  obtain p files where run: "read_trip_zip strict_validator (\<lambda>x. x) example_now (\<lambda>_ _. Stored 9) (archive_of exported_entries) empty_staging =
       (Inr (p, [((''memories'', 5, some_photo), 4, 9)]), \<lparr>sg_manifest = True, sg_files = files\<rparr>)"
    using exported_reads by blast
  have zipped: "zipped_entries = nested ''Trip'' exported_entries @ [zip_entry_of ''__MACOSX/._Trip'' ''x'']"
    by (simp add: zipped_entries_def nested_def exported_entries_def zip_entry_of_def)
  have "plain_folder ''Trip''" "finder_extra [zip_entry_of ''__MACOSX/._Trip'' ''x'']" "archive_root (map ze_filename exported_entries) = []"
    by code_simp+
  moreover have "length exported_entries + length [zip_entry_of ''__MACOSX/._Trip'' ''x''] \<le> MAX_ENTRIES"
    by (simp add: exported_entries_def MAX_ENTRIES_def)
  moreover have "archive_of exported_entries\<lparr>za_infos := Some zipped_entries\<rparr> = archive_of zipped_entries" by (simp add: archive_of_def)
  moreover have "za_infos (archive_of exported_entries) = Some exported_entries" by (simp add: archive_of_def)
  ultimately have "read_trip_zip strict_validator (\<lambda>x. x) example_now (\<lambda>_ _. Stored 9) (archive_of zipped_entries) empty_staging =
       (Inr (p, [((''memories'', 5, some_photo), 4, 9)]), \<lparr>sg_manifest = True, sg_files = files\<rparr>)"
    using rezipped_archive_reads_the_same [OF run, of exported_entries "''Trip''" "[zip_entry_of ''__MACOSX/._Trip'' ''x'']"] zipped by simp
  then show ?thesis using zipped by blast
qed

end
