(* ===== verification/Simplify.thy ===== *)
theory Simplify
  imports TrackRepair "HOL-Library.Sublist"
begin

text \<open>
  Lines matched to the zoom they are looked at, from \<open>src/models/simplify.py\<close>: Ramer-Douglas-Peucker with an
  explicit stack, the level of every vertex computed once for all zooms, the bounds on work and
  coarseness, and boxes snapped to tiles. A position is the list of its coordinates, longitude first.
  Zooms are whole, as the endpoints make them; the functions of \<open>math\<close> are parameters.
\<close>

record maplib = libm +
  m_hypot :: "rat \<Rightarrow> rat \<Rightarrow> rat"
  m_tan :: "rat \<Rightarrow> rat"
  m_log :: "rat \<Rightarrow> rat"
  m_atan :: "rat \<Rightarrow> rat"
  m_sinh :: "rat \<Rightarrow> rat"

type_synonym position = "rat list"
type_synonym box = "rat \<times> rat \<times> rat \<times> rat"

definition EQUATOR_M_PER_PX_Z0 :: rat where "EQUATOR_M_PER_PX_Z0 = 15654303392 / 100000"
definition MAX_MERCATOR_LAT :: rat where "MAX_MERCATOR_LAT = 8505112878 / 100000000"

definition zoom_tolerance_m :: "maplib \<Rightarrow> nat \<Rightarrow> rat \<Rightarrow> rat" where
  "zoom_tolerance_m m zoom latitude =
     (let scale = max (m_cos m (radians latitude)) (1 / 100) in EQUATOR_M_PER_PX_Z0 * scale / 2 ^ zoom)"

subsection \<open>Tiles\<close>

definition lon_to_tile_x :: "rat \<Rightarrow> int \<Rightarrow> rat" where
  "lon_to_tile_x lon n = (lon + 180) / 360 * of_int n"

definition lat_to_tile_y :: "maplib \<Rightarrow> rat \<Rightarrow> int \<Rightarrow> rat" where
  "lat_to_tile_y m lat0 n =
     (let lat = min (max lat0 (- MAX_MERCATOR_LAT)) MAX_MERCATOR_LAT; r = radians lat in
      (1 - m_log m (m_tan m r + 1 / m_cos m r) / math_pi) / 2 * of_int n)"

definition tile_x_to_lon :: "int \<Rightarrow> int \<Rightarrow> rat" where
  "tile_x_to_lon x n = of_int x / of_int n * 360 - 180"

definition tile_y_to_lat :: "maplib \<Rightarrow> rat \<Rightarrow> int \<Rightarrow> rat" where
  "tile_y_to_lat m y n = m_atan m (m_sinh m (math_pi * (1 - 2 * y / of_int n))) * (180 / math_pi)"

definition clamp_tile :: "int \<Rightarrow> int \<Rightarrow> int" where
  "clamp_tile n x = max 0 (min n x)"

text \<open>A box thinner than a tile is widened to one.\<close>

definition widen :: "int \<Rightarrow> int \<Rightarrow> int \<Rightarrow> int \<times> int" where
  "widen n a b =
     (if b = a then (let b' = (if a < n then min n (a + 1) else n) in (b' - 1, b')) else (a, b))"

definition snap_bbox_to_tiles :: "maplib \<Rightarrow> box \<Rightarrow> nat \<Rightarrow> box \<times> int \<times> int \<times> int \<times> int" where
  "snap_bbox_to_tiles m bbox zoom =
     (let (min_lon, min_lat, max_lon, max_lat) = bbox;
          n = 2 ^ zoom;
          (x0, x1) = widen n (clamp_tile n \<lfloor>lon_to_tile_x min_lon n\<rfloor>) (clamp_tile n \<lceil>lon_to_tile_x max_lon n\<rceil>);
          (y0, y1) = widen n (clamp_tile n \<lfloor>lat_to_tile_y m max_lat n\<rfloor>) (clamp_tile n \<lceil>lat_to_tile_y m min_lat n\<rceil>) in
      ((tile_x_to_lon x0 n, tile_y_to_lat m (of_int y1) n, tile_x_to_lon x1 n, tile_y_to_lat m (of_int y0) n), x0, y0, x1, y1))"

definition line_bbox :: "position list \<Rightarrow> box" where
  "line_bbox poly =
     (let lons = map (\<lambda>p. p ! 0) poly; lats = map (\<lambda>p. p ! 1) poly in
      (Min (set lons), Min (set lats), Max (set lons), Max (set lats)))"

definition bboxes_intersect :: "box \<Rightarrow> box \<Rightarrow> bool" where
  "bboxes_intersect a b =
     (case (a, b) of ((a0, a1, a2, a3), (b0, b1, b2, b3)) \<Rightarrow> \<not> (a2 < b0 \<or> a0 > b2 \<or> a3 < b1 \<or> a1 > b3))"

definition midpoint_latitude :: "position list \<Rightarrow> rat" where
  "midpoint_latitude poly = ((hd poly ! 1) + (last poly ! 1)) / 2"

subsection \<open>Bounding the work\<close>

definition stride_to :: "'a list \<Rightarrow> nat \<Rightarrow> 'a list" where
  "stride_to poly target =
     (if length poly \<le> target \<or> target < 2 then poly
      else
        (let step = of_nat (length poly - 1) / of_nat (target - 1) in
         hd poly # map (\<lambda>i. poly ! nat (round_half_even (of_nat i * step))) [1..<target - 1] @ [last poly]))"

definition MAX_INPUT_POINTS :: nat where "MAX_INPUT_POINTS = 4000"
definition MIN_POINTS :: nat where "MIN_POINTS = 32"

definition working_set :: "'a list \<Rightarrow> nat \<Rightarrow> 'a list" where
  "working_set poly max_input_points = stride_to poly max_input_points"

definition floor_line :: "'a list \<Rightarrow> nat \<Rightarrow> 'a list" where
  "floor_line poly min_points = stride_to poly (min min_points (length poly))"

definition line_touches :: "position list \<Rightarrow> box \<Rightarrow> bool" where
  "line_touches poly bbox =
     (case bbox of (b0, b1, b2, b3) \<Rightarrow>
        if b0 \<le> hd poly ! 0 \<and> hd poly ! 0 \<le> b2 \<and> b1 \<le> hd poly ! 1 \<and> hd poly ! 1 \<le> b3 then True
        else bboxes_intersect (line_bbox poly) bbox)"

definition restrict_to_bbox :: "position list \<Rightarrow> box option \<Rightarrow> nat \<Rightarrow> position list" where
  "restrict_to_bbox poly bbox min_points =
     (case bbox of
        None \<Rightarrow> poly
      | Some b \<Rightarrow> if length poly \<le> min_points \<or> line_touches poly b then poly else floor_line poly min_points)"

subsection \<open>Ramer-Douglas-Peucker\<close>

definition projected :: "maplib \<Rightarrow> position list \<Rightarrow> (rat \<times> rat) list" where
  "projected m poly =
     (let scale = max (m_cos m (radians (midpoint_latitude poly))) (1 / 100) in map (\<lambda>p. (p ! 0 * scale, p ! 1)) poly)"

text \<open>The distance of a point \<open>p\<close> from the line through \<open>a\<close> and \<open>b\<close>, or from \<open>a\<close> when they are one.\<close>

definition line_distance :: "maplib \<Rightarrow> rat \<times> rat \<Rightarrow> rat \<times> rat \<Rightarrow> rat \<times> rat \<Rightarrow> rat" where
  "line_distance m a b p =
     (let (ax, ay) = a; (bx, by') = b; (px, py) = p; dx = bx - ax; dy = by' - ay; den = m_hypot m dx dy in
      if den = 0 then m_hypot m (px - ax) (py - ay) else \<bar>dy * px - dx * py + bx * ay - by' * ax\<bar> / den)"

text \<open>The inner loop: the worst distance so far and where, at first \<open>-1\<close> and nowhere.\<close>

fun worst_loop :: "(nat \<Rightarrow> rat) \<Rightarrow> nat list \<Rightarrow> rat \<Rightarrow> nat option \<Rightarrow> rat \<times> nat option" where
  "worst_loop dst [] worst at' = (worst, at')"
| "worst_loop dst (k # ks) worst at' =
     (if dst k > worst then worst_loop dst ks (dst k) (Some k) else worst_loop dst ks worst at')"

definition worst_in :: "maplib \<Rightarrow> (rat \<times> rat) list \<Rightarrow> nat \<Rightarrow> nat \<Rightarrow> rat \<times> nat option" where
  "worst_in m proj i j = worst_loop (\<lambda>k. line_distance m (proj ! i) (proj ! j) (proj ! k)) [i + 1..<j] (- 1) None"

lemma worst_loop_at: "worst_loop dst ks w at' = (w', Some a) \<Longrightarrow> a \<in> set ks \<or> at' = Some a"
  by (induction dst ks w at' rule: worst_loop.induct) (auto split: if_splits)

lemma worst_in_at: "worst_in m proj i j = (w, Some a) \<Longrightarrow> i < a \<and> a < j"
  unfolding worst_in_def using worst_loop_at by fastforce

definition range_size :: "nat \<times> nat \<Rightarrow> nat" where
  "range_size r = (if snd r \<le> fst r then 1 else 2 * (snd r - fst r) - 1)"

lemma range_size_split: "i < a \<Longrightarrow> a < j \<Longrightarrow> range_size (i, a) + range_size (a, j) < range_size (i, j)"
  by (simp add: range_size_def)

lemma worst_in_size: "(w, Some a) = worst_in m proj i j \<Longrightarrow> range_size (i, a) + range_size (a, j) < range_size (i, j)"
  using worst_in_at [of m proj i j w a] range_size_split by simp

lemma range_size_pos: "0 < range_size r"
  by (auto simp: range_size_def)

text \<open>The stack of \<open>simplify_lonlat\<close>; a distance above the tolerance has a place.\<close>

function keep_loop :: "maplib \<Rightarrow> (rat \<times> rat) list \<Rightarrow> rat \<Rightarrow> (nat \<times> nat) list \<Rightarrow> bool list \<Rightarrow> bool list" where
  "keep_loop m proj eps [] keep = keep"
| "keep_loop m proj eps ((i, j) # stack) keep =
     (if j - i < 2 then keep_loop m proj eps stack keep
      else
        (case worst_in m proj i j of
           (worst, Some a) \<Rightarrow>
             if worst > eps then keep_loop m proj eps ((a, j) # (i, a) # stack) (keep[a := True])
             else keep_loop m proj eps stack keep
         | (worst, None) \<Rightarrow> keep_loop m proj eps stack keep))"
  by pat_completeness auto
termination
  by (relation "measure (\<lambda>(m, proj, eps, stack, keep). sum_list (map range_size stack))")
    (auto dest: worst_in_size simp: range_size_pos add.commute add.left_commute)

definition simplify_lonlat :: "maplib \<Rightarrow> position list \<Rightarrow> rat \<Rightarrow> position list" where
  "simplify_lonlat m poly tolerance_m =
     (if length poly < 3 \<or> tolerance_m \<le> 0 then poly
      else
        (let n = length poly;
             keep = keep_loop m (projected m poly) (tolerance_m / 111000) [(0, n - 1)] ((replicate n False)[0 := True, n - 1 := True]) in
         map fst (filter snd (zip poly keep))))"

definition simplify_for_zoom :: "maplib \<Rightarrow> position list \<Rightarrow> nat \<Rightarrow> nat \<Rightarrow> nat \<Rightarrow> box option \<Rightarrow> position list" where
  "simplify_for_zoom m poly zoom min_points max_input_points bbox =
     (if length poly < 3 then poly
      else if (case bbox of None \<Rightarrow> False | Some b \<Rightarrow> \<not> line_touches poly b) then floor_line poly min_points
      else
        (let working = working_set poly max_input_points;
             reduced = simplify_lonlat m working (zoom_tolerance_m m zoom (midpoint_latitude working)) in
         if length reduced \<ge> min_points then reduced else floor_line working min_points))"

subsection \<open>The level of every vertex\<close>

definition MAX_ZOOM_LEVEL :: nat where "MAX_ZOOM_LEVEL = 22"
definition NEVER_KEPT :: nat where "NEVER_KEPT = 255"

text \<open>A deviation, \<open>None\<close> for infinity.\<close>

definition clamp_to :: "rat \<Rightarrow> rat option \<Rightarrow> rat option" where
  "clamp_to worst parent = Some (case parent of None \<Rightarrow> worst | Some p \<Rightarrow> min worst p)"

function deviation_loop ::
  "maplib \<Rightarrow> (rat \<times> rat) list \<Rightarrow> (nat \<times> nat \<times> rat option) list \<Rightarrow> rat option list \<Rightarrow> rat option list" where
  "deviation_loop m proj [] devs = devs"
| "deviation_loop m proj ((i, j, parent) # stack) devs =
     (if j - i < 2 then deviation_loop m proj stack devs
      else
        (case worst_in m proj i j of
           (worst, Some a) \<Rightarrow>
             if worst \<le> 0 then deviation_loop m proj stack devs
             else (let clamped = clamp_to worst parent in
               deviation_loop m proj ((a, j, clamped) # (i, a, clamped) # stack) (devs[a := clamped]))
         | (worst, None) \<Rightarrow> deviation_loop m proj stack devs))"
  by pat_completeness auto
termination
  by (relation "measure (\<lambda>(m, proj, stack, devs). sum_list (map (\<lambda>(i, j, p). range_size (i, j)) stack))")
    (auto dest: worst_in_size simp: range_size_pos add.commute add.left_commute)

fun lowest_level :: "rat \<Rightarrow> nat \<Rightarrow> rat list \<Rightarrow> nat" where
  "lowest_level x level [] = NEVER_KEPT"
| "lowest_level x level (eps # es) = (if x > eps then level else lowest_level x (level + 1) es)"

definition vertex_levels :: "maplib \<Rightarrow> position list \<Rightarrow> nat list" where
  "vertex_levels m poly =
     (let n = length poly in
      if n < 3 then replicate n 0
      else
        (let devs = deviation_loop m (projected m poly) [(0, n - 1, None)] ((replicate n (Some 0))[0 := None, n - 1 := None]);
             latitude = midpoint_latitude poly;
             epsilons = map (\<lambda>level. zoom_tolerance_m m level latitude / 111000) [0..<MAX_ZOOM_LEVEL + 1] in
         map (\<lambda>d. case d of None \<Rightarrow> 0 | Some x \<Rightarrow> lowest_level x 0 epsilons) devs))"

definition filter_to_level :: "position list \<Rightarrow> nat list \<Rightarrow> nat \<Rightarrow> nat \<Rightarrow> position list" where
  "filter_to_level poly levels level min_points =
     (if length poly < 3 then poly
      else
        (let kept = map fst (filter (\<lambda>(p, lowest). lowest \<le> level) (zip poly levels)) in
         if length kept \<ge> min_points then kept else floor_line poly min_points))"


subsection \<open>The loops as trees of ranges\<close>

text \<open>What the stack below a range keeps, and the deviations it leaves there.\<close>

function kept_in :: "maplib \<Rightarrow> (rat \<times> rat) list \<Rightarrow> rat \<Rightarrow> nat \<Rightarrow> nat \<Rightarrow> nat set" where
  "kept_in m proj eps i j =
     (if j - i < 2 then {}
      else (case worst_in m proj i j of
           (worst, Some a) \<Rightarrow> if worst > eps then insert a (kept_in m proj eps a j \<union> kept_in m proj eps i a) else {}
         | (worst, None) \<Rightarrow> {}))"
  by pat_completeness auto
termination by (relation "measure (\<lambda>(m, proj, eps, i, j). j - i)") (auto dest!: sym [THEN worst_in_at])

function dev_in :: "maplib \<Rightarrow> (rat \<times> rat) list \<Rightarrow> nat \<Rightarrow> nat \<Rightarrow> rat option \<Rightarrow> nat \<Rightarrow> rat option" where
  "dev_in m proj i j parent =
     (if j - i < 2 then (\<lambda>_. None)
      else (case worst_in m proj i j of
           (worst, Some a) \<Rightarrow>
             if worst \<le> 0 then (\<lambda>_. None)
             else (let c = clamp_to worst parent in
               ((\<lambda>_. None)(a := c)) ++ dev_in m proj a j c ++ dev_in m proj i a c)
         | (worst, None) \<Rightarrow> (\<lambda>_. None)))"
  by pat_completeness auto
termination by (relation "measure (\<lambda>(m, proj, i, j, parent). j - i)") (auto dest!: sym [THEN worst_in_at])

declare kept_in.simps [simp del] dev_in.simps [simp del] keep_loop.simps(2) [simp del] deviation_loop.simps(2) [simp del]

lemma range_cases:
  obtains (thin) "j - i < 2" | (nowhere) w where "2 \<le> j - i" "worst_in m proj i j = (w, None)"
    | (split) w a where "2 \<le> j - i" "worst_in m proj i j = (w, Some a)" "i < a" "a < j"
  using worst_in_at by (metis not_le option.exhaust surj_pair)

lemma kept_in_range: "k \<in> kept_in m proj eps i j \<Longrightarrow> i < k \<and> k < j"
proof (induction m proj eps i j rule: kept_in.induct)
  case (1 m proj eps i j)
  show ?case
  proof (rule range_cases [where i = i and j = j and m = m and proj = proj])
    fix w a assume r: "2 \<le> j - i" "worst_in m proj i j = (w, Some a)" "i < a" "a < j"
    then have n: "\<not> j - i < 2" by simp
    have "k = a \<or> k \<in> kept_in m proj eps a j \<or> k \<in> kept_in m proj eps i a" "eps < w"
      using 1(3) r n by (auto simp: kept_in.simps [of m proj eps i j] split: if_splits)
    then show ?thesis using 1(1,2) [OF n r(2) [symmetric] refl] r(3,4) by fastforce
  qed (use 1(3) in \<open>simp_all add: kept_in.simps [of m proj eps i j]\<close>)
qed

lemma nth_update_at: "k < length xs \<Longrightarrow> xs[a := x] ! k = (if k = a then x else xs ! k)"
  by (cases "a < length xs") (auto simp: nth_list_update)

lemma length_keep_loop [simp]: "length (keep_loop m proj eps stack keep) = length keep"
  by (induction m proj eps stack keep rule: keep_loop.induct) (auto simp: keep_loop.simps(2) split: prod.splits option.splits)

lemma keep_loop_kept:
  "k < length keep \<Longrightarrow> keep_loop m proj eps stack keep ! k \<longleftrightarrow> keep ! k \<or> (\<exists>(i, j)\<in>set stack. k \<in> kept_in m proj eps i j)"
proof (induction m proj eps stack keep rule: keep_loop.induct)
  case (2 m proj eps i j stack keep)
  show ?case
  proof (rule range_cases [where i = i and j = j and m = m and proj = proj])
    fix w a assume r: "2 \<le> j - i" "worst_in m proj i j = (w, Some a)" "i < a" "a < j"
    then have n: "\<not> j - i < 2" by simp
    note step = keep_loop.simps(2) [of m proj eps i j stack keep, unfolded r(2) prod.case option.case if_not_P [OF n]]
    show ?thesis
      using 2(3,4) [OF n r(2) [symmetric] refl] 2(5) n r(2) step
      by (auto simp: kept_in.simps [of m proj eps i j] nth_update_at)
  next
    fix w assume r: "2 \<le> j - i" "worst_in m proj i j = (w, None)"
    then show ?thesis
      using 2(2) [OF _ r(2) [symmetric] refl] 2(5) by (simp add: kept_in.simps [of m proj eps i j] keep_loop.simps(2))
  next
    assume "j - i < 2"
    then show ?thesis using 2(1,5) by (simp add: kept_in.simps [of m proj eps i j] keep_loop.simps(2))
  qed
qed simp

lemma clamp_le: "clamp_to w parent = Some c \<Longrightarrow> c \<le> w \<and> (\<forall>p. parent = Some p \<longrightarrow> c \<le> p)"
  by (auto simp: clamp_to_def split: option.splits)

lemma dev_in_split:
  assumes "2 \<le> j - i" "worst_in m proj i j = (w, Some a)"
  shows "dev_in m proj i j parent =
    (if w \<le> 0 then (\<lambda>_. None)
     else ((\<lambda>_. None)(a := clamp_to w parent)) ++ dev_in m proj a j (clamp_to w parent) ++ dev_in m proj i a (clamp_to w parent))"
  using assms by (simp add: dev_in.simps [of m proj i j] Let_def)

lemma dev_in_bounds:
  "dev_in m proj i j parent k = Some x \<Longrightarrow> i < k \<and> k < j \<and> (\<forall>p. parent = Some p \<longrightarrow> x \<le> p)"
proof (induction m proj i j parent arbitrary: k rule: dev_in.induct)
  case (1 m proj i j parent)
  show ?case
  proof (rule range_cases [where i = i and j = j and m = m and proj = proj])
    fix w a assume r: "2 \<le> j - i" "worst_in m proj i j = (w, Some a)" "i < a" "a < j"
    then have n: "\<not> j - i < 2" by simp
    have w: "\<not> w \<le> 0" using 1(3) dev_in_split [OF r(1,2), of parent] by (auto split: if_splits)
    obtain c where c: "clamp_to w parent = Some c" by (simp add: clamp_to_def)
    have "k = a \<and> x = c \<or> dev_in m proj a j (Some c) k = Some x \<or> dev_in m proj i a (Some c) k = Some x"
      using 1(3) w dev_in_split [OF r(1,2), of parent] by (auto simp: c map_add_Some_iff split: if_splits)
    then show ?thesis
      using 1(1,2) [OF n r(2) [symmetric] refl w refl, unfolded c] clamp_le [OF c] r(3,4) by fastforce
  qed (use 1(3) in \<open>simp_all add: dev_in.simps [of m proj i j]\<close>)
qed

lemma dev_in_kept:
  assumes "0 \<le> eps" "\<forall>p. parent = Some p \<longrightarrow> eps < p"
  shows "(\<exists>x. dev_in m proj i j parent k = Some x \<and> eps < x) \<longleftrightarrow> k \<in> kept_in m proj eps i j"
  using assms(2)
proof (induction m proj i j parent rule: dev_in.induct)
  case (1 m proj i j parent)
  show ?case
  proof (rule range_cases [where i = i and j = j and m = m and proj = proj])
    fix w a assume r: "2 \<le> j - i" "worst_in m proj i j = (w, Some a)" "i < a" "a < j"
    then have n: "\<not> j - i < 2" by simp
    obtain c where c: "clamp_to w parent = Some c" by (simp add: clamp_to_def)
    consider "w \<le> 0" | "0 < w" "w \<le> eps" | "eps < w" "0 < w" using assms(1) by linarith
    then show ?thesis
    proof cases
      case 1
      then show ?thesis using r assms(1) by (simp add: dev_in_split kept_in.simps [of m proj eps i j])
    next
      case 2
      have "x \<le> w" if "dev_in m proj i j parent k = Some x" for x
        using that 2(1) dev_in_split [OF r(1,2), of parent] clamp_le [OF c] dev_in_bounds
        by (fastforce simp: c map_add_Some_iff split: if_splits)
      then show ?thesis using 2 r by (fastforce simp: kept_in.simps [of m proj eps i j])
    next
      case 3
      have ce: "eps < c" using c 3(1) "1.prems" by (auto simp: clamp_to_def split: option.splits)
      have w: "\<not> w \<le> 0" using 3 by simp
      have ih: "(\<exists>x. dev_in m proj a j (Some c) k = Some x \<and> eps < x) \<longleftrightarrow> k \<in> kept_in m proj eps a j"
        "(\<exists>x. dev_in m proj i a (Some c) k = Some x \<and> eps < x) \<longleftrightarrow> k \<in> kept_in m proj eps i a"
        using "1.IH" [OF n r(2) [symmetric] refl w refl, unfolded c] ce by simp_all
      have d: "dev_in m proj i j parent k = (((\<lambda>_. None)(a := Some c)) ++ dev_in m proj a j (Some c) ++ dev_in m proj i a (Some c)) k"
        using w by (simp add: dev_in_split [OF r(1,2)] c)
      have out: "dev_in m proj a j (Some c) k = None" if "k \<le> a" using dev_in_bounds [of m proj a j "Some c" k] that by fastforce
      have out2: "dev_in m proj i a (Some c) k = None" if "a \<le> k" using dev_in_bounds [of m proj i a "Some c" k] that by fastforce
      have kept: "k \<in> kept_in m proj eps i j \<longleftrightarrow> k = a \<or> k \<in> kept_in m proj eps a j \<or> k \<in> kept_in m proj eps i a"
        using n r(2) 3(1) by (simp add: kept_in.simps [of m proj eps i j])
      consider "k = a" | "k < a" | "a < k" by linarith
      then show ?thesis
      proof cases
        case 1
        then show ?thesis using kept d ce out out2 by (simp add: map_add_def)
      next
        case 2
        then show ?thesis using kept d ih out kept_in_range [of k m proj eps a j] by (auto simp: map_add_def split: option.splits)
      next
        case 3
        then show ?thesis using kept d ih out2 kept_in_range [of k m proj eps i a] by (auto simp: map_add_def split: option.splits)
      qed
    qed
  qed (simp_all add: dev_in.simps [of m proj i j] kept_in.simps [of m proj eps i j])
qed

text \<open>The deviations the whole stack leaves.\<close>

fun stack_devs :: "maplib \<Rightarrow> (rat \<times> rat) list \<Rightarrow> (nat \<times> nat \<times> rat option) list \<Rightarrow> nat \<Rightarrow> rat option" where
  "stack_devs m proj [] = (\<lambda>_. None)"
| "stack_devs m proj ((i, j, parent) # stack) = dev_in m proj i j parent ++ stack_devs m proj stack"

lemma length_deviation_loop [simp]: "length (deviation_loop m proj stack devs) = length devs"
  by (induction m proj stack devs rule: deviation_loop.induct) (auto simp: deviation_loop.simps(2) Let_def split: prod.splits option.splits)

lemma deviation_loop_devs:
  "k < length devs \<Longrightarrow> deviation_loop m proj stack devs ! k =
     (case stack_devs m proj stack k of Some x \<Rightarrow> Some x | None \<Rightarrow> devs ! k)"
proof (induction m proj stack devs rule: deviation_loop.induct)
  case (2 m proj i j parent stack devs)
  show ?case
  proof (rule range_cases [where i = i and j = j and m = m and proj = proj])
    fix w a assume r: "2 \<le> j - i" "worst_in m proj i j = (w, Some a)" "i < a" "a < j"
    then have n: "\<not> j - i < 2" by simp
    note step = deviation_loop.simps(2) [of m proj i j parent stack devs, unfolded r(2) prod.case option.case if_not_P [OF n]]
    show ?thesis
    proof (cases "w \<le> 0")
      case True
      then show ?thesis using 2(3) [OF n r(2) [symmetric] refl True] 2(5) step by (simp add: dev_in_split [OF r(1,2)])
    next
      case False
      obtain c where c: "clamp_to w parent = Some c" by (simp add: clamp_to_def)
      have "deviation_loop m proj ((i, j, parent) # stack) devs ! k =
          (case stack_devs m proj ((a, j, Some c) # (i, a, Some c) # stack) k of Some x \<Rightarrow> Some x | None \<Rightarrow> devs[a := Some c] ! k)"
        using 2(4) [OF n r(2) [symmetric] refl False refl, unfolded c] 2(5) step False by (simp add: c Let_def)
      then show ?thesis using 2(5) False
        by (auto simp: dev_in_split [OF r(1,2)] c nth_update_at map_add_def split: option.splits)
    qed
  next
    fix w assume r: "2 \<le> j - i" "worst_in m proj i j = (w, None)"
    then show ?thesis
      using 2(2) [OF _ r(2) [symmetric] refl] 2(5) by (simp add: dev_in.simps [of m proj i j] deviation_loop.simps(2))
  next
    assume "j - i < 2"
    then show ?thesis using 2(1,5) by (simp add: dev_in.simps [of m proj i j] deviation_loop.simps(2))
  qed
qed simp

subsection \<open>Levels and tolerances\<close>

lemma zoom_tolerance_pos: "0 < zoom_tolerance_m m zoom lat"
proof -
  have "0 < max (m_cos m (radians lat)) (1 / 100)" by (rule less_le_trans [OF _ max.cobounded2]) simp
  then show ?thesis by (simp add: zoom_tolerance_m_def Let_def EQUATOR_M_PER_PX_Z0_def)
qed

lemma zoom_tolerance_antimono:
  assumes "z \<le> z'"
  shows "zoom_tolerance_m m z' lat \<le> zoom_tolerance_m m z lat"
proof -
  let ?c = "EQUATOR_M_PER_PX_Z0 * max (m_cos m (radians lat)) (1 / 100)"
  have "0 < ?c" using zoom_tolerance_pos [of m 0 lat] by (simp add: zoom_tolerance_m_def Let_def)
  moreover have "(2::rat) ^ z \<le> 2 ^ z'" using assms by (intro power_increasing) auto
  ultimately have "?c / 2 ^ z' \<le> ?c / 2 ^ z" by (intro divide_left_mono) auto
  then show ?thesis by (simp add: zoom_tolerance_m_def Let_def)
qed

lemma lowest_level_ge: "s + length es \<le> NEVER_KEPT \<Longrightarrow> s \<le> lowest_level x s es"
proof (induction es arbitrary: s)
  case (Cons e es)
  then have "s + 1 \<le> lowest_level x (s + 1) es" by simp
  then show ?case by simp
qed simp

lemma lowest_level_le:
  assumes "s + length es \<le> NEVER_KEPT" "k < length es" "\<forall>a b. a \<le> b \<and> b < length es \<longrightarrow> es ! b \<le> es ! a"
  shows "lowest_level x s es \<le> s + k \<longleftrightarrow> es ! k < x"
  using assms
proof (induction es arbitrary: s k)
  case (Cons e es)
  show ?case
  proof (cases "x > e")
    case True
    then have "(e # es) ! k < x" using Cons(3,4) by (metis le0 nth_Cons_0 order.strict_trans1)
    then show ?thesis using True by simp
  next
    case False
    show ?thesis
    proof (cases k)
      case 0
      have "\<not> lowest_level x (s + 1) es \<le> s" using lowest_level_ge [of "s + 1" es x] Cons(2) by simp
      then show ?thesis using False 0 by simp
    next
      case (Suc k')
      have "\<forall>a b. a \<le> b \<and> b < length es \<longrightarrow> es ! b \<le> es ! a" using Cons(4) by (metis Suc_le_mono Suc_less_eq length_Cons nth_Cons_Suc)
      then show ?thesis using Cons(1) [of "s + 1" k'] Cons(2,3) False Suc by simp
    qed
  qed
qed simp

lemma filter_zip_flags:
  "length ls = length xs \<Longrightarrow> map fst (filter (\<lambda>(p, l). P l) (zip xs ls)) = map fst (filter snd (zip xs (map P ls)))"
  by (induction ls xs rule: list_induct2) auto

lemma levels_flags:
  assumes "3 \<le> length poly" "level \<le> MAX_ZOOM_LEVEL"
  shows "map (\<lambda>l. l \<le> level) (vertex_levels m poly) =
    keep_loop m (projected m poly) (zoom_tolerance_m m level (midpoint_latitude poly) / 111000) [(0, length poly - 1)]
      ((replicate (length poly) False)[0 := True, length poly - 1 := True])"
    (is "?flags = keep_loop m ?proj ?eps ?stack ?keep0")
proof (rule nth_equalityI)
  let ?n = "length poly"
  let ?start = "(replicate ?n (Some 0))[0 := None, ?n - 1 := None] :: rat option list"
  let ?devs = "deviation_loop m ?proj [(0, ?n - 1, None)] ?start"
  let ?es = "map (\<lambda>level. zoom_tolerance_m m level (midpoint_latitude poly) / 111000) [0..<MAX_ZOOM_LEVEL + 1]"
  have lv: "vertex_levels m poly = map (\<lambda>d. case d of None \<Rightarrow> 0 | Some x \<Rightarrow> lowest_level x 0 ?es) ?devs"
  proof -
    have "\<not> ?n < 3" using assms(1) by simp
    then show ?thesis unfolding vertex_levels_def Let_def by (simp only: if_False)
  qed
  show "length ?flags = length (keep_loop m ?proj ?eps ?stack ?keep0)" by (simp add: lv)
  fix k assume "k < length ?flags"
  then have k: "k < ?n" by (simp add: lv)
  have eps: "0 < ?eps" using zoom_tolerance_pos [of m level] by simp
  have low: "lowest_level x 0 ?es \<le> level \<longleftrightarrow> ?eps < x" for x
  proof -
    have "?es ! b \<le> ?es ! a" if "a \<le> b" "b < length ?es" for a b
      using that zoom_tolerance_antimono [of a b m "midpoint_latitude poly"] by (simp add: divide_right_mono del: upt_Suc)
    then show ?thesis
      using lowest_level_le [of 0 ?es level x] assms(2) by (simp add: MAX_ZOOM_LEVEL_def NEVER_KEPT_def del: upt_Suc)
  qed
  have dev: "?devs ! k = (case dev_in m ?proj 0 (?n - 1) None k of Some x \<Rightarrow> Some x | None \<Rightarrow> ?start ! k)"
    using deviation_loop_devs [of k ?start m ?proj "[(0, ?n - 1, None)]"] k by simp
  have keep: "keep_loop m ?proj ?eps ?stack ?keep0 ! k \<longleftrightarrow> ?keep0 ! k \<or> k \<in> kept_in m ?proj ?eps 0 (?n - 1)"
    using keep_loop_kept [of k ?keep0 m ?proj ?eps ?stack] k by simp
  have kd: "(\<exists>x. dev_in m ?proj 0 (?n - 1) None k = Some x \<and> ?eps < x) \<longleftrightarrow> k \<in> kept_in m ?proj ?eps 0 (?n - 1)"
    using dev_in_kept [of ?eps None m ?proj 0 "?n - 1" k] eps by simp
  show "?flags ! k = keep_loop m ?proj ?eps ?stack ?keep0 ! k"
  proof (cases "k = 0 \<or> k = ?n - 1")
    case True
    then have "dev_in m ?proj 0 (?n - 1) None k = None"
      using dev_in_bounds [of m ?proj 0 "?n - 1" None k] by fastforce
    moreover have "?start ! k = None" "?keep0 ! k" using True k by (auto simp: nth_update_at)
    ultimately show ?thesis using keep dev k by (simp add: lv)
  next
    case False
    then have d0: "?start ! k = Some 0" "\<not> ?keep0 ! k" using k by (auto simp: nth_update_at)
    show ?thesis
    proof (cases "dev_in m ?proj 0 (?n - 1) None k")
      case None
      then show ?thesis using keep kd dev d0 low [of 0] eps k by (simp add: lv)
    next
      case (Some x)
      then show ?thesis using keep kd dev d0 low [of x] k by (simp add: lv)
    qed
  qed
qed

subsection \<open>Bounding the work\<close>

lemma stride_to_length: "2 \<le> target \<Longrightarrow> length (stride_to poly target) = min (length poly) target"
  by (auto simp: stride_to_def Let_def)

lemma stride_to_within: "length (stride_to poly target) \<le> target \<Longrightarrow> 2 \<le> target \<Longrightarrow> stride_to (stride_to poly target) target = stride_to poly target"
  by (simp add: stride_to_def [of "stride_to poly target"])

lemma round_of_nat_bounds:
  assumes "0 \<le> x"
  shows "0 \<le> round_half_even x"
  using round_half_even_mono [OF assms] round_half_even_of_int [of 0] by simp

text \<open>With a step of more than one, the positions grow strictly and end before the last.\<close>

lemma strided_positions:
  assumes "target < n" "2 \<le> target" "i < i'" "i' \<le> target - 1" "step = of_nat (n - 1) / (of_nat (target - 1) :: rat)"
  shows "round_half_even (of_nat i * step) < round_half_even (of_nat i' * step)"
    "round_half_even (of_nat i' * step) \<le> int (n - 1)"
proof -
  have t: "0 < (of_nat (target - 1) :: rat)" using assms(2) by simp
  have "(of_nat (target - 1) :: rat) < of_nat (n - 1)" using assms(1,2) by (simp only: of_nat_less_iff)
  then have s: "1 < step" using t by (simp add: assms(5) less_divide_eq)
  show "round_half_even (of_nat i * step) < round_half_even (of_nat i' * step)"
  proof -
    have "of_nat i + 1 \<le> (of_nat i' :: rat)" using assms(3) by (metis Suc_leI of_nat_Suc of_nat_le_iff add.commute)
    then have "(of_nat i + 1) * step \<le> of_nat i' * step" using s by (intro mult_right_mono) auto
    then have "of_nat i * step + 1 < of_nat i' * step" using s by (simp add: distrib_right)
    then have "(of_int (round_half_even (of_nat i * step)) :: rat) < of_int (round_half_even (of_nat i' * step))"
      using round_half_even_bounds(1) [of "of_nat i * step"] round_half_even_bounds(2) [of "of_nat i' * step"] by linarith
    then show ?thesis by (simp only: of_int_less_iff)
  qed
  show "round_half_even (of_nat i' * step) \<le> int (n - 1)"
  proof -
    have "of_nat i' * step \<le> of_nat (target - 1) * step" using assms(4) s by (intro mult_right_mono) auto
    also have "\<dots> = of_int (int (n - 1))" using t by (simp add: assms(5))
    finally show ?thesis using round_half_even_mono [of "of_nat i' * step" "of_int (int (n - 1))"] by (simp only: round_half_even_of_int)
  qed
qed

lemma stride_to_map:
  assumes "target < length poly" "2 \<le> target"
  shows "stride_to poly target =
    map (\<lambda>i. poly ! nat (round_half_even (of_nat i * (of_nat (length poly - 1) / of_nat (target - 1))))) [0..<target]"
proof -
  let ?f = "\<lambda>i. nat (round_half_even (of_nat i * (of_nat (length poly - 1) / of_nat (target - 1))))"
  have up: "[0..<target] = 0 # [1..<target - 1] @ [target - 1]"
    using assms(2) by (metis One_nat_def Suc_1 Suc_diff_1 Suc_le_eq le_SucE less_Suc_eq_0_disj not_less upt_Suc upt_conv_Cons zero_less_Suc zero_less_diff)
  have "?f 0 = 0" using round_half_even_of_int [of 0] by simp
  moreover have "?f (target - 1) = length poly - 1"
  proof -
    have "(of_nat (target - 1) :: rat) * (of_nat (length poly - 1) / of_nat (target - 1)) = of_int (int (length poly - 1))"
      using assms(2) by simp
    then show ?thesis by (simp only: round_half_even_of_int nat_int)
  qed
  moreover have "poly \<noteq> []" using assms(1) by auto
  ultimately show ?thesis
    using assms unfolding up by (simp add: stride_to_def Let_def hd_conv_nth last_conv_nth)
qed

lemma subseq_positions: "sorted_wrt (<) ks \<Longrightarrow> \<forall>k\<in>set ks. k < length xs \<Longrightarrow> subseq (map (\<lambda>k. xs ! k) ks) xs"
proof (induction xs arbitrary: ks rule: rev_induct)
  case (snoc x xs)
  show ?case
  proof (cases ks rule: rev_cases)
    case (snoc js k)
    have below: "\<forall>j\<in>set js. j < k" using snoc snoc.prems(1) by (simp add: sorted_wrt_append)
    have s: "sorted_wrt (<) js" using snoc snoc.prems(1) by (simp add: sorted_wrt_append)
    have k: "k \<le> length xs" using snoc snoc.prems(2) by simp
    have same: "map (\<lambda>k. (xs @ [x]) ! k) js = map (\<lambda>k. xs ! k) js" using below k by (auto simp: nth_append)
    have js: "subseq (map (\<lambda>k. xs ! k) js) xs" using snoc.IH [OF s] below k by fastforce
    show ?thesis
    proof (cases "k = length xs")
      case True
      have "map (\<lambda>k. (xs @ [x]) ! k) ks = map (\<lambda>k. xs ! k) js @ [x]" unfolding snoc map_append same using True by simp
      then show ?thesis using js by (simp only: subseq_append)
    next
      case False
      then have "\<forall>i\<in>set ks. i < length xs" using below k snoc by fastforce
      then have "subseq (map (\<lambda>k. xs ! k) ks) xs" by (rule snoc.IH [OF snoc.prems(1)])
      moreover have eq: "map (\<lambda>k. (xs @ [x]) ! k) ks = map (\<lambda>k. xs ! k) ks" using False snoc below k by (auto simp: nth_append)
      ultimately show ?thesis unfolding eq by (intro subseq_rev_drop_many)
    qed
  qed simp
qed simp

lemma stride_to_subseq:
  assumes "poly \<noteq> []"
  shows "subseq (stride_to poly target) poly \<and> stride_to poly target \<noteq> [] \<and>
    hd (stride_to poly target) = hd poly \<and> last (stride_to poly target) = last poly"
proof (cases "length poly \<le> target \<or> target < 2")
  case True
  then show ?thesis using assms by (auto simp: stride_to_def intro: list_emb_refl)
next
  case False
  then have t: "target < length poly" "2 \<le> target" by auto
  let ?step = "of_nat (length poly - 1) / of_nat (target - 1) :: rat"
  let ?ks = "map (\<lambda>i. nat (round_half_even (of_nat i * ?step))) [0..<target]"
  have pos: "0 \<le> round_half_even (of_nat i * ?step)" for i by (intro round_of_nat_bounds) simp
  define f where "f = (\<lambda>i. nat (round_half_even (of_nat i * ?step)))"
  have lt: "f i < f j" if "i < j" "j < target" for i j
  proof -
    have "j \<le> target - 1" using that by simp
    from strided_positions(1) [OF t that(1) this refl] show ?thesis unfolding f_def nat_less_eq_zless [OF pos] .
  qed
  have "sorted_wrt (<) (map f [0..<target])" by (simp add: sorted_wrt_iff_nth_less lt)
  then have "sorted_wrt (<) ?ks" by (simp only: f_def)
  moreover have "\<forall>k\<in>set ?ks. k < length poly"
  proof
    fix k assume "k \<in> set ?ks"
    then obtain i where i: "i < target" "k = nat (round_half_even (of_nat i * ?step))" by auto
    have "round_half_even (of_nat i * ?step) \<le> int (length poly - 1)"
    proof (cases i)
      case 0
      then show ?thesis using round_half_even_of_int [of 0] by simp
    next
      case (Suc i')
      then show ?thesis using strided_positions(2) [OF t, of i' i ?step] i(1) by simp
    qed
    then show "k < length poly" using i(2) t by (simp add: nat_less_iff pos)
  qed
  ultimately have "subseq (stride_to poly target) poly"
    using subseq_positions [of ?ks poly] by (simp add: stride_to_map [OF t] comp_def)
  moreover have "stride_to poly target = hd poly # map (\<lambda>i. poly ! nat (round_half_even (of_nat i * ?step))) [1..<target - 1] @ [last poly]"
    using False by (simp add: stride_to_def Let_def)
  ultimately show ?thesis by simp
qed

subsection \<open>What Ramer-Douglas-Peucker drops\<close>

lemma worst_loop_max: "worst_loop dst ks w at' = (w', a) \<Longrightarrow> w \<le> w' \<and> (\<forall>k\<in>set ks. dst k \<le> w')"
proof (induction dst ks w at' rule: worst_loop.induct)
  case (2 dst k ks w at')
  then show ?case by (cases "dst k > w") auto
qed simp

lemma worst_in_max:
  "worst_in m proj i j = (w, a) \<Longrightarrow> i < k \<Longrightarrow> k < j \<Longrightarrow> line_distance m (proj ! i) (proj ! j) (proj ! k) \<le> w"
  unfolding worst_in_def using worst_loop_max by fastforce

lemma worst_in_nowhere: "worst_in m proj i j = (w, None) \<Longrightarrow> w = - 1"
proof -
  have "a = None \<Longrightarrow> w = w0" if "worst_loop dst ks w0 None = (w, a)" for dst ks w0 a
  proof -
    have "worst_loop dst ks v (Some b) = (w, a) \<Longrightarrow> a \<noteq> None" for dst ks v b
      by (induction dst ks v "Some b" arbitrary: b rule: worst_loop.induct) (auto split: if_splits)
    then show "a = None \<Longrightarrow> w = w0" using that
      by (induction dst ks w0 "None :: nat option" rule: worst_loop.induct) (auto split: if_splits)
  qed
  then show "worst_in m proj i j = (w, None) \<Longrightarrow> w = - 1" unfolding worst_in_def by blast
qed

lemma kept_gap:
  "0 \<le> eps \<Longrightarrow> i < j \<Longrightarrow> a \<in> {i, j} \<union> kept_in m proj eps i j \<Longrightarrow> b \<in> {i, j} \<union> kept_in m proj eps i j \<Longrightarrow>
     \<forall>k. a < k \<and> k < b \<longrightarrow> k \<notin> kept_in m proj eps i j \<Longrightarrow> a < k \<Longrightarrow> k < b \<Longrightarrow>
     line_distance m (proj ! a) (proj ! b) (proj ! k) \<le> eps"
proof (induction m proj eps i j arbitrary: a b rule: kept_in.induct)
  case (1 m proj eps i j)
  note e = kept_in.simps [of m proj eps i j]
  show ?case
  proof (rule range_cases [where i = i and j = j and m = m and proj = proj])
    assume "j - i < 2"
    then show ?thesis using 1 by (auto simp: e)
  next
    fix w assume r: "2 \<le> j - i" "worst_in m proj i j = (w, None)"
    then have "a = i" "b = j" using 1 by (auto simp: e)
    moreover have "w \<le> eps" using worst_in_nowhere [OF r(2)] 1(3) by simp
    ultimately show ?thesis using worst_in_max [OF r(2), of k] 1(8,9) by fastforce
  next
    fix w c assume r: "2 \<le> j - i" "worst_in m proj i j = (w, Some c)" "i < c" "c < j"
    then have n: "\<not> j - i < 2" by simp
    show ?thesis
    proof (cases "w > eps")
      case False
      then have "a = i" "b = j" using 1 n r by (auto simp: e)
      then show ?thesis using worst_in_max [OF r(2), of k] 1(8,9) False by fastforce
    next
      case True
      then have kept: "kept_in m proj eps i j = insert c (kept_in m proj eps c j \<union> kept_in m proj eps i c)" using n r by (simp add: e)
      have c: "\<not> (a < c \<and> c < b)" using 1(7) kept by auto
      note left = kept_in_range [of _ m proj eps i c] and right = kept_in_range [of _ m proj eps c j]
      show ?thesis
      proof (cases "a < c")
        case lt: True
        then have b: "b \<le> c" using c by simp
        have "a \<in> {i, c} \<union> kept_in m proj eps i c" using 1(5) lt kept right r(4) by fastforce
        moreover have "b \<in> {i, c} \<union> kept_in m proj eps i c" using 1(6) b kept right r(4) by fastforce
        ultimately show ?thesis using 1(2) [OF n r(2) [symmetric] refl True 1(3) r(3)] 1(7-9) kept by blast
      next
        case ge: False
        then have b: "c < b" using 1(8,9) by simp
        have "a \<in> {c, j} \<union> kept_in m proj eps c j" using 1(5) ge kept left r(3) by fastforce
        moreover have "b \<in> {c, j} \<union> kept_in m proj eps c j" using 1(6) b kept left r(3) by fastforce
        ultimately show ?thesis using 1(1) [OF n r(2) [symmetric] refl True 1(3) r(4)] 1(7-9) kept by blast
      qed
    qed
  qed
qed

text \<open>The positions a simplification keeps.\<close>

lemma kept_positions:
  fixes m :: maplib
  assumes "3 \<le> length poly" "0 < tolerance_m"
  defines "ks \<equiv> filter (\<lambda>k. k = 0 \<or> k = length poly - 1 \<or> k \<in> kept_in m (projected m poly) (tolerance_m / 111000) 0 (length poly - 1)) [0..<length poly]"
  shows "simplify_lonlat m poly tolerance_m = map (\<lambda>k. poly ! k) ks" "sorted_wrt (<) ks" "hd ks = 0" "last ks = length poly - 1" "ks \<noteq> []"
proof -
  let ?n = "length poly" and ?proj = "projected m poly" and ?eps = "tolerance_m / 111000"
  let ?keep = "keep_loop m ?proj ?eps [(0, ?n - 1)] ((replicate ?n False)[0 := True, ?n - 1 := True])"
  let ?P = "\<lambda>k. k = 0 \<or> k = ?n - 1 \<or> k \<in> kept_in m ?proj ?eps 0 (?n - 1)"
  have flags: "map fst (filter snd (zip xs bs)) = map (\<lambda>k. xs ! k) (filter (\<lambda>k. bs ! k) [0..<length xs])"
    if "length bs = length xs" for xs :: "position list" and bs
    using that
  proof (induction xs bs rule: rev_induct2)
    case (4 x xs b bs)
    then have l: "length bs = length xs" by simp
    have "map (\<lambda>k. (xs @ [x]) ! k) (filter (\<lambda>k. (bs @ [b]) ! k) [0..<length xs]) = map (\<lambda>k. xs ! k) (filter (\<lambda>k. bs ! k) [0..<length xs])"
      using l by (intro map_cong filter_cong) (auto simp: nth_append)
    then show ?case using 4 l by (simp add: nth_append)
  qed simp_all
  have keep: "?keep ! k \<longleftrightarrow> ?P k" if "k < ?n" for k
    using keep_loop_kept [of k "(replicate ?n False)[0 := True, ?n - 1 := True]" m ?proj ?eps "[(0, ?n - 1)]"] that
    by (auto simp: nth_update_at)
  have "simplify_lonlat m poly tolerance_m = map fst (filter snd (zip poly ?keep))"
    using assms(1,2) by (simp add: simplify_lonlat_def Let_def)
  also have "\<dots> = map (\<lambda>k. poly ! k) (filter (\<lambda>k. ?keep ! k) [0..<?n])" by (rule flags) simp
  also have "filter (\<lambda>k. ?keep ! k) [0..<?n] = ks" unfolding ks_def using keep by (intro filter_cong) auto
  finally show "simplify_lonlat m poly tolerance_m = map (\<lambda>k. poly ! k) ks" .
  show "sorted_wrt (<) ks" by (simp add: ks_def sorted_wrt_filter)
  have "[0..<?n] = 0 # [Suc 0..<?n]" using assms(1) by (intro upt_conv_Cons) linarith
  then show "hd ks = 0" "ks \<noteq> []" by (simp_all add: ks_def)
  have "[0..<?n] = [0..<?n - 1] @ [?n - 1]" using assms(1) by (metis Suc_pred' upt_Suc_append le0 less_le_trans zero_less_numeral)
  then show "last ks = ?n - 1" by (simp add: ks_def)
qed

lemma simplify_lonlat_subseq:
  assumes "poly \<noteq> []"
  shows "subseq (simplify_lonlat m poly t) poly \<and> simplify_lonlat m poly t \<noteq> [] \<and>
    hd (simplify_lonlat m poly t) = hd poly \<and> last (simplify_lonlat m poly t) = last poly"
proof (cases "length poly < 3 \<or> t \<le> 0")
  case True
  then show ?thesis using assms by (auto simp: simplify_lonlat_def intro: list_emb_refl)
next
  case False
  then have l: "3 \<le> length poly" "0 < t" by auto
  define ks where "ks = filter (\<lambda>k. k = 0 \<or> k = length poly - 1 \<or> k \<in> kept_in m (projected m poly) (t / 111000) 0 (length poly - 1)) [0..<length poly]"
  note k = kept_positions [OF l, of m, folded ks_def]
  have "subseq (map (\<lambda>k. poly ! k) ks) poly" by (rule subseq_positions [OF k(2)]) (simp add: ks_def)
  then show ?thesis using k assms by (simp add: hd_map last_map hd_conv_nth last_conv_nth)
qed

lemma widen_bounds:
  assumes "widen n a b = (a', b')" "0 \<le> a" "a \<le> b" "b \<le> n" "1 \<le> n"
  shows "0 \<le> a' \<and> a' < b' \<and> b' \<le> n \<and> a' \<le> a \<and> b \<le> b'"
  using assms by (auto simp: widen_def Let_def split: if_splits)

text \<open>The tiles of an interval of the grid cover it.\<close>

lemma widened_cover:
  fixes x x' :: rat
  assumes "widen n (clamp_tile n \<lfloor>x\<rfloor>) (clamp_tile n \<lceil>x'\<rceil>) = (a, b)" "x \<le> x'" "1 \<le> n"
  shows "0 \<le> a \<and> a < b \<and> b \<le> n" "0 \<le> y \<Longrightarrow> y \<le> of_int n \<Longrightarrow> x \<le> y \<Longrightarrow> y \<le> x' \<Longrightarrow> of_int a \<le> y \<and> y \<le> of_int b"
proof -
  have fc: "\<lfloor>x\<rfloor> \<le> \<lceil>x'\<rceil>" using assms(2) by linarith
  have w: "0 \<le> a \<and> a < b \<and> b \<le> n \<and> a \<le> clamp_tile n \<lfloor>x\<rfloor> \<and> clamp_tile n \<lceil>x'\<rceil> \<le> b"
    using widen_bounds [OF assms(1)] fc assms(3) by (simp add: clamp_tile_def)
  then show "0 \<le> a \<and> a < b \<and> b \<le> n" by blast
  assume y: "0 \<le> y" "y \<le> of_int n" "x \<le> y" "y \<le> x'"
  have "\<lfloor>x\<rfloor> \<le> \<lfloor>y\<rfloor>" "\<lceil>y\<rceil> \<le> \<lceil>x'\<rceil>" by (rule floor_mono [OF y(3)], rule ceiling_mono [OF y(4)])
  moreover have "0 \<le> \<lfloor>y\<rfloor>" "\<lceil>y\<rceil> \<le> n" using y by (simp_all add: ceiling_le_iff)
  ultimately have ends: "a \<le> \<lfloor>y\<rfloor>" "\<lceil>y\<rceil> \<le> b" using w unfolding clamp_tile_def by linarith+
  from ends show "of_int a \<le> y \<and> y \<le> of_int b" by (simp add: le_floor_iff ceiling_le_iff)
qed

lemma levels_serve_zoom:
  assumes "level \<le> MAX_ZOOM_LEVEL" "poly \<noteq> []"
  shows "filter_to_level (working_set poly max_input_points) (vertex_levels m (working_set poly max_input_points)) level min_points =
    simplify_for_zoom m poly level min_points max_input_points None"
proof -
  let ?w = "working_set poly max_input_points"
  have whole: "?w = poly" if "length poly < 3" using that assms(2) stride_to_length by (auto simp: working_set_def stride_to_def)
  show ?thesis
  proof (cases "length ?w < 3")
    case True
    have "simplify_for_zoom m poly level min_points max_input_points None = ?w"
      using True whole by (auto simp: simplify_for_zoom_def Let_def simplify_lonlat_def floor_line_def stride_to_def [of ?w] min_def)
    then show ?thesis using True by (simp add: filter_to_level_def)
  next
    case False
    have "map fst (filter (\<lambda>(p, lowest). lowest \<le> level) (zip ?w (vertex_levels m ?w))) =
        simplify_lonlat m ?w (zoom_tolerance_m m level (midpoint_latitude ?w))"
    proof -
      have len: "length (vertex_levels m ?w) = length ?w" by (simp add: vertex_levels_def Let_def)
      have "\<not> zoom_tolerance_m m level (midpoint_latitude ?w) \<le> 0" using zoom_tolerance_pos by (simp add: not_le)
      then show ?thesis
        using False levels_flags [of ?w level m] assms(1) by (simp add: filter_zip_flags [OF len] simplify_lonlat_def Let_def)
    qed
    moreover have "\<not> length poly < 3" using whole False by auto
    ultimately show ?thesis using False by (simp add: filter_to_level_def simplify_for_zoom_def Let_def)
  qed
qed

subsection \<open>Properties\<close>

text \<open>C33. A line simplified once can be served at every zoom. For every line and every zoom the endpoints accept, taking
  the bounded working set, computing the level of each of its vertices once, and filtering by the zoom
  gives exactly what simplifying the line for that zoom gives, the coarseness floor included.\<close>

theorem levels_serve_every_zoom:
  assumes "level \<le> MAX_ZOOM_LEVEL" "poly \<noteq> []"
  shows "filter_to_level (working_set poly max_input_points) (vertex_levels m (working_set poly max_input_points)) level min_points =
    simplify_for_zoom m poly level min_points max_input_points None"
  using assms by (rule levels_serve_zoom)

definition flat_maplib :: maplib where
  "flat_maplib = \<lparr>m_sin = \<lambda>x. x, m_cos = \<lambda>x. 1, m_asin = \<lambda>x. x, m_sqrt = \<lambda>x. x, m_hypot = \<lambda>x y. \<bar>x\<bar> + \<bar>y\<bar>,
     m_tan = \<lambda>x. x, m_log = \<lambda>x. x - 1, m_atan = \<lambda>x. x, m_sinh = \<lambda>x. x\<rparr>"

theorem levels_serve_every_zoom_witness:
  "filter_to_level (working_set [[0, 0], [1, 1], [2, 0]] 3) (vertex_levels flat_maplib (working_set [[0, 0], [1, 1], [2, 0]] 3)) 0 2 =
     simplify_for_zoom flat_maplib [[0, 0], [1, 1], [2, 0]] 0 2 3 None \<and> (0::nat) \<le> MAX_ZOOM_LEVEL"
  using levels_serve_every_zoom [of 0 "[[0, 0], [1, 1], [2, 0]]" 3 flat_maplib 2] by simp




text \<open>With the Mercator functions straightened, the hypotheses hold: a row is then a latitude scaled.\<close>

lemma flat_rows:
  "lat_to_tile_y flat_maplib lat n = (1 - min (max lat (- MAX_MERCATOR_LAT)) MAX_MERCATOR_LAT / 180) / 2 * of_int n"
  "0 < n \<Longrightarrow> tile_y_to_lat flat_maplib y n = (1 - 2 * y / of_int n) * 180"
  by (simp_all add: lat_to_tile_y_def tile_y_to_lat_def flat_maplib_def Let_def radians_def math_pi_def)


end
