(* ===== verification/PreparedGeo.thy ===== *)
theory PreparedGeo
  imports Simplify "HOL-Library.Word" "HOL-Library.AList"
begin

text \<open>
  Lines prepared for the map and kept in the database: the binary format of \<open>src/models/prepared_geo.py\<close>, how
  \<open>api/geo.py\<close> serves from it (\<open>_line_from_blob\<close>, \<open>_PreparedLine.at_level\<close>), the writers
  (\<open>store_prepared_geometry\<close> in \<open>src/project/repo_activities.py\<close>, \<open>store_prepared_if_unchanged\<close>), and the backfill of
  \<open>src/jobs/prepared_geo_jobs.py\<close>.

  The bytes of a double are a parameter, since floats are exact rationals here, and so are the third-party polyline
  decoder and the math library.
\<close>

type_synonym byte = "8 word"

subsection \<open>Integers in bytes\<close>

text \<open>Little-endian, two's complement; \<open>array("i")\<close> holds C ints of 4 bytes.\<close>

fun le_bytes :: "nat \<Rightarrow> int \<Rightarrow> byte list" where
  "le_bytes 0 x = []"
| "le_bytes (Suc n) x = word_of_int x # le_bytes n (x div 256)"

fun le_value :: "byte list \<Rightarrow> int" where
  "le_value [] = 0"
| "le_value (b # bs) = uint b + 256 * le_value bs"

definition signed32 :: "byte list \<Rightarrow> int" where
  "signed32 bs = sint (word_of_int (le_value bs) :: 32 word)"

definition is_int32 :: "int \<Rightarrow> bool" where
  "is_int32 n \<longleftrightarrow> - (2 ^ 31) \<le> n \<and> n < 2 ^ 31"

lemma le_bytes_length [simp]: "length (le_bytes n x) = n"
  by (induction n arbitrary: x) simp_all

lemma le_value_bytes: "le_value (le_bytes n x) = x mod 256 ^ n"
proof (induction n arbitrary: x)
  case (Suc n)
  have "uint (word_of_int x :: byte) = x mod 256" by (simp add: uint_word_of_int)
  then have "le_value (le_bytes (Suc n) x) = x mod 256 + 256 * (x div 256 mod 256 ^ n)" using Suc by simp
  also have "\<dots> = x mod 256 ^ Suc n" by (simp add: zmod_zmult2_eq)
  finally show ?case .
qed simp

lemma signed32_bytes: "is_int32 n \<Longrightarrow> signed32 (le_bytes 4 n) = n"
proof -
  assume n: "is_int32 n"
  have "(word_of_int (n mod 2 ^ 32) :: 32 word) = word_of_int n"
    by (simp add: word_of_int_eq_iff take_bit_eq_mod)
  moreover have "sint (word_of_int n :: 32 word) = n"
    using n by (simp add: sint_sbintrunc' is_int32_def signed_take_bit_int_eq_self)
  ultimately show "signed32 (le_bytes 4 n) = n" by (simp add: signed32_def le_value_bytes)
qed

subsection \<open>The format\<close>

definition PREPARED_GEO_VERSION :: nat where "PREPARED_GEO_VERSION = 1"
definition COORD_SCALE :: rat where "COORD_SCALE = 100000"

text \<open>\<open>struct.Struct("<BI4d")\<close>: one byte, four, and four doubles of eight.\<close>

definition HEADER_SIZE :: nat where "HEADER_SIZE = 37"

record double_codec =
  dc_pack :: "rat \<Rightarrow> byte list"
  dc_unpack :: "byte list \<Rightarrow> rat"

text \<open>What \<open>struct\<close> documents of a double: eight bytes, which give it back.\<close>

definition lossless :: "double_codec \<Rightarrow> rat \<Rightarrow> bool" where
  "lossless c x \<longleftrightarrow> length (dc_pack c x) = 8 \<and> dc_unpack c (dc_pack c x) = x"

definition lossless_box :: "double_codec \<Rightarrow> box \<Rightarrow> bool" where
  "lossless_box c b \<longleftrightarrow> (case b of (w, s, e, n) \<Rightarrow> lossless c w \<and> lossless c s \<and> lossless c e \<and> lossless c n)"

datatype pack_error = LengthMismatch | ShortPoint | IntegerOverflow | StructError

text \<open>A coordinate outside the C int raises \<open>OverflowError\<close>, a position without one \<open>IndexError\<close>.\<close>

definition scaled_int :: "rat list \<Rightarrow> nat \<Rightarrow> (pack_error, int) result" where
  "scaled_int p k =
     (if length p \<le> k then Inl ShortPoint
      else let n = round_half_even (p ! k * COORD_SCALE) in if is_int32 n then Inr n else Inl IntegerOverflow)"

fun flat_points :: "position list \<Rightarrow> (pack_error, int list) result" where
  "flat_points [] = Inr []"
| "flat_points (p # ps) =
     rbind (scaled_int p 0) (\<lambda>x. rbind (scaled_int p 1) (\<lambda>y. rbind (flat_points ps) (\<lambda>rest. Inr (x # y # rest))))"

definition pack_header :: "double_codec \<Rightarrow> nat \<Rightarrow> nat \<Rightarrow> box \<Rightarrow> (pack_error, byte list) result" where
  "pack_header c version number bbox =
     (if 256 \<le> version \<or> 2 ^ 32 \<le> number then Inl StructError
      else case bbox of (w, s, e, n) \<Rightarrow>
        Inr (le_bytes 1 (int version) @ le_bytes 4 (int number) @ dc_pack c w @ dc_pack c s @ dc_pack c e @ dc_pack c n))"

definition pack_prepared_line :: "double_codec \<Rightarrow> position list \<Rightarrow> byte list \<Rightarrow> box \<Rightarrow> (pack_error, byte list) result" where
  "pack_prepared_line c points levels bbox =
     (if length levels \<noteq> length points then Inl LengthMismatch
      else
        rbind (flat_points points) (\<lambda>flat.
        rbind (pack_header c PREPARED_GEO_VERSION (length points) bbox) (\<lambda>header.
          Inr (header @ concat (map (le_bytes 4) flat) @ levels))))"

fun ints_of :: "byte list \<Rightarrow> int list" where
  "ints_of (a # b # c # d # bs) = signed32 [a, b, c, d] # ints_of bs"
| "ints_of _ = []"

datatype format_error = PreparedGeoFormatError

definition unpack_prepared_line ::
  "double_codec \<Rightarrow> byte list \<Rightarrow> (format_error, int list \<times> byte list \<times> box \<times> nat) result" where
  "unpack_prepared_line c blob =
     (if length blob < HEADER_SIZE then Inl PreparedGeoFormatError
      else
        (let version = nat (le_value (take 1 blob)); number = nat (le_value (take 4 (drop 1 blob)));
             double = (\<lambda>k. dc_unpack c (take 8 (drop (5 + 8 * k) blob)));
             coords_end = HEADER_SIZE + number * 8 in
         if length blob \<noteq> coords_end + number then Inl PreparedGeoFormatError
         else Inr (ints_of (take (coords_end - HEADER_SIZE) (drop HEADER_SIZE blob)), drop coords_end blob,
                   (double 0, double 1, double 2, double 3), version)))"

subsection \<open>Serving\<close>

text \<open>\<open>_PreparedLine\<close> without the properties of its feature; \<open>None\<close> for the points is a line served verbatim.\<close>

record PreparedLine =
  pl_points :: "(int list \<times> byte list \<times> box) option"
  pl_floor :: "position list"

definition unscaled :: "int list \<Rightarrow> nat \<Rightarrow> position" where
  "unscaled flat i = [of_int (flat ! (2 * i)) / COORD_SCALE, of_int (flat ! (2 * i + 1)) / COORD_SCALE]"

definition line_from_blob :: "double_codec \<Rightarrow> byte list \<Rightarrow> (format_error, PreparedLine) result" where
  "line_from_blob c blob =
     rbind (unpack_prepared_line c blob) (\<lambda>(flat, levels, bbox, version).
       let n = length flat div 2; line_floor = map (unscaled flat) (floor_line [0..<n] MIN_POINTS) in
       Inr (if n < 3 then \<lparr>pl_points = None, pl_floor = line_floor\<rparr>
            else \<lparr>pl_points = Some (flat, levels, bbox), pl_floor = line_floor\<rparr>))"

definition at_level :: "PreparedLine \<Rightarrow> int list \<Rightarrow> byte list \<Rightarrow> nat \<Rightarrow> position list" where
  "at_level line flat levels level =
     (let kept = map (\<lambda>(i, lowest). unscaled flat i) (filter (\<lambda>(i, lowest). unat lowest \<le> level) (zip [0..<length flat div 2] levels)) in
      if length kept \<ge> MIN_POINTS then kept else pl_floor line)"

text \<open>The coordinates \<open>_features_for\<close> serves of a line, at a level and for a box.\<close>

definition served :: "PreparedLine \<Rightarrow> nat \<Rightarrow> box option \<Rightarrow> position list" where
  "served line level bbox =
     (case pl_points line of
        None \<Rightarrow> pl_floor line
      | Some (flat, levels, own) \<Rightarrow>
          if (case bbox of Some b \<Rightarrow> \<not> bboxes_intersect own b | None \<Rightarrow> False) then pl_floor line
          else at_level line flat levels level)"

subsection \<open>What is packed is unpacked\<close>

lemma le_value_one: "n < 256 \<Longrightarrow> nat (le_value (le_bytes 1 (int n))) = n"
  unfolding le_value_bytes by simp

lemma le_value_four: "n < 2 ^ 32 \<Longrightarrow> nat (le_value (le_bytes 4 (int n))) = n"
  unfolding le_value_bytes by simp

lemma ints_of_bytes: "list_all is_int32 ns \<Longrightarrow> ints_of (concat (map (le_bytes 4) ns)) = ns"
proof (induction ns)
  case (Cons n ns)
  obtain a b c d where abcd: "le_bytes 4 n = [a, b, c, d]" by (simp add: numeral_eq_Suc)
  then have "signed32 [a, b, c, d] = n" using signed32_bytes [of n] Cons.prems by simp
  then show ?case using Cons abcd by simp
qed simp

lemma concat_bytes_length: "length (concat (map (le_bytes 4) ns)) = 4 * length ns"
  by (induction ns) simp_all

lemma flat_points_shape:
  "flat_points ps = Inr flat \<Longrightarrow> length flat = 2 * length ps \<and> list_all is_int32 flat \<and>
     (\<forall>i<length ps. flat ! (2 * i) = round_half_even (ps ! i ! 0 * COORD_SCALE) \<and>
        flat ! (2 * i + 1) = round_half_even (ps ! i ! 1 * COORD_SCALE) \<and> 2 \<le> length (ps ! i))"
proof (induction ps arbitrary: flat)
  case (Cons p ps)
  obtain x y rest where r: "scaled_int p 0 = Inr x" "scaled_int p 1 = Inr y" "flat_points ps = Inr rest" "flat = x # y # rest"
    using Cons.prems by (auto simp: rbind_def split: sum.splits)
  have xy: "x = round_half_even (p ! 0 * COORD_SCALE)" "is_int32 x" "y = round_half_even (p ! 1 * COORD_SCALE)" "is_int32 y" "2 \<le> length p"
    using r(1,2) by (auto simp: scaled_int_def Let_def split: if_splits)
  have IH: "length rest = 2 * length ps" "list_all is_int32 rest"
    "\<forall>i<length ps. rest ! (2 * i) = round_half_even (ps ! i ! 0 * COORD_SCALE) \<and>
        rest ! (2 * i + 1) = round_half_even (ps ! i ! 1 * COORD_SCALE) \<and> 2 \<le> length (ps ! i)"
    using Cons.IH [OF r(3)] by simp_all
  show ?case
  proof (intro conjI allI impI)
    fix i assume i: "i < length (p # ps)"
    show "flat ! (2 * i) = round_half_even ((p # ps) ! i ! 0 * COORD_SCALE)"
      "flat ! (2 * i + 1) = round_half_even ((p # ps) ! i ! 1 * COORD_SCALE)" "2 \<le> length ((p # ps) ! i)"
      using i xy IH(3) r(4) by (cases i; simp)+
  qed (use xy IH r(4) in simp_all)
qed simp

lemma unpack_packed:
  assumes p: "pack_prepared_line c points levels bbox = Inr blob" and c: "lossless_box c bbox"
  shows "\<exists>flat. flat_points points = Inr flat \<and> unpack_prepared_line c blob = Inr (flat, levels, bbox, PREPARED_GEO_VERSION) \<and>
    length blob = HEADER_SIZE + 9 * length points"
proof -
  obtain w s e n where b: "bbox = (w, s, e, n)" by (cases bbox)
  obtain flat where f: "flat_points points = Inr flat" "length levels = length points" "length points < 2 ^ 32"
    "blob = le_bytes 1 1 @ le_bytes 4 (int (length points)) @ dc_pack c w @ dc_pack c s @ dc_pack c e @ dc_pack c n @
       concat (map (le_bytes 4) flat) @ levels"
    using p b by (auto simp: pack_prepared_line_def pack_header_def PREPARED_GEO_VERSION_def rbind_def split: sum.splits if_splits)
  note fl = flat_points_shape [OF f(1)]
  have d: "length (dc_pack c w) = 8" "length (dc_pack c s) = 8" "length (dc_pack c e) = 8" "length (dc_pack c n) = 8"
    "dc_unpack c (dc_pack c w) = w" "dc_unpack c (dc_pack c s) = s" "dc_unpack c (dc_pack c e) = e" "dc_unpack c (dc_pack c n) = n"
    using c b by (simp_all add: lossless_box_def lossless_def)
  have parts: "take 1 blob = le_bytes 1 1" "take 4 (drop 1 blob) = le_bytes 4 (int (length points))"
    "take 8 (drop 5 blob) = dc_pack c w" "take 8 (drop 13 blob) = dc_pack c s" "take 8 (drop 21 blob) = dc_pack c e"
    "take 8 (drop 29 blob) = dc_pack c n" "drop 37 blob = concat (map (le_bytes 4) flat) @ levels"
    "drop (37 + length points * 8) blob = levels"
    using d fl by (simp_all add: f(4) concat_bytes_length del: le_bytes.simps)
  have len: "length blob = 37 + length points * 8 + length points"
    using d fl f(2) by (simp add: f(4) concat_bytes_length del: le_bytes.simps)
  have take_flat: "take (length points * 8) (drop 37 blob) = concat (map (le_bytes 4) flat)"
    using fl by (simp add: parts(7) concat_bytes_length)
  have num: "nat (le_value (take 4 (drop 1 blob))) = length points" "nat (le_value (take 1 blob)) = 1"
    using le_value_four [OF f(3)] le_value_one [of 1] parts(1,2) by (simp_all del: le_bytes.simps)
  have "unpack_prepared_line c blob = Inr (flat, levels, bbox, PREPARED_GEO_VERSION)"
    unfolding unpack_prepared_line_def Let_def num
    using len parts(3-6,8) d(5-8) take_flat ints_of_bytes [of flat] fl by (simp add: HEADER_SIZE_def PREPARED_GEO_VERSION_def b)
  then show ?thesis using f(1) len by (simp add: HEADER_SIZE_def)
qed

subsection \<open>Serving from a blob\<close>

definition on_grid :: "position \<Rightarrow> bool" where
  "on_grid p \<longleftrightarrow> (\<exists>a b. p = [of_int a / COORD_SCALE, of_int b / COORD_SCALE])"

lemma stride_to_natural: "stride_to (map f xs) target = map f (stride_to xs target)"
proof (cases "length xs \<le> target \<or> target < 2")
  case False
  let ?step = "of_nat (length xs - 1) / (of_nat (target - 1) :: rat)"
  have ne: "xs \<noteq> []" using False by auto
  have b: "nat (round_half_even (of_nat i * ?step)) < length xs" if i: "i \<in> set [1..<target - 1]" for i
  proof -
    have "round_half_even (of_nat i * ?step) \<le> int (length xs - 1)"
      using strided_positions(2) [of target "length xs" 0 i ?step] False i by auto
    moreover have "0 < length xs" using ne by simp
    ultimately show ?thesis by linarith
  qed
  have "map (\<lambda>i. map f xs ! nat (round_half_even (of_nat i * ?step))) [1..<target - 1] =
      map f (map (\<lambda>i. xs ! nat (round_half_even (of_nat i * ?step))) [1..<target - 1])"
    using b by simp
  then show ?thesis using False ne by (simp add: stride_to_def Let_def hd_map last_map)
qed (auto simp: stride_to_def)

lemma floor_line_natural: "floor_line (map f xs) k = map f (floor_line xs k)"
  by (simp add: floor_line_def stride_to_natural)

lemma lowest_level_bound: "level + length es \<le> 255 \<Longrightarrow> lowest_level x level es \<le> 255"
  by (induction es arbitrary: level) (auto simp: NEVER_KEPT_def)

lemma vertex_levels_bytes: "\<forall>l\<in>set (vertex_levels m poly). l \<le> 255"
  using lowest_level_bound [of 0 "map (\<lambda>level. zoom_tolerance_m m level (midpoint_latitude poly) / 111000) [0..<MAX_ZOOM_LEVEL + 1]"]
  by (auto simp: vertex_levels_def Let_def MAX_ZOOM_LEVEL_def split: option.splits)

definition level_bytes :: "maplib \<Rightarrow> position list \<Rightarrow> byte list" where
  "level_bytes m poly = map word_of_nat (vertex_levels m poly)"

lemma level_bytes_unat: "map unat (level_bytes m poly) = vertex_levels m poly"
proof -
  have "unat (word_of_nat l :: byte) = l" if "l \<le> 255" for l using that by (simp add: unat_of_nat)
  then show ?thesis using vertex_levels_bytes [of m poly] by (simp add: level_bytes_def comp_def map_idI)
qed

lemma at_level_filters:
  assumes work: "work = map (unscaled flat) [0..<n]" and n: "n = length flat div 2" "3 \<le> n" and len: "length levels = n"
  shows "at_level \<lparr>pl_points = x, pl_floor = floor_line work MIN_POINTS\<rparr> flat levels level =
    filter_to_level work (map unat levels) level MIN_POINTS"
proof -
  have "zip work (map unat levels) = map (\<lambda>(i, l). (unscaled flat i, unat l)) (zip [0..<n] levels)"
    by (simp add: work zip_map_map)
  then have "map fst (filter (\<lambda>(p, lowest). lowest \<le> level) (zip work (map unat levels))) =
      map (\<lambda>(i, lowest). unscaled flat i) (filter (\<lambda>(i, lowest). unat lowest \<le> level) (zip [0..<n] levels))"
    by (simp add: filter_map comp_def split_def)
  moreover have "\<not> length work < 3" using n(2) by (simp add: work)
  ultimately show ?thesis by (simp add: at_level_def filter_to_level_def Let_def n(1) [symmetric])
qed

subsection \<open>Preparing a polyline\<close>

text \<open>\<open>str.split\<close> with a separator.\<close>

fun split_text :: "char \<Rightarrow> string \<Rightarrow> string list" where
  "split_text sep [] = [[]]"
| "split_text sep (c # s) =
     (if c = sep then [] # split_text sep s
      else case split_text sep s of w # ws \<Rightarrow> (c # w) # ws | [] \<Rightarrow> [[c]])"

definition is_encrypted_envelope :: "string \<Rightarrow> bool" where
  "is_encrypted_envelope v \<longleftrightarrow>
     (if v = [] then False else let parts = split_text (CHR ''.'') v in length parts = 3 \<and> hd parts = ''v1'')"

datatype prepare_error = Undecodable | PackError pack_error

text \<open>The decoder answers latitudes and longitudes, \<open>None\<close> when it raises.\<close>

type_synonym decoder = "string \<Rightarrow> (rat \<times> rat) list option"

definition lonlat :: "(rat \<times> rat) list \<Rightarrow> position list" where
  "lonlat pts = map (\<lambda>(lat, lon). [lon, lat]) pts"

definition prepare_polyline ::
  "maplib \<Rightarrow> double_codec \<Rightarrow> decoder \<Rightarrow> string option \<Rightarrow> (prepare_error, byte list option) result" where
  "prepare_polyline m c decode summary =
     (case summary of
        None \<Rightarrow> Inr None
      | Some s \<Rightarrow>
          if s = [] \<or> is_encrypted_envelope s then Inr None
          else
            (case decode s of
               None \<Rightarrow> Inl Undecodable
             | Some pts \<Rightarrow>
                 let coords = lonlat pts in
                 if length coords < 2 then Inr None
                 else
                   (let work = working_set coords MAX_INPUT_POINTS in
                    case pack_prepared_line c work (level_bytes m work) (line_bbox work) of
                      Inl e \<Rightarrow> Inl (PackError e)
                    | Inr blob \<Rightarrow> Inr (Some blob))))"

lemma grid_unscaled:
  assumes f: "flat_points ps = Inr flat" and g: "list_all on_grid ps"
  shows "ps = map (unscaled flat) [0..<length ps]"
proof (rule nth_equalityI)
  fix i assume i: "i < length ps"
  obtain a b where ab: "ps ! i = [of_int a / COORD_SCALE, of_int b / COORD_SCALE]"
    using g i unfolding list_all_length on_grid_def by blast
  have "flat ! (2 * i) = a" "flat ! (2 * i + 1) = b"
    using flat_points_shape [OF f] i ab by (auto simp: COORD_SCALE_def)
  then show "ps ! i = map (unscaled flat) [0..<length ps] ! i" using i ab by (simp add: unscaled_def)
qed simp

lemma working_set_set: "poly \<noteq> [] \<Longrightarrow> set (working_set poly MAX_INPUT_POINTS) \<subseteq> set poly"
  using stride_to_subseq [of poly MAX_INPUT_POINTS] list_emb_set [of "(=)" "stride_to poly MAX_INPUT_POINTS" poly]
  by (auto simp: working_set_def)

lemma line_of_blob:
  assumes p: "pack_prepared_line c work (level_bytes m work) (line_bbox work) = Inr blob"
    and c: "lossless_box c (line_bbox work)" and g: "list_all on_grid work"
  shows "\<exists>line. line_from_blob c blob = Inr line \<and> pl_floor line = floor_line work MIN_POINTS \<and>
    served line level None = (if length work < 3 then work else filter_to_level work (vertex_levels m work) level MIN_POINTS) \<and>
    (\<forall>b. served line level (Some b) =
      (if length work < 3 \<or> bboxes_intersect (line_bbox work) b then served line level None else floor_line work MIN_POINTS))"
proof -
  obtain flat where f: "flat_points work = Inr flat"
    "unpack_prepared_line c blob = Inr (flat, level_bytes m work, line_bbox work, PREPARED_GEO_VERSION)"
    using unpack_packed [OF p c] by blast
  have n: "length flat div 2 = length work" using flat_points_shape [OF f(1)] by simp
  have w: "work = map (unscaled flat) [0..<length work]" by (rule grid_unscaled [OF f(1) g])
  have fl: "map (unscaled flat) (floor_line [0..<length work] MIN_POINTS) = floor_line work MIN_POINTS"
    using floor_line_natural [of "unscaled flat" "[0..<length work]"] w by simp
  define line where "line = (if length work < 3 then \<lparr>pl_points = None, pl_floor = floor_line work MIN_POINTS\<rparr>
    else \<lparr>pl_points = Some (flat, level_bytes m work, line_bbox work), pl_floor = floor_line work MIN_POINTS\<rparr>)"
  have line: "line_from_blob c blob = Inr line"
    by (simp add: line_from_blob_def f(2) n Let_def fl line_def)
  have len: "length (level_bytes m work) = length work" by (simp add: level_bytes_def vertex_levels_def Let_def)
  have at: "at_level line flat (level_bytes m work) level = filter_to_level work (vertex_levels m work) level MIN_POINTS" if "\<not> length work < 3"
    using at_level_filters [OF w n [symmetric] _ len] that by (simp add: line_def level_bytes_unat)
  have short: "floor_line work MIN_POINTS = work" if "length work < 3"
    using that by (simp add: floor_line_def stride_to_def MIN_POINTS_def)
  show ?thesis
    using line at short by (intro exI [of _ line]) (auto simp: served_def line_def)
qed

subsection \<open>The rows and their writers\<close>

text \<open>The activity table as rows of id and \<open>summary_polyline\<close>, and \<open>activity_geo_prepared\<close> as version and blob by
  activity. \<open>prep\<close> is \<open>prepare_polyline\<close> with an exception read as \<open>None\<close>, as its callers do.\<close>

record geo_db =
  gd_rows :: "(int \<times> string option) list"
  gd_prepared :: "int \<rightharpoonup> nat \<times> byte list"

type_synonym preparer = "string option \<Rightarrow> byte list option"

definition prepared_or_none :: "maplib \<Rightarrow> double_codec \<Rightarrow> decoder \<Rightarrow> preparer" where
  "prepared_or_none m c decode summary = (case prepare_polyline m c decode summary of Inl e \<Rightarrow> None | Inr b \<Rightarrow> b)"

definition stored_polyline :: "geo_db \<Rightarrow> int \<Rightarrow> string option" where
  "stored_polyline db aid = (case map_of (gd_rows db) aid of Some p \<Rightarrow> p | None \<Rightarrow> None)"

definition current_blob :: "geo_db \<Rightarrow> int \<Rightarrow> byte list option" where
  "current_blob db aid =
     (case gd_prepared db aid of Some (v, b) \<Rightarrow> if v = PREPARED_GEO_VERSION then Some b else None | None \<Rightarrow> None)"

definition store_prepared_geometry :: "preparer \<Rightarrow> int \<Rightarrow> geo_db \<Rightarrow> geo_db" where
  "store_prepared_geometry prep aid db =
     (case prep (stored_polyline db aid) of
        None \<Rightarrow> db\<lparr>gd_prepared := (gd_prepared db)(aid := None)\<rparr>
      | Some b \<Rightarrow> db\<lparr>gd_prepared := (gd_prepared db)(aid \<mapsto> (PREPARED_GEO_VERSION, b))\<rparr>)"

definition store_prepared_if_unchanged :: "int \<Rightarrow> string option \<Rightarrow> byte list \<Rightarrow> geo_db \<Rightarrow> geo_db" where
  "store_prepared_if_unchanged aid poly b db =
     (if stored_polyline db aid = poly then db\<lparr>gd_prepared := (gd_prepared db)(aid \<mapsto> (PREPARED_GEO_VERSION, b))\<rparr> else db)"

text \<open>What the writers do of it: an edit stores a polyline and prepares it in one transaction, an import from upstream
  leaves ciphertext alone, a deletion takes both rows.\<close>

definition write_polyline :: "preparer \<Rightarrow> int \<Rightarrow> string option \<Rightarrow> geo_db \<Rightarrow> geo_db" where
  "write_polyline prep aid p db = store_prepared_geometry prep aid (db\<lparr>gd_rows := AList.update aid p (gd_rows db)\<rparr>)"

definition refresh_polyline :: "preparer \<Rightarrow> int \<Rightarrow> string option \<Rightarrow> geo_db \<Rightarrow> geo_db" where
  "refresh_polyline prep aid p db =
     (if (case stored_polyline db aid of Some s \<Rightarrow> is_encrypted_envelope s | None \<Rightarrow> False) then db else write_polyline prep aid p db)"

definition delete_activity_rows :: "int \<Rightarrow> geo_db \<Rightarrow> geo_db" where
  "delete_activity_rows aid db = db\<lparr>gd_rows := AList.delete aid (gd_rows db), gd_prepared := (gd_prepared db)(aid := None)\<rparr>"

text \<open>The map endpoint and the sweep prepare outside any transaction: a preparation is read from the rows, then stored at
  some later moment, whatever was written meanwhile.\<close>

type_synonym pending = "(int \<times> string option \<times> byte list) set"

inductive geo_step :: "preparer \<Rightarrow> geo_db \<times> pending \<Rightarrow> geo_db \<times> pending \<Rightarrow> bool" for prep where
  edit: "geo_step prep (db, ps) (write_polyline prep aid p db, ps)"
| refresh: "geo_step prep (db, ps) (refresh_polyline prep aid p db, ps)"
| drop: "geo_step prep (db, ps) (delete_activity_rows aid db, ps)"
| prepare: "prep (stored_polyline db aid) = Some b \<Longrightarrow> geo_step prep (db, ps) (db, insert (aid, stored_polyline db aid, b) ps)"
| write_back: "(aid, poly, b) \<in> ps \<Longrightarrow> geo_step prep (db, ps) (store_prepared_if_unchanged aid poly b db, ps - {(aid, poly, b)})"

definition geo_current :: "preparer \<Rightarrow> geo_db \<times> pending \<Rightarrow> bool" where
  "geo_current prep s \<longleftrightarrow>
     (\<forall>aid b. current_blob (fst s) aid = Some b \<longrightarrow> prep (stored_polyline (fst s) aid) = Some b) \<and>
     (\<forall>(aid, poly, b) \<in> snd s. prep poly = Some b)"

lemma stored_polyline_simps [simp]:
  "stored_polyline (db\<lparr>gd_prepared := m\<rparr>) aid = stored_polyline db aid"
  "stored_polyline (db\<lparr>gd_rows := AList.update a p (gd_rows db)\<rparr>) aid = (if aid = a then p else stored_polyline db aid)"
  "stored_polyline (db\<lparr>gd_rows := AList.delete a (gd_rows db)\<rparr>) aid = (if aid = a then None else stored_polyline db aid)"
  by (simp_all add: stored_polyline_def update_conv' delete_conv')

lemma current_blob_simps [simp]:
  "current_blob (db\<lparr>gd_rows := rs\<rparr>) aid = current_blob db aid"
  "current_blob (db\<lparr>gd_prepared := (gd_prepared db)(a \<mapsto> (PREPARED_GEO_VERSION, b))\<rparr>) aid = (if aid = a then Some b else current_blob db aid)"
  "current_blob (db\<lparr>gd_prepared := (gd_prepared db)(a := None)\<rparr>) aid = (if aid = a then None else current_blob db aid)"
  "current_blob (db\<lparr>gd_rows := rs, gd_prepared := (gd_prepared db)(a \<mapsto> (PREPARED_GEO_VERSION, b))\<rparr>) aid = (if aid = a then Some b else current_blob db aid)"
  "current_blob (db\<lparr>gd_rows := rs, gd_prepared := (gd_prepared db)(a := None)\<rparr>) aid = (if aid = a then None else current_blob db aid)"
  by (simp_all add: current_blob_def)

lemma write_polyline_current:
  "geo_current prep (db, ps) \<Longrightarrow> geo_current prep (write_polyline prep aid p db, ps)"
  by (auto simp: geo_current_def write_polyline_def store_prepared_geometry_def split: option.splits if_splits)

lemma geo_step_current: "geo_step prep s s' \<Longrightarrow> geo_current prep s \<Longrightarrow> geo_current prep s'"
proof (induction rule: geo_step.induct)
  case (edit db ps aid p)
  then show ?case by (rule write_polyline_current)
next
  case (refresh db ps aid p)
  then show ?case by (simp add: refresh_polyline_def write_polyline_current)
next
  case (drop db ps aid)
  then show ?case by (simp add: geo_current_def delete_activity_rows_def)
next
  case (prepare db aid b ps)
  then show ?case by (simp add: geo_current_def)
next
  case (write_back aid poly b ps db)
  then have "prep poly = Some b" by (auto simp: geo_current_def)
  with write_back show ?case by (auto simp: geo_current_def store_prepared_if_unchanged_def split: if_splits)
qed

lemma geo_reach_current: "(geo_step prep)\<^sup>*\<^sup>* s s' \<Longrightarrow> geo_current prep s \<Longrightarrow> geo_current prep s'"
  by (induction rule: rtranclp_induct) (blast intro: geo_step_current)+

lemma prepared_is_plaintext:
  "prepared_or_none m c decode p = Some b \<Longrightarrow> \<exists>s. p = Some s \<and> \<not> is_encrypted_envelope s \<and> prepare_polyline m c decode p = Inr (Some b)"
  by (auto simp: prepared_or_none_def prepare_polyline_def split: option.splits sum.splits if_splits)

subsection \<open>The sweep\<close>

text \<open>SQLite's \<open>LIKE 'v1.%'\<close>, which ignores case.\<close>

definition like_v1 :: "string \<Rightarrow> bool" where
  "like_v1 s \<longleftrightarrow> take 3 s = ''v1.'' \<or> take 3 s = ''V1.''"

definition is_candidate :: "geo_db \<Rightarrow> int option \<Rightarrow> int \<times> string option \<Rightarrow> bool" where
  "is_candidate db after r \<longleftrightarrow>
     (case snd r of None \<Rightarrow> False | Some s \<Rightarrow> \<not> like_v1 s) \<and> current_blob db (fst r) = None \<and>
     (case after of None \<Rightarrow> True | Some a \<Rightarrow> a < fst r)"

definition candidates :: "geo_db \<Rightarrow> nat \<Rightarrow> int option \<Rightarrow> (int \<times> string option) list" where
  "candidates db limit after = take limit (sort_key fst (filter (is_candidate db after) (gd_rows db)))"

text \<open>One row of a batch; \<open>fails\<close> says which stores raise, and are rolled back.\<close>

definition sweep_row :: "preparer \<Rightarrow> (int \<Rightarrow> bool) \<Rightarrow> int \<times> string option \<Rightarrow> geo_db \<times> nat \<Rightarrow> geo_db \<times> nat" where
  "sweep_row prep fails r acc =
     (case prep (snd r) of
        None \<Rightarrow> acc
      | Some b \<Rightarrow> if fails (fst r) then acc else (store_prepared_if_unchanged (fst r) (snd r) b (fst acc), snd acc + 1))"

definition sweep_unprepared_geometry ::
  "preparer \<Rightarrow> (int \<Rightarrow> bool) \<Rightarrow> bool \<Rightarrow> nat \<Rightarrow> geo_db \<times> int option \<Rightarrow> (geo_db \<times> int option) \<times> nat" where
  "sweep_unprepared_geometry prep fails readable limit s =
     (if limit = 0 \<or> \<not> readable then (s, 0)
      else
        (let batch = candidates (fst s) limit (snd s);
             resume = (if length batch = limit then Some (fst (last batch)) else None);
             (db, prepared) = fold (sweep_row prep fails) batch (fst s, 0) in
         ((db, resume), prepared)))"

definition sweep_run :: "preparer \<Rightarrow> (int \<Rightarrow> bool) \<Rightarrow> nat \<Rightarrow> geo_db \<times> int option \<Rightarrow> geo_db \<times> int option" where
  "sweep_run prep fails limit s = fst (sweep_unprepared_geometry prep fails True limit s)"

lemma store_if_unchanged_rows [simp]: "gd_rows (store_prepared_if_unchanged a p b db) = gd_rows db"
  by (simp add: store_prepared_if_unchanged_def)

lemma sweep_row_rows: "gd_rows (fst (fold (sweep_row prep fails) batch (db, n))) = gd_rows db"
proof (induction batch arbitrary: db n)
  case (Cons r batch)
  then show ?case by (cases "sweep_row prep fails r (db, n)") (auto simp: sweep_row_def split: option.splits if_splits)
qed simp

lemma sweep_row_blob:
  assumes "\<forall>r\<in>set batch. stored_polyline db (fst r) = snd r"
  shows "current_blob (fst (fold (sweep_row prep fails) batch (db, n))) aid =
    (if aid \<in> fst ` set batch \<and> \<not> fails aid \<and> prep (stored_polyline db aid) \<noteq> None then prep (stored_polyline db aid)
     else current_blob db aid)"
  using assms
proof (induction batch arbitrary: db n)
  case (Cons r batch)
  obtain d k where dk: "sweep_row prep fails r (db, n) = (d, k)" by (cases "sweep_row prep fails r (db, n)")
  have rows: "gd_rows d = gd_rows db" using sweep_row_rows [of prep fails "[r]" db n] dk by simp
  then have poly: "stored_polyline d a = stored_polyline db a" for a by (simp add: stored_polyline_def)
  have one: "current_blob d aid = (if aid = fst r \<and> \<not> fails aid \<and> prep (stored_polyline db aid) \<noteq> None
      then prep (stored_polyline db aid) else current_blob db aid)"
    using dk Cons.prems by (auto simp: sweep_row_def store_prepared_if_unchanged_def split: option.splits if_splits)
  have "\<forall>q\<in>set batch. stored_polyline d (fst q) = snd q" using Cons.prems poly by simp
  then show ?case using Cons.IH [of d k] one dk poly by (cases "aid \<in> fst ` set batch") auto
qed simp

definition rows_after :: "geo_db \<Rightarrow> int option \<Rightarrow> (int \<times> string option) list" where
  "rows_after db after = filter (\<lambda>r. case after of None \<Rightarrow> True | Some a \<Rightarrow> a < fst r) (gd_rows db)"

lemma candidates_are_rows:
  "set (candidates db limit after) \<subseteq> {r \<in> set (rows_after db after). is_candidate db after r}"
proof -
  have "set (candidates db limit after) \<subseteq> {r \<in> set (gd_rows db). is_candidate db after r}"
    using set_take_subset [of limit "sort_key fst (filter (is_candidate db after) (gd_rows db))"]
    by (auto simp: candidates_def)
  then show ?thesis by (auto simp: rows_after_def is_candidate_def)
qed

lemma sorted_keys:
  fixes xs :: "(int \<times> 'a) list"
  assumes "distinct (map fst xs)"
  shows "sorted_wrt (\<lambda>a b. fst a < fst b) (sort_key fst (filter P xs))"
proof -
  have "distinct (map fst (filter P xs))" using assms by (induction xs) auto
  moreover have "mset (map fst (sort_key fst (filter P xs))) = mset (map fst (filter P xs))" by simp
  ultimately have "distinct (map fst (sort_key fst (filter P xs)))" using mset_eq_imp_distinct_iff by blast
  then have "sorted_wrt (<) (map fst (sort_key fst (filter P xs)))" by (simp add: strict_sorted_iff)
  then show ?thesis by (simp add: sorted_wrt_map)
qed

text \<open>A batch that misses a row it could have taken is full, and of lower ids.\<close>

lemma missed_row:
  assumes d: "distinct (map fst (gd_rows db))" and r: "r \<in> set (gd_rows db)" "is_candidate db after r"
    and miss: "r \<notin> set (candidates db limit after)"
  shows "length (candidates db limit after) = limit \<and> (\<forall>q \<in> set (candidates db limit after). fst q < fst r)"
proof -
  let ?xs = "sort_key fst (filter (is_candidate db after) (gd_rows db))"
  have "r \<in> set ?xs" using r by simp
  then have drop: "r \<in> set (drop limit ?xs)" using miss by (metis Un_iff append_take_drop_id candidates_def set_append)
  then have "limit \<le> length ?xs" by (metis drop_all empty_iff list.set(1) nat_le_linear)
  moreover have "sorted_wrt (\<lambda>a b. fst a < fst b) (take limit ?xs @ drop limit ?xs)" using sorted_keys [OF d] by simp
  ultimately show ?thesis using drop unfolding sorted_wrt_append candidates_def by auto
qed

lemma full_batch_advances:
  assumes d: "distinct (map fst (gd_rows db))" and n: "0 < limit" and full: "length (candidates db limit after) = limit"
  shows "length (rows_after db (Some (fst (last (candidates db limit after))))) + limit \<le> length (rows_after db after)"
proof -
  let ?b = "candidates db limit after"
  let ?rest = "rows_after db (Some (fst (last ?b)))"
  have ne: "?b \<noteq> []" using full n by auto
  have sorted: "sorted_wrt (\<lambda>a b. fst a < fst b) ?b" unfolding candidates_def by (rule sorted_wrt_take [OF sorted_keys [OF d]])
  have dist: "distinct (gd_rows db)" using d by (simp add: distinct_map)
  have le: "fst q \<le> fst (last ?b)" if "q \<in> set ?b" for q
  proof -
    have "sorted_wrt (\<lambda>a b. fst a < fst b) (butlast ?b @ [last ?b])" using sorted ne by simp
    then have "fst a < fst (last ?b)" if "a \<in> set (butlast ?b)" for a using that unfolding sorted_wrt_append by simp
    moreover have "q \<in> set (butlast ?b) \<or> q = last ?b" using that ne by (metis Un_iff append_butlast_last_id empty_iff list.set(1) set_ConsD set_append)
    ultimately show ?thesis by fastforce
  qed
  have last: "last ?b \<in> set ?b" using ne by simp
  have sub: "set ?b \<subseteq> set (rows_after db after)" using candidates_are_rows by blast
  have "set ?rest \<subseteq> set (rows_after db after)"
    using sub last by (fastforce simp: rows_after_def split: option.splits)
  then have "card (set ?rest \<union> set ?b) \<le> card (set (rows_after db after))" using sub by (intro card_mono) auto
  moreover have "card (set ?rest \<union> set ?b) = card (set ?rest) + card (set ?b)"
    using le by (intro card_Un_disjoint) (force simp: rows_after_def)+
  moreover have "distinct ?b" using sorted by (metis distinct_map sorted_wrt_map strict_sorted_iff)
  moreover have "distinct ?rest" "distinct (rows_after db after)" using dist by (simp_all add: rows_after_def)
  ultimately show ?thesis using full by (simp add: distinct_card)
qed

subsection \<open>Runs\<close>

text \<open>An activity the sweep can prepare as \<open>b\<close>, and what the cursor still has ahead.\<close>

definition preparable :: "preparer \<Rightarrow> (int \<Rightarrow> bool) \<Rightarrow> geo_db \<Rightarrow> int \<Rightarrow> byte list \<Rightarrow> bool" where
  "preparable prep fails db aid b \<longleftrightarrow>
     distinct (map fst (gd_rows db)) \<and> \<not> fails aid \<and> (current_blob db aid = None \<or> current_blob db aid = Some b) \<and>
     (\<exists>s. (aid, Some s) \<in> set (gd_rows db) \<and> \<not> like_v1 s \<and> prep (Some s) = Some b)"

definition ahead :: "int option \<Rightarrow> int \<Rightarrow> bool" where
  "ahead cursor aid \<longleftrightarrow> (case cursor of None \<Rightarrow> True | Some a \<Rightarrow> a < aid)"

lemma row_polyline: "distinct (map fst (gd_rows db)) \<Longrightarrow> r \<in> set (gd_rows db) \<Longrightarrow> stored_polyline db (fst r) = snd r"
  by (cases r) (simp add: stored_polyline_def)

lemma sweep_run_parts:
  assumes "0 < limit"
  shows "gd_rows (fst (sweep_run prep fails limit s)) = gd_rows (fst s)"
    "snd (sweep_run prep fails limit s) =
      (let batch = candidates (fst s) limit (snd s) in if length batch = limit then Some (fst (last batch)) else None)"
    "distinct (map fst (gd_rows (fst s))) \<Longrightarrow> current_blob (fst (sweep_run prep fails limit s)) aid =
      (if aid \<in> fst ` set (candidates (fst s) limit (snd s)) \<and> \<not> fails aid \<and> prep (stored_polyline (fst s) aid) \<noteq> None
       then prep (stored_polyline (fst s) aid) else current_blob (fst s) aid)"
proof -
  let ?b = "candidates (fst s) limit (snd s)"
  have db: "fst (sweep_run prep fails limit s) = fst (fold (sweep_row prep fails) ?b (fst s, 0))"
    using assms by (simp add: sweep_run_def sweep_unprepared_geometry_def Let_def split_beta)
  show "gd_rows (fst (sweep_run prep fails limit s)) = gd_rows (fst s)" by (simp add: db sweep_row_rows)
  show "snd (sweep_run prep fails limit s) = (let batch = ?b in if length batch = limit then Some (fst (last batch)) else None)"
    using assms by (simp add: sweep_run_def sweep_unprepared_geometry_def Let_def split_beta)
  assume d: "distinct (map fst (gd_rows (fst s)))"
  have "\<forall>r\<in>set ?b. stored_polyline (fst s) (fst r) = snd r"
    using candidates_are_rows row_polyline [OF d] by (fastforce simp: rows_after_def)
  then show "current_blob (fst (sweep_run prep fails limit s)) aid =
      (if aid \<in> fst ` set ?b \<and> \<not> fails aid \<and> prep (stored_polyline (fst s) aid) \<noteq> None
       then prep (stored_polyline (fst s) aid) else current_blob (fst s) aid)"
    unfolding db by (rule sweep_row_blob)
qed

lemma preparable_run:
  assumes "preparable prep fails (fst s) aid b" "0 < limit"
  shows "preparable prep fails (fst (sweep_run prep fails limit s)) aid b \<and>
    (current_blob (fst s) aid = Some b \<longrightarrow> current_blob (fst (sweep_run prep fails limit s)) aid = Some b)"
proof -
  obtain p where p: "(aid, Some p) \<in> set (gd_rows (fst s))" "prep (Some p) = Some b" "distinct (map fst (gd_rows (fst s)))"
    using assms(1) by (auto simp: preparable_def)
  then have "prep (stored_polyline (fst s) aid) = Some b" using row_polyline [of "fst s" "(aid, Some p)"] by simp
  then show ?thesis
    using assms sweep_run_parts(1,3) [OF assms(2)] by (simp add: preparable_def)
qed

lemma preparable_runs:
  assumes "preparable prep fails (fst s) aid b" "0 < limit"
  shows "preparable prep fails (fst ((sweep_run prep fails limit ^^ k) s)) aid b \<and>
    (current_blob (fst s) aid = Some b \<longrightarrow> current_blob (fst ((sweep_run prep fails limit ^^ k) s)) aid = Some b)"
proof (induction k)
  case (Suc k)
  then show ?case using preparable_run [of prep fails "(sweep_run prep fails limit ^^ k) s" aid b limit] assms(2) by simp
qed (use assms in simp)

lemma run_progress:
  assumes p: "preparable prep fails (fst s) aid b" and n: "0 < limit" and a: "ahead (snd s) aid"
    and w: "current_blob (fst s) aid = None"
  shows "current_blob (fst (sweep_run prep fails limit s)) aid = Some b \<or>
    ahead (snd (sweep_run prep fails limit s)) aid \<and>
    length (rows_after (fst s) (snd (sweep_run prep fails limit s))) + limit \<le> length (rows_after (fst s) (snd s))"
proof -
  let ?b = "candidates (fst s) limit (snd s)"
  obtain q where q: "(aid, Some q) \<in> set (gd_rows (fst s))" "\<not> like_v1 q" "prep (Some q) = Some b" and
    d: "distinct (map fst (gd_rows (fst s)))" and f: "\<not> fails aid" using p by (auto simp: preparable_def)
  have c: "is_candidate (fst s) (snd s) (aid, Some q)" using q(2) a w by (simp add: is_candidate_def ahead_def split: option.splits)
  have poly: "stored_polyline (fst s) aid = Some q" using row_polyline [OF d q(1)] by simp
  show ?thesis
  proof (cases "(aid, Some q) \<in> set ?b")
    case True
    then have "aid \<in> fst ` set ?b" by (simp add: rev_image_eqI)
    then show ?thesis using sweep_run_parts(3) [OF n d] poly q(3) f by simp
  next
    case False
    have full: "length ?b = limit" "\<forall>r\<in>set ?b. fst r < aid" using missed_row [OF d q(1) c False] by simp_all
    have "last ?b \<in> set ?b" using full(1) n by (intro last_in_set) auto
    then show ?thesis using full full_batch_advances [OF d n full(1)] sweep_run_parts(2) [OF n]
      by (simp add: ahead_def Let_def)
  qed
qed

lemma one_pass:
  assumes "preparable prep fails (fst s) aid b" "0 < limit" "ahead (snd s) aid" "length (rows_after (fst s) (snd s)) \<le> K * limit"
  shows "current_blob (fst ((sweep_run prep fails limit ^^ K) s)) aid = Some b"
  using assms
proof (induction K arbitrary: s)
  case 0
  obtain q where "(aid, Some q) \<in> set (gd_rows (fst s))" using 0 by (auto simp: preparable_def)
  then have "(aid, Some q) \<in> set (rows_after (fst s) (snd s))" using 0(3) by (simp add: rows_after_def ahead_def split: option.splits)
  then show ?case using 0(4) by auto
next
  case (Suc K)
  let ?t = "sweep_run prep fails limit s"
  have t: "preparable prep fails (fst ?t) aid b" using preparable_run [OF Suc.prems(1,2)] by simp
  have shift: "(sweep_run prep fails limit ^^ Suc K) s = (sweep_run prep fails limit ^^ K) ?t" by (simp add: funpow_swap1)
  show ?case
  proof (cases "current_blob (fst ?t) aid = Some b")
    case True
    then show ?thesis using preparable_runs [OF t Suc.prems(2)] shift by simp
  next
    case False
    then have "current_blob (fst s) aid = None" using Suc.prems(1) preparable_run [OF Suc.prems(1,2)] by (auto simp: preparable_def)
    then have "ahead (snd ?t) aid" "length (rows_after (fst s) (snd ?t)) \<le> K * limit"
      using run_progress [OF Suc.prems(1,2,3)] False Suc.prems(4) by auto
    moreover have "rows_after (fst ?t) = rows_after (fst s)" using sweep_run_parts(1) [OF Suc.prems(2)] by (intro ext) (simp add: rows_after_def)
    ultimately show ?thesis using Suc.IH [OF t Suc.prems(2)] shift by simp
  qed
qed

lemma wraps_around:
  assumes "distinct (map fst (gd_rows (fst s)))" "0 < limit" "length (rows_after (fst s) (snd s)) \<le> K * limit"
  shows "\<exists>j\<le>K. snd ((sweep_run prep fails limit ^^ Suc j) s) = None"
  using assms
proof (induction K arbitrary: s)
  case 0
  then have "candidates (fst s) limit (snd s) = []" using candidates_are_rows [of "fst s" limit "snd s"] by auto
  then show ?case using sweep_run_parts(2) [OF 0(2)] 0(2) by simp
next
  case (Suc K)
  let ?t = "sweep_run prep fails limit s" and ?b = "candidates (fst s) limit (snd s)"
  show ?case
  proof (cases "length ?b = limit")
    case False
    then show ?thesis using sweep_run_parts(2) [OF Suc.prems(2)] by (intro exI [of _ 0]) (simp add: Let_def)
  next
    case True
    have rows: "rows_after (fst ?t) = rows_after (fst s)" using sweep_run_parts(1) [OF Suc.prems(2)] by (intro ext) (simp add: rows_after_def)
    have "length (rows_after (fst ?t) (snd ?t)) \<le> K * limit"
      using full_batch_advances [OF Suc.prems(1,2) True] Suc.prems(3) True rows sweep_run_parts(2) [OF Suc.prems(2)] by (simp add: Let_def)
    then obtain j where "j \<le> K" "snd ((sweep_run prep fails limit ^^ Suc j) ?t) = None"
      using Suc.IH [of ?t] Suc.prems(1,2) sweep_run_parts(1) [OF Suc.prems(2)] by auto
    then show ?thesis by (intro exI [of _ "Suc j"]) (simp add: funpow_swap1)
  qed
qed

lemma sweep_done:
  assumes p: "preparable prep fails db aid b" and n: "0 < limit" and k: "length (gd_rows db) \<le> K * limit" "2 * K + 1 \<le> runs"
  shows "current_blob (fst ((sweep_run prep fails limit ^^ runs) (db, cursor))) aid = Some b"
proof -
  let ?f = "sweep_run prep fails limit"
  have d: "distinct (map fst (gd_rows db))" using p by (simp add: preparable_def)
  have "length (rows_after db cursor) \<le> K * limit" using k(1) length_filter_le le_trans unfolding rows_after_def by blast
  then obtain j where j: "j \<le> K" "snd ((?f ^^ Suc j) (db, cursor)) = None"
    using wraps_around [of "(db, cursor)" limit K prep fails] d n by auto
  let ?s = "(?f ^^ Suc j) (db, cursor)"
  have s: "preparable prep fails (fst ?s) aid b" using preparable_runs [of prep fails "(db, cursor)" aid b limit "Suc j"] p n by simp
  have "gd_rows (fst ((?f ^^ i) (db, cursor))) = gd_rows db" for i
    by (induction i) (simp_all add: sweep_run_parts(1) [OF n])
  then have "length (rows_after (fst ?s) (snd ?s)) \<le> K * limit" using j(2) k(1) by (simp add: rows_after_def del: funpow.simps)
  then have "current_blob (fst ((?f ^^ K) ?s)) aid = Some b"
    using one_pass [OF s n] j(2) by (simp add: ahead_def del: funpow.simps)
  then have "current_blob (fst ((?f ^^ (runs - (K + Suc j))) ((?f ^^ K) ?s))) aid = Some b"
    using preparable_runs [of prep fails "(?f ^^ K) ?s" aid b limit] preparable_runs [OF s n, of K] n by (simp del: funpow.simps)
  moreover have "(?f ^^ (runs - (K + Suc j))) ((?f ^^ K) ?s) = (?f ^^ (runs - (K + Suc j) + (K + Suc j))) (db, cursor)"
    by (simp only: funpow_add comp_apply)
  moreover have "runs - (K + Suc j) + (K + Suc j) = runs" using j(1) k(2) by simp
  ultimately show ?thesis by simp
qed

subsection \<open>Properties of the format\<close>

text \<open>C10. A prepared line is served as the line itself would be. For a polyline whose points are hundred-thousandths of a
  degree, as the encoding has them, the blob made of it once, read back by the map endpoints, gives at every zoom
  exactly what decoding the polyline and simplifying it for that zoom gives.\<close>

theorem prepared_line_serves_the_track:
  assumes "prepare_polyline m c decode (Some s) = Inr (Some blob)" "decode s = Some pts" "list_all on_grid (lonlat pts)"
    "lossless_box c (line_bbox (working_set (lonlat pts) MAX_INPUT_POINTS))" "level \<le> MAX_ZOOM_LEVEL"
  shows "\<exists>line. line_from_blob c blob = Inr line \<and>
    served line level None = simplify_for_zoom m (lonlat pts) level MIN_POINTS MAX_INPUT_POINTS None"
proof -
  let ?coords = "lonlat pts" let ?work = "working_set ?coords MAX_INPUT_POINTS"
  have p: "pack_prepared_line c ?work (level_bytes m ?work) (line_bbox ?work) = Inr blob" "2 \<le> length ?coords"
    using assms(1,2) by (auto simp: prepare_polyline_def Let_def split: if_splits sum.splits)
  then have ne: "?coords \<noteq> []" by auto
  have g: "list_all on_grid ?work" using working_set_set [OF ne] assms(3) by (auto simp: list_all_iff)
  have short: "?work = ?coords" if "length ?work < 3"
    using that stride_to_length [of MAX_INPUT_POINTS ?coords] by (auto simp: working_set_def MAX_INPUT_POINTS_def stride_to_def)
  have "(if length ?work < 3 then ?work else filter_to_level ?work (vertex_levels m ?work) level MIN_POINTS) =
      simplify_for_zoom m ?coords level MIN_POINTS MAX_INPUT_POINTS None"
  proof (cases "length ?work < 3")
    case True
    then show ?thesis using short by (simp add: simplify_for_zoom_def)
  next
    case False
    then show ?thesis using levels_serve_zoom [OF assms(5) ne] by simp
  qed
  then show ?thesis using line_of_blob [OF p(1) assms(4) g, of level] by auto
qed

definition whole_codec :: double_codec where
  "whole_codec = \<lparr>dc_pack = \<lambda>x. le_bytes 8 \<lfloor>x\<rfloor>, dc_unpack = \<lambda>bs. of_int (le_value bs)\<rparr>"

definition two_points :: decoder where
  "two_points s = Some [(0, 0), (1, 2)]"

lemma pack_succeeds:
  "flat_points points = Inr flat \<Longrightarrow> length levels = length points \<Longrightarrow> length points < 2 ^ 32 \<Longrightarrow>
    \<exists>blob. pack_prepared_line c points levels bbox = Inr blob"
  by (cases bbox) (simp add: pack_prepared_line_def rbind_def pack_header_def PREPARED_GEO_VERSION_def)

lemma two_points_prepared:
  "\<exists>blob. prepare_polyline flat_maplib whole_codec two_points (Some ''_'') = Inr (Some blob)"
proof -
  have work: "working_set (lonlat [(0, 0), (1, 2)]) MAX_INPUT_POINTS = [[0, 0], [2, 1]]"
    by (simp add: working_set_def lonlat_def stride_to_def MAX_INPUT_POINTS_def)
  have "flat_points [[0, 0], [2, 1]] = Inr [0, 0, 200000, 100000]"
    by (simp add: scaled_int_def COORD_SCALE_def round_half_even_def rbind_def Let_def is_int32_def)
  then obtain blob where "pack_prepared_line whole_codec [[0, 0], [2, 1]] (level_bytes flat_maplib [[0, 0], [2, 1]])
      (line_bbox [[0, 0], [2, 1]]) = Inr blob"
    using pack_succeeds [of "[[0, 0], [2, 1]]" _ "level_bytes flat_maplib [[0, 0], [2, 1]]" whole_codec "line_bbox [[0, 0], [2, 1]]"]
    by (auto simp: level_bytes_def vertex_levels_def Let_def)
  then show ?thesis using work
    by (simp add: prepare_polyline_def is_encrypted_envelope_def two_points_def Let_def) (simp add: lonlat_def)
qed

lemma whole_on_grid: "on_grid [of_int x, of_int y]"
  unfolding on_grid_def by (intro exI [of _ "x * 100000"] exI [of _ "y * 100000"]) (simp add: COORD_SCALE_def)

theorem prepared_line_serves_the_track_witness:
  "\<exists>blob line. prepare_polyline flat_maplib whole_codec two_points (Some ''_'') = Inr (Some blob) \<and>
     line_from_blob whole_codec blob = Inr line \<and>
     served line 3 None = simplify_for_zoom flat_maplib [[0, 0], [2, 1]] 3 MIN_POINTS MAX_INPUT_POINTS None"
proof -
  obtain blob where b: "prepare_polyline flat_maplib whole_codec two_points (Some ''_'') = Inr (Some blob)"
    using two_points_prepared by blast
  have "list_all on_grid (lonlat [(0, 0), (1, 2)])"
    using whole_on_grid [of 0 0] whole_on_grid [of 2 1] by (simp add: lonlat_def)
  moreover have "lossless_box whole_codec (line_bbox (working_set (lonlat [(0, 0), (1, 2)]) MAX_INPUT_POINTS))"
    by (simp add: working_set_def stride_to_def MAX_INPUT_POINTS_def lonlat_def line_bbox_def lossless_box_def lossless_def
        whole_codec_def le_value_bytes)
  moreover have "(3::nat) \<le> MAX_ZOOM_LEVEL" by (simp add: MAX_ZOOM_LEVEL_def)
  ultimately show ?thesis
    using prepared_line_serves_the_track [OF b, of "[(0, 0), (1, 2)]" 3] b by (auto simp: two_points_def lonlat_def)
qed

text \<open>C11. No plaintext geometry survives encryption. However the edits, deletions and upstream refreshes of the
  activities fall between the map endpoints and the backfill reading a polyline and storing what they made of it, a
  prepared row at the current version is the preparation of the polyline the activity has at that moment; so an encrypted,
  emptied or deleted activity has none.\<close>

theorem prepared_rows_are_current:
  assumes "(geo_step (prepared_or_none m c decode))\<^sup>*\<^sup>* (\<lparr>gd_rows = rows, gd_prepared = \<lambda>_. None\<rparr>, {}) (db, ps)"
    "current_blob db aid = Some blob"
  shows "\<exists>s. stored_polyline db aid = Some s \<and> \<not> is_encrypted_envelope s \<and> prepare_polyline m c decode (Some s) = Inr (Some blob)"
proof -
  have "geo_current (prepared_or_none m c decode) (\<lparr>gd_rows = rows, gd_prepared = \<lambda>_. None\<rparr>, {})"
    by (simp add: geo_current_def current_blob_def)
  then have "prepared_or_none m c decode (stored_polyline db aid) = Some blob"
    using geo_reach_current [OF assms(1)] assms(2) by (simp add: geo_current_def)
  then show ?thesis by (auto dest: prepared_is_plaintext)
qed

theorem prepared_rows_are_current_witness:
  "\<exists>db blob. (geo_step (prepared_or_none flat_maplib whole_codec two_points))\<^sup>*\<^sup>* (\<lparr>gd_rows = [(7, None)], gd_prepared = \<lambda>_. None\<rparr>, {}) (db, {}) \<and>
     current_blob db 7 = Some blob \<and> stored_polyline db 7 = Some ''_'' \<and>
     prepare_polyline flat_maplib whole_codec two_points (Some ''_'') = Inr (Some blob)"
proof -
  let ?prep = "prepared_or_none flat_maplib whole_codec two_points"
  let ?start = "\<lparr>gd_rows = [(7, None)], gd_prepared = \<lambda>_. None\<rparr> :: geo_db"
  let ?db = "write_polyline ?prep 7 (Some ''_'') ?start"
  obtain blob where b: "prepare_polyline flat_maplib whole_codec two_points (Some ''_'') = Inr (Some blob)"
    using two_points_prepared by blast
  have run: "(geo_step ?prep)\<^sup>*\<^sup>* (?start, {}) (?db, {})" by (rule r_into_rtranclp, rule edit)
  have "current_blob ?db 7 = Some blob" "stored_polyline ?db 7 = Some ''_''"
    using b by (simp_all add: write_polyline_def store_prepared_geometry_def prepared_or_none_def current_blob_def stored_polyline_def)
  with run prepared_rows_are_current [OF run, of 7 blob] show ?thesis by (intro exI [of _ ?db] exI [of _ blob]) auto
qed

text \<open>C12. The backfill reaches every track. Whatever rows at the head of the ids cannot be prepared or stored, and wherever
  the cursor of the last run stands, once enough runs to go through the ids twice have passed, every plaintext track the
  server can prepare has its prepared row.\<close>

theorem sweep_prepares_every_track:
  assumes "distinct (map fst (gd_rows db))" "0 < limit" "length (gd_rows db) \<le> K * limit" "2 * K + 1 \<le> runs"
    "(aid, Some s) \<in> set (gd_rows db)" "\<not> like_v1 s" "\<not> fails aid" "current_blob db aid = None"
    "prepare_polyline m c decode (Some s) = Inr (Some blob)"
  shows "current_blob (fst ((sweep_run (prepared_or_none m c decode) fails limit ^^ runs) (db, cursor))) aid = Some blob"
proof -
  have "preparable (prepared_or_none m c decode) fails db aid blob"
    using assms unfolding preparable_def by (auto simp: prepared_or_none_def)
  then show ?thesis using sweep_done assms(2,3,4) by blast
qed

theorem sweep_prepares_every_track_witness:
  "\<exists>blob. prepare_polyline flat_maplib whole_codec two_points (Some ''_'') = Inr (Some blob) \<and>
     current_blob (fst ((sweep_run (prepared_or_none flat_maplib whole_codec two_points) (\<lambda>i. i = -3) 1 ^^ 5)
       (\<lparr>gd_rows = [(-3, Some ''_''), (4, Some ''_'')], gd_prepared = \<lambda>_. None\<rparr>, None))) 4 = Some blob"
proof -
  obtain blob where b: "prepare_polyline flat_maplib whole_codec two_points (Some ''_'') = Inr (Some blob)"
    using two_points_prepared by blast
  then show ?thesis
    using sweep_prepares_every_track [of "\<lparr>gd_rows = [(-3, Some ''_''), (4, Some ''_'')], gd_prepared = \<lambda>_. None\<rparr>" 1 2 5 4
        "''_''" "\<lambda>i. i = -3" flat_maplib whole_codec two_points blob None]
    by (simp add: like_v1_def current_blob_def)
qed

text \<open>A blob cut short or carrying more is refused, not read as another line.\<close>

lemma unpack_size:
  assumes "unpack_prepared_line c b = Inr r"
  shows "HEADER_SIZE \<le> length b" "length b = HEADER_SIZE + nat (le_value (take 4 (drop 1 b))) * 9"
proof -
  define number where "number = nat (le_value (take 4 (drop 1 b)))"
  have "(if length b < HEADER_SIZE then Inl PreparedGeoFormatError
      else if length b \<noteq> HEADER_SIZE + number * 8 + number then Inl PreparedGeoFormatError else unpack_prepared_line c b) = Inr r"
    using assms unfolding unpack_prepared_line_def Let_def number_def by (simp only: HOL.simp_thms split: if_split_asm if_split)
  then have "HEADER_SIZE \<le> length b \<and> length b = HEADER_SIZE + number * 8 + number" by (simp split: if_splits)
  then show "HEADER_SIZE \<le> length b" "length b = HEADER_SIZE + nat (le_value (take 4 (drop 1 b))) * 9"
    unfolding number_def [symmetric] by simp_all
qed

lemma resized_blob_is_refused:
  assumes "pack_prepared_line c points levels bbox = Inr blob" "lossless_box c bbox" "take 5 other = take 5 blob"
    "length other \<noteq> length blob"
  shows "unpack_prepared_line c other = Inl PreparedGeoFormatError"
proof (cases "unpack_prepared_line c other")
  case (Inl e)
  then show ?thesis by (cases e) simp
next
  case (Inr r)
  obtain q where q: "unpack_prepared_line c blob = Inr q" using unpack_packed [OF assms(1,2)] by blast
  have "take 4 (drop 1 other) = drop 1 (take 5 other)" "take 4 (drop 1 blob) = drop 1 (take 5 blob)" by (simp_all add: drop_take)
  then have "take 4 (drop 1 other) = take 4 (drop 1 blob)" using assms(3) by metis
  then have "length other = length blob" using unpack_size(2) [OF Inr] unpack_size(2) [OF q] by metis
  then show ?thesis using assms(4) by contradiction
qed

end
