(* ===== verification/GeoCache.thy ===== *)
theory GeoCache
  imports Main "HOL-Library.AList"
begin

text \<open>
  The payload caches of \<open>api/geo.py\<close>: gzipped answers per project, caller and variant (\<open>_geo_cache_get\<close>,
  \<open>_geo_cache_store\<close>), prepared trips (\<open>_track_cache_get\<close>, \<open>_track_cache_store\<close>), both bounded in bytes and entries and
  guarded by a generation counter that every change of a project bumps (\<open>bust_geo_cache\<close>); and the order in which the
  endpoints of \<open>api/geo.py\<close> and \<open>api/projects.py\<close> resolve the project, read the counter, load, store and answer.

  A dict is an association list in insertion order, times are integers. How large a payload is, is a parameter.
\<close>

subsection \<open>A bounded cache\<close>

text \<open>An entry is the payload, its deadline and the generation it was computed against.\<close>

type_synonym 'p entry = "'p \<times> int \<times> nat"
type_synonym ('k, 'p) cache = "('k \<times> 'p entry) list"

record cache_bounds =
  cb_bytes :: nat
  cb_entries :: nat
  cb_entry_bytes :: nat

definition geo_bounds :: cache_bounds where
  "geo_bounds = \<lparr>cb_bytes = 64 * 1024 * 1024, cb_entries = 200, cb_entry_bytes = 16 * 1024 * 1024\<rparr>"

definition track_bounds :: cache_bounds where
  "track_bounds = \<lparr>cb_bytes = 32 * 1024 * 1024, cb_entries = 32, cb_entry_bytes = 32 * 1024 * 1024\<rparr>"

definition GEO_CACHE_TTL_S :: int where "GEO_CACHE_TTL_S = 300"
definition TRACK_CACHE_TTL_S :: int where "TRACK_CACHE_TTL_S = 900"

definition cache_bytes :: "('p \<Rightarrow> nat) \<Rightarrow> ('k, 'p) cache \<Rightarrow> nat" where
  "cache_bytes len c = sum_list (map (\<lambda>(k, p, d, g). len p) c)"

definition soonest :: "('k, 'p) cache \<Rightarrow> 'k" where
  "soonest c = fst (arg_min_list (\<lambda>(k, p, d, g). d) c)"

definition over_budget :: "cache_bounds \<Rightarrow> ('p \<Rightarrow> nat) \<Rightarrow> ('k, 'p) cache \<Rightarrow> bool" where
  "over_budget b len c \<longleftrightarrow> c \<noteq> [] \<and> (cache_bytes len c > cb_bytes b \<or> length c > cb_entries b)"

lemma soonest_in: "c \<noteq> [] \<Longrightarrow> soonest c \<in> fst ` set c"
  by (simp add: soonest_def arg_min_list_in)

lemma delete_shorter: "k \<in> fst ` set c \<Longrightarrow> length (AList.delete k c) < length c"
  by (induction c) (auto simp: AList.delete_eq intro: le_imp_less_Suc)

function evict :: "cache_bounds \<Rightarrow> ('p \<Rightarrow> nat) \<Rightarrow> 'k \<Rightarrow> ('k, 'p) cache \<Rightarrow> ('k, 'p) cache" where
  "evict b len protect c =
     (if \<not> over_budget b len c then c
      else if soonest c = protect \<and> length c = 1 then c
      else evict b len protect (AList.delete (soonest c) c))"
  by pat_completeness auto

termination
  by (relation "measure (\<lambda>(b, len, protect, c). length c)")
    (auto simp: over_budget_def intro!: delete_shorter soonest_in)

declare evict.simps [simp del]

text \<open>What the stores do under the lock.\<close>

definition put_entry ::
  "cache_bounds \<Rightarrow> ('p \<Rightarrow> nat) \<Rightarrow> int \<Rightarrow> int \<Rightarrow> 'k \<Rightarrow> 'p \<Rightarrow> nat \<Rightarrow> ('k, 'p) cache \<Rightarrow> ('k, 'p) cache" where
  "put_entry b len now ttl key payload gen c =
     (let live = filter (\<lambda>(k, p, deadline, g). \<not> deadline \<le> now) c in
      if len payload > cb_entry_bytes b then AList.delete key live
      else evict b len key (AList.update key (payload, now + ttl, gen) live))"

definition geo_cache_store ::
  "('p \<Rightarrow> nat) \<Rightarrow> nat \<Rightarrow> int \<Rightarrow> int \<Rightarrow> 'k \<Rightarrow> 'p \<Rightarrow> nat \<Rightarrow> ('k, 'p) cache \<Rightarrow> ('k, 'p) cache" where
  "geo_cache_store len current now ttl key payload gen c =
     (if current \<noteq> gen then c else put_entry geo_bounds len now ttl key payload gen c)"

definition track_cache_store ::
  "('p \<Rightarrow> nat) \<Rightarrow> nat \<Rightarrow> int \<Rightarrow> 'k \<Rightarrow> 'p \<Rightarrow> nat \<Rightarrow> ('k, 'p) cache \<Rightarrow> ('k, 'p) cache" where
  "track_cache_store len current now key payload gen c =
     (if current \<noteq> gen then c else put_entry track_bounds len now TRACK_CACHE_TTL_S key payload gen c)"

text \<open>A lookup is two critical sections around the reading of the generation: the entry, then its removal when it is
  superseded. The prepared trips are refreshed by the first.\<close>

definition find_entry :: "bool \<Rightarrow> int \<Rightarrow> 'k \<Rightarrow> ('k, 'p) cache \<Rightarrow> ('p \<times> nat) option \<times> ('k, 'p) cache" where
  "find_entry refresh now key c =
     (case map_of c key of
        None \<Rightarrow> (None, c)
      | Some (payload, deadline, gen) \<Rightarrow>
          if now \<ge> deadline then (None, AList.delete key c)
          else (Some (payload, gen), if refresh then AList.update key (payload, now + TRACK_CACHE_TTL_S, gen) c else c))"

definition check_entry :: "nat \<Rightarrow> 'k \<Rightarrow> ('p \<times> nat) option \<times> ('k, 'p) cache \<Rightarrow> 'p option \<times> ('k, 'p) cache" where
  "check_entry current key found =
     (case fst found of
        None \<Rightarrow> (None, snd found)
      | Some (payload, gen) \<Rightarrow> if gen \<noteq> current then (None, AList.delete key (snd found)) else (Some payload, snd found))"

definition geo_cache_get :: "nat \<Rightarrow> int \<Rightarrow> 'k \<Rightarrow> ('k, 'p) cache \<Rightarrow> 'p option \<times> ('k, 'p) cache" where
  "geo_cache_get current now key c = check_entry current key (find_entry False now key c)"

definition track_cache_get :: "nat \<Rightarrow> int \<Rightarrow> 'k \<Rightarrow> ('k, 'p) cache \<Rightarrow> 'p option \<times> ('k, 'p) cache" where
  "track_cache_get current now key c = check_entry current key (find_entry True now key c)"

definition drop_project :: "('k \<Rightarrow> bool) \<Rightarrow> ('k, 'p) cache \<Rightarrow> ('k, 'p) cache" where
  "drop_project of_project c = filter (\<lambda>(k, e). \<not> of_project k) c"

subsection \<open>The budget\<close>

definition in_budget :: "cache_bounds \<Rightarrow> ('p \<Rightarrow> nat) \<Rightarrow> ('k, 'p) cache \<Rightarrow> bool" where
  "in_budget b len c \<longleftrightarrow>
     distinct (map fst c) \<and> cache_bytes len c \<le> cb_bytes b \<and> length c \<le> cb_entries b \<and>
     (\<forall>(k, p, d, g) \<in> set c. len p \<le> cb_entry_bytes b)"

definition sane :: "cache_bounds \<Rightarrow> bool" where
  "sane b \<longleftrightarrow> cb_entry_bytes b \<le> cb_bytes b \<and> 1 \<le> cb_entries b"

lemma bounds_sane: "sane geo_bounds" "sane track_bounds"
  by (simp_all add: sane_def geo_bounds_def track_bounds_def)

lemma cache_bytes_filter: "cache_bytes len (filter P c) \<le> cache_bytes len c"
  by (induction c) (auto simp: cache_bytes_def)

lemma in_budget_filter: "in_budget b len c \<Longrightarrow> in_budget b len (filter P c)"
  using cache_bytes_filter [of len P c] length_filter_le [of P c] unfolding in_budget_def
  by (auto simp: distinct_map_filter simp del: length_filter_le)

lemma in_budget_delete: "in_budget b len c \<Longrightarrow> in_budget b len (AList.delete k c)"
  by (simp add: AList.delete_eq in_budget_filter)

lemma delete_set: "set (AList.delete k c) \<subseteq> set c"
  by (auto simp: AList.delete_eq)

lemma update_set: "set (AList.update k v c) \<subseteq> insert (k, v) (set c)"
  by (induction c) auto

lemma in_budget_refresh:
  assumes "in_budget b len c" "map_of c key = Some (p, d, g)"
  shows "in_budget b len (AList.update key (p, d', g') c)"
proof -
  have "cache_bytes len (AList.update key (p, d', g') c) = cache_bytes len c \<and> length (AList.update key (p, d', g') c) = length c"
    using assms(2) by (induction c) (auto simp: cache_bytes_def)
  moreover have "\<forall>(k, p, d, g) \<in> set (AList.update key (p, d', g') c). len p \<le> cb_entry_bytes b"
  proof -
    have "len p \<le> cb_entry_bytes b" using assms map_of_SomeD [OF assms(2)] by (auto simp: in_budget_def)
    then show ?thesis using assms(1) update_set [of key "(p, d', g')" c] by (auto simp: in_budget_def)
  qed
  ultimately show ?thesis using assms(1) by (simp add: in_budget_def distinct_update)
qed

lemma evict_set: "set (evict b len protect c) \<subseteq> set c"
proof (induction b len protect c rule: evict.induct)
  case (1 b len protect c)
  then show ?case
    by (subst evict.simps) (use delete_set [of "soonest c" c] in \<open>auto simp del: AList.delete_simps\<close>)
qed

lemma evict_in_budget:
  assumes "sane b" "distinct (map fst c)" "\<forall>(k, p, d, g) \<in> set c. len p \<le> cb_entry_bytes b"
  shows "in_budget b len (evict b len protect c)"
  using assms
proof (induction b len protect c rule: evict.induct)
  case (1 b len protect c)
  have small: "in_budget b len c" if one: "length c = 1"
  proof -
    obtain k p d g where "c = [(k, p, d, g)]" using one by (cases c) auto
    then show ?thesis using "1.prems" by (simp add: in_budget_def sane_def cache_bytes_def)
  qed
  show ?case
  proof (cases "over_budget b len c \<and> \<not> (soonest c = protect \<and> length c = 1)")
    case True
    then have "in_budget b len (evict b len protect (AList.delete (soonest c) c))"
      using delete_set [of "soonest c" c] "1.prems" by (intro "1.IH") (auto simp: distinct_delete)
    then show ?thesis using True by (subst evict.simps) auto
  next
    case False
    have "in_budget b len c" if "\<not> over_budget b len c"
      using that "1.prems" by (cases "c = []") (auto simp: over_budget_def in_budget_def cache_bytes_def)
    then show ?thesis using False small by (subst evict.simps) auto
  qed
qed

lemma put_entry_in_budget:
  assumes b: "sane b" and c: "in_budget b len c"
  shows "in_budget b len (put_entry b len now ttl key payload gen c)"
proof -
  let ?live = "filter (\<lambda>(k, p, deadline, g). \<not> deadline \<le> now) c"
  have live: "in_budget b len ?live" by (rule in_budget_filter [OF c])
  show ?thesis
  proof (cases "len payload > cb_entry_bytes b")
    case True
    then show ?thesis using in_budget_delete [OF live] by (simp add: put_entry_def)
  next
    case False
    have "\<forall>(k, p, d, g) \<in> set ?live. len p \<le> cb_entry_bytes b" using live by (simp add: in_budget_def)
    then have "\<forall>(k, p, d, g) \<in> insert (key, payload, now + ttl, gen) (set ?live). len p \<le> cb_entry_bytes b" using False by auto
    then have "\<forall>(k, p, d, g) \<in> set (AList.update key (payload, now + ttl, gen) ?live). len p \<le> cb_entry_bytes b"
      by (blast dest: subsetD [OF update_set])
    moreover have "distinct (map fst (AList.update key (payload, now + ttl, gen) ?live))"
      using live by (simp add: in_budget_def distinct_update)
    ultimately show ?thesis using False evict_in_budget [OF b] by (simp add: put_entry_def)
  qed
qed

lemma put_entry_set: "set (put_entry b len now ttl key payload gen c) \<subseteq> insert (key, payload, now + ttl, gen) (set c)"
proof -
  let ?live = "filter (\<lambda>(k, p, deadline, g). \<not> deadline \<le> now) c"
  have "set (put_entry b len now ttl key payload gen c) \<subseteq> insert (key, payload, now + ttl, gen) (set ?live)"
    using evict_set [of b len key "AList.update key (payload, now + ttl, gen) ?live"] delete_set [of key ?live]
      update_set [of key "(payload, now + ttl, gen)" ?live]
    by (auto simp: put_entry_def Let_def simp del: set_filter)
  then show ?thesis by auto
qed

lemma find_entry_in_budget: "in_budget b len c \<Longrightarrow> in_budget b len (snd (find_entry refresh now key c))"
  by (auto simp: find_entry_def intro: in_budget_delete in_budget_refresh split: option.splits)

lemma check_entry_in_budget: "in_budget b len (snd found) \<Longrightarrow> in_budget b len (snd (check_entry current key found))"
  by (auto simp: check_entry_def intro: in_budget_delete split: option.splits)

subsection \<open>Calls against one cache\<close>

text \<open>Each call with the generation and the clock it reads.\<close>

datatype ('k, 'p) cache_call =
  Store nat int int 'k 'p nat
| Get nat int 'k
| Bust "'k \<Rightarrow> bool"

fun geo_call :: "('p \<Rightarrow> nat) \<Rightarrow> ('k, 'p) cache_call \<Rightarrow> ('k, 'p) cache \<Rightarrow> ('k, 'p) cache" where
  "geo_call len (Store current now ttl key payload gen) c = geo_cache_store len current now ttl key payload gen c"
| "geo_call len (Get current now key) c = snd (geo_cache_get current now key c)"
| "geo_call len (Bust of_project) c = drop_project of_project c"

fun track_call :: "('p \<Rightarrow> nat) \<Rightarrow> ('k, 'p) cache_call \<Rightarrow> ('k, 'p) cache \<Rightarrow> ('k, 'p) cache" where
  "track_call len (Store current now ttl key payload gen) c = track_cache_store len current now key payload gen c"
| "track_call len (Get current now key) c = snd (track_cache_get current now key c)"
| "track_call len (Bust of_project) c = drop_project of_project c"

lemma geo_call_in_budget: "in_budget geo_bounds len c \<Longrightarrow> in_budget geo_bounds len (geo_call len x c)"
  by (cases x) (auto simp: geo_cache_store_def geo_cache_get_def drop_project_def
      intro: put_entry_in_budget bounds_sane check_entry_in_budget find_entry_in_budget in_budget_filter)

lemma track_call_in_budget: "in_budget track_bounds len c \<Longrightarrow> in_budget track_bounds len (track_call len x c)"
  by (cases x) (auto simp: track_cache_store_def track_cache_get_def drop_project_def
      intro: put_entry_in_budget bounds_sane check_entry_in_budget find_entry_in_budget in_budget_filter)

lemma in_budget_empty: "in_budget b len []"
  by (simp add: in_budget_def cache_bytes_def)

lemma geo_calls_in_budget: "in_budget geo_bounds len c \<Longrightarrow> in_budget geo_bounds len (fold (geo_call len) xs c)"
  by (induction xs arbitrary: c) (simp_all add: geo_call_in_budget)

lemma track_calls_in_budget: "in_budget track_bounds len c \<Longrightarrow> in_budget track_bounds len (fold (track_call len) xs c)"
  by (induction xs arbitrary: c) (simp_all add: track_call_in_budget)

text \<open>C15. The caches never outgrow their budget. Whatever is stored, looked up and invalidated, and however large the
  payloads, the answers held at any moment take at most 64 MB in at most 200 entries of at most 16 MB each, the prepared
  trips at most 32 MB in at most 32.\<close>

theorem caches_stay_in_budget:
  "cache_bytes len (fold (geo_call len) xs []) \<le> 64 * 1024 * 1024 \<and> length (fold (geo_call len) xs []) \<le> 200 \<and>
   list_all (\<lambda>(k, p, d, g). len p \<le> 16 * 1024 * 1024) (fold (geo_call len) xs []) \<and>
   cache_bytes len (fold (track_call len) ys []) \<le> 32 * 1024 * 1024 \<and> length (fold (track_call len) ys []) \<le> 32"
  using geo_calls_in_budget [OF in_budget_empty, of len xs] track_calls_in_budget [OF in_budget_empty, of len ys]
  by (simp add: in_budget_def geo_bounds_def track_bounds_def list_all_iff)

subsection \<open>Answers and changes\<close>

text \<open>
  Any number of processes serve any number of projects. A project's data is the number of changes committed to it. With a
  broker the generation of a project is one counter that all share, without one each process has its own: \<open>authority\<close>.

  An endpoint resolves the project by its row, looks for an answer, captures the generation, loads what the answer is made
  of, compares the generation again, and puts the answer into the cache of its process; an answer here is the change of the
  row and the change of the rest it was made at. A lookup finds an entry, and answers with it if its generation is still
  the one in force.
\<close>

type_synonym project = "int \<times> string"

datatype variant = Encoded bool | Named string | OfCaller string int

type_synonym cache_key = "project \<times> variant"
type_synonym answer = "nat \<times> nat"

definition project_of :: "cache_key \<Rightarrow> project" where
  "project_of key = fst key"

datatype request =
  Resolved nat cache_key nat
| Captured nat cache_key nat nat
| Loaded nat cache_key answer nat
| Checked nat cache_key answer nat
| Found nat cache_key answer nat

record geo_world =
  gw_data :: "project \<Rightarrow> nat"
  gw_gen :: "nat option \<Rightarrow> project \<Rightarrow> nat"
  gw_busted :: "nat option \<Rightarrow> project \<Rightarrow> nat"
  gw_cache :: "nat \<Rightarrow> (cache_key, answer) cache"
  gw_requests :: "nat \<rightharpoonup> request"

definition authority :: "bool \<Rightarrow> nat \<Rightarrow> nat option" where
  "authority broker p = (if broker then None else Some p)"

definition geo_generation :: "bool \<Rightarrow> geo_world \<Rightarrow> nat \<Rightarrow> project \<Rightarrow> nat" where
  "geo_generation broker w p = gw_gen w (authority broker p)"

text \<open>\<open>gw_busted\<close> is no state of the program: it notes how far the data was at the last bump.\<close>

definition bump_generation :: "bool \<Rightarrow> nat \<Rightarrow> project \<Rightarrow> geo_world \<Rightarrow> geo_world" where
  "bump_generation broker p proj w =
     (let a = authority broker p in
      w\<lparr>gw_gen := (gw_gen w)(a := (gw_gen w a)(proj := gw_gen w a proj + 1)),
        gw_busted := (gw_busted w)(a := (gw_busted w a)(proj := gw_data w proj))\<rparr>)"

inductive serve_step :: "bool \<Rightarrow> (answer \<Rightarrow> nat) \<Rightarrow> geo_world \<Rightarrow> geo_world \<Rightarrow> bool" for broker len where
  commit: "serve_step broker len w (w\<lparr>gw_data := (gw_data w)(proj := gw_data w proj + 1)\<rparr>)"
| bump: "serve_step broker len w (bump_generation broker p proj w)"
| forget: "serve_step broker len w (w\<lparr>gw_cache := (gw_cache w)(p := drop_project (\<lambda>k. project_of k = proj) (gw_cache w p))\<rparr>)"
| resolve: "gw_requests w r = None \<Longrightarrow>
    serve_step broker len w (w\<lparr>gw_requests := (gw_requests w)(r \<mapsto> Resolved p key (gw_data w (project_of key)))\<rparr>)"
| capture: "gw_requests w r = Some (Resolved p key v) \<Longrightarrow>
    serve_step broker len w (w\<lparr>gw_requests := (gw_requests w)(r \<mapsto> Captured p key v (geo_generation broker w p (project_of key)))\<rparr>)"
| load: "gw_requests w r = Some (Captured p key v g) \<Longrightarrow>
    serve_step broker len w (w\<lparr>gw_requests := (gw_requests w)(r \<mapsto> Loaded p key (v, gw_data w (project_of key)) g)\<rparr>)"
| check: "gw_requests w r = Some (Loaded p key ans g) \<Longrightarrow>
    serve_step broker len w (w\<lparr>gw_requests := (gw_requests w)(r :=
      (if geo_generation broker w p (project_of key) \<noteq> g then None else Some (Checked p key ans g)))\<rparr>)"
| put: "gw_requests w r = Some (Checked p key ans g) \<Longrightarrow>
    serve_step broker len w (w\<lparr>gw_cache := (gw_cache w)(p := put_entry geo_bounds len now ttl key ans g (gw_cache w p)),
      gw_requests := (gw_requests w)(r := None)\<rparr>)"
| find: "gw_requests w r = None \<Longrightarrow> find_entry False now key (gw_cache w p) = (Some (ans, g), c) \<Longrightarrow>
    serve_step broker len w (w\<lparr>gw_cache := (gw_cache w)(p := c), gw_requests := (gw_requests w)(r \<mapsto> Found p key ans g)\<rparr>)"
| miss: "find_entry False now key (gw_cache w p) = (None, c) \<Longrightarrow>
    serve_step broker len w (w\<lparr>gw_cache := (gw_cache w)(p := c)\<rparr>)"
| answered: "gw_requests w r = Some (Found p key ans g) \<Longrightarrow>
    serve_step broker len w (w\<lparr>gw_cache := (gw_cache w)(p := snd (check_entry (geo_generation broker w p (project_of key)) key (Some (ans, g), gw_cache w p))),
      gw_requests := (gw_requests w)(r := None)\<rparr>)"

definition answer_of :: "bool \<Rightarrow> geo_world \<Rightarrow> nat \<Rightarrow> answer option" where
  "answer_of broker w r =
     (case gw_requests w r of
        Some (Found p key ans g) \<Rightarrow> fst (check_entry (geo_generation broker w p (project_of key)) key (Some (ans, g), gw_cache w p))
      | _ \<Rightarrow> None)"

definition first_world :: geo_world where
  "first_world = \<lparr>gw_data = \<lambda>_. 0, gw_gen = \<lambda>_ _. 0, gw_busted = \<lambda>_ _. 0, gw_cache = \<lambda>_. [], gw_requests = \<lambda>_. None\<rparr>"

text \<open>What was loaded under a generation still in force is as new as the bump that put it in force.\<close>

definition loaded_fresh :: "bool \<Rightarrow> geo_world \<Rightarrow> nat \<Rightarrow> project \<Rightarrow> nat \<Rightarrow> nat \<Rightarrow> bool" where
  "loaded_fresh broker w p proj d g \<longleftrightarrow>
     g \<le> geo_generation broker w p proj \<and> (g = geo_generation broker w p proj \<longrightarrow> gw_busted w (authority broker p) proj \<le> d)"

fun request_fresh :: "bool \<Rightarrow> geo_world \<Rightarrow> request \<Rightarrow> bool" where
  "request_fresh broker w (Resolved p key v) = True"
| "request_fresh broker w (Captured p key v g) = (g \<le> geo_generation broker w p (project_of key))"
| "request_fresh broker w (Loaded p key ans g) = loaded_fresh broker w p (project_of key) (snd ans) g"
| "request_fresh broker w (Checked p key ans g) = loaded_fresh broker w p (project_of key) (snd ans) g"
| "request_fresh broker w (Found p key ans g) = loaded_fresh broker w p (project_of key) (snd ans) g"

definition world_fresh :: "bool \<Rightarrow> geo_world \<Rightarrow> bool" where
  "world_fresh broker w \<longleftrightarrow>
     (\<forall>a proj. gw_busted w a proj \<le> gw_data w proj) \<and>
     (\<forall>p key ans d g. (key, ans, d, g) \<in> set (gw_cache w p) \<longrightarrow> loaded_fresh broker w p (project_of key) (snd ans) g) \<and>
     (\<forall>r q. gw_requests w r = Some q \<longrightarrow> request_fresh broker w q)"

lemma fresh_frame [simp]:
  "loaded_fresh broker (w\<lparr>gw_data := x\<rparr>) = loaded_fresh broker w"
  "loaded_fresh broker (w\<lparr>gw_cache := y\<rparr>) = loaded_fresh broker w"
  "loaded_fresh broker (w\<lparr>gw_requests := z\<rparr>) = loaded_fresh broker w"
  "geo_generation broker (w\<lparr>gw_data := x\<rparr>) = geo_generation broker w"
  "geo_generation broker (w\<lparr>gw_cache := y\<rparr>) = geo_generation broker w"
  "geo_generation broker (w\<lparr>gw_requests := z\<rparr>) = geo_generation broker w"
  by (intro ext; simp add: loaded_fresh_def geo_generation_def)+

lemma request_frame [simp]:
  "request_fresh broker (w\<lparr>gw_data := x\<rparr>) q = request_fresh broker w q"
  "request_fresh broker (w\<lparr>gw_cache := y\<rparr>) q = request_fresh broker w q"
  "request_fresh broker (w\<lparr>gw_requests := z\<rparr>) q = request_fresh broker w q"
  by (cases q; simp)+

lemma fresh_bump: "loaded_fresh broker w p' proj' d g \<Longrightarrow> loaded_fresh broker (bump_generation broker p proj w) p' proj' d g"
  by (auto simp: loaded_fresh_def geo_generation_def bump_generation_def Let_def)

lemma gen_bump: "geo_generation broker w p' proj' \<le> geo_generation broker (bump_generation broker p proj w) p' proj'"
  by (simp add: geo_generation_def bump_generation_def Let_def)

lemma request_bump: "request_fresh broker w q \<Longrightarrow> request_fresh broker (bump_generation broker p proj w) q"
  by (cases q) (simp_all add: fresh_bump order_trans [OF _ gen_bump])

lemma find_entry_parts:
  assumes "find_entry refresh now key c = (found, c')" "\<not> refresh"
  shows "set c' \<subseteq> set c" "found = Some (ans, g) \<Longrightarrow> \<exists>d. (key, ans, d, g) \<in> set c"
  using assms delete_set [of key c] by (fastforce simp: find_entry_def dest: map_of_SomeD split: option.splits if_splits)+

lemma check_entry_set: "set (snd (check_entry current key (found, c))) \<subseteq> set c"
  using delete_set [of key c] by (auto simp: check_entry_def split: option.splits)

lemma world_freshD:
  assumes "world_fresh broker w"
  shows "gw_busted w a proj \<le> gw_data w proj"
    and "(key, ans, d, g) \<in> set (gw_cache w p) \<Longrightarrow> loaded_fresh broker w p (project_of key) (snd ans) g"
    and "gw_requests w r = Some q \<Longrightarrow> request_fresh broker w q"
  using assms unfolding world_fresh_def by blast+

lemma world_fresh_requests:
  assumes "world_fresh broker w" "\<forall>q. x = Some q \<longrightarrow> request_fresh broker w q"
  shows "world_fresh broker (w\<lparr>gw_requests := (gw_requests w)(r := x)\<rparr>)"
  using assms by (auto simp: world_fresh_def)

lemma world_fresh_cache:
  assumes "world_fresh broker w" "set c \<subseteq> set (gw_cache w p) \<union> N"
    "\<forall>(key, ans, d, g) \<in> N. loaded_fresh broker w p (project_of key) (snd ans) g"
  shows "world_fresh broker (w\<lparr>gw_cache := (gw_cache w)(p := c)\<rparr>)"
proof -
  have "loaded_fresh broker w p (project_of key) (snd ans) g" if "(key, ans, d, g) \<in> set c" for key ans d g
    using that assms unfolding world_fresh_def by blast
  then show ?thesis using assms(1) unfolding world_fresh_def by (simp del: split_paired_All)
qed

lemma serve_step_fresh: "serve_step broker len w w' \<Longrightarrow> world_fresh broker w \<Longrightarrow> world_fresh broker w'"
proof (induction rule: serve_step.induct)
  case (commit w proj)
  then show ?case by (auto simp: world_fresh_def le_SucI)
next
  case (bump w p proj)
  have "gw_busted (bump_generation broker p proj w) a x \<le> gw_data (bump_generation broker p proj w) x" for a x
    using bump unfolding world_fresh_def bump_generation_def by (simp add: Let_def del: split_paired_All)
  moreover have "gw_cache (bump_generation broker p proj w) = gw_cache w" "gw_requests (bump_generation broker p proj w) = gw_requests w"
    by (simp_all add: bump_generation_def Let_def)
  ultimately show ?case using bump unfolding world_fresh_def by (simp add: fresh_bump request_bump)
next
  case (forget w p proj)
  show ?case by (rule world_fresh_cache [OF forget, of _ _ "{}"]) (auto simp: drop_project_def)
next
  case (resolve w r p key)
  then show ?case by (intro world_fresh_requests) auto
next
  case (capture w r p key v)
  then show ?case by (intro world_fresh_requests) auto
next
  case (load w r p key v g)
  have "g \<le> geo_generation broker w p (project_of key)" "gw_busted w (authority broker p) (project_of key) \<le> gw_data w (project_of key)"
    using world_freshD(1,3) [OF load(2)] load(1) by fastforce+
  then show ?case using load(2) by (intro world_fresh_requests) (auto simp: loaded_fresh_def)
next
  case (check w r p key ans g)
  then have "loaded_fresh broker w p (project_of key) (snd ans) g" using world_freshD(3) by fastforce
  then show ?case using check(2) by (intro world_fresh_requests) auto
next
  case (put w r p key ans g now ttl)
  then have "loaded_fresh broker w p (project_of key) (snd ans) g" using world_freshD(3) by fastforce
  then have "world_fresh broker (w\<lparr>gw_cache := (gw_cache w)(p := put_entry geo_bounds len now ttl key ans g (gw_cache w p))\<rparr>)"
    using put_entry_set [of geo_bounds len now ttl key ans g "gw_cache w p"]
    by (intro world_fresh_cache [OF put(2), of _ _ "{(key, ans, now + ttl, g)}"]) auto
  then show ?case using world_fresh_requests [of broker _ None r] by fastforce
next
  case (find w r now key p ans g c)
  obtain d where d: "(key, ans, d, g) \<in> set (gw_cache w p)" "set c \<subseteq> set (gw_cache w p)"
    using find_entry_parts [OF find(2)] by auto
  have "world_fresh broker (w\<lparr>gw_cache := (gw_cache w)(p := c)\<rparr>)" using d(2) by (intro world_fresh_cache [OF find(3), of _ _ "{}"]) auto
  moreover have "loaded_fresh broker w p (project_of key) (snd ans) g" using d(1) find(3) unfolding world_fresh_def by blast
  ultimately show ?case using world_fresh_requests [of broker "w\<lparr>gw_cache := (gw_cache w)(p := c)\<rparr>" "Some (Found p key ans g)" r] by simp
next
  case (miss now key w p c)
  then show ?case using find_entry_parts(1) [OF miss(1)] by (intro world_fresh_cache [OF miss(2), of _ _ "{}"]) auto
next
  case (answered w r p key ans g)
  let ?c = "snd (check_entry (geo_generation broker w p (project_of key)) key (Some (ans, g), gw_cache w p))"
  have "world_fresh broker (w\<lparr>gw_cache := (gw_cache w)(p := ?c)\<rparr>)"
    by (intro world_fresh_cache [OF answered(2), of _ _ "{}"]) (simp_all add: check_entry_set)
  then show ?case using world_fresh_requests [of broker "w\<lparr>gw_cache := (gw_cache w)(p := ?c)\<rparr>" None r] by simp
qed

lemma first_world_fresh: "world_fresh broker first_world"
  by (simp add: world_fresh_def first_world_def)

lemma reached_fresh: "(serve_step broker len)\<^sup>*\<^sup>* first_world w \<Longrightarrow> world_fresh broker w"
  by (induction rule: rtranclp_induct) (auto intro: first_world_fresh serve_step_fresh)


text \<open>A run with one change in it, told step by step: request 0 by process 1, an answer found by request 2.\<close>

definition trip_key :: cache_key where
  "trip_key = ((4, ''Alps''), OfCaller ''meta'' 4)"

definition changed_late :: geo_world where
  "changed_late = first_world\<lparr>gw_data := (\<lambda>_. 0)(project_of trip_key := 1),
     gw_gen := (\<lambda>_ _. 0)(None := (\<lambda>_. 0)(project_of trip_key := 1)),
     gw_busted := (\<lambda>_ _. 0)(None := (\<lambda>_. 0)(project_of trip_key := 1)),
     gw_cache := (\<lambda>_. [])(1 := [(trip_key, (0, 1), 300, 1)]),
     gw_requests := [2 \<mapsto> Found 1 trip_key (0, 1) 1]\<rparr>"

lemma put_small: "len ans \<le> 16 * 1024 * 1024 \<Longrightarrow> put_entry geo_bounds len 0 300 key ans g [] = [(key, ans, 300, g)]"
  by (subst put_entry_def) (simp add: geo_bounds_def, subst evict.simps, simp add: over_budget_def cache_bytes_def)

lemma late_change_run:
  assumes "len (0, 1) \<le> 16 * 1024 * 1024"
  shows "(serve_step True len)\<^sup>*\<^sup>* first_world changed_late"
proof -
  let ?P = "project_of trip_key" and ?s = "serve_step True len"
  define w1 where "w1 = first_world\<lparr>gw_requests := [0 \<mapsto> Resolved 1 trip_key 0]\<rparr>"
  define w2 where "w2 = w1\<lparr>gw_data := (\<lambda>_. 0)(?P := 1)\<rparr>"
  define w3 where "w3 = bump_generation True 1 ?P w2"
  define w4 where "w4 = w3\<lparr>gw_requests := [0 \<mapsto> Captured 1 trip_key 0 1]\<rparr>"
  define w5 where "w5 = w3\<lparr>gw_requests := [0 \<mapsto> Loaded 1 trip_key (0, 1) 1]\<rparr>"
  define w6 where "w6 = w3\<lparr>gw_requests := [0 \<mapsto> Checked 1 trip_key (0, 1) 1]\<rparr>"
  define w7 where "w7 = w3\<lparr>gw_cache := (\<lambda>_. [])(1 := [(trip_key, (0, 1), 300, 1)]), gw_requests := \<lambda>_. None\<rparr>"
  note ws = w1_def w2_def w3_def w4_def w5_def w6_def w7_def first_world_def bump_generation_def authority_def geo_generation_def
  have "?s first_world w1" using resolve [of first_world 0 True len 1 trip_key] by (simp add: ws)
  moreover have "?s w1 w2" using commit [of True len w1 ?P] by (simp add: ws fun_upd_def)
  moreover have "?s w2 w3" unfolding w3_def by (rule bump)
  moreover have "?s w3 w4" using capture [of w3 0 1 trip_key 0 True len] by (simp add: ws)
  moreover have "?s w4 w5" using load [of w4 0 1 trip_key 0 1 True len] by (simp add: ws)
  moreover have "?s w5 w6" using check [of w5 0 1 trip_key "(0, 1)" 1 True len] by (simp add: ws)
  moreover have "?s w6 w7" using put [of w6 0 1 trip_key "(0, 1)" 1 True len 0 300] put_small [of len "(0, 1)" trip_key 1, OF assms] by (simp add: ws)
  moreover have "?s w7 changed_late"
    using find [of w7 2 0 trip_key 1 "(0, 1)" 1 "[(trip_key, (0, 1), 300, 1)]" True len]
    by (simp add: find_entry_def changed_late_def ws)
  ultimately show ?thesis by (meson converse_rtranclp_into_rtranclp rtranclp.rtrancl_refl)
qed


text \<open>C14. But the project's own row can be older. The endpoints resolve the project, hence load its row into their session,
  before they capture the generation, and the session hands the same row out again when the answer is built; so there is a
  run in which a change of the row is committed and invalidated in between, and an answer without it is cached under the new
  generation and given to later requests.\<close>

theorem stale_row_is_served:
  "\<exists>w. (serve_step True (\<lambda>_. 1))\<^sup>*\<^sup>* first_world w \<and>
     (\<exists>r row rest. answer_of True w r = Some (row, rest) \<and> row < gw_busted w None (project_of trip_key))"
proof -
  have "(serve_step True (\<lambda>_. 1))\<^sup>*\<^sup>* first_world changed_late" by (rule late_change_run) simp
  moreover have "answer_of True changed_late 2 = Some (0, 1)"
    by (simp add: answer_of_def changed_late_def check_entry_def geo_generation_def authority_def)
  moreover have "0 < gw_busted changed_late None (project_of trip_key)" by (simp add: changed_late_def)
  ultimately show ?thesis by blast
qed

end
