(* ===== verification/Coalesce.thy ===== *)
theory Coalesce
  imports Main
begin

text \<open>
  \<open>_run_coalesced\<close> of \<open>api/project_shared.py\<close>, which collapses the background refreshes of a project's statistics and share
  tiles: at most one worker per key, and a flag that makes it run once more.

  One key, in one process, any number of threads. A step is a critical section of the lock, a read of the project by the
  work or the write of what it derived; the project's data is the number of changes committed to it, and a change asks for
  a refresh after it is committed.
\<close>

subsection \<open>Steps\<close>

datatype refresh_phase = Outside | Working | Derived nat | Deciding | Leaving

record coalesce_state =
  cs_running :: bool
  cs_dirty :: bool
  cs_threads :: "nat \<Rightarrow> refresh_phase"
  cs_data :: nat
  cs_artefact :: nat
  cs_asked :: nat

text \<open>\<open>cs_asked\<close> is no state of the program: it notes the newest data a refresh was asked for.\<close>

definition at_phase :: "nat \<Rightarrow> refresh_phase \<Rightarrow> coalesce_state \<Rightarrow> coalesce_state" where
  "at_phase t ph s = s\<lparr>cs_threads := (cs_threads s)(t := ph)\<rparr>"

text \<open>The first section: a running worker is told to run again, otherwise the caller becomes the worker.\<close>

definition ask :: "nat \<Rightarrow> coalesce_state \<Rightarrow> coalesce_state" where
  "ask t s =
     (if cs_running s then s\<lparr>cs_dirty := True, cs_asked := cs_data s\<rparr>
      else at_phase t Working (s\<lparr>cs_running := True, cs_asked := cs_data s\<rparr>))"

text \<open>After the work: leave, or clear the flag and work again.\<close>

definition decide_rerun :: "nat \<Rightarrow> coalesce_state \<Rightarrow> coalesce_state" where
  "decide_rerun t s = (if \<not> cs_dirty s then at_phase t Leaving s else at_phase t Working (s\<lparr>cs_dirty := False\<rparr>))"

text \<open>\<open>finally\<close>, a critical section of its own.\<close>

definition leave :: "nat \<Rightarrow> coalesce_state \<Rightarrow> coalesce_state" where
  "leave t s = at_phase t Outside (s\<lparr>cs_running := False\<rparr>)"

inductive coalesce_step :: "bool \<Rightarrow> coalesce_state \<Rightarrow> coalesce_state \<Rightarrow> bool" for faulty where
  change: "coalesce_step faulty s (s\<lparr>cs_data := cs_data s + 1\<rparr>)"
| request: "cs_threads s t = Outside \<Longrightarrow> coalesce_step faulty s (ask t s)"
| derive: "cs_threads s t = Working \<Longrightarrow> coalesce_step faulty s (at_phase t (Derived (cs_data s)) s)"
| publish: "cs_threads s t = Derived v \<Longrightarrow> coalesce_step faulty s (at_phase t Deciding (s\<lparr>cs_artefact := v\<rparr>))"
| fault: "faulty \<Longrightarrow> cs_threads s t = Working \<or> (\<exists>v. cs_threads s t = Derived v) \<Longrightarrow> coalesce_step faulty s (at_phase t Leaving s)"
| decision: "cs_threads s t = Deciding \<Longrightarrow> coalesce_step faulty s (decide_rerun t s)"
| left: "cs_threads s t = Leaving \<Longrightarrow> coalesce_step faulty s (leave t s)"

definition at_rest :: coalesce_state where
  "at_rest = \<lparr>cs_running = False, cs_dirty = False, cs_threads = \<lambda>_. Outside, cs_data = 0, cs_artefact = 0, cs_asked = 0\<rparr>"

subsection \<open>One worker\<close>

definition one_worker :: "coalesce_state \<Rightarrow> bool" where
  "one_worker s \<longleftrightarrow>
     (if cs_running s then \<exists>t. cs_threads s t \<noteq> Outside \<and> (\<forall>u. u \<noteq> t \<longrightarrow> cs_threads s u = Outside)
      else \<forall>t. cs_threads s t = Outside)"

definition in_step :: "coalesce_state \<Rightarrow> bool" where
  "in_step s \<longleftrightarrow>
     cs_asked s \<le> cs_data s \<and> cs_artefact s \<le> cs_data s \<and>
     (\<forall>t v. cs_threads s t = Derived v \<longrightarrow> cs_artefact s \<le> v \<and> v \<le> cs_data s)"

text \<open>What the worker owes at each phase, when no work raises.\<close>

fun phase_ok :: "coalesce_state \<Rightarrow> refresh_phase \<Rightarrow> bool" where
  "phase_ok s Outside = True"
| "phase_ok s Working = True"
| "phase_ok s (Derived v) = (cs_asked s \<le> v \<or> cs_dirty s)"
| "phase_ok s Deciding = (cs_asked s \<le> cs_artefact s \<or> cs_dirty s)"
| "phase_ok s Leaving = (cs_asked s \<le> cs_artefact s \<or> cs_dirty s)"

definition nothing_lost :: "coalesce_state \<Rightarrow> bool" where
  "nothing_lost s \<longleftrightarrow>
     (if cs_running s then \<forall>t. phase_ok s (cs_threads s t) else cs_asked s \<le> cs_artefact s \<or> cs_dirty s)"

lemma running_worker: "one_worker s \<Longrightarrow> cs_threads s t \<noteq> Outside \<Longrightarrow> cs_running s \<and> (\<forall>u. u \<noteq> t \<longrightarrow> cs_threads s u = Outside)"
  unfolding one_worker_def by metis

lemma one_worker_move:
  "one_worker s \<Longrightarrow> cs_threads s t \<noteq> Outside \<Longrightarrow> ph \<noteq> Outside \<Longrightarrow> cs_running s' = cs_running s \<Longrightarrow>
    cs_threads s' = (cs_threads s)(t := ph) \<Longrightarrow> one_worker s'"
  using running_worker [of s t] unfolding one_worker_def by (metis fun_upd_apply)

lemma one_worker_step: "coalesce_step faulty s s' \<Longrightarrow> one_worker s \<Longrightarrow> one_worker s'"
proof (induction rule: coalesce_step.induct)
  case (change s)
  then show ?case by (simp add: one_worker_def)
next
  case (request s t)
  then show ?case by (simp add: one_worker_def ask_def at_phase_def)
next
  case (derive s t)
  then show ?case by (intro one_worker_move [OF derive(2), of t "Derived (cs_data s)"]) (simp_all add: at_phase_def)
next
  case (publish s t v)
  then show ?case by (intro one_worker_move [OF publish(2), of t Deciding]) (simp_all add: at_phase_def)
next
  case (fault s t)
  from fault(2) have "cs_threads s t \<noteq> Outside" by (elim disjE exE) simp_all
  then show ?case by (intro one_worker_move [OF fault(3), of t Leaving]) (simp_all add: at_phase_def)
next
  case (decision s t)
  then show ?case
    by (intro one_worker_move [OF decision(2), of t "if \<not> cs_dirty s then Leaving else Working"]) (simp_all add: at_phase_def decide_rerun_def)
next
  case (left s t)
  have "\<forall>u. u \<noteq> t \<longrightarrow> cs_threads s u = Outside" using running_worker [OF left(2), of t] left(1) by simp
  then show ?case by (simp add: one_worker_def leave_def at_phase_def)
qed

lemma in_step_step: "coalesce_step faulty s s' \<Longrightarrow> one_worker s \<Longrightarrow> in_step s \<Longrightarrow> in_step s'"
proof (induction rule: coalesce_step.induct)
  case (publish s t v)
  then show ?case using running_worker [of s t] by (auto simp: in_step_def at_phase_def)
qed (auto simp: in_step_def at_phase_def ask_def decide_rerun_def leave_def le_SucI split: if_splits)

lemma artefact_grows: "coalesce_step faulty s s' \<Longrightarrow> in_step s \<Longrightarrow> cs_artefact s \<le> cs_artefact s'"
  by (induction rule: coalesce_step.induct) (auto simp: in_step_def at_phase_def ask_def decide_rerun_def leave_def)

lemma phase_ok_frame: "phase_ok (s\<lparr>cs_threads := f\<rparr>) ph = phase_ok s ph" "phase_ok (s\<lparr>cs_data := n\<rparr>) ph = phase_ok s ph"
  by (cases ph; simp)+

lemma phase_ok_dirty: "cs_dirty s \<Longrightarrow> phase_ok s ph"
  by (cases ph) simp_all

lemma nothing_lost_move:
  "one_worker s \<Longrightarrow> cs_threads s t \<noteq> Outside \<Longrightarrow> cs_running s' \<Longrightarrow> cs_threads s' = (cs_threads s)(t := ph) \<Longrightarrow>
    phase_ok s' ph \<Longrightarrow> nothing_lost s'"
  using running_worker [of s t] by (simp add: nothing_lost_def)

lemma worker_owes: "one_worker s \<Longrightarrow> nothing_lost s \<Longrightarrow> cs_threads s t = ph \<Longrightarrow> ph \<noteq> Outside \<Longrightarrow> cs_running s \<and> phase_ok s ph"
  using running_worker [of s t] by (auto simp: nothing_lost_def)

lemma nothing_lost_step:
  "coalesce_step False s s' \<Longrightarrow> one_worker s \<Longrightarrow> in_step s \<Longrightarrow> nothing_lost s \<Longrightarrow> nothing_lost s'"
proof (induction rule: coalesce_step.induct)
  case (change s)
  then show ?case by (simp add: nothing_lost_def phase_ok_frame)
next
  case (request s t)
  then show ?case
    by (cases "cs_running s") (simp_all add: nothing_lost_def ask_def at_phase_def one_worker_def phase_ok_dirty)
next
  case (derive s t)
  then have "cs_running s" using worker_owes by blast
  then show ?case using derive by (intro nothing_lost_move [OF derive(2), of t _ "Derived (cs_data s)"]) (simp_all add: at_phase_def in_step_def)
next
  case (publish s t v)
  then have "cs_running s \<and> phase_ok s (Derived v)" using worker_owes by blast
  then show ?case using publish by (intro nothing_lost_move [OF publish(2), of t _ Deciding]) (simp_all add: at_phase_def)
next
  case (decision s t)
  then have "cs_running s \<and> phase_ok s Deciding" using worker_owes by blast
  then have "cs_running s" "\<not> cs_dirty s \<Longrightarrow> cs_asked s \<le> cs_artefact s" by auto
  then show ?case using decision
    by (intro nothing_lost_move [OF decision(2), of t _ "if \<not> cs_dirty s then Leaving else Working"]) (simp_all add: at_phase_def decide_rerun_def)
next
  case (left s t)
  then have "phase_ok s Leaving" using worker_owes by blast
  then show ?case by (simp add: nothing_lost_def at_phase_def leave_def)
qed simp

lemma at_rest_ok: "one_worker at_rest" "in_step at_rest" "nothing_lost at_rest"
  by (simp_all add: one_worker_def in_step_def nothing_lost_def at_rest_def)

lemma reached_ok: "(coalesce_step faulty)\<^sup>*\<^sup>* at_rest s \<Longrightarrow> one_worker s \<and> in_step s"
  by (induction rule: rtranclp_induct) (auto intro: at_rest_ok one_worker_step in_step_step)

lemma reached_lossless: "(coalesce_step False)\<^sup>*\<^sup>* at_rest s \<Longrightarrow> one_worker s \<and> in_step s \<and> nothing_lost s"
  by (induction rule: rtranclp_induct) (auto intro: at_rest_ok one_worker_step in_step_step nothing_lost_step)

subsection \<open>Properties\<close>

text \<open>Refreshes of one key never overlap and never go back. Whatever the threads do, and whether the work raises or not, at
  most one of them is inside, and what is published next was derived from data at least as new as what is published.\<close>

theorem refreshes_run_one_at_a_time:
  assumes "(coalesce_step faulty)\<^sup>*\<^sup>* at_rest s" "coalesce_step faulty s s'" "cs_threads s t \<noteq> Outside" "u \<noteq> t"
  shows "cs_threads s u = Outside \<and> cs_artefact s \<le> cs_artefact s'"
  using reached_ok [OF assms(1)] running_worker [OF _ assms(3)] assms(4) artefact_grows [OF assms(2)] by blast

lemma one_request: "(coalesce_step faulty)\<^sup>*\<^sup>* at_rest (ask 0 at_rest)"
  by (rule r_into_rtranclp, rule request) (simp add: at_rest_def)

lemma one_refresh:
  "(coalesce_step faulty)\<^sup>*\<^sup>* at_rest (at_phase 0 Leaving (ask 0 at_rest))"
proof -
  let ?s = "coalesce_step faulty" and ?w = "ask 0 at_rest"
  note ws = ask_def at_rest_def at_phase_def decide_rerun_def
  have "?s ?w (at_phase 0 (Derived 0) ?w)" using derive [of ?w 0 faulty] by (simp add: ws)
  moreover have "?s (at_phase 0 (Derived 0) ?w) (at_phase 0 Deciding ?w)" using publish [of "at_phase 0 (Derived 0) ?w" 0 0 faulty] by (simp add: ws)
  moreover have "?s (at_phase 0 Deciding ?w) (at_phase 0 Leaving ?w)" using decision [of "at_phase 0 Deciding ?w" 0 faulty] by (simp add: ws)
  ultimately show ?thesis using one_request by (meson rtranclp.rtrancl_into_rtrancl)
qed

theorem refreshes_run_one_at_a_time_witness:
  "(coalesce_step True)\<^sup>*\<^sup>* at_rest (ask 0 at_rest) \<and> cs_threads (ask 0 at_rest) 0 = Working \<and> cs_threads (ask 0 at_rest) 1 = Outside"
proof -
  have "coalesce_step True (ask 0 at_rest) (ask 0 at_rest\<lparr>cs_data := 1\<rparr>)"
    using change [of True "ask 0 at_rest"] by (simp add: ask_def at_rest_def at_phase_def)
  then show ?thesis using refreshes_run_one_at_a_time [OF one_request, of True "ask 0 at_rest\<lparr>cs_data := 1\<rparr>" 0 1] one_request
    by (simp add: ask_def at_rest_def at_phase_def)
qed

text \<open>C16. A burst of changes ends in their newest state. As long as no work raises, when the worker has left and the rerun flag
  is down, what is published was derived from the newest data a refresh was asked for, however many requests were merged.\<close>

theorem finished_refresh_is_current:
  assumes "(coalesce_step False)\<^sup>*\<^sup>* at_rest s" "\<not> cs_running s" "\<not> cs_dirty s"
  shows "cs_asked s \<le> cs_artefact s"
  using reached_lossless [OF assms(1)] assms(2,3) by (simp add: nothing_lost_def)

theorem finished_refresh_is_current_witness:
  "(coalesce_step False)\<^sup>*\<^sup>* at_rest (leave 0 (at_phase 0 Leaving (ask 0 at_rest))) \<and>
     cs_asked (leave 0 (at_phase 0 Leaving (ask 0 at_rest))) \<le> cs_artefact (leave 0 (at_phase 0 Leaving (ask 0 at_rest)))"
proof -
  have run: "(coalesce_step False)\<^sup>*\<^sup>* at_rest (leave 0 (at_phase 0 Leaving (ask 0 at_rest)))"
    by (rule rtranclp.rtrancl_into_rtrancl [OF one_refresh], rule left) (simp add: at_phase_def)
  then show ?thesis using finished_refresh_is_current [OF run] by (simp add: leave_def at_phase_def ask_def at_rest_def)
qed

text \<open>C17. A refresh can be lost all the same. The worker decides to stop in one critical section and stops in another, and a
  request between the two is content with raising the flag: there is a run in which no work raises, after which nobody is
  inside, and a change that asked for its refresh is not published.\<close>

theorem late_request_is_lost:
  "\<exists>s. (coalesce_step False)\<^sup>*\<^sup>* at_rest s \<and> \<not> cs_running s \<and> cs_dirty s \<and> (\<forall>t. cs_threads s t = Outside) \<and> cs_artefact s < cs_asked s"
proof -
  let ?s = "coalesce_step False" and ?leaving = "at_phase 0 Leaving (ask 0 at_rest)"
  let ?changed = "?leaving\<lparr>cs_data := 1\<rparr>"
  note ws = ask_def at_rest_def at_phase_def leave_def
  have "?s ?leaving ?changed" using change [of False ?leaving] by (simp add: ws)
  moreover have "?s ?changed (ask 1 ?changed)" by (rule request) (simp add: ws)
  moreover have "?s (ask 1 ?changed) (leave 0 (ask 1 ?changed))" by (rule left) (simp add: ws)
  ultimately have "(coalesce_step False)\<^sup>*\<^sup>* at_rest (leave 0 (ask 1 ?changed))"
    using one_refresh by (meson rtranclp.rtrancl_into_rtrancl)
  then show ?thesis by (intro exI [of _ "leave 0 (ask 1 ?changed)"]) (auto simp: ws)
qed

end
