(* ===== verification/UpstreamSlots.thy ===== *)
theory UpstreamSlots
  imports PyNumbers "HOL-Library.List_Lexorder" "HOL-Library.Char_ord"
begin

text \<open>
  \<open>src/jobs/upstream_slots.py\<close>: at most a number of requests in flight on a host, across processes, through leases in
  a Redis sorted set, and the cooldown of a host.

  Redis is not part of the repository: its commands are a parameter, an arbitrary record of functions on an
  arbitrary store, and \<open>documented_redis\<close> is what its documentation says of them, used in hypotheses only. The
  calls of \<open>slot\<close> for one name are a step relation: each command of each caller is a step, the steps of different
  callers interleave in any way, any command may fail with or without having taken effect, and leases may vanish.
\<close>

subsection \<open>Commands\<close>

text \<open>The commands on the key of one name: \<open>ZREMRANGEBYSCORE key -inf x\<close>, \<open>ZADD\<close>, \<open>EXPIRE\<close>, \<open>ZRANK\<close>, \<open>ZREM\<close>.\<close>

record 'r redis =
  rd_reclaim :: "rat \<Rightarrow> 'r \<Rightarrow> 'r"
  rd_zadd :: "string \<Rightarrow> rat \<Rightarrow> 'r \<Rightarrow> 'r"
  rd_expire :: "int \<Rightarrow> 'r \<Rightarrow> 'r"
  rd_zrank :: "string \<Rightarrow> 'r \<Rightarrow> nat option"
  rd_zrem :: "string \<Rightarrow> 'r \<Rightarrow> 'r"

text \<open>The members of a sorted set in order: by score, equal scores by the text.\<close>

definition earlier :: "rat \<times> string \<Rightarrow> rat \<times> string \<Rightarrow> bool" where
  "earlier a b \<longleftrightarrow> fst a < fst b \<or> fst a = fst b \<and> snd a < snd b"

definition before :: "(string \<rightharpoonup> rat) \<Rightarrow> rat \<times> string \<Rightarrow> string set" where
  "before m k = {u. \<exists>s. m u = Some s \<and> earlier (s, u) k}"

text \<open>\<open>view\<close> is the sorted set a store holds: the score of each member.\<close>

definition documented_redis :: "'r redis \<Rightarrow> ('r \<Rightarrow> string \<rightharpoonup> rat) \<Rightarrow> bool" where
  "documented_redis R view \<longleftrightarrow>
     (\<forall>r x. view (rd_reclaim R x r) = (\<lambda>t. case view r t of Some s \<Rightarrow> if s \<le> x then None else Some s | None \<Rightarrow> None)) \<and>
     (\<forall>r t s. view (rd_zadd R t s r) = (view r)(t \<mapsto> s)) \<and>
     (\<forall>r n. view (rd_expire R n r) = view r) \<and>
     (\<forall>r t. view (rd_zrem R t r) = (view r)(t := None)) \<and>
     (\<forall>r t. finite (dom (view r)) \<longrightarrow>
        rd_zrank R t r = (case view r t of Some s \<Rightarrow> Some (card (before (view r) (s, t))) | None \<Rightarrow> None))"

subsection \<open>One caller\<close>

datatype phase =
    Start
  | Waiting             \<comment> \<open>about to read the clock\<close>
  | Timed rat
  | Reclaimed rat
  | Added
  | Touched             \<comment> \<open>the key's expiry set, about to ask for the rank\<close>
  | Refused             \<comment> \<open>not among the first, about to withdraw the claim\<close>
  | Missed              \<comment> \<open>this attempt is over\<close>
  | Holding
  | Unpaced             \<comment> \<open>yields True holding nothing\<close>
  | Denied              \<comment> \<open>yields False\<close>
  | Released

record 'r slots =
  sl_store :: 'r
  sl_phase :: "nat \<Rightarrow> phase"

definition goes :: "nat \<Rightarrow> phase \<Rightarrow> 'r \<Rightarrow> 'r slots \<Rightarrow> 'r slots" where
  "goes i ph r s = \<lparr>sl_store = r, sl_phase = (sl_phase s)(i := ph)\<rparr>"

text \<open>The command a caller sends next.\<close>

definition command :: "'r redis \<Rightarrow> string \<Rightarrow> rat \<Rightarrow> phase \<Rightarrow> ('r \<Rightarrow> 'r) option" where
  "command R t ttl ph =
     (case ph of
        Timed now \<Rightarrow> Some (rd_reclaim R (now - ttl))
      | Reclaimed now \<Rightarrow> Some (rd_zadd R t now)
      | Added \<Rightarrow> Some (rd_expire R (trunc_rat ttl + 1))
      | Touched \<Rightarrow> Some (\<lambda>r. r)
      | Refused \<Rightarrow> Some (rd_zrem R t)
      | _ \<Rightarrow> None)"

definition won :: "'r redis \<Rightarrow> string \<Rightarrow> int \<Rightarrow> 'r \<Rightarrow> bool" where
  "won R t limit r = (case rd_zrank R t r of Some rank \<Rightarrow> int rank < limit | None \<Rightarrow> False)"

subsection \<open>All callers\<close>

inductive slot_step :: "'r redis \<Rightarrow> ('r \<Rightarrow> string \<rightharpoonup> rat) \<Rightarrow> (nat \<Rightarrow> string) \<Rightarrow> int \<Rightarrow> rat \<Rightarrow> 'r slots \<Rightarrow> 'r slots \<Rightarrow> bool"
  for R view token limit ttl where
  no_limit: "sl_phase s i = Start \<Longrightarrow> limit \<le> 0 \<Longrightarrow> slot_step R view token limit ttl s (goes i Unpaced (sl_store s) s)"
| start: "sl_phase s i = Start \<Longrightarrow> 0 < limit \<Longrightarrow> slot_step R view token limit ttl s (goes i Waiting (sl_store s) s)"
| clock: "sl_phase s i = Waiting \<Longrightarrow> slot_step R view token limit ttl s (goes i (Timed now) (sl_store s) s)"
| reclaim: "sl_phase s i = Timed now \<Longrightarrow>
    slot_step R view token limit ttl s (goes i (Reclaimed now) (rd_reclaim R (now - ttl) (sl_store s)) s)"
| claim: "sl_phase s i = Reclaimed now \<Longrightarrow>
    slot_step R view token limit ttl s (goes i Added (rd_zadd R (token i) now (sl_store s)) s)"
| touch: "sl_phase s i = Added \<Longrightarrow>
    slot_step R view token limit ttl s (goes i Touched (rd_expire R (trunc_rat ttl + 1) (sl_store s)) s)"
| acquire: "sl_phase s i = Touched \<Longrightarrow> won R (token i) limit (sl_store s) \<Longrightarrow>
    slot_step R view token limit ttl s (goes i Holding (sl_store s) s)"
| lose: "sl_phase s i = Touched \<Longrightarrow> \<not> won R (token i) limit (sl_store s) \<Longrightarrow>
    slot_step R view token limit ttl s (goes i Refused (sl_store s) s)"
| withdraw: "sl_phase s i = Refused \<Longrightarrow>
    slot_step R view token limit ttl s (goes i Missed (rd_zrem R (token i) (sl_store s)) s)"
| again: "sl_phase s i = Missed \<Longrightarrow> slot_step R view token limit ttl s (goes i Waiting (sl_store s) s)"
| timeout: "sl_phase s i = Missed \<Longrightarrow> slot_step R view token limit ttl s (goes i Denied (sl_store s) s)"
| broken: "command R (token i) ttl (sl_phase s i) = Some f \<Longrightarrow> r = sl_store s \<or> r = f (sl_store s) \<Longrightarrow>
    slot_step R view token limit ttl s (goes i Unpaced r s)"
| release: "sl_phase s i = Holding \<Longrightarrow> r = rd_zrem R (token i) (sl_store s) \<or> r = sl_store s \<Longrightarrow>
    slot_step R view token limit ttl s (goes i Released r s)"
| vanish: "view r \<subseteq>\<^sub>m view (sl_store s) \<Longrightarrow> slot_step R view token limit ttl s (s\<lparr>sl_store := r\<rparr>)"

definition fresh :: "('r \<Rightarrow> string \<rightharpoonup> rat) \<Rightarrow> 'r slots \<Rightarrow> bool" where
  "fresh view s \<longleftrightarrow> finite (dom (view (sl_store s))) \<and> (\<forall>i. sl_phase s i = Start)"

text \<open>The callers that hold a slot whose lease is in the set.\<close>

definition holders :: "('r \<Rightarrow> string \<rightharpoonup> rat) \<Rightarrow> (nat \<Rightarrow> string) \<Rightarrow> 'r slots \<Rightarrow> nat set" where
  "holders view token s = {i. sl_phase s i = Holding \<and> view (sl_store s) (token i) \<noteq> None}"

text \<open>A step is in turn if it writes no claim whose time is before the lease of a holder.\<close>

definition in_turn :: "('r \<Rightarrow> string \<rightharpoonup> rat) \<Rightarrow> (nat \<Rightarrow> string) \<Rightarrow> 'r slots \<Rightarrow> 'r slots \<Rightarrow> bool" where
  "in_turn view token s s' \<longleftrightarrow>
     (\<forall>i now. sl_phase s i = Reclaimed now \<longrightarrow> sl_phase s' i \<noteq> Reclaimed now \<longrightarrow>
        (\<forall>j\<in>holders view token s. earlier (the (view (sl_store s) (token j)), token j) (now, token i)))"

definition ordered_step :: "'r redis \<Rightarrow> ('r \<Rightarrow> string \<rightharpoonup> rat) \<Rightarrow> (nat \<Rightarrow> string) \<Rightarrow> int \<Rightarrow> rat \<Rightarrow> 'r slots \<Rightarrow> 'r slots \<Rightarrow> bool" where
  "ordered_step R view token limit ttl s s' \<longleftrightarrow> slot_step R view token limit ttl s s' \<and> in_turn view token s s'"

subsection \<open>The first \<open>limit\<close> leases\<close>

lemma earlier_asym: "earlier a b \<Longrightarrow> \<not> earlier b a"
  by (auto simp: earlier_def)

lemma earlier_trans: "earlier a b \<Longrightarrow> earlier b c \<Longrightarrow> earlier a c"
  by (auto simp: earlier_def)

lemma earlier_total: "a \<noteq> b \<Longrightarrow> earlier a b \<or> earlier b a"
  by (cases a; cases b) (auto simp: earlier_def)

lemma before_finite: "finite (dom m) \<Longrightarrow> finite (before m k)"
  by (rule finite_subset [of _ "dom m"]) (auto simp: before_def)

lemma before_shrinks: "m' \<subseteq>\<^sub>m m \<Longrightarrow> before m' k \<subseteq> before m k"
  by (force simp: before_def map_le_def dom_def)

lemma before_claim: "\<not> earlier (now, t) k \<Longrightarrow> before (m(t \<mapsto> now)) k \<subseteq> before m k"
  by (auto simp: before_def split: if_splits)

lemma before_less:
  assumes "finite (dom m)" "m t = Some s" "earlier (s, t) (s', t')"
  shows "card (before m (s, t)) < card (before m (s', t'))"
proof -
  have "before m (s, t) \<subseteq> before m (s', t')" using assms(3) earlier_trans by (auto simp: before_def)
  moreover have "t \<in> before m (s', t')" "t \<notin> before m (s, t)" using assms by (auto simp: before_def earlier_def)
  ultimately have "before m (s, t) \<subset> before m (s', t')" by blast
  then show ?thesis by (rule psubset_card_mono [OF before_finite [OF assms(1)]])
qed

definition slots_ok :: "('r \<Rightarrow> string \<rightharpoonup> rat) \<Rightarrow> (nat \<Rightarrow> string) \<Rightarrow> int \<Rightarrow> 'r slots \<Rightarrow> bool" where
  "slots_ok view token limit s \<longleftrightarrow>
     finite (dom (view (sl_store s))) \<and>
     (\<forall>i\<in>holders view token s. int (card (before (view (sl_store s)) (the (view (sl_store s) (token i)), token i))) < limit)"

lemma slots_ok_shrinks:
  assumes ok: "slots_ok view token limit s" and le: "view (sl_store s') \<subseteq>\<^sub>m view (sl_store s)"
    and h: "\<And>i. sl_phase s' i = Holding \<Longrightarrow> sl_phase s i = Holding"
  shows "slots_ok view token limit s'"
proof -
  let ?m = "view (sl_store s)" and ?m' = "view (sl_store s')"
  have fin: "finite (dom ?m)" using ok by (simp add: slots_ok_def)
  have "int (card (before ?m' (the (?m' (token i)), token i))) < limit" if i: "i \<in> holders view token s'" for i
  proof -
    obtain x where x: "?m' (token i) = Some x" "?m (token i) = Some x" "i \<in> holders view token s"
      using i le h by (auto simp: holders_def map_le_def dom_def)
    have "card (before ?m' (x, token i)) \<le> card (before ?m (x, token i))"
      by (rule card_mono [OF before_finite [OF fin] before_shrinks [OF le]])
    then show ?thesis using ok x by (force simp: slots_ok_def)
  qed
  then show ?thesis using finite_subset [OF map_le_implies_dom_le [OF le] fin] by (simp add: slots_ok_def)
qed

lemma slots_ok_claim:
  assumes ok: "slots_ok view token limit s" and inj: "inj token" and new: "view (sl_store s') = (view (sl_store s))(token i \<mapsto> now)"
    and ph: "sl_phase s i = Reclaimed now" "\<And>j. sl_phase s' j = Holding \<Longrightarrow> sl_phase s j = Holding"
    and turn: "\<forall>j\<in>holders view token s. earlier (the (view (sl_store s) (token j)), token j) (now, token i)"
  shows "slots_ok view token limit s'"
proof -
  let ?m = "view (sl_store s)" and ?m' = "view (sl_store s')"
  have fin: "finite (dom ?m)" using ok by (simp add: slots_ok_def)
  have "int (card (before ?m' (the (?m' (token j)), token j))) < limit" if j: "j \<in> holders view token s'" for j
  proof -
    have "j \<noteq> i" using j ph by (auto simp: holders_def)
    then have "token j \<noteq> token i" using inj by (simp add: inj_eq)
    then have m: "?m' (token j) = ?m (token j)" and h: "j \<in> holders view token s"
      using j ph(2) by (auto simp: new holders_def)
    have "before ?m' (the (?m (token j)), token j) \<subseteq> before ?m (the (?m (token j)), token j)"
      unfolding new by (rule before_claim) (use turn h earlier_asym in blast)
    then have "card (before ?m' (the (?m (token j)), token j)) \<le> card (before ?m (the (?m (token j)), token j))"
      by (rule card_mono [OF before_finite [OF fin]])
    then show ?thesis using ok h m by (force simp: slots_ok_def)
  qed
  then show ?thesis using fin by (simp add: slots_ok_def new)
qed

lemma slots_ok_acquire:
  assumes ok: "slots_ok view token limit s" and R: "documented_redis R view"
    and w: "won R (token i) limit (sl_store s)" and s': "s' = goes i Holding (sl_store s) s"
  shows "slots_ok view token limit s'"
proof -
  let ?m = "view (sl_store s)"
  have fin: "finite (dom ?m)" using ok by (simp add: slots_ok_def)
  have rank: "rd_zrank R (token i) (sl_store s) = (case ?m (token i) of Some x \<Rightarrow> Some (card (before ?m (x, token i))) | None \<Rightarrow> None)"
    using R fin unfolding documented_redis_def by blast
  have "int (card (before ?m (the (?m (token i)), token i))) < limit"
    using w by (simp add: won_def rank split: option.splits)
  then show ?thesis using ok s' by (auto simp: slots_ok_def holders_def goes_def)
qed

lemma slots_ok_step:
  assumes "ordered_step R view token limit ttl s s'" "documented_redis R view" "inj token" "slots_ok view token limit s"
  shows "slots_ok view token limit s'"
proof -
  have R: "\<And>x r. view (rd_reclaim R x r) \<subseteq>\<^sub>m view r" "\<And>t n r. view (rd_zadd R t n r) = (view r)(t \<mapsto> n)"
    "\<And>n r. view (rd_expire R n r) = view r" "\<And>t r. view (rd_zrem R t r) \<subseteq>\<^sub>m view r"
    using assms(2) by (auto simp: documented_redis_def map_le_def dom_def split: option.splits if_splits)
  have turn: "in_turn view token s s'" and step: "slot_step R view token limit ttl s s'" using assms(1) by (simp_all add: ordered_step_def)
  note quiet = slots_ok_shrinks [OF assms(4)]
  from step show ?thesis
  proof (cases rule: slot_step.cases)
    case (claim i now)
    then show ?thesis
      using turn by (intro slots_ok_claim [OF assms(4,3), of s' i now]) (auto simp: goes_def R in_turn_def split: if_splits)
  next
    case (acquire i)
    then show ?thesis using slots_ok_acquire [OF assms(4,2)] by blast
  next
    case (broken i f r)
    have "view r \<subseteq>\<^sub>m view (sl_store s) \<or> (\<exists>now. sl_phase s i = Reclaimed now \<and> view r = (view (sl_store s))(token i \<mapsto> now))"
      using broken R by (cases "sl_phase s i") (auto simp: command_def)
    then show ?thesis
    proof
      assume "view r \<subseteq>\<^sub>m view (sl_store s)"
      then show ?thesis using broken by (intro quiet) (auto simp: goes_def split: if_splits)
    next
      assume "\<exists>now. sl_phase s i = Reclaimed now \<and> view r = (view (sl_store s))(token i \<mapsto> now)"
      then obtain now where "sl_phase s i = Reclaimed now" "view r = (view (sl_store s))(token i \<mapsto> now)" by blast
      then show ?thesis
        using turn broken by (intro slots_ok_claim [OF assms(4,3), of s' i now]) (auto simp: goes_def in_turn_def split: if_splits)
    qed
  qed (auto intro!: quiet simp: goes_def R split: if_splits)
qed

lemma holders_bound:
  assumes "slots_ok view token limit s" "inj token"
  shows "card (holders view token s) \<le> nat limit"
proof -
  let ?m = "view (sl_store s)"
  let ?rank = "\<lambda>i. card (before ?m (the (?m (token i)), token i))"
  have fin: "finite (dom ?m)" using assms(1) by (simp add: slots_ok_def)
  have "inj_on ?rank (holders view token s)"
  proof (rule inj_onI)
    fix i j
    assume h: "i \<in> holders view token s" "j \<in> holders view token s" and eq: "?rank i = ?rank j"
    obtain x y where xy: "?m (token i) = Some x" "?m (token j) = Some y" using h by (auto simp: holders_def)
    show "i = j"
    proof (rule ccontr)
      assume "i \<noteq> j"
      then have "(x, token i) \<noteq> (y, token j)" using assms(2) by (simp add: inj_eq)
      then show False
        using earlier_total [of "(x, token i)" "(y, token j)"] before_less [OF fin xy(1)] before_less [OF fin xy(2)] eq xy by fastforce
    qed
  qed
  moreover have "?rank ` holders view token s \<subseteq> {..<nat limit}"
    using assms(1) by (force simp: slots_ok_def)
  ultimately show ?thesis using card_inj_on_le [of ?rank _ "{..<nat limit}"] by simp
qed

subsection \<open>One caller's way through\<close>

lemma goes_goes [simp]: "goes i p r (goes i q r' s) = goes i p r s"
  by (simp add: goes_def)

lemma goes_simps [simp]: "sl_store (goes i p r s) = r" "sl_phase (goes i p r s) = (sl_phase s)(i := p)"
  by (simp_all add: goes_def)

lemma caller_starts:
  assumes "sl_phase s i = Start" "0 < limit"
    and Q: "\<And>a b. slot_step R view token limit ttl a b \<Longrightarrow> sl_phase a i \<noteq> Holding \<Longrightarrow> \<forall>j. j \<noteq> i \<longrightarrow> sl_phase a j = sl_phase s j \<Longrightarrow> Q a b"
  shows "Q\<^sup>*\<^sup>* s (goes i (Timed now) (sl_store s) s)"
proof -
  have "Q s (goes i Waiting (sl_store s) s)" using assms by (intro Q) (auto intro: slot_step.start)
  moreover have "slot_step R view token limit ttl (goes i Waiting (sl_store s) s) (goes i (Timed now) (sl_store s) s)"
    using slot_step.clock [of "goes i Waiting (sl_store s) s" i R view token limit ttl now] by simp
  then have "Q (goes i Waiting (sl_store s) s) (goes i (Timed now) (sl_store s) s)" by (rule Q) auto
  ultimately show ?thesis by (meson converse_rtranclp_into_rtranclp rtranclp.rtrancl_refl)
qed

lemma caller_claims:
  assumes ph: "sl_phase s i = Timed now"
    and r1: "r1 = rd_reclaim R (now - ttl) (sl_store s)" and r2: "r2 = rd_zadd R (token i) now r1"
    and r3: "r3 = rd_expire R (trunc_rat ttl + 1) r2" and w: "won R (token i) limit r3"
    and Q: "\<And>a b. slot_step R view token limit ttl a b \<Longrightarrow> sl_phase a i \<noteq> Holding \<Longrightarrow> \<forall>j. j \<noteq> i \<longrightarrow> sl_phase a j = sl_phase s j \<Longrightarrow> Q a b"
  shows "Q\<^sup>*\<^sup>* s (goes i Holding r3 s)"
proof -
  have "Q s (goes i (Reclaimed now) r1 s)" using ph unfolding r1 by (intro Q slot_step.reclaim) auto
  moreover have "slot_step R view token limit ttl (goes i (Reclaimed now) r1 s) (goes i Added r2 s)"
    using slot_step.claim [of "goes i (Reclaimed now) r1 s" i now R view token limit ttl] r2 by simp
  then have "Q (goes i (Reclaimed now) r1 s) (goes i Added r2 s)" by (rule Q) auto
  moreover have "slot_step R view token limit ttl (goes i Added r2 s) (goes i Touched r3 s)"
    using slot_step.touch [of "goes i Added r2 s" i R view token limit ttl] r3 by simp
  then have "Q (goes i Added r2 s) (goes i Touched r3 s)" by (rule Q) auto
  moreover have "slot_step R view token limit ttl (goes i Touched r3 s) (goes i Holding r3 s)"
    using slot_step.acquire [of "goes i Touched r3 s" i R token limit view ttl] w by simp
  then have "Q (goes i Touched r3 s) (goes i Holding r3 s)" by (rule Q) auto
  ultimately show ?thesis by (meson converse_rtranclp_into_rtranclp rtranclp.rtrancl_refl)
qed

subsection \<open>A sorted set\<close>

text \<open>A store that is the sorted set itself.\<close>

definition map_redis :: "(string \<rightharpoonup> rat) redis" where
  "map_redis =
     \<lparr>rd_reclaim = (\<lambda>x r t. case r t of Some s \<Rightarrow> if s \<le> x then None else Some s | None \<Rightarrow> None),
      rd_zadd = (\<lambda>t s r. r(t \<mapsto> s)), rd_expire = (\<lambda>n r. r),
      rd_zrank = (\<lambda>t r. case r t of Some s \<Rightarrow> Some (card (before r (s, t))) | None \<Rightarrow> None), rd_zrem = (\<lambda>t r. r(t := None))\<rparr>"

lemma map_redis_documented: "documented_redis map_redis (\<lambda>r. r)"
  by (simp add: documented_redis_def map_redis_def)

definition some_token :: "nat \<Rightarrow> string" where "some_token i = replicate i CHR ''a''"

lemma some_token_inj: "inj some_token"
  by (rule inj_on_inverseI [of _ length]) (simp add: some_token_def)

definition no_leases :: "(string \<rightharpoonup> rat) slots" where
  "no_leases = \<lparr>sl_store = (\<lambda>_. None), sl_phase = (\<lambda>_. Start)\<rparr>"

lemma no_leases_fresh: "fresh (\<lambda>r. r) no_leases"
  by (simp add: fresh_def no_leases_def)

subsection \<open>Properties\<close>

lemma ordered_run_ok:
  assumes "(ordered_step R view token limit ttl)\<^sup>*\<^sup>* s s'" "documented_redis R view" "inj token" "slots_ok view token limit s"
  shows "slots_ok view token limit s'"
  using assms(1) by (induction rule: rtranclp_induct) (use assms(2-) slots_ok_step in blast)+

text \<open>C18. As long as claims are written in the order of the times they carry, no more callers hold a slot than the limit
  allows, however the commands of any number of callers interleave, which of them fail, and whatever leases are
  lost: the first leases are the ones that count, and a later claim does not move them.\<close>

theorem no_more_than_limit_hold:
  assumes "documented_redis R view" "inj token" "fresh view s" "(ordered_step R view token limit ttl)\<^sup>*\<^sup>* s s'"
  shows "card (holders view token s') \<le> nat limit"
proof -
  have "slots_ok view token limit s" using assms(3) by (simp add: slots_ok_def fresh_def holders_def)
  then show ?thesis using holders_bound ordered_run_ok [OF assms(4,1,2)] assms(2) by blast
qed

theorem no_more_than_limit_hold_witness:
  "\<exists>s'. (ordered_step map_redis (\<lambda>r. r) some_token 1 60)\<^sup>*\<^sup>* no_leases s' \<and> sl_phase s' 0 = Holding \<and>
     card (holders (\<lambda>r. r) some_token s') \<le> 1"
proof -
  let ?Q = "ordered_step map_redis (\<lambda>r. r) some_token 1 60"
  let ?r = "[some_token 0 \<mapsto> (5::rat)]"
  have Q: "?Q a b" if "slot_step map_redis (\<lambda>r. r) some_token 1 60 a b" "sl_phase a 0 \<noteq> Holding"
    "\<forall>j. j \<noteq> 0 \<longrightarrow> sl_phase a j = Start" for a b
  proof -
    have "sl_phase a j \<noteq> Holding" for j using that(2,3) by (cases "j = 0") auto
    then show ?thesis using that(1) by (simp add: ordered_step_def in_turn_def holders_def)
  qed
  have st: "?Q\<^sup>*\<^sup>* no_leases (goes 0 (Timed 5) (\<lambda>_. None) no_leases)"
    using caller_starts [of no_leases 0 1 map_redis "\<lambda>r. r" some_token 60 ?Q 5] Q by (simp add: no_leases_def)
  have "before ?r (5, some_token 0) = {}" by (auto simp: before_def earlier_def split: if_splits)
  then have "won map_redis (some_token 0) 1 ?r" by (simp add: won_def map_redis_def)
  then have "?Q\<^sup>*\<^sup>* (goes 0 (Timed 5) (\<lambda>_. None) no_leases) (goes 0 Holding ?r no_leases)"
    using caller_claims [of "goes 0 (Timed 5) (\<lambda>_. None) no_leases" 0 5 "\<lambda>_. None" map_redis 60 ?r some_token ?r 1 "\<lambda>r. r" ?Q] Q
    by (simp add: map_redis_def no_leases_def)
  then have run: "?Q\<^sup>*\<^sup>* no_leases (goes 0 Holding ?r no_leases)" using st by simp
  show ?thesis
    using no_more_than_limit_hold [OF map_redis_documented some_token_inj no_leases_fresh run] run
    by (intro exI [of _ "goes 0 Holding ?r no_leases"]) simp
qed

text \<open>C19. The clock is read before the claim is written. A caller that is slow between the two writes a claim older than
  the lease of one that came after it and already holds the last slot: it ranks first too, and with a limit of one,
  two hold.\<close>

theorem late_claim_overshoots:
  "documented_redis map_redis (\<lambda>r. r) \<and> fresh (\<lambda>r. r) no_leases \<and>
   (\<exists>s'. (slot_step map_redis (\<lambda>r. r) some_token 1 60)\<^sup>*\<^sup>* no_leases s' \<and> card (holders (\<lambda>r. r) some_token s') = 2)"
proof -
  let ?Q = "slot_step map_redis (\<lambda>r. r) some_token 1 60"
  let ?s1 = "goes 0 (Timed 5) (\<lambda>_. None) no_leases"
  let ?s2 = "goes 1 (Timed 6) (\<lambda>_. None) ?s1"
  let ?r1 = "[some_token 1 \<mapsto> (6::rat)]" and ?r2 = "[some_token 1 \<mapsto> (6::rat), some_token 0 \<mapsto> 5]"
  let ?s3 = "goes 1 Holding ?r1 ?s2" and ?s4 = "goes 0 Holding ?r2 (goes 1 Holding ?r1 ?s2)"
  have "?Q\<^sup>*\<^sup>* no_leases ?s1"
    using caller_starts [of no_leases 0 1 map_redis "\<lambda>r. r" some_token 60 ?Q 5] by (simp add: no_leases_def)
  moreover have "?Q\<^sup>*\<^sup>* ?s1 ?s2"
    using caller_starts [of ?s1 1 1 map_redis "\<lambda>r. r" some_token 60 ?Q 6] by (simp add: no_leases_def)
  moreover have "?Q\<^sup>*\<^sup>* ?s2 ?s3"
  proof (rule caller_claims [of ?s2 1 6 "\<lambda>_. None" map_redis 60 ?r1 some_token ?r1 1 "\<lambda>r. r" ?Q])
    have "before ?r1 (6, some_token 1) = {}" by (auto simp: before_def earlier_def split: if_splits)
    then show "won map_redis (some_token 1) 1 ?r1" by (simp add: won_def map_redis_def)
  qed (simp_all add: map_redis_def)
  moreover have "?Q\<^sup>*\<^sup>* ?s3 ?s4"
  proof (rule caller_claims [of ?s3 0 5 ?r1 map_redis 60 ?r2 some_token ?r2 1 "\<lambda>r. r" ?Q])
    have "some_token 0 \<noteq> some_token 1" by (simp add: some_token_def)
    then have "before ?r2 (5, some_token 0) = {}" by (auto simp: before_def earlier_def split: if_splits)
    then show "won map_redis (some_token 0) 1 ?r2" by (simp add: won_def map_redis_def)
  qed (auto simp: map_redis_def split: option.splits)
  ultimately have run: "?Q\<^sup>*\<^sup>* no_leases ?s4" by (meson rtranclp_trans)
  have "holders (\<lambda>r. r) some_token ?s4 = {0, 1}"
    by (auto simp: holders_def no_leases_def some_token_def split: if_splits)
  then have "card (holders (\<lambda>r. r) some_token ?s4) = 2" by simp
  then show ?thesis using run map_redis_documented no_leases_fresh by blast
qed

subsection \<open>Cooldowns\<close>

text \<open>The broker for cooldowns, again a parameter: \<open>SETEX\<close> and \<open>EXISTS\<close>, \<open>None\<close> when the call raises. The state is the
  process's own times and the store.\<close>

record 'r broker =
  br_setex :: "string \<Rightarrow> int \<Rightarrow> string \<Rightarrow> 'r \<Rightarrow> 'r option"
  br_exists :: "string \<Rightarrow> 'r \<Rightarrow> nat option"

definition mark_cooling :: "'r broker option \<Rightarrow> rat \<Rightarrow> string \<Rightarrow> rat \<Rightarrow> (string \<rightharpoonup> rat) \<times> 'r \<Rightarrow> (string \<rightharpoonup> rat) \<times> 'r" where
  "mark_cooling client now name seconds st =
     (let until = now + seconds; (here, r) = st; here' = here(name \<mapsto> until) in
      case client of
        None \<Rightarrow> (here', r)
      | Some c \<Rightarrow>
          (case br_setex c (''cooldown:'' @ name) (trunc_rat seconds + 1) (py_str (JFloat (Fin until))) r of
             Some r' \<Rightarrow> (here', r')
           | None \<Rightarrow> (here', r)))"

definition is_cooling :: "'r broker option \<Rightarrow> rat \<Rightarrow> string \<Rightarrow> (string \<rightharpoonup> rat) \<times> 'r \<Rightarrow> bool" where
  "is_cooling client now name st =
     (let (here, r) = st in
      if (case here name of Some until \<Rightarrow> until | None \<Rightarrow> 0) > now then True
      else case client of None \<Rightarrow> False | Some c \<Rightarrow> br_exists c (''cooldown:'' @ name) r = Some 1)"

text \<open>A process that was told to wait does, whatever the broker answers then or later.\<close>

lemma cooling_is_honoured:
  "t < now + seconds \<Longrightarrow> is_cooling client' t name (fst (mark_cooling client now name seconds st), r)"
  by (cases st) (auto simp: mark_cooling_def is_cooling_def Let_def split: option.splits)

end
