(* ===== verification/Spec2Isabelle.thy ===== *)
theory Spec2Isabelle
  imports WithdrawalSafety Usage PhotoOrder Elevation RateLimit ItemRows TripLock ZipImport PreparedGeo GeoCache Coalesce UpstreamSlots
begin

text \<open>
  \<^bold>\<open>TraxJourney, verified.\<close> TraxJourney is a web service for travel journals: trips (projects) of recorded
  activities, connecting segments, memories, journal entries and encounters, shared with companions,
  with paid plans. This development models the parts of its Python server that carry decisions a user
  or the bank would notice, and proves that they do what they promise. Paths below are under
  \<open>src/\<close> of the repository.

  \<^bold>\<open>The parts and their theories.\<close>

  \<^item> \<open>TJ_Prelude\<close>, \<open>PyNumbers\<close>, \<open>Json\<close>, \<open>Calendar\<close>, \<open>FileSystem\<close>: the Python the code relies on. Results as
    sums (\<open>Inl\<close> a raised exception), \<open>int\<close>, \<open>float\<close>, \<open>str\<close> and \<open>round\<close> on texts and numbers, decoded JSON
    values, the proleptic calendar of \<open>datetime\<close> (ordinals, \<open>fromisoformat\<close>, UTC months), paths with symbolic
    links.

  \<^item> Plans and quotas. \<open>Plans\<close> (\<open>src/billing/plans.py\<close>): the catalogue, its limits from the environment, the
    lookup keys of prices. \<open>BillingModels\<close> (\<open>models/billing.py\<close>): the billing rows. \<open>TripDays\<close>
    (\<open>src/billing/trip_days.py\<close>): the length of a trip. \<open>Entitlements\<close> (\<open>src/billing/entitlements.py\<close>): the plan
    in force and every \<open>ensure_*\<close> guard. Lemmas: each guard refuses exactly past the limit, billing off means
    no limit, the recommended plan is the weakest sufficient one, a plan lapses and does not come back.

  \<^item> Payments. \<open>WebhookEvents\<close> (\<open>src/billing/webhook_events.py\<close>): what an event of the provider grants.
    \<open>Subscriptions\<close> (\<open>src/billing/subscriptions.py\<close>): events applied to rows, with the contract bookkeeping;
    the locale \<open>at_least_once\<close> is the interface of a consumer of redelivered events and is interpreted for
    updates, schedules and refund failures. \<open>Refunds\<close> (\<open>src/billing/refunds.py\<close>): the withdrawal window and
    the pro-rata amount. \<open>Withdrawal\<close> (\<open>src/billing/gateway.py\<close>, \<open>withdrawal.py\<close>): the refund ledger and every
    operation on it. \<open>WithdrawalSafety\<close>: the ledger as a step relation, its invariant, the locale
    \<open>ledger_operation\<close> interpreted for settling, requesting and resolving; amounts stay frozen, claims exclude
    and fence each other, a failed refund is owed once, a withdrawal in time is refunded.

  \<^item> Storage. \<open>Usage\<close> (\<open>src/billing/usage.py\<close>, \<open>src/admin/storage.py\<close>, \<open>src/utils/photo_paths.py\<close>): the storage
    counter under concurrent uploads (a step relation over calls in flight), its reconciliation with the
    disk, and that a stored photo name cannot reach outside its folder.

  \<^item> Photos. \<open>PhotoOrder\<close> (\<open>api/photo_order.py\<close>): placement by rank; the order in which downloads finish does
    not matter, edits keep the order, the stored state stays well formed and survives the column.

  \<^item> Trips. \<open>TripModels\<close> (\<open>src/models/memory.py\<close>, \<open>journal.py\<close>, \<open>encounter.py\<close>, parts of \<open>project.py\<close>, \<open>activity.py\<close>,
    \<open>value_bounds.py\<close>, \<open>person.py\<close>, \<open>src/project/memory_match.py\<close>): the data and its dict form. \<open>TripProject\<close>
    (\<open>src/models/project.py\<close>): adding activities, the chronological place, sorting, moving, day gaps.
    \<open>ProjectAccess\<close> (\<open>api/project_access.py\<close>, with the edits of \<open>api/project_items.py\<close> and the insertion of
    \<open>api/memories.py\<close>): roles, and the translation of indices between what a companion sees and the whole
    list; the lemmas say that an edit of the whole list is the same edit of the view. \<open>ItemRows\<close>
    (\<open>src/project/repo_items.py\<close>): the item rows, saved as a difference; the lemmas say that the table then
    holds exactly the list. \<open>TripLock\<close> (\<open>src/project/repo_retry.py\<close>, the version check of \<open>repo_core.py\<close>): concurrent
    edits as a step relation over loads and saves; no committed edit is lost.

  \<^item> Elevation. \<open>Elevation\<close> (\<open>src/project/elevation_codec.py\<close>, \<open>elevation_downsample.py\<close>): the codec and its round
    trip, also of a truncated text; the downsampled profile as an increasing selection with the extremes.

  \<^item> Tracks. \<open>TrackGain\<close> (\<open>src/models/track_edit.py\<close>): the ascent of a recording (noise, smoothing, hysteresis)
    and its correction by a terrain model; the one-pass algorithms are what they compute, the ascent counts
    climbs. \<open>TrackRepair\<close> (the rest of \<open>track_edit.py\<close>, \<open>haversine_km\<close>): profiles stored and read back, gaps,
    repair of stored figures, metrics of an edited track. \<open>Simplify\<close> (\<open>src/models/simplify.py\<close>): lines simplified
    for the zoom they are seen at; levels computed once serve every zoom, what is dropped is within the
    tolerance, and the box a cache is keyed by covers the box asked for.

  \<^item> Trip files. \<open>IsoTime\<close> and \<open>JsonText\<close>: \<open>datetime.fromisoformat\<close> with its inverse, and \<open>json.loads\<close>.
    \<open>TripSchema\<close> (\<open>src/project/traxj_schema.py\<close>): the values no field may hold, the models of the format as
    data, the messages; the walk over a document is the plain recursion, a message says nothing of the
    file's content. \<open>TripNormalise\<close> (the rest of that file): what past writers stored, repaired; the memo of
    chains and the changes in place make no difference. \<open>Activities\<close> (\<open>src/models/activity.py\<close>): an activity
    and its dict form; \<open>ActivityImport\<close>: one the format accepts survives import and export. \<open>ProjectIO\<close>
    (\<open>src/project/project_io.py\<close>) and \<open>TripImport\<close>: a file read is a whole trip or refused, an exported trip is
    imported again. \<open>ZipImport\<close> (\<open>src/project/zip_import.py\<close>): an archive with photos, read whole within its limits or
    leaving nothing behind, also when it was unzipped and zipped again.

  \<^item> Maps. \<open>PreparedGeo\<close> (\<open>src/models/prepared_geo.py\<close>, the serving of \<open>api/geo.py\<close>, \<open>store_prepared_geometry\<close> in
    \<open>src/project/repo_activities.py\<close>, \<open>src/jobs/prepared_geo_jobs.py\<close>): the binary format of prepared lines, bytes as
    words; a prepared line serves what its track would, the rows stay in step with the tracks under concurrent
    writers (a step relation), the backfill reaches every track. \<open>GeoCache\<close> (\<open>api/geo.py\<close>, the cached endpoints of
    \<open>api/projects.py\<close>): the payload caches, within their budget, and the generation guard as a step relation over
    requests, changes and invalidations of many processes: no answer is older than the last invalidation, but for
    the project's own row. \<open>Coalesce\<close> (\<open>_run_coalesced\<close> in \<open>api/project_shared.py\<close>): one worker per key, what a
    finished refresh reflects, and the request that is lost.

  \<^item> Upstream hosts. \<open>UpstreamSlots\<close> (\<open>src/jobs/upstream_slots.py\<close>): slots held through leases in a store that is
    a parameter, the steps of the callers interleaved and failing in any way; the limit holds when claims are written in
    the order of their times, and not otherwise.

  \<^item> Mail. \<open>RateLimit\<close> (\<open>src/utils/rate_limit.py\<close>): the limiter refines the sliding-window contract, through the
    locale \<open>lockstep\<close> (one call simulated gives every sequence of calls).

  \<^bold>\<open>How the code is represented.\<close> A class or table row is a record, a table a list of rows, a dict an
  association list without repeated keys, an exception the left side of a sum or \<open>None\<close>. A function that
  changes state returns the new state. Times are rationals (seconds) and arguments; floats are exact
  rationals, so IEEE rounding is not modelled, except that values at or beyond the largest double are
  infinite. Texts are byte strings (the elevation codec: code points), JSON columns the value their
  text decodes to. The payment provider is a record of arbitrary functions on the world; other
  requests may interfere during its calls. Randomness (tokens, stand-in ids) is a sequence of draws.

  \<^bold>\<open>Bounds and fuel.\<close> Path resolution follows at most 40 links, the limit of the operating system, and fails
  beyond. No other function has fuel: loops are recursive functions with a termination proof, but for the
  search of a stand-in id, which is partial and proved to return for a fair source of draws. Years run
  from 1 to 9999 as in \<open>datetime\<close>.

  \<^bold>\<open>Not modelled.\<close> HTTP routing, authentication, e-mail, the database engine and its sessions, the job queue and
  worker (\<open>src/jobs/queue.py\<close>, \<open>worker.py\<close>, \<open>route_jobs.py\<close>), the Stripe client behind the gateway, image and video
  processing, poster rendering, rail and Overpass routing, Strava and Polarsteps clients, migrations, scripts, and the
  Flutter client: they are made of calls to services and libraries outside the repository. The ingest of a file into rows
  (\<open>repo_transfer.py\<close>) and the persistence of activities (\<open>repo_activities.py\<close>) beyond what concerns the prepared lines
  are ORM work around the operations modelled here. The reader of zip archives is a parameter. The builder of GeoJSON features and the third-party polyline decoder are not modelled; the decoder is a
  parameter.
\<close>

end
